(* ===== verification/Prelude.thy ===== *)
theory Prelude
  imports Main "HOL-Library.Word" "HOL-Library.Product_Lexorder" "HOL-Library.Multiset"
begin

text \<open>
  The vocabulary the components share: the machine types of the Rust sources, the parts of
  Rust's standard library they call (saturating arithmetic, \<open>BTreeMap\<close>, the iterator
  searches, ASCII string operations) as executable definitions, and the generic lemmas about
  them. \<open>usize\<close> sequence numbers and \<open>u64\<close> cycle numbers are \<open>nat\<close> with the saturation
  bounds written out; addresses, register data, checkpoint ids and epochs are words, because
  the code wraps them.
\<close>

unbundle bit_operations_syntax

named_theorems stage_simps \<open>closed forms of the queue-moving loops\<close>
named_theorems btree_simps \<open>lookups after the operations of an ordered map\<close>
named_theorems frame_simps \<open>fields an operation leaves alone\<close>

type_synonym u8 = "8 word"
type_synonym u16 = "16 word"
type_synonym u32 = "32 word"
type_synonym u64 = "64 word"
type_synonym usize = nat
type_synonym cyc = nat

section \<open>Saturating and unsigned arithmetic\<close>

definition u64_max :: nat where
  "u64_max = 2 ^ 64 - 1"

definition usize_max :: nat where
  "usize_max = 2 ^ 64 - 1"

definition sat_add :: "nat \<Rightarrow> nat \<Rightarrow> nat" where
  "sat_add a b = min (a + b) u64_max"

definition sat_sub :: "nat \<Rightarrow> nat \<Rightarrow> nat" where
  "sat_sub a b = a - b"

definition sat_mul :: "nat \<Rightarrow> nat \<Rightarrow> nat" where
  "sat_mul a b = min (a * b) u64_max"

definition word_sat_add :: "'a::len word \<Rightarrow> 'a word \<Rightarrow> 'a word" where
  "word_sat_add a b = (if a + b < a then - 1 else a + b)"

section \<open>Fixed arrays of two elements\<close>

definition at2 :: "'a \<times> 'a \<Rightarrow> nat \<Rightarrow> 'a" where
  "at2 p i = (if i = 0 then fst p else snd p)"

definition upd2 :: "'a \<times> 'a \<Rightarrow> nat \<Rightarrow> 'a \<Rightarrow> 'a \<times> 'a" where
  "upd2 p i x = (if i = 0 then (x, snd p) else (fst p, x))"

section \<open>Iterator searches\<close>

fun find_map :: "('a \<Rightarrow> 'b option) \<Rightarrow> 'a list \<Rightarrow> 'b option" where
  "find_map f [] = None"
| "find_map f (x # xs) = (case f x of Some y \<Rightarrow> Some y | None \<Rightarrow> find_map f xs)"

fun position :: "('a \<Rightarrow> bool) \<Rightarrow> 'a list \<Rightarrow> nat option" where
  "position P [] = None"
| "position P (x # xs) = (if P x then Some 0 else map_option Suc (position P xs))"

definition min_by_key :: "('a \<Rightarrow> 'k::linorder) \<Rightarrow> 'a list \<Rightarrow> 'a option" where
  "min_by_key f xs = (case xs of [] \<Rightarrow> None
     | x # ys \<Rightarrow> Some (foldl (\<lambda>a y. if f y < f a then y else a) x ys))"

definition max_by_key :: "('a \<Rightarrow> 'k::linorder) \<Rightarrow> 'a list \<Rightarrow> 'a option" where
  "max_by_key f xs = (case xs of [] \<Rightarrow> None
     | x # ys \<Rightarrow> Some (foldl (\<lambda>a y. if f a \<le> f y then y else a) x ys))"

fun dedup_by_key :: "('a \<Rightarrow> 'k) \<Rightarrow> 'a list \<Rightarrow> 'a list" where
  "dedup_by_key f [] = []"
| "dedup_by_key f [x] = [x]"
| "dedup_by_key f (x # y # xs) =
     (if f x = f y then dedup_by_key f (x # xs) else x # dedup_by_key f (y # xs))"

definition set_min :: "nat set \<Rightarrow> nat option" where
  "set_min S = (if S = {} then None else Some (Min S))"

definition opt_filter :: "('a \<Rightarrow> bool) \<Rightarrow> 'a option \<Rightarrow> 'a option" where
  "opt_filter P x = (case x of Some y \<Rightarrow> if P y then Some y else None | None \<Rightarrow> None)"

definition opt_or :: "'a option \<Rightarrow> 'a option \<Rightarrow> 'a option" where
  "opt_or x y = (case x of Some z \<Rightarrow> Some z | None \<Rightarrow> y)"

definition opt_zip :: "'a option \<Rightarrow> 'b option \<Rightarrow> ('a \<times> 'b) option" where
  "opt_zip x y = (case x of Some a \<Rightarrow> map_option (Pair a) y | None \<Rightarrow> None)"

definition then_some :: "bool \<Rightarrow> 'a \<Rightarrow> 'a option" where
  "then_some b x = (if b then Some x else None)"

definition unwrap_or :: "'a option \<Rightarrow> 'a \<Rightarrow> 'a" where
  "unwrap_or x d = (case x of Some y \<Rightarrow> y | None \<Rightarrow> d)"

definition vec_get :: "'a list \<Rightarrow> nat \<Rightarrow> 'a option" where
  "vec_get xs i = (if i < length xs then Some (xs ! i) else None)"

section \<open>Ordered maps (\<open>BTreeMap\<close>): association lists sorted by key\<close>

type_synonym ('k, 'v) btree_map = "('k \<times> 'v) list"

definition bt_wf :: "('k::linorder, 'v) btree_map \<Rightarrow> bool" where
  "bt_wf m = sorted_wrt (<) (map fst m)"

definition bt_get :: "('k, 'v) btree_map \<Rightarrow> 'k \<Rightarrow> 'v option" where
  "bt_get m k = map_of m k"

fun bt_insert :: "'k::linorder \<Rightarrow> 'v \<Rightarrow> ('k, 'v) btree_map \<Rightarrow> ('k, 'v) btree_map" where
  "bt_insert k v [] = [(k, v)]"
| "bt_insert k v ((k', v') # m) =
     (if k < k' then (k, v) # (k', v') # m
      else if k = k' then (k, v) # m
      else (k', v') # bt_insert k v m)"

definition bt_remove :: "'k \<Rightarrow> ('k, 'v) btree_map \<Rightarrow> ('k, 'v) btree_map" where
  "bt_remove k m = filter (\<lambda>e. fst e \<noteq> k) m"

definition bt_retain :: "('k \<Rightarrow> bool) \<Rightarrow> ('k, 'v) btree_map \<Rightarrow> ('k, 'v) btree_map" where
  "bt_retain P m = filter (\<lambda>e. P (fst e)) m"

definition bt_or_insert :: "'k::linorder \<Rightarrow> 'v \<Rightarrow> ('k, 'v) btree_map \<Rightarrow> ('k, 'v) btree_map" where
  "bt_or_insert k v m = (if bt_get m k = None then bt_insert k v m else m)"

section \<open>Strings\<close>

definition ascii_upper :: "char \<Rightarrow> char" where
  "ascii_upper c = (let n = (of_char c :: nat) in
     if 97 \<le> n \<and> n \<le> 122 then char_of (n - 32) else c)"

definition ascii_lower :: "char \<Rightarrow> char" where
  "ascii_lower c = (let n = (of_char c :: nat) in
     if 65 \<le> n \<and> n \<le> 90 then char_of (n + 32) else c)"

definition to_ascii_uppercase :: "string \<Rightarrow> string" where
  "to_ascii_uppercase s = map ascii_upper s"

definition to_ascii_lowercase :: "string \<Rightarrow> string" where
  "to_ascii_lowercase s = map ascii_lower s"

fun starts_with :: "string \<Rightarrow> string \<Rightarrow> bool" where
  "starts_with s [] = True"
| "starts_with [] (p # ps) = False"
| "starts_with (c # s) (p # ps) = (c = p \<and> starts_with s ps)"

fun str_find :: "string \<Rightarrow> string \<Rightarrow> nat option" where
  "str_find [] p = (if p = [] then Some 0 else None)"
| "str_find (c # s) p =
     (if starts_with (c # s) p then Some 0 else map_option Suc (str_find s p))"

definition str_contains :: "string \<Rightarrow> string \<Rightarrow> bool" where
  "str_contains s p = (str_find s p \<noteq> None)"

definition is_ascii_digit :: "char \<Rightarrow> bool" where
  "is_ascii_digit c = (48 \<le> (of_char c :: nat) \<and> (of_char c :: nat) \<le> 57)"

definition parse_usize :: "string \<Rightarrow> usize option" where
  "parse_usize ds =
     (let n = foldl (\<lambda>a c. 10 * a + (of_char c - 48)) (0::nat) ds
      in if ds \<noteq> [] \<and> list_all is_ascii_digit ds \<and> n \<le> usize_max then Some n else None)"

fun show_nat :: "nat \<Rightarrow> string" where
  "show_nat n = (if n < 10 then [char_of (48 + n)]
     else show_nat (n div 10) @ [char_of (48 + n mod 10)])"

declare show_nat.simps [simp del]

definition hex_digit :: "nat \<Rightarrow> char" where
  "hex_digit n = (if n < 10 then char_of (48 + n) else char_of (87 + n))"

fun show_hex :: "nat \<Rightarrow> string" where
  "show_hex n = (if n < 16 then [hex_digit n] else show_hex (n div 16) @ [hex_digit (n mod 16)])"

declare show_hex.simps [simp del]

definition pad_left :: "nat \<Rightarrow> char \<Rightarrow> string \<Rightarrow> string" where
  "pad_left w c s = replicate (w - length s) c @ s"

section \<open>Lemmas on arithmetic, arrays and options\<close>

lemma sat_add_exact [simp]: "a + b \<le> u64_max \<Longrightarrow> sat_add a b = a + b"
  by (simp add: sat_add_def)

lemma sat_add_mono: "a \<le> u64_max \<Longrightarrow> a \<le> sat_add a b"
  by (simp add: sat_add_def)

lemma word_sat_add_exact:
  "unat a + unat b < 2 ^ LENGTH('a) \<Longrightarrow> word_sat_add (a::'a::len word) b = a + b"
  by (auto simp: word_sat_add_def word_less_nat_alt unat_word_ariths)

lemma at2_upd2 [simp]:
  "at2 (upd2 p i x) j = (if (i = 0) = (j = 0) then x else at2 p j)"
  by (simp add: at2_def upd2_def)

lemma at2_pair [simp]: "at2 (a, b) 0 = a" "at2 (a, b) (Suc i) = b"
  by (simp_all add: at2_def)

lemma opt_filter_Some [simp]: "opt_filter P x = Some y \<longleftrightarrow> x = Some y \<and> P y"
  by (auto simp: opt_filter_def split: option.splits)

lemma opt_or_None [simp]: "opt_or x y = None \<longleftrightarrow> x = None \<and> y = None"
  by (auto simp: opt_or_def split: option.splits)

lemma opt_or_simps [simp]: "opt_or (Some z) y = Some z" "opt_or None y = y"
  by (simp_all add: opt_or_def)

lemma unwrap_or_simps [simp]: "unwrap_or (Some z) d = z" "unwrap_or None d = d"
  by (simp_all add: unwrap_or_def)

lemma then_some_iff [simp]: "then_some b x = Some y \<longleftrightarrow> b \<and> x = y"
  by (auto simp: then_some_def)

lemma then_some_None [simp]: "then_some b x = None \<longleftrightarrow> \<not> b"
  by (simp add: then_some_def)

lemma vec_get_Some [simp]: "vec_get xs i = Some x \<longleftrightarrow> i < length xs \<and> xs ! i = x"
  by (simp add: vec_get_def)

lemma vec_get_None [simp]: "vec_get xs i = None \<longleftrightarrow> length xs \<le> i"
  by (simp add: vec_get_def not_less)

section \<open>Lemmas on searches\<close>

lemma find_map_Some:
  "find_map f xs = Some y \<Longrightarrow> \<exists>x \<in> set xs. f x = Some y"
  by (induction xs) (auto split: option.splits)

lemma find_map_None: "find_map f xs = None \<longleftrightarrow> (\<forall>x \<in> set xs. f x = None)"
  by (induction xs) (auto split: option.splits)

lemma find_map_Some_first:
  "find_map f xs = Some y \<Longrightarrow>
   \<exists>i < length xs. f (xs ! i) = Some y \<and> (\<forall>j < i. f (xs ! j) = None)"
proof (induction xs)
  case Nil
  then show ?case by simp
next
  case (Cons x xs)
  show ?case
  proof (cases "f x")
    case None
    with Cons obtain i where "i < length xs" "f (xs ! i) = Some y" "\<forall>j < i. f (xs ! j) = None"
      by auto
    with None show ?thesis
      by (intro exI [of _ "Suc i"]) (auto simp: nth_Cons' split: nat.splits)
  next
    case (Some z)
    with Cons.prems show ?thesis by (intro exI [of _ 0]) simp
  qed
qed

lemma position_Some:
  "position P xs = Some i \<Longrightarrow> i < length xs \<and> P (xs ! i) \<and> (\<forall>j < i. \<not> P (xs ! j))"
proof (induction xs arbitrary: i)
  case Nil
  then show ?case by simp
next
  case (Cons x xs)
  show ?case
  proof (cases "P x")
    case True
    with Cons.prems show ?thesis by simp
  next
    case False
    with Cons.prems obtain k where k: "position P xs = Some k" "i = Suc k" by auto
    from Cons.IH [OF k(1)] False k(2) show ?thesis
      by (auto simp: less_Suc_eq_0_disj)
  qed
qed

lemma position_None: "position P xs = None \<longleftrightarrow> (\<forall>x \<in> set xs. \<not> P x)"
  by (induction xs) auto

lemma position_nth:
  "i < length xs \<Longrightarrow> P (xs ! i) \<Longrightarrow> \<forall>j < i. \<not> P (xs ! j) \<Longrightarrow> position P xs = Some i"
proof (induction xs arbitrary: i)
  case Nil
  then show ?case by simp
next
  case (Cons x xs)
  show ?case
  proof (cases i)
    case 0
    with Cons.prems show ?thesis by simp
  next
    case (Suc k)
    with Cons.prems have "\<not> P x" by auto
    moreover from Cons.prems Suc have "position P xs = Some k"
      by (intro Cons.IH) auto
    ultimately show ?thesis using Suc by simp
  qed
qed

lemma foldl_min_in:
  "foldl (\<lambda>a y. if f y < f a then y else a) x ys \<in> insert x (set ys)"
proof (induction ys arbitrary: x)
  case Nil
  then show ?case by simp
next
  case (Cons y ys)
  have "foldl (\<lambda>a y. if f y < f a then y else a) (if f y < f x then y else x) ys
      \<in> insert (if f y < f x then y else x) (set ys)" by (rule Cons.IH)
  then show ?case by (auto split: if_splits)
qed

lemma foldl_min_le:
  fixes f :: "'a \<Rightarrow> 'k::linorder"
  shows "z \<in> insert x (set ys) \<Longrightarrow> f (foldl (\<lambda>a y. if f y < f a then y else a) x ys) \<le> f z"
proof (induction ys arbitrary: x z)
  case Nil
  then show ?case by simp
next
  case (Cons y ys)
  let ?x = "if f y < f x then y else x"
  have a: "f ?x \<le> f x" "f ?x \<le> f y" by auto
  have b: "f (foldl (\<lambda>a y. if f y < f a then y else a) ?x ys) \<le> f ?x"
    by (rule Cons.IH) simp
  show ?case
  proof (cases "z \<in> set ys")
    case True
    then have "f (foldl (\<lambda>a y. if f y < f a then y else a) ?x ys) \<le> f z"
      by (intro Cons.IH) simp
    then show ?thesis by simp
  next
    case False
    with Cons.prems have "z = x \<or> z = y" by auto
    with a have "f ?x \<le> f z" by blast
    with b have "f (foldl (\<lambda>a y. if f y < f a then y else a) ?x ys) \<le> f z" by (rule order_trans)
    then show ?thesis by simp
  qed
qed

lemma min_by_key_Some:
  assumes "min_by_key f xs = Some x"
  shows "x \<in> set xs" and "\<And>y. y \<in> set xs \<Longrightarrow> f x \<le> f y"
proof -
  from assms obtain a ys where "xs = a # ys"
    and "x = foldl (\<lambda>a y. if f y < f a then y else a) a ys"
    by (auto simp: min_by_key_def split: list.splits)
  then show "x \<in> set xs" and "\<And>y. y \<in> set xs \<Longrightarrow> f x \<le> f y"
    using foldl_min_in [of f a ys] foldl_min_le [of _ a ys f] by auto
qed

lemma min_by_key_None [simp]: "min_by_key f xs = None \<longleftrightarrow> xs = []"
  by (auto simp: min_by_key_def split: list.splits)

lemma max_by_key_None [simp]: "max_by_key f xs = None \<longleftrightarrow> xs = []"
  by (auto simp: max_by_key_def split: list.splits)

lemma max_by_key_split:
  assumes "max_by_key f xs = Some x"
  shows "\<exists>us vs. xs = us @ x # vs \<and> (\<forall>u \<in> set us. f u \<le> f x) \<and> (\<forall>v \<in> set vs. f v < f x)"
proof -
  have fold: "\<exists>us vs. a # ys = us @ x # vs \<and> (\<forall>u \<in> set us. f u \<le> f x) \<and> (\<forall>v \<in> set vs. f v < f x)"
    if "foldl (\<lambda>a y. if f a \<le> f y then y else a) a ys = x" for a ys
    using that
  proof (induction ys rule: rev_induct)
    case Nil
    then show ?case by (intro exI [of _ "[]"]) simp
  next
    case (snoc y ys)
    define w where "w = foldl (\<lambda>a y. if f a \<le> f y then y else a) a ys"
    have all: "\<forall>u \<in> set (a # ys). f u \<le> f w"
      unfolding w_def by (induction ys rule: rev_induct) auto
    show ?case
    proof (cases "f w \<le> f y")
      case True
      then have "x = y" using snoc.prems by (simp add: w_def)
      with all True show ?thesis by (intro exI [of _ "a # ys"] exI [of _ "[]"]) auto
    next
      case False
      then have "w = x" using snoc.prems by (simp add: w_def)
      with snoc.IH obtain us vs where "a # ys = us @ x # vs" "\<forall>u \<in> set us. f u \<le> f x" "\<forall>v \<in> set vs. f v < f x"
        unfolding w_def by blast
      with False \<open>w = x\<close> show ?thesis by (intro exI [of _ us] exI [of _ "vs @ [y]"]) auto
    qed
  qed
  then show ?thesis using assms by (auto simp: max_by_key_def split: list.splits)
qed

lemma filter_split:
  assumes "filter P xs = us @ x # vs"
  shows "\<exists>as bs. xs = as @ x # bs \<and> filter P as = us \<and> filter P bs = vs \<and> P x"
  using assms
proof (induction xs arbitrary: us)
  case (Cons a xs)
  show ?case
  proof (cases "P a \<and> us = []")
    case True
    with Cons.prems show ?thesis by (intro exI [of _ "[]"] exI [of _ xs]) auto
  next
    case False
    have "\<exists>ws. filter P xs = ws @ x # vs \<and> us = (if P a then a # ws else ws)"
      using Cons.prems False by (cases us) (auto split: if_splits)
    then obtain ws where ws: "filter P xs = ws @ x # vs" "us = (if P a then a # ws else ws)" by blast
    from Cons.IH [OF ws(1)] obtain as bs where "xs = as @ x # bs" "filter P as = ws" "filter P bs = vs" "P x" by blast
    with ws(2) show ?thesis by (intro exI [of _ "a # as"] exI [of _ bs]) auto
  qed
qed simp

lemma sorted_key_hd_le: "sorted (map f (x # xs)) \<Longrightarrow> y \<in> set (x # xs) \<Longrightarrow> f x \<le> f y"
  by auto

lemma set_dedup_by_key_subset: "set (dedup_by_key f xs) \<subseteq> set xs"
  by (induction f xs rule: dedup_by_key.induct) auto

lemma hd_dedup_by_key: "\<exists>ys. dedup_by_key f (x # xs) = x # ys"
  by (induction xs arbitrary: x) auto

lemma mset_remove_distinct:
  "distinct xs \<Longrightarrow> distinct m \<Longrightarrow> set m \<subseteq> set xs \<Longrightarrow>
     mset (filter (\<lambda>x. x \<notin> set m) xs) + mset m = mset xs"
  by (rule multiset_eqI) (auto simp: distinct_count_atmost_1 count_mset_0_iff split: if_splits)

lemma map_filter_all_Some: "\<forall>x \<in> set xs. f x = Some (g x) \<Longrightarrow> List.map_filter f xs = map g xs"
  by (induction xs) (simp_all add: List.map_filter_def)

lemma set_map_filter: "set (List.map_filter f xs) = Option.these (f ` set xs)"
  by (auto simp: List.map_filter_def Option.these_def)

lemma dedup_by_key_first:
  fixes g :: "'a \<Rightarrow> 'k::linorder" and h :: "'q \<Rightarrow> 'h::linorder"
  assumes "inj h" and "sorted (map (\<lambda>x. (h (f x), g x)) xs)" and "x \<in> set xs"
  shows "\<exists>y \<in> set (dedup_by_key f xs). f y = f x \<and> g y \<le> g x"
  using assms(2,3)
proof (induction f xs arbitrary: x rule: dedup_by_key.induct)
  case (3 f a b xs)
  show ?case
  proof (cases "f a = f b")
    case True
    from 3 True have sorted: "sorted (map (\<lambda>x. (h (f x), g x)) (a # xs))" by auto
    show ?thesis
    proof (cases "x = b")
      case True
      then have "\<exists>y \<in> set (dedup_by_key f (a # xs)). f y = f a \<and> g y \<le> g a"
        using "3.IH"(1) [OF \<open>f a = f b\<close> sorted] by simp
      with True \<open>f a = f b\<close> "3.prems"(1) show ?thesis by fastforce
    next
      case False
      with "3.prems"(2) have "x \<in> set (a # xs)" by auto
      from "3.IH"(1) [OF \<open>f a = f b\<close> sorted this] True show ?thesis by simp
    qed
  next
    case False
    then show ?thesis using "3.IH"(2) [OF False] "3.prems" by (cases "x = a") auto
  qed
qed simp_all

lemma dedup_by_key_distinct:
  fixes h :: "'q \<Rightarrow> 'h::linorder"
  assumes "inj h" and "sorted (map (\<lambda>x. h (f x)) xs)"
  shows "distinct (map f (dedup_by_key f xs))"
  using assms(2)
proof (induction f xs rule: dedup_by_key.induct)
  case (3 f a b xs)
  show ?case
  proof (cases "f a = f b")
    case True
    with 3 show ?thesis by simp
  next
    case False
    then have less: "h (f a) < h (f b)" using "3.prems" assms(1) by (auto simp: inj_eq order.order_iff_strict)
    have "f a \<noteq> f y" if "y \<in> set (dedup_by_key f (b # xs))" for y
    proof -
      from that have "y \<in> set (b # xs)" using set_dedup_by_key_subset by fast
      with "3.prems" have "h (f b) \<le> h (f y)" by auto
      with less show ?thesis by auto
    qed
    with False "3.IH"(2) "3.prems" show ?thesis by auto
  qed
qed simp_all

section \<open>The ordered-map interface\<close>

text \<open>
  What the pipeline relies on of \<open>BTreeMap\<close>: lookups after insertion, removal and
  \<open>retain\<close>, and that every operation keeps the keys strictly ascending (the iteration
  order). The client lemmas are proved once, over any provider of these laws.
\<close>

locale ordered_map =
  fixes get :: "'m \<Rightarrow> 'k::linorder \<Rightarrow> 'v option"
    and ins :: "'k \<Rightarrow> 'v \<Rightarrow> 'm \<Rightarrow> 'm"
    and del :: "'k \<Rightarrow> 'm \<Rightarrow> 'm"
    and keep :: "('k \<Rightarrow> bool) \<Rightarrow> 'm \<Rightarrow> 'm"
    and emp :: 'm
    and wf :: "'m \<Rightarrow> bool"
  assumes get_emp: "get emp k = None"
    and get_ins: "get (ins k v m) k' = (if k' = k then Some v else get m k')"
    and get_del: "get (del k m) k' = (if k' = k then None else get m k')"
    and get_keep: "get (keep P m) k' = (if P k' then get m k' else None)"
    and wf_emp: "wf emp"
    and wf_ins: "wf m \<Longrightarrow> wf (ins k v m)"
    and wf_del: "wf m \<Longrightarrow> wf (del k m)"
    and wf_keep: "wf m \<Longrightarrow> wf (keep P m)"
begin

lemma keep_bound: "get (keep (\<lambda>k. k \<le> b) m) k = Some v \<Longrightarrow> k \<le> b"
  by (simp add: get_keep split: if_splits)

lemma keep_frame: "P k \<Longrightarrow> get (keep P m) k = get m k"
  by (simp add: get_keep)

lemma ins_other: "k' \<noteq> k \<Longrightarrow> get (ins k v m) k' = get m k'"
  by (simp add: get_ins)

lemma fold_del: "get (fold del ks m) k = (if k \<in> set ks then None else get m k)"
  by (induction ks arbitrary: m) (auto simp: get_del)

lemma fold_del_wf: "wf m \<Longrightarrow> wf (fold del ks m)"
  by (induction ks arbitrary: m) (auto simp: wf_del)

lemma ins_keep: "P k \<Longrightarrow> get (keep P (ins k v m)) k = Some v"
  by (simp add: get_keep get_ins)

end

lemma map_of_bt_insert: "map_of (bt_insert k v m) = (map_of m)(k \<mapsto> v)"
  by (induction k v m rule: bt_insert.induct) (auto simp: fun_eq_iff)

lemma map_of_filter_key:
  "map_of (filter (\<lambda>e. P (fst e)) m) k = (if P k then map_of m k else None)"
  by (induction m) auto

lemma set_bt_insert_keys: "set (map fst (bt_insert k v m)) = insert k (set (map fst m))"
  by (induction k v m rule: bt_insert.induct) auto

lemma bt_wf_insert: "bt_wf m \<Longrightarrow> bt_wf (bt_insert k v m)"
proof (induction k v m rule: bt_insert.induct)
  case (1 k v)
  then show ?case by (simp add: bt_wf_def)
next
  case (2 k v k' v' m)
  have "bt_wf m" using "2.prems" by (simp add: bt_wf_def)
  with 2 have "\<not> k < k' \<Longrightarrow> k \<noteq> k' \<Longrightarrow> bt_wf (bt_insert k v m)" by simp
  with "2.prems" show ?case
    using set_bt_insert_keys [of k v m] by (auto simp: bt_wf_def)
qed

lemma bt_wf_filter: "bt_wf m \<Longrightarrow> bt_wf (filter P m)"
  by (induction m) (auto simp: bt_wf_def)

interpretation bt: ordered_map bt_get bt_insert bt_remove bt_retain "[]" bt_wf
proof unfold_locales
  fix m :: "('k::linorder, 'v) btree_map" and k k' :: 'k and v :: 'v and P :: "'k \<Rightarrow> bool"
  show "bt_get ([] :: ('k, 'v) btree_map) k = None" by (simp add: bt_get_def)
  show "bt_get (bt_insert k v m) k' = (if k' = k then Some v else bt_get m k')"
    by (simp add: bt_get_def map_of_bt_insert)
  show "bt_get (bt_remove k m) k' = (if k' = k then None else bt_get m k')"
    using map_of_filter_key [of "\<lambda>x. x \<noteq> k" m k'] by (simp add: bt_get_def bt_remove_def)
  show "bt_get (bt_retain P m) k' = (if P k' then bt_get m k' else None)"
    by (simp add: bt_get_def bt_retain_def map_of_filter_key)
  show "bt_wf ([] :: ('k, 'v) btree_map)" by (simp add: bt_wf_def)
  show "bt_wf m \<Longrightarrow> bt_wf (bt_insert k v m)" by (rule bt_wf_insert)
  show "bt_wf m \<Longrightarrow> bt_wf (bt_remove k m)" unfolding bt_remove_def by (rule bt_wf_filter)
  show "bt_wf m \<Longrightarrow> bt_wf (bt_retain P m)" unfolding bt_retain_def by (rule bt_wf_filter)
qed

lemmas bt_lookup [btree_simps, simp] = bt.get_emp bt.get_ins bt.get_del bt.get_keep

lemma bt_get_or_insert [btree_simps, simp]:
  "bt_get (bt_or_insert k v m) k' =
     (if k' = k then Some (unwrap_or (bt_get m k) v) else bt_get m k')"
  by (auto simp: bt_or_insert_def unwrap_or_def split: option.splits)

lemma bt_wf_distinct: "bt_wf m \<Longrightarrow> distinct (map fst m)"
  by (simp add: bt_wf_def strict_sorted_iff)

lemma bt_get_mem: "bt_get m k = Some v \<Longrightarrow> (k, v) \<in> set m"
  by (simp add: bt_get_def map_of_SomeD)

lemma bt_mem_get: "bt_wf m \<Longrightarrow> (k, v) \<in> set m \<Longrightarrow> bt_get m k = Some v"
  by (simp add: bt_get_def bt_wf_distinct map_of_is_SomeI)

section \<open>The stage-moving interface\<close>

text \<open>
  Three modules carry a private \<open>advance_simple\<close> loop that moves uops from one stage's queue
  to the next. The contract they share: nothing is lost or reordered, the destination never
  grows past its capacity, and the move is greedy.
\<close>

locale stage_mover =
  fixes move :: "'a list \<Rightarrow> 'a list \<Rightarrow> nat \<Rightarrow> 'a list \<times> 'a list"
  assumes move_conserves: "move dst src c = (d, s) \<Longrightarrow> d @ s = dst @ src"
    and move_extends: "move dst src c = (d, s) \<Longrightarrow> length d = max (length dst) (min c (length dst + length src))"
begin

lemma move_closed_form:
  "move dst src c = (dst @ take (c - length dst) src, drop (c - length dst) src)"
proof -
  obtain d s where m: "move dst src c = (d, s)" by (cases "move dst src c")
  let ?n = "length d - length dst"
  have eq: "d @ s = dst @ src" using m by (rule move_conserves)
  have len: "length d = max (length dst) (min c (length dst + length src))"
    using m by (rule move_extends)
  have "d = dst @ take ?n src"
    using arg_cong [OF eq, of "take (length d)"] len by (simp add: take_append)
  moreover have "s = drop ?n src"
    using arg_cong [OF eq, of "drop (length d)"] len by simp
  moreover have "take ?n src = take (c - length dst) src" "drop ?n src = drop (c - length dst) src"
    using len by (auto simp: max_def min_def not_le)
  ultimately show ?thesis using m by simp
qed

lemma move_capacity: "length dst \<le> c \<Longrightarrow> length (fst (move dst src c)) \<le> c"
  by (simp add: move_closed_form)

lemma move_mset: "mset (fst (move dst src c)) + mset (snd (move dst src c)) = mset dst + mset src"
  by (simp add: move_closed_form flip: mset_append)

lemma move_set: "set (fst (move dst src c)) \<union> set (snd (move dst src c)) = set dst \<union> set src"
  using arg_cong [OF move_mset, of set_mset dst src c] by simp

lemma move_greedy: "snd (move dst src c) \<noteq> [] \<Longrightarrow> c \<le> length (fst (move dst src c))"
  by (auto simp: move_closed_form)

end

text \<open>
  The shape the three loops are written in: pop the front of the source while the destination
  has room. Any loop of this shape meets the contract.
\<close>

locale greedy_loop =
  fixes move :: "'a list \<Rightarrow> 'a list \<Rightarrow> nat \<Rightarrow> 'a list \<times> 'a list"
  assumes move_Nil: "move dst [] c = (dst, [])"
    and move_Cons: "move dst (x # src) c =
                      (if length dst < c then move (dst @ [x]) src c else (dst, x # src))"
begin

lemma loop_conserves: "fst (move dst src c) @ snd (move dst src c) = dst @ src"
  by (induction src arbitrary: dst) (auto simp: move_Nil move_Cons)

lemma loop_extends: "length (fst (move dst src c)) = max (length dst) (min c (length dst + length src))"
  by (induction src arbitrary: dst) (auto simp: move_Nil move_Cons max_def min_def)

end

sublocale greedy_loop \<subseteq> stage_mover move
proof unfold_locales
  fix dst src d s :: "'a list" and c
  assume m: "move dst src c = (d, s)"
  show "d @ s = dst @ src" using loop_conserves [of dst src c] by (simp add: m)
  show "length d = max (length dst) (min c (length dst + length src))"
    using loop_extends [of dst src c] by (simp add: m)
qed

end
