(* ===== verification/Isa.thy ===== *)
theory Isa
  imports Prelude
begin

text \<open>
  The shared architectural types of \<^verbatim>\<open>crates/isa/src/lib.rs\<close>: the commit record every engine
  emits, the decoded instruction and its fields, stage trace events and run results, and the
  table-driven decoder (\<open>best_match\<close>, field extraction and sign extension). The decode
  tables are built from an ISA description that is data, so the decoder is a function of the
  list of forms.
\<close>

section \<open>Constants\<close>

definition TRACE_SCHEMA_VERSION :: string where
  "TRACE_SCHEMA_VERSION = ''1.0''"

definition TRAP_ILLEGAL_INST :: u64 where
  "TRAP_ILLEGAL_INST = 4"

definition TRAP_BRU_RECOVERY_NOT_BSTART :: u64 where
  "TRAP_BRU_RECOVERY_NOT_BSTART = 0xB001"

definition TRAP_DYNAMIC_TARGET_MISSING :: u64 where
  "TRAP_DYNAMIC_TARGET_MISSING = 0xB002"

definition TRAP_DYNAMIC_TARGET_NOT_BSTART :: u64 where
  "TRAP_DYNAMIC_TARGET_NOT_BSTART = 0xB003"

definition TRAP_SETRET_NOT_ADJACENT :: u64 where
  "TRAP_SETRET_NOT_ADJACENT = 0xB004"

definition TRAP_DYNAMIC_TARGET_STALE :: u64 where
  "TRAP_DYNAMIC_TARGET_STALE = 0xB005"

definition TRAP_UNSUPPORTED_PRIVILEGE :: u64 where
  "TRAP_UNSUPPORTED_PRIVILEGE = 0xB010"

lemmas trap_defs = TRAP_ILLEGAL_INST_def TRAP_BRU_RECOVERY_NOT_BSTART_def
  TRAP_DYNAMIC_TARGET_MISSING_def TRAP_DYNAMIC_TARGET_NOT_BSTART_def
  TRAP_SETRET_NOT_ADJACENT_def TRAP_DYNAMIC_TARGET_STALE_def TRAP_UNSUPPORTED_PRIVILEGE_def

section \<open>Records\<close>

datatype EngineKind = Func | Cycle

definition engine_kind_from_str :: "string \<Rightarrow> string + EngineKind" where
  "engine_kind_from_str value =
     (if value = ''func'' then Inr Func
      else if value = ''cycle'' then Inr Cycle
      else Inl (''unknown engine '' @ value @ ''; expected func|cycle''))"

record BlockMeta =
  bm_bid :: u64
  bm_block_uid :: u64
  bm_block_kind :: string
  bm_lane_id :: string

definition default_block_meta :: BlockMeta where
  "default_block_meta = \<lparr>bm_bid = 0, bm_block_uid = 0, bm_block_kind = ''sys'', bm_lane_id = ''scalar0''\<rparr>"

record CommitRecord =
  cr_schema_version :: string
  cr_cycle :: cyc
  cr_pc :: u64
  cr_insn :: u64
  cr_len :: u8
  cr_next_pc :: u64
  cr_src0_valid :: u8
  cr_src0_reg :: u8
  cr_src0_data :: u64
  cr_src1_valid :: u8
  cr_src1_reg :: u8
  cr_src1_data :: u64
  cr_dst_valid :: u8
  cr_dst_reg :: u8
  cr_dst_data :: u64
  cr_wb_valid :: u8
  cr_wb_rd :: u8
  cr_wb_data :: u64
  cr_mem_valid :: u8
  cr_mem_is_store :: u8
  cr_mem_addr :: u64
  cr_mem_wdata :: u64
  cr_mem_rdata :: u64
  cr_mem_size :: u8
  cr_trap_valid :: u8
  cr_trap_cause :: u64
  cr_traparg0 :: u64
  cr_block_kind :: string
  cr_lane_id :: string
  cr_tile_meta :: string
  cr_tile_ref_src :: u64
  cr_tile_ref_dst :: u64

definition unsupported :: "cyc \<Rightarrow> u64 \<Rightarrow> u64 \<Rightarrow> u64 \<Rightarrow> BlockMeta \<Rightarrow> CommitRecord" where
  "unsupported cycle pc insn cause block =
     \<lparr>cr_schema_version = TRACE_SCHEMA_VERSION, cr_cycle = cycle, cr_pc = pc, cr_insn = insn,
      cr_len = 4, cr_next_pc = pc,
      cr_src0_valid = 0, cr_src0_reg = 0, cr_src0_data = 0,
      cr_src1_valid = 0, cr_src1_reg = 0, cr_src1_data = 0,
      cr_dst_valid = 0, cr_dst_reg = 0, cr_dst_data = 0,
      cr_wb_valid = 0, cr_wb_rd = 0, cr_wb_data = 0,
      cr_mem_valid = 0, cr_mem_is_store = 0, cr_mem_addr = 0, cr_mem_wdata = 0,
      cr_mem_rdata = 0, cr_mem_size = 0,
      cr_trap_valid = 1, cr_trap_cause = cause, cr_traparg0 = insn,
      cr_block_kind = bm_block_kind block, cr_lane_id = bm_lane_id block,
      cr_tile_meta = [], cr_tile_ref_src = 0, cr_tile_ref_dst = 0\<rparr>"

record DecodedField =
  df_name :: string
  df_width_bits :: nat
  df_value_u64 :: u64
  df_value_i64 :: "int option"

record DecodedInstruction =
  di_uid :: string
  di_mnemonic :: string
  di_asm :: string
  di_group :: string
  di_encoding_kind :: string
  di_length_bits :: nat
  di_mask :: u64
  di_match_bits :: u64
  di_instruction_bits :: u64
  di_uop_group :: string
  di_fields :: "DecodedField list"

definition decoded_field :: "DecodedInstruction \<Rightarrow> string \<Rightarrow> DecodedField option" where
  "decoded_field d name = find (\<lambda>f. df_name f = name) (di_fields d)"

definition length_bytes :: "DecodedInstruction \<Rightarrow> nat" where
  "length_bytes d = di_length_bits d div 8"

record StageTraceEvent =
  ev_cycle :: cyc
  ev_row_id :: string
  ev_stage_id :: string
  ev_lane_id :: string
  ev_stall :: bool
  ev_cause :: string
  ev_checkpoint_id :: "u8 option"
  ev_trap_cause :: "u64 option"
  ev_traparg0 :: "u64 option"
  ev_target_setup_epoch :: "u16 option"
  ev_boundary_epoch :: "u16 option"
  ev_target_source_owner_row_id :: "string option"
  ev_target_source_epoch :: "u16 option"
  ev_target_owner_row_id :: "string option"
  ev_target_producer_kind :: "string option"
  ev_branch_kind :: "string option"
  ev_return_kind :: "string option"
  ev_call_materialization_kind :: "string option"
  ev_target_source_kind :: "string option"

record RunMetrics =
  rm_engine :: EngineKind
  rm_cycles :: nat
  rm_commits :: nat
  rm_exit_reason :: string

record RunResult =
  rr_image_name :: string
  rr_entry_pc :: u64
  rr_metrics :: RunMetrics
  rr_commits :: "CommitRecord list"
  rr_decoded :: "DecodedInstruction list"

section \<open>The decoder\<close>

record DecodePiece =
  dp_insn_lsb :: nat
  dp_width :: nat
  dp_value_lsb :: nat

record DecodeFieldSpec =
  fs_name :: string
  fs_width_bits :: nat
  fs_signed :: bool
  fs_pieces :: "DecodePiece list"

record DecodeForm =
  fm_uid :: string
  fm_mnemonic :: string
  fm_asm :: string
  fm_group :: string
  fm_encoding_kind :: string
  fm_length_bits :: nat
  fm_mask :: u64
  fm_match_bits :: u64
  fm_mask_popcount :: nat
  fm_uop_group :: string
  fm_fields :: "DecodeFieldSpec list"

definition low_mask :: "nat \<Rightarrow> u64" where
  "low_mask width = (if 64 \<le> width then - 1 else push_bit width 1 - 1)"

definition truncate_word :: "u64 \<Rightarrow> nat \<Rightarrow> u64" where
  "truncate_word word length_bits =
     (if 64 \<le> length_bits then word else word AND low_mask length_bits)"

text \<open>Shift amounts are taken modulo the width of the shifted word.\<close>

definition extract_field :: "u64 \<Rightarrow> DecodeFieldSpec \<Rightarrow> u64" where
  "extract_field word f =
     foldl (\<lambda>value piece.
        let mask = low_mask (dp_width piece);
            piece_bits = drop_bit (dp_insn_lsb piece mod 64) word AND mask
        in value OR push_bit (dp_value_lsb piece mod 64) piece_bits) 0 (fs_pieces f)"

definition isa_sign_extend :: "u64 \<Rightarrow> nat \<Rightarrow> int" where
  "isa_sign_extend value width_bits =
     (if width_bits = 0 then 0
      else if 64 \<le> width_bits then sint value
      else let shift = 64 - width_bits
           in sint (signed_drop_bit shift (push_bit shift value)))"

definition form_matches :: "DecodeForm \<Rightarrow> u64 \<Rightarrow> bool" where
  "form_matches form word = (word AND fm_mask form = fm_match_bits form)"

definition best_match :: "DecodeForm list \<Rightarrow> u64 \<Rightarrow> DecodeForm option" where
  "best_match forms word =
     max_by_key (\<lambda>form. (fm_mask_popcount form, fm_length_bits form))
       (filter (\<lambda>form. form_matches form word) forms)"

definition render_field :: "u64 \<Rightarrow> DecodeFieldSpec \<Rightarrow> DecodedField" where
  "render_field word f =
     (let value = extract_field word f
      in \<lparr>df_name = fs_name f, df_width_bits = fs_width_bits f, df_value_u64 = value,
          df_value_i64 = then_some (fs_signed f) (isa_sign_extend value (fs_width_bits f))\<rparr>)"

definition render_decoded :: "DecodeForm \<Rightarrow> u64 \<Rightarrow> DecodedInstruction" where
  "render_decoded form word =
     \<lparr>di_uid = fm_uid form, di_mnemonic = fm_mnemonic form, di_asm = fm_asm form,
      di_group = fm_group form, di_encoding_kind = fm_encoding_kind form,
      di_length_bits = fm_length_bits form, di_mask = fm_mask form,
      di_match_bits = fm_match_bits form,
      di_instruction_bits = truncate_word word (fm_length_bits form),
      di_uop_group = fm_uop_group form,
      di_fields = map (render_field word) (fm_fields form)\<rparr>"

definition decode_word :: "DecodeForm list \<Rightarrow> u64 \<Rightarrow> DecodedInstruction option" where
  "decode_word all_forms insn_word =
     map_option (\<lambda>form. render_decoded form insn_word) (best_match all_forms insn_word)"

section \<open>What decoding selects\<close>

text \<open>C36: decoding selects the most specific form. A word decodes exactly when some form of the
  table matches it, and then with a matching form whose key (number of fixed bits, then length) no
  other matching form exceeds; of forms with equal keys the last one of the table wins.\<close>

theorem decode_word_most_specific:
  "(case decode_word forms w of
      None \<Rightarrow> filter (\<lambda>f. w AND fm_mask f = fm_match_bits f) forms = []
    | Some d \<Rightarrow> \<exists>as form bs. forms = as @ form # bs \<and> d = render_decoded form w \<and>
        w AND fm_mask form = fm_match_bits form \<and>
        list_all (\<lambda>f. (fm_mask_popcount f, fm_length_bits f) \<le> (fm_mask_popcount form, fm_length_bits form))
          (filter (\<lambda>f. w AND fm_mask f = fm_match_bits f) as) \<and>
        list_all (\<lambda>f. (fm_mask_popcount f, fm_length_bits f) < (fm_mask_popcount form, fm_length_bits form))
          (filter (\<lambda>f. w AND fm_mask f = fm_match_bits f) bs))"
proof (cases "best_match forms w")
  case None
  then have "decode_word forms w = None" by (simp add: decode_word_def)
  moreover have "filter (\<lambda>f. w AND fm_mask f = fm_match_bits f) forms = []"
    using None by (simp add: best_match_def form_matches_def)
  ultimately show ?thesis by simp
next
  case (Some form)
  let ?k = "\<lambda>f. (fm_mask_popcount f, fm_length_bits f)"
  from max_by_key_split [OF Some [unfolded best_match_def]] obtain us vs where
    s: "filter (\<lambda>f. form_matches f w) forms = us @ form # vs" "\<forall>u \<in> set us. ?k u \<le> ?k form" "\<forall>v \<in> set vs. ?k v < ?k form"
    by blast
  from filter_split [OF s(1)] obtain as bs where "forms = as @ form # bs" "filter (\<lambda>f. form_matches f w) as = us"
    "filter (\<lambda>f. form_matches f w) bs = vs" "form_matches form w" by blast
  with s(2,3) show ?thesis unfolding decode_word_def Some option.map option.case form_matches_def
    by (intro exI [of _ as], intro exI [of _ form], intro exI [of _ bs]) (auto simp: list_all_iff)
qed

lemma low_mask_eq: "low_mask n = mask n"
proof (cases "64 \<le> n")
  case True
  then show ?thesis by (simp add: low_mask_def bit_eq_iff bit_mask_iff)
next
  case False
  then show ?thesis by (simp add: low_mask_def mask_eq_exp_minus_1 push_bit_eq_mult)
qed

lemma foldl_bit:
  assumes "\<And>acc p. bit (g acc p) n \<longleftrightarrow> bit acc n \<or> Q p"
  shows "bit (foldl g acc ps) n \<longleftrightarrow> bit acc n \<or> (\<exists>p \<in> set ps. Q p)"
  by (induction ps arbitrary: acc) (auto simp: assms)

lemma piece_bit:
  fixes word acc :: u64 assumes "n < 64"
  shows "bit (acc OR push_bit l (drop_bit i word AND low_mask k)) n \<longleftrightarrow>
    bit acc n \<or> (l \<le> n \<and> n < l + k \<and> bit word (i + (n - l)))"
  using assms by (auto simp: low_mask_eq bit_or_iff bit_push_bit_iff bit_and_iff bit_drop_bit_eq bit_mask_iff)

text \<open>Field extraction. Bit \<open>n\<close> of an extracted field is set exactly when some piece of the
  field covers position \<open>n\<close> and the instruction bit that piece maps there is set; no other bit of
  the instruction can leak into the value.\<close>

theorem extract_field_bits:
  "bit (extract_field word f) n \<longleftrightarrow>
     n < 64 \<and> (\<exists>p. p \<in> set (fs_pieces f) \<and> dp_value_lsb p mod 64 \<le> n \<and> n < dp_value_lsb p mod 64 + dp_width p \<and>
        bit word (dp_insn_lsb p mod 64 + (n - dp_value_lsb p mod 64)))"
proof (cases "n < 64")
  case True
  then show ?thesis 
    unfolding extract_field_def Let_def by (subst foldl_bit [OF piece_bit [OF True]]) auto
next
  case False
  then show ?thesis using bit_imp_le_length [of "extract_field word f" n] by auto
qed

text \<open>Sign extension reads the low \<open>w\<close> bits of a field (all of them from 64 up) as a
  two's-complement number; an empty field reads as zero.\<close>

theorem isa_sign_extend_signed:
  "isa_sign_extend v w =
     (if w = 0 then 0 else signed_take_bit (min w 64 - 1) (uint v))"
proof (cases "w = 0 \<or> 64 \<le> w")
  case True
  then show ?thesis by (auto simp: isa_sign_extend_def sint_uint)
next
  case False
  then have "isa_sign_extend v w = sint (signed_drop_bit (64 - w) (push_bit (64 - w) v))"
    by (simp add: isa_sign_extend_def Let_def)
  also have "\<dots> = signed_take_bit (w - 1) (uint v)"
  proof (rule bit_eqI)
    fix n
    show "bit (sint (signed_drop_bit (64 - w) (push_bit (64 - w) v))) n = bit (signed_take_bit (w - 1) (uint v)) n"
      using False by (cases "n = w - 1") (auto simp: bit_sint_iff bit_signed_drop_bit_iff bit_push_bit_iff bit_signed_take_bit_iff bit_uint_iff min_def)
  qed
  finally show ?thesis using False by simp
qed

end
