(* ===== verification/Uop_Model.thy ===== *)
theory Uop_Model
  imports Isa
begin

text \<open>
  The data of the cycle engine (\<^verbatim>\<open>crates/camodel/src/core/model.rs\<close> and
  \<^verbatim>\<open>core/config.rs\<close>): widths and capacities, the queue and branch-owner enumerations,
  the per-uop record, issue-queue entries, and the record \<open>StageQueues\<close> that holds every
  stage queue, the per-sequence side tables and the speculative context. A Rust \<open>VecDeque\<close>
  is a list with its front at the head, a \<open>BTreeMap\<close> an ordered association list, a
  \<open>[T; 2]\<close> a pair read with \<open>at2\<close>.
\<close>

section \<open>Configuration\<close>

definition FETCH_WIDTH :: nat where "FETCH_WIDTH = 4"
definition DISPATCH_WIDTH :: nat where "DISPATCH_WIDTH = 4"
definition ISSUE_WIDTH :: nat where "ISSUE_WIDTH = 4"
definition COMMIT_WIDTH :: nat where "COMMIT_WIDTH = 4"
definition READ_PORTS :: nat where "READ_PORTS = 3"
definition ROB_CAPACITY :: nat where "ROB_CAPACITY = 128"
definition PHYS_IQ_COUNT :: nat where "PHYS_IQ_COUNT = 8"
definition IQ_CAPACITY :: nat where "IQ_CAPACITY = 32"
definition IQ_ENQUEUE_PORTS :: nat where "IQ_ENQUEUE_PORTS = 2"
definition LSU_WIDTH :: nat where "LSU_WIDTH = 1"
definition L1D_WIDTH :: nat where "L1D_WIDTH = 1"
definition FRONTEND_REDIRECT_RESTART_DELAY :: nat where "FRONTEND_REDIRECT_RESTART_DELAY = 1"
definition REG_T1 :: u8 where "REG_T1 = 24"
definition REG_U1 :: u8 where "REG_U1 = 28"
definition LD_GEN_E1 :: u8 where "LD_GEN_E1 = push_bit 0 1"
definition LD_GEN_E2 :: u8 where "LD_GEN_E2 = push_bit 1 1"
definition LD_GEN_E3 :: u8 where "LD_GEN_E3 = push_bit 2 1"
definition LD_GEN_E4 :: u8 where "LD_GEN_E4 = push_bit 3 1"

definition FRONTEND_STAGE_NAMES :: "string list" where
  "FRONTEND_STAGE_NAMES =
     [''F0'', ''F1'', ''F2'', ''F3'', ''IB'', ''F4'', ''D1'', ''D2'', ''D3'', ''S1'', ''S2'']"

lemmas width_defs [simp] = FETCH_WIDTH_def DISPATCH_WIDTH_def ISSUE_WIDTH_def COMMIT_WIDTH_def
  READ_PORTS_def ROB_CAPACITY_def PHYS_IQ_COUNT_def IQ_CAPACITY_def IQ_ENQUEUE_PORTS_def
  LSU_WIDTH_def L1D_WIDTH_def FRONTEND_REDIRECT_RESTART_DELAY_def

record CycleRunOptions =
  opt_max_cycles :: nat
  opt_load_miss_every :: "nat option"
  opt_load_miss_penalty :: nat

definition default_run_options :: CycleRunOptions where
  "default_run_options =
     \<lparr>opt_max_cycles = 256, opt_load_miss_every = None, opt_load_miss_penalty = 8\<rparr>"

section \<open>Enumerations and small structs\<close>

datatype QueueWakeKind = WakeT | WakeU

datatype IqWakeKind = Spec | Nonspec

datatype PhysIq = AluIq0 | SharedIq1 | BruIq | AguIq0 | AguIq1 | StdIq0 | StdIq1 | CmdIq

record QTag =
  qt_phys_iq :: PhysIq
  qt_entry_id :: usize

record LogicalQueueTag =
  lt_kind :: QueueWakeKind
  lt_tag :: usize

datatype BranchOwnerKind =
  BoNone | BoFall | BoCond | BoCall | BoRet | BoDirect | BoInd | BoICall

datatype ReturnConsumerKind = SetcTgt | FretRa | FretStk

datatype CallMaterializationKind = FusedCall | AdjacentSetret

datatype DynamicTargetSourceKind = ArchTargetSetup | CallReturnFused | CallReturnAdjacentSetret

record BranchOwnerContext =
  bc_kind :: BranchOwnerKind
  bc_base_pc :: u64
  bc_target_pc :: u64
  bc_off :: u64
  bc_pred_take :: bool
  bc_epoch :: u16

definition default_branch_context :: BranchOwnerContext where
  "default_branch_context =
     \<lparr>bc_kind = BoNone, bc_base_pc = 0, bc_target_pc = 0, bc_off = 0, bc_pred_take = False,
      bc_epoch = 0\<rparr>"

record IqWakeEvent =
  we_producer :: usize
  we_wake_kind :: IqWakeKind
  we_queue_kind :: "QueueWakeKind option"
  we_logical_tag :: "LogicalQueueTag option"
  we_qtag :: "QTag option"

record CycleUop =
  uo_decoded :: DecodedInstruction
  uo_commit :: CommitRecord
  uo_deps :: "usize option \<times> usize option"
  uo_src_queue_kinds :: "QueueWakeKind option \<times> QueueWakeKind option"
  uo_src_logical_tags :: "LogicalQueueTag option \<times> LogicalQueueTag option"
  uo_src_qtags :: "QTag option \<times> QTag option"
  uo_dst_queue_kind :: "QueueWakeKind option"
  uo_dst_logical_tag :: "LogicalQueueTag option"
  uo_dst_qtag :: "QTag option"
  uo_bypass_d2 :: bool
  uo_is_load :: bool
  uo_is_store :: bool
  uo_load_ordinal :: "usize option"
  uo_load_store_id :: "usize option"
  uo_miss_injected :: bool
  uo_redirect_target :: "u64 option"
  uo_phys_iq :: "PhysIq option"
  uo_pick_wakeup_visible :: "cyc option"
  uo_data_ready_visible :: "cyc option"
  uo_miss_pending_until :: "cyc option"
  uo_e1_cycle :: "cyc option"
  uo_e4_cycle :: "cyc option"
  uo_w1_cycle :: "cyc option"
  uo_done_cycle :: "cyc option"

record IqEntry =
  ie_seq :: usize
  ie_phys_iq :: PhysIq
  ie_inflight :: bool
  ie_src_valid :: "bool \<times> bool"
  ie_src_ready_nonspec :: "bool \<times> bool"
  ie_src_ready_spec :: "bool \<times> bool"
  ie_src_wait_qtag :: "bool \<times> bool"

fun phys_iq_index :: "PhysIq \<Rightarrow> usize" where
  "phys_iq_index AluIq0 = 0"
| "phys_iq_index SharedIq1 = 1"
| "phys_iq_index BruIq = 2"
| "phys_iq_index AguIq0 = 3"
| "phys_iq_index AguIq1 = 4"
| "phys_iq_index StdIq0 = 5"
| "phys_iq_index StdIq1 = 6"
| "phys_iq_index CmdIq = 7"

fun lane_id :: "PhysIq \<Rightarrow> string" where
  "lane_id AluIq0 = ''alu_iq0''"
| "lane_id SharedIq1 = ''shared_iq1''"
| "lane_id BruIq = ''bru_iq''"
| "lane_id AguIq0 = ''agu_iq0''"
| "lane_id AguIq1 = ''agu_iq1''"
| "lane_id StdIq0 = ''std_iq0''"
| "lane_id StdIq1 = ''std_iq1''"
| "lane_id CmdIq = ''cmd_iq''"

definition capacity :: "PhysIq \<Rightarrow> usize" where
  "capacity q = IQ_CAPACITY"

section \<open>Recovery, memory and checkpoint state\<close>

record ReadyTableCheckpoint =
  ck_ready_table_t :: "usize set"
  ck_ready_table_u :: "usize set"
  ck_recovery_epoch :: "u16"
  ck_block_head :: "bool"
  ck_branch_context :: "BranchOwnerContext"
  ck_dynamic_target_pc :: "u64 option"
  ck_dynamic_target_owner_seq :: "usize option"
  ck_dynamic_target_producer_kind :: "ReturnConsumerKind option"
  ck_dynamic_target_setup_epoch :: "u16 option"
  ck_dynamic_target_owner_kind :: "ReturnConsumerKind option"
  ck_dynamic_target_source_owner_seq :: "usize option"
  ck_dynamic_target_source_epoch :: "u16 option"
  ck_dynamic_target_source_kind :: "DynamicTargetSourceKind option"
  ck_dynamic_target_call_materialization_kind :: "CallMaterializationKind option"
  ck_call_header_seq :: "usize option"
  ck_call_return_target_pc :: "u64 option"
  ck_call_return_target_owner_seq :: "usize option"
  ck_call_return_target_epoch :: "u16 option"
  ck_call_return_materialization_kind :: "CallMaterializationKind option"

record FrontendRedirectState =
  fr_source_seq :: usize
  fr_target_pc :: u64
  fr_restart_seq :: usize
  fr_checkpoint_id :: u8
  fr_from_correction :: bool
  fr_resume_cycle :: cyc

record PendingFlushState =
  pf_flush_seq :: usize
  pf_checkpoint_id :: u8
  pf_apply_cycle :: cyc

record BruCorrectionState =
  bcs_source_seq :: usize
  bcs_epoch :: u16
  bcs_actual_take :: bool
  bcs_target_pc :: u64
  bcs_checkpoint_id :: u8
  bcs_visible_cycle :: cyc

record PendingTrapState =
  pt_seq :: usize
  pt_cause :: u64
  pt_traparg0 :: u64
  pt_checkpoint_id :: u8
  pt_visible_cycle :: cyc

record LiqEntry =
  lq_seq :: usize
  lq_refill_ready_cycle :: cyc

record MdbEntry =
  md_seq :: usize
  md_refill_ready_cycle :: cyc

record ScbEntry =
  sc_seq :: usize
  sc_enqueue_cycle :: cyc

datatype L1dTxnKind = LoadHit | StoreDrain

record L1dEntry =
  l1_seq :: usize
  l1_kind :: L1dTxnKind
  l1_ready_cycle :: cyc

definition empty_qtag_wait_crossbar :: "(usize \<times> usize) list list list" where
  "empty_qtag_wait_crossbar = replicate PHYS_IQ_COUNT (replicate IQ_CAPACITY [])"

definition empty_iq_owner_table :: "usize option list list" where
  "empty_iq_owner_table = replicate PHYS_IQ_COUNT (replicate IQ_CAPACITY None)"

section \<open>The pipeline state\<close>

record StageQueues =
  sq_frontend :: "usize list list"
  sq_frontend_redirect :: "FrontendRedirectState option"
  sq_pending_flush :: "PendingFlushState option"
  sq_flush_checkpoint_id :: "u8 option"
  sq_seq_checkpoint_ids :: "(usize, u8) btree_map"
  sq_seq_rob_checkpoint_ids :: "(usize, u8) btree_map"
  sq_seq_recovery_checkpoint_ids :: "(usize, u8) btree_map"
  sq_seq_recovery_epochs :: "(usize, u16) btree_map"
  sq_seq_branch_contexts :: "(usize, BranchOwnerContext) btree_map"
  sq_seq_dynamic_target_pcs :: "(usize, u64) btree_map"
  sq_seq_boundary_target_pcs :: "(usize, u64) btree_map"
  sq_seq_boundary_target_owner_seqs :: "(usize, usize) btree_map"
  sq_seq_boundary_target_producer_kinds :: "(usize, ReturnConsumerKind) btree_map"
  sq_seq_boundary_target_setup_epochs :: "(usize, u16) btree_map"
  sq_seq_boundary_target_source_owner_seqs :: "(usize, usize) btree_map"
  sq_seq_boundary_target_source_epochs :: "(usize, u16) btree_map"
  sq_seq_boundary_target_source_kinds :: "(usize, DynamicTargetSourceKind) btree_map"
  sq_seq_return_consumer_kinds :: "(usize, ReturnConsumerKind) btree_map"
  sq_seq_call_return_target_pcs :: "(usize, u64) btree_map"
  sq_seq_call_return_target_owner_seqs :: "(usize, usize) btree_map"
  sq_seq_call_return_target_epochs :: "(usize, u16) btree_map"
  sq_seq_call_materialization_kinds :: "(usize, CallMaterializationKind) btree_map"
  sq_seq_call_header_faults :: "(usize, u64) btree_map"
  sq_active_recovery_checkpoint_id :: "u8"
  sq_active_recovery_epoch :: "u16"
  sq_active_block_head :: "bool"
  sq_active_branch_context :: "BranchOwnerContext"
  sq_active_dynamic_target_pc :: "u64 option"
  sq_active_dynamic_target_owner_seq :: "usize option"
  sq_active_dynamic_target_producer_kind :: "ReturnConsumerKind option"
  sq_active_dynamic_target_setup_epoch :: "u16 option"
  sq_active_dynamic_target_owner_kind :: "ReturnConsumerKind option"
  sq_active_dynamic_target_source_owner_seq :: "usize option"
  sq_active_dynamic_target_source_epoch :: "u16 option"
  sq_active_dynamic_target_source_kind :: "DynamicTargetSourceKind option"
  sq_active_dynamic_target_call_materialization_kind :: "CallMaterializationKind option"
  sq_active_call_header_seq :: "usize option"
  sq_active_call_return_target_pc :: "u64 option"
  sq_active_call_return_target_owner_seq :: "usize option"
  sq_active_call_return_target_epoch :: "u16 option"
  sq_active_call_return_materialization_kind :: "CallMaterializationKind option"
  sq_ready_table_checkpoints :: "(u8, ReadyTableCheckpoint) btree_map"
  sq_pending_bru_correction :: "BruCorrectionState option"
  sq_pending_trap :: "PendingTrapState option"
  sq_iq_tags :: "(usize, QTag) btree_map"
  sq_iq_owner_table :: "usize option list list"
  sq_qtag_wait_crossbar :: "(usize \<times> usize) list list list"
  sq_ready_table_t :: "usize set"
  sq_ready_table_u :: "usize set"
  sq_liq :: "LiqEntry list"
  sq_lhq :: "usize list"
  sq_mdb :: "MdbEntry list"
  sq_stq :: "usize list"
  sq_scb :: "ScbEntry list"
  sq_l1d :: "L1dEntry list"
  sq_p1 :: "usize list"
  sq_i1 :: "usize list"
  sq_i2 :: "usize list"
  sq_e1 :: "usize list"
  sq_e2 :: "usize list"
  sq_e3 :: "usize list"
  sq_e4 :: "usize list"
  sq_w1 :: "usize list"
  sq_w2 :: "usize list"
  sq_lsid_issue_ptr :: "usize"
  sq_lsid_complete_ptr :: "usize"
  sq_lsid_cache_ptr :: "usize"

definition default_stage_queues :: StageQueues where
  "default_stage_queues =
     \<lparr>sq_frontend = replicate 11 [],
      sq_frontend_redirect = None,
      sq_pending_flush = None,
      sq_flush_checkpoint_id = None,
      sq_seq_checkpoint_ids = [],
      sq_seq_rob_checkpoint_ids = [],
      sq_seq_recovery_checkpoint_ids = [],
      sq_seq_recovery_epochs = [],
      sq_seq_branch_contexts = [],
      sq_seq_dynamic_target_pcs = [],
      sq_seq_boundary_target_pcs = [],
      sq_seq_boundary_target_owner_seqs = [],
      sq_seq_boundary_target_producer_kinds = [],
      sq_seq_boundary_target_setup_epochs = [],
      sq_seq_boundary_target_source_owner_seqs = [],
      sq_seq_boundary_target_source_epochs = [],
      sq_seq_boundary_target_source_kinds = [],
      sq_seq_return_consumer_kinds = [],
      sq_seq_call_return_target_pcs = [],
      sq_seq_call_return_target_owner_seqs = [],
      sq_seq_call_return_target_epochs = [],
      sq_seq_call_materialization_kinds = [],
      sq_seq_call_header_faults = [],
      sq_active_recovery_checkpoint_id = 0,
      sq_active_recovery_epoch = 0,
      sq_active_block_head = True,
      sq_active_branch_context = default_branch_context,
      sq_active_dynamic_target_pc = None,
      sq_active_dynamic_target_owner_seq = None,
      sq_active_dynamic_target_producer_kind = None,
      sq_active_dynamic_target_setup_epoch = None,
      sq_active_dynamic_target_owner_kind = None,
      sq_active_dynamic_target_source_owner_seq = None,
      sq_active_dynamic_target_source_epoch = None,
      sq_active_dynamic_target_source_kind = None,
      sq_active_dynamic_target_call_materialization_kind = None,
      sq_active_call_header_seq = None,
      sq_active_call_return_target_pc = None,
      sq_active_call_return_target_owner_seq = None,
      sq_active_call_return_target_epoch = None,
      sq_active_call_return_materialization_kind = None,
      sq_ready_table_checkpoints = [],
      sq_pending_bru_correction = None,
      sq_pending_trap = None,
      sq_iq_tags = [],
      sq_iq_owner_table = empty_iq_owner_table,
      sq_qtag_wait_crossbar = empty_qtag_wait_crossbar,
      sq_ready_table_t = {},
      sq_ready_table_u = {},
      sq_liq = [],
      sq_lhq = [],
      sq_mdb = [],
      sq_stq = [],
      sq_scb = [],
      sq_l1d = [],
      sq_p1 = [],
      sq_i1 = [],
      sq_i2 = [],
      sq_e1 = [],
      sq_e2 = [],
      sq_e3 = [],
      sq_e4 = [],
      sq_w1 = [],
      sq_w2 = [],
      sq_lsid_issue_ptr = 0,
      sq_lsid_complete_ptr = 0,
      sq_lsid_cache_ptr = 0\<rparr>"

section \<open>Age order\<close>

definition rob_age_rank :: "usize \<Rightarrow> usize list \<Rightarrow> usize" where
  "rob_age_rank seq rob = unwrap_or (position (\<lambda>rob_seq. rob_seq = seq) rob) usize_max"

section \<open>Lemmas\<close>

lemma phys_iq_index_less: "phys_iq_index q < PHYS_IQ_COUNT"
  by (cases q) simp_all

lemma phys_iq_index_inj [simp]: "phys_iq_index a = phys_iq_index b \<longleftrightarrow> a = b"
  by (cases a; cases b) simp_all

lemma rob_age_rank_nth:
  "distinct rob \<Longrightarrow> i < length rob \<Longrightarrow> rob_age_rank (rob ! i) rob = i"
  unfolding rob_age_rank_def
  by (subst position_nth [of i]) (auto simp: nth_eq_iff_index_eq)

lemma rob_age_rank_notin: "seq \<notin> set rob \<Longrightarrow> rob_age_rank seq rob = usize_max"
proof -
  assume "seq \<notin> set rob"
  then have "position (\<lambda>rob_seq. rob_seq = seq) rob = None" by (auto simp: position_None)
  then show ?thesis by (simp add: rob_age_rank_def)
qed

section \<open>The static part of a uop\<close>

text \<open>The part of a uop that execution never changes.\<close>

definition uop_static :: "CycleUop \<Rightarrow> CycleUop" where
  "uop_static u = u\<lparr>uo_src_qtags := (None, None), uo_dst_qtag := None, uo_miss_injected := False,
     uo_phys_iq := None, uo_pick_wakeup_visible := None, uo_data_ready_visible := None,
     uo_miss_pending_until := None, uo_e1_cycle := None, uo_e4_cycle := None, uo_w1_cycle := None,
     uo_done_cycle := None\<rparr>"

lemma uop_static_upd [simp]:
  "uop_static (u\<lparr>uo_src_qtags := a\<rparr>) = uop_static u" "uop_static (u\<lparr>uo_dst_qtag := b\<rparr>) = uop_static u"
  "uop_static (u\<lparr>uo_phys_iq := c\<rparr>) = uop_static u" "uop_static (u\<lparr>uo_miss_pending_until := d\<rparr>) = uop_static u"
  "uop_static (u\<lparr>uo_pick_wakeup_visible := d\<rparr>) = uop_static u"
  "uop_static (u\<lparr>uo_data_ready_visible := d\<rparr>) = uop_static u" "uop_static (u\<lparr>uo_e1_cycle := d\<rparr>) = uop_static u"
  "uop_static (u\<lparr>uo_e4_cycle := d\<rparr>) = uop_static u" "uop_static (u\<lparr>uo_w1_cycle := d\<rparr>) = uop_static u"
  "uop_static (u\<lparr>uo_done_cycle := d\<rparr>) = uop_static u" "uop_static (u\<lparr>uo_miss_injected := m\<rparr>) = uop_static u"
  by (simp_all add: uop_static_def)

lemma uop_static_sel:
  assumes "uop_static u = uop_static v"
  shows "uo_decoded u = uo_decoded v" "uo_commit u = uo_commit v" "uo_deps u = uo_deps v"
    "uo_bypass_d2 u = uo_bypass_d2 v" "uo_is_load u = uo_is_load v" "uo_is_store u = uo_is_store v"
    "uo_load_store_id u = uo_load_store_id v" "uo_redirect_target u = uo_redirect_target v"
  using assms by (cases u; cases v; simp add: uop_static_def)+

lemma map_static_update:
  "uop_static u = uop_static (us ! i) \<Longrightarrow> map uop_static (us[i := u]) = map uop_static us"
  by (cases "i < length us") (simp_all add: map_update list_update_same_conv list_update_beyond)

lemma map_static_nth:
  "map uop_static us = map uop_static vs \<Longrightarrow> i < length vs \<Longrightarrow> uop_static (us ! i) = uop_static (vs ! i)"
  by (metis length_map nth_map)

end
