(* ===== verification/Uop_Builder.thy ===== *)
theory Uop_Builder
  imports Uop_Model
begin

text \<open>
  Uop construction and classification (\<^verbatim>\<open>crates/camodel/src/decode/mod.rs\<close>): the commit
  stream of the functional engine is turned into cycle-engine uops with register and
  \<open>T\<close>/\<open>U\<close>-queue dependencies, load and memory numbering, fetch packets, checkpoint ids and
  block epochs. The register table \<open>last_writer\<close> has 32 entries and the source indexes it with
  an unchecked \<open>u8\<close>, so the first pass returns \<open>None\<close> where that index panics.
\<close>

section \<open>Instruction classes\<close>

definition bstart_mnemonics :: "string list" where
  "bstart_mnemonics =
     [''BSTART'', ''BSTART.ACCCVT'', ''BSTART.CALL'', ''BSTART.CUBE'', ''BSTART.FIXP'',
      ''BSTART.FP'', ''BSTART.MPAR'', ''BSTART.MSEQ'', ''BSTART.PAR'', ''BSTART.STD'',
      ''BSTART.SYS'', ''BSTART.TEPL'', ''BSTART.TLOAD'', ''BSTART.TMA'', ''BSTART.TMATMUL'',
      ''BSTART.TMATMUL.ACC'', ''BSTART.TMOV'', ''BSTART.TSTORE'', ''BSTART.VPAR'',
      ''BSTART.VSEQ'', ''C.BSTART'', ''C.BSTART.STD'', ''C.BSTART.SYS'', ''C.BSTART.VPAR'',
      ''C.BSTART.VSEQ'', ''HL.BSTART CALL'', ''HL.BSTART.FP'', ''HL.BSTART.STD'',
      ''HL.BSTART.SYS'']"

definition is_bstart :: "DecodedInstruction \<Rightarrow> bool" where
  "is_bstart decoded = (di_mnemonic decoded \<in> set bstart_mnemonics)"

definition is_bstop :: "DecodedInstruction \<Rightarrow> bool" where
  "is_bstop decoded = (di_mnemonic decoded \<in> {''BSTOP'', ''C.BSTOP''})"

definition is_macro_boundary :: "DecodedInstruction \<Rightarrow> bool" where
  "is_macro_boundary decoded =
     (di_mnemonic decoded \<in> {''FENTRY'', ''FEXIT'', ''FRET.RA'', ''FRET.STK''})"

definition is_start_marker :: "DecodedInstruction \<Rightarrow> bool" where
  "is_start_marker decoded = (is_bstart decoded \<or> is_macro_boundary decoded)"

definition is_boundary_redirect_owner :: "DecodedInstruction \<Rightarrow> bool" where
  "is_boundary_redirect_owner decoded =
     (is_bstart decoded \<or> is_bstop decoded \<or> is_macro_boundary decoded)"

definition is_legal_redirect_restart :: "DecodedInstruction \<Rightarrow> bool" where
  "is_legal_redirect_restart decoded = (is_bstart decoded \<or> is_macro_boundary decoded)"

definition d2_bypass :: "DecodedInstruction \<Rightarrow> bool" where
  "d2_bypass decoded =
     (di_mnemonic decoded \<in> {''SETRET'', ''C.SETRET'', ''HL.SETRET''} \<or>
      di_uop_group decoded = ''BBD'')"

definition legal_redirect_restart_seq :: "usize \<Rightarrow> u64 \<Rightarrow> CycleUop list \<Rightarrow> usize option" where
  "legal_redirect_restart_seq source_seq target_pc uops =
     find (\<lambda>seq. cr_pc (uo_commit (uops ! seq)) = target_pc \<and>
                 is_legal_redirect_restart (uo_decoded (uops ! seq)))
       [Suc source_seq ..< length uops]"

section \<open>Redirect targets of a commit\<close>

definition commit_fallthrough :: "CommitRecord \<Rightarrow> u64" where
  "commit_fallthrough commit = word_sat_add (cr_pc commit) (ucast (cr_len commit))"

definition architectural_redirect_target :: "CommitRecord \<Rightarrow> DecodedInstruction \<Rightarrow> u64 option" where
  "architectural_redirect_target commit decoded =
     then_some (cr_trap_valid commit = 0 \<and> cr_next_pc commit \<noteq> commit_fallthrough commit \<and>
                is_boundary_redirect_owner decoded) (cr_next_pc commit)"

definition deferred_bru_correction_target :: "CommitRecord \<Rightarrow> DecodedInstruction \<Rightarrow> u64 option" where
  "deferred_bru_correction_target commit decoded =
     then_some (cr_trap_valid commit = 0 \<and> cr_next_pc commit \<noteq> commit_fallthrough commit \<and>
                di_uop_group decoded = ''BRU'' \<and> \<not> is_boundary_redirect_owner decoded)
       (cr_next_pc commit)"

section \<open>Queue operands\<close>

definition queue_src_kind :: "CommitRecord \<Rightarrow> DecodedInstruction \<Rightarrow> usize \<Rightarrow> QueueWakeKind option" where
  "queue_src_kind commit decoded idx =
     (let reg = (if idx = 0 \<and> cr_src0_valid commit \<noteq> 0 then Some (cr_src0_reg commit)
                 else if idx = 1 \<and> cr_src1_valid commit \<noteq> 0 then Some (cr_src1_reg commit)
                 else None);
          asm = to_ascii_lowercase (di_asm decoded)
      in case reg of None \<Rightarrow> None
         | Some r \<Rightarrow>
             if r = REG_T1 \<and> str_contains asm ''t#'' then Some WakeT
             else if r = REG_U1 \<and> str_contains asm ''u#'' then Some WakeU
             else None)"

definition parse_queue_relative :: "string \<Rightarrow> string \<Rightarrow> usize option" where
  "parse_queue_relative asm prefix =
     (case str_find asm prefix of None \<Rightarrow> None
      | Some start \<Rightarrow> parse_usize (takeWhile is_ascii_digit (drop (start + length prefix) asm)))"

definition queue_src_rel :: "CommitRecord \<Rightarrow> DecodedInstruction \<Rightarrow> usize \<Rightarrow> usize option" where
  "queue_src_rel commit decoded idx =
     (case queue_src_kind commit decoded idx of None \<Rightarrow> None
      | Some kind \<Rightarrow> parse_queue_relative (to_ascii_lowercase (di_asm decoded))
          (case kind of WakeT \<Rightarrow> ''t#'' | WakeU \<Rightarrow> ''u#''))"

definition queue_dst_kind :: "CommitRecord \<Rightarrow> DecodedInstruction \<Rightarrow> QueueWakeKind option" where
  "queue_dst_kind commit decoded =
     (if cr_wb_valid commit = 0 then None
      else let asm = to_ascii_lowercase (di_asm decoded)
           in if cr_wb_rd commit = REG_T1 \<and> str_contains asm ''->t'' then Some WakeT
              else if cr_wb_rd commit = REG_U1 \<and> str_contains asm ''->u'' then Some WakeU
              else None)"

fun allocate_logical_queue_tag ::
  "QueueWakeKind option \<Rightarrow> usize \<Rightarrow> usize \<Rightarrow> LogicalQueueTag option \<times> usize \<times> usize" where
  "allocate_logical_queue_tag (Some WakeT) next_t_tag next_u_tag =
     (Some \<lparr>lt_kind = WakeT, lt_tag = next_t_tag\<rparr>, next_t_tag + 1, next_u_tag)"
| "allocate_logical_queue_tag (Some WakeU) next_t_tag next_u_tag =
     (Some \<lparr>lt_kind = WakeU, lt_tag = next_u_tag\<rparr>, next_t_tag, next_u_tag + 1)"
| "allocate_logical_queue_tag None next_t_tag next_u_tag = (None, next_t_tag, next_u_tag)"

type_synonym queue_history = "(usize \<times> LogicalQueueTag) list"

definition resolve_logical_queue_src ::
  "QueueWakeKind \<Rightarrow> usize \<Rightarrow> queue_history \<Rightarrow> queue_history \<Rightarrow> (usize \<times> LogicalQueueTag) option" where
  "resolve_logical_queue_src kind rel t_history u_history =
     (if rel = 0 then None
      else case kind of
        WakeT \<Rightarrow> vec_get (rev t_history) (rel - 1)
      | WakeU \<Rightarrow> vec_get (rev u_history) (rel - 1))"

definition logical_tag_producer ::
  "LogicalQueueTag \<Rightarrow> queue_history \<Rightarrow> queue_history \<Rightarrow> usize option" where
  "logical_tag_producer tag t_history u_history =
     map_option fst
       (find (\<lambda>(_, candidate). candidate = tag)
         (case lt_kind tag of WakeT \<Rightarrow> t_history | WakeU \<Rightarrow> u_history))"

section \<open>Building the uops\<close>

record dep_row =
  dr_deps :: "usize option \<times> usize option"
  dr_src_queue_kinds :: "QueueWakeKind option \<times> QueueWakeKind option"
  dr_src_logical_tags :: "LogicalQueueTag option \<times> LogicalQueueTag option"
  dr_dst_queue_kind :: "QueueWakeKind option"
  dr_dst_logical_tag :: "LogicalQueueTag option"

record build_state =
  bs_last_writer :: "usize option list"
  bs_t_history :: queue_history
  bs_u_history :: queue_history
  bs_next_t_tag :: usize
  bs_next_u_tag :: usize

definition init_build_state :: build_state where
  "init_build_state = \<lparr>bs_last_writer = replicate 32 None, bs_t_history = [], bs_u_history = [],
     bs_next_t_tag = 0, bs_next_u_tag = 0\<rparr>"

definition src_logical_tag ::
  "build_state \<Rightarrow> CommitRecord \<Rightarrow> DecodedInstruction \<Rightarrow> usize \<Rightarrow> LogicalQueueTag option" where
  "src_logical_tag st commit decoded idx =
     (case queue_src_kind commit decoded idx of None \<Rightarrow> None
      | Some kind \<Rightarrow>
          (case queue_src_rel commit decoded idx of None \<Rightarrow> None
           | Some rel \<Rightarrow> map_option snd
               (resolve_logical_queue_src kind rel (bs_t_history st) (bs_u_history st))))"

text \<open>A source operand's producer; the outer option is the panic of \<open>last_writer[reg]\<close>.\<close>

definition src_producer ::
  "build_state \<Rightarrow> LogicalQueueTag option \<Rightarrow> u8 \<Rightarrow> u8 \<Rightarrow> usize option option" where
  "src_producer st tag valid reg =
     (case Option.bind tag (\<lambda>t. logical_tag_producer t (bs_t_history st) (bs_u_history st)) of
        Some p \<Rightarrow> Some (Some p)
      | None \<Rightarrow> if valid \<noteq> 0 \<and> reg \<noteq> 0 then vec_get (bs_last_writer st) (unat reg) else Some None)"

definition build_row ::
  "usize \<Rightarrow> CommitRecord \<Rightarrow> DecodedInstruction \<Rightarrow> build_state \<Rightarrow> (dep_row \<times> build_state) option" where
  "build_row seq commit decoded st =
     (let tag0 = src_logical_tag st commit decoded 0;
          tag1 = src_logical_tag st commit decoded 1;
          dst_kind = queue_dst_kind commit decoded;
          (dst_tag, next_t, next_u) =
            allocate_logical_queue_tag dst_kind (bs_next_t_tag st) (bs_next_u_tag st)
      in case (src_producer st tag0 (cr_src0_valid commit) (cr_src0_reg commit),
               src_producer st tag1 (cr_src1_valid commit) (cr_src1_reg commit)) of
           (Some src0, Some src1) \<Rightarrow>
             if cr_wb_valid commit \<noteq> 0 \<and> cr_wb_rd commit \<noteq> 0 \<and>
                length (bs_last_writer st) \<le> unat (cr_wb_rd commit)
             then None
             else Some
               (\<lparr>dr_deps = (src0, src1),
                 dr_src_queue_kinds = (queue_src_kind commit decoded 0, queue_src_kind commit decoded 1),
                 dr_src_logical_tags = (tag0, tag1),
                 dr_dst_queue_kind = dst_kind,
                 dr_dst_logical_tag = dst_tag\<rparr>,
                \<lparr>bs_last_writer =
                   (if cr_wb_valid commit \<noteq> 0 \<and> cr_wb_rd commit \<noteq> 0
                    then (bs_last_writer st)[unat (cr_wb_rd commit) := Some seq]
                    else bs_last_writer st),
                 bs_t_history =
                   (case dst_tag of Some tag \<Rightarrow>
                      if lt_kind tag = WakeT then bs_t_history st @ [(seq, tag)] else bs_t_history st
                    | None \<Rightarrow> bs_t_history st),
                 bs_u_history =
                   (case dst_tag of Some tag \<Rightarrow>
                      if lt_kind tag = WakeU then bs_u_history st @ [(seq, tag)] else bs_u_history st
                    | None \<Rightarrow> bs_u_history st),
                 bs_next_t_tag = next_t,
                 bs_next_u_tag = next_u\<rparr>)
         | _ \<Rightarrow> None)"

fun build_rows ::
  "usize \<Rightarrow> CommitRecord list \<Rightarrow> DecodedInstruction list \<Rightarrow> build_state \<Rightarrow> dep_row list option" where
  "build_rows seq (commit # commits) (decoded # decodeds) st =
     (case build_row seq commit decoded st of None \<Rightarrow> None
      | Some (row, st') \<Rightarrow> map_option (Cons row) (build_rows (seq + 1) commits decodeds st'))"
| "build_rows seq commits decodeds st = Some []"

definition commit_is_load :: "CommitRecord \<Rightarrow> bool" where
  "commit_is_load commit = (cr_mem_valid commit \<noteq> 0 \<and> cr_mem_is_store commit = 0)"

definition commit_is_store :: "CommitRecord \<Rightarrow> bool" where
  "commit_is_store commit = (cr_mem_valid commit \<noteq> 0 \<and> cr_mem_is_store commit \<noteq> 0)"

definition make_uop ::
  "CommitRecord \<Rightarrow> DecodedInstruction \<Rightarrow> dep_row \<Rightarrow> usize \<Rightarrow> usize \<Rightarrow> CycleUop" where
  "make_uop commit decoded row load_ordinal load_store_id =
     (let is_load = commit_is_load commit; is_store = commit_is_store commit in
      \<lparr>uo_decoded = decoded, uo_commit = commit, uo_deps = dr_deps row,
       uo_src_queue_kinds = dr_src_queue_kinds row,
       uo_src_logical_tags = dr_src_logical_tags row,
       uo_src_qtags = (None, None),
       uo_dst_queue_kind = dr_dst_queue_kind row,
       uo_dst_logical_tag = dr_dst_logical_tag row,
       uo_dst_qtag = None,
       uo_bypass_d2 = d2_bypass decoded,
       uo_is_load = is_load, uo_is_store = is_store,
       uo_load_ordinal = then_some is_load load_ordinal,
       uo_load_store_id = then_some (is_load \<or> is_store) load_store_id,
       uo_miss_injected = False,
       uo_redirect_target = architectural_redirect_target commit decoded,
       uo_phys_iq = None, uo_pick_wakeup_visible = None, uo_data_ready_visible = None,
       uo_miss_pending_until = None, uo_e1_cycle = None, uo_e4_cycle = None,
       uo_w1_cycle = None, uo_done_cycle = None\<rparr>)"

fun assemble_uops ::
  "CommitRecord list \<Rightarrow> DecodedInstruction list \<Rightarrow> dep_row list \<Rightarrow> usize \<Rightarrow> usize \<Rightarrow> CycleUop list" where
  "assemble_uops (commit # commits) (decoded # decodeds) (row # rows) load_ordinal load_store_id =
     make_uop commit decoded row load_ordinal load_store_id #
     assemble_uops commits decodeds rows
       (if commit_is_load commit then load_ordinal + 1 else load_ordinal)
       (if commit_is_load commit \<or> commit_is_store commit then load_store_id + 1 else load_store_id)"
| "assemble_uops commits decodeds rows load_ordinal load_store_id = []"

definition build_uops ::
  "CommitRecord list \<Rightarrow> DecodedInstruction list \<Rightarrow> CycleUop list option" where
  "build_uops commits decoded =
     map_option (\<lambda>rows. assemble_uops commits decoded rows 0 0)
       (build_rows 0 commits decoded init_build_state)"

section \<open>Fetch packets, checkpoints and epochs\<close>

text \<open>The inner loop of \<open>fetch_packet_head_seq\<close>: the last sequence number of the packet that
  starts at \<open>head\<close>.\<close>

function packet_end_from :: "usize \<Rightarrow> usize \<Rightarrow> CycleUop list \<Rightarrow> usize" where
  "packet_end_from head packet_end uops =
     (if packet_end + 1 < length uops \<and> packet_end - head + 1 < FETCH_WIDTH
      then if uo_redirect_target (uops ! packet_end) \<noteq> None then packet_end
           else packet_end_from head (packet_end + 1) uops
      else packet_end)"
  by pat_completeness auto
termination
  by (relation "measure (\<lambda>(head, packet_end, uops). length uops - packet_end)") auto

declare packet_end_from.simps [simp del]

lemma packet_end_from_ge: "packet_end \<le> packet_end_from head packet_end uops"
proof (induction head packet_end uops rule: packet_end_from.induct)
  case (1 head packet_end uops)
  then show ?case by (subst packet_end_from.simps) auto
qed

function packet_head_from :: "usize \<Rightarrow> usize \<Rightarrow> CycleUop list \<Rightarrow> usize option" where
  "packet_head_from head seq uops =
     (if head < length uops
      then let packet_end = packet_end_from head head uops
           in if head \<le> seq \<and> seq \<le> packet_end then Some head
              else packet_head_from (packet_end + 1) seq uops
      else None)"
  by pat_completeness auto
termination
proof (relation "measure (\<lambda>(head, seq, uops). length uops - head)", goal_cases)
  case 1
  then show ?case by simp
next
  case (2 head seq uops x)
  then show ?case using packet_end_from_ge [of head head uops] by auto
qed

declare packet_head_from.simps [simp del]

definition fetch_packet_head_seq :: "usize \<Rightarrow> CycleUop list \<Rightarrow> usize option" where
  "fetch_packet_head_seq seq uops = packet_head_from 0 seq uops"

definition packet_slot_for_seq :: "usize \<Rightarrow> CycleUop list \<Rightarrow> usize option" where
  "packet_slot_for_seq seq uops =
     map_option (\<lambda>head. sat_sub seq head) (fetch_packet_head_seq seq uops)"

definition packet_checkpoint_id :: "u64 \<Rightarrow> u8" where
  "packet_checkpoint_id packet_head_pc = ucast (drop_bit 2 packet_head_pc AND 0x3f)"

definition checkpoint_id_for_seq :: "usize \<Rightarrow> CycleUop list \<Rightarrow> u8" where
  "checkpoint_id_for_seq seq uops =
     (case fetch_packet_head_seq seq uops of None \<Rightarrow> 0
      | Some head \<Rightarrow> packet_checkpoint_id (cr_pc (uo_commit (uops ! head))))"

definition rob_checkpoint_id_for_seq :: "usize \<Rightarrow> CycleUop list \<Rightarrow> u8" where
  "rob_checkpoint_id_for_seq seq uops =
     (if \<not> is_start_marker (uo_decoded (uops ! seq)) then 0
      else (checkpoint_id_for_seq seq uops +
            word_of_nat (unwrap_or (packet_slot_for_seq seq uops) 0)) AND 0x3f)"

definition epoch_step :: "DecodedInstruction \<Rightarrow> u16 \<times> bool \<Rightarrow> u16 \<times> bool" where
  "epoch_step decoded st =
     (let (epoch, block_head) = st;
          is_bstart_head = is_bstart decoded \<and> block_head;
          is_bstart_mid = is_bstart decoded \<and> \<not> block_head;
          is_boundary = is_bstart_mid \<or> is_bstop decoded \<or> is_macro_boundary decoded;
          block_head1 = (if is_boundary then True else block_head);
          block_head2 = (if is_bstart_head then False else block_head1)
      in (if is_boundary \<or> is_bstart_head then epoch + 1 else epoch, block_head2))"

definition block_epoch_for_seq :: "usize \<Rightarrow> CycleUop list \<Rightarrow> u16" where
  "block_epoch_for_seq seq uops =
     fst (fold (\<lambda>uop. epoch_step (uo_decoded uop)) (take seq uops) (0, True))"

section \<open>Reference semantics of the dependency pass\<close>

text \<open>Declarative reading of the commit stream: the most recent writer of a register, the
  writers of a queue in program order, and what a source operand therefore depends on.\<close>

definition writer_before :: "CommitRecord list \<Rightarrow> nat \<Rightarrow> nat \<Rightarrow> usize option" where
  "writer_before cs reg n =
     find (\<lambda>j. cr_wb_valid (cs ! j) \<noteq> 0 \<and> cr_wb_rd (cs ! j) \<noteq> 0 \<and> unat (cr_wb_rd (cs ! j)) = reg)
       (rev [0 ..< n])"

definition queue_writers ::
  "CommitRecord list \<Rightarrow> DecodedInstruction list \<Rightarrow> QueueWakeKind \<Rightarrow> nat \<Rightarrow> usize list" where
  "queue_writers cs ds k n = filter (\<lambda>j. queue_dst_kind (cs ! j) (ds ! j) = Some k) [0 ..< n]"

definition spec_src_tag ::
  "CommitRecord list \<Rightarrow> DecodedInstruction list \<Rightarrow> nat \<Rightarrow> nat \<Rightarrow> LogicalQueueTag option" where
  "spec_src_tag cs ds n idx =
     (case (queue_src_kind (cs ! n) (ds ! n) idx, queue_src_rel (cs ! n) (ds ! n) idx) of
        (Some k, Some rel) \<Rightarrow>
          let ws = queue_writers cs ds k n
          in if 1 \<le> rel \<and> rel \<le> length ws
             then Some \<lparr>lt_kind = k, lt_tag = length ws - rel\<rparr> else None
      | _ \<Rightarrow> None)"

definition spec_dep :: "CommitRecord list \<Rightarrow> DecodedInstruction list \<Rightarrow> nat \<Rightarrow> nat \<Rightarrow> usize option" where
  "spec_dep cs ds n idx =
     (case spec_src_tag cs ds n idx of
        Some tag \<Rightarrow> Some (queue_writers cs ds (lt_kind tag) n ! lt_tag tag)
      | None \<Rightarrow>
          let valid = (if idx = 0 then cr_src0_valid (cs ! n) else cr_src1_valid (cs ! n));
              reg = (if idx = 0 then cr_src0_reg (cs ! n) else cr_src1_reg (cs ! n))
          in if valid \<noteq> 0 \<and> reg \<noteq> 0 then writer_before cs (unat reg) n else None)"

definition spec_dst_tag ::
  "CommitRecord list \<Rightarrow> DecodedInstruction list \<Rightarrow> nat \<Rightarrow> LogicalQueueTag option" where
  "spec_dst_tag cs ds n =
     map_option (\<lambda>k. \<lparr>lt_kind = k, lt_tag = length (queue_writers cs ds k n)\<rparr>)
       (queue_dst_kind (cs ! n) (ds ! n))"

definition commit_regs_ok :: "CommitRecord \<Rightarrow> bool" where
  "commit_regs_ok c =
     ((cr_src0_valid c \<noteq> 0 \<longrightarrow> unat (cr_src0_reg c) < 32) \<and>
      (cr_src1_valid c \<noteq> 0 \<longrightarrow> unat (cr_src1_reg c) < 32) \<and>
      (cr_wb_valid c \<noteq> 0 \<longrightarrow> unat (cr_wb_rd c) < 32))"

definition queue_hist ::
  "CommitRecord list \<Rightarrow> DecodedInstruction list \<Rightarrow> QueueWakeKind \<Rightarrow> nat \<Rightarrow> queue_history" where
  "queue_hist cs ds k n =
     map (\<lambda>t. (queue_writers cs ds k n ! t, \<lparr>lt_kind = k, lt_tag = t\<rparr>))
       [0 ..< length (queue_writers cs ds k n)]"

definition build_inv ::
  "CommitRecord list \<Rightarrow> DecodedInstruction list \<Rightarrow> nat \<Rightarrow> build_state \<Rightarrow> bool" where
  "build_inv cs ds n st =
     (bs_last_writer st = map (\<lambda>r. writer_before cs r n) [0 ..< 32] \<and>
      bs_t_history st = queue_hist cs ds WakeT n \<and> bs_u_history st = queue_hist cs ds WakeU n \<and>
      bs_next_t_tag st = length (queue_writers cs ds WakeT n) \<and>
      bs_next_u_tag st = length (queue_writers cs ds WakeU n))"

definition spec_row :: "CommitRecord list \<Rightarrow> DecodedInstruction list \<Rightarrow> nat \<Rightarrow> dep_row" where
  "spec_row cs ds n =
     \<lparr>dr_deps = (spec_dep cs ds n 0, spec_dep cs ds n 1),
      dr_src_queue_kinds = (queue_src_kind (cs ! n) (ds ! n) 0, queue_src_kind (cs ! n) (ds ! n) 1),
      dr_src_logical_tags = (spec_src_tag cs ds n 0, spec_src_tag cs ds n 1),
      dr_dst_queue_kind = queue_dst_kind (cs ! n) (ds ! n),
      dr_dst_logical_tag = spec_dst_tag cs ds n\<rparr>"

definition loads_before :: "CommitRecord list \<Rightarrow> nat \<Rightarrow> nat" where
  "loads_before cs n = length (filter commit_is_load (take n cs))"

definition memory_ops_before :: "CommitRecord list \<Rightarrow> nat \<Rightarrow> nat" where
  "memory_ops_before cs n = length (filter (\<lambda>c. commit_is_load c \<or> commit_is_store c) (take n cs))"

definition spec_uop :: "CommitRecord list \<Rightarrow> DecodedInstruction list \<Rightarrow> nat \<Rightarrow> CycleUop" where
  "spec_uop cs ds n =
     make_uop (cs ! n) (ds ! n) (spec_row cs ds n) (loads_before cs n) (memory_ops_before cs n)"

definition sample_instr :: "string \<Rightarrow> string \<Rightarrow> string \<Rightarrow> DecodedInstruction" where
  "sample_instr mnemonic asm uop_group =
     \<lparr>di_uid = [], di_mnemonic = mnemonic, di_asm = asm, di_group = [], di_encoding_kind = [],
      di_length_bits = 32, di_mask = 0, di_match_bits = 0, di_instruction_bits = 0,
      di_uop_group = uop_group, di_fields = []\<rparr>"

definition sample_commit :: "u64 \<Rightarrow> u64 \<Rightarrow> CommitRecord" where
  "sample_commit pc next_pc =
     (unsupported 0 pc 0 0 default_block_meta)\<lparr>cr_next_pc := next_pc, cr_trap_valid := 0\<rparr>"

text \<open>A store of the value a queue producer has just pushed.\<close>

definition queue_pair_commits :: "CommitRecord list" where
  "queue_pair_commits =
     [(sample_commit 0 4)\<lparr>cr_wb_valid := 1, cr_wb_rd := 24\<rparr>,
      (sample_commit 4 8)\<lparr>cr_src0_valid := 1, cr_src0_reg := 24, cr_mem_valid := 1,
        cr_mem_is_store := 1\<rparr>]"

definition queue_pair_decoded :: "DecodedInstruction list" where
  "queue_pair_decoded = [sample_instr ''ADD'' ''add a, b ->t'' ''ALU'', sample_instr ''SW'' ''sw t#1'' ''STD'']"

section \<open>The builder computes the reference semantics\<close>

lemma writer_before_Suc:
  "writer_before cs reg (Suc n) =
     (if cr_wb_valid (cs ! n) \<noteq> 0 \<and> cr_wb_rd (cs ! n) \<noteq> 0 \<and> unat (cr_wb_rd (cs ! n)) = reg
      then Some n else writer_before cs reg n)"
  by (simp add: writer_before_def)

lemma writer_before_less: "writer_before cs reg n = Some j \<Longrightarrow> j < n"
  by (auto simp: writer_before_def find_Some_iff rev_nth)

lemma queue_writers_Suc:
  "queue_writers cs ds k (Suc n) =
     queue_writers cs ds k n @ (if queue_dst_kind (cs ! n) (ds ! n) = Some k then [n] else [])"
  by (simp add: queue_writers_def)

lemma queue_hist_Suc:
  "queue_hist cs ds k (Suc n) =
     queue_hist cs ds k n @
     (if queue_dst_kind (cs ! n) (ds ! n) = Some k
      then [(n, \<lparr>lt_kind = k, lt_tag = length (queue_writers cs ds k n)\<rparr>)] else [])"
  by (auto simp: queue_hist_def queue_writers_Suc nth_append)

lemma build_inv_init: "build_inv cs ds 0 init_build_state"
  by (simp add: build_inv_def init_build_state_def writer_before_def queue_hist_def queue_writers_def
      map_replicate_const)

lemma length_queue_hist [simp]: "length (queue_hist cs ds k n) = length (queue_writers cs ds k n)"
  by (simp add: queue_hist_def)

lemma queue_hist_nth:
  "t < length (queue_writers cs ds k n) \<Longrightarrow>
   queue_hist cs ds k n ! t = (queue_writers cs ds k n ! t, \<lparr>lt_kind = k, lt_tag = t\<rparr>)"
  by (simp add: queue_hist_def)

lemma resolve_hist:
  "map_option snd (resolve_logical_queue_src k rel (queue_hist cs ds WakeT n) (queue_hist cs ds WakeU n)) =
     (let ws = queue_writers cs ds k n
      in if 1 \<le> rel \<and> rel \<le> length ws then Some \<lparr>lt_kind = k, lt_tag = length ws - rel\<rparr> else None)"
  by (cases k) (auto simp: resolve_logical_queue_src_def vec_get_def rev_nth queue_hist_nth Let_def)

lemma src_logical_tag_spec:
  "build_inv cs ds n st \<Longrightarrow> src_logical_tag st (cs ! n) (ds ! n) idx = spec_src_tag cs ds n idx"
  by (auto simp: src_logical_tag_def spec_src_tag_def build_inv_def resolve_hist split: option.splits)

lemma find_hist:
  assumes "t < length (queue_writers cs ds k n)"
  shows "find (\<lambda>(_, candidate). candidate = \<lparr>lt_kind = k, lt_tag = t\<rparr>) (queue_hist cs ds k n)
           = Some (queue_writers cs ds k n ! t, \<lparr>lt_kind = k, lt_tag = t\<rparr>)"
  using assms by (auto simp: find_Some_iff queue_hist_nth intro!: exI [of _ t])

lemma spec_src_tag_bound:
  "spec_src_tag cs ds n idx = Some tag \<Longrightarrow> lt_tag tag < length (queue_writers cs ds (lt_kind tag) n)"
  by (auto simp: spec_src_tag_def Let_def split: option.splits if_splits)

lemma tag_producer_spec:
  assumes "build_inv cs ds n st" "spec_src_tag cs ds n idx = Some tag"
  shows "logical_tag_producer tag (bs_t_history st) (bs_u_history st) =
         Some (queue_writers cs ds (lt_kind tag) n ! lt_tag tag)"
proof -
  have eta: "\<lparr>lt_kind = lt_kind tag, lt_tag = lt_tag tag\<rparr> = tag" by (cases tag) simp
  from spec_src_tag_bound [OF assms(2)]
  have "find (\<lambda>(_, candidate). candidate = tag) (queue_hist cs ds (lt_kind tag) n)
        = Some (queue_writers cs ds (lt_kind tag) n ! lt_tag tag, tag)"
    using find_hist [of "lt_tag tag" cs ds "lt_kind tag" n] by (simp only: eta)
  with assms(1) show ?thesis
    by (cases "lt_kind tag") (auto simp: logical_tag_producer_def build_inv_def)
qed

lemma queue_src_kind_reg:
  "queue_src_kind c d 0 = Some k \<Longrightarrow> cr_src0_reg c \<in> {24, 28}"
  "queue_src_kind c d (Suc 0) = Some k \<Longrightarrow> cr_src1_reg c \<in> {24, 28}"
  by (auto simp: queue_src_kind_def Let_def REG_T1_def REG_U1_def split: if_splits)

lemma spec_src_tag_kind: "spec_src_tag cs ds n idx = Some tag \<Longrightarrow> \<exists>k. queue_src_kind (cs ! n) (ds ! n) idx = Some k"
  by (auto simp: spec_src_tag_def split: option.splits)

lemma src_producer_spec:
  assumes "build_inv cs ds n st"
  shows "src_producer st (spec_src_tag cs ds n 0) (cr_src0_valid (cs ! n)) (cr_src0_reg (cs ! n)) =
           (if cr_src0_valid (cs ! n) \<noteq> 0 \<longrightarrow> unat (cr_src0_reg (cs ! n)) < 32
            then Some (spec_dep cs ds n 0) else None)"
    and "src_producer st (spec_src_tag cs ds n 1) (cr_src1_valid (cs ! n)) (cr_src1_reg (cs ! n)) =
           (if cr_src1_valid (cs ! n) \<noteq> 0 \<longrightarrow> unat (cr_src1_reg (cs ! n)) < 32
            then Some (spec_dep cs ds n 1) else None)"
proof -
  have lw: "bs_last_writer st = map (\<lambda>r. writer_before cs r n) [0 ..< 32]"
    using assms by (simp add: build_inv_def)
  show "src_producer st (spec_src_tag cs ds n 0) (cr_src0_valid (cs ! n)) (cr_src0_reg (cs ! n)) =
           (if cr_src0_valid (cs ! n) \<noteq> 0 \<longrightarrow> unat (cr_src0_reg (cs ! n)) < 32
            then Some (spec_dep cs ds n 0) else None)"
  proof (cases "spec_src_tag cs ds n 0")
    case None
    then show ?thesis by (auto simp: src_producer_def spec_dep_def lw vec_get_def)
  next
    case (Some tag)
    with spec_src_tag_kind have "cr_src0_reg (cs ! n) \<in> {24, 28}"
      using queue_src_kind_reg(1) by fastforce
    with Some tag_producer_spec [OF assms Some] show ?thesis
      by (auto simp: src_producer_def spec_dep_def)
  qed
  show "src_producer st (spec_src_tag cs ds n 1) (cr_src1_valid (cs ! n)) (cr_src1_reg (cs ! n)) =
           (if cr_src1_valid (cs ! n) \<noteq> 0 \<longrightarrow> unat (cr_src1_reg (cs ! n)) < 32
            then Some (spec_dep cs ds n 1) else None)"
  proof (cases "spec_src_tag cs ds n 1")
    case None
    then show ?thesis by (auto simp: src_producer_def spec_dep_def lw vec_get_def)
  next
    case (Some tag)
    with spec_src_tag_kind have "cr_src1_reg (cs ! n) \<in> {24, 28}"
      using queue_src_kind_reg(2) by fastforce
    with Some tag_producer_spec [OF assms Some] show ?thesis
      by (auto simp: src_producer_def spec_dep_def)
  qed
qed

lemma allocate_spec:
  assumes "build_inv cs ds n st"
  shows "allocate_logical_queue_tag (queue_dst_kind (cs ! n) (ds ! n)) (bs_next_t_tag st) (bs_next_u_tag st) =
     (spec_dst_tag cs ds n, length (queue_writers cs ds WakeT (Suc n)),
      length (queue_writers cs ds WakeU (Suc n)))"
  using assms
  by (cases "queue_dst_kind (cs ! n) (ds ! n)"; cases "the (queue_dst_kind (cs ! n) (ds ! n))")
     (auto simp: build_inv_def spec_dst_tag_def queue_writers_Suc)

lemma map_upt_update:
  "r < m \<Longrightarrow> (map f [0 ..< m])[r := y] = map (\<lambda>i. if i = r then y else f i) [0 ..< m]"
  by (rule nth_equalityI) (auto simp: nth_list_update)

lemma build_row_spec:
  assumes "build_inv cs ds n st"
  shows "build_row n (cs ! n) (ds ! n) st =
     (if commit_regs_ok (cs ! n)
      then Some (spec_row cs ds n,
        \<lparr>bs_last_writer = map (\<lambda>r. writer_before cs r (Suc n)) [0 ..< 32],
         bs_t_history = queue_hist cs ds WakeT (Suc n), bs_u_history = queue_hist cs ds WakeU (Suc n),
         bs_next_t_tag = length (queue_writers cs ds WakeT (Suc n)),
         bs_next_u_tag = length (queue_writers cs ds WakeU (Suc n))\<rparr>)
      else None)"
proof -
  note tags = src_logical_tag_spec [OF assms]
  note prods = src_producer_spec [OF assms]
  note alloc = allocate_spec [OF assms]
  have lw: "bs_last_writer st = map (\<lambda>r. writer_before cs r n) [0 ..< 32]"
    and hist: "bs_t_history st = queue_hist cs ds WakeT n" "bs_u_history st = queue_hist cs ds WakeU n"
    using assms by (simp_all add: build_inv_def)
  have t: "(case spec_dst_tag cs ds n of None \<Rightarrow> queue_hist cs ds WakeT n
            | Some tag \<Rightarrow> if lt_kind tag = WakeT then queue_hist cs ds WakeT n @ [(n, tag)]
                          else queue_hist cs ds WakeT n) = queue_hist cs ds WakeT (Suc n)"
   and u: "(case spec_dst_tag cs ds n of None \<Rightarrow> queue_hist cs ds WakeU n
            | Some tag \<Rightarrow> if lt_kind tag = WakeU then queue_hist cs ds WakeU n @ [(n, tag)]
                          else queue_hist cs ds WakeU n) = queue_hist cs ds WakeU (Suc n)"
    by (auto simp: spec_dst_tag_def queue_hist_Suc split: option.splits)
  have w: "(if cr_wb_valid (cs ! n) \<noteq> 0 \<and> cr_wb_rd (cs ! n) \<noteq> 0
            then (map (\<lambda>r. writer_before cs r n) [0 ..< 32])[unat (cr_wb_rd (cs ! n)) := Some n]
            else map (\<lambda>r. writer_before cs r n) [0 ..< 32])
           = map (\<lambda>r. writer_before cs r (Suc n)) [0 ..< 32]"
    if "cr_wb_valid (cs ! n) \<noteq> 0 \<longrightarrow> unat (cr_wb_rd (cs ! n)) < 32"
    using that by (auto simp: map_upt_update writer_before_Suc)
  show ?thesis
    unfolding build_row_def tags prods alloc Let_def lw hist prod.case t u
    using w by (auto simp: commit_regs_ok_def spec_row_def not_le)
qed

lemma build_rows_spec:
  assumes "build_inv cs ds n st"
  shows "build_rows n (drop n cs) (drop n ds) st =
     (if \<forall>i. n \<le> i \<and> i < min (length cs) (length ds) \<longrightarrow> commit_regs_ok (cs ! i)
      then Some (map (spec_row cs ds) [n ..< min (length cs) (length ds)]) else None)"
  using assms
proof (induction "length cs - n" arbitrary: n st)
  case 0
  then show ?case by simp
next
  case (Suc k)
  show ?case
  proof (cases "n < length ds")
    case False
    then show ?thesis by (cases "drop n cs") simp_all
  next
    case True
    let ?m = "min (length cs) (length ds)"
    have n: "n < ?m" using Suc.hyps(2) True by simp
    then have dr: "drop n cs = cs ! n # drop (Suc n) cs" "drop n ds = ds ! n # drop (Suc n) ds"
      by (simp_all add: Cons_nth_drop_Suc)
    show ?thesis
    proof (cases "commit_regs_ok (cs ! n)")
      case False
      with n Suc.prems show ?thesis by (auto simp: dr build_row_spec)
    next
      case ok: True
      let ?st = "\<lparr>bs_last_writer = map (\<lambda>r. writer_before cs r (Suc n)) [0 ..< 32],
         bs_t_history = queue_hist cs ds WakeT (Suc n), bs_u_history = queue_hist cs ds WakeU (Suc n),
         bs_next_t_tag = length (queue_writers cs ds WakeT (Suc n)),
         bs_next_u_tag = length (queue_writers cs ds WakeU (Suc n))\<rparr>"
      have inv: "build_inv cs ds (Suc n) ?st" by (simp add: build_inv_def)
      have IH: "build_rows (Suc n) (drop (Suc n) cs) (drop (Suc n) ds) ?st =
        (if \<forall>i. Suc n \<le> i \<and> i < ?m \<longrightarrow> commit_regs_ok (cs ! i)
         then Some (map (spec_row cs ds) [Suc n ..< ?m]) else None)"
        using Suc.hyps(2) inv by (intro Suc.hyps(1)) auto
      have all: "(\<forall>i. n \<le> i \<and> i < ?m \<longrightarrow> commit_regs_ok (cs ! i)) =
                 (\<forall>i. Suc n \<le> i \<and> i < ?m \<longrightarrow> commit_regs_ok (cs ! i))"
        using ok by (metis Suc_leD le_antisym not_less_eq_eq)
      show ?thesis unfolding all using IH ok n Suc.prems
        by (simp add: dr build_row_spec upt_conv_Cons)
    qed
  qed
qed

lemma loads_before_Suc:
  "n < length cs \<Longrightarrow> loads_before cs (Suc n) = (if commit_is_load (cs ! n) then 1 else 0) + loads_before cs n"
  by (simp add: loads_before_def take_Suc_conv_app_nth)

lemma memory_ops_before_Suc:
  "n < length cs \<Longrightarrow> memory_ops_before cs (Suc n) =
     (if commit_is_load (cs ! n) \<or> commit_is_store (cs ! n) then 1 else 0) + memory_ops_before cs n"
  by (simp add: memory_ops_before_def take_Suc_conv_app_nth)

lemma assemble_spec:
  assumes "m = min (length cs) (length ds)"
  shows "assemble_uops (drop n cs) (drop n ds) (map (spec_row cs ds) [n ..< m])
           (loads_before cs n) (memory_ops_before cs n) = map (spec_uop cs ds) [n ..< m]"
proof (induction "m - n" arbitrary: n)
  case 0
  then show ?case by (cases "drop n cs"; cases "drop n ds") simp_all
next
  case (Suc k)
  then have n: "n < length cs" "n < length ds" "n < m" unfolding assms by linarith+
  then have dr: "drop n cs = cs ! n # drop (Suc n) cs" "drop n ds = ds ! n # drop (Suc n) ds"
    by (simp_all add: Cons_nth_drop_Suc)
  have "k = m - Suc n" using Suc.hyps(2) by simp
  from Suc.hyps(1) [OF this] n show ?case
    by (auto simp: dr upt_conv_Cons spec_uop_def loads_before_Suc memory_ops_before_Suc split: if_splits)
qed

lemma list_all_take_nth:
  "m \<le> length xs \<Longrightarrow> list_all P (take m xs) \<longleftrightarrow> (\<forall>i < m. P (xs ! i))"
  by (auto simp: list_all_length)

lemma build_uops_reference:
  "build_uops cs ds =
     (if list_all commit_regs_ok (take (length ds) cs)
      then Some (map (spec_uop cs ds) [0 ..< min (length cs) (length ds)]) else None)"
proof -
  let ?m = "min (length cs) (length ds)"
  have tk: "take (length ds) cs = take ?m cs" by (simp add: min_def)
  have "build_rows 0 cs ds init_build_state =
      (if list_all commit_regs_ok (take (length ds) cs)
       then Some (map (spec_row cs ds) [0 ..< ?m]) else None)"
    unfolding tk using build_rows_spec [OF build_inv_init, of cs ds]
    by (simp add: list_all_take_nth)
  moreover have "assemble_uops cs ds (map (spec_row cs ds) [0 ..< ?m]) 0 0 =
      map (spec_uop cs ds) [0 ..< ?m]"
    using assemble_spec [OF refl, where cs = cs and ds = ds and n = 0] by (simp add: loads_before_def memory_ops_before_def)
  ultimately show ?thesis by (simp add: build_uops_def)
qed

lemma build_uops_nth:
  assumes "build_uops cs ds = Some uops" and "n < length uops"
  shows "uops ! n = spec_uop cs ds n" and "n < length cs" and "n < length ds"
  using assms by (auto simp: build_uops_reference split: if_splits)

lemma spec_uop_sel [simp]:
  "uo_commit (spec_uop cs ds n) = cs ! n" "uo_decoded (spec_uop cs ds n) = ds ! n"
  "uo_deps (spec_uop cs ds n) = (spec_dep cs ds n 0, spec_dep cs ds n 1)"
  "uo_is_load (spec_uop cs ds n) = commit_is_load (cs ! n)"
  "uo_is_store (spec_uop cs ds n) = commit_is_store (cs ! n)"
  "uo_load_store_id (spec_uop cs ds n) =
     then_some (commit_is_load (cs ! n) \<or> commit_is_store (cs ! n)) (memory_ops_before cs n)"
  "uo_redirect_target (spec_uop cs ds n) = architectural_redirect_target (cs ! n) (ds ! n)"
  "uo_src_qtags (spec_uop cs ds n) = (None, None)" "uo_dst_qtag (spec_uop cs ds n) = None"
  by (simp_all add: spec_uop_def make_uop_def spec_row_def Let_def)

lemma spec_dep_producer:
  assumes "spec_dep cs ds n idx = Some p"
  shows "p < n \<and> cr_wb_valid (cs ! p) \<noteq> 0"
proof (cases "spec_src_tag cs ds n idx")
  case None
  with assms have "\<exists>reg. writer_before cs reg n = Some p"
    by (auto simp: spec_dep_def Let_def split: if_splits)
  then show ?thesis by (auto simp: writer_before_def find_Some_iff rev_nth)
next
  case (Some tag)
  let ?ws = "queue_writers cs ds (lt_kind tag) n"
  from assms Some have "p = ?ws ! lt_tag tag" by (simp add: spec_dep_def)
  with spec_src_tag_bound [OF Some] have "p \<in> set ?ws" by simp
  then show ?thesis by (auto simp: queue_writers_def queue_dst_kind_def split: if_splits)
qed

text \<open>C1: uop construction. The one-pass builder with its incremental tables computes exactly the
  reference reading of the commit stream, and panics exactly when some commit it visits uses a
  register number of 32 or more.\<close>

theorem build_uops_correct:
  "build_uops cs ds =
     (if list_all commit_regs_ok (take (length ds) cs)
      then Some (map (spec_uop cs ds) [0 ..< min (length cs) (length ds)]) else None)"
  by (rule build_uops_reference)

text \<open>Every dependency of a uop points to a strictly older uop that writes a register or a
  queue, so the dependency graph is acyclic and waiting on it is well founded.\<close>

theorem build_uops_deps_backward:
  assumes "build_uops cs ds = Some uops" and "seq < length uops"
    and "at2 (uo_deps (uops ! seq)) idx = Some p"
  shows "p < seq \<and> cr_wb_valid (uo_commit (uops ! p)) \<noteq> 0"
proof -
  from assms(3) have "\<exists>i. spec_dep cs ds seq i = Some p"
    using build_uops_nth(1) [OF assms(1,2)] by (auto simp: at2_def split: if_splits)
  then have "p < seq \<and> cr_wb_valid (cs ! p) \<noteq> 0" using spec_dep_producer by blast
  with assms(2) show ?thesis using build_uops_nth(1) [OF assms(1), of p] by simp
qed

lemma map_filter_memory_ids:
  "m \<le> length cs \<Longrightarrow>
   List.map_filter (\<lambda>n. then_some (commit_is_load (cs ! n) \<or> commit_is_store (cs ! n)) (memory_ops_before cs n))
     [0 ..< m] = [0 ..< memory_ops_before cs m]"
proof (induction m)
  case 0
  then show ?case by (simp add: memory_ops_before_def)
next
  case (Suc m)
  then show ?case
    by (simp add: List.map_filter_def memory_ops_before_Suc then_some_def)
qed

text \<open>The memory operations are numbered without gaps in program order: reading the
  load-store ids off the uops gives 0, 1, 2, ... up to the number of memory operations.\<close>

theorem build_uops_load_store_ids:
  assumes "build_uops cs ds = Some uops"
  shows "List.map_filter uo_load_store_id uops =
         [0 ..< length (filter (\<lambda>u. uo_is_load u \<or> uo_is_store u) uops)]"
proof -
  let ?m = "min (length cs) (length ds)"
  have u: "uops = map (spec_uop cs ds) [0 ..< ?m]"
    using assms by (simp add: build_uops_reference split: if_splits)
  have "take ?m cs = map (\<lambda>n. cs ! n) [0 ..< ?m]"
    by (rule nth_equalityI) simp_all
  then have "memory_ops_before cs ?m =
      length (filter (\<lambda>u. uo_is_load u \<or> uo_is_store u) uops)"
    unfolding memory_ops_before_def u by (simp add: filter_map o_def)
  moreover have "List.map_filter uo_load_store_id uops = [0 ..< memory_ops_before cs ?m]"
    using map_filter_memory_ids [of ?m cs] by (simp add: u List.map_filter_def o_def filter_map)
  ultimately show ?thesis by simp
qed

lemma packet_end_from_bounds:
  assumes "packet_end < length uops" and "head \<le> packet_end" and "packet_end < head + FETCH_WIDTH"
  shows "packet_end_from head packet_end uops < length uops \<and>
         packet_end_from head packet_end uops < head + FETCH_WIDTH \<and>
         (\<forall>i. packet_end \<le> i \<and> i < packet_end_from head packet_end uops \<longrightarrow>
              uo_redirect_target (uops ! i) = None)"
  using assms
proof (induction head packet_end uops rule: packet_end_from.induct)
  case (1 head packet_end uops)
  show ?case
  proof (cases "packet_end + 1 < length uops \<and> packet_end - head + 1 < FETCH_WIDTH \<and>
                uo_redirect_target (uops ! packet_end) = None")
    case True
    then have step: "packet_end_from head packet_end uops = packet_end_from head (packet_end + 1) uops"
      by (subst packet_end_from.simps) simp
    have "packet_end_from head (packet_end + 1) uops < length uops \<and>
         packet_end_from head (packet_end + 1) uops < head + FETCH_WIDTH \<and>
         (\<forall>i. packet_end + 1 \<le> i \<and> i < packet_end_from head (packet_end + 1) uops \<longrightarrow>
              uo_redirect_target (uops ! i) = None)"
      using True "1.prems" by (intro "1.IH") auto
    then show ?thesis unfolding step
      using True by (metis Suc_eq_plus1 le_neq_implies_less Suc_leI)
  next
    case False
    then have "packet_end_from head packet_end uops = packet_end"
      by (subst packet_end_from.simps) auto
    with "1.prems" show ?thesis by auto
  qed
qed

lemma packet_head_from_total:
  assumes "head \<le> seq" and "seq < length uops"
  shows "\<exists>h. packet_head_from head seq uops = Some h \<and> head \<le> h \<and> h \<le> seq \<and> seq < h + FETCH_WIDTH \<and>
         (\<forall>i. h \<le> i \<and> i < seq \<longrightarrow> uo_redirect_target (uops ! i) = None)"
  using assms
proof (induction head seq uops rule: packet_head_from.induct)
  case (1 head seq uops)
  let ?e = "packet_end_from head head uops"
  have b: "?e < length uops" "?e < head + FETCH_WIDTH"
       "\<forall>i. head \<le> i \<and> i < ?e \<longrightarrow> uo_redirect_target (uops ! i) = None"
    using packet_end_from_bounds [of head uops head] "1.prems" by auto
  have ge: "head \<le> ?e" by (rule packet_end_from_ge)
  show ?case
  proof (cases "seq \<le> ?e")
    case True
    with "1.prems" b show ?thesis by (subst packet_head_from.simps) auto
  next
    case False
    with "1.prems" ge have
      "\<exists>h. packet_head_from (?e + 1) seq uops = Some h \<and> ?e + 1 \<le> h \<and> h \<le> seq \<and> seq < h + FETCH_WIDTH \<and>
         (\<forall>i. h \<le> i \<and> i < seq \<longrightarrow> uo_redirect_target (uops ! i) = None)"
      by (intro "1.IH") auto
    moreover have "packet_head_from head seq uops = packet_head_from (?e + 1) seq uops"
      using False "1.prems" by (subst packet_head_from.simps) simp
    ultimately show ?thesis using ge by auto
  qed
qed

text \<open>Every uop of the trace belongs to a fetch packet; the uop's slot in it is below the
  fetch width and no older uop of the same packet redirects.\<close>

theorem fetch_packet_partition:
  assumes "seq < length uops"
  shows "\<exists>head slot. fetch_packet_head_seq seq uops = Some head \<and> packet_slot_for_seq seq uops = Some slot \<and>
           seq = head + slot \<and> slot < FETCH_WIDTH \<and>
           (\<forall>i \<in> {head ..< seq}. uo_redirect_target (uops ! i) = None)"
  using packet_head_from_total [of 0 seq uops] assms
  by (auto simp: fetch_packet_head_seq_def packet_slot_for_seq_def sat_sub_def)

lemma and_0x3f_less: "(w::u8) AND 0x3f < 64"
proof -
  have "w AND 0x3f = take_bit 6 w" by (simp add: take_bit_eq_mask mask_eq_exp_minus_1)
  then show ?thesis by (simp add: word_less_nat_alt take_bit_eq_mod unat_mod)
qed

text \<open>Reorder-buffer checkpoint ids stay below 64, the size of the checkpoint tables, whatever
  the program counters are.\<close>

theorem rob_checkpoint_id_bound: "rob_checkpoint_id_for_seq seq uops < 64"
  by (simp add: rob_checkpoint_id_for_seq_def and_0x3f_less)

lemma epoch_step_fst:
  "fst (epoch_step d st) = fst st + (if is_boundary_redirect_owner d then 1 else 0)"
  by (cases st) (auto simp: epoch_step_def Let_def is_boundary_redirect_owner_def)

text \<open>The epoch a uop belongs to is the number of block boundaries older than it, modulo
  \<open>2 ^ 16\<close>: the two-flag head/mid bookkeeping never counts a boundary twice or misses one.\<close>

theorem block_epoch_counts_boundaries:
  "block_epoch_for_seq seq uops =
     word_of_nat (length (filter (\<lambda>u. is_boundary_redirect_owner (uo_decoded u)) (take seq uops)))"
proof -
  have "fst (fold (\<lambda>uop. epoch_step (uo_decoded uop)) us st) = fst st +
      word_of_nat (length (filter (\<lambda>u. is_boundary_redirect_owner (uo_decoded u)) us))" for us :: "CycleUop list" and st
    by (induction us arbitrary: st) (simp_all add: epoch_step_fst)
  then show ?thesis by (simp add: block_epoch_for_seq_def)
qed

text \<open>A redirect restarts at the first younger uop with the target's program counter at
  which a block may legally start, and nowhere else.\<close>

theorem legal_redirect_restart_seq_iff:
  "legal_redirect_restart_seq src target uops = Some r \<longleftrightarrow>
     src < r \<and> r < length uops \<and> cr_pc (uo_commit (uops ! r)) = target \<and>
     is_legal_redirect_restart (uo_decoded (uops ! r)) \<and>
     \<not> (\<exists>q. src < q \<and> q < r \<and> cr_pc (uo_commit (uops ! q)) = target \<and>
            is_legal_redirect_restart (uo_decoded (uops ! q)))" (is "?l = ?r")
proof
  assume ?l
  then obtain i where i: "i < length uops - Suc src" "r = Suc src + i"
    "cr_pc (uo_commit (uops ! r)) = target" "is_legal_redirect_restart (uo_decoded (uops ! r))"
    "\<forall>j<i. \<not> (cr_pc (uo_commit (uops ! (Suc src + j))) = target \<and>
              is_legal_redirect_restart (uo_decoded (uops ! (Suc src + j))))"
    by (auto simp: legal_redirect_restart_seq_def find_Some_iff)
  have "\<not> (cr_pc (uo_commit (uops ! q)) = target \<and> is_legal_redirect_restart (uo_decoded (uops ! q)))"
    if "src < q" "q < r" for q
    using i(2) i(5) [rule_format, of "q - Suc src"] that by simp
  with i show ?r by auto
next
  assume ?r
  then show ?l
    by (auto simp: legal_redirect_restart_seq_def find_Some_iff intro!: exI [of _ "r - Suc src"])
qed

lemmas sample_defs = sample_instr_def sample_commit_def unsupported_def default_block_meta_def
  queue_pair_commits_def queue_pair_decoded_def

lemma queue_pair_builds:
  "build_uops queue_pair_commits queue_pair_decoded =
     Some [spec_uop queue_pair_commits queue_pair_decoded 0, spec_uop queue_pair_commits queue_pair_decoded 1]"
proof -
  have "[0 ..< 2] = [0, 1::nat]" by (simp add: upt_rec)
  moreover have "list_all commit_regs_ok (take (length queue_pair_decoded) queue_pair_commits)"
    "min (length queue_pair_commits) (length queue_pair_decoded) = 2"
    by (simp_all add: sample_defs commit_regs_ok_def)
  ultimately show ?thesis by (simp add: build_uops_reference)
qed

lemma queue_pair_dep: "spec_dep queue_pair_commits queue_pair_decoded 1 0 = Some 0"
  by (simp add: spec_dep_def spec_src_tag_def queue_src_kind_def queue_src_rel_def queue_writers_def
     queue_dst_kind_def sample_defs REG_T1_def REG_U1_def str_contains_def to_ascii_lowercase_def
     ascii_lower_def parse_queue_relative_def is_ascii_digit_def parse_usize_def usize_max_def Let_def)

lemma build_uops_deps_backward_witness:
  "\<exists>uops. build_uops queue_pair_commits queue_pair_decoded = Some uops \<and>
     at2 (uo_deps (uops ! 1)) 0 = Some 0 \<and> 0 < (1::nat) \<and> cr_wb_valid (uo_commit (uops ! 0)) \<noteq> 0"
  using build_uops_deps_backward [OF queue_pair_builds, of 1 0 0] queue_pair_dep
  by (simp add: queue_pair_builds)

lemma build_uops_load_store_ids_witness:
  "\<exists>uops. build_uops queue_pair_commits queue_pair_decoded = Some uops \<and>
     List.map_filter uo_load_store_id uops =
         [0 ..< length (filter (\<lambda>u. uo_is_load u \<or> uo_is_store u) uops)] \<and>
     length (filter (\<lambda>u. uo_is_load u \<or> uo_is_store u) uops) = 1"
  by (intro exI conjI, rule queue_pair_builds, rule build_uops_load_store_ids [OF queue_pair_builds])
     (simp add: sample_defs commit_is_load_def commit_is_store_def)

lemma fetch_packet_partition_witness:
  "\<exists>head slot. fetch_packet_head_seq 1 (the (build_uops queue_pair_commits queue_pair_decoded)) = Some head \<and>
     1 = head + slot \<and> slot < FETCH_WIDTH"
  using fetch_packet_partition [of 1 "the (build_uops queue_pair_commits queue_pair_decoded)"]
  by (auto simp: queue_pair_builds)

end
