(* ===== verification/Iq_Queues.thy ===== *)
theory Iq_Queues
  imports Uop_Builder
begin

text \<open>
  The issue queues (\<^verbatim>\<open>crates/camodel/src/issue/queues/mod.rs\<close>, with the wake-up timing
  helpers of \<^verbatim>\<open>issue/select/mod.rs\<close> they call): queue routing, queue-tag allocation,
  ready tables and their checkpoints, issue-queue entries and their source state, and the
  wake-up network (the qtag wait crossbar and the owner table).
\<close>

section \<open>Producer timing (issue/select)\<close>

definition dep_pick_ready_cycle :: "usize \<Rightarrow> CycleUop list \<Rightarrow> cyc" where
  "dep_pick_ready_cycle producer uops = unwrap_or (uo_pick_wakeup_visible (uops ! producer)) u64_max"

definition dep_data_ready_cycle :: "usize \<Rightarrow> CycleUop list \<Rightarrow> cyc" where
  "dep_data_ready_cycle producer uops = unwrap_or (uo_data_ready_visible (uops ! producer)) u64_max"

definition source_valid :: "CommitRecord \<Rightarrow> usize \<Rightarrow> bool" where
  "source_valid commit idx =
     (if idx = 0 then cr_src0_valid commit \<noteq> 0
      else if idx = 1 then cr_src1_valid commit \<noteq> 0
      else False)"

definition source_uses_qtag_wakeup :: "usize \<Rightarrow> usize \<Rightarrow> CycleUop list \<Rightarrow> bool" where
  "source_uses_qtag_wakeup seq idx uops =
     (case (at2 (uo_src_queue_kinds (uops ! seq)) idx, at2 (uo_deps (uops ! seq)) idx) of
        (Some kind, Some producer) \<Rightarrow>
          at2 (uo_src_qtags (uops ! seq)) idx \<noteq> None \<and>
          uo_dst_queue_kind (uops ! producer) = Some kind \<and>
          uo_dst_logical_tag (uops ! producer) = at2 (uo_src_logical_tags (uops ! seq)) idx
      | _ \<Rightarrow> False)"

section \<open>Routing and tag allocation\<close>

definition issue_queue_candidates :: "CycleUop \<Rightarrow> PhysIq list" where
  "issue_queue_candidates uop =
     (let g = di_uop_group (uo_decoded uop) in
      if g = ''ALU'' then [AluIq0, SharedIq1]
      else if g = ''BRU'' then [BruIq]
      else if g \<in> {''LDA/BASE_IMM'', ''LDA'', ''AGU''} then [AguIq0, AguIq1]
      else if g \<in> {''STA/BASE_IMM'', ''STA'', ''STD''} then [StdIq0, StdIq1]
      else if g = ''FSU'' then [SharedIq1]
      else if g = ''SYS'' then [SharedIq1]
      else if g \<in> {''CMD'', ''BBD''} then [CmdIq]
      else [SharedIq1])"

definition iq_occupancy :: "IqEntry list \<Rightarrow> PhysIq \<Rightarrow> usize" where
  "iq_occupancy iq phys_iq = length (filter (\<lambda>entry. ie_phys_iq entry = phys_iq) iq)"

definition route_phys_iq ::
  "usize \<Rightarrow> IqEntry list \<Rightarrow> CycleUop list \<Rightarrow> usize list \<Rightarrow> PhysIq option" where
  "route_phys_iq seq iq uops enqueue_ports_used =
     find (\<lambda>phys_iq. enqueue_ports_used ! phys_iq_index phys_iq < IQ_ENQUEUE_PORTS \<and>
                     iq_occupancy iq phys_iq < capacity phys_iq)
       (issue_queue_candidates (uops ! seq))"

definition qtag_used :: "(usize, QTag) btree_map \<Rightarrow> PhysIq \<Rightarrow> usize \<Rightarrow> bool" where
  "qtag_used iq_tags phys_iq entry_id =
     list_ex (\<lambda>(_, tag). qt_phys_iq tag = phys_iq \<and> qt_entry_id tag = entry_id) iq_tags"

definition allocate_qtag :: "(usize, QTag) btree_map \<Rightarrow> PhysIq \<Rightarrow> QTag option" where
  "allocate_qtag iq_tags phys_iq =
     map_option (\<lambda>entry_id. \<lparr>qt_phys_iq = phys_iq, qt_entry_id = entry_id\<rparr>)
       (find (\<lambda>entry_id. \<not> qtag_used iq_tags phys_iq entry_id) [0 ..< capacity phys_iq])"

section \<open>Ready tables and checkpoints\<close>

definition insert_ready_table_tag :: "StageQueues \<Rightarrow> LogicalQueueTag \<Rightarrow> StageQueues" where
  "insert_ready_table_tag p tag =
     (case lt_kind tag of
        WakeT \<Rightarrow> p\<lparr>sq_ready_table_t := insert (lt_tag tag) (sq_ready_table_t p)\<rparr>
      | WakeU \<Rightarrow> p\<lparr>sq_ready_table_u := insert (lt_tag tag) (sq_ready_table_u p)\<rparr>)"

definition checkpoint_of :: "StageQueues \<Rightarrow> ReadyTableCheckpoint" where
  "checkpoint_of p =
     \<lparr>ck_ready_table_t = sq_ready_table_t p,
      ck_ready_table_u = sq_ready_table_u p,
      ck_recovery_epoch = sq_active_recovery_epoch p,
      ck_block_head = sq_active_block_head p,
      ck_branch_context = sq_active_branch_context p,
      ck_dynamic_target_pc = sq_active_dynamic_target_pc p,
      ck_dynamic_target_owner_seq = sq_active_dynamic_target_owner_seq p,
      ck_dynamic_target_producer_kind = sq_active_dynamic_target_producer_kind p,
      ck_dynamic_target_setup_epoch = sq_active_dynamic_target_setup_epoch p,
      ck_dynamic_target_owner_kind = sq_active_dynamic_target_owner_kind p,
      ck_dynamic_target_source_owner_seq = sq_active_dynamic_target_source_owner_seq p,
      ck_dynamic_target_source_epoch = sq_active_dynamic_target_source_epoch p,
      ck_dynamic_target_source_kind = sq_active_dynamic_target_source_kind p,
      ck_dynamic_target_call_materialization_kind =
        sq_active_dynamic_target_call_materialization_kind p,
      ck_call_header_seq = sq_active_call_header_seq p,
      ck_call_return_target_pc = sq_active_call_return_target_pc p,
      ck_call_return_target_owner_seq = sq_active_call_return_target_owner_seq p,
      ck_call_return_target_epoch = sq_active_call_return_target_epoch p,
      ck_call_return_materialization_kind = sq_active_call_return_materialization_kind p\<rparr>"

definition snapshot_ready_tables_for_checkpoint :: "StageQueues \<Rightarrow> u8 \<Rightarrow> StageQueues" where
  "snapshot_ready_tables_for_checkpoint p checkpoint_id =
     p\<lparr>sq_ready_table_checkpoints :=
         bt_insert checkpoint_id (checkpoint_of p) (sq_ready_table_checkpoints p)\<rparr>"

definition apply_checkpoint :: "ReadyTableCheckpoint \<Rightarrow> StageQueues \<Rightarrow> StageQueues" where
  "apply_checkpoint snapshot p =
     p\<lparr>sq_ready_table_t := ck_ready_table_t snapshot,
       sq_ready_table_u := ck_ready_table_u snapshot,
       sq_active_recovery_epoch := ck_recovery_epoch snapshot,
       sq_active_block_head := ck_block_head snapshot,
       sq_active_branch_context := ck_branch_context snapshot,
       sq_active_dynamic_target_pc := ck_dynamic_target_pc snapshot,
       sq_active_dynamic_target_owner_seq := ck_dynamic_target_owner_seq snapshot,
       sq_active_dynamic_target_producer_kind := ck_dynamic_target_producer_kind snapshot,
       sq_active_dynamic_target_setup_epoch := ck_dynamic_target_setup_epoch snapshot,
       sq_active_dynamic_target_owner_kind := ck_dynamic_target_owner_kind snapshot,
       sq_active_dynamic_target_source_owner_seq := ck_dynamic_target_source_owner_seq snapshot,
       sq_active_dynamic_target_source_epoch := ck_dynamic_target_source_epoch snapshot,
       sq_active_dynamic_target_source_kind := ck_dynamic_target_source_kind snapshot,
       sq_active_dynamic_target_call_materialization_kind :=
         ck_dynamic_target_call_materialization_kind snapshot,
       sq_active_call_header_seq := ck_call_header_seq snapshot,
       sq_active_call_return_target_pc := ck_call_return_target_pc snapshot,
       sq_active_call_return_target_owner_seq := ck_call_return_target_owner_seq snapshot,
       sq_active_call_return_target_epoch := ck_call_return_target_epoch snapshot,
       sq_active_call_return_materialization_kind :=
         ck_call_return_materialization_kind snapshot\<rparr>"

definition restore_ready_tables_for_checkpoint :: "StageQueues \<Rightarrow> u8 \<Rightarrow> StageQueues \<times> bool" where
  "restore_ready_tables_for_checkpoint p checkpoint_id =
     (case bt_get (sq_ready_table_checkpoints p) checkpoint_id of
        None \<Rightarrow> (p, False)
      | Some snapshot \<Rightarrow> (apply_checkpoint snapshot p, True))"

definition logical_tag_ready :: "LogicalQueueTag \<Rightarrow> usize set \<Rightarrow> usize set \<Rightarrow> bool" where
  "logical_tag_ready tag ready_table_t ready_table_u =
     (case lt_kind tag of
        WakeT \<Rightarrow> lt_tag tag \<in> ready_table_t
      | WakeU \<Rightarrow> lt_tag tag \<in> ready_table_u)"

definition source_logical_ready ::
  "usize \<Rightarrow> usize \<Rightarrow> usize set \<Rightarrow> usize set \<Rightarrow> CycleUop list \<Rightarrow> bool" where
  "source_logical_ready seq idx ready_table_t ready_table_u uops =
     (case at2 (uo_src_logical_tags (uops ! seq)) idx of None \<Rightarrow> False
      | Some tag \<Rightarrow> logical_tag_ready tag ready_table_t ready_table_u)"

definition qtag_source_for ::
  "usize \<Rightarrow> usize \<Rightarrow> (usize, QTag) btree_map \<Rightarrow> usize set \<Rightarrow> usize set \<Rightarrow> CycleUop list \<Rightarrow> QTag option" where
  "qtag_source_for seq idx iq_tags ready_table_t ready_table_u uops =
     (case at2 (uo_src_queue_kinds (uops ! seq)) idx of None \<Rightarrow> None
      | Some kind \<Rightarrow>
     (case at2 (uo_src_logical_tags (uops ! seq)) idx of None \<Rightarrow> None
      | Some logical_tag \<Rightarrow>
        if logical_tag_ready logical_tag ready_table_t ready_table_u then None
        else
     (case at2 (uo_deps (uops ! seq)) idx of None \<Rightarrow> None
      | Some producer \<Rightarrow>
        if uo_dst_queue_kind (uops ! producer) \<noteq> Some kind then None
        else if uo_dst_logical_tag (uops ! producer) \<noteq> Some logical_tag then None
        else opt_or (uo_dst_qtag (uops ! producer)) (bt_get iq_tags producer))))"

definition annotate_qtag_sources ::
  "usize \<Rightarrow> (usize, QTag) btree_map \<Rightarrow> usize set \<Rightarrow> usize set \<Rightarrow> CycleUop list \<Rightarrow> CycleUop list" where
  "annotate_qtag_sources seq iq_tags ready_table_t ready_table_u uops =
     fold (\<lambda>idx us. us[seq := (us ! seq)\<lparr>uo_src_qtags :=
            upd2 (uo_src_qtags (us ! seq)) idx
              (qtag_source_for seq idx iq_tags ready_table_t ready_table_u us)\<rparr>])
       [0, 1] uops"

section \<open>Issue-queue entries\<close>

definition set_nonspec :: "usize \<Rightarrow> bool \<Rightarrow> IqEntry \<Rightarrow> IqEntry" where
  "set_nonspec idx b entry = entry\<lparr>ie_src_ready_nonspec := upd2 (ie_src_ready_nonspec entry) idx b\<rparr>"

definition set_spec :: "usize \<Rightarrow> bool \<Rightarrow> IqEntry \<Rightarrow> IqEntry" where
  "set_spec idx b entry = entry\<lparr>ie_src_ready_spec := upd2 (ie_src_ready_spec entry) idx b\<rparr>"

definition set_wait_qtag :: "usize \<Rightarrow> bool \<Rightarrow> IqEntry \<Rightarrow> IqEntry" where
  "set_wait_qtag idx b entry = entry\<lparr>ie_src_wait_qtag := upd2 (ie_src_wait_qtag entry) idx b\<rparr>"

lemmas set_source_defs = set_nonspec_def set_spec_def set_wait_qtag_def

definition reset_iq_entry_source_state :: "IqEntry \<Rightarrow> usize \<Rightarrow> IqEntry" where
  "reset_iq_entry_source_state entry idx =
     set_wait_qtag idx False (set_spec idx False (set_nonspec idx False entry))"

definition seed_iq_entry_source_state ::
  "cyc \<Rightarrow> IqEntry \<Rightarrow> usize \<Rightarrow> usize set \<Rightarrow> usize set \<Rightarrow> CycleUop list \<Rightarrow> IqEntry" where
  "seed_iq_entry_source_state cycle entry idx ready_table_t ready_table_u uops =
     (let logical_ready = source_logical_ready (ie_seq entry) idx ready_table_t ready_table_u uops;
          qtag_wait = source_uses_qtag_wakeup (ie_seq entry) idx uops
      in case at2 (uo_deps (uops ! ie_seq entry)) idx of
           None \<Rightarrow> set_nonspec idx True entry
         | Some producer \<Rightarrow>
             if logical_ready \<or> dep_data_ready_cycle producer uops \<le> cycle
             then set_nonspec idx True entry
             else if dep_pick_ready_cycle producer uops \<le> cycle
             then set_wait_qtag idx False (set_spec idx True entry)
             else set_wait_qtag idx qtag_wait entry)"

definition initialize_iq_entry_source_state ::
  "cyc \<Rightarrow> IqEntry \<Rightarrow> usize set \<Rightarrow> usize set \<Rightarrow> CycleUop list \<Rightarrow> IqEntry" where
  "initialize_iq_entry_source_state cycle entry ready_table_t ready_table_u uops =
     fold (\<lambda>idx e.
        let e1 = e\<lparr>ie_src_valid := upd2 (ie_src_valid e) idx
                     (source_valid (uo_commit (uops ! ie_seq e)) idx)\<rparr>
        in seed_iq_entry_source_state cycle (reset_iq_entry_source_state e1 idx) idx
             ready_table_t ready_table_u uops)
       [0, 1] entry"

definition make_iq_entry ::
  "cyc \<Rightarrow> usize \<Rightarrow> PhysIq \<Rightarrow> usize set \<Rightarrow> usize set \<Rightarrow> CycleUop list \<Rightarrow> IqEntry" where
  "make_iq_entry cycle seq phys_iq ready_table_t ready_table_u uops =
     initialize_iq_entry_source_state cycle
       \<lparr>ie_seq = seq, ie_phys_iq = phys_iq, ie_inflight = False, ie_src_valid = (False, False),
        ie_src_ready_nonspec = (False, False), ie_src_ready_spec = (False, False),
        ie_src_wait_qtag = (False, False)\<rparr>
       ready_table_t ready_table_u uops"

definition revoke_stale_iq_source_state ::
  "cyc \<Rightarrow> IqEntry \<Rightarrow> usize \<Rightarrow> usize set \<Rightarrow> usize set \<Rightarrow> CycleUop list \<Rightarrow> IqEntry" where
  "revoke_stale_iq_source_state cycle entry idx ready_table_t ready_table_u uops =
     (if \<not> at2 (ie_src_valid entry) idx then entry
      else case at2 (uo_deps (uops ! ie_seq entry)) idx of
        None \<Rightarrow> set_wait_qtag idx False (set_spec idx False (set_nonspec idx True entry))
      | Some producer \<Rightarrow>
          let logical_ready = source_logical_ready (ie_seq entry) idx ready_table_t ready_table_u uops;
              e1 = (if at2 (ie_src_ready_nonspec entry) idx \<and> \<not> logical_ready \<and>
                       cycle < dep_data_ready_cycle producer uops
                    then set_nonspec idx False entry else entry);
              e2 = (if at2 (ie_src_ready_spec e1) idx \<and> cycle < dep_pick_ready_cycle producer uops
                    then set_spec idx False e1 else e1)
          in if \<not> (at2 (ie_src_ready_nonspec e2) idx \<or> at2 (ie_src_ready_spec e2) idx)
             then set_wait_qtag idx (source_uses_qtag_wakeup (ie_seq e2) idx uops) e2 else e2)"

definition apply_ready_table_wakeup ::
  "IqEntry \<Rightarrow> usize \<Rightarrow> usize set \<Rightarrow> usize set \<Rightarrow> CycleUop list \<Rightarrow> IqEntry" where
  "apply_ready_table_wakeup entry idx ready_table_t ready_table_u uops =
     (if \<not> at2 (ie_src_valid entry) idx \<or> at2 (ie_src_ready_nonspec entry) idx then entry
      else if source_logical_ready (ie_seq entry) idx ready_table_t ready_table_u uops
      then set_wait_qtag idx False (set_spec idx False (set_nonspec idx True entry))
      else entry)"

definition update_iq_entry_source_state ::
  "cyc \<Rightarrow> IqEntry \<Rightarrow> usize set \<Rightarrow> usize set \<Rightarrow> CycleUop list \<Rightarrow> IqEntry" where
  "update_iq_entry_source_state cycle entry ready_table_t ready_table_u uops =
     fold (\<lambda>idx e.
        if \<not> at2 (ie_src_valid e) idx then e
        else apply_ready_table_wakeup
               (revoke_stale_iq_source_state cycle e idx ready_table_t ready_table_u uops)
               idx ready_table_t ready_table_u uops)
       [0, 1] entry"

section \<open>The wake-up network\<close>

definition producer_publishes_spec_wakeup :: "cyc \<Rightarrow> usize \<Rightarrow> CycleUop list \<Rightarrow> bool" where
  "producer_publishes_spec_wakeup cycle producer uops =
     (let uop = uops ! producer in
      if \<not> uo_is_load uop then False
      else if uo_e1_cycle uop = Some (sat_sub cycle 1) then True
      else dep_pick_ready_cycle producer uops = cycle)"

definition producer_publishes_nonspec_wakeup :: "cyc \<Rightarrow> usize \<Rightarrow> CycleUop list \<Rightarrow> bool" where
  "producer_publishes_nonspec_wakeup cycle producer uops =
     (let uop = uops ! producer in
      if uo_is_load uop \<and> uo_e4_cycle uop = Some (sat_sub cycle 1) then True
      else if \<not> uo_is_load uop \<and> uo_w1_cycle uop = Some (sat_sub cycle 1) then True
      else dep_data_ready_cycle producer uops = cycle)"

definition wake_event_of :: "usize \<Rightarrow> IqWakeKind \<Rightarrow> CycleUop list \<Rightarrow> IqWakeEvent" where
  "wake_event_of producer wake_kind uops =
     \<lparr>we_producer = producer, we_wake_kind = wake_kind,
      we_queue_kind = uo_dst_queue_kind (uops ! producer),
      we_logical_tag = uo_dst_logical_tag (uops ! producer),
      we_qtag = uo_dst_qtag (uops ! producer)\<rparr>"

definition collect_iq_wake_events :: "cyc \<Rightarrow> CycleUop list \<Rightarrow> IqWakeEvent list" where
  "collect_iq_wake_events cycle uops =
     List.map_filter (\<lambda>producer.
        if producer_publishes_nonspec_wakeup cycle producer uops
        then Some (wake_event_of producer Nonspec uops)
        else if producer_publishes_spec_wakeup cycle producer uops
        then Some (wake_event_of producer Spec uops)
        else None) [0 ..< length uops]"

definition iq_source_matches_wake_event ::
  "usize \<Rightarrow> usize \<Rightarrow> IqWakeEvent \<Rightarrow> CycleUop list \<Rightarrow> bool" where
  "iq_source_matches_wake_event seq idx event uops =
     (if \<not> source_valid (uo_commit (uops ! seq)) idx \<or>
         at2 (uo_deps (uops ! seq)) idx \<noteq> Some (we_producer event) then False
      else case at2 (uo_src_queue_kinds (uops ! seq)) idx of
        Some queue_kind \<Rightarrow>
          Some queue_kind = we_queue_kind event \<and>
          at2 (uo_src_logical_tags (uops ! seq)) idx = we_logical_tag event \<and>
          at2 (uo_src_qtags (uops ! seq)) idx \<noteq> None \<and>
          at2 (uo_src_qtags (uops ! seq)) idx = we_qtag event
      | None \<Rightarrow> True)"

definition publish_wake_into_entry_source ::
  "IqEntry \<Rightarrow> usize \<Rightarrow> IqWakeEvent \<Rightarrow> CycleUop list \<Rightarrow> IqEntry" where
  "publish_wake_into_entry_source entry idx event uops =
     (if \<not> iq_source_matches_wake_event (ie_seq entry) idx event uops then entry
      else case we_wake_kind event of
        Nonspec \<Rightarrow> set_wait_qtag idx False (set_spec idx False (set_nonspec idx True entry))
      | Spec \<Rightarrow> if \<not> at2 (ie_src_ready_nonspec entry) idx
                then set_wait_qtag idx False (set_spec idx True entry) else entry)"

definition publish_wake_into_entry :: "IqEntry \<Rightarrow> IqWakeEvent \<Rightarrow> CycleUop list \<Rightarrow> IqEntry" where
  "publish_wake_into_entry entry event uops =
     fold (\<lambda>idx e. publish_wake_into_entry_source e idx event uops) [0, 1] entry"

definition publish_nonqueue_wake_into_entry ::
  "IqEntry \<Rightarrow> IqWakeEvent \<Rightarrow> CycleUop list \<Rightarrow> IqEntry" where
  "publish_nonqueue_wake_into_entry entry event uops =
     fold (\<lambda>idx e. if at2 (uo_src_queue_kinds (uops ! ie_seq e)) idx = None
                   then publish_wake_into_entry_source e idx event uops else e) [0, 1] entry"

text \<open>The index of the entry \<open>iq_owner_entry_mut\<close> hands out.\<close>

definition iq_owner_entry_idx ::
  "usize \<Rightarrow> IqEntry list \<Rightarrow> usize option list list \<Rightarrow> (usize, QTag) btree_map \<Rightarrow> usize option" where
  "iq_owner_entry_idx seq iq iq_owner_table iq_tags =
     (case bt_get iq_tags seq of None \<Rightarrow> None
      | Some qtag \<Rightarrow>
          (case iq_owner_table ! phys_iq_index (qt_phys_iq qtag) ! qt_entry_id qtag of None \<Rightarrow> None
           | Some idx \<Rightarrow>
               if (case vec_get iq idx of Some entry \<Rightarrow> ie_seq entry = seq | None \<Rightarrow> False)
               then Some idx else None))"

definition publish_iq_wake_event ::
  "IqWakeEvent \<Rightarrow> IqEntry list \<Rightarrow> usize option list list \<Rightarrow> (usize, QTag) btree_map \<Rightarrow>
   (usize \<times> usize) list list list \<Rightarrow> CycleUop list \<Rightarrow> IqEntry list" where
  "publish_iq_wake_event event iq iq_owner_table iq_tags qtag_wait_table uops =
     (case (we_queue_kind event, we_logical_tag event, we_qtag event) of
        (Some _, Some _, Some qtag) \<Rightarrow>
          map (\<lambda>entry. publish_nonqueue_wake_into_entry entry event uops)
            (fold (\<lambda>(seq, src_idx) q.
               case iq_owner_entry_idx seq q iq_owner_table iq_tags of None \<Rightarrow> q
               | Some idx \<Rightarrow> q[idx := publish_wake_into_entry_source (q ! idx) src_idx event uops])
             (qtag_wait_table ! phys_iq_index (qt_phys_iq qtag) ! qt_entry_id qtag) iq)
      | _ \<Rightarrow> map (\<lambda>entry. publish_wake_into_entry entry event uops) iq)"

definition update_iq_entries_for_cycle ::
  "cyc \<Rightarrow> IqEntry list \<Rightarrow> usize set \<Rightarrow> usize set \<Rightarrow> usize option list list \<Rightarrow>
   (usize, QTag) btree_map \<Rightarrow> (usize \<times> usize) list list list \<Rightarrow> CycleUop list \<Rightarrow> IqEntry list" where
  "update_iq_entries_for_cycle cycle iq ready_table_t ready_table_u iq_owner_table iq_tags
     qtag_wait_crossbar uops =
     fold (\<lambda>event q. publish_iq_wake_event event q iq_owner_table iq_tags qtag_wait_crossbar uops)
       (collect_iq_wake_events cycle uops)
       (map (\<lambda>entry. update_iq_entry_source_state cycle entry ready_table_t ready_table_u uops) iq)"

section \<open>Owner table and wait crossbar\<close>

definition rebuild_iq_owner_table ::
  "usize option list list \<Rightarrow> IqEntry list \<Rightarrow> (usize, QTag) btree_map \<Rightarrow> usize option list list" where
  "rebuild_iq_owner_table iq_owner_table iq iq_tags =
     fold (\<lambda>(idx, entry) table.
        case bt_get iq_tags (ie_seq entry) of None \<Rightarrow> table
        | Some qtag \<Rightarrow>
            table[phys_iq_index (qt_phys_iq qtag) :=
              (table ! phys_iq_index (qt_phys_iq qtag))[qt_entry_id qtag := Some idx]])
       (enumerate 0 iq)
       (map (map (\<lambda>_. None)) iq_owner_table)"

definition register_iq_wait_crossbar_entry ::
  "(usize \<times> usize) list list list \<Rightarrow> usize \<Rightarrow> CycleUop \<Rightarrow> (usize \<times> usize) list list list" where
  "register_iq_wait_crossbar_entry crossbar seq uop =
     fold (\<lambda>src_idx table.
        case at2 (uo_src_qtags uop) src_idx of None \<Rightarrow> table
        | Some qtag \<Rightarrow>
            let q = phys_iq_index (qt_phys_iq qtag); waiters = table ! q ! qt_entry_id qtag
            in if (seq, src_idx) \<in> set waiters then table
               else table[q := (table ! q)[qt_entry_id qtag := waiters @ [(seq, src_idx)]]])
       [0, 1] crossbar"

definition unregister_iq_wait_crossbar_seq ::
  "(usize \<times> usize) list list list \<Rightarrow> usize \<Rightarrow> (usize \<times> usize) list list list" where
  "unregister_iq_wait_crossbar_seq crossbar seq =
     map (map (filter (\<lambda>(entry_seq, _). entry_seq \<noteq> seq))) crossbar"

definition prune_iq_wait_crossbar_on_redirect ::
  "(usize \<times> usize) list list list \<Rightarrow> usize \<Rightarrow> (usize \<times> usize) list list list" where
  "prune_iq_wait_crossbar_on_redirect crossbar flush_seq =
     map (map (filter (\<lambda>(entry_seq, _). entry_seq \<le> flush_seq))) crossbar"

section \<open>Entries and their tags\<close>

definition entry_key :: "IqEntry \<Rightarrow> usize \<times> PhysIq \<times> bool" where
  "entry_key e = (ie_seq e, ie_phys_iq e, ie_inflight e)"

text \<open>Queue tags identify the live entries: every entry has a tag of its own queue inside the
  capacity, no two entries share one, and no tag outlives its entry.\<close>

definition tags_inv :: "IqEntry list \<Rightarrow> (usize, QTag) btree_map \<Rightarrow> bool" where
  "tags_inv iq tags =
     (bt_wf tags \<and> set (map fst tags) = ie_seq ` set iq \<and> distinct (map snd tags) \<and>
      distinct (map ie_seq iq) \<and>
      (\<forall>e \<in> set iq. \<exists>t. bt_get tags (ie_seq e) = Some t \<and> qt_phys_iq t = ie_phys_iq e \<and>
                        qt_entry_id t < IQ_CAPACITY))"

section \<open>Wake-ups leave the identity of an entry alone\<close>

lemma entry_key_set [simp]:
  "entry_key (set_nonspec idx b e) = entry_key e" "entry_key (set_spec idx b e) = entry_key e"
  "entry_key (set_wait_qtag idx b e) = entry_key e" "entry_key (e\<lparr>ie_src_valid := v\<rparr>) = entry_key e"
  by (simp_all add: entry_key_def set_source_defs)

lemma entry_key_revoke [simp]:
  "entry_key (revoke_stale_iq_source_state cycle e idx rt ru uops) = entry_key e"
proof (cases "at2 (uo_deps (uops ! ie_seq e)) idx")
  case None
  then show ?thesis by (simp add: revoke_stale_iq_source_state_def)
next
  case (Some producer)
  have "entry_key (if c then set_nonspec idx False e else e) = entry_key e"
    "entry_key (if c then set_spec idx False f else f) = entry_key f"
    "entry_key (if c then set_wait_qtag idx b f else f) = entry_key f" for c b f by simp_all
  then show ?thesis unfolding revoke_stale_iq_source_state_def Some Let_def by simp
qed

lemma entry_key_ops [simp]:
  "entry_key (apply_ready_table_wakeup e idx rt ru uops) = entry_key e"
  "entry_key (publish_wake_into_entry_source e idx ev uops) = entry_key e"
  "entry_key (seed_iq_entry_source_state cycle e idx rt ru uops) = entry_key e"
  "entry_key (reset_iq_entry_source_state e idx) = entry_key e"
  by (simp_all add: apply_ready_table_wakeup_def Let_def publish_wake_into_entry_source_def
      seed_iq_entry_source_state_def reset_iq_entry_source_state_def
      split: option.split IqWakeKind.split)

lemma entry_key_folds [simp]:
  "entry_key (update_iq_entry_source_state cycle e rt ru uops) = entry_key e"
  "entry_key (publish_wake_into_entry e ev uops) = entry_key e"
  "entry_key (publish_nonqueue_wake_into_entry e ev uops) = entry_key e"
  "entry_key (initialize_iq_entry_source_state cycle e rt ru uops) = entry_key e"
  by (simp_all add: update_iq_entry_source_state_def publish_wake_into_entry_def
      publish_nonqueue_wake_into_entry_def initialize_iq_entry_source_state_def Let_def)

lemma make_iq_entry_key [simp]: "entry_key (make_iq_entry cycle seq q rt ru uops) = (seq, q, False)"
  by (simp add: make_iq_entry_def) (simp add: entry_key_def)

lemma publish_iq_wake_event_keys:
  "map entry_key (publish_iq_wake_event ev iq ot tags xb uops) = map entry_key iq"
proof -
  have upd: "map entry_key (q[i := publish_wake_into_entry_source (q ! i) s ev uops]) = map entry_key q" for q i s
    by (cases "i < length q") (simp_all add: map_update list_update_same_conv list_update_beyond)
  have loop: "map entry_key (fold (\<lambda>(seq, src_idx) q.
               case iq_owner_entry_idx seq q ot tags of None \<Rightarrow> q
               | Some idx \<Rightarrow> q[idx := publish_wake_into_entry_source (q ! idx) src_idx ev uops]) ws q)
             = map entry_key q" for ws q
    by (induction ws arbitrary: q) (auto simp: upd split: option.split)
  show ?thesis
    by (auto simp: publish_iq_wake_event_def loop o_def split: option.split)
qed

lemma update_iq_entries_keys:
  "map entry_key (update_iq_entries_for_cycle cycle iq rt ru ot tags xb uops) = map entry_key iq"
proof -
  have "map entry_key (fold (\<lambda>ev q. publish_iq_wake_event ev q ot tags xb uops) evs q) = map entry_key q" for evs q
    by (induction evs arbitrary: q) (simp_all add: publish_iq_wake_event_keys)
  then show ?thesis by (simp add: update_iq_entries_for_cycle_def o_def)
qed

section \<open>The tag table\<close>

lemma tags_inv_pairs:
  assumes "map (\<lambda>e. (ie_seq e, ie_phys_iq e)) iq' = map (\<lambda>e. (ie_seq e, ie_phys_iq e)) iq"
  shows "tags_inv iq' tags = tags_inv iq tags"
proof -
  have pairs: "tags_inv iq tags =
     (bt_wf tags \<and> set (map fst tags) = fst ` set (map (\<lambda>e. (ie_seq e, ie_phys_iq e)) iq) \<and>
      distinct (map snd tags) \<and> distinct (map fst (map (\<lambda>e. (ie_seq e, ie_phys_iq e)) iq)) \<and>
      (\<forall>k \<in> set (map (\<lambda>e. (ie_seq e, ie_phys_iq e)) iq). \<exists>t. bt_get tags (fst k) = Some t \<and>
          qt_phys_iq t = snd k \<and> qt_entry_id t < IQ_CAPACITY))" for iq
    unfolding tags_inv_def by (simp add: o_def image_image)
  show ?thesis unfolding pairs assms ..
qed

lemma tags_inv_keys:
  assumes "map entry_key iq' = map entry_key iq" shows "tags_inv iq' tags = tags_inv iq tags"
proof (rule tags_inv_pairs)
  show "map (\<lambda>e. (ie_seq e, ie_phys_iq e)) iq' = map (\<lambda>e. (ie_seq e, ie_phys_iq e)) iq"
    using arg_cong [OF assms, of "map (\<lambda>k. (fst k, fst (snd k)))"] by (simp add: o_def entry_key_def)
qed

lemma qtag_used_iff: "qtag_used tags q e \<longleftrightarrow> \<lparr>qt_phys_iq = q, qt_entry_id = e\<rparr> \<in> set (map snd tags)"
proof -
  have "(qt_phys_iq t = q \<and> qt_entry_id t = e) = (t = \<lparr>qt_phys_iq = q, qt_entry_id = e\<rparr>)" for t
    by (cases t) simp
  then show ?thesis by (force simp: qtag_used_def list_ex_iff)
qed

lemma find_upt_iff:
  "find P [0 ..< n] = Some i \<longleftrightarrow> i < n \<and> P i \<and> (\<forall>j < i. \<not> P j)"
  by (auto simp: find_Some_iff)

lemma allocate_qtag_Some:
  "allocate_qtag tags q = Some t \<longleftrightarrow>
     qt_phys_iq t = q \<and> qt_entry_id t < IQ_CAPACITY \<and> \<not> qtag_used tags q (qt_entry_id t) \<and>
     (\<forall>e < qt_entry_id t. qtag_used tags q e)"
  by (cases t) (auto simp: allocate_qtag_def find_upt_iff capacity_def)

lemma allocate_qtag_None:
  "allocate_qtag tags q = None \<longleftrightarrow> (\<forall>e < IQ_CAPACITY. qtag_used tags q e)"
  by (auto simp: allocate_qtag_def find_None_iff capacity_def)

lemma allocate_qtag_fresh: "allocate_qtag tags q = Some t \<Longrightarrow> t \<notin> set (map snd tags)"
proof -
  assume a: "allocate_qtag tags q = Some t"
  have "\<lparr>qt_phys_iq = qt_phys_iq t, qt_entry_id = qt_entry_id t\<rparr> = t" by (cases t) simp
  with a show ?thesis by (metis allocate_qtag_Some qtag_used_iff)
qed

lemma tags_inv_Nil: "tags_inv [] []"
  by (simp add: tags_inv_def bt.wf_emp)

lemma bt_insert_fresh_perm:
  "k \<notin> set (map fst m) \<Longrightarrow> mset (bt_insert k v m) = add_mset (k, v) (mset m)"
  by (induction k v m rule: bt_insert.induct) auto

lemma tags_inv_enqueue:
  assumes inv: "tags_inv iq tags" and alloc: "allocate_qtag tags q = Some t"
    and fresh: "seq \<notin> ie_seq ` set iq" and e: "ie_seq e = seq" "ie_phys_iq e = q"
  shows "tags_inv (iq @ [e]) (bt_insert seq t tags)"
proof -
  have k: "seq \<notin> set (map fst tags)" using inv fresh by (simp add: tags_inv_def)
  have "mset (map snd (bt_insert seq t tags)) = mset (t # map snd tags)"
    using arg_cong [OF bt_insert_fresh_perm [OF k, of t], of "image_mset snd"] by simp
  from mset_eq_imp_distinct_iff [OF this] have "distinct (map snd (bt_insert seq t tags))"
    using inv allocate_qtag_fresh [OF alloc] by (simp add: tags_inv_def)
  moreover have "set (map fst (bt_insert seq t tags)) = ie_seq ` set (iq @ [e])"
    using inv e by (simp only: set_bt_insert_keys) (simp add: tags_inv_def)
  moreover have "\<exists>u. bt_get (bt_insert seq t tags) (ie_seq f) = Some u \<and> qt_phys_iq u = ie_phys_iq f \<and>
      qt_entry_id u < IQ_CAPACITY" if "f \<in> set (iq @ [e])" for f
  proof (cases "f = e")
    case True
    with e alloc [unfolded allocate_qtag_Some] show ?thesis by simp
  next
    case False
    with that have f: "f \<in> set iq" by simp
    with fresh have "ie_seq f \<noteq> seq" by auto
    with f inv show ?thesis by (simp add: tags_inv_def)
  qed
  ultimately show ?thesis
    using inv fresh e by (auto simp: tags_inv_def bt.wf_ins)
qed

lemma tags_inv_filter:
  assumes "tags_inv iq tags"
  shows "tags_inv (filter (\<lambda>e. P (ie_seq e)) iq) (bt_retain P tags)"
proof -
  have "distinct (map snd (filter (\<lambda>x. P (fst x)) tags))"
    using assms by (auto simp: tags_inv_def distinct_map inj_on_def)
  moreover have "distinct (map ie_seq (filter (\<lambda>e. P (ie_seq e)) iq))"
    using assms by (auto simp: tags_inv_def distinct_map inj_on_def)
  moreover have "fst ` {x \<in> set tags. P (fst x)} = ie_seq ` {x \<in> set iq. P (ie_seq x)}"
  proof -
    have "fst ` set tags = ie_seq ` set iq" using assms by (simp add: tags_inv_def)
    then have "fst ` set tags \<inter> Collect P = ie_seq ` set iq \<inter> Collect P" by simp
    moreover have "fst ` {x \<in> set tags. P (fst x)} = fst ` set tags \<inter> Collect P" by auto
    moreover have "ie_seq ` {x \<in> set iq. P (ie_seq x)} = ie_seq ` set iq \<inter> Collect P" by auto
    ultimately show ?thesis by simp
  qed
  ultimately show ?thesis
    using assms bt.wf_keep [of tags P] by (auto simp: tags_inv_def bt_retain_def bt_get_def map_of_filter_key)
qed

lemma fold_bt_remove: "fold bt_remove ks m = bt_retain (\<lambda>k. k \<notin> set ks) m"
  by (induction ks arbitrary: m) (auto simp: bt_remove_def bt_retain_def intro: filter_cong)

lemma iq_queue_tags:
  assumes "tags_inv iq tags" and "e < IQ_CAPACITY" and "qtag_used tags q e"
  shows "\<exists>f \<in> set iq. ie_phys_iq f = q \<and> bt_get tags (ie_seq f) = Some \<lparr>qt_phys_iq = q, qt_entry_id = e\<rparr>"
proof -
  from assms(3) obtain seq where m: "(seq, \<lparr>qt_phys_iq = q, qt_entry_id = e\<rparr>) \<in> set tags"
    by (auto simp: qtag_used_iff)
  with assms(1) have g: "bt_get tags seq = Some \<lparr>qt_phys_iq = q, qt_entry_id = e\<rparr>"
    by (simp add: tags_inv_def bt_mem_get)
  from m assms(1) have "seq \<in> ie_seq ` set iq" by (force simp: tags_inv_def)
  then obtain f where "f \<in> set iq" "ie_seq f = seq" by auto
  with g assms(1) show ?thesis by (fastforce simp: tags_inv_def)
qed

text \<open>A queue with room always has a free tag.\<close>

lemma allocate_qtag_when_room:
  assumes "tags_inv iq tags" and "iq_occupancy iq q < capacity q"
  shows "allocate_qtag tags q \<noteq> None"
proof
  assume "allocate_qtag tags q = None"
  then have used: "qtag_used tags q e" if "e < IQ_CAPACITY" for e using that by (simp add: allocate_qtag_None)
  let ?Q = "{f \<in> set iq. ie_phys_iq f = q}"
  let ?id = "\<lambda>f. qt_entry_id (the (bt_get tags (ie_seq f)))"
  have "{0 ..< IQ_CAPACITY} \<subseteq> ?id ` ?Q"
  proof
    fix e assume "e \<in> {0 ..< IQ_CAPACITY}"
    then obtain f where "f \<in> ?Q" "bt_get tags (ie_seq f) = Some \<lparr>qt_phys_iq = q, qt_entry_id = e\<rparr>"
      using iq_queue_tags [OF assms(1) _ used] by auto
    then show "e \<in> ?id ` ?Q" by (intro image_eqI [of _ _ f]) simp_all
  qed
  then have "IQ_CAPACITY \<le> card ?Q"
    using surj_card_le [of ?Q "{0 ..< IQ_CAPACITY}" ?id] by simp
  also have "card ?Q = card (set (filter (\<lambda>f. ie_phys_iq f = q) iq))" by simp
  also have "\<dots> \<le> iq_occupancy iq q" unfolding iq_occupancy_def by (rule card_length)
  finally show False using assms(2) by (simp add: capacity_def)
qed

section \<open>Justified readiness\<close>

text \<open>Why a source operand may be marked ready, for good or speculatively, in a given cycle.\<close>

definition nonspec_reason where
  "nonspec_reason cycle seq idx rt ru uops =
     (case at2 (uo_deps (uops ! seq)) idx of None \<Rightarrow> True
      | Some producer \<Rightarrow> source_logical_ready seq idx rt ru uops \<or> dep_data_ready_cycle producer uops \<le> cycle \<or>
          producer_publishes_nonspec_wakeup cycle producer uops)"

definition spec_reason where
  "spec_reason cycle seq idx uops =
     (case at2 (uo_deps (uops ! seq)) idx of None \<Rightarrow> False
      | Some producer \<Rightarrow> dep_pick_ready_cycle producer uops \<le> cycle \<or> producer_publishes_spec_wakeup cycle producer uops)"

definition source_justified where
  "source_justified cycle rt ru uops e idx =
     ((at2 (ie_src_valid e) idx \<and> at2 (ie_src_ready_nonspec e) idx \<longrightarrow> nonspec_reason cycle (ie_seq e) idx rt ru uops) \<and>
      (at2 (ie_src_valid e) idx \<and> at2 (ie_src_ready_spec e) idx \<longrightarrow> spec_reason cycle (ie_seq e) idx uops))"

lemma set_source_sel [simp]:
  "ie_seq (set_nonspec i b e) = ie_seq e" "ie_seq (set_spec i b e) = ie_seq e" "ie_seq (set_wait_qtag i b e) = ie_seq e"
  "ie_src_valid (set_nonspec i b e) = ie_src_valid e" "ie_src_valid (set_spec i b e) = ie_src_valid e"
  "ie_src_valid (set_wait_qtag i b e) = ie_src_valid e"
  "ie_src_ready_nonspec (set_nonspec i b e) = upd2 (ie_src_ready_nonspec e) i b"
  "ie_src_ready_nonspec (set_spec i b e) = ie_src_ready_nonspec e"
  "ie_src_ready_nonspec (set_wait_qtag i b e) = ie_src_ready_nonspec e"
  "ie_src_ready_spec (set_spec i b e) = upd2 (ie_src_ready_spec e) i b"
  "ie_src_ready_spec (set_nonspec i b e) = ie_src_ready_spec e"
  "ie_src_ready_spec (set_wait_qtag i b e) = ie_src_ready_spec e"
  by (simp_all add: set_source_defs)

lemma revoke_sel [simp]:
  "ie_seq (revoke_stale_iq_source_state cycle e idx rt ru uops) = ie_seq e"
  "ie_src_valid (revoke_stale_iq_source_state cycle e idx rt ru uops) = ie_src_valid e"
  "ie_seq (apply_ready_table_wakeup e idx rt ru uops) = ie_seq e"
  "ie_src_valid (apply_ready_table_wakeup e idx rt ru uops) = ie_src_valid e"
  "ie_seq (publish_wake_into_entry_source e idx ev uops) = ie_seq e"
  "ie_src_valid (publish_wake_into_entry_source e idx ev uops) = ie_src_valid e"
  by (simp_all add: revoke_stale_iq_source_state_def apply_ready_table_wakeup_def publish_wake_into_entry_source_def Let_def
      split: option.split IqWakeKind.split)

lemma revoke_justified:
  "source_justified cycle rt ru uops (revoke_stale_iq_source_state cycle e idx rt ru uops) idx"
proof (cases "at2 (ie_src_valid e) idx")
  case True
  show ?thesis
  proof (cases "at2 (uo_deps (uops ! ie_seq e)) idx")
    case None
    with True show ?thesis
      by (simp add: revoke_stale_iq_source_state_def source_justified_def nonspec_reason_def spec_reason_def)
  next
    case (Some producer)
    with True show ?thesis
      unfolding revoke_stale_iq_source_state_def source_justified_def nonspec_reason_def spec_reason_def
      by (simp add: Let_def)
  qed
qed (simp add: source_justified_def)

lemma revoke_shape:
  assumes "at2 (ie_src_valid e) idx" and "at2 (uo_deps (uops ! ie_seq e)) idx = Some producer"
  obtains c1 c2 c3 b e1 e2 where "e1 = (if c1 then set_nonspec idx False e else e)"
    "e2 = (if c2 then set_spec idx False e1 else e1)"
    "revoke_stale_iq_source_state cycle e idx rt ru uops = (if c3 then set_wait_qtag idx b e2 else e2)"
  using assms unfolding revoke_stale_iq_source_state_def Let_def by (simp only: if_True if_False not_True_eq_False option.case)

lemma revoke_other:
  assumes "(idx = 0) \<noteq> (j = 0)"
  shows "source_justified cycle rt ru uops (revoke_stale_iq_source_state cycle e idx rt ru uops) j =
         source_justified cycle rt ru uops e j"
proof -
  let ?r = "revoke_stale_iq_source_state cycle e idx rt ru uops"
  have "at2 (ie_src_ready_nonspec ?r) j = at2 (ie_src_ready_nonspec e) j \<and> at2 (ie_src_ready_spec ?r) j = at2 (ie_src_ready_spec e) j"
  proof (cases "at2 (ie_src_valid e) idx")
    case valid: True
    show ?thesis
    proof (cases "at2 (uo_deps (uops ! ie_seq e)) idx")
      case None
      with assms show ?thesis by (auto simp: revoke_stale_iq_source_state_def)
    next
      case (Some producer)
      show ?thesis by (rule revoke_shape [OF valid Some, of cycle rt ru]) (use assms in auto)
    qed
  qed (simp add: revoke_stale_iq_source_state_def)
  then show ?thesis by (simp add: source_justified_def)
qed

lemma apply_table_justified:
  assumes "source_justified cycle rt ru uops e j" and "(idx = 0) = (j = 0) \<longrightarrow> idx = j"
  shows "source_justified cycle rt ru uops (apply_ready_table_wakeup e idx rt ru uops) j"
  using assms unfolding source_justified_def
  by (auto simp: apply_ready_table_wakeup_def nonspec_reason_def split: option.split)

lemma update_entry_justified:
  assumes "j = 0 \<or> j = 1"
  shows "source_justified cycle rt ru uops (update_iq_entry_source_state cycle e rt ru uops) j"
proof -
  let ?f = "\<lambda>idx e. if \<not> at2 (ie_src_valid e) idx then e
        else apply_ready_table_wakeup (revoke_stale_iq_source_state cycle e idx rt ru uops) idx rt ru uops"
  have same: "source_justified cycle rt ru uops (?f idx e) idx" for idx e
    by (cases "at2 (ie_src_valid e) idx")
       (simp_all add: apply_table_justified revoke_justified source_justified_def [of _ _ _ _ e])
  have keep: "source_justified cycle rt ru uops (?f 1 e) 0" if "source_justified cycle rt ru uops e 0" for e
    using that by (simp add: apply_table_justified revoke_other)
  have "update_iq_entry_source_state cycle e rt ru uops = ?f 1 (?f 0 e)" by (simp add: update_iq_entry_source_state_def)
  moreover have "source_justified cycle rt ru uops (?f 1 (?f 0 e)) 1" by (rule same)
  moreover have "source_justified cycle rt ru uops (?f 1 (?f 0 e)) 0" by (rule keep [OF same])
  ultimately show ?thesis using assms by (elim disjE) (simp_all only:)
qed

lemma collect_reason:
  assumes "ev \<in> set (collect_iq_wake_events cycle uops)"
  shows "if we_wake_kind ev = Nonspec then producer_publishes_nonspec_wakeup cycle (we_producer ev) uops
         else producer_publishes_spec_wakeup cycle (we_producer ev) uops"
  using assms by (auto simp: collect_iq_wake_events_def wake_event_of_def set_map_filter Option.these_def split: if_splits)

lemma publish_source_justified:
  assumes ev: "ev \<in> set (collect_iq_wake_events cycle uops)" and "source_justified cycle rt ru uops e j"
    and "(idx = 0) = (j = 0) \<longrightarrow> idx = j"
  shows "source_justified cycle rt ru uops (publish_wake_into_entry_source e idx ev uops) j"
proof (cases "iq_source_matches_wake_event (ie_seq e) idx ev uops")
  case True
  then have "at2 (uo_deps (uops ! ie_seq e)) idx = Some (we_producer ev)"
    by (simp add: iq_source_matches_wake_event_def split: if_splits)
  with collect_reason [OF ev]
  have r: "we_wake_kind ev = Nonspec \<Longrightarrow> nonspec_reason cycle (ie_seq e) idx rt ru uops"
    "we_wake_kind ev = Spec \<Longrightarrow> spec_reason cycle (ie_seq e) idx uops"
    by (simp_all add: nonspec_reason_def spec_reason_def)
  show ?thesis
  proof (cases "idx = j")
    case True
    with r assms(2) show ?thesis unfolding source_justified_def publish_wake_into_entry_source_def
      by (cases "we_wake_kind ev") simp_all
  next
    case False
    with assms(2,3) show ?thesis unfolding source_justified_def publish_wake_into_entry_source_def
      by (cases "we_wake_kind ev") simp_all
  qed
qed (use assms in \<open>simp add: publish_wake_into_entry_source_def\<close>)

text \<open>Source indices other than 0 and 1 never match.\<close>

lemma publish_source_out_of_range: "1 < idx \<Longrightarrow> publish_wake_into_entry_source e idx ev uops = e"
  by (simp add: publish_wake_into_entry_source_def iq_source_matches_wake_event_def source_valid_def)

lemma publish_entry_justified:
  assumes ev: "ev \<in> set (collect_iq_wake_events cycle uops)"
    and all: "\<forall>j < 2. source_justified cycle rt ru uops e j"
  shows "\<forall>j < 2. source_justified cycle rt ru uops (publish_wake_into_entry_source e idx ev uops) j"
proof (cases "idx < 2")
  case True
  then have "(idx = 0) = (j = 0) \<longrightarrow> idx = j" if "j < 2" for j :: nat using that by auto
  with all publish_source_justified [OF ev] show ?thesis by simp
qed (use all publish_source_out_of_range [of idx e ev uops] in simp)

lemma publish_event_justified:
  assumes ev: "ev \<in> set (collect_iq_wake_events cycle uops)"
    and all: "\<forall>e \<in> set iq. \<forall>j < 2. source_justified cycle rt ru uops e j"
  shows "\<forall>e \<in> set (publish_iq_wake_event ev iq ot tags xb uops). \<forall>j < 2. source_justified cycle rt ru uops e j"
proof -
  note step = publish_entry_justified [OF ev]
  let ?g = "\<lambda>(seq, src_idx) q. case iq_owner_entry_idx seq q ot tags of None \<Rightarrow> q
               | Some idx \<Rightarrow> q[idx := publish_wake_into_entry_source (q ! idx) src_idx ev uops]"
  have upd: "\<forall>e \<in> set (?g w q). \<forall>j < 2. source_justified cycle rt ru uops e j"
    if q: "\<forall>e \<in> set q. \<forall>j < 2. source_justified cycle rt ru uops e j" for w q
  proof (cases "iq_owner_entry_idx (fst w) q ot tags")
    case (Some i)
    then have "i < length q" by (auto simp: iq_owner_entry_idx_def vec_get_def split: option.splits if_splits)
    then have "\<forall>j < 2. source_justified cycle rt ru uops (publish_wake_into_entry_source (q ! i) (snd w) ev uops) j"
      using q step by simp
    with q Some show ?thesis
      using set_update_subset_insert [of q i "publish_wake_into_entry_source (q ! i) (snd w) ev uops"] by (auto simp: case_prod_beta)
  qed (use q in \<open>simp add: case_prod_beta\<close>)
  have loop: "\<forall>e \<in> set (fold ?g ws q). \<forall>j < 2. source_justified cycle rt ru uops e j"
    if "\<forall>e \<in> set q. \<forall>j < 2. source_justified cycle rt ru uops e j" for ws q
    using that
  proof (induction ws arbitrary: q)
    case (Cons w ws)
    from Cons.IH [OF upd [OF Cons.prems]] show ?case by (simp only: fold_Cons o_apply)
  qed simp
  have whole: "\<forall>j < 2. source_justified cycle rt ru uops (publish_wake_into_entry e ev uops) j"
    "\<forall>j < 2. source_justified cycle rt ru uops (publish_nonqueue_wake_into_entry e ev uops) j"
    if "\<forall>j < 2. source_justified cycle rt ru uops e j" for e
    using that step by (simp_all add: publish_wake_into_entry_def publish_nonqueue_wake_into_entry_def)
  show ?thesis unfolding publish_iq_wake_event_def
    using all whole loop [OF all] by (auto split: option.split)
qed

text \<open>C28: no source operand is ready without a reason. After the wake-up phase of a cycle, a valid
  source marked ready for good has no producer, or its queue tag is in the ready table, or the
  producer's data is visible, or the producer publishes its final wake-up in this very cycle; a
  source marked speculatively ready has a producer whose early wake-up is visible or published now.
  Readiness left over from an earlier cycle (a load that turned out to miss) is withdrawn.\<close>

theorem wakeup_readiness_justified:
  assumes "e \<in> set (update_iq_entries_for_cycle cycle iq rt ru ot tags xb uops)" and "idx < 2" and "at2 (ie_src_valid e) idx"
  shows "(at2 (ie_src_ready_nonspec e) idx \<longrightarrow>
            (case at2 (uo_deps (uops ! ie_seq e)) idx of None \<Rightarrow> True
             | Some producer \<Rightarrow> source_logical_ready (ie_seq e) idx rt ru uops \<or>
                 dep_data_ready_cycle producer uops \<le> cycle \<or> producer_publishes_nonspec_wakeup cycle producer uops)) \<and>
         (at2 (ie_src_ready_spec e) idx \<longrightarrow>
            (case at2 (uo_deps (uops ! ie_seq e)) idx of None \<Rightarrow> False
             | Some producer \<Rightarrow> dep_pick_ready_cycle producer uops \<le> cycle \<or> producer_publishes_spec_wakeup cycle producer uops))"
proof -
  have "\<forall>e \<in> set (fold (\<lambda>ev q. publish_iq_wake_event ev q ot tags xb uops) evs q). \<forall>j < 2. source_justified cycle rt ru uops e j"
    if "set evs \<subseteq> set (collect_iq_wake_events cycle uops)" "\<forall>e \<in> set q. \<forall>j < 2. source_justified cycle rt ru uops e j" for evs q
    using that
  proof (induction evs arbitrary: q)
    case (Cons ev evs)
    have "ev \<in> set (collect_iq_wake_events cycle uops)" using Cons.prems(1) by simp
    from Cons.IH [OF _ publish_event_justified [OF this Cons.prems(2)]] Cons.prems(1) show ?case by simp
  qed simp
  from this [OF subset_refl, of "map (\<lambda>entry. update_iq_entry_source_state cycle entry rt ru uops) iq"]
  have "\<forall>j < 2. source_justified cycle rt ru uops e j"
    using assms(1) update_entry_justified [of _ cycle rt ru uops] by (auto simp: update_iq_entries_for_cycle_def less_2_cases_iff)
  with assms(2,3) show ?thesis by (simp add: source_justified_def nonspec_reason_def spec_reason_def)
qed

definition stale_entry :: IqEntry where
  "stale_entry = \<lparr>ie_seq = 1, ie_phys_iq = StdIq0, ie_inflight = False, ie_src_valid = (True, False),
     ie_src_ready_nonspec = (True, False), ie_src_ready_spec = (False, False), ie_src_wait_qtag = (False, False)\<rparr>"

lemma wakeup_readiness_justified_witness:
  "list_all (\<lambda>e. \<not> (at2 (ie_src_valid e) 0 \<and> at2 (ie_src_ready_nonspec e) 0))
     (update_iq_entries_for_cycle 3 [stale_entry] {} {} empty_iq_owner_table [] empty_qtag_wait_crossbar
        [spec_uop queue_pair_commits queue_pair_decoded 0, spec_uop queue_pair_commits queue_pair_decoded 1])"
proof -
  let ?u = "[spec_uop queue_pair_commits queue_pair_decoded 0, spec_uop queue_pair_commits queue_pair_decoded 1]"
  let ?iq = "update_iq_entries_for_cycle 3 [stale_entry] {} {} empty_iq_owner_table [] empty_qtag_wait_crossbar ?u"
  have clocks: "uo_data_ready_visible (?u ! 0) = None" "uo_w1_cycle (?u ! 0) = None" "uo_e4_cycle (?u ! 0) = None"
    "uo_deps (?u ! 1) = (Some 0, spec_dep queue_pair_commits queue_pair_decoded 1 1)"
    using queue_pair_dep by (simp_all add: spec_uop_def make_uop_def Let_def spec_row_def)
  have "ie_seq e = 1" if "e \<in> set ?iq" for e
  proof -
    have "entry_key e \<in> set (map entry_key ?iq)" using that by simp
    then show ?thesis unfolding update_iq_entries_keys by (simp add: entry_key_def stale_entry_def)
  qed
  moreover have "\<not> at2 (ie_src_ready_nonspec e) 0" if "e \<in> set ?iq" "ie_seq e = 1" "at2 (ie_src_valid e) 0" for e
    using wakeup_readiness_justified [OF that(1) _ that(3)] clocks unfolding that(2)
    by (auto simp: source_logical_ready_def logical_tag_ready_def dep_data_ready_cycle_def
        producer_publishes_nonspec_wakeup_def u64_max_def Let_def split: option.splits QueueWakeKind.splits)
  ultimately show ?thesis by (auto simp: list_all_iff)
qed

text \<open>Queue-tag allocation. The tag handed out belongs to the requested queue, lies inside its
  capacity, is not in use, and is the lowest such; allocation fails exactly when all 32 tags of the
  queue are in use.\<close>

theorem allocate_qtag_lowest_free:
  "(case allocate_qtag tags q of
      None \<Rightarrow> {\<lparr>qt_phys_iq = q, qt_entry_id = e\<rparr> | e. e < IQ_CAPACITY} \<subseteq> set (map snd tags)
    | Some t \<Rightarrow> qt_phys_iq t = q \<and> qt_entry_id t < IQ_CAPACITY \<and> t \<notin> set (map snd tags) \<and>
        {\<lparr>qt_phys_iq = q, qt_entry_id = e\<rparr> | e. e < qt_entry_id t} \<subseteq> set (map snd tags))"
proof (cases "allocate_qtag tags q")
  case None
  then have "\<forall>e < IQ_CAPACITY. qtag_used tags q e" by (simp only: allocate_qtag_None)
  with None show ?thesis by (auto simp: qtag_used_iff)
next
  case (Some t)
  note t = Some [unfolded allocate_qtag_Some]
  show ?thesis unfolding Some option.case
    using t allocate_qtag_fresh [OF Some] by (auto simp: qtag_used_iff)
qed

text \<open>A queue that is not full always yields a tag, so dispatch never stalls on tags alone: with
  the tag table in step with the queue entries, room for an entry means room for its tag, and
  enqueuing with that tag keeps the two in step.\<close>

theorem allocate_qtag_never_starves:
  assumes "tags_inv iq tags" and "iq_occupancy iq q < capacity q" and "seq \<notin> set (map ie_seq iq)"
  shows "\<exists>t. allocate_qtag tags q = Some t \<and>
           tags_inv (iq @ [make_iq_entry cycle seq q rt ru uops]) (bt_insert seq t tags)"
proof -
  obtain t where t: "allocate_qtag tags q = Some t" using allocate_qtag_when_room [OF assms(1,2)] by blast
  have k: "entry_key (make_iq_entry cycle seq q rt ru uops) = (seq, q, False)" by simp
  then have "tags_inv (iq @ [make_iq_entry cycle seq q rt ru uops]) (bt_insert seq t tags)"
    using assms(3) by (intro tags_inv_enqueue [OF assms(1) t]) (simp_all add: entry_key_def)
  with t show ?thesis by blast
qed

lemma allocate_qtag_never_starves_witness:
  "\<exists>t. allocate_qtag [] BruIq = Some t \<and> tags_inv [make_iq_entry 0 5 BruIq {} {} []] (bt_insert 5 t [])"
  using allocate_qtag_never_starves [of "[]" "[]" BruIq 5 0 "{}" "{}" "[]"] by (simp add: tags_inv_Nil iq_occupancy_def capacity_def IQ_CAPACITY_def)

text \<open>Checkpoints round-trip. Whatever happens to the pipeline state in between, as long as the
  checkpoint itself is kept, restoring it brings back the ready tables, the recovery epoch, the
  block-head flag, the branch context and the dynamic-target and call contexts as they were when it
  was taken, and nothing else: putting the overwritten values back gives the state before the restore.\<close>

theorem checkpoint_round_trip:
  assumes "bt_get (sq_ready_table_checkpoints q) cid =
           bt_get (sq_ready_table_checkpoints (snapshot_ready_tables_for_checkpoint p cid)) cid"
  shows "\<exists>r. restore_ready_tables_for_checkpoint q cid = (r, True) \<and> checkpoint_of r = checkpoint_of p \<and>
             apply_checkpoint (checkpoint_of q) r = q"
proof -
  have get: "bt_get (sq_ready_table_checkpoints q) cid = Some (checkpoint_of p)"
    using assms by (simp add: snapshot_ready_tables_for_checkpoint_def)
  have "checkpoint_of (apply_checkpoint (checkpoint_of p) q) = checkpoint_of p"
    by (simp add: checkpoint_of_def apply_checkpoint_def)
  moreover have "apply_checkpoint (checkpoint_of q) (apply_checkpoint (checkpoint_of p) q) = q"
    by (simp add: checkpoint_of_def apply_checkpoint_def)
  ultimately show ?thesis by (simp add: restore_ready_tables_for_checkpoint_def get)
qed

lemma checkpoint_round_trip_witness:
  "\<exists>r. restore_ready_tables_for_checkpoint
         ((snapshot_ready_tables_for_checkpoint (default_stage_queues\<lparr>sq_ready_table_t := {7}\<rparr>) 3)\<lparr>sq_ready_table_t := {}\<rparr>) 3 = (r, True) \<and>
       checkpoint_of r = checkpoint_of (default_stage_queues\<lparr>sq_ready_table_t := {7}\<rparr>)"
  using checkpoint_round_trip [of "(snapshot_ready_tables_for_checkpoint (default_stage_queues\<lparr>sq_ready_table_t := {7}\<rparr>) 3)\<lparr>sq_ready_table_t := {}\<rparr>" 3
      "default_stage_queues\<lparr>sq_ready_table_t := {7}\<rparr>"] by auto

definition owner_shape :: "usize option list list \<Rightarrow> bool" where
  "owner_shape table = (length table = PHYS_IQ_COUNT \<and> (\<forall>row \<in> set table. length row = IQ_CAPACITY))"

lemma owner_write:
  fixes q v
  assumes "owner_shape table" and "j < IQ_CAPACITY"
  defines "w \<equiv> table[phys_iq_index q := (table ! phys_iq_index q)[j := v]]"
  shows "owner_shape w" and "w ! phys_iq_index r ! k = (if r = q \<and> k = j then v else table ! phys_iq_index r ! k)"
proof -
  have len: "phys_iq_index q < length table" "length (table ! phys_iq_index q) = IQ_CAPACITY"
    using assms(1) phys_iq_index_less [of q] by (simp_all add: owner_shape_def)
  have "\<forall>row \<in> set w. length row = IQ_CAPACITY"
    using assms(1) len set_update_subset_insert [of table "phys_iq_index q" "(table ! phys_iq_index q)[j := v]"]
    unfolding w_def owner_shape_def by auto
  then show "owner_shape w" using assms(1) by (simp add: owner_shape_def w_def)
  show "w ! phys_iq_index r ! k = (if r = q \<and> k = j then v else table ! phys_iq_index r ! k)"
    using len assms(2) by (auto simp: w_def nth_list_update)
qed

lemma owner_fold:
  fixes tags :: "(usize, QTag) btree_map"
  assumes shape: "owner_shape table" and tags: "\<forall>e \<in> set iq. \<exists>t. bt_get tags (ie_seq e) = Some t \<and> qt_entry_id t < IQ_CAPACITY"
    and inj: "\<forall>a < length iq. \<forall>b < length iq. bt_get tags (ie_seq (iq ! a)) = bt_get tags (ie_seq (iq ! b)) \<longrightarrow> a = b"
  defines "step \<equiv> \<lambda>(idx, entry) table. case bt_get tags (ie_seq entry) of None \<Rightarrow> table
        | Some qtag \<Rightarrow> table[phys_iq_index (qt_phys_iq qtag) :=
              (table ! phys_iq_index (qt_phys_iq qtag))[qt_entry_id qtag := Some idx]]"
  shows "n \<le> length iq \<Longrightarrow> owner_shape (fold step (enumerate 0 (take n iq)) table) \<and>
     (\<forall>i < n. case bt_get tags (ie_seq (iq ! i)) of None \<Rightarrow> False
        | Some t \<Rightarrow> fold step (enumerate 0 (take n iq)) table ! phys_iq_index (qt_phys_iq t) ! qt_entry_id t = Some i)"
proof (induction n)
  case 0
  then show ?case using shape by simp
next
  case (Suc n)
  let ?t = "fold step (enumerate 0 (take n iq)) table"
  have n: "n < length iq" using Suc.prems by simp
  obtain t where t: "bt_get tags (ie_seq (iq ! n)) = Some t" "qt_entry_id t < IQ_CAPACITY" using tags n nth_mem by blast
  have "enumerate 0 (take (Suc n) iq) = enumerate 0 (take n iq) @ [(n, iq ! n)]"
    using n by (simp add: take_Suc_conv_app_nth enumerate_append_eq)
  then have f: "fold step (enumerate 0 (take (Suc n) iq)) table =
      ?t[phys_iq_index (qt_phys_iq t) := (?t ! phys_iq_index (qt_phys_iq t))[qt_entry_id t := Some n]]"
    by (simp add: step_def t)
  have IH: "owner_shape ?t" "\<forall>i < n. case bt_get tags (ie_seq (iq ! i)) of None \<Rightarrow> False
        | Some t \<Rightarrow> ?t ! phys_iq_index (qt_phys_iq t) ! qt_entry_id t = Some i" using Suc.IH n by simp_all
  note w = owner_write [OF IH(1) t(2)]
  have "case bt_get tags (ie_seq (iq ! i)) of None \<Rightarrow> False
        | Some u \<Rightarrow> fold step (enumerate 0 (take (Suc n) iq)) table ! phys_iq_index (qt_phys_iq u) ! qt_entry_id u = Some i"
    if i: "i < Suc n" for i
  proof (cases "i = n")
    case True
    then show ?thesis by (simp add: t f w(2))
  next
    case False
    with i n inj have ne: "bt_get tags (ie_seq (iq ! i)) \<noteq> Some t" using t(1) by (metis less_antisym less_trans)
    from False i IH(2) have "case bt_get tags (ie_seq (iq ! i)) of None \<Rightarrow> False
        | Some t \<Rightarrow> ?t ! phys_iq_index (qt_phys_iq t) ! qt_entry_id t = Some i" by simp
    moreover have "u = t" if "qt_phys_iq u = qt_phys_iq t" "qt_entry_id u = qt_entry_id t" for u :: QTag
      using that by (intro QTag.equality) simp_all
    ultimately show ?thesis using ne by (auto simp: f w(2) split: option.splits)
  qed
  then show ?case using w(1) by (simp add: f)
qed

text \<open>The owner table finds the right entry. After a rebuild, looking a uop up through its queue
  tag gives the position of its entry in the issue queue, for every entry, and nothing for a uop
  that has no entry.\<close>

theorem owner_table_finds_entry:
  assumes "tags_inv iq tags" and "length table = PHYS_IQ_COUNT" and "list_all (\<lambda>row. length row = IQ_CAPACITY) table"
  shows "iq_owner_entry_idx seq iq (rebuild_iq_owner_table table iq tags) tags = Some i \<longleftrightarrow>
         i < length iq \<and> ie_seq (iq ! i) = seq"
proof -
  let ?r = "rebuild_iq_owner_table table iq tags"
  have shape: "owner_shape (map (map (\<lambda>_. None)) table)" using assms(2,3) by (auto simp: owner_shape_def list_all_iff)
  have tags: "\<forall>e \<in> set iq. \<exists>t. bt_get tags (ie_seq e) = Some t \<and> qt_entry_id t < IQ_CAPACITY"
    using assms(1) by (fastforce simp: tags_inv_def)
  have inj: "a = b" if ab: "a < length iq" "b < length iq" "bt_get tags (ie_seq (iq ! a)) = bt_get tags (ie_seq (iq ! b))" for a b
  proof -
    obtain t where "bt_get tags (ie_seq (iq ! a)) = Some t" "bt_get tags (ie_seq (iq ! b)) = Some t"
      using tags ab nth_mem by metis
    then have "(ie_seq (iq ! a), t) \<in> set tags" "(ie_seq (iq ! b), t) \<in> set tags" by (simp_all add: bt_get_mem)
    moreover have "distinct (map snd tags)" "distinct (map ie_seq iq)" using assms(1) by (simp_all add: tags_inv_def)
    ultimately have "ie_seq (iq ! a) = ie_seq (iq ! b)" by (metis distinct_map fst_conv inj_onD snd_conv)
    with ab(1,2) \<open>distinct (map ie_seq iq)\<close> show ?thesis 
      using nth_eq_iff_index_eq [of "map ie_seq iq" a b] by simp
  qed
  have own: "\<exists>t. bt_get tags (ie_seq (iq ! j)) = Some t \<and> ?r ! phys_iq_index (qt_phys_iq t) ! qt_entry_id t = Some j"
    if "j < length iq" for j
    using conjunct2 [OF owner_fold [OF shape tags, of "length iq"]] inj that
    by (auto simp: rebuild_iq_owner_table_def split: option.splits)
  show ?thesis
  proof
    assume "iq_owner_entry_idx seq iq ?r tags = Some i"
    then show "i < length iq \<and> ie_seq (iq ! i) = seq"
      by (auto simp: iq_owner_entry_idx_def vec_get_def split: option.splits if_splits)
  next
    assume "i < length iq \<and> ie_seq (iq ! i) = seq"
    with own [of i] show "iq_owner_entry_idx seq iq ?r tags = Some i"
      by (auto simp: iq_owner_entry_idx_def vec_get_def)
  qed
qed

lemma owner_table_finds_entry_witness:
  "\<exists>t. iq_owner_entry_idx 5 [make_iq_entry 0 5 BruIq {} {} []]
         (rebuild_iq_owner_table empty_iq_owner_table [make_iq_entry 0 5 BruIq {} {} []] (bt_insert 5 t [])) (bt_insert 5 t []) = Some 0"
proof -
  obtain t where t: "allocate_qtag [] BruIq = Some t"
    using allocate_qtag_when_room [OF tags_inv_Nil, of BruIq] by (auto simp: iq_occupancy_def capacity_def IQ_CAPACITY_def)
  have k: "ie_seq (make_iq_entry 0 5 BruIq {} {} []) = 5" "ie_phys_iq (make_iq_entry 0 5 BruIq {} {} []) = BruIq"
    using make_iq_entry_key [of 0 5 BruIq "{}" "{}" "[]"] by (simp_all add: entry_key_def)
  from tags_inv_enqueue [OF tags_inv_Nil t _ k] have "tags_inv [make_iq_entry 0 5 BruIq {} {} []] (bt_insert 5 t [])" by simp
  from owner_table_finds_entry [OF this, of empty_iq_owner_table 5 0] k show ?thesis
    by (auto simp: empty_iq_owner_table_def list_all_length)
qed

end
