(* ===== verification/Iq_Select.thy ===== *)
theory Iq_Select
  imports Iq_Queues
begin

text \<open>
  Pick, read-port arbitration and issue (\<^verbatim>\<open>crates/camodel/src/issue/select/mod.rs\<close>): per-queue
  oldest-ready selection into P1, I1 arbitration over three register read ports, the I1 to I2
  hand-over that frees the issue-queue entry, I2 to E1 issue in load-store-id order, and the
  load-generation vector that tells which in-flight loads a uop transitively depends on.
\<close>

section \<open>Load generation\<close>

definition miss_pending_active :: "cyc \<Rightarrow> CycleUop list \<Rightarrow> bool" where
  "miss_pending_active cycle uops =
     list_ex (\<lambda>uop. uo_is_load uop \<and> uo_miss_injected uop \<and> uo_done_cycle uop = None \<and>
        (uo_miss_pending_until uop \<noteq> None \<or> uo_e1_cycle uop \<noteq> None \<or>
         uo_e4_cycle uop \<noteq> None \<or> uo_w1_cycle uop \<noteq> None)) uops"

definition current_load_stage_mask :: "usize \<Rightarrow> cyc \<Rightarrow> CycleUop list \<Rightarrow> u8" where
  "current_load_stage_mask seq cycle uops =
     (let uop = uops ! seq in
      if \<not> uo_is_load uop then 0
      else if uo_miss_pending_until uop \<noteq> None then LD_GEN_E4
      else if uo_e4_cycle uop = Some cycle then LD_GEN_E4
      else case uo_e1_cycle uop of
        None \<Rightarrow> 0
      | Some e1_cycle \<Rightarrow>
          if e1_cycle \<le> cycle then
            (if cycle - e1_cycle = 0 then LD_GEN_E1
             else if cycle - e1_cycle = 1 then LD_GEN_E2
             else if cycle - e1_cycle = 2 then LD_GEN_E3
             else 0)
          else 0)"

text \<open>
  The recursion follows dependency edges, which point strictly backwards in every list that
  \<open>build_uops\<close> makes. Fuel bounds the depth; \<open>None\<close> is running out of it, or the index panic
  of an edge that leaves the list.
\<close>

fun dep_load_gen_vec_inner ::
  "nat \<Rightarrow> usize \<Rightarrow> cyc \<Rightarrow> CycleUop list \<Rightarrow> u8 option list \<Rightarrow> (u8 \<times> u8 option list) option" where
  "dep_load_gen_vec_inner 0 seq cycle uops memo = None"
| "dep_load_gen_vec_inner (Suc fuel) seq cycle uops memo =
     (if length uops \<le> seq then None
      else case memo ! seq of
        Some msk \<Rightarrow> Some (msk, memo)
      | None \<Rightarrow>
          (let mask0 = current_load_stage_mask seq cycle uops;
               visit = (\<lambda>dep acc. case acc of None \<Rightarrow> None
                  | Some (msk, m) \<Rightarrow>
                      (case dep of None \<Rightarrow> Some (msk, m)
                       | Some d \<Rightarrow>
                           (case dep_load_gen_vec_inner fuel d cycle uops m of None \<Rightarrow> None
                            | Some (dmask, m') \<Rightarrow> Some (msk OR dmask, m'))))
           in case visit (snd (uo_deps (uops ! seq)))
                     (visit (fst (uo_deps (uops ! seq))) (Some (mask0, memo))) of
                None \<Rightarrow> None
              | Some (msk, m) \<Rightarrow> Some (msk, m[seq := Some msk])))"

definition dep_load_gen_vec :: "usize \<Rightarrow> cyc \<Rightarrow> CycleUop list \<Rightarrow> u8 option" where
  "dep_load_gen_vec seq cycle uops =
     map_option fst
       (dep_load_gen_vec_inner (length uops) seq cycle uops (replicate (length uops) None))"

section \<open>Readiness\<close>

definition lsid_issue_ready :: "usize \<Rightarrow> usize \<Rightarrow> CycleUop list \<Rightarrow> bool" where
  "lsid_issue_ready seq lsid_issue_ptr uops =
     (case uo_load_store_id (uops ! seq) of None \<Rightarrow> True
      | Some load_store_id \<Rightarrow> load_store_id = lsid_issue_ptr)"

definition i2_ready :: "usize \<Rightarrow> cyc \<Rightarrow> CycleUop list \<Rightarrow> bool" where
  "i2_ready seq cycle uops =
     list_all (\<lambda>dep. case dep of None \<Rightarrow> True
                 | Some producer \<Rightarrow> dep_data_ready_cycle producer uops \<le> cycle)
       [fst (uo_deps (uops ! seq)), snd (uo_deps (uops ! seq))]"

definition i2_issue_eligible :: "usize \<Rightarrow> cyc \<Rightarrow> usize \<Rightarrow> CycleUop list \<Rightarrow> bool" where
  "i2_issue_eligible seq cycle lsid_issue_ptr uops =
     (i2_ready seq cycle uops \<and> lsid_issue_ready seq lsid_issue_ptr uops)"

definition i2_waits_on_lsid :: "usize \<Rightarrow> cyc \<Rightarrow> usize \<Rightarrow> CycleUop list \<Rightarrow> bool" where
  "i2_waits_on_lsid seq cycle lsid_issue_ptr uops =
     (i2_ready seq cycle uops \<and> \<not> lsid_issue_ready seq lsid_issue_ptr uops)"

definition source_wait_cause ::
  "IqEntry \<Rightarrow> usize \<Rightarrow> bool \<Rightarrow> cyc \<Rightarrow> CycleUop list \<Rightarrow> string option" where
  "source_wait_cause entry idx miss_pending cycle uops =
     (if (case at2 (uo_deps (uops ! ie_seq entry)) idx of None \<Rightarrow> False
          | Some dep \<Rightarrow> miss_pending \<and>
              unwrap_or (dep_load_gen_vec dep cycle uops) 0 AND LD_GEN_E4 \<noteq> 0)
      then Some ''wait_miss''
      else if at2 (ie_src_valid entry) idx \<and>
              \<not> (at2 (ie_src_ready_nonspec entry) idx \<or> at2 (ie_src_ready_spec entry) idx)
      then Some (if at2 (ie_src_wait_qtag entry) idx then ''wait_qtag'' else ''wait_dep'')
      else None)"

definition iq_entry_wait_cause_from_state ::
  "IqEntry \<Rightarrow> cyc \<Rightarrow> usize \<Rightarrow> CycleUop list \<Rightarrow> string option" where
  "iq_entry_wait_cause_from_state entry cycle lsid_issue_ptr uops =
     (if \<not> lsid_issue_ready (ie_seq entry) lsid_issue_ptr uops then Some ''wait_lsid''
      else let miss_pending = miss_pending_active cycle uops
           in find_map (\<lambda>idx. source_wait_cause entry idx miss_pending cycle uops) [0, 1])"

definition iq_entry_ready_from_state :: "IqEntry \<Rightarrow> cyc \<Rightarrow> usize \<Rightarrow> CycleUop list \<Rightarrow> bool" where
  "iq_entry_ready_from_state entry cycle lsid_issue_ptr uops =
     (iq_entry_wait_cause_from_state entry cycle lsid_issue_ptr uops = None)"

section \<open>Pick\<close>

definition ready_iq_winners ::
  "cyc \<Rightarrow> usize \<Rightarrow> IqEntry list \<Rightarrow> CycleUop list \<Rightarrow> usize list \<Rightarrow> (usize \<times> usize \<times> PhysIq) list" where
  "ready_iq_winners cycle lsid_issue_ptr iq uops rob =
     dedup_by_key (\<lambda>(_, _, phys_iq). phys_iq)
       (sort_key (\<lambda>(_, seq, phys_iq). (phys_iq_index phys_iq, rob_age_rank seq rob))
         (List.map_filter (\<lambda>(idx, entry).
            then_some (\<not> ie_inflight entry \<and>
                       iq_entry_ready_from_state entry cycle lsid_issue_ptr uops)
              (idx, ie_seq entry, ie_phys_iq entry))
            (enumerate 0 iq)))"

fun pick_candidates ::
  "(usize \<times> usize) list \<Rightarrow> IqEntry list \<Rightarrow> usize list \<Rightarrow> IqEntry list \<times> usize list" where
  "pick_candidates [] iq p1 = (iq, p1)"
| "pick_candidates ((idx, seq) # cs) iq p1 =
     (if ISSUE_WIDTH \<le> length p1 then (iq, p1)
      else pick_candidates cs (iq[idx := (iq ! idx)\<lparr>ie_inflight := True\<rparr>]) (p1 @ [seq]))"

definition pick_from_iq ::
  "cyc \<Rightarrow> usize \<Rightarrow> IqEntry list \<Rightarrow> CycleUop list \<Rightarrow> usize list \<Rightarrow> usize list \<Rightarrow>
   IqEntry list \<times> usize list" where
  "pick_from_iq cycle lsid_issue_ptr iq uops p1 rob =
     pick_candidates
       (sort_key (\<lambda>(_, seq). rob_age_rank seq rob)
         (map (\<lambda>(idx, seq, _). (idx, seq)) (ready_iq_winners cycle lsid_issue_ptr iq uops rob)))
       iq p1"

section \<open>I1 arbitration\<close>

definition source_needs_rf_read_from_entry ::
  "IqEntry \<Rightarrow> CommitRecord \<Rightarrow> usize \<Rightarrow> usize option \<Rightarrow> cyc \<Rightarrow> CycleUop list \<Rightarrow> bool" where
  "source_needs_rf_read_from_entry entry commit idx dep cycle uops =
     (if \<not> source_valid commit idx then False
      else if source_uses_qtag_wakeup (ie_seq entry) idx uops then False
      else if at2 (ie_src_ready_spec entry) idx then False
      else case dep of None \<Rightarrow> True
        | Some producer \<Rightarrow>
            if dep_data_ready_cycle producer uops \<le> cycle then True
            else \<not> (uo_is_load (uops ! producer) \<and> dep_pick_ready_cycle producer uops \<le> cycle))"

definition read_ports_needed_from_entry :: "IqEntry \<Rightarrow> cyc \<Rightarrow> CycleUop list \<Rightarrow> usize" where
  "read_ports_needed_from_entry entry cycle uops =
     length (filter (\<lambda>idx.
        source_needs_rf_read_from_entry entry (uo_commit (uops ! ie_seq entry)) idx
          (at2 (uo_deps (uops ! ie_seq entry)) idx) cycle uops) [0, 1])"

definition clear_inflight_first :: "usize \<Rightarrow> IqEntry list \<Rightarrow> IqEntry list" where
  "clear_inflight_first seq iq =
     (case position (\<lambda>entry. ie_seq entry = seq) iq of None \<Rightarrow> iq
      | Some i \<Rightarrow> iq[i := (iq ! i)\<lparr>ie_inflight := False\<rparr>])"

fun arbitrate_loop ::
  "cyc \<Rightarrow> CycleUop list \<Rightarrow> usize list \<Rightarrow> usize list \<Rightarrow> usize \<Rightarrow> usize set \<Rightarrow> IqEntry list \<Rightarrow>
   usize list \<times> IqEntry list" where
  "arbitrate_loop cycle uops [] admitted used_ports used_queues iq = (admitted, iq)"
| "arbitrate_loop cycle uops (seq # attempts) admitted used_ports used_queues iq =
     (case find (\<lambda>entry. ie_seq entry = seq) iq of
        None \<Rightarrow> arbitrate_loop cycle uops attempts admitted used_ports used_queues iq
      | Some entry \<Rightarrow>
          (let needed = read_ports_needed_from_entry entry cycle uops;
               q = phys_iq_index (ie_phys_iq entry)
           in if q \<notin> used_queues \<and> used_ports + needed \<le> READ_PORTS
              then arbitrate_loop cycle uops attempts (admitted @ [seq]) (used_ports + needed)
                     (insert q used_queues) iq
              else arbitrate_loop cycle uops attempts admitted used_ports used_queues
                     (clear_inflight_first seq iq)))"

text \<open>Drains \<open>p1\<close>; returns the admitted uops and the updated issue queue.\<close>

definition arbitrate_i1 ::
  "cyc \<Rightarrow> usize list \<Rightarrow> IqEntry list \<Rightarrow> CycleUop list \<Rightarrow> usize list \<Rightarrow> usize list \<times> IqEntry list" where
  "arbitrate_i1 cycle p1 iq uops rob =
     arbitrate_loop cycle uops (sort_key (\<lambda>seq. rob_age_rank seq rob) p1) [] 0 {} iq"

section \<open>Moving between the issue stages\<close>

fun select_advance_simple :: "usize list \<Rightarrow> usize list \<Rightarrow> nat \<Rightarrow> usize list \<times> usize list" where
  "select_advance_simple dst [] cap = (dst, [])"
| "select_advance_simple dst (seq # src) cap =
     (if length dst < cap then select_advance_simple (dst @ [seq]) src cap else (dst, seq # src))"

text \<open>Returns the new I1 and P1; the admitted list is used up.\<close>

definition advance_p1_to_i1 ::
  "usize list \<Rightarrow> usize list \<Rightarrow> usize list \<Rightarrow> usize list \<times> usize list" where
  "advance_p1_to_i1 i1 admitted_i1 p1 =
     (let (i1', left) = select_advance_simple i1 admitted_i1 ISSUE_WIDTH in (i1', p1 @ left))"

fun i1_to_i2_loop ::
  "IqEntry list \<Rightarrow> usize list \<Rightarrow> usize list \<Rightarrow> usize list \<Rightarrow> usize list \<Rightarrow> usize set \<Rightarrow>
   usize list \<times> usize list \<times> usize list" where
  "i1_to_i2_loop iq [] i2 moved stay used_queues = (i2, moved, stay)"
| "i1_to_i2_loop iq (seq # prev_i1) i2 moved stay used_queues =
     (if ISSUE_WIDTH \<le> length i2 then i1_to_i2_loop iq prev_i1 i2 moved (stay @ [seq]) used_queues
      else case find (\<lambda>entry. ie_seq entry = seq) iq of
        None \<Rightarrow> i1_to_i2_loop iq prev_i1 i2 moved stay used_queues
      | Some entry \<Rightarrow>
          if phys_iq_index (ie_phys_iq entry) \<in> used_queues
          then i1_to_i2_loop iq prev_i1 i2 moved (stay @ [seq]) used_queues
          else i1_to_i2_loop iq prev_i1 (i2 @ [seq]) (moved @ [seq]) stay
                 (insert (phys_iq_index (ie_phys_iq entry)) used_queues))"

definition advance_i1_to_i2 :: "StageQueues \<Rightarrow> IqEntry list \<Rightarrow> StageQueues \<times> IqEntry list" where
  "advance_i1_to_i2 p iq =
     (let (i2, moved, stay) = i1_to_i2_loop iq (sq_i1 p) (sq_i2 p) [] [] {};
          iq' = filter (\<lambda>entry. ie_seq entry \<notin> set moved) iq;
          tags = fold bt_remove moved (sq_iq_tags p);
          crossbar = fold (\<lambda>seq c. unregister_iq_wait_crossbar_seq c seq) moved
                       (sq_qtag_wait_crossbar p)
      in (p\<lparr>sq_i2 := i2, sq_iq_tags := tags, sq_qtag_wait_crossbar := crossbar,
            sq_iq_owner_table := rebuild_iq_owner_table (sq_iq_owner_table p) iq' tags,
            sq_i1 := stay\<rparr>, iq'))"

definition should_inject_load_miss :: "usize \<Rightarrow> CycleRunOptions \<Rightarrow> CycleUop list \<Rightarrow> bool" where
  "should_inject_load_miss seq options uops =
     (case opt_load_miss_every options of None \<Rightarrow> False
      | Some every \<Rightarrow>
          if every = 0 then False
          else let uop = uops ! seq in
            uo_is_load uop \<and> \<not> uo_miss_injected uop \<and>
            (case uo_load_ordinal uop of None \<Rightarrow> False
             | Some ordinal \<Rightarrow> (ordinal + 1) mod every = 0))"

section \<open>Lemmas\<close>

interpretation issue_mover: greedy_loop select_advance_simple
  by unfold_locales simp_all

lemmas select_advance_simple_closed [stage_simps] = issue_mover.move_closed_form

section \<open>What the pick stages own\<close>

text \<open>The uops the pick stages own: exactly the entries marked in flight.\<close>

definition iq_seqs :: "IqEntry list \<Rightarrow> usize list" where
  "iq_seqs iq = map ie_seq iq"

definition inflight_seqs :: "IqEntry list \<Rightarrow> usize list" where
  "inflight_seqs iq = map ie_seq (filter ie_inflight iq)"

definition pick_inv :: "usize list \<Rightarrow> usize list \<Rightarrow> IqEntry list \<Rightarrow> bool" where
  "pick_inv p1 i1 iq = (distinct (p1 @ i1) \<and> set (p1 @ i1) = set (inflight_seqs iq))"

definition set_inflight :: "bool \<Rightarrow> usize set \<Rightarrow> IqEntry list \<Rightarrow> IqEntry list" where
  "set_inflight b seqs iq = map (\<lambda>e. if ie_seq e \<in> seqs then e\<lparr>ie_inflight := b\<rparr> else e) iq"

definition seq_ports :: "IqEntry list \<Rightarrow> cyc \<Rightarrow> CycleUop list \<Rightarrow> usize \<Rightarrow> usize" where
  "seq_ports iq cycle uops seq =
     (case find (\<lambda>entry. ie_seq entry = seq) iq of None \<Rightarrow> 0
      | Some e \<Rightarrow> read_ports_needed_from_entry e cycle uops)"

definition seq_queue :: "IqEntry list \<Rightarrow> usize \<Rightarrow> PhysIq option" where
  "seq_queue iq seq = map_option ie_phys_iq (find (\<lambda>entry. ie_seq entry = seq) iq)"

definition ready_entries ::
  "cyc \<Rightarrow> usize \<Rightarrow> IqEntry list \<Rightarrow> CycleUop list \<Rightarrow> (usize \<times> usize \<times> PhysIq) list" where
  "ready_entries cycle lsid_issue_ptr iq uops =
     List.map_filter (\<lambda>(idx, entry).
        then_some (\<not> ie_inflight entry \<and> iq_entry_ready_from_state entry cycle lsid_issue_ptr uops)
          (idx, ie_seq entry, ie_phys_iq entry)) (enumerate 0 iq)"

section \<open>Issue-queue bookkeeping\<close>

lemma set_inflight_simps [simp]:
  "length (set_inflight b s iq) = length iq" "set_inflight b {} iq = iq"
  "iq_seqs (set_inflight b s iq) = iq_seqs iq" "map ie_phys_iq (set_inflight b s iq) = map ie_phys_iq iq"
  by (auto simp: set_inflight_def iq_seqs_def)

lemma set_inflight_comp: "set_inflight b s (set_inflight b t iq) = set_inflight b (s \<union> t) iq"
  by (simp add: set_inflight_def)

lemma inflight_set_False: "set (inflight_seqs (set_inflight False s iq)) = set (inflight_seqs iq) - s"
  by (auto simp: inflight_seqs_def set_inflight_def image_iff)

lemma inflight_set_True:
  "set (inflight_seqs (set_inflight True s iq)) = set (inflight_seqs iq) \<union> (s \<inter> set (iq_seqs iq))"
  by (induction iq) (auto simp: inflight_seqs_def set_inflight_def iq_seqs_def)

lemma inflight_subset: "set (inflight_seqs iq) \<subseteq> set (iq_seqs iq)"
  by (auto simp: inflight_seqs_def iq_seqs_def)

lemma find_seq_iff:
  "find (\<lambda>entry. ie_seq entry = seq) iq = None \<longleftrightarrow> seq \<notin> set (iq_seqs iq)"
  by (auto simp: find_None_iff iq_seqs_def)

lemma find_seq_Some:
  "find (\<lambda>entry. ie_seq entry = seq) iq = Some e \<Longrightarrow> ie_seq e = seq \<and> e \<in> set iq"
  by (auto simp: find_Some_iff)

lemma clear_inflight_first_distinct:
  assumes "distinct (iq_seqs iq)"
  shows "clear_inflight_first seq iq = set_inflight False {seq} iq"
proof (cases "position (\<lambda>entry. ie_seq entry = seq) iq")
  case None
  then have "\<forall>e \<in> set iq. ie_seq e \<noteq> seq" by (simp add: position_None)
  with None show ?thesis
    by (simp add: clear_inflight_first_def set_inflight_def map_idI)
next
  case (Some i)
  with position_Some [OF Some] assms show ?thesis
    by (intro nth_equalityI)
       (auto simp: clear_inflight_first_def set_inflight_def nth_list_update iq_seqs_def
          distinct_conv_nth)
qed

lemma i1_to_i2_loop_spec:
  assumes "i1_to_i2_loop iq i1 i2 moved stay used = (i2', moved', stay')" and "set i1 \<subseteq> set (iq_seqs iq)"
  shows "\<exists>m s. i2' = i2 @ m \<and> moved' = moved @ m \<and> stay' = stay @ s \<and> mset m + mset s = mset i1 \<and>
           length i2' \<le> max ISSUE_WIDTH (length i2)"
  using assms
proof (induction iq i1 i2 moved stay used rule: i1_to_i2_loop.induct)
  case (1 iq i2 moved stay used)
  then show ?case by simp
next
  case (2 iq seq i1 i2 moved stay used)
  from "2.prems"(2) obtain e where e: "find (\<lambda>entry. ie_seq entry = seq) iq = Some e"
    by (cases "find (\<lambda>entry. ie_seq entry = seq) iq") (auto simp: find_seq_iff)
  consider (full) "ISSUE_WIDTH \<le> length i2"
    | (busy) "length i2 < ISSUE_WIDTH" "phys_iq_index (ie_phys_iq e) \<in> used"
    | (move) "length i2 < ISSUE_WIDTH" "phys_iq_index (ie_phys_iq e) \<notin> used"
    by fastforce
  then show ?case
  proof cases
    case full
    with "2.prems" "2.IH"(1) obtain m s where "i2' = i2 @ m" "moved' = moved @ m" "stay' = stay @ seq # s"
      "mset m + mset s = mset i1" "length i2' \<le> max ISSUE_WIDTH (length i2)" by fastforce
    then show ?thesis by (intro exI [of _ m] exI [of _ "seq # s"]) simp
  next
    case busy
    with "2.prems" "2.IH"(3) [of e] e obtain m s where "i2' = i2 @ m" "moved' = moved @ m" "stay' = stay @ seq # s"
      "mset m + mset s = mset i1" "length i2' \<le> max ISSUE_WIDTH (length i2)" by fastforce
    then show ?thesis by (intro exI [of _ m] exI [of _ "seq # s"]) simp
  next
    case move
    with "2.prems" "2.IH"(4) [of e] e obtain m s where "i2' = i2 @ seq # m" "moved' = moved @ seq # m"
      "stay' = stay @ s" "mset m + mset s = mset i1" "length i2' \<le> max ISSUE_WIDTH (Suc (length i2))" by fastforce
    with move show ?thesis by (intro exI [of _ "seq # m"] exI [of _ s]) simp
  qed
qed

text \<open>The whole I1 to I2 step, given that I1 only holds in-flight entries.\<close>

lemma advance_i1_to_i2_spec:
  assumes "advance_i1_to_i2 p iq = (p', iq')" and "pick_inv (sq_p1 p) (sq_i1 p) iq"
    and "distinct (iq_seqs iq)"
  obtains m where "sq_i2 p' = sq_i2 p @ m" "distinct m" "set m \<subseteq> set (sq_i1 p)"
    "iq' = filter (\<lambda>e. ie_seq e \<notin> set m) iq" "sq_iq_tags p' = fold bt_remove m (sq_iq_tags p)"
    "mset (iq_seqs iq') + mset (sq_i2 p') = mset (iq_seqs iq) + mset (sq_i2 p)"
    "pick_inv (sq_p1 p') (sq_i1 p') iq'" "length (sq_i2 p') \<le> max ISSUE_WIDTH (length (sq_i2 p))"
    "length (sq_i1 p') \<le> length (sq_i1 p)"
proof -
  obtain i2 moved stay where loop: "i1_to_i2_loop iq (sq_i1 p) (sq_i2 p) [] [] {} = (i2, moved, stay)"
    by (cases "i1_to_i2_loop iq (sq_i1 p) (sq_i2 p) [] [] {}") auto
  have sub: "set (sq_i1 p) \<subseteq> set (iq_seqs iq)"
    using assms(2) inflight_subset [of iq] by (auto simp: pick_inv_def)
  from i1_to_i2_loop_spec [OF loop sub] obtain m s
    where ms: "i2 = sq_i2 p @ m" "moved = m" "stay = s" "mset m + mset s = mset (sq_i1 p)"
      "length i2 \<le> max ISSUE_WIDTH (length (sq_i2 p))" by auto
  have perm: "mset (m @ s) = mset (sq_i1 p)" using ms(4) by simp
  have dist: "distinct (m @ s)" using assms(2) mset_eq_imp_distinct_iff [OF perm] by (simp add: pick_inv_def)
  have sets: "set m \<union> set s = set (sq_i1 p)" using mset_eq_setD [OF perm] by simp
  have fields: "sq_i2 p' = i2" "sq_iq_tags p' = fold bt_remove moved (sq_iq_tags p)" "sq_i1 p' = stay"
    "sq_p1 p' = sq_p1 p" and iq': "iq' = filter (\<lambda>e. ie_seq e \<notin> set m) iq"
    using assms(1) unfolding advance_i1_to_i2_def loop Let_def prod.case ms(2) by auto
  have seqs': "iq_seqs iq' = filter (\<lambda>x. x \<notin> set m) (iq_seqs iq)"
    by (simp add: iq' iq_seqs_def filter_map o_def)
  have fl': "set (inflight_seqs iq') = set (inflight_seqs iq) - set m"
    by (auto simp: inflight_seqs_def iq')
  have conserve: "mset (iq_seqs iq') + mset m = mset (iq_seqs iq)"
    unfolding seqs' using assms(3) dist sub sets by (intro mset_remove_distinct) auto
  have pick: "pick_inv (sq_p1 p') (sq_i1 p') iq'"
    using assms(2) dist sets fl' by (auto simp: pick_inv_def fields ms)
  show thesis
  proof (rule that [of m])
    show "mset (iq_seqs iq') + mset (sq_i2 p') = mset (iq_seqs iq) + mset (sq_i2 p)"
      using conserve by (simp add: fields ms add.assoc [symmetric] add.commute)
    show "length (sq_i1 p') \<le> length (sq_i1 p)"
      using mset_eq_length [OF perm] by (simp add: fields ms)
  qed (use dist sets fields ms iq' pick in auto)
qed

lemma find_set_inflight:
  "find (\<lambda>entry. ie_seq entry = seq) (set_inflight b s iq) =
     map_option (\<lambda>e. if ie_seq e \<in> s then e\<lparr>ie_inflight := b\<rparr> else e)
       (find (\<lambda>entry. ie_seq entry = seq) iq)"
  by (induction iq) (auto simp: set_inflight_def)

lemma read_ports_inflight [simp]:
  "read_ports_needed_from_entry (e\<lparr>ie_inflight := b\<rparr>) cycle uops = read_ports_needed_from_entry e cycle uops"
  by (simp add: read_ports_needed_from_entry_def source_needs_rf_read_from_entry_def)

lemma seq_ports_set_inflight [simp]: "seq_ports (set_inflight b s iq) = seq_ports iq"
  by (auto simp: fun_eq_iff seq_ports_def find_set_inflight split: option.splits)

lemma seq_queue_set_inflight [simp]: "seq_queue (set_inflight b s iq) = seq_queue iq"
  by (auto simp: fun_eq_iff seq_queue_def find_set_inflight option.map_comp o_def intro: option.map_cong)

text \<open>Arbitration splits the attempts into the admitted and the denied ones, clears the
  in-flight mark of the denied ones, and stays within the read ports and one grant per queue.\<close>

lemma arbitrate_loop_spec:
  assumes "arbitrate_loop cycle uops att adm ports used iq = (adm', iq')"
    and "set att \<subseteq> set (iq_seqs iq)" and "distinct (iq_seqs iq)" and "ports \<le> READ_PORTS"
  shows "\<exists>a d. adm' = adm @ a \<and> mset a + mset d = mset att \<and> iq' = set_inflight False (set d) iq \<and>
     ports + sum_list (map (seq_ports iq cycle uops) a) \<le> READ_PORTS \<and>
     distinct (map (seq_queue iq) a) \<and>
     (\<forall>q. Some q \<in> seq_queue iq ` set a \<longrightarrow> phys_iq_index q \<notin> used)"
  using assms
proof (induction cycle uops att adm ports used iq rule: arbitrate_loop.induct)
  case (1 cycle uops adm ports used iq)
  then show ?case by (intro exI [of _ "[]"]) simp
next
  case (2 cycle uops seq att adm ports used iq)
  from "2.prems"(2) obtain e where e: "find (\<lambda>entry. ie_seq entry = seq) iq = Some e"
    by (cases "find (\<lambda>entry. ie_seq entry = seq) iq") (auto simp: find_seq_iff)
  let ?n = "read_ports_needed_from_entry e cycle uops" and ?q = "phys_iq_index (ie_phys_iq e)"
  have n: "seq_ports iq cycle uops seq = ?n" "seq_queue iq seq = Some (ie_phys_iq e)"
    by (simp_all add: seq_ports_def seq_queue_def e)
  show ?case
  proof (cases "?q \<notin> used \<and> ports + ?n \<le> READ_PORTS")
    case True
    with "2.prems" e have loop: "arbitrate_loop cycle uops att (adm @ [seq]) (ports + ?n) (insert ?q used) iq = (adm', iq')"
      by (simp add: Let_def)
    from "2.IH"(2) [OF e refl refl True loop] "2.prems" True obtain a d where
      ad: "adm' = (adm @ [seq]) @ a" "mset a + mset d = mset att" "iq' = set_inflight False (set d) iq"
      "ports + ?n + sum_list (map (seq_ports iq cycle uops) a) \<le> READ_PORTS"
      "distinct (map (seq_queue iq) a)"
      "\<forall>q. Some q \<in> seq_queue iq ` set a \<longrightarrow> phys_iq_index q \<notin> insert ?q used" by auto
    have "seq_queue iq seq \<notin> seq_queue iq ` set a" using ad(6) n(2) by auto
    with ad n True show ?thesis
      by (intro exI [of _ "seq # a"] exI [of _ d]) auto
  next
    case False
    let ?iq = "set_inflight False {seq} iq"
    from False "2.prems" e have loop: "arbitrate_loop cycle uops att adm ports used ?iq = (adm', iq')"
      by (auto simp: Let_def clear_inflight_first_distinct)
    note IH = "2.IH"(3) [OF e refl refl False, unfolded clear_inflight_first_distinct [OF "2.prems"(3)], OF loop]
    from IH "2.prems" obtain a d where
      ad: "adm' = adm @ a" "mset a + mset d = mset att" "iq' = set_inflight False (set d) ?iq"
      "ports + sum_list (map (seq_ports iq cycle uops) a) \<le> READ_PORTS"
      "distinct (map (seq_queue iq) a)"
      "\<forall>q. Some q \<in> seq_queue iq ` set a \<longrightarrow> phys_iq_index q \<notin> used" by auto
    then show ?thesis
      by (intro exI [of _ a] exI [of _ "seq # d"]) (auto simp: set_inflight_comp Un_commute)
  qed
qed

lemma arbitrate_i1_spec:
  assumes "arbitrate_i1 cycle p1 iq uops rob = (admitted, iq')" and "pick_inv p1 i1 iq"
    and "distinct (iq_seqs iq)"
  obtains d where "mset admitted + mset d = mset p1" "iq' = set_inflight False (set d) iq"
    "sum_list (map (seq_ports iq cycle uops) admitted) \<le> READ_PORTS"
    "distinct (map (seq_queue iq) admitted)" "pick_inv admitted i1 iq'"
proof -
  let ?att = "sort_key (\<lambda>seq. rob_age_rank seq rob) p1"
  have sub: "set ?att \<subseteq> set (iq_seqs iq)"
    using assms(2) inflight_subset [of iq] by (auto simp: pick_inv_def)
  obtain d where d: "mset admitted + mset d = mset p1" "iq' = set_inflight False (set d) iq"
    "sum_list (map (seq_ports iq cycle uops) admitted) \<le> READ_PORTS" "distinct (map (seq_queue iq) admitted)"
    using arbitrate_loop_spec [OF assms(1) [unfolded arbitrate_i1_def] sub assms(3)] by auto
  have perm: "mset (admitted @ d) = mset p1" using d(1) by simp
  have "distinct (admitted @ d)" "set admitted \<union> set d = set p1"
    using assms(2) mset_eq_imp_distinct_iff [OF perm] mset_eq_setD [OF perm] by (auto simp: pick_inv_def)
  with assms(2) have "pick_inv admitted i1 iq'"
    unfolding pick_inv_def d(2) inflight_set_False by auto
  with d show thesis by (rule that)
qed

lemma advance_p1_to_i1_spec:
  assumes "advance_p1_to_i1 i1 admitted [] = (i1', p1')"
  shows "i1' @ p1' = i1 @ admitted" and "length i1 \<le> ISSUE_WIDTH \<Longrightarrow> length i1' \<le> ISSUE_WIDTH"
    and "length p1' \<le> length admitted"
  using assms by (auto simp: advance_p1_to_i1_def stage_simps Let_def)

lemma in_ready_entries:
  "(idx, seq, q) \<in> set (ready_entries cycle ptr iq uops) \<longleftrightarrow>
     idx < length iq \<and> ie_seq (iq ! idx) = seq \<and> ie_phys_iq (iq ! idx) = q \<and>
     \<not> ie_inflight (iq ! idx) \<and> iq_entry_ready_from_state (iq ! idx) cycle ptr uops"
proof -
  have "w \<in> set (ready_entries cycle ptr iq uops) \<longleftrightarrow>
      (\<exists>i < length iq. w = (i, ie_seq (iq ! i), ie_phys_iq (iq ! i)) \<and> \<not> ie_inflight (iq ! i) \<and>
         iq_entry_ready_from_state (iq ! i) cycle ptr uops)" for w
    by (auto simp: ready_entries_def List.map_filter_def then_some_def image_iff in_set_enumerate_eq
        case_prod_beta Bex_def)
  then show ?thesis by auto
qed

lemma ready_iq_winners_eq:
  "ready_iq_winners cycle ptr iq uops rob =
     dedup_by_key (\<lambda>w. snd (snd w))
       (sort_key (\<lambda>w. (phys_iq_index (snd (snd w)), rob_age_rank (fst (snd w)) rob))
         (ready_entries cycle ptr iq uops))"
  by (simp add: ready_iq_winners_def ready_entries_def case_prod_beta')

lemma inj_phys_iq_index: "inj phys_iq_index"
  by (simp add: inj_def)

lemma winners_subset:
  "set (ready_iq_winners cycle ptr iq uops rob) \<subseteq> set (ready_entries cycle ptr iq uops)"
  unfolding ready_iq_winners_eq
  using set_dedup_by_key_subset [of "\<lambda>w. snd (snd w)"] by fastforce

lemma winners_one_per_queue:
  "distinct (map (\<lambda>w. snd (snd w)) (ready_iq_winners cycle ptr iq uops rob))"
  unfolding ready_iq_winners_eq
proof (rule dedup_by_key_distinct [OF inj_phys_iq_index])
  let ?k = "\<lambda>w. (phys_iq_index (snd (snd w)), rob_age_rank (fst (snd w)) rob)"
  let ?xs = "sort_key ?k (ready_entries cycle ptr iq uops)"
  have "sorted (map ?k ?xs)" by (rule sorted_sort_key)
  then show "sorted (map (\<lambda>x. phys_iq_index (snd (snd x))) ?xs)"
    unfolding sorted_map by (rule sorted_wrt_mono_rel [rotated]) auto
qed

lemma winners_oldest:
  assumes "(idx, seq, q) \<in> set (ready_entries cycle ptr iq uops)"
  shows "\<exists>i s. (i, s, q) \<in> set (ready_iq_winners cycle ptr iq uops rob) \<and>
           rob_age_rank s rob \<le> rob_age_rank seq rob"
proof -
  let ?xs = "sort_key (\<lambda>w. (phys_iq_index (snd (snd w)), rob_age_rank (fst (snd w)) rob))
         (ready_entries cycle ptr iq uops)"
  have "\<exists>y \<in> set (dedup_by_key (\<lambda>w. snd (snd w)) ?xs).
      snd (snd y) = snd (snd (idx, seq, q)) \<and>
      rob_age_rank (fst (snd y)) rob \<le> rob_age_rank (fst (snd (idx, seq, q))) rob"
    using assms by (intro dedup_by_key_first [OF inj_phys_iq_index]) auto
  then show ?thesis unfolding ready_iq_winners_eq by force
qed

lemma pick_candidates_spec:
  assumes "pick_candidates cs iq p1 = (iq', p1')" and "distinct (iq_seqs iq)"
    and "\<forall>(idx, seq) \<in> set cs. idx < length iq \<and> iq_seqs iq ! idx = seq"
  shows "p1' = p1 @ map snd (take (ISSUE_WIDTH - length p1) cs) \<and>
         iq' = set_inflight True (set (map snd (take (ISSUE_WIDTH - length p1) cs))) iq"
  using assms
proof (induction cs iq p1 rule: pick_candidates.induct)
  case (1 iq p1)
  then show ?case by simp
next
  case (2 idx seq cs iq p1)
  show ?case
  proof (cases "ISSUE_WIDTH \<le> length p1")
    case True
    with "2.prems" show ?thesis by simp
  next
    case False
    let ?iq = "iq[idx := (iq ! idx)\<lparr>ie_inflight := True\<rparr>]"
    have upd: "?iq = set_inflight True {seq} iq"
      using "2.prems"(2,3) by (intro nth_equalityI)
        (auto simp: set_inflight_def nth_list_update iq_seqs_def distinct_conv_nth)
    obtain k where k: "ISSUE_WIDTH - length p1 = Suc k" "ISSUE_WIDTH - length (p1 @ [seq]) = k"
      using False by (metis Suc_diff_Suc length_append_singleton not_le)
    have "p1' = (p1 @ [seq]) @ map snd (take k cs) \<and>
         iq' = set_inflight True (set (map snd (take k cs))) ?iq"
      unfolding k(2) [symmetric] using "2.prems" False by (intro "2.IH") (auto simp: upd)
    then show ?thesis unfolding k(1) upd by (simp add: set_inflight_comp Un_commute)
  qed
qed

lemma pick_from_iq_spec:
  assumes "pick_from_iq cycle ptr iq uops p1 rob = (iq', p1')" and "distinct (iq_seqs iq)"
    and "pick_inv p1 i1 iq"
  obtains c where "p1' = p1 @ c" "iq' = set_inflight True (set c) iq" "pick_inv p1' i1 iq'"
    "length p1' \<le> max ISSUE_WIDTH (length p1)" "set c \<subseteq> set (iq_seqs iq)"
    "distinct (map (seq_queue iq) c)"
proof -
  let ?w = "ready_iq_winners cycle ptr iq uops rob"
  let ?cs = "sort_key (\<lambda>(_, seq). rob_age_rank seq rob) (map (\<lambda>(idx, seq, _). (idx, seq)) ?w)"
  let ?c = "map snd (take (ISSUE_WIDTH - length p1) ?cs)"
  have w: "idx < length iq \<and> iq_seqs iq ! idx = seq \<and> seq \<notin> set (inflight_seqs iq) \<and> seq_queue iq seq = Some q"
    if "(idx, seq, q) \<in> set ?w" for idx seq q
  proof -
    from that winners_subset have r: "(idx, seq, q) \<in> set (ready_entries cycle ptr iq uops)" by blast
    then have idx: "idx < length iq" "ie_seq (iq ! idx) = seq" "ie_phys_iq (iq ! idx) = q"
      "\<not> ie_inflight (iq ! idx)" by (simp_all add: in_ready_entries)
    have uniq: "i = idx" if "i < length iq" "ie_seq (iq ! i) = seq" for i
      using assms(2) idx that by (auto simp: iq_seqs_def distinct_conv_nth)
    have "\<forall>j < idx. ie_seq (iq ! j) \<noteq> seq"
      using uniq idx(1) by (metis less_trans less_irrefl)
    then have "find (\<lambda>entry. ie_seq entry = seq) iq = Some (iq ! idx)"
      unfolding find_Some_iff using idx by (intro exI [of _ idx]) simp
    moreover have "seq \<notin> set (inflight_seqs iq)"
    proof
      assume "seq \<in> set (inflight_seqs iq)"
      then obtain i where "i < length iq" "ie_seq (iq ! i) = seq" "ie_inflight (iq ! i)"
        unfolding inflight_seqs_def by (auto simp: in_set_conv_nth [of _ iq])
      with uniq [of i] idx(4) show False by simp
    qed
    ultimately show ?thesis using idx by (simp add: iq_seqs_def seq_queue_def)
  qed
  have cs: "\<forall>(idx, seq) \<in> set ?cs. idx < length iq \<and> iq_seqs iq ! idx = seq" using w by auto
  have spec: "p1' = p1 @ ?c" "iq' = set_inflight True (set ?c) iq"
    using pick_candidates_spec [OF assms(1) [unfolded pick_from_iq_def] assms(2) cs] by auto
  have perm: "mset (map snd ?cs) = mset (map (\<lambda>(idx, seq, q). seq) ?w)"
    by (simp add: case_prod_beta' image_mset.compositionality o_def)
  have eq: "map (seq_queue iq) (map (\<lambda>(idx, seq, q). seq) ?w) = map Some (map (\<lambda>w. snd (snd w)) ?w)"
    using w by auto
  have "distinct (map (seq_queue iq) (map (\<lambda>(idx, seq, q). seq) ?w))"
    unfolding eq using winners_one_per_queue [of cycle ptr iq uops rob]
    by (subst distinct_map) simp
  then have q: "distinct (map (seq_queue iq) (map snd ?cs))"
    using mset_eq_imp_distinct_iff [OF arg_cong [OF perm, of "image_mset (seq_queue iq)", folded mset_map]] by simp
  then have q': "distinct (map (seq_queue iq) ?c)"
    by (metis distinct_take take_map)
  then have "distinct ?c" unfolding distinct_map [of "seq_queue iq"] ..
  moreover have fresh: "set ?c \<subseteq> set (iq_seqs iq) - set (inflight_seqs iq)"
    using w by (fastforce simp: iq_seqs_def in_set_conv_nth dest!: in_set_takeD)
  ultimately have pick: "pick_inv p1' i1 iq'"
    using assms(3) unfolding pick_inv_def spec inflight_set_True by auto
  have "length p1' \<le> max ISSUE_WIDTH (length p1)" by (auto simp: spec(1) min_def)
  moreover have "set ?c \<subseteq> set (iq_seqs iq)" using fresh by blast
  ultimately show thesis using that [OF spec pick] q' by blast
qed

section \<open>The load-generation vector is the union over all transitive producers\<close>

definition dep_edges :: "CycleUop list \<Rightarrow> (usize \<times> usize) set" where
  "dep_edges uops = {(s, d). s < length uops \<and> (fst (uo_deps (uops ! s)) = Some d \<or> snd (uo_deps (uops ! s)) = Some d)}"

definition deps_backward :: "CycleUop list \<Rightarrow> bool" where
  "deps_backward uops = list_all (\<lambda>s. list_all (\<lambda>d. case d of None \<Rightarrow> True | Some p \<Rightarrow> p < s)
     [fst (uo_deps (uops ! s)), snd (uo_deps (uops ! s))]) [0 ..< length uops]"

definition gen_bits :: "usize \<Rightarrow> cyc \<Rightarrow> CycleUop list \<Rightarrow> nat \<Rightarrow> bool" where
  "gen_bits seq cycle uops n \<longleftrightarrow> (\<exists>d. (seq, d) \<in> (dep_edges uops)\<^sup>* \<and> bit (current_load_stage_mask d cycle uops) n)"

definition memo_ok :: "cyc \<Rightarrow> CycleUop list \<Rightarrow> u8 option list \<Rightarrow> bool" where
  "memo_ok cycle uops memo =
     (length memo = length uops \<and> (\<forall>i < length uops. \<forall>m. memo ! i = Some m \<longrightarrow> bit m = gen_bits i cycle uops))"

lemma deps_backward_less:
  assumes "deps_backward uops" and "s < length uops"
  shows "fst (uo_deps (uops ! s)) = Some d \<Longrightarrow> d < s" "snd (uo_deps (uops ! s)) = Some d \<Longrightarrow> d < s"
proof -
  have "\<forall>p. fst (uo_deps (uops ! s)) = Some p \<or> snd (uo_deps (uops ! s)) = Some p \<longrightarrow> p < s"
  proof -
    have "s \<in> set [0 ..< length uops]" using assms(2) by simp
    with assms(1) have "list_all (\<lambda>d. case d of None \<Rightarrow> True | Some p \<Rightarrow> p < s)
        [fst (uo_deps (uops ! s)), snd (uo_deps (uops ! s))]" unfolding deps_backward_def list_all_iff [of _ "[0 ..< length uops]"] by blast
    then show ?thesis by auto
  qed
  then show "fst (uo_deps (uops ! s)) = Some d \<Longrightarrow> d < s" "snd (uo_deps (uops ! s)) = Some d \<Longrightarrow> d < s" by blast+
qed

lemma built_deps_backward:
  assumes "build_uops cs ds = Some uops" shows "deps_backward uops"
proof -
  have "(case spec_dep cs ds s i of None \<Rightarrow> True | Some p \<Rightarrow> p < s)" for s i
    using spec_dep_producer [of cs ds s i] by (auto split: option.split)
  then show ?thesis using build_uops_nth(1) [OF assms] by (simp add: deps_backward_def list_all_iff)
qed

lemma gen_bits_unfold:
  assumes "seq < length uops"
  shows "gen_bits seq cycle uops n \<longleftrightarrow> bit (current_load_stage_mask seq cycle uops) n \<or>
    (case fst (uo_deps (uops ! seq)) of None \<Rightarrow> False | Some d \<Rightarrow> gen_bits d cycle uops n) \<or>
    (case snd (uo_deps (uops ! seq)) of None \<Rightarrow> False | Some d \<Rightarrow> gen_bits d cycle uops n)"
proof -
  have "(seq, d) \<in> (dep_edges uops)\<^sup>* \<longleftrightarrow> d = seq \<or> (\<exists>e. (seq, e) \<in> dep_edges uops \<and> (e, d) \<in> (dep_edges uops)\<^sup>*)" for d
    by (metis converse_rtranclE rtrancl.rtrancl_refl converse_rtrancl_into_rtrancl)
  then have "gen_bits seq cycle uops n \<longleftrightarrow> bit (current_load_stage_mask seq cycle uops) n \<or>
      (\<exists>e. (seq, e) \<in> dep_edges uops \<and> gen_bits e cycle uops n)" unfolding gen_bits_def by metis
  also have "(\<exists>e. (seq, e) \<in> dep_edges uops \<and> gen_bits e cycle uops n) \<longleftrightarrow>
    (case fst (uo_deps (uops ! seq)) of None \<Rightarrow> False | Some d \<Rightarrow> gen_bits d cycle uops n) \<or>
    (case snd (uo_deps (uops ! seq)) of None \<Rightarrow> False | Some d \<Rightarrow> gen_bits d cycle uops n)"
    using assms by (auto simp: dep_edges_def split: option.split)
  finally show ?thesis .
qed

lemma dep_load_gen_vec_inner_correct:
  assumes "deps_backward uops" and "seq < length uops" and "seq < fuel" and "memo_ok cycle uops memo"
  shows "\<exists>m memo'. dep_load_gen_vec_inner fuel seq cycle uops memo = Some (m, memo') \<and>
           bit m = gen_bits seq cycle uops \<and> memo_ok cycle uops memo'"
  using assms(2-)
proof (induction fuel arbitrary: seq memo)
  case (Suc fuel)
  define visit where "visit = (\<lambda>dep acc. case acc of None \<Rightarrow> None
      | Some (msk :: u8, m) \<Rightarrow> (case dep of None \<Rightarrow> Some (msk, m)
          | Some d \<Rightarrow> (case dep_load_gen_vec_inner fuel d cycle uops m of None \<Rightarrow> None
              | Some (dmask, m') \<Rightarrow> Some (msk OR dmask, m'))))"
  have visit: "\<exists>msk' m'. visit dep (Some (msk, m)) = Some (msk', m') \<and> memo_ok cycle uops m' \<and>
      bit msk' = (\<lambda>n. bit msk n \<or> (case dep of None \<Rightarrow> False | Some d \<Rightarrow> gen_bits d cycle uops n))"
    if "memo_ok cycle uops m" "\<And>d. dep = Some d \<Longrightarrow> d < seq" for dep msk m
  proof (cases dep)
    case None
    then show ?thesis using that by (simp add: visit_def)
  next
    case (Some d)
    with that Suc.prems have "d < length uops" "d < fuel" by fastforce+
    from Suc.IH [OF this that(1)] obtain dm m' where "dep_load_gen_vec_inner fuel d cycle uops m = Some (dm, m')"
      "bit dm = gen_bits d cycle uops" "memo_ok cycle uops m'" by blast
    then show ?thesis by (simp add: visit_def Some fun_eq_iff bit_or_iff)
  qed
  show ?case
  proof (cases "memo ! seq")
    case None
    let ?m0 = "current_load_stage_mask seq cycle uops"
    note bk = deps_backward_less [OF assms(1) Suc.prems(1)]
    obtain m1 memo1 where v1: "visit (fst (uo_deps (uops ! seq))) (Some (?m0, memo)) = Some (m1, memo1)" "memo_ok cycle uops memo1"
      "bit m1 = (\<lambda>n. bit ?m0 n \<or> (case fst (uo_deps (uops ! seq)) of None \<Rightarrow> False | Some d \<Rightarrow> gen_bits d cycle uops n))"
      using visit [OF Suc.prems(3) bk(1)] by blast
    obtain m2 memo2 where v2: "visit (snd (uo_deps (uops ! seq))) (Some (m1, memo1)) = Some (m2, memo2)" "memo_ok cycle uops memo2"
      "bit m2 = (\<lambda>n. bit m1 n \<or> (case snd (uo_deps (uops ! seq)) of None \<Rightarrow> False | Some d \<Rightarrow> gen_bits d cycle uops n))"
      using visit [OF v1(2) bk(2)] by blast
    have run: "dep_load_gen_vec_inner (Suc fuel) seq cycle uops memo = Some (m2, memo2[seq := Some m2])"
      using Suc.prems(1) None v1(1) v2(1) by (simp add: Let_def visit_def)
    have bits: "bit m2 = gen_bits seq cycle uops"
      unfolding v2(3) v1(3) using gen_bits_unfold [OF Suc.prems(1), of cycle] by (auto simp: fun_eq_iff)
    have "memo_ok cycle uops (memo2[seq := Some m2])"
      unfolding memo_ok_def
    proof (intro conjI allI impI)
      show "length (memo2[seq := Some m2]) = length uops" using v2(2) by (simp add: memo_ok_def)
      fix i m assume "i < length uops" "memo2[seq := Some m2] ! i = Some m"
      then show "bit m = gen_bits i cycle uops"
        using v2(2) bits Suc.prems(1) by (cases "i = seq") (simp_all add: memo_ok_def)
    qed
    with run bits show ?thesis by blast
  next
    case (Some m)
    with Suc.prems show ?thesis by (auto simp: memo_ok_def)
  qed
qed simp

text \<open>C34: the load-generation vector always exists and is exact. For a trace whose dependencies point
  to older uops the memoised recursion never runs out of depth, and the vector has a bit set exactly
  when some uop among the uop itself and its transitive producers is a load in that stage now.\<close>

theorem dep_load_gen_vec_exact:
  assumes "seq < length uops" and "deps_backward uops"
  shows "\<exists>m. dep_load_gen_vec seq cycle uops = Some m \<and>
           (\<forall>n. bit m n \<longleftrightarrow> (\<exists>d. (seq, d) \<in> (dep_edges uops)\<^sup>* \<and> bit (current_load_stage_mask d cycle uops) n))"
proof -
  have "memo_ok cycle uops (replicate (length uops) None)" by (simp add: memo_ok_def)
  from dep_load_gen_vec_inner_correct [OF assms(2,1) assms(1) this] show ?thesis
    by (auto simp: dep_load_gen_vec_def gen_bits_def fun_eq_iff)
qed

lemma dep_load_gen_vec_exact_witness:
  "\<exists>m. dep_load_gen_vec 1 0 [spec_uop queue_pair_commits queue_pair_decoded 0, spec_uop queue_pair_commits queue_pair_decoded 1] = Some m"
  using dep_load_gen_vec_exact [OF _ built_deps_backward [OF queue_pair_builds], of 1 0] by auto

section \<open>Pick and arbitration\<close>

text \<open>Every issue queue offers its oldest ready entry. Each winner is an entry of its queue that is
  ready and not already picked, no queue has two winners, and a queue with a ready entry has a
  winner at least as old in the reorder buffer.\<close>

theorem winners_oldest_ready:
  assumes "idx < length iq" and "\<not> ie_inflight (iq ! idx)" and "iq_entry_ready_from_state (iq ! idx) cycle ptr uops"
  shows "distinct (map (\<lambda>(_, _, q). q) (ready_iq_winners cycle ptr iq uops rob)) \<and>
         list_all (\<lambda>(i, s, q). i < length iq \<and> s = ie_seq (iq ! i) \<and> q = ie_phys_iq (iq ! i) \<and> \<not> ie_inflight (iq ! i) \<and>
                     iq_entry_ready_from_state (iq ! i) cycle ptr uops) (ready_iq_winners cycle ptr iq uops rob) \<and>
         (\<exists>i s. (i, s, ie_phys_iq (iq ! idx)) \<in> set (ready_iq_winners cycle ptr iq uops rob) \<and>
                rob_age_rank s rob \<le> rob_age_rank (ie_seq (iq ! idx)) rob)"
proof -
  have "distinct (map (\<lambda>(_, _, q). q) (ready_iq_winners cycle ptr iq uops rob))"
    using winners_one_per_queue [of cycle ptr iq uops rob] by (simp add: case_prod_beta' del: distinct_map)
  moreover have "list_all (\<lambda>(i, s, q). i < length iq \<and> s = ie_seq (iq ! i) \<and> q = ie_phys_iq (iq ! i) \<and> \<not> ie_inflight (iq ! i) \<and>
                     iq_entry_ready_from_state (iq ! i) cycle ptr uops) (ready_iq_winners cycle ptr iq uops rob)"
    using winners_subset [of cycle ptr iq uops rob] in_ready_entries [of _ _ _ cycle ptr iq uops] by (auto simp: list_all_iff)
  moreover have "(idx, ie_seq (iq ! idx), ie_phys_iq (iq ! idx)) \<in> set (ready_entries cycle ptr iq uops)"
    using assms by (simp add: in_ready_entries)
  ultimately show ?thesis using winners_oldest by blast
qed

text \<open>Arbitration into I1. The uops admitted need at most three register read ports together and
  come from different issue queues; every picked uop is either admitted or returned to its queue,
  where its entry can be picked again; afterwards the entries marked in flight are again exactly the
  uops held in P1 and I1.\<close>

theorem arbitrate_i1_ports:
  assumes "arbitrate_i1 cycle p1 iq uops rob = (admitted, iq')" and "pick_inv p1 i1 iq" and "distinct (map ie_seq iq)"
  shows "sum_list (map (seq_ports iq cycle uops) admitted) \<le> READ_PORTS \<and> distinct (map (seq_queue iq) admitted) \<and>
         (\<exists>returned. mset admitted + mset returned = mset p1 \<and> iq' = set_inflight False (set returned) iq) \<and>
         pick_inv admitted i1 iq'"
proof -
  have "distinct (iq_seqs iq)" using assms(3) by (simp add: iq_seqs_def)
  from arbitrate_i1_spec [OF assms(1,2) this] show ?thesis by metis
qed

definition fresh_entry :: IqEntry where
  "fresh_entry = \<lparr>ie_seq = 0, ie_phys_iq = AluIq0, ie_inflight = False, ie_src_valid = (False, False),
     ie_src_ready_nonspec = (False, False), ie_src_ready_spec = (False, False), ie_src_wait_qtag = (False, False)\<rparr>"

lemma winners_oldest_ready_witness:
  "\<exists>i s. (i, s, AluIq0) \<in> set (ready_iq_winners 0 0 [fresh_entry] [spec_uop queue_pair_commits queue_pair_decoded 0] [0])"
proof -
  let ?u = "[spec_uop queue_pair_commits queue_pair_decoded 0]"
  have "spec_dep queue_pair_commits queue_pair_decoded 0 i = None" for i
    using spec_dep_producer [of queue_pair_commits queue_pair_decoded 0 i] by (cases "spec_dep queue_pair_commits queue_pair_decoded 0 i") auto
  then have d: "uo_deps (?u ! 0) = (None, None)" "uo_load_store_id (?u ! 0) = None"
    by (simp_all add: sample_defs commit_is_load_def commit_is_store_def then_some_def)
  have "iq_entry_ready_from_state fresh_entry 0 0 ?u"
    using d by (simp add: iq_entry_ready_from_state_def iq_entry_wait_cause_from_state_def lsid_issue_ready_def
        source_wait_cause_def fresh_entry_def at2_def Let_def then_some_def)
  from winners_oldest_ready [of 0 "[fresh_entry]" 0 0 ?u "[0]"] this show ?thesis by (auto simp: fresh_entry_def)
qed

lemma arbitrate_i1_ports_witness:
  "distinct (map (seq_queue [fresh_entry\<lparr>ie_inflight := True\<rparr>])
     (fst (arbitrate_i1 0 [0] [fresh_entry\<lparr>ie_inflight := True\<rparr>] [spec_uop queue_pair_commits queue_pair_decoded 0] [0])))"
  using arbitrate_i1_ports [OF surjective_pairing, of "[0]" "[]" "[fresh_entry\<lparr>ie_inflight := True\<rparr>]"]
  by (simp add: pick_inv_def inflight_seqs_def fresh_entry_def)

end
