(* ===== verification/Lsu.thy ===== *)
theory Lsu
  imports Iq_Select
begin

text \<open>
  Execute and the load-store unit (\<^verbatim>\<open>crates/camodel/src/backend/lsu/mod.rs\<close>), with the
  I2 to E1 issue step of \<^verbatim>\<open>issue/select/mod.rs\<close> that fills its queues: the E1..W2 pipes,
  load-miss injection and replay through the LIQ and MDB, the in-order L1D port gated by
  \<open>lsid_cache_ptr\<close>, the store-commit buffer and store-to-load forwarding visibility.
\<close>

section \<open>Queue helpers\<close>

definition lhq_insert :: "usize list \<Rightarrow> usize \<Rightarrow> usize list" where
  "lhq_insert lhq seq = (if seq \<in> set lhq then lhq else lhq @ [seq])"

definition stq_insert :: "usize list \<Rightarrow> usize \<Rightarrow> usize list" where
  "stq_insert stq seq = (if seq \<in> set stq then stq else stq @ [seq])"

definition remove_queue_entry :: "usize list \<Rightarrow> usize \<Rightarrow> usize list" where
  "remove_queue_entry queue seq = filter (\<lambda>entry_seq. entry_seq \<noteq> seq) queue"

definition remove_mdb_entry :: "MdbEntry list \<Rightarrow> usize \<Rightarrow> MdbEntry list" where
  "remove_mdb_entry mdb seq = filter (\<lambda>entry. md_seq entry \<noteq> seq) mdb"

fun lsu_advance_simple :: "usize list \<Rightarrow> usize list \<Rightarrow> nat \<Rightarrow> usize list \<times> usize list" where
  "lsu_advance_simple dst [] cap = (dst, [])"
| "lsu_advance_simple dst (seq # src) cap =
     (if length dst < cap then lsu_advance_simple (dst @ [seq]) src cap else (dst, seq # src))"

definition load_slot_available :: "usize list \<Rightarrow> CycleUop list \<Rightarrow> bool" where
  "load_slot_available queue uops =
     (length (filter (\<lambda>seq. uo_is_load (uops ! seq)) queue) < LSU_WIDTH)"

definition e1_can_accept :: "usize \<Rightarrow> usize list \<Rightarrow> CycleUop list \<Rightarrow> bool" where
  "e1_can_accept seq e1 uops =
     (length e1 < ISSUE_WIDTH \<and> (\<not> uo_is_load (uops ! seq) \<or> load_slot_available e1 uops))"

definition can_accept_l1d :: "L1dEntry list \<Rightarrow> bool" where
  "can_accept_l1d l1d = (length l1d < L1D_WIDTH)"

definition lsid_cache_ready :: "usize \<Rightarrow> usize \<Rightarrow> CycleUop list \<Rightarrow> bool" where
  "lsid_cache_ready seq lsid_cache_ptr uops =
     (case uo_load_store_id (uops ! seq) of None \<Rightarrow> True
      | Some load_store_id \<Rightarrow> load_store_id = lsid_cache_ptr)"

section \<open>Issue from I2\<close>

record i2_state =
  is_e1 :: "usize list"
  is_lhq :: "usize list"
  is_stq :: "usize list"
  is_issue_ptr :: usize
  is_complete_ptr :: usize

fun advance_i2_loop ::
  "cyc \<Rightarrow> CycleUop list \<Rightarrow> usize list \<Rightarrow> usize list \<Rightarrow> i2_state \<Rightarrow> usize list \<times> i2_state" where
  "advance_i2_loop cycle uops [] stay st = (stay, st)"
| "advance_i2_loop cycle uops (seq # i2) stay st =
     (if i2_issue_eligible seq cycle (is_issue_ptr st) uops \<and> e1_can_accept seq (is_e1 st) uops
      then advance_i2_loop cycle uops i2 stay
        \<lparr>is_e1 = is_e1 st @ [seq],
         is_lhq = (if uo_is_load (uops ! seq) then lhq_insert (is_lhq st) seq else is_lhq st),
         is_stq = (if \<not> uo_is_load (uops ! seq) \<and> uo_is_store (uops ! seq)
                   then stq_insert (is_stq st) seq else is_stq st),
         is_issue_ptr = (if uo_load_store_id (uops ! seq) \<noteq> None
                         then is_issue_ptr st + 1 else is_issue_ptr st),
         is_complete_ptr = (if uo_load_store_id (uops ! seq) \<noteq> None
                            then is_complete_ptr st + 1 else is_complete_ptr st)\<rparr>
      else advance_i2_loop cycle uops i2 (stay @ [seq]) st)"

definition advance_i2 :: "cyc \<Rightarrow> StageQueues \<Rightarrow> CycleUop list \<Rightarrow> StageQueues" where
  "advance_i2 cycle p uops =
     (let (stay, st) = advance_i2_loop cycle uops (sq_i2 p) []
            \<lparr>is_e1 = sq_e1 p, is_lhq = sq_lhq p, is_stq = sq_stq p,
             is_issue_ptr = sq_lsid_issue_ptr p, is_complete_ptr = sq_lsid_complete_ptr p\<rparr>
      in p\<lparr>sq_i2 := stay, sq_e1 := is_e1 st, sq_lhq := is_lhq st, sq_stq := is_stq st,
           sq_lsid_issue_ptr := is_issue_ptr st, sq_lsid_complete_ptr := is_complete_ptr st\<rparr>)"

section \<open>The execute pipes\<close>

definition inject_miss :: "cyc \<Rightarrow> CycleUop \<Rightarrow> CycleUop" where
  "inject_miss restart_cycle uop =
     uop\<lparr>uo_miss_injected := True, uo_miss_pending_until := Some restart_cycle,
         uo_pick_wakeup_visible := None, uo_data_ready_visible := None,
         uo_e1_cycle := None, uo_e4_cycle := None, uo_w1_cycle := None, uo_done_cycle := None\<rparr>"

fun e4_loop ::
  "cyc \<Rightarrow> CycleRunOptions \<Rightarrow> usize list \<Rightarrow> usize list \<Rightarrow> StageQueues \<Rightarrow> CycleUop list \<Rightarrow>
   usize list \<times> StageQueues \<times> CycleUop list" where
  "e4_loop cycle options [] stay_e4 p uops = (stay_e4, p, uops)"
| "e4_loop cycle options (seq # prev_e4) stay_e4 p uops =
     (if should_inject_load_miss seq options uops
      then let restart_cycle = sat_add cycle (max (opt_load_miss_penalty options) 1)
           in e4_loop cycle options prev_e4 stay_e4
                (p\<lparr>sq_liq := sq_liq p @ [\<lparr>lq_seq = seq, lq_refill_ready_cycle = restart_cycle\<rparr>],
                   sq_mdb := sq_mdb p @ [\<lparr>md_seq = seq, md_refill_ready_cycle = restart_cycle\<rparr>],
                   sq_lhq := remove_queue_entry (sq_lhq p) seq\<rparr>)
                (uops[seq := inject_miss restart_cycle (uops ! seq)])
      else if lsid_cache_ready seq (sq_lsid_cache_ptr p) uops \<and> can_accept_l1d (sq_l1d p)
      then e4_loop cycle options prev_e4 stay_e4
             (p\<lparr>sq_l1d := sq_l1d p @
                  [\<lparr>l1_seq = seq, l1_kind = LoadHit, l1_ready_cycle = sat_add cycle 1\<rparr>]\<rparr>)
             (uops[seq := (uops ! seq)\<lparr>uo_miss_pending_until := None\<rparr>])
      else e4_loop cycle options prev_e4 (stay_e4 @ [seq]) p uops)"

fun e1_loop ::
  "CycleUop list \<Rightarrow> usize list \<Rightarrow> usize list \<Rightarrow> usize list \<Rightarrow> usize list \<Rightarrow>
   usize list \<times> usize list \<times> usize list" where
  "e1_loop uops [] stay_e1 e2 w1 = (stay_e1, e2, w1)"
| "e1_loop uops (seq # prev_e1) stay_e1 e2 w1 =
     (if uo_is_load (uops ! seq) then
        (if length e2 < LSU_WIDTH then e1_loop uops prev_e1 stay_e1 (e2 @ [seq]) w1
         else e1_loop uops prev_e1 (stay_e1 @ [seq]) e2 w1)
      else if length w1 < ISSUE_WIDTH then e1_loop uops prev_e1 stay_e1 e2 (w1 @ [seq])
      else e1_loop uops prev_e1 (stay_e1 @ [seq]) e2 w1)"

definition advance_execute ::
  "cyc \<Rightarrow> StageQueues \<Rightarrow> CycleUop list \<Rightarrow> CycleRunOptions \<Rightarrow> StageQueues \<times> CycleUop list" where
  "advance_execute cycle p uops options =
     (let (w2, w1) = lsu_advance_simple [] (sq_w1 p) ISSUE_WIDTH;
          p1 = p\<lparr>sq_w2 := w2, sq_w1 := w1\<rparr>;
          (stay_e4, p2, uops') = e4_loop cycle options (sq_e4 p1) [] p1 uops;
          (e4, e3) = lsu_advance_simple stay_e4 (sq_e3 p2) LSU_WIDTH;
          (e3', e2) = lsu_advance_simple e3 (sq_e2 p2) LSU_WIDTH;
          (stay_e1, e2', w1') = e1_loop uops' (sq_e1 p2) [] e2 (sq_w1 p2)
      in (p2\<lparr>sq_e4 := e4, sq_e3 := e3', sq_e2 := e2', sq_w1 := w1', sq_e1 := stay_e1\<rparr>, uops'))"

section \<open>Miss replay, the L1D port and the store-commit buffer\<close>

definition liq_eligible :: "cyc \<Rightarrow> usize \<Rightarrow> CycleUop list \<Rightarrow> LiqEntry \<Rightarrow> bool" where
  "liq_eligible cycle lsid_cache_ptr uops entry =
     (lq_refill_ready_cycle entry \<le> cycle \<and> lsid_cache_ready (lq_seq entry) lsid_cache_ptr uops)"

definition remove_at :: "nat \<Rightarrow> 'a list \<Rightarrow> 'a list" where
  "remove_at i xs = take i xs @ drop (Suc i) xs"

definition advance_liq ::
  "cyc \<Rightarrow> StageQueues \<Rightarrow> CycleUop list \<Rightarrow> usize list \<Rightarrow> StageQueues \<times> CycleUop list" where
  "advance_liq cycle p uops rob =
     (if \<not> load_slot_available (sq_e1 p) uops then (p, uops)
      else case min_by_key (\<lambda>(_, entry). rob_age_rank (lq_seq entry) rob)
             (filter (\<lambda>(_, entry). liq_eligible cycle (sq_lsid_cache_ptr p) uops entry)
               (enumerate 0 (sq_liq p))) of
        None \<Rightarrow> (p, uops)
      | Some (selected_idx, selected) \<Rightarrow>
          (p\<lparr>sq_lhq := lhq_insert (sq_lhq p) (lq_seq selected),
             sq_mdb := remove_mdb_entry (sq_mdb p) (lq_seq selected),
             sq_e1 := sq_e1 p @ [lq_seq selected],
             sq_liq := remove_at selected_idx (sq_liq p)\<rparr>,
           uops[lq_seq selected := (uops ! lq_seq selected)\<lparr>uo_miss_pending_until := None\<rparr>]))"

fun l1d_loop :: "cyc \<Rightarrow> L1dEntry list \<Rightarrow> StageQueues \<Rightarrow> StageQueues" where
  "l1d_loop cycle [] p = p"
| "l1d_loop cycle (entry # remaining) p =
     (if cycle < l1_ready_cycle entry
      then l1d_loop cycle remaining (p\<lparr>sq_l1d := sq_l1d p @ [entry]\<rparr>)
      else case l1_kind entry of
        LoadHit \<Rightarrow>
          if length (sq_w1 p) < ISSUE_WIDTH
          then l1d_loop cycle remaining
                 (p\<lparr>sq_lhq := remove_queue_entry (sq_lhq p) (l1_seq entry),
                    sq_w1 := sq_w1 p @ [l1_seq entry],
                    sq_lsid_cache_ptr := sat_add (sq_lsid_cache_ptr p) 1\<rparr>)
          else l1d_loop cycle remaining (p\<lparr>sq_l1d := sq_l1d p @ [entry]\<rparr>)
      | StoreDrain \<Rightarrow>
          l1d_loop cycle remaining (p\<lparr>sq_lsid_cache_ptr := sat_add (sq_lsid_cache_ptr p) 1\<rparr>))"

definition advance_l1d :: "cyc \<Rightarrow> StageQueues \<Rightarrow> StageQueues" where
  "advance_l1d cycle p = l1d_loop cycle (sq_l1d p) (p\<lparr>sq_l1d := []\<rparr>)"

definition scb_entry_drain_ready :: "ScbEntry \<Rightarrow> cyc \<Rightarrow> bool" where
  "scb_entry_drain_ready entry cycle = (sc_enqueue_cycle entry < cycle)"

function scb_loop ::
  "cyc \<Rightarrow> CycleUop list \<Rightarrow> usize \<Rightarrow> ScbEntry list \<Rightarrow> L1dEntry list \<Rightarrow> ScbEntry list \<times> L1dEntry list" where
  "scb_loop cycle uops lsid_cache_ptr scb l1d =
     (if can_accept_l1d l1d
      then case position (\<lambda>entry. scb_entry_drain_ready entry cycle \<and>
                                   lsid_cache_ready (sc_seq entry) lsid_cache_ptr uops) scb of
             None \<Rightarrow> (scb, l1d)
           | Some idx \<Rightarrow>
               scb_loop cycle uops lsid_cache_ptr (remove_at idx scb)
                 (l1d @ [\<lparr>l1_seq = sc_seq (scb ! idx), l1_kind = StoreDrain,
                          l1_ready_cycle = sat_add cycle 1\<rparr>])
      else (scb, l1d))"
  by pat_completeness auto
termination
proof (relation "measure (\<lambda>(cycle, uops, ptr, scb, l1d). length scb)", goal_cases)
  case 1
  then show ?case by simp
next
  case (2 cycle uops ptr scb l1d x2)
  then show ?case by (auto simp: remove_at_def dest: position_Some)
qed

declare scb_loop.simps [simp del]

definition advance_scb :: "cyc \<Rightarrow> StageQueues \<Rightarrow> CycleUop list \<Rightarrow> StageQueues" where
  "advance_scb cycle p uops =
     (let (scb, l1d) = scb_loop cycle uops (sq_lsid_cache_ptr p) (sq_scb p) (sq_l1d p)
      in p\<lparr>sq_scb := scb, sq_l1d := l1d\<rparr>)"

section \<open>Store-to-load forwarding\<close>

definition store_matches_load :: "usize \<Rightarrow> usize \<Rightarrow> CycleUop list \<Rightarrow> bool" where
  "store_matches_load store_seq load_seq uops =
     (let store = uo_commit (uops ! store_seq); load = uo_commit (uops ! load_seq) in
      uo_is_store (uops ! store_seq) \<and> uo_is_load (uops ! load_seq) \<and>
      cr_mem_addr store = cr_mem_addr load \<and> cr_mem_size store = cr_mem_size load)"

definition load_forward_visible :: "usize \<Rightarrow> StageQueues \<Rightarrow> CycleUop list \<Rightarrow> bool" where
  "load_forward_visible seq p uops =
     (if \<not> uo_is_load (uops ! seq) then False
      else list_ex (\<lambda>store_seq. store_seq < seq \<and> store_matches_load store_seq seq uops) (sq_stq p) \<or>
           list_ex (\<lambda>entry. sc_seq entry < seq \<and> store_matches_load (sc_seq entry) seq uops) (sq_scb p) \<or>
           list_ex (\<lambda>entry. l1_kind entry = StoreDrain \<and> l1_seq entry < seq \<and>
                            store_matches_load (l1_seq entry) seq uops) (sq_l1d p))"

section \<open>Lemmas\<close>

interpretation lsu_mover: greedy_loop lsu_advance_simple
  by unfold_locales simp_all

lemmas lsu_advance_simple_closed [stage_simps] = lsu_mover.move_closed_form

section \<open>What the back end holds\<close>

text \<open>The loads travelling through the L1D port, and all uops between E1 and W2.\<close>

definition load_hits :: "L1dEntry list \<Rightarrow> usize list" where
  "load_hits l1d = map l1_seq (filter (\<lambda>e. l1_kind e = LoadHit) l1d)"

definition backend_seqs :: "StageQueues \<Rightarrow> usize multiset" where
  "backend_seqs p = mset (sq_e1 p) + mset (sq_e2 p) + mset (sq_e3 p) + mset (sq_e4 p) +
     mset (map lq_seq (sq_liq p)) + mset (load_hits (sq_l1d p)) + mset (sq_w1 p) + mset (sq_w2 p)"

text \<open>The fields the E4 loop may change.\<close>

definition lsu_update :: "StageQueues \<Rightarrow> StageQueues \<Rightarrow> StageQueues" where
  "lsu_update p q = p\<lparr>sq_liq := sq_liq q, sq_mdb := sq_mdb q, sq_lhq := sq_lhq q, sq_l1d := sq_l1d q\<rparr>"

text \<open>The state execute and the memory unit never touch.\<close>

definition front_view where
  "front_view p = (sq_frontend p, sq_frontend_redirect p, sq_pending_flush p, sq_pending_trap p,
     sq_iq_tags p, sq_iq_owner_table p, sq_qtag_wait_crossbar p, sq_ready_table_t p,
     sq_ready_table_u p, sq_p1 p, sq_i1 p, sq_i2 p)"

lemma load_hits_simps [simp]:
  "load_hits [] = []" "load_hits (xs @ ys) = load_hits xs @ load_hits ys"
  "load_hits (e # xs) = (if l1_kind e = LoadHit then l1_seq e # load_hits xs else load_hits xs)"
  by (simp_all add: load_hits_def)

lemma advance_i2_loop_conserves:
  "advance_i2_loop cycle uops i2 stay st = (stay', st') \<Longrightarrow>
     mset stay' + mset (is_e1 st') = mset i2 + mset stay + mset (is_e1 st)"
  by (induction cycle uops i2 stay st rule: advance_i2_loop.induct) (auto split: if_splits)

lemma advance_i2_frame [simp]:
  "sq_frontend (advance_i2 cycle p uops) = sq_frontend p"
  "sq_frontend_redirect (advance_i2 cycle p uops) = sq_frontend_redirect p"
  "sq_pending_flush (advance_i2 cycle p uops) = sq_pending_flush p"
  "sq_iq_tags (advance_i2 cycle p uops) = sq_iq_tags p"
  "sq_p1 (advance_i2 cycle p uops) = sq_p1 p" "sq_i1 (advance_i2 cycle p uops) = sq_i1 p"
  "sq_e2 (advance_i2 cycle p uops) = sq_e2 p" "sq_e3 (advance_i2 cycle p uops) = sq_e3 p"
  "sq_e4 (advance_i2 cycle p uops) = sq_e4 p" "sq_liq (advance_i2 cycle p uops) = sq_liq p"
  "sq_l1d (advance_i2 cycle p uops) = sq_l1d p" "sq_w1 (advance_i2 cycle p uops) = sq_w1 p"
  "sq_w2 (advance_i2 cycle p uops) = sq_w2 p" "sq_scb (advance_i2 cycle p uops) = sq_scb p"
  "sq_iq_owner_table (advance_i2 cycle p uops) = sq_iq_owner_table p"
  "sq_qtag_wait_crossbar (advance_i2 cycle p uops) = sq_qtag_wait_crossbar p"
  "sq_pending_trap (advance_i2 cycle p uops) = sq_pending_trap p"
  by (simp_all add: advance_i2_def case_prod_beta Let_def)

lemma advance_i2_conserves:
  "mset (sq_i2 (advance_i2 cycle p uops)) + backend_seqs (advance_i2 cycle p uops) =
     mset (sq_i2 p) + backend_seqs p"
proof -
  let ?st = "\<lparr>is_e1 = sq_e1 p, is_lhq = sq_lhq p, is_stq = sq_stq p,
             is_issue_ptr = sq_lsid_issue_ptr p, is_complete_ptr = sq_lsid_complete_ptr p\<rparr>"
  obtain stay st where loop: "advance_i2_loop cycle uops (sq_i2 p) [] ?st = (stay, st)" by fastforce
  from advance_i2_loop_conserves [OF loop]
  have "mset stay + mset (is_e1 st) = mset (sq_i2 p) + mset (sq_e1 p)" by simp
  then show ?thesis by (simp add: advance_i2_def loop backend_seqs_def Let_def)
qed

lemma e4_loop_conserves:
  "e4_loop cycle options e4 stay p uops = (stay', p', uops') \<Longrightarrow>
     mset stay' + mset (map lq_seq (sq_liq p')) + mset (load_hits (sq_l1d p')) =
     mset e4 + mset stay + mset (map lq_seq (sq_liq p)) + mset (load_hits (sq_l1d p))"
  by (induction cycle options e4 stay p uops rule: e4_loop.induct) (auto simp: Let_def split: if_splits)

lemma e4_loop_frame:
  "e4_loop cycle options e4 stay p uops = (stay', p', uops') \<Longrightarrow> p' = lsu_update p p'"
proof (induction cycle options e4 stay p uops rule: e4_loop.induct)
  case (1 cycle options stay_e4 p uops)
  then show ?case by (simp add: lsu_update_def)
next
  case (2 cycle options seq prev_e4 stay_e4 p uops)
  have upd: "lsu_update (p\<lparr>sq_liq := a, sq_mdb := b, sq_lhq := c\<rparr>) p' = lsu_update p p'"
    "lsu_update (p\<lparr>sq_l1d := d\<rparr>) p' = lsu_update p p'" for a b c d
    by (simp_all add: lsu_update_def)
  show ?case
  proof (cases "should_inject_load_miss seq options uops")
    case True
    with "2.prems" "2.IH"(1) [OF True refl] show ?thesis unfolding upd by (simp add: Let_def)
  next
    case False
    with 2 show ?thesis unfolding upd by (auto split: if_splits)
  qed
qed

lemma e1_loop_conserves:
  "e1_loop uops e1 stay e2 w1 = (stay', e2', w1') \<Longrightarrow>
     mset stay' + mset e2' + mset w1' = mset e1 + mset stay + mset e2 + mset w1"
  by (induction uops e1 stay e2 w1 rule: e1_loop.induct) (auto split: if_splits)

lemma advance_execute_conserves:
  assumes "advance_execute cycle p uops options = (p', uops')"
  shows "backend_seqs p' + mset (sq_w2 p) = backend_seqs p"
proof -
  obtain w2 w1 where w: "lsu_advance_simple [] (sq_w1 p) ISSUE_WIDTH = (w2, w1)" by fastforce
  let ?p1 = "p\<lparr>sq_w2 := w2, sq_w1 := w1\<rparr>"
  obtain stay p2 u2 where e4: "e4_loop cycle options (sq_e4 ?p1) [] ?p1 uops = (stay, p2, u2)"
    by (cases "e4_loop cycle options (sq_e4 ?p1) [] ?p1 uops") auto
  obtain e4' e3 where e3: "lsu_advance_simple stay (sq_e3 p2) LSU_WIDTH = (e4', e3)" by fastforce
  obtain e3' e2 where e2: "lsu_advance_simple e3 (sq_e2 p2) LSU_WIDTH = (e3', e2)" by fastforce
  obtain stay1 e2' w1' where e1: "e1_loop u2 (sq_e1 p2) [] e2 (sq_w1 p2) = (stay1, e2', w1')"
    by (cases "e1_loop u2 (sq_e1 p2) [] e2 (sq_w1 p2)") auto
  have p': "p' = p2\<lparr>sq_e4 := e4', sq_e3 := e3', sq_e2 := e2', sq_w1 := w1', sq_e1 := stay1\<rparr>"
    using assms unfolding advance_execute_def w Let_def prod.case e4 e3 e2 e1 by simp
  obtain liq mdb lhq l1d where
    p2: "p2 = ?p1\<lparr>sq_liq := liq, sq_mdb := mdb, sq_lhq := lhq, sq_l1d := l1d\<rparr>"
    using e4_loop_frame [OF e4] unfolding lsu_update_def by (rule that)
  have a: "mset w2 + mset w1 = mset (sq_w1 p)"
    using lsu_mover.move_mset [of "[]" "sq_w1 p" ISSUE_WIDTH] by (simp only: w fst_conv snd_conv) simp
  have b: "mset stay + mset (map lq_seq liq) + mset (load_hits l1d) =
      mset (sq_e4 p) + mset (map lq_seq (sq_liq p)) + mset (load_hits (sq_l1d p))"
    using e4_loop_conserves [OF e4] by (simp add: p2)
  have c: "mset e4' + mset e3 = mset stay + mset (sq_e3 p)"
    using lsu_mover.move_mset [of stay "sq_e3 p2" LSU_WIDTH] by (simp only: e3 fst_conv snd_conv) (simp add: p2)
  have d: "mset e3' + mset e2 = mset e3 + mset (sq_e2 p)"
    using lsu_mover.move_mset [of e3 "sq_e2 p2" LSU_WIDTH] by (simp only: e2 fst_conv snd_conv) (simp add: p2)
  have e: "mset stay1 + mset e2' + mset w1' = mset (sq_e1 p) + mset e2 + mset w1"
    using e1_loop_conserves [OF e1] by (simp add: p2)
  have "mset stay1 + mset e2' + mset e3' + mset e4' + mset (map lq_seq liq) +
      mset (load_hits l1d) + mset w1' + mset w2 =
      mset (sq_e1 p) + mset (sq_e2 p) + mset (sq_e3 p) + mset (sq_e4 p) +
      mset (map lq_seq (sq_liq p)) + mset (load_hits (sq_l1d p)) + mset (sq_w1 p)"
  proof (rule multiset_eqI)
    fix x
    show "count (mset stay1 + mset e2' + mset e3' + mset e4' + mset (map lq_seq liq) +
      mset (load_hits l1d) + mset w1' + mset w2) x =
      count (mset (sq_e1 p) + mset (sq_e2 p) + mset (sq_e3 p) + mset (sq_e4 p) +
      mset (map lq_seq (sq_liq p)) + mset (load_hits (sq_l1d p)) + mset (sq_w1 p)) x"
      using arg_cong [OF a, of "\<lambda>M. count M x"] arg_cong [OF b, of "\<lambda>M. count M x"]
        arg_cong [OF c, of "\<lambda>M. count M x"] arg_cong [OF d, of "\<lambda>M. count M x"]
        arg_cong [OF e, of "\<lambda>M. count M x"] unfolding count_union by linarith
  qed
  then show ?thesis by (simp add: backend_seqs_def p' p2 ac_simps)
qed

lemma front_view_fields:
  assumes "front_view q = front_view p"
  shows "sq_frontend q = sq_frontend p" "sq_frontend_redirect q = sq_frontend_redirect p"
    "sq_pending_flush q = sq_pending_flush p" "sq_pending_trap q = sq_pending_trap p"
    "sq_iq_tags q = sq_iq_tags p" "sq_iq_owner_table q = sq_iq_owner_table p"
    "sq_qtag_wait_crossbar q = sq_qtag_wait_crossbar p"
    "sq_p1 q = sq_p1 p" "sq_i1 q = sq_i1 p" "sq_i2 q = sq_i2 p"
  using assms by (simp_all add: front_view_def)

lemma front_view_advance_execute: "front_view (fst (advance_execute cycle p uops options)) = front_view p"
proof -
  obtain w2 w1 where w: "lsu_advance_simple [] (sq_w1 p) ISSUE_WIDTH = (w2, w1)" by fastforce
  let ?p1 = "p\<lparr>sq_w2 := w2, sq_w1 := w1\<rparr>"
  obtain stay p2 u2 where e4: "e4_loop cycle options (sq_e4 ?p1) [] ?p1 uops = (stay, p2, u2)"
    by (cases "e4_loop cycle options (sq_e4 ?p1) [] ?p1 uops") auto
  have "front_view p2 = front_view p"
    using arg_cong [OF e4_loop_frame [OF e4], of front_view]
    by (simp add: lsu_update_def front_view_def)
  then show ?thesis unfolding advance_execute_def w Let_def prod.case e4
    by (simp add: case_prod_beta front_view_def)
qed

lemma l1d_loop_conserves:
  "mset (sq_w1 (l1d_loop cycle l1d p)) + mset (load_hits (sq_l1d (l1d_loop cycle l1d p))) =
     mset (sq_w1 p) + mset (load_hits l1d) + mset (load_hits (sq_l1d p))"
  by (induction cycle l1d p rule: l1d_loop.induct) (auto split: L1dTxnKind.splits)

lemma l1d_loop_front: "front_view (l1d_loop cycle l1d p) = front_view p"
proof (induction cycle l1d p rule: l1d_loop.induct)
  case (2 cycle entry remaining p)
  have "front_view (p\<lparr>sq_l1d := a\<rparr>) = front_view p" "front_view (p\<lparr>sq_lsid_cache_ptr := b\<rparr>) = front_view p"
    "front_view (p\<lparr>sq_lhq := c, sq_w1 := d, sq_lsid_cache_ptr := b\<rparr>) = front_view p" for a b c d
    by (simp_all add: front_view_def)
  with 2 show ?case by (simp split: L1dTxnKind.split)
qed simp

lemma l1d_loop_frame:
  "sq_e1 (l1d_loop cycle l1d p) = sq_e1 p" "sq_e2 (l1d_loop cycle l1d p) = sq_e2 p"
  "sq_e3 (l1d_loop cycle l1d p) = sq_e3 p" "sq_e4 (l1d_loop cycle l1d p) = sq_e4 p"
  "sq_liq (l1d_loop cycle l1d p) = sq_liq p" "sq_w2 (l1d_loop cycle l1d p) = sq_w2 p"
  "sq_scb (l1d_loop cycle l1d p) = sq_scb p" "sq_stq (l1d_loop cycle l1d p) = sq_stq p"
  "sq_mdb (l1d_loop cycle l1d p) = sq_mdb p"
  by (induction cycle l1d p rule: l1d_loop.induct) (simp_all split: L1dTxnKind.split)

lemma front_view_advance_l1d: "front_view (advance_l1d cycle p) = front_view p"
  by (simp add: advance_l1d_def l1d_loop_front) (simp add: front_view_def)

lemma advance_l1d_conserves: "backend_seqs (advance_l1d cycle p) = backend_seqs p"
proof -
  let ?q = "l1d_loop cycle (sq_l1d p) (p\<lparr>sq_l1d := []\<rparr>)"
  have "mset (load_hits (sq_l1d ?q)) + mset (sq_w1 ?q) = mset (load_hits (sq_l1d p)) + mset (sq_w1 p)"
    using l1d_loop_conserves [of cycle "sq_l1d p" "p\<lparr>sq_l1d := []\<rparr>"] by (simp add: add.commute)
  then show ?thesis unfolding advance_l1d_def backend_seqs_def l1d_loop_frame
    by (simp add: add.assoc)
qed

lemma mset_remove_at: "i < length xs \<Longrightarrow> add_mset (xs ! i) (mset (remove_at i xs)) = mset xs"
  by (subst (3) id_take_nth_drop [of i xs]) (auto simp: remove_at_def)

lemma map_remove_at: "map f (remove_at i xs) = remove_at i (map f xs)"
  by (simp add: remove_at_def take_map drop_map)

lemma liq_selection:
  assumes "min_by_key f (filter Q (enumerate 0 xs)) = Some (i, x)"
  shows "i < length xs \<and> xs ! i = x \<and> Q (i, x)"
  using min_by_key_Some(1) [OF assms] by (auto simp: in_set_enumerate_eq)

lemma advance_liq_cases:
  obtains (idle) "advance_liq cycle p uops rob = (p, uops)"
  | (replay) i where "i < length (sq_liq p)" "load_slot_available (sq_e1 p) uops"
      "liq_eligible cycle (sq_lsid_cache_ptr p) uops (sq_liq p ! i)"
      "advance_liq cycle p uops rob =
        (let seq = lq_seq (sq_liq p ! i) in
         (p\<lparr>sq_lhq := lhq_insert (sq_lhq p) seq, sq_mdb := remove_mdb_entry (sq_mdb p) seq,
            sq_e1 := sq_e1 p @ [seq], sq_liq := remove_at i (sq_liq p)\<rparr>,
          uops[seq := (uops ! seq)\<lparr>uo_miss_pending_until := None\<rparr>]))"
proof (cases "load_slot_available (sq_e1 p) uops")
  case False
  then show thesis using idle by (simp add: advance_liq_def)
next
  case slot: True
  let ?sel = "min_by_key (\<lambda>(_, entry). rob_age_rank (lq_seq entry) rob)
             (filter (\<lambda>(_, entry). liq_eligible cycle (sq_lsid_cache_ptr p) uops entry)
               (enumerate 0 (sq_liq p)))"
  show thesis
  proof (cases ?sel)
    case None
    then have "advance_liq cycle p uops rob = (p, uops)" using slot by (simp only: advance_liq_def) simp
    then show thesis by (rule idle)
  next
    case (Some e)
    obtain i x where e: "e = (i, x)" by fastforce
    note sel = liq_selection [OF Some [unfolded e]]
    show thesis
    proof (rule replay [of i])
      show "advance_liq cycle p uops rob =
        (let seq = lq_seq (sq_liq p ! i) in
         (p\<lparr>sq_lhq := lhq_insert (sq_lhq p) seq, sq_mdb := remove_mdb_entry (sq_mdb p) seq,
            sq_e1 := sq_e1 p @ [seq], sq_liq := remove_at i (sq_liq p)\<rparr>,
          uops[seq := (uops ! seq)\<lparr>uo_miss_pending_until := None\<rparr>]))"
        using slot sel unfolding advance_liq_def Some e by (simp add: Let_def)
    qed (use slot sel in auto)
  qed
qed

lemma advance_liq_conserves: "backend_seqs (fst (advance_liq cycle p uops rob)) = backend_seqs p"
proof (cases rule: advance_liq_cases [of cycle p uops rob])
  case idle
  then show ?thesis by simp
next
  case (replay i)
  have "add_mset (lq_seq (sq_liq p ! i)) (mset (map lq_seq (remove_at i (sq_liq p)))) =
        mset (map lq_seq (sq_liq p))"
    using mset_remove_at [of i "map lq_seq (sq_liq p)"] replay(1) by (simp add: map_remove_at)
  then show ?thesis unfolding replay(4) Let_def backend_seqs_def by (simp flip: mset_map)
qed

lemma front_view_advance_liq: "front_view (fst (advance_liq cycle p uops rob)) = front_view p"
  by (cases rule: advance_liq_cases [of cycle p uops rob]) (simp_all add: Let_def front_view_def)

lemma scb_loop_load_hits: "scb_loop cycle uops ptr scb l1d = (scb', l1d') \<Longrightarrow> load_hits l1d' = load_hits l1d"
proof (induction cycle uops ptr scb l1d arbitrary: scb' l1d' rule: scb_loop.induct)
  case (1 cycle uops ptr scb l1d)
  then show ?case by (subst (asm) (2) scb_loop.simps) (fastforce split: if_splits option.splits)
qed

lemma advance_scb_conserves: "backend_seqs (advance_scb cycle p uops) = backend_seqs p"
  by (simp add: advance_scb_def backend_seqs_def Let_def case_prod_beta
      scb_loop_load_hits [OF surjective_pairing])

lemma front_view_advance_scb: "front_view (advance_scb cycle p uops) = front_view p"
  by (simp add: advance_scb_def front_view_def case_prod_beta)

lemmas advance_execute_frame [simp] = front_view_fields [OF front_view_advance_execute]

lemmas advance_l1d_frame [simp] = front_view_fields [OF front_view_advance_l1d]

lemmas advance_liq_frame [simp] = front_view_fields [OF front_view_advance_liq]

lemmas advance_scb_frame [simp] = front_view_fields [OF front_view_advance_scb]

section \<open>Execution keeps the static part\<close>

lemma static_e4_loop:
  "e4_loop cycle options e4 stay p uops = (stay', p', uops') \<Longrightarrow> map uop_static uops' = map uop_static uops"
  by (induction cycle options e4 stay p uops rule: e4_loop.induct)
     (auto simp: Let_def map_static_update inject_miss_def split: if_splits)

lemma static_advance_execute:
  "map uop_static (snd (advance_execute cycle p uops options)) = map uop_static uops"
proof -
  have "map uop_static (snd (snd (e4_loop cycle options e4 stay q uops))) = map uop_static uops" for e4 stay q
    by (rule static_e4_loop [of _ _ _ _ _ _ "fst (e4_loop cycle options e4 stay q uops)"
          "fst (snd (e4_loop cycle options e4 stay q uops))"]) simp
  then show ?thesis unfolding advance_execute_def Let_def case_prod_beta by simp
qed

lemma static_advance_liq: "map uop_static (snd (advance_liq cycle p uops rob)) = map uop_static uops"
  by (cases rule: advance_liq_cases [of cycle p uops rob]) (simp_all add: Let_def map_static_update)

section \<open>Issue, replay and drain\<close>

lemma advance_i2_loop_issues:
  "advance_i2_loop cycle uops i2 stay st = (stay', st') \<Longrightarrow>
   \<exists>issued. is_e1 st' = is_e1 st @ issued \<and> mset stay' + mset issued = mset stay + mset i2 \<and>
     List.map_filter (\<lambda>s. uo_load_store_id (uops ! s)) issued = [is_issue_ptr st ..< is_issue_ptr st'] \<and>
     is_issue_ptr st \<le> is_issue_ptr st' \<and>
     is_complete_ptr st' + is_issue_ptr st = is_complete_ptr st + is_issue_ptr st' \<and>
     list_all (\<lambda>s. i2_ready s cycle uops) issued \<and>
     length (is_e1 st') \<le> max ISSUE_WIDTH (length (is_e1 st)) \<and>
     length (filter (\<lambda>s. uo_is_load (uops ! s)) (is_e1 st')) \<le>
       max LSU_WIDTH (length (filter (\<lambda>s. uo_is_load (uops ! s)) (is_e1 st)))"
proof (induction cycle uops i2 stay st rule: advance_i2_loop.induct)
  case (1 cycle uops stay st)
  then show ?case by (intro exI [of _ "[]"]) (simp add: List.map_filter_def)
next
  case (2 cycle uops seq i2 stay st)
  show ?case
  proof (cases "i2_issue_eligible seq cycle (is_issue_ptr st) uops \<and> e1_can_accept seq (is_e1 st) uops")
    case False
    with "2.prems" have "advance_i2_loop cycle uops i2 (stay @ [seq]) st = (stay', st')" by simp
    from "2.IH"(2) [OF False this] show ?thesis by auto
  next
    case True
    let ?lsid = "uo_load_store_id (uops ! seq)" and ?load = "\<lambda>s. uo_is_load (uops ! s)"
    define st1 where "st1 = \<lparr>is_e1 = is_e1 st @ [seq],
         is_lhq = (if uo_is_load (uops ! seq) then lhq_insert (is_lhq st) seq else is_lhq st),
         is_stq = (if \<not> uo_is_load (uops ! seq) \<and> uo_is_store (uops ! seq) then stq_insert (is_stq st) seq else is_stq st),
         is_issue_ptr = (if ?lsid \<noteq> None then is_issue_ptr st + 1 else is_issue_ptr st),
         is_complete_ptr = (if ?lsid \<noteq> None then is_complete_ptr st + 1 else is_complete_ptr st)\<rparr>"
    have "advance_i2_loop cycle uops i2 stay st1 = (stay', st')" using "2.prems" True by (simp add: st1_def)
    from "2.IH"(1) [OF True this [unfolded st1_def]]
    obtain rest where r: "is_e1 st' = is_e1 st1 @ rest" "mset stay' + mset rest = mset stay + mset i2"
      "List.map_filter (\<lambda>s. uo_load_store_id (uops ! s)) rest = [is_issue_ptr st1 ..< is_issue_ptr st']"
      "is_issue_ptr st1 \<le> is_issue_ptr st'" "is_complete_ptr st' + is_issue_ptr st1 = is_complete_ptr st1 + is_issue_ptr st'"
      "list_all (\<lambda>s. i2_ready s cycle uops) rest" "length (is_e1 st') \<le> max ISSUE_WIDTH (length (is_e1 st1))"
      "length (filter ?load (is_e1 st')) \<le> max LSU_WIDTH (length (filter ?load (is_e1 st1)))"
      unfolding st1_def [symmetric] by blast
    have el: "i2_ready seq cycle uops" "?lsid = None \<or> ?lsid = Some (is_issue_ptr st)"
      using True by (auto simp: i2_issue_eligible_def lsid_issue_ready_def split: option.splits)
    have acc: "length (is_e1 st) < ISSUE_WIDTH" "\<not> ?load seq \<or> length (filter ?load (is_e1 st)) < LSU_WIDTH"
      using True by (auto simp: e1_can_accept_def load_slot_available_def)
    have ids: "List.map_filter (\<lambda>s. uo_load_store_id (uops ! s)) (seq # rest) = [is_issue_ptr st ..< is_issue_ptr st']"
      using el(2) r(3,4) by (auto simp: map_filter_simps st1_def upt_rec [of "is_issue_ptr st"])
    have "is_issue_ptr st \<le> is_issue_ptr st'" "is_complete_ptr st' + is_issue_ptr st = is_complete_ptr st + is_issue_ptr st'"
      using r(4,5) by (auto simp: st1_def split: if_splits)
    moreover have "length (is_e1 st') \<le> max ISSUE_WIDTH (length (is_e1 st))"
      using r(7) acc(1) by (simp add: st1_def)
    moreover have "length (filter ?load (is_e1 st')) \<le> max LSU_WIDTH (length (filter ?load (is_e1 st)))"
      using r(8) acc(2) by (auto simp: st1_def split: if_splits)
    ultimately show ?thesis using r(1,2,6) el(1) ids by (intro exI [of _ "seq # rest"]) (simp add: st1_def)
  qed
qed

text \<open>C31: issue from I2. The uops moved to E1 have all their operands; the memory operations among
  them are issued strictly in load-store-id order, one id after the other from the issue pointer on,
  which ends just behind the last of them; E1 respects the issue width and takes at most one load;
  what is not issued stays in I2.\<close>

theorem advance_i2_memory_order:
  "\<exists>issued. sq_e1 (advance_i2 cycle p uops) = sq_e1 p @ issued \<and>
     mset (sq_i2 (advance_i2 cycle p uops)) + mset issued = mset (sq_i2 p) \<and>
     List.map_filter (\<lambda>s. uo_load_store_id (uops ! s)) issued =
       [sq_lsid_issue_ptr p ..< sq_lsid_issue_ptr (advance_i2 cycle p uops)] \<and>
     list_all (\<lambda>s. i2_ready s cycle uops) issued \<and>
     length (sq_e1 (advance_i2 cycle p uops)) \<le> max ISSUE_WIDTH (length (sq_e1 p)) \<and>
     length (filter (\<lambda>s. uo_is_load (uops ! s)) (sq_e1 (advance_i2 cycle p uops))) \<le>
       max LSU_WIDTH (length (filter (\<lambda>s. uo_is_load (uops ! s)) (sq_e1 p)))"
proof -
  let ?st = "\<lparr>is_e1 = sq_e1 p, is_lhq = sq_lhq p, is_stq = sq_stq p,
             is_issue_ptr = sq_lsid_issue_ptr p, is_complete_ptr = sq_lsid_complete_ptr p\<rparr>"
  obtain stay st where loop: "advance_i2_loop cycle uops (sq_i2 p) [] ?st = (stay, st)" by fastforce
  from advance_i2_loop_issues [OF loop] show ?thesis by (auto simp: advance_i2_def loop Let_def)
qed

text \<open>One cycle of the execute pipes, the L1D port and the miss queue loses and duplicates nothing:
  every uop between E1 and W2 is afterwards in exactly one of them, except the uops that were in W2,
  which have completed.\<close>

theorem backend_cycle_conserves:
  "backend_seqs (fst (advance_liq cycle (advance_l1d cycle (fst (advance_execute cycle p uops options)))
      (snd (advance_execute cycle p uops options)) rob)) + mset (sq_w2 p) = backend_seqs p"
proof -
  obtain p1 u1 where "advance_execute cycle p uops options = (p1, u1)" by fastforce
  from advance_execute_conserves [OF this] this show ?thesis
    by (simp add: advance_liq_conserves advance_l1d_conserves)
qed

text \<open>Miss replay. A waiting load restarts only when E1 has a load slot; the one that does is
  refilled, is next in load-store-id order for the cache, and is the oldest such in the reorder
  buffer; it moves from the miss queue to E1 and no other entry moves.\<close>

theorem advance_liq_oldest_refilled:
  "if load_slot_available (sq_e1 p) uops \<and> filter (liq_eligible cycle (sq_lsid_cache_ptr p) uops) (sq_liq p) \<noteq> []
   then \<exists>i. i < length (sq_liq p) \<and> liq_eligible cycle (sq_lsid_cache_ptr p) uops (sq_liq p ! i) \<and>
      sq_e1 (fst (advance_liq cycle p uops rob)) = sq_e1 p @ [lq_seq (sq_liq p ! i)] \<and>
      sq_liq (fst (advance_liq cycle p uops rob)) = take i (sq_liq p) @ drop (Suc i) (sq_liq p) \<and>
      list_all (\<lambda>e. rob_age_rank (lq_seq (sq_liq p ! i)) rob \<le> rob_age_rank (lq_seq e) rob)
        (filter (liq_eligible cycle (sq_lsid_cache_ptr p) uops) (sq_liq p))
   else advance_liq cycle p uops rob = (p, uops)"
proof -
  let ?el = "liq_eligible cycle (sq_lsid_cache_ptr p) uops" and ?rank = "\<lambda>e. rob_age_rank (lq_seq e) rob"
  let ?xs = "filter (\<lambda>(_, entry). ?el entry) (enumerate 0 (sq_liq p))"
  let ?sel = "min_by_key (\<lambda>(_, entry). ?rank entry) ?xs"
  have snd: "map snd ?xs = filter ?el (sq_liq p)"
    using filter_map [of ?el snd "enumerate 0 (sq_liq p)"] by (simp add: o_def case_prod_beta')
  show ?thesis
  proof (cases "load_slot_available (sq_e1 p) uops")
    case slot: True
    show ?thesis
    proof (cases ?sel)
      case None
      then have "filter ?el (sq_liq p) = []" using snd by (metis list.map_disc_iff min_by_key_None)
      moreover have "advance_liq cycle p uops rob = (p, uops)" using None slot by (simp only: advance_liq_def) simp
      ultimately show ?thesis by simp
    next
      case (Some w)
      obtain i x where w: "w = (i, x)" by fastforce
      note sel = liq_selection [OF Some [unfolded w]]
      have "?rank x \<le> ?rank e" if "e \<in> set (filter ?el (sq_liq p))" for e
      proof -
        from that obtain j where "(j, e) \<in> set ?xs" unfolding snd [symmetric] by auto
        from min_by_key_Some(2) [OF Some this] show ?thesis by (simp add: w)
      qed
      moreover have "fst (advance_liq cycle p uops rob) =
          p\<lparr>sq_lhq := lhq_insert (sq_lhq p) (lq_seq x), sq_mdb := remove_mdb_entry (sq_mdb p) (lq_seq x),
            sq_e1 := sq_e1 p @ [lq_seq x], sq_liq := remove_at i (sq_liq p)\<rparr>"
        using slot unfolding advance_liq_def Some w by simp
      moreover have "filter ?el (sq_liq p) \<noteq> []" using sel by (auto simp: filter_empty_conv)
      ultimately show ?thesis using slot sel by (auto simp: list_all_iff remove_at_def intro!: exI [of _ i])
    qed
  qed (simp add: advance_liq_def)
qed

lemma scb_loop_drains:
  "scb_loop cycle uops ptr scb l1d = (scb', l1d') \<Longrightarrow>
   \<exists>drained. l1d' = l1d @ map (\<lambda>e. \<lparr>l1_seq = sc_seq e, l1_kind = StoreDrain, l1_ready_cycle = sat_add cycle 1\<rparr>) drained \<and>
     mset scb' + mset drained = mset scb \<and>
     list_all (\<lambda>e. sc_enqueue_cycle e < cycle \<and> lsid_cache_ready (sc_seq e) ptr uops) drained \<and>
     length l1d' \<le> max L1D_WIDTH (length l1d) \<and>
     (L1D_WIDTH \<le> length l1d' \<or> filter (\<lambda>e. sc_enqueue_cycle e < cycle \<and> lsid_cache_ready (sc_seq e) ptr uops) scb' = [])"
proof (induction cycle uops ptr scb l1d rule: scb_loop.induct)
  case (1 cycle uops ptr scb l1d)
  let ?ready = "\<lambda>e. scb_entry_drain_ready e cycle \<and> lsid_cache_ready (sc_seq e) ptr uops"
  show ?case
  proof (cases "can_accept_l1d l1d")
    case False
    with "1.prems" show ?thesis by (subst (asm) scb_loop.simps) (auto simp: can_accept_l1d_def Suc_le_eq intro!: exI [of _ "[]"])
  next
    case room: True
    show ?thesis
    proof (cases "position ?ready scb")
      case None
      with "1.prems" room have "scb' = scb" "l1d' = l1d" by (subst (asm) scb_loop.simps, simp)+
      moreover have "filter ?ready scb = []" using None by (simp add: position_None filter_empty_conv)
      ultimately show ?thesis by (auto simp: scb_entry_drain_ready_def intro!: exI [of _ "[]"])
    next
      case (Some i)
      let ?e = "scb ! i"
      have i: "i < length scb" "?ready ?e" using position_Some [OF Some] by auto
      have "scb_loop cycle uops ptr (remove_at i scb)
          (l1d @ [\<lparr>l1_seq = sc_seq ?e, l1_kind = StoreDrain, l1_ready_cycle = sat_add cycle 1\<rparr>]) = (scb', l1d')"
        using "1.prems" room Some by (subst (asm) scb_loop.simps) simp
      from "1.IH" [OF room Some this] obtain d where
        d: "l1d' = (l1d @ [\<lparr>l1_seq = sc_seq ?e, l1_kind = StoreDrain, l1_ready_cycle = sat_add cycle 1\<rparr>]) @
              map (\<lambda>e. \<lparr>l1_seq = sc_seq e, l1_kind = StoreDrain, l1_ready_cycle = sat_add cycle 1\<rparr>) d"
          "mset scb' + mset d = mset (remove_at i scb)"
          "list_all (\<lambda>e. sc_enqueue_cycle e < cycle \<and> lsid_cache_ready (sc_seq e) ptr uops) d"
          "length l1d' \<le> max L1D_WIDTH (length l1d + 1)"
          "L1D_WIDTH \<le> length l1d' \<or> filter (\<lambda>e. sc_enqueue_cycle e < cycle \<and> lsid_cache_ready (sc_seq e) ptr uops) scb' = []"
        by auto
      have "length l1d' \<le> max L1D_WIDTH (length l1d)" using d(4) room by (simp add: can_accept_l1d_def)
      moreover have "mset scb' + mset (?e # d) = mset scb" using d(2) mset_remove_at [OF i(1)] by simp
      moreover have "list_all (\<lambda>e. sc_enqueue_cycle e < cycle \<and> lsid_cache_ready (sc_seq e) ptr uops) (?e # d)"
        using d(3) i(2) by (simp add: scb_entry_drain_ready_def)
      moreover have "l1d' = l1d @ map (\<lambda>e. \<lparr>l1_seq = sc_seq e, l1_kind = StoreDrain, l1_ready_cycle = sat_add cycle 1\<rparr>) (?e # d)"
        using d(1) by simp
      ultimately show ?thesis using d(5) by blast
    qed
  qed
qed

text \<open>C32: the store-commit buffer drains in order and within the port. Each cycle the stores moved to
  the L1D port entered the buffer in an earlier cycle and are next in load-store-id order; they leave
  the buffer exactly once; the port stays within its width; and a ready store stays behind only when
  the port is full.\<close>

theorem advance_scb_drains_ready:
  "\<exists>drained. sq_l1d (advance_scb cycle p uops) = sq_l1d p @
       map (\<lambda>e. \<lparr>l1_seq = sc_seq e, l1_kind = StoreDrain, l1_ready_cycle = sat_add cycle 1\<rparr>) drained \<and>
     mset (sq_scb (advance_scb cycle p uops)) + mset drained = mset (sq_scb p) \<and>
     list_all (\<lambda>e. sc_enqueue_cycle e < cycle \<and> lsid_cache_ready (sc_seq e) (sq_lsid_cache_ptr p) uops) drained \<and>
     length (sq_l1d (advance_scb cycle p uops)) \<le> max L1D_WIDTH (length (sq_l1d p)) \<and>
     (L1D_WIDTH \<le> length (sq_l1d (advance_scb cycle p uops)) \<or>
      filter (\<lambda>e. sc_enqueue_cycle e < cycle \<and> lsid_cache_ready (sc_seq e) (sq_lsid_cache_ptr p) uops)
        (sq_scb (advance_scb cycle p uops)) = [])"
proof -
  obtain scb l1d where l: "scb_loop cycle uops (sq_lsid_cache_ptr p) (sq_scb p) (sq_l1d p) = (scb, l1d)" by fastforce
  then have "sq_scb (advance_scb cycle p uops) = scb" "sq_l1d (advance_scb cycle p uops) = l1d"
    by (simp_all add: advance_scb_def)
  with scb_loop_drains [OF l] show ?thesis by simp
qed

end
