(* ===== verification/Frontend.thy ===== *)
theory Frontend
  imports Lsu
begin

text \<open>
  The frontend (\<^verbatim>\<open>crates/camodel/src/frontend/mod.rs\<close>): fetch with redirect restart and
  the unresolved-redirect barrier, the eleven in-order stages F0..S2 with reorder-buffer
  allocation between D1 and D2, and dispatch, which maintains the speculative block context
  (recovery epoch and checkpoint, branch owner, dynamic target owner, call header owner) and
  routes uops to the issue queues or to the D2 bypass. Dispatch is the source's loop: the
  bookkeeping of a uop runs before the decision whether the uop can leave S2.
\<close>

section \<open>Redirect resolution (control/recovery)\<close>

definition redirect_resolve_cycle :: "CycleUop \<Rightarrow> cyc option" where
  "redirect_resolve_cycle uop =
     (if uo_redirect_target uop \<noteq> None then opt_or (uo_w1_cycle uop) (uo_done_cycle uop) else None)"

definition unresolved_redirect_barrier :: "usize \<Rightarrow> CycleUop list \<Rightarrow> usize option" where
  "unresolved_redirect_barrier next_fetch_seq uops =
     find (\<lambda>seq. uo_redirect_target (uops ! seq) \<noteq> None \<and>
                 redirect_resolve_cycle (uops ! seq) = None) [0 ..< next_fetch_seq]"

section \<open>Branch owners\<close>

definition decoded_field_u64 :: "DecodedInstruction \<Rightarrow> string \<Rightarrow> u64 option" where
  "decoded_field_u64 decoded name =
     map_option df_value_u64 (find (\<lambda>f. df_name f = name) (di_fields decoded))"

definition c_bstart_std_kind :: "u64 option \<Rightarrow> BranchOwnerKind" where
  "c_bstart_std_kind br_type =
     (if br_type = Some 1 then BoFall
      else if br_type = Some 2 then BoDirect
      else if br_type = Some 3 then BoCond
      else if br_type = Some 4 then BoCall
      else if br_type = Some 5 then BoInd
      else if br_type = Some 6 then BoICall
      else if br_type = Some 7 then BoRet
      else BoNone)"

definition branch_owner_kind_for_uop :: "CycleUop \<Rightarrow> BranchOwnerKind" where
  "branch_owner_kind_for_uop uop =
     (let mnemonic = di_mnemonic (uo_decoded uop);
          asm = to_ascii_uppercase (di_asm (uo_decoded uop))
      in if mnemonic \<in> {''FRET.RA'', ''FRET.STK''} then BoRet
         else if mnemonic \<in> {''BSTART CALL'', ''HL.BSTART CALL''} then BoCall
         else if str_contains asm '' COND'' then BoCond
         else if str_contains asm '' CALL'' then BoCall
         else if str_contains asm '' RET'' then BoRet
         else if str_contains asm '' DIRECT'' then BoDirect
         else if str_contains asm '' ICALL'' then BoICall
         else if str_contains asm '' IND'' then BoInd
         else if str_contains asm '' FALL'' then BoFall
         else if mnemonic = ''C.BSTART.STD''
         then c_bstart_std_kind (decoded_field_u64 (uo_decoded uop) ''BrType'')
         else BoNone)"

definition is_dynamic_kind :: "BranchOwnerKind \<Rightarrow> bool" where
  "is_dynamic_kind kind = (kind \<in> {BoRet, BoInd, BoICall})"

definition boundary_target_pc ::
  "usize \<Rightarrow> CycleUop \<Rightarrow> StageQueues \<Rightarrow> BranchOwnerKind \<Rightarrow> u64 option" where
  "boundary_target_pc seq uop p kind =
     (if is_dynamic_kind kind
      then opt_or (opt_or (opt_or (bt_get (sq_seq_boundary_target_pcs p) seq)
                                  (bt_get (sq_seq_dynamic_target_pcs p) seq))
                          (sq_active_dynamic_target_pc p))
                  (uo_redirect_target uop)
      else if kind = BoNone then None
      else uo_redirect_target uop)"

definition boundary_context_from_uop ::
  "usize \<Rightarrow> CycleUop \<Rightarrow> StageQueues \<Rightarrow> BranchOwnerContext option" where
  "boundary_context_from_uop seq uop p =
     (let kind = branch_owner_kind_for_uop uop in
      if kind = BoNone then None
      else let target_pc = unwrap_or (boundary_target_pc seq uop p kind) 0;
               pc = cr_pc (uo_commit uop)
           in Some \<lparr>bc_kind = kind, bc_base_pc = pc, bc_target_pc = target_pc,
                    bc_off = (if target_pc = 0 then 0 else target_pc - pc),
                    bc_pred_take = (if kind = BoCond then target_pc \<noteq> 0 \<and> target_pc < pc else False),
                    bc_epoch = unwrap_or (bt_get (sq_seq_recovery_epochs p) seq) 0 + 1\<rparr>)"

definition fallback_branch_context_for_seq ::
  "usize \<Rightarrow> StageQueues \<Rightarrow> CycleUop list \<Rightarrow> BranchOwnerContext option" where
  "fallback_branch_context_for_seq seq p uops =
     find_map (\<lambda>candidate. boundary_context_from_uop candidate (uops ! candidate) p)
       (rev [0 ..< seq])"

definition branch_context_for_seq :: "usize \<Rightarrow> StageQueues \<Rightarrow> CycleUop list \<Rightarrow> BranchOwnerContext" where
  "branch_context_for_seq seq p uops =
     unwrap_or (opt_or (bt_get (sq_seq_branch_contexts p) seq)
                       (fallback_branch_context_for_seq seq p uops)) default_branch_context"

section \<open>Live views of a sequence number\<close>

definition live_rob_checkpoint_id_for_seq :: "usize \<Rightarrow> StageQueues \<Rightarrow> CycleUop list \<Rightarrow> u8" where
  "live_rob_checkpoint_id_for_seq seq p uops =
     (case bt_get (sq_seq_rob_checkpoint_ids p) seq of
        Some checkpoint_id \<Rightarrow> checkpoint_id
      | None \<Rightarrow>
          if \<not> is_start_marker (uo_decoded (uops ! seq)) then 0
          else let static_fetch_checkpoint = checkpoint_id_for_seq seq uops;
                   live_fetch_checkpoint =
                     unwrap_or (bt_get (sq_seq_checkpoint_ids p) seq) static_fetch_checkpoint;
                   slot_offset =
                     (rob_checkpoint_id_for_seq seq uops - static_fetch_checkpoint) AND 0x3f
               in (live_fetch_checkpoint + slot_offset) AND 0x3f)"

definition recovery_checkpoint_id_for_seq :: "usize \<Rightarrow> StageQueues \<Rightarrow> CycleUop list \<Rightarrow> u8" where
  "recovery_checkpoint_id_for_seq seq p uops =
     (case bt_get (sq_seq_recovery_checkpoint_ids p) seq of
        Some checkpoint_id \<Rightarrow> checkpoint_id
      | None \<Rightarrow>
          if is_start_marker (uo_decoded (uops ! seq)) then live_rob_checkpoint_id_for_seq seq p uops
          else case find (\<lambda>candidate. is_start_marker (uo_decoded (uops ! candidate))) (rev [0 ..< seq]) of
                 None \<Rightarrow> 0
               | Some candidate \<Rightarrow> live_rob_checkpoint_id_for_seq candidate p uops)"

definition recovery_epoch_for_seq :: "usize \<Rightarrow> StageQueues \<Rightarrow> CycleUop list \<Rightarrow> u16" where
  "recovery_epoch_for_seq seq p uops =
     unwrap_or (bt_get (sq_seq_recovery_epochs p) seq) (block_epoch_for_seq seq uops)"

definition context_target :: "usize \<Rightarrow> StageQueues \<Rightarrow> u64 option" where
  "context_target seq p =
     opt_filter (\<lambda>target_pc. target_pc \<noteq> 0)
       (map_option bc_target_pc (bt_get (sq_seq_branch_contexts p) seq))"

definition live_boundary_target_for_seq :: "usize \<Rightarrow> StageQueues \<Rightarrow> CycleUop list \<Rightarrow> u64 option" where
  "live_boundary_target_for_seq seq p uops =
     (case vec_get uops seq of None \<Rightarrow> None
      | Some uop \<Rightarrow>
          if is_boundary_redirect_owner (uo_decoded uop)
          then opt_or (opt_or (opt_filter (\<lambda>target_pc. target_pc \<noteq> 0)
                                 (map_option bc_target_pc (boundary_context_from_uop seq uop p)))
                              (context_target seq p))
                      (uo_redirect_target uop)
          else context_target seq p)"

definition live_branch_kind_for_seq ::
  "usize \<Rightarrow> StageQueues \<Rightarrow> CycleUop list \<Rightarrow> BranchOwnerKind option" where
  "live_branch_kind_for_seq seq p uops =
     (case vec_get uops seq of None \<Rightarrow> None
      | Some uop \<Rightarrow>
          if is_boundary_redirect_owner (uo_decoded uop)
          then opt_or (opt_filter (\<lambda>kind. kind \<noteq> BoNone)
                         (map_option bc_kind (boundary_context_from_uop seq uop p)))
                      (opt_filter (\<lambda>kind. kind \<noteq> BoNone)
                         (map_option bc_kind (bt_get (sq_seq_branch_contexts p) seq)))
          else let kind = bc_kind (branch_context_for_seq seq p uops)
               in then_some (kind \<noteq> BoNone) kind)"

fun branch_kind_label :: "BranchOwnerKind \<Rightarrow> string option" where
  "branch_kind_label BoNone = None"
| "branch_kind_label BoFall = Some ''fall''"
| "branch_kind_label BoCond = Some ''cond''"
| "branch_kind_label BoCall = Some ''call''"
| "branch_kind_label BoRet = Some ''ret''"
| "branch_kind_label BoDirect = Some ''direct''"
| "branch_kind_label BoInd = Some ''ind''"
| "branch_kind_label BoICall = Some ''icall''"

fun return_consumer_kind_label :: "ReturnConsumerKind \<Rightarrow> string" where
  "return_consumer_kind_label SetcTgt = ''setc_tgt''"
| "return_consumer_kind_label FretRa = ''fret_ra''"
| "return_consumer_kind_label FretStk = ''fret_stk''"

fun call_materialization_kind_label :: "CallMaterializationKind \<Rightarrow> string" where
  "call_materialization_kind_label FusedCall = ''fused_call''"
| "call_materialization_kind_label AdjacentSetret = ''adjacent_setret''"

fun dynamic_target_source_kind_label :: "DynamicTargetSourceKind \<Rightarrow> string" where
  "dynamic_target_source_kind_label ArchTargetSetup = ''arch_target_setup''"
| "dynamic_target_source_kind_label CallReturnFused = ''call_return_fused''"
| "dynamic_target_source_kind_label CallReturnAdjacentSetret = ''call_return_adjacent_setret''"

definition is_setret :: "DecodedInstruction \<Rightarrow> bool" where
  "is_setret decoded = (di_mnemonic decoded \<in> {''SETRET'', ''C.SETRET'', ''HL.SETRET''})"

definition is_call_header_uop :: "CycleUop \<Rightarrow> bool" where
  "is_call_header_uop uop = (is_bstart (uo_decoded uop) \<and> branch_owner_kind_for_uop uop = BoCall)"

definition call_return_target_pc :: "CycleUop \<Rightarrow> u64 option" where
  "call_return_target_pc uop =
     then_some ((is_call_header_uop uop \<or> is_setret (uo_decoded uop)) \<and>
                cr_wb_valid (uo_commit uop) \<noteq> 0 \<and> cr_wb_rd (uo_commit uop) = 10)
       (cr_wb_data (uo_commit uop))"

definition live_return_consumer_kind_for_seq ::
  "usize \<Rightarrow> StageQueues \<Rightarrow> CycleUop list \<Rightarrow> ReturnConsumerKind option" where
  "live_return_consumer_kind_for_seq seq p uops =
     (case bt_get (sq_seq_return_consumer_kinds p) seq of
        Some kind \<Rightarrow> Some kind
      | None \<Rightarrow>
          (case vec_get uops seq of None \<Rightarrow> None
           | Some uop \<Rightarrow>
               if di_mnemonic (uo_decoded uop) = ''FRET.RA'' then Some FretRa
               else if di_mnemonic (uo_decoded uop) = ''FRET.STK'' then Some FretStk
               else None))"

definition live_call_materialization_kind_for_seq ::
  "usize \<Rightarrow> StageQueues \<Rightarrow> CycleUop list \<Rightarrow> CallMaterializationKind option" where
  "live_call_materialization_kind_for_seq seq p uops =
     (case bt_get (sq_seq_call_materialization_kinds p) seq of
        Some kind \<Rightarrow> Some kind
      | None \<Rightarrow>
          (case vec_get uops seq of None \<Rightarrow> None
           | Some uop \<Rightarrow>
               if is_setret (uo_decoded uop) then Some AdjacentSetret
               else then_some (is_call_header_uop uop \<and> call_return_target_pc uop \<noteq> None) FusedCall))"

fun dynamic_target_source_kind_from_call_materialization ::
  "CallMaterializationKind \<Rightarrow> DynamicTargetSourceKind" where
  "dynamic_target_source_kind_from_call_materialization FusedCall = CallReturnFused"
| "dynamic_target_source_kind_from_call_materialization AdjacentSetret = CallReturnAdjacentSetret"

definition live_dynamic_target_source_kind_for_seq ::
  "usize \<Rightarrow> StageQueues \<Rightarrow> DynamicTargetSourceKind option" where
  "live_dynamic_target_source_kind_for_seq seq p = bt_get (sq_seq_boundary_target_source_kinds p) seq"

definition live_dynamic_target_setup_epoch_for_seq :: "usize \<Rightarrow> StageQueues \<Rightarrow> u16 option" where
  "live_dynamic_target_setup_epoch_for_seq seq p = bt_get (sq_seq_boundary_target_setup_epochs p) seq"

definition live_dynamic_target_source_epoch_for_seq :: "usize \<Rightarrow> StageQueues \<Rightarrow> u16 option" where
  "live_dynamic_target_source_epoch_for_seq seq p = bt_get (sq_seq_boundary_target_source_epochs p) seq"

definition live_boundary_epoch_for_seq ::
  "usize \<Rightarrow> StageQueues \<Rightarrow> CycleUop list \<Rightarrow> u16 option" where
  "live_boundary_epoch_for_seq seq p uops =
     map_option (\<lambda>_. recovery_epoch_for_seq seq p uops) (live_branch_kind_for_seq seq p uops)"

definition live_dynamic_target_producer_kind_for_seq ::
  "usize \<Rightarrow> StageQueues \<Rightarrow> ReturnConsumerKind option" where
  "live_dynamic_target_producer_kind_for_seq seq p =
     bt_get (sq_seq_boundary_target_producer_kinds p) seq"

definition uop_row_id :: "usize \<Rightarrow> string" where
  "uop_row_id seq = ''uop'' @ show_nat seq"

definition live_dynamic_target_source_owner_row_id_for_seq ::
  "usize \<Rightarrow> StageQueues \<Rightarrow> string option" where
  "live_dynamic_target_source_owner_row_id_for_seq seq p =
     map_option uop_row_id (bt_get (sq_seq_boundary_target_source_owner_seqs p) seq)"

definition live_control_target_owner_row_id_for_seq ::
  "usize \<Rightarrow> StageQueues \<Rightarrow> CycleUop list \<Rightarrow> string option" where
  "live_control_target_owner_row_id_for_seq seq p uops =
     (case bt_get (sq_seq_boundary_target_owner_seqs p) seq of
        Some owner_seq \<Rightarrow> Some (uop_row_id owner_seq)
      | None \<Rightarrow>
     (case bt_get (sq_seq_call_return_target_owner_seqs p) seq of
        Some owner_seq \<Rightarrow> Some (uop_row_id owner_seq)
      | None \<Rightarrow>
     (case vec_get uops seq of None \<Rightarrow> None
      | Some uop \<Rightarrow>
          if is_setret (uo_decoded uop) \<or> di_mnemonic (uo_decoded uop) \<in> {''FRET.RA'', ''FRET.STK''}
          then Some (uop_row_id seq) else None)))"

section \<open>Dynamic targets at dispatch\<close>

definition dynamic_target_of_uop :: "CycleUop \<Rightarrow> StageQueues \<Rightarrow> u64 option" where
  "dynamic_target_of_uop uop p =
     (let mnemonic = di_mnemonic (uo_decoded uop) in
      if mnemonic \<in> {''SETC.TGT'', ''C.SETC.TGT''} \<and> cr_src0_valid (uo_commit uop) \<noteq> 0
      then Some (cr_src0_data (uo_commit uop))
      else if mnemonic \<in> {''FRET.RA'', ''FRET.STK''} then uo_redirect_target uop
      else if mnemonic \<in> {''BSTOP'', ''C.BSTOP''} then sq_active_dynamic_target_pc p
      else None)"

definition setc_sourced_from_call :: "CycleUop \<Rightarrow> StageQueues \<Rightarrow> u64 option \<Rightarrow> bool" where
  "setc_sourced_from_call uop p target_pc =
     (target_pc \<noteq> None \<and> cr_src0_reg (uo_commit uop) = 10 \<and>
      sq_active_call_return_target_pc p = target_pc)"

definition apply_setc_tgt ::
  "usize \<Rightarrow> u64 option \<Rightarrow> StageQueues \<Rightarrow> CycleUop list \<Rightarrow> StageQueues" where
  "apply_setc_tgt seq target_pc p uops =
     (let uop = uops ! seq;
          epoch = recovery_epoch_for_seq seq p uops;
          sourced_from_call = setc_sourced_from_call uop p target_pc;
          p1 = p\<lparr>sq_active_dynamic_target_pc := target_pc,
                 sq_active_dynamic_target_owner_seq := map_option (\<lambda>_. seq) target_pc,
                 sq_active_dynamic_target_producer_kind := map_option (\<lambda>_. SetcTgt) target_pc,
                 sq_active_dynamic_target_setup_epoch := map_option (\<lambda>_. epoch) target_pc,
                 sq_active_dynamic_target_owner_kind := map_option (\<lambda>_. SetcTgt) target_pc,
                 sq_active_dynamic_target_source_owner_seq :=
                   map_option (\<lambda>_. if sourced_from_call
                      then unwrap_or (sq_active_call_return_target_owner_seq p) seq else seq) target_pc,
                 sq_active_dynamic_target_source_epoch :=
                   map_option (\<lambda>_. if sourced_from_call
                      then unwrap_or (sq_active_call_return_target_epoch p) epoch else epoch) target_pc,
                 sq_active_dynamic_target_call_materialization_kind :=
                   (if sourced_from_call then sq_active_call_return_materialization_kind p else None),
                 sq_active_dynamic_target_source_kind :=
                   map_option (\<lambda>_. if sourced_from_call
                      then (case sq_active_call_return_materialization_kind p of
                              Some k \<Rightarrow> dynamic_target_source_kind_from_call_materialization k
                            | None \<Rightarrow> ArchTargetSetup)
                      else ArchTargetSetup) target_pc\<rparr>
      in if is_dynamic_kind (bc_kind (sq_active_branch_context p1))
         then p1\<lparr>sq_active_branch_context := (sq_active_branch_context p1)
               \<lparr>bc_target_pc := unwrap_or target_pc 0,
                bc_off := (case target_pc of None \<Rightarrow> 0
                           | Some t \<Rightarrow> t - bc_base_pc (sq_active_branch_context p1))\<rparr>\<rparr>
         else p1)"

record boundary_owner =
  bo_target_pc :: u64
  bo_owner_seq :: usize
  bo_producer_kind :: "ReturnConsumerKind option"
  bo_setup_epoch :: "u16 option"
  bo_return_kind :: "ReturnConsumerKind option"
  bo_source_owner_seq :: "usize option"
  bo_source_epoch :: "u16 option"
  bo_call_materialization_kind :: "CallMaterializationKind option"
  bo_target_source_kind :: "DynamicTargetSourceKind option"

text \<open>The chain of \<open>zip\<close>s over the active dynamic target: all six parts must be present.\<close>

definition active_target_owner ::
  "ReturnConsumerKind option \<Rightarrow> StageQueues \<Rightarrow> boundary_owner option" where
  "active_target_owner return_kind p =
     (case (sq_active_dynamic_target_pc p, sq_active_dynamic_target_owner_seq p,
            sq_active_dynamic_target_producer_kind p, sq_active_dynamic_target_setup_epoch p,
            sq_active_dynamic_target_source_owner_seq p, sq_active_dynamic_target_source_epoch p) of
        (Some target_pc, Some owner_seq, Some producer_kind, Some setup_epoch,
         Some source_owner_seq, Some source_epoch) \<Rightarrow>
          Some \<lparr>bo_target_pc = target_pc, bo_owner_seq = owner_seq,
                bo_producer_kind = Some producer_kind, bo_setup_epoch = Some setup_epoch,
                bo_return_kind = return_kind,
                bo_source_owner_seq = Some source_owner_seq, bo_source_epoch = Some source_epoch,
                bo_call_materialization_kind = sq_active_dynamic_target_call_materialization_kind p,
                bo_target_source_kind = sq_active_dynamic_target_source_kind p\<rparr>
      | _ \<Rightarrow> None)"

definition fret_ra_owner ::
  "usize \<Rightarrow> u64 \<Rightarrow> StageQueues \<Rightarrow> CycleUop list \<Rightarrow> boundary_owner" where
  "fret_ra_owner seq target_pc p uops =
     (let sourced_from_call = (sq_active_call_return_target_pc p = Some target_pc);
          epoch = recovery_epoch_for_seq seq p uops;
          source_owner_seq = (if sourced_from_call
            then unwrap_or (sq_active_call_return_target_owner_seq p) seq else seq);
          source_epoch = (if sourced_from_call
            then unwrap_or (sq_active_call_return_target_epoch p) epoch else epoch)
      in \<lparr>bo_target_pc = target_pc, bo_owner_seq = source_owner_seq,
          bo_producer_kind = Some FretRa, bo_setup_epoch = Some epoch,
          bo_return_kind = Some FretRa,
          bo_source_owner_seq = Some source_owner_seq, bo_source_epoch = Some source_epoch,
          bo_call_materialization_kind =
            (if sourced_from_call then sq_active_call_return_materialization_kind p else None),
          bo_target_source_kind =
            (if sourced_from_call
             then map_option dynamic_target_source_kind_from_call_materialization
                    (sq_active_call_return_materialization_kind p) else None)\<rparr>)"

definition fret_stk_owner ::
  "usize \<Rightarrow> u64 \<Rightarrow> StageQueues \<Rightarrow> CycleUop list \<Rightarrow> boundary_owner" where
  "fret_stk_owner seq target_pc p uops =
     (let epoch = recovery_epoch_for_seq seq p uops in
      \<lparr>bo_target_pc = target_pc, bo_owner_seq = seq,
       bo_producer_kind = Some FretStk, bo_setup_epoch = Some epoch,
       bo_return_kind = Some FretStk,
       bo_source_owner_seq = Some seq, bo_source_epoch = Some epoch,
       bo_call_materialization_kind = None, bo_target_source_kind = None\<rparr>)"

definition boundary_owner_for ::
  "usize \<Rightarrow> u64 option \<Rightarrow> StageQueues \<Rightarrow> CycleUop list \<Rightarrow> boundary_owner option" where
  "boundary_owner_for seq target_pc p uops =
     (let uop = uops ! seq;
          mnemonic = di_mnemonic (uo_decoded uop);
          boundary_kind = branch_owner_kind_for_uop uop;
          active_kind = bc_kind (sq_active_branch_context p)
      in if mnemonic = ''FRET.RA'' then map_option (\<lambda>t. fret_ra_owner seq t p uops) target_pc
         else if mnemonic = ''FRET.STK'' then map_option (\<lambda>t. fret_stk_owner seq t p uops) target_pc
         else if mnemonic \<in> {''BSTOP'', ''C.BSTOP''} \<and> is_dynamic_kind active_kind
         then (case sq_active_dynamic_target_owner_kind p of None \<Rightarrow> None
               | Some owner_kind \<Rightarrow>
                   active_target_owner (then_some (active_kind = BoRet) owner_kind) p)
         else if boundary_kind = BoRet
         then (case sq_active_dynamic_target_owner_kind p of None \<Rightarrow> None
               | Some owner_kind \<Rightarrow> active_target_owner (Some owner_kind) p)
         else if boundary_kind \<in> {BoInd, BoICall} then active_target_owner None p
         else None)"

definition bt_insert_opt :: "'k::linorder \<Rightarrow> 'v option \<Rightarrow> ('k, 'v) btree_map \<Rightarrow> ('k, 'v) btree_map" where
  "bt_insert_opt k v m = (case v of None \<Rightarrow> m | Some x \<Rightarrow> bt_insert k x m)"

definition record_boundary_owner :: "usize \<Rightarrow> boundary_owner \<Rightarrow> StageQueues \<Rightarrow> StageQueues" where
  "record_boundary_owner seq bo p =
     p\<lparr>sq_seq_boundary_target_pcs :=
         bt_insert seq (bo_target_pc bo) (sq_seq_boundary_target_pcs p),
       sq_seq_boundary_target_owner_seqs :=
         bt_insert seq (bo_owner_seq bo) (sq_seq_boundary_target_owner_seqs p),
       sq_seq_boundary_target_producer_kinds :=
         bt_insert_opt seq (bo_producer_kind bo) (sq_seq_boundary_target_producer_kinds p),
       sq_seq_boundary_target_setup_epochs :=
         bt_insert_opt seq (bo_setup_epoch bo) (sq_seq_boundary_target_setup_epochs p),
       sq_seq_boundary_target_source_owner_seqs :=
         bt_insert_opt seq (bo_source_owner_seq bo) (sq_seq_boundary_target_source_owner_seqs p),
       sq_seq_boundary_target_source_epochs :=
         bt_insert_opt seq (bo_source_epoch bo) (sq_seq_boundary_target_source_epochs p),
       sq_seq_boundary_target_source_kinds :=
         bt_insert_opt seq (bo_target_source_kind bo) (sq_seq_boundary_target_source_kinds p),
       sq_seq_return_consumer_kinds :=
         bt_insert_opt seq (bo_return_kind bo) (sq_seq_return_consumer_kinds p),
       sq_seq_call_materialization_kinds :=
         bt_insert_opt seq (bo_call_materialization_kind bo) (sq_seq_call_materialization_kinds p)\<rparr>"

definition update_dynamic_target_owner ::
  "usize \<Rightarrow> StageQueues \<Rightarrow> CycleUop list \<Rightarrow> StageQueues" where
  "update_dynamic_target_owner seq p uops =
     (let uop = uops ! seq;
          target_pc = dynamic_target_of_uop uop p;
          p1 = p\<lparr>sq_seq_dynamic_target_pcs :=
                   bt_insert_opt seq target_pc (sq_seq_dynamic_target_pcs p)\<rparr>;
          p2 = (if di_mnemonic (uo_decoded uop) \<in> {''SETC.TGT'', ''C.SETC.TGT''}
                then apply_setc_tgt seq target_pc p1 uops else p1)
      in case boundary_owner_for seq target_pc p2 uops of None \<Rightarrow> p2
         | Some bo \<Rightarrow> record_boundary_owner seq bo p2)"

section \<open>Call headers at dispatch\<close>

definition record_call_return ::
  "usize \<Rightarrow> usize \<Rightarrow> u64 \<Rightarrow> u16 \<Rightarrow> CallMaterializationKind \<Rightarrow> StageQueues \<Rightarrow> StageQueues" where
  "record_call_return row owner target_pc target_epoch kind p =
     p\<lparr>sq_seq_call_return_target_pcs := bt_insert row target_pc (sq_seq_call_return_target_pcs p),
       sq_seq_call_return_target_owner_seqs :=
         bt_insert row owner (sq_seq_call_return_target_owner_seqs p),
       sq_seq_call_return_target_epochs :=
         bt_insert row target_epoch (sq_seq_call_return_target_epochs p),
       sq_seq_call_materialization_kinds :=
         bt_insert row kind (sq_seq_call_materialization_kinds p)\<rparr>"

definition activate_call_return ::
  "usize \<Rightarrow> u64 \<Rightarrow> u16 \<Rightarrow> CallMaterializationKind \<Rightarrow> StageQueues \<Rightarrow> StageQueues" where
  "activate_call_return owner target_pc target_epoch kind p =
     p\<lparr>sq_active_call_return_target_pc := Some target_pc,
       sq_active_call_return_target_owner_seq := Some owner,
       sq_active_call_return_target_epoch := Some target_epoch,
       sq_active_call_return_materialization_kind := Some kind\<rparr>"

definition update_call_header_owner :: "usize \<Rightarrow> StageQueues \<Rightarrow> CycleUop list \<Rightarrow> StageQueues" where
  "update_call_header_owner seq p uops =
     (let uop = uops ! seq;
          setret = is_setret (uo_decoded uop);
          epoch = recovery_epoch_for_seq seq p uops;
          p1 = (case sq_active_call_header_seq p of None \<Rightarrow> p
                | Some header \<Rightarrow>
                    if seq \<noteq> sat_add header 1 \<or> \<not> setret
                    then p\<lparr>sq_active_call_header_seq := None\<rparr> else p)
      in if is_call_header_uop uop
         then let p2 = p1\<lparr>sq_active_call_header_seq := None\<rparr>
              in (case call_return_target_pc uop of
                    Some target_pc \<Rightarrow>
                      activate_call_return seq target_pc epoch FusedCall
                        (record_call_return seq seq target_pc epoch FusedCall p2)
                  | None \<Rightarrow> p2\<lparr>sq_active_call_header_seq := Some seq\<rparr>)
         else if setret
         then (case opt_filter (\<lambda>header. seq = sat_add header 1) (sq_active_call_header_seq p1) of
                 Some header \<Rightarrow>
                   (case call_return_target_pc uop of
                      Some target_pc \<Rightarrow>
                        activate_call_return seq target_pc epoch AdjacentSetret
                          (record_call_return seq seq target_pc epoch AdjacentSetret
                            (record_call_return header seq target_pc epoch AdjacentSetret p1))
                    | None \<Rightarrow> p1)\<lparr>sq_active_call_header_seq := None\<rparr>
               | None \<Rightarrow>
                   p1\<lparr>sq_seq_call_materialization_kinds :=
                        bt_insert seq AdjacentSetret (sq_seq_call_materialization_kinds p1),
                      sq_seq_call_header_faults :=
                        bt_insert seq TRAP_SETRET_NOT_ADJACENT (sq_seq_call_header_faults p1),
                      sq_active_call_header_seq := None\<rparr>)
         else p1)"

section \<open>Fetch\<close>

function fetch_loop ::
  "CycleUop list \<Rightarrow> usize list \<Rightarrow> usize \<Rightarrow> usize list \<Rightarrow> usize list \<times> usize \<times> usize list" where
  "fetch_loop uops f0 next_fetch_seq fetched =
     (if length f0 < FETCH_WIDTH \<and> next_fetch_seq < length uops
      then if (case unresolved_redirect_barrier next_fetch_seq uops of None \<Rightarrow> False
               | Some barrier_seq \<Rightarrow> barrier_seq < next_fetch_seq)
           then (f0, next_fetch_seq, fetched)
           else if uo_redirect_target (uops ! next_fetch_seq) \<noteq> None
           then (f0 @ [next_fetch_seq], next_fetch_seq + 1, fetched @ [next_fetch_seq])
           else fetch_loop uops (f0 @ [next_fetch_seq]) (next_fetch_seq + 1) (fetched @ [next_fetch_seq])
      else (f0, next_fetch_seq, fetched))"
  by pat_completeness auto
termination
  by (relation "measure (\<lambda>(uops, f0, next_fetch_seq, fetched). length uops - next_fetch_seq)") auto

declare fetch_loop.simps [simp del]

definition fetch_packet :: "StageQueues \<Rightarrow> usize \<Rightarrow> CycleUop list \<Rightarrow> StageQueues \<times> usize" where
  "fetch_packet p next_fetch_seq uops =
     (let (f0, next_fetch_seq', fetched) = fetch_loop uops (sq_frontend p ! 0) next_fetch_seq [];
          p1 = p\<lparr>sq_frontend := (sq_frontend p)[0 := f0]\<rparr>
      in (case fetched of [] \<Rightarrow> p1
          | packet_head_seq # _ \<Rightarrow>
              p1\<lparr>sq_seq_checkpoint_ids :=
                   fold (\<lambda>seq. bt_or_insert seq
                          (packet_checkpoint_id (cr_pc (uo_commit (uops ! packet_head_seq)))))
                     fetched (sq_seq_checkpoint_ids p1)\<rparr>,
          next_fetch_seq'))"

definition fill_fetch :: "cyc \<Rightarrow> StageQueues \<Rightarrow> usize \<Rightarrow> CycleUop list \<Rightarrow> StageQueues \<times> usize" where
  "fill_fetch cycle p next_fetch_seq uops =
     (case sq_frontend_redirect p of
        Some redirect \<Rightarrow>
          if cycle < fr_resume_cycle redirect then (p, next_fetch_seq)
          else fetch_packet (p\<lparr>sq_frontend_redirect := None\<rparr>) (fr_restart_seq redirect) uops
      | None \<Rightarrow> fetch_packet p next_fetch_seq uops)"

section \<open>Dispatch\<close>

definition clear_active_dynamic_target :: "StageQueues \<Rightarrow> StageQueues" where
  "clear_active_dynamic_target p =
     p\<lparr>sq_active_dynamic_target_pc := None,
       sq_active_dynamic_target_owner_seq := None,
       sq_active_dynamic_target_producer_kind := None,
       sq_active_dynamic_target_setup_epoch := None,
       sq_active_dynamic_target_owner_kind := None,
       sq_active_dynamic_target_source_owner_seq := None,
       sq_active_dynamic_target_source_epoch := None,
       sq_active_dynamic_target_source_kind := None,
       sq_active_dynamic_target_call_materialization_kind := None\<rparr>"

definition enter_recovery_checkpoint :: "usize \<Rightarrow> StageQueues \<Rightarrow> CycleUop list \<Rightarrow> StageQueues \<times> u8" where
  "enter_recovery_checkpoint seq p uops =
     (if is_start_marker (uo_decoded (uops ! seq))
      then let checkpoint_id = live_rob_checkpoint_id_for_seq seq p uops
           in (snapshot_ready_tables_for_checkpoint
                 (p\<lparr>sq_seq_rob_checkpoint_ids := bt_insert seq checkpoint_id (sq_seq_rob_checkpoint_ids p),
                    sq_active_recovery_checkpoint_id := checkpoint_id\<rparr>) checkpoint_id,
               checkpoint_id)
      else (p, sq_active_recovery_checkpoint_id p))"

text \<open>The bookkeeping of one dispatched uop: everything the loop does before it decides
  whether the uop leaves S2.\<close>

definition dispatch_context :: "usize \<Rightarrow> StageQueues \<Rightarrow> CycleUop list \<Rightarrow> StageQueues" where
  "dispatch_context seq p uops =
     (let uop = uops ! seq; decoded = uo_decoded uop;
          is_call_header = is_call_header_uop uop;
          is_bstart_head = (is_bstart decoded \<and> sq_active_block_head p);
          is_bstart_mid = (is_bstart decoded \<and> \<not> sq_active_block_head p);
          is_boundary = (is_bstart_mid \<or> is_bstop decoded \<or> is_macro_boundary decoded);
          (p1, recovery_checkpoint_id) = enter_recovery_checkpoint seq p uops;
          p2 = p1\<lparr>sq_seq_recovery_checkpoint_ids :=
                    bt_insert seq recovery_checkpoint_id (sq_seq_recovery_checkpoint_ids p1),
                  sq_seq_recovery_epochs :=
                    bt_insert seq (sq_active_recovery_epoch p1) (sq_seq_recovery_epochs p1),
                  sq_seq_branch_contexts :=
                    bt_insert seq (sq_active_branch_context p1) (sq_seq_branch_contexts p1)\<rparr>;
          p3 = update_call_header_owner seq (update_dynamic_target_owner seq p2 uops) uops;
          p4 = (if is_boundary then p3\<lparr>sq_active_block_head := True\<rparr> else p3);
          p5 = (if is_bstart_head then p4\<lparr>sq_active_block_head := False\<rparr> else p4)
      in if is_boundary \<or> is_bstart_head
         then let epoch = sq_active_recovery_epoch p5 + 1;
                  p6 = p5\<lparr>sq_active_recovery_epoch := epoch\<rparr>;
                  p7 = p6\<lparr>sq_active_branch_context :=
                     (unwrap_or (boundary_context_from_uop seq uop p6) default_branch_context)
                       \<lparr>bc_epoch := epoch\<rparr>\<rparr>;
                  p8 = clear_active_dynamic_target p7
              in if is_call_header then p8 else p8\<lparr>sq_active_call_header_seq := None\<rparr>
         else p5)"

record dispatch_state =
  ds_pipe :: StageQueues
  ds_iq :: "IqEntry list"
  ds_uops :: "CycleUop list"
  ds_stay :: "usize list"
  ds_ports :: "usize list"

definition get_or_insert :: "'a option \<Rightarrow> 'a \<Rightarrow> 'a option" where
  "get_or_insert x v = (case x of None \<Rightarrow> Some v | Some y \<Rightarrow> Some y)"

definition dispatch_bypass :: "cyc \<Rightarrow> usize \<Rightarrow> dispatch_state \<Rightarrow> dispatch_state" where
  "dispatch_bypass cycle seq st =
     (let uop = ds_uops st ! seq; p = ds_pipe st;
          uop' = uop\<lparr>uo_pick_wakeup_visible := get_or_insert (uo_pick_wakeup_visible uop) (cycle + 1),
                     uo_data_ready_visible := get_or_insert (uo_data_ready_visible uop) (cycle + 1),
                     uo_phys_iq := Some CmdIq\<rparr>;
          st' = st\<lparr>ds_uops := (ds_uops st)[seq := uop']\<rparr>
      in if length (sq_w2 p) < ISSUE_WIDTH
         then st'\<lparr>ds_pipe := p\<lparr>sq_w2 := sq_w2 p @ [seq]\<rparr>\<rparr>
         else st'\<lparr>ds_stay := ds_stay st @ [seq]\<rparr>)"

definition dispatch_enqueue :: "cyc \<Rightarrow> usize \<Rightarrow> dispatch_state \<Rightarrow> dispatch_state" where
  "dispatch_enqueue cycle seq st =
     (let p = ds_pipe st; stays = st\<lparr>ds_stay := ds_stay st @ [seq]\<rparr> in
      case route_phys_iq seq (ds_iq st) (ds_uops st) (ds_ports st) of None \<Rightarrow> stays
      | Some phys_iq \<Rightarrow>
     (case allocate_qtag (sq_iq_tags p) phys_iq of None \<Rightarrow> stays
      | Some qtag \<Rightarrow>
          if IQ_ENQUEUE_PORTS \<le> ds_ports st ! phys_iq_index phys_iq then stays
          else
            let q = phys_iq_index phys_iq;
                uops1 = (ds_uops st)[seq := (ds_uops st ! seq)
                          \<lparr>uo_phys_iq := Some phys_iq, uo_dst_qtag := Some qtag\<rparr>];
                tags = bt_insert seq qtag (sq_iq_tags p);
                uops2 = annotate_qtag_sources seq tags (sq_ready_table_t p) (sq_ready_table_u p) uops1
            in st\<lparr>ds_pipe := p\<lparr>sq_iq_tags := tags,
                     sq_qtag_wait_crossbar :=
                       register_iq_wait_crossbar_entry (sq_qtag_wait_crossbar p) seq (uops2 ! seq)\<rparr>,
                  ds_iq := ds_iq st @ [make_iq_entry cycle seq phys_iq (sq_ready_table_t p)
                                         (sq_ready_table_u p) uops2],
                  ds_uops := uops2,
                  ds_ports := (ds_ports st)[q := ds_ports st ! q + 1]\<rparr>))"

definition dispatch_one :: "cyc \<Rightarrow> usize \<Rightarrow> dispatch_state \<Rightarrow> dispatch_state" where
  "dispatch_one cycle seq st =
     (let st1 = st\<lparr>ds_pipe := dispatch_context seq (ds_pipe st) (ds_uops st)\<rparr>
      in if uo_bypass_d2 (ds_uops st1 ! seq) then dispatch_bypass cycle seq st1
         else dispatch_enqueue cycle seq st1)"

definition dispatch_to_iq_and_bypass ::
  "cyc \<Rightarrow> StageQueues \<Rightarrow> IqEntry list \<Rightarrow> CycleUop list \<Rightarrow> StageQueues \<times> IqEntry list \<times> CycleUop list" where
  "dispatch_to_iq_and_bypass cycle p iq uops =
     (let st = fold (dispatch_one cycle) (sq_frontend p ! 10)
                 \<lparr>ds_pipe = p\<lparr>sq_frontend := (sq_frontend p)[10 := []]\<rparr>, ds_iq = iq, ds_uops = uops,
                  ds_stay = [], ds_ports = replicate PHYS_IQ_COUNT 0\<rparr>;
          p1 = (ds_pipe st)\<lparr>sq_frontend := (sq_frontend (ds_pipe st))[10 := ds_stay st]\<rparr>
      in (p1\<lparr>sq_iq_owner_table :=
               rebuild_iq_owner_table (sq_iq_owner_table p1) (ds_iq st) (sq_iq_tags p1)\<rparr>,
          ds_iq st, ds_uops st))"

section \<open>Advancing the frontend stages\<close>

fun frontend_advance_simple :: "usize list \<Rightarrow> usize list \<Rightarrow> nat \<Rightarrow> usize list \<times> usize list" where
  "frontend_advance_simple dst [] cap = (dst, [])"
| "frontend_advance_simple dst (seq # src) cap =
     (if length dst < cap then frontend_advance_simple (dst @ [seq]) src cap else (dst, seq # src))"

definition rob_push :: "usize list \<Rightarrow> usize list \<Rightarrow> usize list" where
  "rob_push prev rob = fold (\<lambda>seq r. if seq \<in> set r then r else r @ [seq]) prev rob"

definition advance_stage ::
  "nat \<Rightarrow> usize list list \<times> usize list \<Rightarrow> usize list list \<times> usize list" where
  "advance_stage idx st =
     (let (fe, rob) = st; prev = fe ! (idx - 1) in
      if idx = 7 \<and> ROB_CAPACITY < length rob + length (filter (\<lambda>seq. seq \<notin> set rob) prev)
      then (fe, rob)
      else let (dst, src) = frontend_advance_simple (fe ! idx) prev DISPATCH_WIDTH
           in (fe[idx := dst, idx - 1 := src], if idx = 7 then rob_push prev rob else rob))"

definition advance_frontend :: "StageQueues \<Rightarrow> usize list \<Rightarrow> StageQueues \<times> usize list" where
  "advance_frontend p rob =
     (let (fe, rob') = fold advance_stage (rev [1 ..< length FRONTEND_STAGE_NAMES]) (sq_frontend p, rob)
      in (p\<lparr>sq_frontend := fe\<rparr>, rob'))"

section \<open>Lemmas\<close>

interpretation frontend_mover: greedy_loop frontend_advance_simple
  by unfold_locales simp_all

lemmas frontend_advance_simple_closed [stage_simps] = frontend_mover.move_closed_form

section \<open>Dispatch bookkeeping leaves the stages alone\<close>

text \<open>The part of the pipeline state that dispatch bookkeeping never touches.\<close>

definition stage_view where
  "stage_view p =
     (sq_frontend p, sq_frontend_redirect p, sq_pending_flush p, sq_pending_bru_correction p,
      sq_pending_trap p, sq_iq_tags p, sq_iq_owner_table p, sq_qtag_wait_crossbar p,
      sq_ready_table_t p, sq_ready_table_u p, sq_liq p, sq_lhq p, sq_mdb p, sq_stq p, sq_scb p,
      sq_l1d p, sq_p1 p, sq_i1 p, sq_i2 p, sq_e1 p, sq_e2 p, sq_e3 p, sq_e4 p, sq_w1 p, sq_w2 p,
      sq_lsid_issue_ptr p, sq_lsid_complete_ptr p, sq_lsid_cache_ptr p)"

lemma view_apply_setc [simp]: "stage_view (apply_setc_tgt seq t p uops) = stage_view p"
  by (simp add: apply_setc_tgt_def stage_view_def Let_def)

lemma view_record_owner [simp]: "stage_view (record_boundary_owner seq bo p) = stage_view p"
  by (simp add: record_boundary_owner_def stage_view_def)

lemma view_dyn [simp]: "stage_view (update_dynamic_target_owner seq p uops) = stage_view p"
proof -
  have "stage_view (p\<lparr>sq_seq_dynamic_target_pcs := x\<rparr>) = stage_view p" for x
    by (simp add: stage_view_def)
  then show ?thesis
    by (simp add: update_dynamic_target_owner_def Let_def split: option.split)
qed

lemma view_record_call [simp]: "stage_view (record_call_return r ow t e k p) = stage_view p"
  by (simp add: record_call_return_def stage_view_def)

lemma view_activate_call [simp]: "stage_view (activate_call_return ow t e k p) = stage_view p"
  by (simp add: activate_call_return_def stage_view_def)

lemma view_upd [simp]:
  "stage_view (p\<lparr>sq_active_call_header_seq := h\<rparr>) = stage_view p"
  "stage_view (p\<lparr>sq_seq_call_materialization_kinds := m\<rparr>) = stage_view p"
  "stage_view (p\<lparr>sq_seq_call_header_faults := f\<rparr>) = stage_view p"
  "stage_view (p\<lparr>sq_active_block_head := b\<rparr>) = stage_view p"
  "stage_view (p\<lparr>sq_active_recovery_epoch := ep\<rparr>) = stage_view p"
  "stage_view (p\<lparr>sq_active_branch_context := c\<rparr>) = stage_view p"
  "stage_view (p\<lparr>sq_seq_recovery_checkpoint_ids := i\<rparr>) = stage_view p"
  "stage_view (p\<lparr>sq_seq_recovery_epochs := es\<rparr>) = stage_view p"
  "stage_view (p\<lparr>sq_seq_branch_contexts := bs\<rparr>) = stage_view p"
  "stage_view (p\<lparr>sq_seq_checkpoint_ids := ci\<rparr>) = stage_view p"
  "stage_view (p\<lparr>sq_active_recovery_checkpoint_id := ai\<rparr>) = stage_view p"
  "stage_view (p\<lparr>sq_flush_checkpoint_id := fi\<rparr>) = stage_view p"
  by (simp_all add: stage_view_def)

lemma view_call_header [simp]: "stage_view (update_call_header_owner seq p uops) = stage_view p"
  by (auto simp: update_call_header_owner_def Let_def split: option.split)

lemma view_clear [simp]: "stage_view (clear_active_dynamic_target p) = stage_view p"
  by (simp add: clear_active_dynamic_target_def stage_view_def)

lemma view_enter [simp]: "stage_view (fst (enter_recovery_checkpoint seq p uops)) = stage_view p"
  by (simp add: enter_recovery_checkpoint_def snapshot_ready_tables_for_checkpoint_def stage_view_def Let_def)

lemma view_dispatch_context [simp]: "stage_view (dispatch_context seq p uops) = stage_view p"
  by (simp add: dispatch_context_def Let_def case_prod_beta)

lemma stage_view_fields:
  assumes "stage_view q = stage_view p"
  shows "sq_frontend q = sq_frontend p" "sq_frontend_redirect q = sq_frontend_redirect p"
    "sq_pending_flush q = sq_pending_flush p" "sq_iq_tags q = sq_iq_tags p"
    "sq_iq_owner_table q = sq_iq_owner_table p" "sq_qtag_wait_crossbar q = sq_qtag_wait_crossbar p"
    "sq_ready_table_t q = sq_ready_table_t p" "sq_ready_table_u q = sq_ready_table_u p"
    "sq_liq q = sq_liq p" "sq_scb q = sq_scb p" "sq_l1d q = sq_l1d p"
    "sq_stq q = sq_stq p" "sq_lhq q = sq_lhq p" "sq_mdb q = sq_mdb p"
    "sq_p1 q = sq_p1 p" "sq_i1 q = sq_i1 p" "sq_i2 q = sq_i2 p" "sq_e1 q = sq_e1 p" "sq_e2 q = sq_e2 p"
    "sq_e3 q = sq_e3 p" "sq_e4 q = sq_e4 p" "sq_w1 q = sq_w1 p" "sq_w2 q = sq_w2 p"
    "sq_pending_trap q = sq_pending_trap p" "sq_lsid_cache_ptr q = sq_lsid_cache_ptr p"
    "sq_lsid_issue_ptr q = sq_lsid_issue_ptr p" "sq_pending_bru_correction q = sq_pending_bru_correction p"
  using assms by (simp_all add: stage_view_def)

lemmas dispatch_context_frame [simp] = stage_view_fields [OF view_dispatch_context]

section \<open>Conservation of uops in the frontend\<close>

text \<open>What a dispatch step leaves alone: everything but W2 and the issue-queue tables.\<close>

definition dispatch_view where
  "dispatch_view p =
     (sq_frontend p, sq_frontend_redirect p, sq_pending_flush p, sq_pending_trap p,
      sq_liq p, sq_l1d p, sq_p1 p, sq_i1 p, sq_i2 p, sq_e1 p, sq_e2 p, sq_e3 p, sq_e4 p, sq_w1 p,
      sq_scb p, sq_stq p, sq_lhq p, sq_mdb p)"

definition dispatched :: "dispatch_state \<Rightarrow> usize multiset" where
  "dispatched st = mset (iq_seqs (ds_iq st)) + mset (sq_w2 (ds_pipe st)) + mset (ds_stay st)"

definition dispatch_ok :: "dispatch_state \<Rightarrow> bool" where
  "dispatch_ok st =
     (tags_inv (ds_iq st) (sq_iq_tags (ds_pipe st)) \<and>
      pick_inv (sq_p1 (ds_pipe st)) (sq_i1 (ds_pipe st)) (ds_iq st) \<and>
      length (sq_w2 (ds_pipe st)) \<le> ISSUE_WIDTH \<and>
      (\<forall>q. iq_occupancy (ds_iq st) q \<le> IQ_CAPACITY))"

definition frontend_ok :: "usize list list \<Rightarrow> bool" where
  "frontend_ok fe = (length fe = 11 \<and> (\<forall>q \<in> set fe. length q \<le> DISPATCH_WIDTH))"

text \<open>Everything in the frontend and the issue queues, and what dispatch keeps of it.\<close>

definition dispatch_pre :: "StageQueues \<Rightarrow> IqEntry list \<Rightarrow> bool" where
  "dispatch_pre p iq =
     (frontend_ok (sq_frontend p) \<and>
      tags_inv iq (sq_iq_tags p) \<and> pick_inv (sq_p1 p) (sq_i1 p) iq \<and>
      length (sq_w2 p) \<le> ISSUE_WIDTH \<and> (\<forall>q. iq_occupancy iq q \<le> IQ_CAPACITY))"

definition rob_ok :: "usize list \<Rightarrow> bool" where
  "rob_ok rob = (distinct rob \<and> length rob \<le> ROB_CAPACITY)"

lemma dispatch_view_fields:
  assumes "dispatch_view q = dispatch_view p"
  shows "sq_frontend q = sq_frontend p" "sq_frontend_redirect q = sq_frontend_redirect p"
    "sq_pending_flush q = sq_pending_flush p" "sq_pending_trap q = sq_pending_trap p"
    "sq_liq q = sq_liq p" "sq_l1d q = sq_l1d p"
    "sq_p1 q = sq_p1 p" "sq_i1 q = sq_i1 p" "sq_i2 q = sq_i2 p" "sq_e1 q = sq_e1 p" "sq_e2 q = sq_e2 p"
    "sq_e3 q = sq_e3 p" "sq_e4 q = sq_e4 p" "sq_w1 q = sq_w1 p" "sq_scb q = sq_scb p"
    "sq_stq q = sq_stq p" "sq_lhq q = sq_lhq p" "sq_mdb q = sq_mdb p"
  using assms by (simp_all add: dispatch_view_def)

lemma stage_view_dispatch_view: "stage_view q = stage_view p \<Longrightarrow> dispatch_view q = dispatch_view p"
  by (simp add: stage_view_def dispatch_view_def)

lemma route_phys_iq_room:
  "route_phys_iq seq iq uops ports = Some q \<Longrightarrow>
     ports ! phys_iq_index q < IQ_ENQUEUE_PORTS \<and> iq_occupancy iq q < capacity q"
  by (auto simp: route_phys_iq_def find_Some_iff)

lemma make_iq_entry_sel [simp]:
  "ie_seq (make_iq_entry cycle seq q rt ru uops) = seq"
  "ie_phys_iq (make_iq_entry cycle seq q rt ru uops) = q"
  "ie_inflight (make_iq_entry cycle seq q rt ru uops) = False"
  using make_iq_entry_key [of cycle seq q rt ru uops] by (simp_all add: entry_key_def)

text \<open>Where one uop goes: to W2, to an issue queue with a fresh tag, or back to S2.\<close>

lemma dispatch_one_cases:
  obtains (bypass) p' us where "dispatch_one cycle seq st =
      st\<lparr>ds_uops := us, ds_pipe := p'\<lparr>sq_w2 := sq_w2 p' @ [seq]\<rparr>\<rparr>"
      "stage_view p' = stage_view (ds_pipe st)" "length (sq_w2 (ds_pipe st)) < ISSUE_WIDTH"
  | (stay) p' us where "dispatch_one cycle seq st =
      st\<lparr>ds_pipe := p', ds_uops := us, ds_stay := ds_stay st @ [seq]\<rparr>"
      "stage_view p' = stage_view (ds_pipe st)"
  | (enqueue) p' us q t e xb where "dispatch_one cycle seq st =
      st\<lparr>ds_pipe := p'\<lparr>sq_iq_tags := bt_insert seq t (sq_iq_tags p'), sq_qtag_wait_crossbar := xb\<rparr>,
         ds_iq := ds_iq st @ [e], ds_uops := us,
         ds_ports := (ds_ports st)[phys_iq_index q := ds_ports st ! phys_iq_index q + 1]\<rparr>"
      "stage_view p' = stage_view (ds_pipe st)" "allocate_qtag (sq_iq_tags (ds_pipe st)) q = Some t"
      "ds_ports st ! phys_iq_index q < IQ_ENQUEUE_PORTS" "iq_occupancy (ds_iq st) q < capacity q"
      "ie_seq e = seq" "ie_phys_iq e = q" "\<not> ie_inflight e"
proof -
  let ?p = "dispatch_context seq (ds_pipe st) (ds_uops st)"
  let ?st = "st\<lparr>ds_pipe := ?p\<rparr>"
  have view: "stage_view ?p = stage_view (ds_pipe st)" by simp
  note stay_rule = stay [OF _ view] and enqueue_rule = enqueue [OF _ view]
  show thesis
  proof (cases "uo_bypass_d2 (ds_uops st ! seq)")
    case True
    then have one: "dispatch_one cycle seq st = dispatch_bypass cycle seq ?st"
      by (simp add: dispatch_one_def Let_def)
    show thesis
    proof (cases "length (sq_w2 ?p) < ISSUE_WIDTH")
      case True
      then show thesis by (intro bypass [OF _ view]) (simp_all add: one dispatch_bypass_def Let_def)
    next
      case False
      then show thesis by (intro stay_rule) (simp add: one dispatch_bypass_def Let_def)
    qed
  next
    case False
    then have one: "dispatch_one cycle seq st = dispatch_enqueue cycle seq ?st"
      by (simp add: dispatch_one_def Let_def)
    let ?r = "route_phys_iq seq (ds_iq st) (ds_uops st) (ds_ports st)"
    have returns: thesis if "dispatch_enqueue cycle seq ?st = ?st\<lparr>ds_stay := ds_stay st @ [seq]\<rparr>"
      using that by (intro stay_rule [where us = "ds_uops st"]) (simp add: one)
    show thesis
    proof (cases ?r)
      case None
      then show thesis by (intro returns) (simp add: dispatch_enqueue_def Let_def)
    next
      case route: (Some q)
      note room = route_phys_iq_room [OF route]
      show thesis
      proof (cases "allocate_qtag (sq_iq_tags (ds_pipe st)) q")
        case None
        with route show thesis by (intro returns) (simp add: dispatch_enqueue_def Let_def)
      next
        case (Some t)
        with route room show thesis
          by (intro enqueue_rule [where q = q and t = t])
             (simp add: one dispatch_enqueue_def Let_def, simp_all)
      qed
    qed
  qed
qed

lemma iq_occupancy_append:
  "iq_occupancy (iq @ [e]) q = iq_occupancy iq q + (if ie_phys_iq e = q then 1 else 0)"
  by (simp add: iq_occupancy_def)

lemma inflight_append: "\<not> ie_inflight e \<Longrightarrow> inflight_seqs (iq @ [e]) = inflight_seqs iq"
  by (simp add: inflight_seqs_def)

lemma dispatch_one_spec:
  assumes "dispatch_ok st" and "seq \<notin> set (iq_seqs (ds_iq st))"
  shows "dispatched (dispatch_one cycle seq st) = add_mset seq (dispatched st)"
    and "dispatch_ok (dispatch_one cycle seq st)"
    and "dispatch_view (ds_pipe (dispatch_one cycle seq st)) = dispatch_view (ds_pipe st)"
proof -
  have "dispatched (dispatch_one cycle seq st) = add_mset seq (dispatched st) \<and>
        dispatch_ok (dispatch_one cycle seq st) \<and>
        dispatch_view (ds_pipe (dispatch_one cycle seq st)) = dispatch_view (ds_pipe st)"
  proof (cases rule: dispatch_one_cases [of cycle seq st])
    case (bypass p' us)
    note f = stage_view_fields [OF bypass(2)]
    from assms bypass(3) show ?thesis unfolding bypass(1) using stage_view_dispatch_view [OF bypass(2)]
      by (simp add: dispatched_def dispatch_ok_def f) (simp add: dispatch_view_def)
  next
    case (stay p' us)
    note f = stage_view_fields [OF stay(2)]
    from assms show ?thesis unfolding stay(1) using stage_view_dispatch_view [OF stay(2)]
      by (simp add: dispatched_def dispatch_ok_def f)
  next
    case (enqueue p' us q t e xb)
    note f = stage_view_fields [OF enqueue(2)]
    have "tags_inv (ds_iq st @ [e]) (bt_insert seq t (sq_iq_tags (ds_pipe st)))"
      using assms enqueue(3,6,7) by (intro tags_inv_enqueue) (auto simp: dispatch_ok_def iq_seqs_def)
    moreover have "\<forall>q. iq_occupancy (ds_iq st @ [e]) q \<le> IQ_CAPACITY"
      using assms(1) enqueue(5,7) by (auto simp: iq_occupancy_append dispatch_ok_def capacity_def)
    ultimately have "dispatch_ok (dispatch_one cycle seq st)"
      using assms(1) enqueue(8) unfolding enqueue(1)
      by (simp add: dispatch_ok_def f pick_inv_def inflight_append)
    moreover have "dispatched (dispatch_one cycle seq st) = add_mset seq (dispatched st)"
      unfolding enqueue(1) by (simp add: dispatched_def f iq_seqs_def enqueue(6))
    ultimately show ?thesis using stage_view_dispatch_view [OF enqueue(2)]
      unfolding enqueue(1) by (simp add: dispatch_view_def)
  qed
  then show "dispatched (dispatch_one cycle seq st) = add_mset seq (dispatched st)"
    "dispatch_ok (dispatch_one cycle seq st)"
    "dispatch_view (ds_pipe (dispatch_one cycle seq st)) = dispatch_view (ds_pipe st)" by blast+
qed

lemma dispatch_fold_spec:
  assumes "dispatch_ok st" and "\<And>x. count (mset xs + dispatched st) x \<le> 1"
  shows "dispatched (fold (dispatch_one cycle) xs st) = mset xs + dispatched st \<and>
         dispatch_ok (fold (dispatch_one cycle) xs st) \<and>
         dispatch_view (ds_pipe (fold (dispatch_one cycle) xs st)) = dispatch_view (ds_pipe st)"
  using assms
proof (induction xs arbitrary: st)
  case Nil
  then show ?case by simp
next
  case (Cons seq xs)
  have "count (mset (iq_seqs (ds_iq st))) seq = 0"
    using Cons.prems(2) [of seq] by (simp add: dispatched_def)
  then have "seq \<notin> set (iq_seqs (ds_iq st))" by (simp add: count_mset_0_iff)
  note one = dispatch_one_spec [OF Cons.prems(1) this, of cycle]
  have "count (mset xs + dispatched (dispatch_one cycle seq st)) x \<le> 1" for x
    using Cons.prems(2) [of x] by (simp add: one(1))
  from Cons.IH [OF one(2) this] show ?case by (simp add: one)
qed

lemma concat_update_mset:
  "i < length xss \<Longrightarrow> mset (concat (xss[i := ys])) + mset (xss ! i) = mset (concat xss) + mset ys"
proof -
  assume "i < length xss"
  then have u: "xss[i := ys] = take i xss @ ys # drop (Suc i) xss"
    "xss = take i xss @ xss ! i # drop (Suc i) xss"
    by (simp_all add: upd_conv_take_nth_drop id_take_nth_drop)
  have "mset (concat xss) = mset (concat (take i xss @ xss ! i # drop (Suc i) xss))"
    using u(2) by simp
  then show ?thesis unfolding u(1) by simp
qed

lemma mset_exchange:
  fixes A :: "'a multiset"
  assumes "A' + X = A + S" and "Q' + W' + S = X + (Q + W)"
  shows "A' + Q' + W' = A + Q + W"
proof (rule multiset_eqI)
  fix x
  show "count (A' + Q' + W') x = count (A + Q + W) x"
    using arg_cong [OF assms(1), of "\<lambda>M. count M x"] arg_cong [OF assms(2), of "\<lambda>M. count M x"]
    by simp
qed

lemma dispatch_one_stay: "length (ds_stay (dispatch_one cycle seq st)) \<le> Suc (length (ds_stay st))"
  by (cases rule: dispatch_one_cases [of cycle seq st]) simp_all

lemma dispatch_fold_stay:
  "length (ds_stay (fold (dispatch_one cycle) xs st)) \<le> length (ds_stay st) + length xs"
proof (induction xs arbitrary: st)
  case (Cons x xs)
  show ?case using Cons.IH [of "dispatch_one cycle x st"] dispatch_one_stay [of cycle x st] by simp
qed simp

lemma dispatch_to_iq_and_bypass_spec:
  assumes "dispatch_to_iq_and_bypass cycle p iq uops = (p', iq', uops')" and pre: "dispatch_pre p iq"
    and cnt: "\<And>x. count (mset (concat (sq_frontend p)) + mset (iq_seqs iq) + mset (sq_w2 p)) x \<le> 1"
  shows "dispatch_pre p' iq'"
    and "mset (concat (sq_frontend p')) + mset (iq_seqs iq') + mset (sq_w2 p') =
         mset (concat (sq_frontend p)) + mset (iq_seqs iq) + mset (sq_w2 p)"
    and "dispatch_view p' = dispatch_view (p\<lparr>sq_frontend := sq_frontend p'\<rparr>)"
proof -
  let ?xs = "sq_frontend p ! 10" and ?fe = "(sq_frontend p)[10 := []]"
  let ?st = "\<lparr>ds_pipe = p\<lparr>sq_frontend := ?fe\<rparr>, ds_iq = iq, ds_uops = uops,
                  ds_stay = [], ds_ports = replicate PHYS_IQ_COUNT 0\<rparr>"
  define st where "st = fold (dispatch_one cycle) ?xs ?st"
  have len: "10 < length (sq_frontend p)" using pre by (simp add: dispatch_pre_def frontend_ok_def)
  have take: "mset (concat ?fe) + mset ?xs = mset (concat (sq_frontend p))"
    using concat_update_mset [OF len, of "[]"] by simp
  have ok: "dispatch_ok ?st" using pre by (simp add: dispatch_ok_def dispatch_pre_def)
  have "count (mset ?xs + dispatched ?st) x \<le> 1" for x
    using cnt [of x] by (simp add: dispatched_def flip: take)
  from dispatch_fold_spec [OF ok this, of cycle]
  have st: "dispatched st = mset ?xs + (mset (iq_seqs iq) + mset (sq_w2 p))" "dispatch_ok st"
    "dispatch_view (ds_pipe st) = dispatch_view (p\<lparr>sq_frontend := ?fe\<rparr>)"
    unfolding st_def [symmetric] by (simp_all add: dispatched_def)
  note f = dispatch_view_fields [OF st(3), simplified]
  have out: "p' = (ds_pipe st)\<lparr>sq_frontend := ?fe[10 := ds_stay st],
      sq_iq_owner_table := rebuild_iq_owner_table (sq_iq_owner_table (ds_pipe st)) (ds_iq st) (sq_iq_tags (ds_pipe st))\<rparr>"
    "iq' = ds_iq st"
    using assms(1) unfolding dispatch_to_iq_and_bypass_def Let_def st_def [symmetric] by (auto simp: f)
  have fe': "sq_frontend p' = (sq_frontend p)[10 := ds_stay st]" by (simp add: out)
  have stay: "length (ds_stay st) \<le> length ?xs" using dispatch_fold_stay [of cycle ?xs ?st] by (simp add: st_def)
  have "mset (concat (sq_frontend p')) + mset ?xs = mset (concat (sq_frontend p)) + mset (ds_stay st)"
    unfolding fe' using len by (rule concat_update_mset)
  moreover have "mset (iq_seqs iq') + mset (sq_w2 p') + mset (ds_stay st) =
      mset ?xs + (mset (iq_seqs iq) + mset (sq_w2 p))"
    using st(1) by (simp add: out dispatched_def)
  ultimately show "mset (concat (sq_frontend p')) + mset (iq_seqs iq') + mset (sq_w2 p') =
         mset (concat (sq_frontend p)) + mset (iq_seqs iq) + mset (sq_w2 p)"
    by (rule mset_exchange)
  have "\<forall>q \<in> set (sq_frontend p'). length q \<le> DISPATCH_WIDTH"
  proof -
    have all: "\<forall>q \<in> set (sq_frontend p). length q \<le> DISPATCH_WIDTH" using pre unfolding dispatch_pre_def frontend_ok_def by blast
    with len have "length ?xs \<le> DISPATCH_WIDTH" using nth_mem by blast
    with stay have "length (ds_stay st) \<le> DISPATCH_WIDTH" by (rule le_trans)
    with all show ?thesis unfolding fe' using set_update_subset_insert [of "sq_frontend p" 10 "ds_stay st"]
      by blast
  qed
  then show "dispatch_pre p' iq'"
    using pre st(2) by (simp add: dispatch_pre_def dispatch_ok_def frontend_ok_def fe') (simp add: out f)
  show "dispatch_view p' = dispatch_view (p\<lparr>sq_frontend := sq_frontend p'\<rparr>)"
    using st(3) by (simp add: out dispatch_view_def)
qed

lemma list_update_pair:
  "Suc i < length xs \<Longrightarrow> xs[Suc i := a, i := b] = take i xs @ b # a # drop (Suc (Suc i)) xs"
  by (simp add: upd_conv_take_nth_drop take_Suc_conv_app_nth nth_append)

text \<open>Moving a uop one stage down does not change the frontend read from S2 back to F0.\<close>

lemma concat_rev_move:
  assumes "Suc i < length xs" and "a @ b = xs ! Suc i @ xs ! i"
  shows "concat (rev (xs[Suc i := a, i := b])) = concat (rev xs)"
proof -
  have "xs = take i xs @ xs ! i # xs ! Suc i # drop (Suc (Suc i)) xs"
    using assms(1) by (metis Cons_nth_drop_Suc Suc_lessD id_take_nth_drop)
  then have "concat (rev xs) = concat (rev (take i xs @ xs ! i # xs ! Suc i # drop (Suc (Suc i)) xs))" by simp
  then show ?thesis using assms(2) unfolding list_update_pair [OF assms(1)] by simp
qed

lemma rob_push_spec:
  "\<exists>ys. rob_push prev rob = rob @ ys \<and> set ys = set prev - set rob \<and>
        (distinct rob \<longrightarrow> distinct (rob @ ys)) \<and>
        length ys \<le> length (filter (\<lambda>seq. seq \<notin> set rob) prev)"
proof (induction prev arbitrary: rob)
  case Nil
  then show ?case by (simp add: rob_push_def)
next
  case (Cons x prev)
  show ?case
  proof (cases "x \<in> set rob")
    case True
    then have "rob_push (x # prev) rob = rob_push prev rob" by (simp add: rob_push_def)
    with Cons.IH [of rob] True show ?thesis by auto
  next
    case False
    then have push: "rob_push (x # prev) rob = rob_push prev (rob @ [x])" by (simp add: rob_push_def)
    obtain ys where ys: "rob_push prev (rob @ [x]) = (rob @ [x]) @ ys" "set ys = set prev - set (rob @ [x])"
      "distinct (rob @ [x]) \<longrightarrow> distinct ((rob @ [x]) @ ys)"
      "length ys \<le> length (filter (\<lambda>seq. seq \<notin> set (rob @ [x])) prev)"
      using Cons.IH [of "rob @ [x]"] by blast
    have "length (filter (\<lambda>seq. seq \<notin> set (rob @ [x])) prev) \<le> length (filter (\<lambda>seq. seq \<notin> set rob) prev)"
      by (induction prev) auto
    with ys False push show ?thesis by (intro exI [of _ "x # ys"]) auto
  qed
qed

lemma advance_stage_spec:
  assumes "advance_stage (Suc i) (fe, rob) = (fe', rob')" and "i < 10" and "frontend_ok fe" and "rob_ok rob"
  shows "concat (rev fe') = concat (rev fe) \<and> frontend_ok fe' \<and> rob_ok rob' \<and>
         (\<exists>ys. rob' = rob @ ys \<and> set ys \<subseteq> set (concat fe))"
proof (cases "Suc i = 7 \<and> ROB_CAPACITY < length rob + length (filter (\<lambda>seq. seq \<notin> set rob) (fe ! i))")
  case True
  with assms have "fe' = fe" "rob' = rob" by (auto simp: advance_stage_def)
  with assms(3,4) show ?thesis by simp
next
  case False
  obtain a b where ab: "frontend_advance_simple (fe ! Suc i) (fe ! i) DISPATCH_WIDTH = (a, b)" by fastforce
  with False assms(1) have out: "fe' = fe[Suc i := a, i := b]"
    "rob' = (if Suc i = 7 then rob_push (fe ! i) rob else rob)"
    unfolding advance_stage_def prod.case Let_def diff_Suc_1 by (simp_all only: False if_False ab prod.case) simp_all
  have i: "Suc i < length fe" using assms(2,3) by (simp add: frontend_ok_def)
  have len: "\<forall>q \<in> set fe. length q \<le> DISPATCH_WIDTH" using assms(3) unfolding frontend_ok_def by blast
  have ab': "a @ b = fe ! Suc i @ fe ! i" by (rule frontend_mover.move_conserves [OF ab])
  have "length a \<le> DISPATCH_WIDTH"
    using frontend_mover.move_capacity [of "fe ! Suc i" DISPATCH_WIDTH "fe ! i"] len i ab by simp
  moreover have "length b \<le> DISPATCH_WIDTH"
  proof -
    have "length a = max (length (fe ! Suc i)) (min DISPATCH_WIDTH (length (fe ! Suc i) + length (fe ! i)))"
      by (rule frontend_mover.move_extends [OF ab])
    with arg_cong [OF ab', of length] have "length b \<le> length (fe ! i)" by simp
    with len i show ?thesis using nth_mem [of i fe] by fastforce
  qed
  moreover have "set fe' \<subseteq> insert b (insert a (set fe))"
    unfolding out(1) using set_update_subset_insert [of "fe[Suc i := a]" i b]
      set_update_subset_insert [of fe "Suc i" a] by blast
  ultimately have "frontend_ok fe'"
    using len assms(3) out(1) by (auto simp: frontend_ok_def)
  moreover have "concat (rev fe') = concat (rev fe)" unfolding out(1) using i ab' by (rule concat_rev_move)
  moreover have "rob_ok rob' \<and> (\<exists>ys. rob' = rob @ ys \<and> set ys \<subseteq> set (concat fe))"
  proof (cases "Suc i = 7")
    case True
    obtain ys where ys: "rob' = rob @ ys" "set ys = set (fe ! i) - set rob" "distinct rob \<longrightarrow> distinct (rob @ ys)"
      "length ys \<le> length (filter (\<lambda>seq. seq \<notin> set rob) (fe ! i))"
      using rob_push_spec [of "fe ! i" rob] True out(2) by auto
    have "fe ! i \<in> set fe" using i by simp
    with ys True False assms(4) show ?thesis by (auto simp: rob_ok_def)
  next
    case False
    with out(2) assms(4) show ?thesis by simp
  qed
  ultimately show ?thesis by blast
qed

lemma set_concat_rev: "concat (rev fe') = concat (rev fe) \<Longrightarrow> set (concat fe') = set (concat fe)"
  by (metis set_concat set_rev)

lemma fold_advance_stage_spec:
  assumes "fold advance_stage is (fe, rob) = (fe', rob')" and "\<forall>i \<in> set is. 1 \<le> i \<and> i \<le> 10"
    and "frontend_ok fe" and "rob_ok rob"
  shows "concat (rev fe') = concat (rev fe) \<and> frontend_ok fe' \<and> rob_ok rob' \<and>
         (\<exists>ys. rob' = rob @ ys \<and> set ys \<subseteq> set (concat fe))"
  using assms
proof (induction "is" arbitrary: fe rob)
  case Nil
  then show ?case by simp
next
  case (Cons i "is")
  obtain fe1 rob1 where s: "advance_stage i (fe, rob) = (fe1, rob1)" by fastforce
  obtain k where k: "i = Suc k" "k < 10" using Cons.prems(2) by (cases i) auto
  from advance_stage_spec [OF s [unfolded k(1)] k(2) Cons.prems(3,4)]
  have 1: "concat (rev fe1) = concat (rev fe)" "frontend_ok fe1" "rob_ok rob1"
    "\<exists>ys. rob1 = rob @ ys \<and> set ys \<subseteq> set (concat fe)" by auto
  have f: "fold advance_stage is (fe1, rob1) = (fe', rob')" using Cons.prems(1) s by simp
  from Cons.IH [OF f] Cons.prems(2) 1
  have 2: "concat (rev fe') = concat (rev fe1) \<and> frontend_ok fe' \<and> rob_ok rob' \<and>
         (\<exists>ys. rob' = rob1 @ ys \<and> set ys \<subseteq> set (concat fe1))" by simp
  with 1 set_concat_rev [OF 1(1)] show ?case by auto
qed

lemma advance_frontend_spec:
  assumes "advance_frontend p rob = (p', rob')" and "frontend_ok (sq_frontend p)" and "rob_ok rob"
  shows "concat (rev (sq_frontend p')) = concat (rev (sq_frontend p))" and "frontend_ok (sq_frontend p')"
    and "rob_ok rob'" and "\<exists>ys. rob' = rob @ ys \<and> set ys \<subseteq> set (concat (sq_frontend p))"
    and "p' = p\<lparr>sq_frontend := sq_frontend p'\<rparr>"
proof -
  let ?is = "rev [1 ..< length FRONTEND_STAGE_NAMES]"
  obtain fe r where f: "fold advance_stage ?is (sq_frontend p, rob) = (fe, r)" by fastforce
  have out: "p' = p\<lparr>sq_frontend := fe\<rparr>" "rob' = r"
    using assms(1) unfolding advance_frontend_def f by auto
  have ix: "\<forall>i \<in> set ?is. 1 \<le> i \<and> i \<le> 10" by (auto simp: FRONTEND_STAGE_NAMES_def)
  note spec = fold_advance_stage_spec [OF f ix assms(2,3)]
  show "concat (rev (sq_frontend p')) = concat (rev (sq_frontend p))" "frontend_ok (sq_frontend p')"
    "rob_ok rob'" "\<exists>ys. rob' = rob @ ys \<and> set ys \<subseteq> set (concat (sq_frontend p))"
    "p' = p\<lparr>sq_frontend := sq_frontend p'\<rparr>"
    using spec by (simp_all add: out)
qed

lemma fetch_loop_spec:
  assumes "fetch_loop uops f0 n fetched = (f0', n', fetched')" and "n \<le> length uops"
  shows "\<exists>k. n' = n + k \<and> f0' = f0 @ [n ..< n'] \<and> fetched' = fetched @ [n ..< n'] \<and> n' \<le> length uops \<and>
           length f0' \<le> max FETCH_WIDTH (length f0) \<and>
           (\<forall>i. n \<le> i \<and> Suc i < n' \<longrightarrow> uo_redirect_target (uops ! i) = None)"
  using assms
proof (induction uops f0 n fetched rule: fetch_loop.induct)
  case (1 uops f0 n fetched)
  let ?go = "length f0 < FETCH_WIDTH \<and> n < length uops \<and>
     \<not> (case unresolved_redirect_barrier n uops of None \<Rightarrow> False | Some b \<Rightarrow> b < n)"
  show ?case
  proof (cases "?go \<and> uo_redirect_target (uops ! n) = None")
    case True
    then have loop: "fetch_loop uops (f0 @ [n]) (n + 1) (fetched @ [n]) = (f0', n', fetched')"
      using "1.prems" by (subst (asm) fetch_loop.simps) simp
    obtain k where k: "n' = n + 1 + k" "f0' = (f0 @ [n]) @ [n + 1 ..< n']"
      "fetched' = (fetched @ [n]) @ [n + 1 ..< n']" "n' \<le> length uops"
      "length f0' \<le> max FETCH_WIDTH (length (f0 @ [n]))"
      "\<forall>i. n + 1 \<le> i \<and> Suc i < n' \<longrightarrow> uo_redirect_target (uops ! i) = None"
      using "1.IH" [OF _ _ _ loop] True by auto
    have "[n ..< n'] = n # [n + 1 ..< n']" using k(1) by (simp add: upt_conv_Cons)
    moreover have "uo_redirect_target (uops ! i) = None" if "n \<le> i" "Suc i < n'" for i
      using k(6) True that by (cases "i = n") auto
    ultimately show ?thesis using k True by (intro exI [of _ "Suc k"]) auto
  next
    case stop: False
    show ?thesis
    proof (cases ?go)
      case True
      with stop "1.prems" have "f0' = f0 @ [n]" "n' = n + 1" "fetched' = fetched @ [n]"
        by (subst (asm) fetch_loop.simps; simp)+
      with True show ?thesis by (intro exI [of _ 1]) auto
    next
      case False
      with "1.prems" have "f0' = f0" "n' = n" "fetched' = fetched"
        by (subst (asm) fetch_loop.simps; auto split: if_splits)+
      with "1.prems" show ?thesis by (intro exI [of _ 0]) auto
    qed
  qed
qed

section \<open>Fetch\<close>

lemma fetch_packet_spec:
  assumes "fetch_packet p n uops = (p', n')" and "n \<le> length uops" and "frontend_ok (sq_frontend p)"
  shows "n \<le> n'" and "n' \<le> length uops" and "n' \<le> n + FETCH_WIDTH"
    and "sq_frontend p' = (sq_frontend p)[0 := sq_frontend p ! 0 @ [n ..< n']]"
    and "frontend_ok (sq_frontend p')"
    and "stage_view p' = stage_view (p\<lparr>sq_frontend := sq_frontend p'\<rparr>)"
    and "\<And>i. n \<le> i \<Longrightarrow> Suc i < n' \<Longrightarrow> uo_redirect_target (uops ! i) = None"
proof -
  let ?f0 = "sq_frontend p ! 0"
  obtain f0 m fetched where loop: "fetch_loop uops ?f0 n [] = (f0, m, fetched)"
    by (cases "fetch_loop uops ?f0 n []") auto
  from fetch_loop_spec [OF loop assms(2)] have spec: "n \<le> m" "f0 = ?f0 @ [n ..< m]" "m \<le> length uops"
    "length f0 \<le> max FETCH_WIDTH (length ?f0)"
    "\<And>i. n \<le> i \<Longrightarrow> Suc i < m \<Longrightarrow> uo_redirect_target (uops ! i) = None" by auto
  have n': "n' = m" and fe: "sq_frontend p' = (sq_frontend p)[0 := f0]"
    and view: "stage_view p' = stage_view (p\<lparr>sq_frontend := (sq_frontend p)[0 := f0]\<rparr>)"
    using assms(1) unfolding fetch_packet_def loop Let_def prod.case
    by (cases fetched; auto simp: stage_view_def)+
  have ok: "\<forall>q \<in> set (sq_frontend p). length q \<le> DISPATCH_WIDTH" "length (sq_frontend p) = 11"
    using assms(3) unfolding frontend_ok_def by blast+
  then have l0: "length ?f0 \<le> DISPATCH_WIDTH" by (simp add: nth_mem)
  with spec(4) have f0: "length f0 \<le> DISPATCH_WIDTH" by simp
  show "n \<le> n'" "n' \<le> length uops" "\<And>i. n \<le> i \<Longrightarrow> Suc i < n' \<Longrightarrow> uo_redirect_target (uops ! i) = None"
    using spec(1,3,5) n' by auto
  show "n' \<le> n + FETCH_WIDTH" using f0 spec(1,2) n' by simp
  show "sq_frontend p' = (sq_frontend p)[0 := ?f0 @ [n ..< n']]" using fe spec(2) n' by simp
  show "frontend_ok (sq_frontend p')"
    using ok f0 set_update_subset_insert [of "sq_frontend p" 0 f0] unfolding fe frontend_ok_def by auto
  show "stage_view p' = stage_view (p\<lparr>sq_frontend := sq_frontend p'\<rparr>)" using view fe by simp
qed

lemma fill_fetch_cases:
  assumes "fill_fetch cycle p n uops = (p', n')"
  obtains (stalled) r where "sq_frontend_redirect p = Some r" "cycle < fr_resume_cycle r" "p' = p" "n' = n"
  | (restart) r where "sq_frontend_redirect p = Some r" "fr_resume_cycle r \<le> cycle"
      "fetch_packet (p\<lparr>sq_frontend_redirect := None\<rparr>) (fr_restart_seq r) uops = (p', n')"
  | (sequential) "sq_frontend_redirect p = None" "fetch_packet p n uops = (p', n')"
  using assms by (auto simp: fill_fetch_def split: option.splits if_splits)

section \<open>Dispatch keeps the static part\<close>

lemma static_annotate: "map uop_static (annotate_qtag_sources seq tags rt ru uops) = map uop_static uops"
proof -
  have "map uop_static (fold (\<lambda>i us. us[seq := (us ! seq)\<lparr>uo_src_qtags := g i us\<rparr>]) is us) = map uop_static us"
    for g "is" us
    by (induction "is" arbitrary: us) (simp_all add: map_static_update)
  then show ?thesis unfolding annotate_qtag_sources_def .
qed

lemma static_dispatch_one: "map uop_static (ds_uops (dispatch_one cycle seq st)) = map uop_static (ds_uops st)"
  by (simp add: dispatch_one_def dispatch_bypass_def dispatch_enqueue_def Let_def static_annotate
      map_static_update split: option.split)

lemma static_dispatch:
  "map uop_static (snd (snd (dispatch_to_iq_and_bypass cycle p iq uops))) = map uop_static uops"
proof -
  have "map uop_static (ds_uops (fold (dispatch_one cycle) xs st)) = map uop_static (ds_uops st)" for xs st
    by (induction xs arbitrary: st) (simp_all add: static_dispatch_one)
  then show ?thesis by (simp add: dispatch_to_iq_and_bypass_def Let_def)
qed

section \<open>Fetch, stage order and dispatch\<close>

text \<open>No unresolved redirect lies before the uop.\<close>

definition fetch_clear :: "usize \<Rightarrow> CycleUop list \<Rightarrow> bool" where
  "fetch_clear n uops = list_all (\<lambda>b. uo_redirect_target (uops ! b) = None \<or> redirect_resolve_cycle (uops ! b) \<noteq> None) [0 ..< n]"

lemma fetch_clear_barrier:
  "(case unresolved_redirect_barrier n uops of None \<Rightarrow> False | Some b \<Rightarrow> b < n) = (\<not> fetch_clear n uops)"
proof (cases "unresolved_redirect_barrier n uops")
  case None
  then have "fetch_clear n uops"
    by (auto simp: unresolved_redirect_barrier_def find_None_iff fetch_clear_def list_all_iff)
  with None show ?thesis by simp
next
  case (Some b)
  then have "b < n \<and> uo_redirect_target (uops ! b) \<noteq> None \<and> redirect_resolve_cycle (uops ! b) = None"
    by (auto simp: unresolved_redirect_barrier_def find_Some_iff)
  then show ?thesis using Some by (auto simp: fetch_clear_def list_all_iff)
qed

lemma fetch_loop_clear:
  "fetch_loop uops f0 n fetched = (f0', n', fetched') \<Longrightarrow>
     list_all (\<lambda>i. fetch_clear i uops) [n ..< n'] \<and>
     (length f0' < FETCH_WIDTH \<and> n' < length uops \<and> fetch_clear n' uops \<longrightarrow>
        n < n' \<and> uo_redirect_target (uops ! (n' - 1)) \<noteq> None)"
proof (induction uops f0 n fetched rule: fetch_loop.induct)
  case (1 uops f0 n fetched)
  let ?go = "length f0 < FETCH_WIDTH \<and> n < length uops"
  show ?case
  proof (cases "?go \<and> fetch_clear n uops")
    case go: True
    then have b: "(case unresolved_redirect_barrier n uops of None \<Rightarrow> False | Some b \<Rightarrow> b < n) = False"
      by (simp add: fetch_clear_barrier)
    show ?thesis
    proof (cases "uo_redirect_target (uops ! n)")
      case None
      have loop: "fetch_loop uops (f0 @ [n]) (n + 1) (fetched @ [n]) = (f0', n', fetched')"
        using "1.prems" go b None by (subst (asm) fetch_loop.simps) simp
      from "1.IH" [OF _ _ _ loop] go b None
      have IH: "list_all (\<lambda>i. fetch_clear i uops) [n + 1 ..< n'] \<and>
        (length f0' < FETCH_WIDTH \<and> n' < length uops \<and> fetch_clear n' uops \<longrightarrow> n + 1 < n' \<and> uo_redirect_target (uops ! (n' - 1)) \<noteq> None)"
        by simp
      have "list_all (\<lambda>i. fetch_clear i uops) [n ..< n']"
        using IH go by (cases "n < n'") (simp_all add: upt_conv_Cons)
      with IH show ?thesis by auto
    next
      case (Some t)
      then have "n' = n + 1" using "1.prems" go b by (subst (asm) fetch_loop.simps) simp
      with Some go show ?thesis by simp
    qed
  next
    case False
    then have "n' = n" "f0' = f0" using "1.prems"
      by (subst (asm) fetch_loop.simps; auto simp: fetch_clear_barrier split: if_splits)+
    with False show ?thesis by auto
  qed
qed

text \<open>C29: fetch. A packet is a run of consecutive uops of the trace appended to F0, at most four of
  them and inside the trace; none is fetched past a redirect that is still unresolved, and only the
  last uop of a packet redirects. Fetch stops early only for a reason: F0 is full, the trace ends,
  an unresolved redirect blocks it, or the packet just ended in a redirect.\<close>

theorem fetch_packet_contiguous:
  assumes "fetch_packet p n uops = (p', n')" and "n \<le> length uops" and "frontend_ok (sq_frontend p)"
  shows "sq_frontend p' = (sq_frontend p)[0 := sq_frontend p ! 0 @ [n ..< n']] \<and>
         n \<le> n' \<and> n' \<le> length uops \<and> n' \<le> n + FETCH_WIDTH \<and>
         (\<forall>i. n \<le> i \<and> i < n' \<longrightarrow> fetch_clear i uops \<and> (Suc i < n' \<longrightarrow> uo_redirect_target (uops ! i) = None)) \<and>
         (length (sq_frontend p' ! 0) < FETCH_WIDTH \<and> n' < length uops \<and> fetch_clear n' uops \<longrightarrow>
            n < n' \<and> uo_redirect_target (uops ! (n' - 1)) \<noteq> None)"
proof -
  obtain f0 m fetched where loop: "fetch_loop uops (sq_frontend p ! 0) n [] = (f0, m, fetched)"
    by (cases "fetch_loop uops (sq_frontend p ! 0) n []") auto
  have len: "0 < length (sq_frontend p)" using assms(3) by (simp add: frontend_ok_def)
  have m: "m = n'" "sq_frontend p' = (sq_frontend p)[0 := f0]"
    using assms(1) by (auto simp: fetch_packet_def loop Let_def split: list.splits)
  note fp = fetch_packet_spec [OF assms]
  from fetch_loop_clear [OF loop] m len fp show ?thesis by (auto simp: list_all_iff)
qed

text \<open>The frontend is a pipeline of queues. Moving the stages keeps the fetched uops in order (read
  from S2 back to F0), no stage exceeds its width, and the reorder buffer only grows at its tail, by
  uops of the frontend, without ever holding one twice or exceeding 128.\<close>

theorem advance_frontend_keeps_order:
  assumes "advance_frontend p rob = (p', rob')" and "frontend_ok (sq_frontend p)" and "rob_ok rob"
  shows "concat (rev (sq_frontend p')) = concat (rev (sq_frontend p)) \<and> frontend_ok (sq_frontend p') \<and>
         (\<exists>ys. rob' = rob @ ys \<and> set ys \<subseteq> set (concat (sq_frontend p))) \<and> distinct rob' \<and> length rob' \<le> ROB_CAPACITY"
  using advance_frontend_spec(1-4) [OF assms] by (simp add: rob_ok_def)

lemma dispatch_fold_ports:
  assumes "\<forall>q. ds_ports st ! phys_iq_index q \<le> IQ_ENQUEUE_PORTS" and "length (ds_ports st) = PHYS_IQ_COUNT"
  shows "let st' = fold (dispatch_one cycle) xs st in
    (\<forall>q. ds_ports st' ! phys_iq_index q \<le> IQ_ENQUEUE_PORTS) \<and>
    (\<forall>q. iq_occupancy (ds_iq st') q + ds_ports st ! phys_iq_index q = iq_occupancy (ds_iq st) q + ds_ports st' ! phys_iq_index q)"
  using assms
proof (induction xs arbitrary: st)
  case (Cons x xs)
  let ?st = "dispatch_one cycle x st"
  have one: "length (ds_ports ?st) = PHYS_IQ_COUNT \<and> (\<forall>q. ds_ports ?st ! phys_iq_index q \<le> IQ_ENQUEUE_PORTS) \<and>
     (\<forall>q. iq_occupancy (ds_iq ?st) q + ds_ports st ! phys_iq_index q = iq_occupancy (ds_iq st) q + ds_ports ?st ! phys_iq_index q)"
  proof (cases rule: dispatch_one_cases [of cycle x st])
    case (enqueue p' us q t e xb)
    have l: "phys_iq_index q < length (ds_ports st)" using Cons.prems(2) phys_iq_index_less by simp
    show ?thesis using Cons.prems enqueue(4,7) l by (auto simp: enqueue(1) nth_list_update iq_occupancy_def)
  qed (use Cons.prems in auto)
  note IH = Cons.IH [of ?st, unfolded Let_def, OF one [THEN conjunct2, THEN conjunct1] one [THEN conjunct1]]
  have rest: "\<forall>q. ds_ports (fold (dispatch_one cycle) (x # xs) st) ! phys_iq_index q \<le> IQ_ENQUEUE_PORTS"
    using IH [THEN conjunct1] by simp
  have occ: "iq_occupancy (ds_iq (fold (dispatch_one cycle) (x # xs) st)) q + ds_ports st ! phys_iq_index q =
       iq_occupancy (ds_iq st) q + ds_ports (fold (dispatch_one cycle) (x # xs) st) ! phys_iq_index q" for q
    using IH [THEN conjunct2, THEN spec, of q] one [THEN conjunct2, THEN conjunct2, THEN spec, of q] by simp
  show ?case unfolding Let_def using rest occ by blast
qed simp

text \<open>C30: dispatch. Every uop that was in S2 is afterwards in an issue queue, in W2 (a bypassed one) or
  still in S2, none twice; no issue queue takes more than two uops in a cycle or exceeds 32; and the
  tags in use are exactly those of the queue entries.\<close>

theorem dispatch_conserves_and_bounds:
  assumes "dispatch_to_iq_and_bypass cycle p iq uops = (p', iq', uops')" and "dispatch_pre p iq"
    and "\<And>x. count (mset (concat (sq_frontend p)) + mset (iq_seqs iq) + mset (sq_w2 p)) x \<le> 1"
  shows "mset (concat (sq_frontend p')) + mset (iq_seqs iq') + mset (sq_w2 p') =
         mset (concat (sq_frontend p)) + mset (iq_seqs iq) + mset (sq_w2 p) \<and>
         (\<forall>q. iq_occupancy iq' q \<le> iq_occupancy iq q + IQ_ENQUEUE_PORTS) \<and>
         (\<forall>q. iq_occupancy iq' q \<le> IQ_CAPACITY) \<and> tags_inv iq' (sq_iq_tags p') \<and> length (sq_w2 p') \<le> ISSUE_WIDTH"
proof -
  let ?st = "\<lparr>ds_pipe = p\<lparr>sq_frontend := (sq_frontend p)[10 := []]\<rparr>, ds_iq = iq, ds_uops = uops,
                  ds_stay = [], ds_ports = replicate PHYS_IQ_COUNT 0\<rparr>"
  have "iq' = ds_iq (fold (dispatch_one cycle) (sq_frontend p ! 10) ?st)"
    using assms(1) by (simp add: dispatch_to_iq_and_bypass_def Let_def)
  moreover have "\<forall>q. ds_ports ?st ! phys_iq_index q = 0" using phys_iq_index_less by simp
  ultimately have "iq_occupancy iq' q \<le> iq_occupancy iq q + IQ_ENQUEUE_PORTS" for q
    using dispatch_fold_ports [of ?st cycle "sq_frontend p ! 10"] by (simp add: Let_def)
  then show ?thesis
    using dispatch_to_iq_and_bypass_spec(1,2) [OF assms] by (simp add: dispatch_pre_def)
qed

lemma fetch_packet_contiguous_witness:
  "sq_frontend (fst (fetch_packet default_stage_queues 0 [])) =
     (replicate 11 [])[0 := [0 ..< snd (fetch_packet default_stage_queues 0 [])]]"
  using fetch_packet_contiguous [OF surjective_pairing, of 0 "[]" default_stage_queues]
  by (simp add: default_stage_queues_def frontend_ok_def)

lemma advance_frontend_keeps_order_witness:
  "concat (rev (sq_frontend (fst (advance_frontend (default_stage_queues\<lparr>sq_frontend := [[4, 5], [2, 3], [1]] @ replicate 8 []\<rparr>) [0]))))
     = [1, 2, 3, 4, 5]"
  using advance_frontend_keeps_order [OF surjective_pairing,
      of "default_stage_queues\<lparr>sq_frontend := [[4, 5], [2, 3], [1]] @ replicate 8 []\<rparr>" "[0]"]
  by (simp add: default_stage_queues_def frontend_ok_def rob_ok_def)

lemma dispatch_conserves_and_bounds_witness:
  "let p = default_stage_queues\<lparr>sq_frontend := (replicate 11 [])[10 := [0]]\<rparr>;
       (p', iq', uops') = dispatch_to_iq_and_bypass 3 p [] [spec_uop queue_pair_commits queue_pair_decoded 0] in
   mset (concat (sq_frontend p')) + mset (iq_seqs iq') + mset (sq_w2 p') = {#0#}"
proof -
  let ?p = "default_stage_queues\<lparr>sq_frontend := (replicate 11 [])[10 := [0]]\<rparr>"
  let ?u = "[spec_uop queue_pair_commits queue_pair_decoded 0]"
  obtain p' iq' uops' where d: "dispatch_to_iq_and_bypass 3 ?p [] ?u = (p', iq', uops')" by (metis prod_cases3)
  have pre: "dispatch_pre ?p []"
    by (simp add: default_stage_queues_def frontend_ok_def dispatch_pre_def tags_inv_def pick_inv_def inflight_seqs_def
        iq_occupancy_def bt_wf_def eval_nat_numeral)
  have fe: "concat (sq_frontend ?p) = [0]" "sq_w2 ?p = []" by (simp_all add: default_stage_queues_def eval_nat_numeral)
  from dispatch_conserves_and_bounds [OF d pre] show ?thesis
    unfolding fe Let_def d prod.case by (simp add: iq_seqs_def)
qed

end
