(* ===== verification/Recovery.thy ===== *)
theory Recovery
  imports Frontend
begin

text \<open>
  Recovery (\<^verbatim>\<open>crates/camodel/src/control/recovery/mod.rs\<close>): publishing branch-unit
  corrections, dynamic-target faults and call-header faults, resolving the boundary redirect
  of a cycle, scheduling the frontend restart and the flush one cycle later, and the flush
  itself: checkpoint restore, pruning of every younger sequence number from the queues and
  side tables, and rebasing the load-store-id pointers.
\<close>

record ResolvedFrontendRedirect =
  rf_source_seq :: usize
  rf_target_pc :: u64
  rf_checkpoint_id :: u8
  rf_from_correction :: bool

section \<open>Branch-unit corrections\<close>

definition fallthrough_pc :: "CommitRecord \<Rightarrow> u64" where
  "fallthrough_pc commit = word_sat_add (cr_pc commit) (ucast (cr_len commit))"

definition bru_actual_take :: "CycleUop \<Rightarrow> bool option" where
  "bru_actual_take uop =
     then_some (cr_trap_valid (uo_commit uop) = 0 \<and> di_uop_group (uo_decoded uop) = ''BRU'' \<and>
                \<not> is_boundary_redirect_owner (uo_decoded uop))
       (cr_next_pc (uo_commit uop) \<noteq> fallthrough_pc (uo_commit uop))"

definition bru_target_pc :: "CycleUop \<Rightarrow> BranchOwnerContext \<Rightarrow> bool \<Rightarrow> bool \<Rightarrow> u64 option" where
  "bru_target_pc uop branch_context actual_take has_live_branch_context =
     (if bc_kind branch_context \<noteq> BoNone then Some (bc_target_pc branch_context)
      else if has_live_branch_context then None
      else if actual_take then deferred_bru_correction_target (uo_commit uop) (uo_decoded uop)
      else None)"

record BruCorrectionCandidate =
  cc_source_seq :: usize
  cc_epoch :: u16
  cc_actual_take :: bool
  cc_target_pc :: u64
  cc_checkpoint_id :: u8
  cc_visible_cycle :: cyc

definition bru_correction_candidate ::
  "usize \<Rightarrow> cyc \<Rightarrow> StageQueues \<Rightarrow> CycleUop list \<Rightarrow> BruCorrectionCandidate option" where
  "bru_correction_candidate seq cycle p uops =
     (case vec_get uops seq of None \<Rightarrow> None
      | Some uop \<Rightarrow>
     (case opt_or (uo_w1_cycle uop) (uo_done_cycle uop) of None \<Rightarrow> None
      | Some visible_cycle \<Rightarrow>
     if visible_cycle \<noteq> cycle then None
     else let has_live_branch_context = (bt_get (sq_seq_branch_contexts p) seq \<noteq> None);
              branch_context = branch_context_for_seq seq p uops in
     (case bru_actual_take uop of None \<Rightarrow> None
      | Some actual_take \<Rightarrow>
     (case bru_target_pc uop branch_context actual_take has_live_branch_context of None \<Rightarrow> None
      | Some target_pc \<Rightarrow>
          let mismatch =
                (if bc_kind branch_context \<in> {BoCond, BoRet}
                 then actual_take \<noteq> bc_pred_take branch_context
                 else if has_live_branch_context then False
                 else actual_take)
          in then_some mismatch
               \<lparr>cc_source_seq = seq, cc_epoch = recovery_epoch_for_seq seq p uops,
                cc_actual_take = actual_take, cc_target_pc = target_pc,
                cc_checkpoint_id = recovery_checkpoint_id_for_seq seq p uops,
                cc_visible_cycle = visible_cycle\<rparr>))))"

definition merge_pending_trap :: "PendingTrapState option \<Rightarrow> PendingTrapState \<Rightarrow> PendingTrapState" where
  "merge_pending_trap active fault =
     (case active of
        Some a \<Rightarrow> if pt_seq a < pt_seq fault then a else fault
      | None \<Rightarrow> fault)"

definition bru_recovery_fault ::
  "usize \<Rightarrow> cyc \<Rightarrow> StageQueues \<Rightarrow> CycleUop list \<Rightarrow> PendingTrapState option" where
  "bru_recovery_fault seq cycle p uops =
     (case bru_correction_candidate seq cycle p uops of None \<Rightarrow> None
      | Some candidate \<Rightarrow>
          if \<not> cc_actual_take candidate then None
          else then_some (legal_redirect_restart_seq seq (cc_target_pc candidate) uops = None)
                 \<lparr>pt_seq = seq, pt_cause = TRAP_BRU_RECOVERY_NOT_BSTART,
                  pt_traparg0 = cr_pc (uo_commit (uops ! seq)),
                  pt_checkpoint_id = cc_checkpoint_id candidate, pt_visible_cycle = cycle\<rparr>)"

definition correction_state_of :: "BruCorrectionCandidate \<Rightarrow> BruCorrectionState" where
  "correction_state_of c =
     \<lparr>bcs_source_seq = cc_source_seq c, bcs_epoch = cc_epoch c, bcs_actual_take = cc_actual_take c,
      bcs_target_pc = cc_target_pc c, bcs_checkpoint_id = cc_checkpoint_id c,
      bcs_visible_cycle = cc_visible_cycle c\<rparr>"

definition publish_bru_correction_state :: "cyc \<Rightarrow> StageQueues \<Rightarrow> CycleUop list \<Rightarrow> StageQueues" where
  "publish_bru_correction_state cycle p uops =
     (case min_by_key pt_seq
             (List.map_filter (\<lambda>seq. bru_recovery_fault seq cycle p uops) [0 ..< length uops]) of
        Some fault \<Rightarrow> p\<lparr>sq_pending_trap := Some (merge_pending_trap (sq_pending_trap p) fault)\<rparr>
      | None \<Rightarrow>
          (case max_by_key (\<lambda>state. (bcs_epoch state, bcs_source_seq state))
                  (map correction_state_of
                    (List.map_filter (\<lambda>seq. bru_correction_candidate seq cycle p uops)
                      [0 ..< length uops])) of
             None \<Rightarrow> p
           | Some next \<Rightarrow>
               p\<lparr>sq_pending_bru_correction := Some
                   (case sq_pending_bru_correction p of
                      Some active \<Rightarrow> if bcs_source_seq next < bcs_source_seq active then active else next
                    | None \<Rightarrow> next)\<rparr>))"

section \<open>Boundary faults\<close>

definition boundary_resolve_cycle :: "CycleUop \<Rightarrow> cyc option" where
  "boundary_resolve_cycle uop =
     (if is_boundary_redirect_owner (uo_decoded uop)
      then opt_or (uo_w1_cycle uop) (uo_done_cycle uop) else None)"

definition dynamic_boundary_target_fault ::
  "usize \<Rightarrow> cyc \<Rightarrow> StageQueues \<Rightarrow> CycleUop list \<Rightarrow> PendingTrapState option" where
  "dynamic_boundary_target_fault seq cycle p uops =
     (case vec_get uops seq of None \<Rightarrow> None
      | Some uop \<Rightarrow>
          if boundary_resolve_cycle uop \<noteq> Some cycle then None
          else case live_branch_kind_for_seq seq p uops of None \<Rightarrow> None
          | Some kind \<Rightarrow>
              if \<not> is_dynamic_kind kind then None
              else
                let setup_epoch = bt_get (sq_seq_boundary_target_setup_epochs p) seq;
                    boundary_epoch = recovery_epoch_for_seq seq p uops;
                    fault = (\<lambda>cause. \<lparr>pt_seq = seq, pt_cause = cause,
                               pt_traparg0 = cr_pc (uo_commit uop),
                               pt_checkpoint_id = live_rob_checkpoint_id_for_seq seq p uops,
                               pt_visible_cycle = cycle\<rparr>)
                in case live_boundary_target_for_seq seq p uops of
                     None \<Rightarrow> Some (fault TRAP_DYNAMIC_TARGET_MISSING)
                   | Some target_pc \<Rightarrow>
                       if (case setup_epoch of None \<Rightarrow> False | Some e \<Rightarrow> e \<noteq> boundary_epoch)
                       then Some (fault TRAP_DYNAMIC_TARGET_STALE)
                       else if legal_redirect_restart_seq seq target_pc uops = None
                       then Some (fault TRAP_DYNAMIC_TARGET_NOT_BSTART)
                       else None)"

definition publish_dynamic_boundary_target_fault_state ::
  "cyc \<Rightarrow> StageQueues \<Rightarrow> CycleUop list \<Rightarrow> StageQueues" where
  "publish_dynamic_boundary_target_fault_state cycle p uops =
     (case min_by_key pt_seq
             (List.map_filter (\<lambda>seq. dynamic_boundary_target_fault seq cycle p uops)
               [0 ..< length uops]) of
        None \<Rightarrow> p
      | Some fault \<Rightarrow> p\<lparr>sq_pending_trap := Some (merge_pending_trap (sq_pending_trap p) fault)\<rparr>)"

definition call_header_fault ::
  "cyc \<Rightarrow> StageQueues \<Rightarrow> CycleUop list \<Rightarrow> usize \<times> u64 \<Rightarrow> PendingTrapState option" where
  "call_header_fault cycle p uops e =
     (let (seq, cause) = e in
      case vec_get uops seq of None \<Rightarrow> None
      | Some uop \<Rightarrow>
          (case opt_or (uo_w1_cycle uop) (uo_done_cycle uop) of None \<Rightarrow> None
           | Some visible_cycle \<Rightarrow>
               then_some (visible_cycle = cycle)
                 \<lparr>pt_seq = seq, pt_cause = cause, pt_traparg0 = cr_pc (uo_commit uop),
                  pt_checkpoint_id = recovery_checkpoint_id_for_seq seq p uops,
                  pt_visible_cycle = cycle\<rparr>))"

definition publish_call_header_fault_state :: "cyc \<Rightarrow> StageQueues \<Rightarrow> CycleUop list \<Rightarrow> StageQueues" where
  "publish_call_header_fault_state cycle p uops =
     (case min_by_key pt_seq
             (List.map_filter (call_header_fault cycle p uops) (sq_seq_call_header_faults p)) of
        None \<Rightarrow> p
      | Some fault \<Rightarrow> p\<lparr>sq_pending_trap := Some (merge_pending_trap (sq_pending_trap p) fault)\<rparr>)"

section \<open>Resolving and scheduling a redirect\<close>

definition resolved_boundary_seq :: "cyc \<Rightarrow> CycleUop list \<Rightarrow> usize option" where
  "resolved_boundary_seq cycle uops =
     find (\<lambda>seq. boundary_resolve_cycle (uops ! seq) = Some cycle) [0 ..< length uops]"

definition resolved_frontend_redirect ::
  "cyc \<Rightarrow> StageQueues \<Rightarrow> CycleUop list \<Rightarrow> ResolvedFrontendRedirect option" where
  "resolved_frontend_redirect cycle p uops =
     (case resolved_boundary_seq cycle uops of None \<Rightarrow> None
      | Some source_seq \<Rightarrow>
          if (case sq_pending_trap p of None \<Rightarrow> False
              | Some pending \<Rightarrow> pt_seq pending = source_seq \<and> pt_visible_cycle pending \<le> cycle)
          then None
          else
            let boundary_epoch = recovery_epoch_for_seq source_seq p uops in
            case opt_filter (\<lambda>pending. bcs_source_seq pending < source_seq \<and>
                                        bcs_epoch pending = boundary_epoch)
                   (sq_pending_bru_correction p) of
              Some pending \<Rightarrow>
                Some \<lparr>rf_source_seq = source_seq,
                      rf_target_pc = (if bcs_actual_take pending then bcs_target_pc pending
                                      else fallthrough_pc (uo_commit (uops ! source_seq))),
                      rf_checkpoint_id = bcs_checkpoint_id pending, rf_from_correction = True\<rparr>
            | None \<Rightarrow>
                map_option (\<lambda>target_pc.
                  \<lparr>rf_source_seq = source_seq, rf_target_pc = target_pc,
                   rf_checkpoint_id = live_rob_checkpoint_id_for_seq source_seq p uops,
                   rf_from_correction = False\<rparr>)
                  (live_boundary_target_for_seq source_seq p uops))"

definition active_flush :: "cyc \<Rightarrow> StageQueues \<Rightarrow> CycleUop list \<Rightarrow> PendingFlushState option" where
  "active_flush cycle p uops =
     opt_or (opt_filter (\<lambda>pending. pf_apply_cycle pending \<le> cycle) (sq_pending_flush p))
       (map_option (\<lambda>redirect. \<lparr>pf_flush_seq = rf_source_seq redirect,
            pf_checkpoint_id = rf_checkpoint_id redirect, pf_apply_cycle = cycle\<rparr>)
         (resolved_frontend_redirect cycle p uops))"

definition schedule_frontend_redirect_recovery ::
  "cyc \<Rightarrow> StageQueues \<Rightarrow> CycleUop list \<Rightarrow> StageQueues" where
  "schedule_frontend_redirect_recovery cycle p uops =
     (case resolved_frontend_redirect cycle p uops of None \<Rightarrow> p
      | Some redirect \<Rightarrow>
          let restart_seq = unwrap_or
                (legal_redirect_restart_seq (rf_source_seq redirect) (rf_target_pc redirect) uops)
                (sat_add (rf_source_seq redirect) 1);
              resume = sat_add cycle FRONTEND_REDIRECT_RESTART_DELAY;
              next = \<lparr>fr_source_seq = rf_source_seq redirect, fr_target_pc = rf_target_pc redirect,
                      fr_restart_seq = restart_seq, fr_checkpoint_id = rf_checkpoint_id redirect,
                      fr_from_correction = rf_from_correction redirect, fr_resume_cycle = resume\<rparr>;
              flush = \<lparr>pf_flush_seq = rf_source_seq redirect,
                       pf_checkpoint_id = rf_checkpoint_id redirect, pf_apply_cycle = resume\<rparr>;
              p1 = p\<lparr>sq_frontend_redirect := Some
                       (case sq_frontend_redirect p of
                          Some active \<Rightarrow> if resume \<le> fr_resume_cycle active then active else next
                        | None \<Rightarrow> next),
                     sq_flush_checkpoint_id := Some (rf_checkpoint_id redirect),
                     sq_pending_flush := Some
                       (case sq_pending_flush p of
                          Some active \<Rightarrow> if pf_apply_cycle active \<le> resume then active else flush
                        | None \<Rightarrow> flush)\<rparr>
          in if rf_from_correction redirect then p1\<lparr>sq_pending_bru_correction := None\<rparr>
             else if (case sq_pending_bru_correction p1 of None \<Rightarrow> False
                      | Some pending \<Rightarrow>
                          bcs_epoch pending < recovery_epoch_for_seq (rf_source_seq redirect) p1 uops)
             then p1\<lparr>sq_pending_bru_correction := None\<rparr>
             else p1)"

section \<open>The flush\<close>

definition prune_tables :: "usize \<Rightarrow> StageQueues \<Rightarrow> StageQueues" where
  "prune_tables flush_seq p =
     (let keep = (\<lambda>seq. seq \<le> flush_seq) in
      p\<lparr>sq_iq_tags := bt_retain keep (sq_iq_tags p),
        sq_seq_checkpoint_ids := bt_retain keep (sq_seq_checkpoint_ids p),
        sq_seq_rob_checkpoint_ids := bt_retain keep (sq_seq_rob_checkpoint_ids p),
        sq_seq_recovery_checkpoint_ids := bt_retain keep (sq_seq_recovery_checkpoint_ids p),
        sq_seq_recovery_epochs := bt_retain keep (sq_seq_recovery_epochs p),
        sq_seq_dynamic_target_pcs := bt_retain keep (sq_seq_dynamic_target_pcs p),
        sq_seq_boundary_target_pcs := bt_retain keep (sq_seq_boundary_target_pcs p),
        sq_seq_boundary_target_owner_seqs := bt_retain keep (sq_seq_boundary_target_owner_seqs p),
        sq_seq_boundary_target_producer_kinds :=
          bt_retain keep (sq_seq_boundary_target_producer_kinds p),
        sq_seq_boundary_target_setup_epochs := bt_retain keep (sq_seq_boundary_target_setup_epochs p),
        sq_seq_boundary_target_source_owner_seqs :=
          bt_retain keep (sq_seq_boundary_target_source_owner_seqs p),
        sq_seq_boundary_target_source_epochs := bt_retain keep (sq_seq_boundary_target_source_epochs p),
        sq_seq_boundary_target_source_kinds := bt_retain keep (sq_seq_boundary_target_source_kinds p),
        sq_seq_return_consumer_kinds := bt_retain keep (sq_seq_return_consumer_kinds p),
        sq_seq_call_return_target_pcs := bt_retain keep (sq_seq_call_return_target_pcs p),
        sq_seq_call_return_target_owner_seqs :=
          bt_retain keep (sq_seq_call_return_target_owner_seqs p),
        sq_seq_call_return_target_epochs := bt_retain keep (sq_seq_call_return_target_epochs p),
        sq_seq_call_materialization_kinds := bt_retain keep (sq_seq_call_materialization_kinds p),
        sq_seq_call_header_faults := bt_retain keep (sq_seq_call_header_faults p)\<rparr>)"

definition prune_stages :: "usize \<Rightarrow> StageQueues \<Rightarrow> StageQueues" where
  "prune_stages flush_seq p =
     (let keep = filter (\<lambda>seq. seq \<le> flush_seq) in
      p\<lparr>sq_frontend := map keep (sq_frontend p),
        sq_p1 := keep (sq_p1 p), sq_i1 := keep (sq_i1 p), sq_i2 := keep (sq_i2 p),
        sq_e1 := keep (sq_e1 p), sq_e2 := keep (sq_e2 p), sq_e3 := keep (sq_e3 p),
        sq_e4 := keep (sq_e4 p), sq_w1 := keep (sq_w1 p), sq_w2 := keep (sq_w2 p)\<rparr>)"

definition prune_speculative_state_on_redirect ::
  "cyc \<Rightarrow> StageQueues \<Rightarrow> IqEntry list \<Rightarrow> usize list \<Rightarrow> CycleUop list \<Rightarrow>
   StageQueues \<times> IqEntry list \<times> usize list" where
  "prune_speculative_state_on_redirect cycle p iq rob uops =
     (case active_flush cycle p uops of None \<Rightarrow> (p, iq, rob)
      | Some flush \<Rightarrow>
          let flush_seq = pf_flush_seq flush;
              p1 = prune_tables flush_seq (prune_stages flush_seq p);
              iq' = filter (\<lambda>entry. ie_seq entry \<le> flush_seq) iq
          in (p1\<lparr>sq_qtag_wait_crossbar :=
                   prune_iq_wait_crossbar_on_redirect (sq_qtag_wait_crossbar p1) flush_seq,
                 sq_iq_owner_table :=
                   rebuild_iq_owner_table (sq_iq_owner_table p1) iq' (sq_iq_tags p1)\<rparr>,
              iq', filter (\<lambda>seq. seq \<le> flush_seq) rob))"

definition prune_memory_owner_state_on_redirect ::
  "cyc \<Rightarrow> StageQueues \<Rightarrow> CycleUop list \<Rightarrow> StageQueues" where
  "prune_memory_owner_state_on_redirect cycle p uops =
     (case active_flush cycle p uops of None \<Rightarrow> p
      | Some flush \<Rightarrow>
          let flush_seq = pf_flush_seq flush in
          p\<lparr>sq_stq := filter (\<lambda>seq. seq \<le> flush_seq) (sq_stq p),
            sq_lhq := filter (\<lambda>seq. seq \<le> flush_seq) (sq_lhq p),
            sq_liq := filter (\<lambda>entry. lq_seq entry \<le> flush_seq) (sq_liq p),
            sq_mdb := filter (\<lambda>entry. md_seq entry \<le> flush_seq) (sq_mdb p),
            sq_scb := filter (\<lambda>entry. sc_seq entry \<le> flush_seq) (sq_scb p),
            sq_l1d := filter (\<lambda>entry. l1_seq entry \<le> flush_seq) (sq_l1d p)\<rparr>)"

definition issued_memory_seqs :: "StageQueues \<Rightarrow> usize set" where
  "issued_memory_seqs p =
     set (sq_e1 p) \<union> set (sq_e2 p) \<union> set (sq_e3 p) \<union> set (sq_e4 p) \<union> set (sq_w1 p) \<union>
     set (sq_w2 p) \<union> set (map lq_seq (sq_liq p)) \<union> set (sq_lhq p) \<union>
     set (map md_seq (sq_mdb p)) \<union> set (sq_stq p) \<union> set (map sc_seq (sq_scb p)) \<union>
     set (map l1_seq (sq_l1d p))"

definition waiting_seqs :: "StageQueues \<Rightarrow> IqEntry list \<Rightarrow> usize list \<Rightarrow> usize set" where
  "waiting_seqs p iq rob =
     set rob \<union> set (map ie_seq iq) \<union> set (concat (sq_frontend p)) \<union> set (sq_p1 p) \<union>
     set (sq_i1 p) \<union> set (sq_i2 p)"

definition active_unissued_memory_seqs ::
  "StageQueues \<Rightarrow> IqEntry list \<Rightarrow> usize list \<Rightarrow> usize set" where
  "active_unissued_memory_seqs p iq rob = waiting_seqs p iq rob - issued_memory_seqs p"

definition active_memory_seqs :: "StageQueues \<Rightarrow> IqEntry list \<Rightarrow> usize list \<Rightarrow> usize set" where
  "active_memory_seqs p iq rob = waiting_seqs p iq rob \<union> issued_memory_seqs p"

definition lsids_of :: "usize set \<Rightarrow> CycleUop list \<Rightarrow> usize set" where
  "lsids_of seqs uops =
     Option.these ((\<lambda>seq. Option.bind (vec_get uops seq) uo_load_store_id) ` seqs)"

definition surviving_unissued_lsid_head ::
  "StageQueues \<Rightarrow> IqEntry list \<Rightarrow> usize list \<Rightarrow> CycleUop list \<Rightarrow> usize option" where
  "surviving_unissued_lsid_head p iq rob uops =
     set_min (lsids_of (active_unissued_memory_seqs p iq rob) uops)"

definition surviving_active_lsid_head ::
  "StageQueues \<Rightarrow> IqEntry list \<Rightarrow> usize list \<Rightarrow> CycleUop list \<Rightarrow> usize option" where
  "surviving_active_lsid_head p iq rob uops =
     set_min (lsids_of (active_memory_seqs p iq rob) uops)"

definition rebase_lsid_on_redirect ::
  "cyc \<Rightarrow> StageQueues \<Rightarrow> IqEntry list \<Rightarrow> usize list \<Rightarrow> CycleUop list \<Rightarrow> StageQueues" where
  "rebase_lsid_on_redirect cycle p iq rob uops =
     (if active_flush cycle p uops = None then p
      else let p1 = (case surviving_unissued_lsid_head p iq rob uops of None \<Rightarrow> p
                     | Some head \<Rightarrow> p\<lparr>sq_lsid_issue_ptr := head, sq_lsid_complete_ptr := head\<rparr>)
           in (case surviving_active_lsid_head p1 iq rob uops of None \<Rightarrow> p1
               | Some head \<Rightarrow> p1\<lparr>sq_lsid_cache_ptr := head\<rparr>))"

definition apply_pending_flush ::
  "cyc \<Rightarrow> StageQueues \<Rightarrow> IqEntry list \<Rightarrow> usize list \<Rightarrow> CycleUop list \<Rightarrow>
   StageQueues \<times> IqEntry list \<times> usize list" where
  "apply_pending_flush cycle p iq rob uops =
     (case sq_pending_flush p of None \<Rightarrow> (p, iq, rob)
      | Some pending_flush \<Rightarrow>
          if cycle < pf_apply_cycle pending_flush then (p, iq, rob)
          else
            let p1 = fst (restore_ready_tables_for_checkpoint p (pf_checkpoint_id pending_flush));
                p2 = p1\<lparr>sq_active_recovery_checkpoint_id := pf_checkpoint_id pending_flush\<rparr>;
                (p3, iq', rob') = prune_speculative_state_on_redirect cycle p2 iq rob uops;
                p4 = prune_memory_owner_state_on_redirect cycle p3 uops;
                p5 = rebase_lsid_on_redirect cycle p4 iq' rob' uops
            in (p5\<lparr>sq_pending_flush := None\<rparr>, iq', rob'))"

section \<open>What a flush keeps\<close>

text \<open>What a flush does to each queue.\<close>

definition flush_applies :: "cyc \<Rightarrow> StageQueues \<Rightarrow> PendingFlushState \<Rightarrow> bool" where
  "flush_applies cycle p f = (sq_pending_flush p = Some f \<and> pf_apply_cycle f \<le> cycle)"

definition flush_stages :: "usize \<Rightarrow> StageQueues \<Rightarrow> StageQueues" where
  "flush_stages s p =
     (let keep = filter (\<lambda>x. x \<le> s) in
      p\<lparr>sq_frontend := map keep (sq_frontend p), sq_pending_flush := None,
        sq_liq := filter (\<lambda>e. lq_seq e \<le> s) (sq_liq p), sq_l1d := filter (\<lambda>e. l1_seq e \<le> s) (sq_l1d p),
        sq_p1 := keep (sq_p1 p), sq_i1 := keep (sq_i1 p), sq_i2 := keep (sq_i2 p),
        sq_e1 := keep (sq_e1 p), sq_e2 := keep (sq_e2 p), sq_e3 := keep (sq_e3 p), sq_e4 := keep (sq_e4 p),
        sq_w1 := keep (sq_w1 p), sq_w2 := keep (sq_w2 p), sq_scb := filter (\<lambda>e. sc_seq e \<le> s) (sq_scb p),
        sq_stq := keep (sq_stq p), sq_lhq := keep (sq_lhq p), sq_mdb := filter (\<lambda>e. md_seq e \<le> s) (sq_mdb p)\<rparr>)"

lemma active_flush_pending:
  "sq_pending_flush p = Some f \<Longrightarrow> pf_apply_cycle f \<le> cycle \<Longrightarrow> active_flush cycle p uops = Some f"
  by (simp add: active_flush_def opt_filter_def)

lemma apply_pending_flush_idle:
  "\<nexists>f. flush_applies cycle p f \<Longrightarrow> apply_pending_flush cycle p iq rob uops = (p, iq, rob)"
  by (auto simp: apply_pending_flush_def flush_applies_def split: option.splits)

lemma restore_frame:
  "sq_pending_flush (fst (restore_ready_tables_for_checkpoint p c)) = sq_pending_flush p"
  "dispatch_view (fst (restore_ready_tables_for_checkpoint p c)) = dispatch_view p"
  "sq_w2 (fst (restore_ready_tables_for_checkpoint p c)) = sq_w2 p"
  "sq_iq_tags (fst (restore_ready_tables_for_checkpoint p c)) = sq_iq_tags p"
  by (simp_all add: restore_ready_tables_for_checkpoint_def apply_checkpoint_def dispatch_view_def split: option.split)

lemma rebase_frame:
  "dispatch_view (rebase_lsid_on_redirect cycle p iq rob uops) = dispatch_view p"
  "sq_w2 (rebase_lsid_on_redirect cycle p iq rob uops) = sq_w2 p"
  "sq_iq_tags (rebase_lsid_on_redirect cycle p iq rob uops) = sq_iq_tags p"
  by (simp_all add: rebase_lsid_on_redirect_def dispatch_view_def Let_def split: option.split)

lemma prune_spec:
  assumes "active_flush cycle p uops = Some f"
    and "prune_speculative_state_on_redirect cycle p iq rob uops = (p', iq', rob')"
  shows "iq' = filter (\<lambda>e. ie_seq e \<le> pf_flush_seq f) iq" "rob' = filter (\<lambda>x. x \<le> pf_flush_seq f) rob"
    "sq_pending_flush p' = sq_pending_flush p"
    "sq_iq_tags p' = bt_retain (\<lambda>x. x \<le> pf_flush_seq f) (sq_iq_tags p)"
    "stage_view p' = stage_view ((prune_stages (pf_flush_seq f) p)\<lparr>sq_iq_tags := sq_iq_tags p',
        sq_iq_owner_table := sq_iq_owner_table p', sq_qtag_wait_crossbar := sq_qtag_wait_crossbar p'\<rparr>)"
  using assms
  by (auto simp: prune_speculative_state_on_redirect_def Let_def prune_tables_def prune_stages_def stage_view_def)

lemma apply_pending_flush_spec:
  assumes "flush_applies cycle p f" and "apply_pending_flush cycle p iq rob uops = (p', iq', rob')"
  shows "iq' = filter (\<lambda>e. ie_seq e \<le> pf_flush_seq f) iq" "rob' = filter (\<lambda>x. x \<le> pf_flush_seq f) rob"
    "sq_iq_tags p' = bt_retain (\<lambda>x. x \<le> pf_flush_seq f) (sq_iq_tags p)"
    "dispatch_view p' = dispatch_view (flush_stages (pf_flush_seq f) p)"
    "sq_w2 p' = filter (\<lambda>x. x \<le> pf_flush_seq f) (sq_w2 p)"
proof -
  have f: "sq_pending_flush p = Some f" "pf_apply_cycle f \<le> cycle" using assms(1) by (simp_all add: flush_applies_def)
  define p1 where "p1 = fst (restore_ready_tables_for_checkpoint p (pf_checkpoint_id f))"
  define p2 where "p2 = p1\<lparr>sq_active_recovery_checkpoint_id := pf_checkpoint_id f\<rparr>"
  obtain p3 iq3 rob3 where p3: "prune_speculative_state_on_redirect cycle p2 iq rob uops = (p3, iq3, rob3)"
    by (cases "prune_speculative_state_on_redirect cycle p2 iq rob uops") auto
  define p4 where "p4 = prune_memory_owner_state_on_redirect cycle p3 uops"
  define p5 where "p5 = rebase_lsid_on_redirect cycle p4 iq3 rob3 uops"
  have out: "p' = p5\<lparr>sq_pending_flush := None\<rparr>" "iq' = iq3" "rob' = rob3"
    using assms(2) f unfolding apply_pending_flush_def p1_def p2_def p4_def p5_def Let_def
    by (auto simp: p3 [unfolded p2_def p1_def])
  have pend2: "sq_pending_flush p2 = Some f" by (simp add: p2_def p1_def restore_frame f)
  note prune = prune_spec [OF active_flush_pending [OF pend2 f(2)] p3]
  have act3: "active_flush cycle p3 uops = Some f"
    using prune(3) pend2 f(2) by (simp add: active_flush_pending)
  have v2: "dispatch_view p2 = dispatch_view p" "sq_w2 p2 = sq_w2 p" "sq_iq_tags p2 = sq_iq_tags p"
  proof -
    have "dispatch_view p2 = dispatch_view p1" by (simp add: p2_def dispatch_view_def)
    then show "dispatch_view p2 = dispatch_view p" by (simp add: p1_def restore_frame)
    show "sq_w2 p2 = sq_w2 p" "sq_iq_tags p2 = sq_iq_tags p" by (simp_all add: p2_def p1_def restore_frame)
  qed
  have p4: "p4 = (let s = pf_flush_seq f in p3\<lparr>sq_stq := filter (\<lambda>seq. seq \<le> s) (sq_stq p3),
            sq_lhq := filter (\<lambda>seq. seq \<le> s) (sq_lhq p3),
            sq_liq := filter (\<lambda>entry. lq_seq entry \<le> s) (sq_liq p3),
            sq_mdb := filter (\<lambda>entry. md_seq entry \<le> s) (sq_mdb p3),
            sq_scb := filter (\<lambda>entry. sc_seq entry \<le> s) (sq_scb p3),
            sq_l1d := filter (\<lambda>entry. l1_seq entry \<le> s) (sq_l1d p3)\<rparr>)"
    by (simp add: p4_def prune_memory_owner_state_on_redirect_def act3 Let_def)
  show "iq' = filter (\<lambda>e. ie_seq e \<le> pf_flush_seq f) iq" "rob' = filter (\<lambda>x. x \<le> pf_flush_seq f) rob"
    using prune(1,2) out by simp_all
  show "sq_iq_tags p' = bt_retain (\<lambda>x. x \<le> pf_flush_seq f) (sq_iq_tags p)"
    using prune(4) v2 by (simp add: out p5_def rebase_frame p4 Let_def)
  show "sq_w2 p' = filter (\<lambda>x. x \<le> pf_flush_seq f) (sq_w2 p)"
    using prune(5) v2 by (simp add: out p5_def rebase_frame p4 Let_def stage_view_def prune_stages_def)
  show "dispatch_view p' = dispatch_view (flush_stages (pf_flush_seq f) p)"
    using prune(5) v2(1) rebase_frame(1) [of cycle p4 iq3 rob3 uops]
    by (simp add: out p5_def p4 Let_def stage_view_def prune_stages_def dispatch_view_def flush_stages_def)
qed

text \<open>The tables that hold an entry per uop, and the two that index the issue queues.\<close>

definition seq_tables where
  "seq_tables p = (sq_seq_checkpoint_ids p, sq_seq_rob_checkpoint_ids p, sq_seq_recovery_checkpoint_ids p, sq_seq_recovery_epochs p,
     sq_seq_branch_contexts p, sq_seq_dynamic_target_pcs p, sq_seq_boundary_target_pcs p, sq_seq_boundary_target_owner_seqs p,
     sq_seq_boundary_target_producer_kinds p, sq_seq_boundary_target_setup_epochs p, sq_seq_boundary_target_source_owner_seqs p,
     sq_seq_boundary_target_source_epochs p, sq_seq_boundary_target_source_kinds p, sq_seq_return_consumer_kinds p,
     sq_seq_call_return_target_pcs p, sq_seq_call_return_target_owner_seqs p, sq_seq_call_return_target_epochs p,
     sq_seq_call_materialization_kinds p, sq_seq_call_header_faults p)"

lemma seq_tables_updates:
  "seq_tables (p\<lparr>sq_lsid_issue_ptr := x, sq_lsid_complete_ptr := y, sq_lsid_cache_ptr := z, sq_pending_flush := w\<rparr>) = seq_tables p"
  by (simp add: seq_tables_def)

lemma seq_tables_prune:
  "seq_tables (p\<lparr>sq_qtag_wait_crossbar := c, sq_iq_owner_table := t\<rparr>) = seq_tables p"
  "seq_tables (prune_tables s (prune_stages k p)) = seq_tables (prune_tables s p)"
  by (simp_all add: seq_tables_def prune_tables_def prune_stages_def Let_def)

lemma seq_tables_prune_cong: "seq_tables p = seq_tables q \<Longrightarrow> seq_tables (prune_tables s p) = seq_tables (prune_tables s q)"
  by (simp add: seq_tables_def prune_tables_def Let_def)

lemma memory_table_frames:
  "seq_tables (prune_memory_owner_state_on_redirect cycle p uops) = seq_tables p"
  "sq_qtag_wait_crossbar (prune_memory_owner_state_on_redirect cycle p uops) = sq_qtag_wait_crossbar p"
  "sq_iq_owner_table (prune_memory_owner_state_on_redirect cycle p uops) = sq_iq_owner_table p"
  "sq_active_recovery_checkpoint_id (prune_memory_owner_state_on_redirect cycle p uops) = sq_active_recovery_checkpoint_id p"
  "sq_iq_tags (prune_memory_owner_state_on_redirect cycle p uops) = sq_iq_tags p"
  by (cases "active_flush cycle p uops"; simp add: prune_memory_owner_state_on_redirect_def seq_tables_def Let_def)+

lemma rebase_pointers:
  "\<exists>a b c. rebase_lsid_on_redirect cycle p iq rob uops = p\<lparr>sq_lsid_issue_ptr := a, sq_lsid_complete_ptr := b, sq_lsid_cache_ptr := c\<rparr>"
proof -
  have "\<exists>a b c. p = p\<lparr>sq_lsid_issue_ptr := a, sq_lsid_complete_ptr := b, sq_lsid_cache_ptr := c\<rparr>"
    by (intro exI [of _ "sq_lsid_issue_ptr p"] exI [of _ "sq_lsid_complete_ptr p"] exI [of _ "sq_lsid_cache_ptr p"]) simp
  moreover have "\<exists>a b c. p\<lparr>sq_lsid_cache_ptr := x\<rparr> = p\<lparr>sq_lsid_issue_ptr := a, sq_lsid_complete_ptr := b, sq_lsid_cache_ptr := c\<rparr>" for x
    by (intro exI [of _ "sq_lsid_issue_ptr p"] exI [of _ "sq_lsid_complete_ptr p"] exI [of _ x]) simp
  moreover have "\<exists>a b c. p\<lparr>sq_lsid_issue_ptr := x, sq_lsid_complete_ptr := x\<rparr> =
      p\<lparr>sq_lsid_issue_ptr := a, sq_lsid_complete_ptr := b, sq_lsid_cache_ptr := c\<rparr>" for x
    by (intro exI [of _ x] exI [of _ "sq_lsid_cache_ptr p"]) simp
  ultimately show ?thesis
    unfolding rebase_lsid_on_redirect_def Let_def by (auto split: option.split)
qed

lemma flush_tables:
  assumes "flush_applies cycle p f" and "apply_pending_flush cycle p iq rob uops = (p', iq', rob')"
  shows "seq_tables p' = seq_tables (prune_tables (pf_flush_seq f) p)"
    "sq_qtag_wait_crossbar p' = prune_iq_wait_crossbar_on_redirect (sq_qtag_wait_crossbar p) (pf_flush_seq f)"
    "sq_iq_owner_table p' = rebuild_iq_owner_table (sq_iq_owner_table p) iq' (sq_iq_tags p')"
    "sq_active_recovery_checkpoint_id p' = pf_checkpoint_id f"
proof -
  have f: "sq_pending_flush p = Some f" "pf_apply_cycle f \<le> cycle" using assms(1) by (simp_all add: flush_applies_def)
  define p2 where "p2 = (fst (restore_ready_tables_for_checkpoint p (pf_checkpoint_id f)))\<lparr>sq_active_recovery_checkpoint_id := pf_checkpoint_id f\<rparr>"
  have r: "sq_pending_flush p2 = sq_pending_flush p" "seq_tables p2 = seq_tables p" "sq_qtag_wait_crossbar p2 = sq_qtag_wait_crossbar p"
    "sq_iq_owner_table p2 = sq_iq_owner_table p" "sq_active_recovery_checkpoint_id p2 = pf_checkpoint_id f"
    by (simp_all add: p2_def restore_ready_tables_for_checkpoint_def apply_checkpoint_def seq_tables_def split: option.split)
  obtain p3 where p3: "prune_speculative_state_on_redirect cycle p2 iq rob uops = (p3, iq', rob')"
    and p': "p' = (rebase_lsid_on_redirect cycle (prune_memory_owner_state_on_redirect cycle p3 uops) iq' rob' uops)\<lparr>sq_pending_flush := None\<rparr>"
    using assms(2) f unfolding apply_pending_flush_def p2_def Let_def by (auto split: prod.splits)
  obtain x y z where p5: "p' = (prune_memory_owner_state_on_redirect cycle p3 uops)\<lparr>sq_lsid_issue_ptr := x, sq_lsid_complete_ptr := y,
        sq_lsid_cache_ptr := z, sq_pending_flush := None\<rparr>"
    using rebase_pointers [of cycle "prune_memory_owner_state_on_redirect cycle p3 uops" iq' rob' uops] unfolding p' by auto
  have b: "seq_tables p' = seq_tables p3" "sq_qtag_wait_crossbar p' = sq_qtag_wait_crossbar p3" "sq_iq_owner_table p' = sq_iq_owner_table p3"
    "sq_active_recovery_checkpoint_id p' = sq_active_recovery_checkpoint_id p3" "sq_iq_tags p' = sq_iq_tags p3"
    unfolding p5 by (simp_all add: memory_table_frames seq_tables_updates)
  have act: "active_flush cycle p2 uops = Some f" using f r(1) by (simp add: active_flush_pending)
  note prune = p3 [unfolded prune_speculative_state_on_redirect_def act]
  have "seq_tables p3 = seq_tables (prune_tables (pf_flush_seq f) p2)"
    using prune by (auto simp: Let_def seq_tables_prune)
  then show "seq_tables p' = seq_tables (prune_tables (pf_flush_seq f) p)"
    unfolding b seq_tables_prune_cong [OF r(2)] .
  show "sq_qtag_wait_crossbar p' = prune_iq_wait_crossbar_on_redirect (sq_qtag_wait_crossbar p) (pf_flush_seq f)"
    "sq_iq_owner_table p' = rebuild_iq_owner_table (sq_iq_owner_table p) iq' (sq_iq_tags p')"
    "sq_active_recovery_checkpoint_id p' = pf_checkpoint_id f"
    using prune r(3-5) unfolding b by (auto simp: prune_tables_def prune_stages_def Let_def)
qed

section \<open>Redirects and faults\<close>

text \<open>The restart and the flush of a redirect are scheduled together and fall due together.\<close>

definition redirect_inv :: "cyc \<Rightarrow> StageQueues \<Rightarrow> CycleUop list \<Rightarrow> bool" where
  "redirect_inv cycle p uops =
     (case (sq_frontend_redirect p, sq_pending_flush p) of
        (None, None) \<Rightarrow> True
      | (Some r, Some f) \<Rightarrow> pf_flush_seq f < fr_restart_seq r \<and> fr_restart_seq r \<le> length uops \<and>
          fr_resume_cycle r \<le> cycle \<and> pf_apply_cycle f \<le> cycle
      | _ \<Rightarrow> False)"

lemma publish_frames:
  "stage_view ((publish_bru_correction_state cycle p uops)\<lparr>sq_pending_trap := t, sq_pending_bru_correction := b\<rparr>) =
     stage_view (p\<lparr>sq_pending_trap := t, sq_pending_bru_correction := b\<rparr>)"
  "stage_view ((publish_dynamic_boundary_target_fault_state cycle p uops)\<lparr>sq_pending_trap := t\<rparr>) =
     stage_view (p\<lparr>sq_pending_trap := t\<rparr>)"
  "stage_view ((publish_call_header_fault_state cycle p uops)\<lparr>sq_pending_trap := t\<rparr>) =
     stage_view (p\<lparr>sq_pending_trap := t\<rparr>)"
  unfolding publish_bru_correction_state_def publish_dynamic_boundary_target_fault_state_def
    publish_call_header_fault_state_def
  by (split option.split; simp add: stage_view_def split: option.split)+

text \<open>A resolved redirect comes from a uop of the trace, and its restart point is younger.\<close>

lemma resolved_boundary_seq_less: "resolved_boundary_seq cycle uops = Some s \<Longrightarrow> s < length uops"
  by (auto simp: resolved_boundary_seq_def find_Some_iff)

lemma resolved_frontend_redirect_less:
  "resolved_frontend_redirect cycle p uops = Some r \<Longrightarrow>
     resolved_boundary_seq cycle uops = Some (rf_source_seq r) \<and> rf_source_seq r < length uops"
  by (auto simp: resolved_frontend_redirect_def Let_def dest: resolved_boundary_seq_less
      split: option.splits if_splits)

lemma legal_restart_bounds:
  "legal_redirect_restart_seq s t uops = Some r \<Longrightarrow> s < r \<and> r < length uops"
  by (auto simp: legal_redirect_restart_seq_def find_Some_iff)

lemma restart_bounds:
  assumes "s < length uops" and "length uops \<le> u64_max"
  shows "s < unwrap_or (legal_redirect_restart_seq s t uops) (sat_add s 1) \<and>
         unwrap_or (legal_redirect_restart_seq s t uops) (sat_add s 1) \<le> length uops"
  using assms legal_restart_bounds [of s t uops]
  by (cases "legal_redirect_restart_seq s t uops") auto

lemma schedule_cases:
  assumes "sq_frontend_redirect p = None" and "sq_pending_flush p = None" and "length uops \<le> u64_max"
  obtains (none) "schedule_frontend_redirect_recovery cycle p uops = p"
    "resolved_frontend_redirect cycle p uops = None"
  | (redirect) r f c b where "schedule_frontend_redirect_recovery cycle p uops =
        p\<lparr>sq_frontend_redirect := Some r, sq_flush_checkpoint_id := c, sq_pending_flush := Some f,
          sq_pending_bru_correction := b\<rparr>"
      "pf_flush_seq f < fr_restart_seq r" "fr_restart_seq r \<le> length uops"
      "fr_resume_cycle r \<le> Suc cycle" "pf_apply_cycle f \<le> Suc cycle"
      "resolved_boundary_seq cycle uops = Some (pf_flush_seq f)"
proof (cases "resolved_frontend_redirect cycle p uops")
  case None
  then show thesis by (intro none) (simp_all add: schedule_frontend_redirect_recovery_def)
next
  case (Some rd)
  note src = resolved_frontend_redirect_less [OF Some]
  note bounds = restart_bounds [OF conjunct2 [OF src] assms(3), of "rf_target_pc rd"]
  let ?resume = "sat_add cycle FRONTEND_REDIRECT_RESTART_DELAY"
  have res: "?resume \<le> Suc cycle" by (simp add: sat_add_def)
  define r where "r = \<lparr>fr_source_seq = rf_source_seq rd, fr_target_pc = rf_target_pc rd,
      fr_restart_seq = unwrap_or (legal_redirect_restart_seq (rf_source_seq rd) (rf_target_pc rd) uops)
                (sat_add (rf_source_seq rd) 1), fr_checkpoint_id = rf_checkpoint_id rd,
      fr_from_correction = rf_from_correction rd, fr_resume_cycle = ?resume\<rparr>"
  define f where "f = \<lparr>pf_flush_seq = rf_source_seq rd, pf_checkpoint_id = rf_checkpoint_id rd,
      pf_apply_cycle = ?resume\<rparr>"
  have "\<exists>b. schedule_frontend_redirect_recovery cycle p uops =
        p\<lparr>sq_frontend_redirect := Some r, sq_flush_checkpoint_id := Some (rf_checkpoint_id rd),
          sq_pending_flush := Some f, sq_pending_bru_correction := b\<rparr>"
  proof -
    let ?q = "p\<lparr>sq_frontend_redirect := Some r, sq_flush_checkpoint_id := Some (rf_checkpoint_id rd),
          sq_pending_flush := Some f\<rparr>"
    have same: "?q = ?q\<lparr>sq_pending_bru_correction := sq_pending_bru_correction p\<rparr>" by simp
    have "schedule_frontend_redirect_recovery cycle p uops \<in>
        {?q, ?q\<lparr>sq_pending_bru_correction := None\<rparr>}"
      unfolding schedule_frontend_redirect_recovery_def Some Let_def r_def f_def
      by (simp add: assms)
    then show ?thesis
    proof (elim insertE emptyE)
      assume "schedule_frontend_redirect_recovery cycle p uops = ?q"
      from trans [OF this same] show ?thesis by (rule exI)
    qed (rule exI)
  qed
  then obtain b where "schedule_frontend_redirect_recovery cycle p uops =
        p\<lparr>sq_frontend_redirect := Some r, sq_flush_checkpoint_id := Some (rf_checkpoint_id rd),
          sq_pending_flush := Some f, sq_pending_bru_correction := b\<rparr>" ..
  then show thesis
    by (rule redirect) (use bounds res src in \<open>simp_all add: r_def f_def\<close>)
qed

section \<open>What a redirect does\<close>

text \<open>C11: a flush is precise. When a pending flush falls due, these keep exactly their entries up to the redirecting
  uop, in order: the issue queues with their tags, the reorder buffer, every frontend and execution stage, the memory queues,
  the wait crossbar and eighteen of the nineteen tables with an entry per uop. The nineteenth, the branch contexts, is left as it
  is. The owner table is rebuilt from the entries kept, the checkpoint of the flush becomes the active one, and the flush is
  consumed.\<close>

theorem flush_keeps_older:
  assumes "sq_pending_flush p = Some f" and "pf_apply_cycle f \<le> cycle"
    and "apply_pending_flush cycle p iq rob uops = (p', iq', rob')"
  defines "old \<equiv> \<lambda>x. x \<le> pf_flush_seq f"
  shows "iq' = filter (old \<circ> ie_seq) iq \<and> rob' = filter old rob \<and>
    sq_iq_tags p' = bt_retain old (sq_iq_tags p) \<and> sq_frontend p' = map (filter old) (sq_frontend p) \<and>
    (\<forall>stage \<in> {sq_p1, sq_i1, sq_i2, sq_e1, sq_e2, sq_e3, sq_e4, sq_w1, sq_w2, sq_stq, sq_lhq}.
       stage p' = filter old (stage p)) \<and>
    sq_liq p' = filter (old \<circ> lq_seq) (sq_liq p) \<and> sq_mdb p' = filter (old \<circ> md_seq) (sq_mdb p) \<and>
    sq_scb p' = filter (old \<circ> sc_seq) (sq_scb p) \<and> sq_l1d p' = filter (old \<circ> l1_seq) (sq_l1d p) \<and>
    (\<forall>table \<in> {sq_seq_checkpoint_ids, sq_seq_rob_checkpoint_ids, sq_seq_recovery_checkpoint_ids}. table p' = bt_retain old (table p)) \<and>
    (\<forall>table \<in> {sq_seq_recovery_epochs, sq_seq_boundary_target_setup_epochs, sq_seq_boundary_target_source_epochs,
         sq_seq_call_return_target_epochs}. table p' = bt_retain old (table p)) \<and>
    (\<forall>table \<in> {sq_seq_dynamic_target_pcs, sq_seq_boundary_target_pcs, sq_seq_call_return_target_pcs, sq_seq_call_header_faults}.
       table p' = bt_retain old (table p)) \<and>
    (\<forall>table \<in> {sq_seq_boundary_target_owner_seqs, sq_seq_boundary_target_source_owner_seqs, sq_seq_call_return_target_owner_seqs}.
       table p' = bt_retain old (table p)) \<and>
    (\<forall>table \<in> {sq_seq_boundary_target_producer_kinds, sq_seq_return_consumer_kinds}. table p' = bt_retain old (table p)) \<and>
    sq_seq_boundary_target_source_kinds p' = bt_retain old (sq_seq_boundary_target_source_kinds p) \<and>
    sq_seq_call_materialization_kinds p' = bt_retain old (sq_seq_call_materialization_kinds p) \<and>
    sq_seq_branch_contexts p' = sq_seq_branch_contexts p \<and>
    sq_qtag_wait_crossbar p' = map (map (filter (old \<circ> fst))) (sq_qtag_wait_crossbar p) \<and>
    sq_iq_owner_table p' = rebuild_iq_owner_table (sq_iq_owner_table p) iq' (sq_iq_tags p') \<and>
    sq_active_recovery_checkpoint_id p' = pf_checkpoint_id f \<and> sq_pending_flush p' = None"
proof -
  have a: "flush_applies cycle p f" using assms(1,2) by (simp add: flush_applies_def)
  note spec = apply_pending_flush_spec [OF a assms(3)]
  note t = flush_tables [OF a assms(3)]
  have stages: "sq_frontend p' = map (filter old) (sq_frontend p)" "sq_p1 p' = filter old (sq_p1 p)" "sq_i1 p' = filter old (sq_i1 p)"
    "sq_i2 p' = filter old (sq_i2 p)" "sq_e1 p' = filter old (sq_e1 p)" "sq_e2 p' = filter old (sq_e2 p)" "sq_e3 p' = filter old (sq_e3 p)"
    "sq_e4 p' = filter old (sq_e4 p)" "sq_w1 p' = filter old (sq_w1 p)" "sq_stq p' = filter old (sq_stq p)" "sq_lhq p' = filter old (sq_lhq p)"
    "sq_liq p' = filter (old \<circ> lq_seq) (sq_liq p)" "sq_mdb p' = filter (old \<circ> md_seq) (sq_mdb p)"
    "sq_scb p' = filter (old \<circ> sc_seq) (sq_scb p)" "sq_l1d p' = filter (old \<circ> l1_seq) (sq_l1d p)" "sq_pending_flush p' = None"
    using spec(4) by (simp_all add: dispatch_view_def flush_stages_def Let_def old_def comp_def)
  have "sq_w2 p' = filter old (sq_w2 p)" "iq' = filter (old \<circ> ie_seq) iq" "rob' = filter old rob" "sq_iq_tags p' = bt_retain old (sq_iq_tags p)"
    using spec by (simp_all add: old_def comp_def)
  moreover have "sq_qtag_wait_crossbar p' = map (map (filter (old \<circ> fst))) (sq_qtag_wait_crossbar p)"
    unfolding t(2) prune_iq_wait_crossbar_on_redirect_def old_def by (simp add: comp_def case_prod_unfold)
  ultimately show ?thesis using t(1,3,4) stages
    by (simp add: seq_tables_def prune_tables_def Let_def old_def)
qed

lemma flush_keeps_older_witness:
  "\<exists>p' iq'. apply_pending_flush 7
       (default_stage_queues\<lparr>sq_pending_flush := Some \<lparr>pf_flush_seq = 2, pf_checkpoint_id = 0, pf_apply_cycle = 7\<rparr>,
          sq_e1 := [4, 1], sq_seq_recovery_epochs := [(1, 5), (3, 6)]\<rparr>) [] [1, 2, 3, 4] [] = (p', iq', [1, 2]) \<and>
     sq_e1 p' = [1] \<and> sq_seq_recovery_epochs p' = [(1, 5)]"
proof -
  let ?f = "\<lparr>pf_flush_seq = 2, pf_checkpoint_id = 0, pf_apply_cycle = 7\<rparr>"
  let ?p = "default_stage_queues\<lparr>sq_pending_flush := Some ?f, sq_e1 := [4, 1], sq_seq_recovery_epochs := [(1, 5), (3, 6)]\<rparr>"
  obtain p' iq' rob' where f: "apply_pending_flush 7 ?p [] [1, 2, 3, 4] [] = (p', iq', rob')" by (metis prod_cases3)
  have "sq_pending_flush ?p = Some ?f" "pf_apply_cycle ?f \<le> 7" by simp_all
  note k = flush_keeps_older [OF this f]
  have "rob' = [1, 2]" "sq_e1 p' = [1]" "sq_seq_recovery_epochs p' = [(1, 5)]" using k by (simp_all add: bt_retain_def)
  then show ?thesis using f by blast
qed

text \<open>Where fetch restarts: at the first younger uop at the target that may start a block, or else right behind the boundary.\<close>

definition restart_at :: "CycleUop list \<Rightarrow> usize \<Rightarrow> u64 \<Rightarrow> usize \<Rightarrow> bool" where
  "restart_at uops s target r =
     (let entry = (\<lambda>i. cr_pc (uo_commit (uops ! i)) = target \<and> is_legal_redirect_restart (uo_decoded (uops ! i))) in
      if \<exists>i. s < i \<and> i < length uops \<and> entry i
      then s < r \<and> r < length uops \<and> entry r \<and> (\<forall>i. s < i \<and> i < r \<longrightarrow> \<not> entry i)
      else r = Suc s)"

lemma restart_at_legal:
  assumes "s < length uops" "length uops \<le> u64_max"
  shows "restart_at uops s target (unwrap_or (legal_redirect_restart_seq s target uops) (sat_add s 1))"
proof (cases "legal_redirect_restart_seq s target uops")
  case None
  then have "\<nexists>i. s < i \<and> i < length uops \<and> cr_pc (uo_commit (uops ! i)) = target \<and> is_legal_redirect_restart (uo_decoded (uops ! i))"
    by (auto simp: legal_redirect_restart_seq_def find_None_iff)
  then show ?thesis using assms None by (auto simp: restart_at_def sat_add_def)
next
  case (Some r)
  then obtain k where k: "k < length [Suc s ..< length uops]" "r = [Suc s ..< length uops] ! k"
    "cr_pc (uo_commit (uops ! r)) = target \<and> is_legal_redirect_restart (uo_decoded (uops ! r))"
    "\<forall>j < k. \<not> (cr_pc (uo_commit (uops ! ([Suc s ..< length uops] ! j))) = target \<and>
        is_legal_redirect_restart (uo_decoded (uops ! ([Suc s ..< length uops] ! j))))"
    by (auto simp: legal_redirect_restart_seq_def find_Some_iff)
  have r: "r = Suc s + k" "r < length uops" using k(1,2) by auto
  have "\<not> (cr_pc (uo_commit (uops ! i)) = target \<and> is_legal_redirect_restart (uo_decoded (uops ! i)))" if "s < i" "i < r" for i
    using k(4) [rule_format, of "i - Suc s"] that r by simp
  then have "restart_at uops s target r" using k(3) r unfolding restart_at_def Let_def by auto
  then show ?thesis using Some by simp
qed

text \<open>C27: scheduling a redirect. When neither a restart nor a flush is pending, a cycle leaves the pipeline as it
  is or, when a boundary resolves to a redirect, starts exactly one recovery: the flush is at that boundary; fetch restarts
  strictly behind it, at the first younger uop of the trace that sits at the target and may start a block, or
  right behind the boundary when there is none (which is the end of the trace when the boundary is its last uop); and flush and restart
  fall due together one cycle later, with the same checkpoint, so no uop of the wrong path is fetched between them.\<close>

theorem schedule_redirect_consistent:
  assumes "sq_frontend_redirect p = None" and "sq_pending_flush p = None" and "length uops \<le> u64_max"
    and "p' = schedule_frontend_redirect_recovery cycle p uops"
  shows "case resolved_frontend_redirect cycle p uops of None \<Rightarrow> p' = p
         | Some rd \<Rightarrow> (\<exists>r f. sq_frontend_redirect p' = Some r \<and> sq_pending_flush p' = Some f \<and>
                 resolved_boundary_seq cycle uops = Some (pf_flush_seq f) \<and> fr_source_seq r = pf_flush_seq f \<and>
                 fr_target_pc r = rf_target_pc rd \<and> restart_at uops (pf_flush_seq f) (rf_target_pc rd) (fr_restart_seq r) \<and>
                 pf_flush_seq f < fr_restart_seq r \<and> fr_restart_seq r \<le> length uops \<and>
                 fr_resume_cycle r = pf_apply_cycle f \<and> pf_apply_cycle f = sat_add cycle 1 \<and>
                 fr_checkpoint_id r = pf_checkpoint_id f \<and> sq_flush_checkpoint_id p' = Some (pf_checkpoint_id f))"
proof (cases "resolved_frontend_redirect cycle p uops")
  case None
  then show ?thesis using assms by (simp add: schedule_frontend_redirect_recovery_def)
next
  case (Some rd)
  note src = resolved_frontend_redirect_less [OF Some]
  note bounds = restart_bounds [OF conjunct2 [OF src] assms(3), of "rf_target_pc rd"]
  note at = restart_at_legal [OF conjunct2 [OF src] assms(3), of "rf_target_pc rd"]
  show ?thesis unfolding assms(4) schedule_frontend_redirect_recovery_def Some
    using src bounds at by (simp add: Let_def assms(1,2))
qed

text \<open>A block stop that jumps to a block start.\<close>

definition branch_commits :: "CommitRecord list" where
  "branch_commits = [sample_commit 0 0x20, sample_commit 0x20 0x22]"

definition branch_decoded :: "DecodedInstruction list" where
  "branch_decoded = [sample_instr ''C.BSTOP'' [] ''BBD'', sample_instr ''C.BSTART.STD'' [] ''BBD'']"

definition branch_uops :: "CycleUop list" where
  "branch_uops = [(spec_uop branch_commits branch_decoded 0)\<lparr>uo_w1_cycle := Some 5\<rparr>, spec_uop branch_commits branch_decoded 1]"

lemmas branch_defs = branch_commits_def branch_decoded_def sample_defs

lemma branch_uops_sel:
  "length branch_uops = 2" "uo_decoded (branch_uops ! 0) = branch_decoded ! 0" "uo_decoded (branch_uops ! 1) = branch_decoded ! 1"
  "uo_commit (branch_uops ! 0) = branch_commits ! 0" "uo_commit (branch_uops ! 1) = branch_commits ! 1"
  "uo_w1_cycle (branch_uops ! 0) = Some 5"
  by (simp_all add: branch_uops_def spec_uop_def make_uop_def Let_def)

lemma branch_target: "uo_redirect_target (branch_uops ! 0) = Some 0x20"
proof -
  have "architectural_redirect_target (branch_commits ! 0) (branch_decoded ! 0) = Some 0x20"
    by (simp add: branch_defs architectural_redirect_target_def commit_fallthrough_def is_boundary_redirect_owner_def is_bstop_def
        then_some_def word_sat_add_def)
  then show ?thesis by (simp add: branch_uops_def spec_uop_def make_uop_def Let_def)
qed

lemma branch_boundary: "is_boundary_redirect_owner (branch_decoded ! 0)" "\<not> is_start_marker (branch_decoded ! 0)"
  "is_legal_redirect_restart (branch_decoded ! 1)"
  by (simp_all add: branch_defs is_boundary_redirect_owner_def is_bstop_def is_start_marker_def is_bstart_def is_macro_boundary_def
      is_legal_redirect_restart_def bstart_mnemonics_def)

lemma branch_resolves: "resolved_frontend_redirect 5 default_stage_queues branch_uops =
    Some \<lparr>rf_source_seq = 0, rf_target_pc = 0x20, rf_checkpoint_id = 0, rf_from_correction = False\<rparr>"
proof -
  have b: "resolved_boundary_seq 5 branch_uops = Some 0"
    by (simp add: resolved_boundary_seq_def branch_uops_sel upt_rec boundary_resolve_cycle_def branch_boundary opt_or_def)
  have k: "branch_owner_kind_for_uop (branch_uops ! 0) = BoNone"
    unfolding branch_owner_kind_for_uop_def branch_uops_sel
    by (simp add: branch_decoded_def sample_instr_def to_ascii_uppercase_def str_contains_def)
  have t: "live_boundary_target_for_seq 0 default_stage_queues branch_uops = Some 0x20"
    unfolding live_boundary_target_for_seq_def vec_get_def context_target_def boundary_context_from_uop_def branch_uops_sel
    by (simp add: branch_uops_sel branch_boundary branch_target k opt_or_def opt_filter_def bt_get_def default_stage_queues_def)
  have c: "live_rob_checkpoint_id_for_seq 0 default_stage_queues branch_uops = 0"
    by (simp add: live_rob_checkpoint_id_for_seq_def default_stage_queues_def bt_get_def branch_uops_sel branch_boundary)
  have d: "sq_pending_trap default_stage_queues = None" "sq_pending_bru_correction default_stage_queues = None"
    by (simp_all add: default_stage_queues_def)
  show ?thesis by (simp add: resolved_frontend_redirect_def b t c d Let_def opt_filter_def)
qed

lemma schedule_redirect_consistent_witness:
  "\<exists>r f. sq_frontend_redirect (schedule_frontend_redirect_recovery 5 default_stage_queues branch_uops) = Some r \<and>
     sq_pending_flush (schedule_frontend_redirect_recovery 5 default_stage_queues branch_uops) = Some f \<and>
     pf_flush_seq f = 0 \<and> fr_restart_seq r = 1 \<and> fr_target_pc r = 0x20 \<and> pf_apply_cycle f = 6"
proof -
  have "sq_frontend_redirect default_stage_queues = None" "sq_pending_flush default_stage_queues = None" "length branch_uops \<le> u64_max"
    by (simp_all add: default_stage_queues_def branch_uops_sel u64_max_def)
  note s = schedule_redirect_consistent [OF this refl, of 5, unfolded branch_resolves option.case]
  have "sat_add 5 1 = 6" by (simp add: sat_add_def u64_max_def)
  moreover have "resolved_boundary_seq 5 branch_uops = Some 0" using resolved_frontend_redirect_less [OF branch_resolves] by simp
  moreover have "r = 1" if "restart_at branch_uops 0 0x20 r" for r
  proof -
    have "cr_pc (uo_commit (branch_uops ! 1)) = 0x20" by (simp only: branch_uops_sel) (simp add: branch_defs)
    then have "\<exists>i. 0 < i \<and> i < length branch_uops \<and> cr_pc (uo_commit (branch_uops ! i)) = 0x20 \<and>
        is_legal_redirect_restart (uo_decoded (branch_uops ! i))"
      using branch_boundary(3) by (intro exI [of _ 1]) (simp add: branch_uops_sel [simplified])
    then have "0 < r \<and> r < 2" using that by (simp add: restart_at_def branch_uops_sel(1))
    then show ?thesis by simp
  qed
  ultimately show ?thesis using s by auto
qed

text \<open>The oldest of a pending trap and the faults of a cycle.\<close>

definition oldest_trap :: "PendingTrapState option \<Rightarrow> PendingTrapState list \<Rightarrow> PendingTrapState option \<Rightarrow> bool" where
  "oldest_trap t faults t' =
     (case t' of None \<Rightarrow> t = None \<and> faults = []
      | Some x \<Rightarrow> (t = Some x \<or> x \<in> set faults) \<and> list_all (\<lambda>y. pt_seq x \<le> pt_seq y) faults \<and>
                  (case t of None \<Rightarrow> True | Some y \<Rightarrow> pt_seq x \<le> pt_seq y))"

lemma min_by_key_Nil [simp]: "min_by_key f [] = None" by simp

lemma merge_oldest_trap:
  "oldest_trap t faults (case min_by_key pt_seq faults of None \<Rightarrow> t | Some f \<Rightarrow> Some (merge_pending_trap t f))"
proof (cases "min_by_key pt_seq faults")
  case None
  then show ?thesis by (cases t) (auto simp: oldest_trap_def)
next
  case (Some f)
  from min_by_key_Some [OF Some] show ?thesis
    by (auto simp: oldest_trap_def Some merge_pending_trap_def list_all_iff split: option.split intro: order_trans less_imp_le)
qed

text \<open>C26: faults are reported in program order. Each of the three steps that publish the faults of a cycle
  (branch corrections, dynamic block targets, call headers) leaves pending the trap of the oldest uop among the
  trap already pending and all the faults of the cycle.\<close>

theorem pending_trap_is_oldest:
  "oldest_trap (sq_pending_trap p)
     (List.map_filter (\<lambda>seq. bru_recovery_fault seq cycle p uops) [0 ..< length uops])
     (sq_pending_trap (publish_bru_correction_state cycle p uops)) \<and>
   oldest_trap (sq_pending_trap p)
     (List.map_filter (\<lambda>seq. dynamic_boundary_target_fault seq cycle p uops) [0 ..< length uops])
     (sq_pending_trap (publish_dynamic_boundary_target_fault_state cycle p uops)) \<and>
   oldest_trap (sq_pending_trap p) (List.map_filter (call_header_fault cycle p uops) (sq_seq_call_header_faults p))
     (sq_pending_trap (publish_call_header_fault_state cycle p uops))"
proof (intro conjI)
  have "sq_pending_trap (publish_bru_correction_state cycle p uops) =
     (case min_by_key pt_seq (List.map_filter (\<lambda>seq. bru_recovery_fault seq cycle p uops) [0 ..< length uops]) of
        None \<Rightarrow> sq_pending_trap p | Some f \<Rightarrow> Some (merge_pending_trap (sq_pending_trap p) f))"
    by (cases "min_by_key pt_seq (List.map_filter (\<lambda>seq. bru_recovery_fault seq cycle p uops) [0 ..< length uops])")
      (simp_all add: publish_bru_correction_state_def split: option.split)
  then show "oldest_trap (sq_pending_trap p)
     (List.map_filter (\<lambda>seq. bru_recovery_fault seq cycle p uops) [0 ..< length uops])
     (sq_pending_trap (publish_bru_correction_state cycle p uops))" by (simp only: merge_oldest_trap)
  have "sq_pending_trap (publish_dynamic_boundary_target_fault_state cycle p uops) =
     (case min_by_key pt_seq (List.map_filter (\<lambda>seq. dynamic_boundary_target_fault seq cycle p uops) [0 ..< length uops]) of
        None \<Rightarrow> sq_pending_trap p | Some f \<Rightarrow> Some (merge_pending_trap (sq_pending_trap p) f))"
    by (simp add: publish_dynamic_boundary_target_fault_state_def split: option.split)
  then show "oldest_trap (sq_pending_trap p)
     (List.map_filter (\<lambda>seq. dynamic_boundary_target_fault seq cycle p uops) [0 ..< length uops])
     (sq_pending_trap (publish_dynamic_boundary_target_fault_state cycle p uops))" by (simp only: merge_oldest_trap)
  have "sq_pending_trap (publish_call_header_fault_state cycle p uops) =
     (case min_by_key pt_seq (List.map_filter (call_header_fault cycle p uops) (sq_seq_call_header_faults p)) of
        None \<Rightarrow> sq_pending_trap p | Some f \<Rightarrow> Some (merge_pending_trap (sq_pending_trap p) f))"
    by (simp add: publish_call_header_fault_state_def split: option.split)
  then show "oldest_trap (sq_pending_trap p) (List.map_filter (call_header_fault cycle p uops) (sq_seq_call_header_faults p))
     (sq_pending_trap (publish_call_header_fault_state cycle p uops))" by (simp only: merge_oldest_trap)
qed

end
