(* ===== verification/Trace_Emit.thy ===== *)
theory Trace_Emit
  imports Recovery
begin

text \<open>
  Stage tagging and trace emission (\<^verbatim>\<open>crates/camodel/src/trace/mod.rs\<close>): the cycle stamps
  that drive wake-up visibility and completion, and the per-cycle stage trace events with
  their causes and metadata. Of the guest runtime the emitter reads only the block's lane id,
  which is a parameter here.
\<close>

section \<open>Cycle stamps\<close>

definition tag_e1 :: "cyc \<Rightarrow> CycleUop \<Rightarrow> CycleUop" where
  "tag_e1 cycle uop =
     (if uo_e1_cycle uop = None
      then (if uo_is_load uop
            then uop\<lparr>uo_e1_cycle := Some cycle, uo_pick_wakeup_visible := Some (cycle + 1)\<rparr>
            else uop\<lparr>uo_e1_cycle := Some cycle\<rparr>)
      else uop)"

definition tag_e4 :: "cyc \<Rightarrow> CycleUop \<Rightarrow> CycleUop" where
  "tag_e4 cycle uop =
     (if uo_e4_cycle uop = None
      then uop\<lparr>uo_e4_cycle := Some cycle, uo_data_ready_visible := Some (cycle + 1)\<rparr> else uop)"

definition tag_w1 :: "cyc \<Rightarrow> CycleUop \<Rightarrow> CycleUop" where
  "tag_w1 cycle uop =
     (if uo_w1_cycle uop = None
      then (if \<not> uo_is_load uop
            then uop\<lparr>uo_w1_cycle := Some cycle, uo_pick_wakeup_visible := Some (cycle + 1),
                     uo_data_ready_visible := Some (cycle + 1)\<rparr>
            else uop\<lparr>uo_w1_cycle := Some cycle\<rparr>)
      else uop)"

definition tag_w2 :: "cyc \<Rightarrow> CycleUop \<Rightarrow> CycleUop" where
  "tag_w2 cycle uop = (if uo_done_cycle uop = None then uop\<lparr>uo_done_cycle := Some cycle\<rparr> else uop)"

definition tag_queue :: "(CycleUop \<Rightarrow> CycleUop) \<Rightarrow> usize list \<Rightarrow> CycleUop list \<Rightarrow> CycleUop list" where
  "tag_queue f queue uops = fold (\<lambda>seq us. us[seq := f (us ! seq)]) queue uops"

definition tag_stage_cycles :: "cyc \<Rightarrow> StageQueues \<Rightarrow> CycleUop list \<Rightarrow> CycleUop list" where
  "tag_stage_cycles cycle p uops =
     tag_queue (tag_w2 cycle) (sq_w2 p)
       (tag_queue (tag_w1 cycle) (sq_w1 p)
         (tag_queue (tag_e4 cycle) (sq_e4 p)
           (tag_queue (tag_e1 cycle) (sq_e1 p) uops)))"

section \<open>Events\<close>

record event_meta =
  em_checkpoint_id :: "u8 option"
  em_trap_cause :: "u64 option"
  em_traparg0 :: "u64 option"
  em_target_setup_epoch :: "u16 option"
  em_boundary_epoch :: "u16 option"
  em_target_source_owner_row_id :: "string option"
  em_target_source_epoch :: "u16 option"
  em_target_owner_row_id :: "string option"
  em_target_producer_kind :: "string option"
  em_branch_kind :: "string option"
  em_return_kind :: "string option"
  em_call_materialization_kind :: "string option"
  em_target_source_kind :: "string option"

definition no_meta :: event_meta where
  "no_meta = \<lparr>em_checkpoint_id = None, em_trap_cause = None, em_traparg0 = None,
     em_target_setup_epoch = None, em_boundary_epoch = None, em_target_source_owner_row_id = None,
     em_target_source_epoch = None, em_target_owner_row_id = None, em_target_producer_kind = None,
     em_branch_kind = None, em_return_kind = None, em_call_materialization_kind = None,
     em_target_source_kind = None\<rparr>"

definition stage_event_with_meta ::
  "cyc \<Rightarrow> string \<Rightarrow> CycleUop list \<Rightarrow> usize \<Rightarrow> string \<Rightarrow> string \<Rightarrow> event_meta \<Rightarrow> StageTraceEvent" where
  "stage_event_with_meta cycle block_lane uops seq stage cause m =
     \<lparr>ev_cycle = cycle, ev_row_id = uop_row_id seq, ev_stage_id = stage,
      ev_lane_id = (case uo_phys_iq (uops ! seq) of Some q \<Rightarrow> lane_id q | None \<Rightarrow> block_lane),
      ev_stall = False, ev_cause = cause,
      ev_checkpoint_id = em_checkpoint_id m, ev_trap_cause = em_trap_cause m,
      ev_traparg0 = em_traparg0 m, ev_target_setup_epoch = em_target_setup_epoch m,
      ev_boundary_epoch = em_boundary_epoch m,
      ev_target_source_owner_row_id = em_target_source_owner_row_id m,
      ev_target_source_epoch = em_target_source_epoch m,
      ev_target_owner_row_id = em_target_owner_row_id m,
      ev_target_producer_kind = em_target_producer_kind m,
      ev_branch_kind = em_branch_kind m, ev_return_kind = em_return_kind m,
      ev_call_materialization_kind = em_call_materialization_kind m,
      ev_target_source_kind = em_target_source_kind m\<rparr>"

definition stage_event ::
  "cyc \<Rightarrow> string \<Rightarrow> CycleUop list \<Rightarrow> usize \<Rightarrow> string \<Rightarrow> string \<Rightarrow> StageTraceEvent" where
  "stage_event cycle block_lane uops seq stage cause =
     stage_event_with_meta cycle block_lane uops seq stage cause no_meta"

text \<open>The metadata every control event carries: the live views of its sequence number.\<close>

definition control_meta ::
  "usize \<Rightarrow> u8 option \<Rightarrow> u64 option \<Rightarrow> u64 option \<Rightarrow> StageQueues \<Rightarrow> CycleUop list \<Rightarrow> event_meta" where
  "control_meta seq checkpoint_id trap_cause traparg0 p uops =
     \<lparr>em_checkpoint_id = checkpoint_id, em_trap_cause = trap_cause, em_traparg0 = traparg0,
      em_target_setup_epoch = live_dynamic_target_setup_epoch_for_seq seq p,
      em_boundary_epoch = live_boundary_epoch_for_seq seq p uops,
      em_target_source_owner_row_id = live_dynamic_target_source_owner_row_id_for_seq seq p,
      em_target_source_epoch = live_dynamic_target_source_epoch_for_seq seq p,
      em_target_owner_row_id = live_control_target_owner_row_id_for_seq seq p uops,
      em_target_producer_kind =
        map_option return_consumer_kind_label (live_dynamic_target_producer_kind_for_seq seq p),
      em_branch_kind = Option.bind (live_branch_kind_for_seq seq p uops) branch_kind_label,
      em_return_kind =
        map_option return_consumer_kind_label (live_return_consumer_kind_for_seq seq p uops),
      em_call_materialization_kind =
        map_option call_materialization_kind_label (live_call_materialization_kind_for_seq seq p uops),
      em_target_source_kind =
        map_option dynamic_target_source_kind_label (live_dynamic_target_source_kind_for_seq seq p)\<rparr>"

definition pending_trap_stage_cause :: "u64 \<Rightarrow> DynamicTargetSourceKind option \<Rightarrow> string" where
  "pending_trap_stage_cause cause target_source_kind =
     (if cause = TRAP_BRU_RECOVERY_NOT_BSTART then ''bru_recovery_fault''
      else if cause = TRAP_DYNAMIC_TARGET_MISSING then ''dynamic_target_missing''
      else if cause = TRAP_DYNAMIC_TARGET_STALE then
        (if target_source_kind \<in> {Some CallReturnFused, Some CallReturnAdjacentSetret}
         then ''dynamic_target_stale_return'' else ''dynamic_target_stale_setup'')
      else if cause = TRAP_DYNAMIC_TARGET_NOT_BSTART then ''dynamic_target_not_bstart''
      else if cause = TRAP_SETRET_NOT_ADJACENT then ''call_header_fault''
      else ''trap_fault'')"

definition frontend_events :: "cyc \<Rightarrow> string \<Rightarrow> StageQueues \<Rightarrow> CycleUop list \<Rightarrow> StageTraceEvent list" where
  "frontend_events cycle lane p uops =
     concat (map (\<lambda>(idx, queue). map (\<lambda>seq.
        stage_event cycle lane uops seq (FRONTEND_STAGE_NAMES ! idx) ''resident'') queue)
       (enumerate 0 (sq_frontend p)))"

definition memory_events :: "cyc \<Rightarrow> string \<Rightarrow> StageQueues \<Rightarrow> CycleUop list \<Rightarrow> StageTraceEvent list" where
  "memory_events cycle lane p uops =
     map (\<lambda>e. stage_event cycle lane uops (lq_seq e) ''LIQ''
            (if lq_refill_ready_cycle e \<le> cycle then ''eligible'' else ''wait_refill'')) (sq_liq p) @
     map (\<lambda>seq. stage_event cycle lane uops seq ''LHQ'' ''inflight_load'') (sq_lhq p) @
     map (\<lambda>e. stage_event cycle lane uops (md_seq e) ''MDB''
            (if md_refill_ready_cycle e \<le> cycle then ''refill_ready'' else ''wait_refill'')) (sq_mdb p) @
     map (\<lambda>seq. stage_event cycle lane uops seq ''STQ'' ''store_visible'') (sq_stq p) @
     map (\<lambda>e. stage_event cycle lane uops (sc_seq e) ''SCB''
            (if sc_enqueue_cycle e < cycle then ''drain_ready'' else ''coalesce'')) (sq_scb p) @
     map (\<lambda>e. stage_event cycle lane uops (l1_seq e) ''L1D''
            (case l1_kind e of
               LoadHit \<Rightarrow> if l1_ready_cycle e \<le> cycle then ''load_hit_resp'' else ''load_hit_req''
             | StoreDrain \<Rightarrow>
                 if l1_ready_cycle e \<le> cycle then ''store_drain_resp'' else ''store_drain_req''))
       (sq_l1d p)"

definition iq_event_cause ::
  "cyc \<Rightarrow> StageQueues \<Rightarrow> IqEntry list \<Rightarrow> usize list \<Rightarrow> CycleUop list \<Rightarrow> IqEntry \<Rightarrow> string" where
  "iq_event_cause cycle p iq rob uops entry =
     (if ie_inflight entry then ''inflight''
      else case iq_entry_wait_cause_from_state entry cycle (sq_lsid_issue_ptr p) uops of
        Some cause \<Rightarrow> cause
      | None \<Rightarrow>
          if list_ex (\<lambda>(_, seq, phys_iq). seq = ie_seq entry \<and> phys_iq = ie_phys_iq entry)
               (ready_iq_winners cycle (sq_lsid_issue_ptr p) iq uops rob)
          then ''ready'' else ''wait_iq_age'')"

definition issue_events ::
  "cyc \<Rightarrow> string \<Rightarrow> StageQueues \<Rightarrow> IqEntry list \<Rightarrow> usize list \<Rightarrow> CycleUop list \<Rightarrow> StageTraceEvent list" where
  "issue_events cycle lane p iq rob uops =
     map (\<lambda>entry. stage_event cycle lane uops (ie_seq entry) ''IQ''
            (iq_event_cause cycle p iq rob uops entry)) iq @
     map (\<lambda>seq. stage_event cycle lane uops seq ''P1'' ''pick'') (sq_p1 p) @
     map (\<lambda>seq. stage_event cycle lane uops seq ''I1'' ''rf_arbitrate'') (sq_i1 p) @
     map (\<lambda>seq. stage_event cycle lane uops seq ''I2''
            (if i2_issue_eligible seq cycle (sq_lsid_issue_ptr p) uops then ''issue_confirm''
             else if i2_waits_on_lsid seq cycle (sq_lsid_issue_ptr p) uops then ''wait_lsid''
             else ''wait_forward'')) (sq_i2 p)"

definition execute_events :: "cyc \<Rightarrow> string \<Rightarrow> StageQueues \<Rightarrow> CycleUop list \<Rightarrow> StageTraceEvent list" where
  "execute_events cycle lane p uops =
     map (\<lambda>seq. stage_event cycle lane uops seq ''E1''
            (if uo_is_load (uops ! seq) then ''ld_spec_wakeup'' else ''execute'')) (sq_e1 p) @
     map (\<lambda>seq. stage_event cycle lane uops seq ''E2'' ''execute'') (sq_e2 p) @
     map (\<lambda>seq. stage_event cycle lane uops seq ''E3'' ''execute'') (sq_e3 p) @
     map (\<lambda>seq. stage_event cycle lane uops seq ''E4''
            (if uo_is_load (uops ! seq) \<and> load_forward_visible seq p uops
             then ''ld_store_forward'' else ''ld_data'')) (sq_e4 p) @
     map (\<lambda>seq. stage_event cycle lane uops seq ''W1'' ''wakeup'') (sq_w1 p) @
     map (\<lambda>seq. stage_event cycle lane uops seq ''W2'' ''complete'') (sq_w2 p)"

definition trap_events :: "cyc \<Rightarrow> string \<Rightarrow> StageQueues \<Rightarrow> CycleUop list \<Rightarrow> StageTraceEvent list" where
  "trap_events cycle lane p uops =
     (case opt_filter (\<lambda>t. pt_visible_cycle t = cycle) (sq_pending_trap p) of None \<Rightarrow> []
      | Some t \<Rightarrow>
          [stage_event_with_meta cycle lane uops (pt_seq t) ''FLS''
             (pending_trap_stage_cause (pt_cause t)
                (live_dynamic_target_source_kind_for_seq (pt_seq t) p))
             (control_meta (pt_seq t) (Some (pt_checkpoint_id t)) (Some (pt_cause t))
                (Some (pt_traparg0 t)) p uops)])"

definition redirect_events :: "cyc \<Rightarrow> string \<Rightarrow> StageQueues \<Rightarrow> CycleUop list \<Rightarrow> StageTraceEvent list" where
  "redirect_events cycle lane p uops =
     (case resolved_frontend_redirect cycle p uops of
        Some redirect \<Rightarrow>
          [stage_event_with_meta cycle lane uops (rf_source_seq redirect) ''FLS''
             (if rf_from_correction redirect then ''redirect_br_corr'' else ''redirect_boundary'')
             (control_meta (rf_source_seq redirect) (Some (rf_checkpoint_id redirect)) None None p uops)]
      | None \<Rightarrow>
          map (\<lambda>seq. stage_event_with_meta cycle lane uops seq ''FLS'' ''redirect''
                 (control_meta seq (Some (live_rob_checkpoint_id_for_seq seq p uops)) None None p uops))
            (filter (\<lambda>seq. redirect_resolve_cycle (uops ! seq) = Some cycle) [0 ..< length uops]))"

definition rob_events :: "cyc \<Rightarrow> string \<Rightarrow> usize list \<Rightarrow> CycleUop list \<Rightarrow> StageTraceEvent list" where
  "rob_events cycle lane rob uops =
     map (\<lambda>seq. stage_event cycle lane uops seq ''ROB''
            (if uo_done_cycle (uops ! seq) \<noteq> None then ''ready'' else ''wait_head'')) rob"

definition emit_stage_events ::
  "cyc \<Rightarrow> string \<Rightarrow> StageQueues \<Rightarrow> IqEntry list \<Rightarrow> usize list \<Rightarrow> CycleUop list \<Rightarrow> StageTraceEvent list \<Rightarrow>
   StageTraceEvent list" where
  "emit_stage_events cycle lane p iq rob uops out =
     out @ frontend_events cycle lane p uops @ memory_events cycle lane p uops @
     issue_events cycle lane p iq rob uops @ execute_events cycle lane p uops @
     trap_events cycle lane p uops @ redirect_events cycle lane p uops @
     rob_events cycle lane rob uops"

section \<open>Lemmas\<close>

lemma static_tag_queue:
  "(\<And>u. uop_static (f u) = uop_static u) \<Longrightarrow> map uop_static (tag_queue f q uops) = map uop_static uops"
  by (induction q arbitrary: uops) (simp_all add: tag_queue_def map_static_update)

lemma static_tag_stage_cycles: "map uop_static (tag_stage_cycles cycle p uops) = map uop_static uops"
  by (simp add: tag_stage_cycles_def static_tag_queue tag_e1_def tag_e4_def tag_w1_def tag_w2_def)

end
