(* ===== verification/Commit.thy ===== *)
theory Commit
  imports Trace_Emit
begin

text \<open>
  In-order retirement (\<^verbatim>\<open>crates/camodel/src/control/commit/mod.rs\<close>): up to four completed
  uops leave the head of the reorder buffer per cycle; each emits its commit record (with a
  pending trap of that uop folded in), publishes its queue tag, and hands a store to the
  store-commit buffer.
\<close>

record retire_state =
  rs_rob :: "usize list"
  rs_committed :: "CommitRecord list"
  rs_retired_seqs :: "usize list"
  rs_pipe :: StageQueues
  rs_events :: "StageTraceEvent list"
  rs_trap :: "u64 option"

definition retire_commit :: "cyc \<Rightarrow> PendingTrapState option \<Rightarrow> CommitRecord \<Rightarrow> CommitRecord" where
  "retire_commit cycle trap commit =
     (case trap of
        None \<Rightarrow> commit
      | Some t \<Rightarrow> commit\<lparr>cr_trap_valid := 1, cr_trap_cause := pt_cause t, cr_traparg0 := pt_traparg0 t\<rparr>)
     \<lparr>cr_cycle := cycle\<rparr>"

definition retire_one ::
  "cyc \<Rightarrow> string \<Rightarrow> CycleUop list \<Rightarrow> usize \<Rightarrow> usize list \<Rightarrow> retire_state \<Rightarrow> retire_state" where
  "retire_one cycle lane uops seq rob' st =
     (let p = rs_pipe st;
          uop = uops ! seq;
          trap = opt_filter (\<lambda>pending. pt_seq pending = seq) (sq_pending_trap p);
          commit = retire_commit cycle trap (uo_commit uop);
          p1 = (if trap = None then p else p\<lparr>sq_pending_trap := None\<rparr>);
          trap_cause = then_some (cr_trap_valid commit \<noteq> 0) (cr_trap_cause commit);
          traparg0 = then_some (cr_trap_valid commit \<noteq> 0) (cr_traparg0 commit);
          event = stage_event_with_meta cycle lane uops seq ''CMT'' ''retire''
            (control_meta seq (Some (live_rob_checkpoint_id_for_seq seq p1 uops)) trap_cause traparg0
               p1 uops);
          p2 = (case uo_dst_logical_tag uop of None \<Rightarrow> p1 | Some tag \<Rightarrow> insert_ready_table_tag p1 tag);
          p3 = (if uo_is_store uop
                then p2\<lparr>sq_stq := remove_queue_entry (sq_stq p2) seq,
                        sq_scb := sq_scb p2 @ [\<lparr>sc_seq = seq, sc_enqueue_cycle = cycle\<rparr>]\<rparr>
                else p2)
      in \<lparr>rs_rob = rob', rs_committed = rs_committed st @ [commit],
          rs_retired_seqs = rs_retired_seqs st @ [seq], rs_pipe = p3,
          rs_events = rs_events st @ [event],
          rs_trap = (case trap of None \<Rightarrow> rs_trap st | Some t \<Rightarrow> Some (pt_cause t))\<rparr>)"

fun retire_loop :: "nat \<Rightarrow> cyc \<Rightarrow> string \<Rightarrow> CycleUop list \<Rightarrow> retire_state \<Rightarrow> retire_state" where
  "retire_loop 0 cycle lane uops st = st"
| "retire_loop (Suc budget) cycle lane uops st =
     (case rs_rob st of [] \<Rightarrow> st
      | seq # rob' \<Rightarrow>
          if uo_done_cycle (uops ! seq) = None then st
          else retire_loop budget cycle lane uops (retire_one cycle lane uops seq rob' st))"

definition retire_ready ::
  "cyc \<Rightarrow> string \<Rightarrow> CycleUop list \<Rightarrow> usize list \<Rightarrow> CommitRecord list \<Rightarrow> usize list \<Rightarrow> StageQueues \<Rightarrow>
   StageTraceEvent list \<Rightarrow> retire_state" where
  "retire_ready cycle lane uops rob committed retired_seqs p stage_events =
     retire_loop COMMIT_WIDTH cycle lane uops
       \<lparr>rs_rob = rob, rs_committed = committed, rs_retired_seqs = retired_seqs, rs_pipe = p,
        rs_events = stage_events, rs_trap = None\<rparr>"

section \<open>Retirement\<close>

text \<open>Retirement takes a completed prefix of the reorder buffer.\<close>

lemma retire_loop_spec:
  "\<exists>k cs. k \<le> budget \<and> k \<le> length (rs_rob st) \<and>
     rs_rob (retire_loop budget cycle lane uops st) = drop k (rs_rob st) \<and>
     rs_retired_seqs (retire_loop budget cycle lane uops st) = rs_retired_seqs st @ take k (rs_rob st) \<and>
     rs_committed (retire_loop budget cycle lane uops st) = rs_committed st @ cs \<and>
     list_all2 (\<lambda>c s. \<exists>t. c = retire_commit cycle t (uo_commit (uops ! s))) cs (take k (rs_rob st)) \<and>
     (\<forall>s \<in> set (take k (rs_rob st)). uo_done_cycle (uops ! s) \<noteq> None)"
proof (induction budget arbitrary: st)
  case 0
  show ?case by (intro exI [of _ 0] exI [of _ "[]"]) simp
next
  case (Suc budget)
  show ?case
  proof (cases "rs_rob st")
    case Nil
    then show ?thesis by (intro exI [of _ 0] exI [of _ "[]"]) simp
  next
    case (Cons seq rob')
    show ?thesis
    proof (cases "uo_done_cycle (uops ! seq)")
      case None
      with Cons show ?thesis by (intro exI [of _ 0] exI [of _ "[]"]) simp
    next
      case (Some d)
      let ?st = "retire_one cycle lane uops seq rob' st"
      obtain c where one: "rs_rob ?st = rob'" "rs_retired_seqs ?st = rs_retired_seqs st @ [seq]"
        "rs_committed ?st = rs_committed st @ [c]" "\<exists>t. c = retire_commit cycle t (uo_commit (uops ! seq))"
        by (auto simp: retire_one_def Let_def)
      from Suc.IH [of ?st] obtain k cs where "k \<le> budget" "k \<le> length rob'"
        "rs_rob (retire_loop budget cycle lane uops ?st) = drop k rob'"
        "rs_retired_seqs (retire_loop budget cycle lane uops ?st) = (rs_retired_seqs st @ [seq]) @ take k rob'"
        "rs_committed (retire_loop budget cycle lane uops ?st) = (rs_committed st @ [c]) @ cs"
        "list_all2 (\<lambda>c s. \<exists>t. c = retire_commit cycle t (uo_commit (uops ! s))) cs (take k rob')"
        "\<forall>s \<in> set (take k rob'). uo_done_cycle (uops ! s) \<noteq> None" unfolding one by blast
      with one(4) Cons Some show ?thesis by (intro exI [of _ "Suc k"] exI [of _ "c # cs"]) simp
    qed
  qed
qed

lemma retire_one_pipe:
  "stage_view ((rs_pipe (retire_one cycle lane uops seq rob' st))\<lparr>sq_pending_trap := t, sq_ready_table_t := a,
      sq_ready_table_u := b, sq_stq := c, sq_scb := d\<rparr>) =
   stage_view ((rs_pipe st)\<lparr>sq_pending_trap := t, sq_ready_table_t := a, sq_ready_table_u := b, sq_stq := c, sq_scb := d\<rparr>)"
  by (simp add: retire_one_def Let_def stage_view_def insert_ready_table_tag_def
      split: option.split QueueWakeKind.split)

lemma retire_loop_pipe:
  "stage_view ((rs_pipe (retire_loop budget cycle lane uops st))\<lparr>sq_pending_trap := t, sq_ready_table_t := a,
      sq_ready_table_u := b, sq_stq := c, sq_scb := d\<rparr>) =
   stage_view ((rs_pipe st)\<lparr>sq_pending_trap := t, sq_ready_table_t := a, sq_ready_table_u := b, sq_stq := c, sq_scb := d\<rparr>)"
  by (induction budget arbitrary: st) (auto simp: retire_one_pipe split: list.split option.split)

text \<open>The completed uops at the head of the reorder buffer, at most the commit width.\<close>

definition retiring :: "nat \<Rightarrow> CycleUop list \<Rightarrow> usize list \<Rightarrow> usize list" where
  "retiring budget uops rob = takeWhile (\<lambda>s. uo_done_cycle (uops ! s) \<noteq> None) (take budget rob)"

lemma retiring_Suc:
  "retiring (Suc b) uops (s # rob) = (if uo_done_cycle (uops ! s) = None then [] else s # retiring b uops rob)"
  by (simp add: retiring_def)

lemma retire_one_effects:
  "sq_scb (rs_pipe (retire_one cycle lane uops seq rob' st)) =
     sq_scb (rs_pipe st) @ (if uo_is_store (uops ! seq) then [\<lparr>sc_seq = seq, sc_enqueue_cycle = cycle\<rparr>] else [])"
  "sq_pending_trap (rs_pipe (retire_one cycle lane uops seq rob' st)) =
     opt_filter (\<lambda>t. pt_seq t \<noteq> seq) (sq_pending_trap (rs_pipe st))"
  "rs_committed (retire_one cycle lane uops seq rob' st) = rs_committed st @
     [retire_commit cycle (opt_filter (\<lambda>t. pt_seq t = seq) (sq_pending_trap (rs_pipe st))) (uo_commit (uops ! seq))]"
  "rs_rob (retire_one cycle lane uops seq rob' st) = rob'"
  "rs_retired_seqs (retire_one cycle lane uops seq rob' st) = rs_retired_seqs st @ [seq]"
  by (auto simp: retire_one_def Let_def insert_ready_table_tag_def opt_filter_def split: option.split QueueWakeKind.split)

lemma retire_loop_exact:
  assumes "distinct (rs_rob st)"
  shows "let st' = retire_loop budget cycle lane uops st; k = retiring budget uops (rs_rob st) in
     rs_rob st' = drop (length k) (rs_rob st) \<and> rs_retired_seqs st' = rs_retired_seqs st @ k \<and>
     rs_committed st' = rs_committed st @
       map (\<lambda>s. retire_commit cycle (opt_filter (\<lambda>t. pt_seq t = s) (sq_pending_trap (rs_pipe st))) (uo_commit (uops ! s))) k \<and>
     sq_scb (rs_pipe st') = sq_scb (rs_pipe st) @
       map (\<lambda>s. \<lparr>sc_seq = s, sc_enqueue_cycle = cycle\<rparr>) (filter (\<lambda>s. uo_is_store (uops ! s)) k) \<and>
     sq_pending_trap (rs_pipe st') = opt_filter (\<lambda>t. pt_seq t \<notin> set k) (sq_pending_trap (rs_pipe st))"
  using assms
proof (induction budget arbitrary: st)
  case 0
  then show ?case by (simp add: retiring_def opt_filter_def split: option.split)
next
  case (Suc budget)
  show ?case
  proof (cases "rs_rob st")
    case Nil
    then show ?thesis by (simp add: retiring_def opt_filter_def split: option.split)
  next
    case (Cons seq rob')
    show ?thesis
    proof (cases "uo_done_cycle (uops ! seq)")
      case None
      with Cons show ?thesis by (simp add: retiring_Suc opt_filter_def split: option.split)
    next
      case (Some d)
      have keep: "opt_filter (\<lambda>t. pt_seq t = s) (opt_filter (\<lambda>t. pt_seq t \<noteq> seq) tr) = opt_filter (\<lambda>t. pt_seq t = s) tr"
        if "s \<noteq> seq" for s tr using that by (auto simp: opt_filter_def split: option.split)
      have merge: "opt_filter (\<lambda>t. pt_seq t \<notin> set xs) (opt_filter (\<lambda>t. pt_seq t \<noteq> seq) tr) =
          opt_filter (\<lambda>t. pt_seq t \<notin> set (seq # xs)) tr" for xs tr
        by (auto simp: opt_filter_def split: option.split)
      have "seq \<notin> set (retiring budget uops rob')"
        using Suc.prems Cons by (auto simp: retiring_def dest!: set_takeWhileD in_set_takeD)
      then have same: "map (\<lambda>s. retire_commit cycle (opt_filter (\<lambda>t. pt_seq t = s) (opt_filter (\<lambda>t. pt_seq t \<noteq> seq) tr))
            (uo_commit (uops ! s))) (retiring budget uops rob') =
          map (\<lambda>s. retire_commit cycle (opt_filter (\<lambda>t. pt_seq t = s) tr) (uo_commit (uops ! s))) (retiring budget uops rob')" for tr
        by (intro map_cong refl arg_cong2 [where f = "retire_commit cycle"] keep) blast
      from Suc.IH [of "retire_one cycle lane uops seq rob' st"] Suc.prems Cons Some show ?thesis
        by (simp add: Let_def retire_one_effects retiring_Suc same merge)
    qed
  qed
qed

text \<open>C10: in-order retirement. A cycle retires exactly the completed uops at the head of the reorder
  buffer, at most four, and stops at the first incomplete one. Each emits its own commit record stamped
  with the cycle, with the pending trap folded in exactly when the trap is that uop's; each retired store, and
  nothing else, joins the store-commit buffer in order; and a pending trap is consumed exactly by retiring
  its uop.\<close>

theorem retire_ready_in_order:
  assumes "distinct rob" and "st' = retire_ready cycle lane uops rob committed retired p events"
  defines "k \<equiv> retiring COMMIT_WIDTH uops rob"
  shows "rob = k @ rs_rob st' \<and> length k \<le> COMMIT_WIDTH \<and>
     (length k < COMMIT_WIDTH \<and> rs_rob st' \<noteq> [] \<longrightarrow> uo_done_cycle (uops ! hd (rs_rob st')) = None) \<and>
     rs_retired_seqs st' = retired @ k \<and>
     rs_committed st' = committed @
       map (\<lambda>s. retire_commit cycle (opt_filter (\<lambda>t. pt_seq t = s) (sq_pending_trap p)) (uo_commit (uops ! s))) k \<and>
     sq_scb (rs_pipe st') = sq_scb p @
       map (\<lambda>s. \<lparr>sc_seq = s, sc_enqueue_cycle = cycle\<rparr>) (filter (\<lambda>s. uo_is_store (uops ! s)) k) \<and>
     sq_pending_trap (rs_pipe st') = opt_filter (\<lambda>t. pt_seq t \<notin> set k) (sq_pending_trap p)"
proof -
  have pre: "k @ drop (length k) rob = rob"
  proof -
    have "take (length k) (take COMMIT_WIDTH rob) = k" unfolding k_def retiring_def by (rule takeWhile_eq_take [symmetric])
    moreover have "length k \<le> COMMIT_WIDTH"
      unfolding k_def retiring_def by (rule order_trans [OF length_takeWhile_le]) simp
    ultimately have "take (length k) rob = k" by (simp add: min_absorb1)
    then show ?thesis by (metis append_take_drop_id)
  qed
  have len: "length k \<le> COMMIT_WIDTH"
    unfolding k_def retiring_def by (rule order_trans [OF length_takeWhile_le]) simp
  have stop: "uo_done_cycle (uops ! hd (drop (length k) rob)) = None" if l: "length k < COMMIT_WIDTH" and ne: "drop (length k) rob \<noteq> []"
  proof -
    let ?P = "\<lambda>s. uo_done_cycle (uops ! s) \<noteq> None" and ?t = "take COMMIT_WIDTH rob"
    have "length (takeWhile ?P ?t) < length ?t" using l ne by (simp add: k_def retiring_def)
    from nth_length_takeWhile [OF this] show ?thesis using l ne by (simp add: k_def retiring_def hd_drop_conv_nth)
  qed
  from retire_loop_exact [of "\<lparr>rs_rob = rob, rs_committed = committed, rs_retired_seqs = retired, rs_pipe = p,
        rs_events = events, rs_trap = None\<rparr>" COMMIT_WIDTH cycle lane uops] assms(1,2)
  show ?thesis using pre len stop by (simp add: retire_ready_def Let_def k_def)
qed

lemma retire_ready_in_order_witness:
  "let u = (spec_uop queue_pair_commits queue_pair_decoded 0)\<lparr>uo_done_cycle := Some 4\<rparr>;
       v = spec_uop queue_pair_commits queue_pair_decoded 1 in
   rs_rob (retire_ready 5 ''core0'' [u, v\<lparr>uo_done_cycle := None\<rparr>] [0, 1] [] [] default_stage_queues []) = [1]"
  using retire_ready_in_order [where rob = "[0, 1]" and cycle = 5 and lane = "''core0''" and committed = "[]" and retired = "[]"
      and p = default_stage_queues and events = "[]" and uops =
      "[(spec_uop queue_pair_commits queue_pair_decoded 0)\<lparr>uo_done_cycle := Some 4\<rparr>,
        (spec_uop queue_pair_commits queue_pair_decoded 1)\<lparr>uo_done_cycle := None\<rparr>]", OF _ refl]
  by (simp add: Let_def retiring_def eval_nat_numeral)

end
