(* ===== verification/Engine.thy ===== *)
theory Engine
  imports Commit
begin

text \<open>
  The cycle engine (\<^verbatim>\<open>crates/camodel/src/core/engine.rs\<close>): one cycle is the fixed sequence
  of component steps below, and a run iterates it up to \<open>max_cycles\<close> times with the source's
  three early exits. The functional engine whose commits the cycle engine replays is a
  parameter, a function from the step limit to an error or a run result.
\<close>

section \<open>State and environment\<close>

record engine_state =
  es_pipe :: StageQueues
  es_iq :: "IqEntry list"
  es_rob :: "usize list"
  es_uops :: "CycleUop list"
  es_committed :: "CommitRecord list"
  es_retired_seqs :: "usize list"
  es_next_fetch_seq :: usize
  es_events :: "StageTraceEvent list"

record guest_view =
  gv_image_name :: string
  gv_pc :: u64
  gv_block_lane_id :: string

record run_env =
  re_lane :: string
  re_options :: CycleRunOptions
  re_target_commit_count :: usize
  re_func_exit_reason :: string

definition init_engine_state :: "CycleUop list \<Rightarrow> engine_state" where
  "init_engine_state uops =
     \<lparr>es_pipe = default_stage_queues, es_iq = [], es_rob = [], es_uops = uops, es_committed = [],
      es_retired_seqs = [], es_next_fetch_seq = 0, es_events = []\<rparr>"

section \<open>One cycle\<close>

text \<open>From the flush to the trace emission.\<close>

definition cycle_prepare :: "cyc \<Rightarrow> run_env \<Rightarrow> engine_state \<Rightarrow> engine_state" where
  "cycle_prepare cycle env es =
     (let (p1, iq1, rob1) =
            apply_pending_flush cycle (es_pipe es) (es_iq es) (es_rob es) (es_uops es);
          (p2, next_fetch) = fill_fetch cycle p1 (es_next_fetch_seq es) (es_uops es);
          uops1 = tag_stage_cycles cycle p2 (es_uops es);
          p3 = publish_bru_correction_state cycle p2 uops1;
          p4 = publish_dynamic_boundary_target_fault_state cycle p3 uops1;
          p5 = publish_call_header_fault_state cycle p4 uops1;
          iq2 = update_iq_entries_for_cycle cycle iq1 (sq_ready_table_t p5) (sq_ready_table_u p5)
                  (sq_iq_owner_table p5) (sq_iq_tags p5) (sq_qtag_wait_crossbar p5) uops1;
          events = emit_stage_events cycle (re_lane env) p5 iq2 rob1 uops1 (es_events es);
          p6 = advance_scb cycle p5 uops1
      in es\<lparr>es_pipe := p6, es_iq := iq2, es_rob := rob1, es_uops := uops1,
            es_next_fetch_seq := next_fetch, es_events := events\<rparr>)"

text \<open>Retirement; the second component is the cause of a retired trap.\<close>

definition cycle_retire :: "cyc \<Rightarrow> run_env \<Rightarrow> engine_state \<Rightarrow> engine_state \<times> u64 option" where
  "cycle_retire cycle env es =
     (let rs = retire_ready cycle (re_lane env) (es_uops es) (es_rob es) (es_committed es)
                 (es_retired_seqs es) (es_pipe es) (es_events es)
      in (es\<lparr>es_pipe := rs_pipe rs, es_rob := rs_rob rs, es_committed := rs_committed rs,
             es_retired_seqs := rs_retired_seqs rs, es_events := rs_events rs\<rparr>, rs_trap rs))"

text \<open>From execute back to fetch: the stages move in reverse pipeline order.\<close>

definition cycle_advance :: "cyc \<Rightarrow> run_env \<Rightarrow> engine_state \<Rightarrow> engine_state" where
  "cycle_advance cycle env es =
     (let (p1, uops1) = advance_execute cycle (es_pipe es) (es_uops es) (re_options env);
          p2 = advance_l1d cycle p1;
          (p3, uops2) = advance_liq cycle p2 uops1 (es_rob es);
          (p4, iq1) = advance_i1_to_i2 p3 (es_iq es);
          (admitted_i1, iq2) = arbitrate_i1 cycle (sq_p1 p4) iq1 uops2 (es_rob es);
          (i1, p1_queue) = advance_p1_to_i1 (sq_i1 p4) admitted_i1 [];
          p5 = p4\<lparr>sq_i1 := i1, sq_p1 := p1_queue\<rparr>;
          p6 = advance_i2 cycle p5 uops2;
          (iq3, p1_queue') = pick_from_iq cycle (sq_lsid_issue_ptr p6) iq2 uops2 (sq_p1 p6) (es_rob es);
          p7 = p6\<lparr>sq_p1 := p1_queue'\<rparr>;
          (p8, iq4, uops3) = dispatch_to_iq_and_bypass cycle p7 iq3 uops2;
          (p9, rob1) = advance_frontend p8 (es_rob es)
      in es\<lparr>es_pipe := p9, es_iq := iq4, es_rob := rob1, es_uops := uops3\<rparr>)"

definition trap_exit_reason :: "u64 \<Rightarrow> string" where
  "trap_exit_reason cause = ''trap(0x'' @ pad_left 8 CHR ''0'' (show_hex (unat cause)) @ '')''"

text \<open>One iteration of the loop body; the second component is the exit reason of a \<open>break\<close>.\<close>

definition cycle_step :: "cyc \<Rightarrow> run_env \<Rightarrow> engine_state \<Rightarrow> engine_state \<times> string option" where
  "cycle_step cycle env es =
     (let (es1, trap_retired) = cycle_retire cycle env (cycle_prepare cycle env es) in
      case trap_retired of
        Some cause \<Rightarrow> (es1, Some (trap_exit_reason cause))
      | None \<Rightarrow>
          let es2 = es1\<lparr>es_pipe :=
                      schedule_frontend_redirect_recovery cycle (es_pipe es1) (es_uops es1)\<rparr>
          in if length (es_committed es2) = re_target_commit_count env
             then (es2, Some (re_func_exit_reason env))
             else
               let es3 = cycle_advance cycle env es2
               in (es3, if length (es_committed es3) = re_target_commit_count env
                        then Some (re_func_exit_reason env) else None))"

fun run_loop :: "nat \<Rightarrow> cyc \<Rightarrow> run_env \<Rightarrow> engine_state \<Rightarrow> engine_state \<times> string option" where
  "run_loop 0 cycle env es = (es, None)"
| "run_loop (Suc remaining) cycle env es =
     (case cycle_step cycle env es of
        (es', Some reason) \<Rightarrow> (es', Some reason)
      | (es', None) \<Rightarrow> run_loop remaining (Suc cycle) env es')"

section \<open>A run\<close>

datatype engine_error = FuncError string | IndexPanic

record CycleRunBundle =
  cb_result :: RunResult
  cb_stage_events :: "StageTraceEvent list"

definition finish_run ::
  "guest_view \<Rightarrow> run_env \<Rightarrow> engine_state \<times> string option \<Rightarrow> CycleRunBundle" where
  "finish_run gv env outcome =
     (let (es, break_reason) = outcome;
          loop_reason = unwrap_or break_reason ''cycle_limit'';
          exit_reason = (if length (es_committed es) = re_target_commit_count env
                         then re_func_exit_reason env else loop_reason);
          max_cycles = opt_max_cycles (re_options env)
      in \<lparr>cb_result =
            \<lparr>rr_image_name = gv_image_name gv, rr_entry_pc = gv_pc gv,
             rr_metrics =
               \<lparr>rm_engine = Cycle,
                rm_cycles = (if exit_reason = ''cycle_limit'' then max_cycles
                             else if es_committed es = [] then max_cycles
                             else sat_add (cr_cycle (last (es_committed es))) 1),
                rm_commits = length (es_committed es),
                rm_exit_reason = exit_reason\<rparr>,
             rr_commits = es_committed es,
             rr_decoded = List.map_filter (\<lambda>seq. map_option uo_decoded (vec_get (es_uops es) seq))
                            (es_retired_seqs es)\<rparr>,
          cb_stage_events = es_events es\<rparr>)"

definition cycle_engine_run ::
  "guest_view \<Rightarrow> CycleRunOptions \<Rightarrow> (nat \<Rightarrow> string + RunResult) \<Rightarrow> engine_error + CycleRunBundle" where
  "cycle_engine_run gv options func_run =
     (let func_limit = max (sat_mul (opt_max_cycles options) COMMIT_WIDTH) 1 in
      case func_run func_limit of
        Inl e \<Rightarrow> Inl (FuncError e)
      | Inr func_result \<Rightarrow>
          (case build_uops (rr_commits func_result) (rr_decoded func_result) of
             None \<Rightarrow> Inl IndexPanic
           | Some uops \<Rightarrow>
               if uops = []
               then Inr \<lparr>cb_result =
                      \<lparr>rr_image_name = gv_image_name gv, rr_entry_pc = gv_pc gv,
                       rr_metrics = \<lparr>rm_engine = Cycle, rm_cycles = 0, rm_commits = 0,
                                     rm_exit_reason = rm_exit_reason (rr_metrics func_result)\<rparr>,
                       rr_commits = [], rr_decoded = []\<rparr>, cb_stage_events = []\<rparr>
               else
                 let env = \<lparr>re_lane = gv_block_lane_id gv, re_options = options,
                            re_target_commit_count = length (rr_commits func_result),
                            re_func_exit_reason = rm_exit_reason (rr_metrics func_result)\<rparr>
                 in Inr (finish_run gv env
                      (run_loop (opt_max_cycles options) 0 env (init_engine_state uops)))))"

end
