(* ===== verification/Pipeline_Inv.thy ===== *)
theory Pipeline_Inv
  imports Engine
begin

text \<open>
  The invariant of the whole pipeline. \<open>resident\<close> is the multiset of all uops between fetch and
  completion, wherever they sit (frontend stages, issue queues, execute stages, load queues);
  \<open>pipe_inv\<close> says that none of them is held twice, that all are fetched ones, and that every
  structure respects its width. Each half of a cycle (flush and fetch, execute and memory, issue,
  dispatch and frontend) preserves it, hence so does a cycle, hence every state of a run has it.
\<close>

section \<open>The pipeline invariant\<close>

text \<open>All uops that have been fetched and have neither completed nor been flushed.\<close>

definition resident :: "StageQueues \<Rightarrow> IqEntry list \<Rightarrow> usize multiset" where
  "resident p iq = mset (concat (sq_frontend p)) + mset (iq_seqs iq) + mset (sq_i2 p) + backend_seqs p"

definition pipe_inv :: "usize \<Rightarrow> StageQueues \<Rightarrow> IqEntry list \<Rightarrow> usize list \<Rightarrow> bool" where
  "pipe_inv n p iq rob =
     (dispatch_pre p iq \<and> length (sq_p1 p) \<le> ISSUE_WIDTH \<and> length (sq_i1 p) \<le> ISSUE_WIDTH \<and>
      length (sq_i2 p) \<le> ISSUE_WIDTH \<and> (\<forall>x. count (resident p iq) x \<le> 1) \<and>
      (\<forall>x \<in># resident p iq. x < n) \<and> rob_ok rob \<and> (\<forall>x \<in> set rob. x < n))"

lemma keys_cong:
  assumes "map entry_key iq' = map entry_key iq"
  shows "iq_seqs iq' = iq_seqs iq" "inflight_seqs iq' = inflight_seqs iq" "iq_occupancy iq' = iq_occupancy iq"
proof -
  have k: "iq_seqs iq = map fst (map entry_key iq)"
    "inflight_seqs iq = map fst (filter (\<lambda>k. snd (snd k)) (map entry_key iq))"
    "iq_occupancy iq q = length (filter (\<lambda>k. fst (snd k) = q) (map entry_key iq))" for iq q
    by (simp_all add: iq_seqs_def inflight_seqs_def iq_occupancy_def entry_key_def filter_map o_def)
  show "iq_seqs iq' = iq_seqs iq" "inflight_seqs iq' = inflight_seqs iq" unfolding k assms by simp_all
  show "iq_occupancy iq' = iq_occupancy iq" unfolding fun_eq_iff k assms by simp
qed

lemma pipe_inv_keys:
  assumes "map entry_key iq' = map entry_key iq" shows "pipe_inv n p iq' rob = pipe_inv n p iq rob"
  unfolding pipe_inv_def dispatch_pre_def pick_inv_def resident_def keys_cong [OF assms]
    tags_inv_keys [OF assms] ..

text \<open>The invariant reads only these fields.\<close>

definition pipe_view where
  "pipe_view p = (sq_frontend p, sq_p1 p, sq_i1 p, sq_i2 p, sq_e1 p, sq_e2 p, sq_e3 p, sq_e4 p,
     map lq_seq (sq_liq p), load_hits (sq_l1d p), sq_w1 p, sq_w2 p, sq_iq_tags p)"

lemma pipe_inv_view:
  assumes "pipe_view q = pipe_view p" shows "pipe_inv n q iq rob = pipe_inv n p iq rob"
proof -
  have f: "sq_frontend q = sq_frontend p" "sq_p1 q = sq_p1 p" "sq_i1 q = sq_i1 p" "sq_i2 q = sq_i2 p"
    "sq_e1 q = sq_e1 p" "sq_e2 q = sq_e2 p" "sq_e3 q = sq_e3 p" "sq_e4 q = sq_e4 p"
    "map lq_seq (sq_liq q) = map lq_seq (sq_liq p)" "load_hits (sq_l1d q) = load_hits (sq_l1d p)"
    "sq_w1 q = sq_w1 p" "sq_w2 q = sq_w2 p" "sq_iq_tags q = sq_iq_tags p"
    using assms by (simp_all add: pipe_view_def)
  show ?thesis unfolding pipe_inv_def resident_def dispatch_pre_def backend_seqs_def f ..
qed

lemma stage_view_pipe_view: "stage_view q = stage_view p \<Longrightarrow> pipe_view q = pipe_view p"
  by (simp add: stage_view_def pipe_view_def)

lemma filter_load_hits: "load_hits (filter (\<lambda>e. l1_seq e \<le> s) l1d) = filter (\<lambda>x. x \<le> s) (load_hits l1d)"
  by (induction l1d) (auto simp: load_hits_def)

lemma rob_ok_filter: "rob_ok rob \<Longrightarrow> rob_ok (filter P rob)"
  unfolding rob_ok_def using le_trans [OF length_filter_le] distinct_filter by blast

lemma filter_liq_seqs: "map lq_seq (filter (\<lambda>e. lq_seq e \<le> s) liq) = filter (\<lambda>x. x \<le> s) (map lq_seq liq)"
  by (simp add: filter_map o_def)

lemma length_filter_conj: "length (filter (\<lambda>x. P x \<and> Q x) xs) \<le> length (filter Q xs)"
  by (induction xs) auto

text \<open>A flush keeps exactly the uops up to its sequence number.\<close>

lemma flush_resident:
  assumes "flush_applies cycle p f" and "apply_pending_flush cycle p iq rob uops = (p', iq', rob')"
  shows "resident p' iq' = filter_mset (\<lambda>x. x \<le> pf_flush_seq f) (resident p iq)"
proof -
  let ?s = "pf_flush_seq f"
  note spec = apply_pending_flush_spec [OF assms]
  note v = dispatch_view_fields [OF spec(4)]
  have "iq_seqs iq' = filter (\<lambda>x. x \<le> ?s) (iq_seqs iq)"
    by (simp add: spec(1) iq_seqs_def filter_map o_def)
  moreover have "concat (map (filter (\<lambda>x. x \<le> ?s)) xss) = filter (\<lambda>x. x \<le> ?s) (concat xss)" for xss
    by (simp add: filter_concat)
  ultimately show ?thesis
    unfolding resident_def backend_seqs_def v spec(5)
    by (simp add: flush_stages_def Let_def filter_liq_seqs filter_load_hits del: mset_map)
qed

lemma flush_pipe_inv:
  assumes "flush_applies cycle p f" and "apply_pending_flush cycle p iq rob uops = (p', iq', rob')"
    and inv: "pipe_inv n p iq rob" and m: "pf_flush_seq f < m"
  shows "pipe_inv m p' iq' rob'"
proof -
  let ?s = "pf_flush_seq f"
  note spec = apply_pending_flush_spec [OF assms(1,2)]
  note v = dispatch_view_fields [OF spec(4)]
  note res = flush_resident [OF assms(1,2)]
  have pre: "dispatch_pre p iq" using inv by (simp add: pipe_inv_def)
  have fl: "set (inflight_seqs iq') = set (inflight_seqs iq) \<inter> {x. x \<le> ?s}"
    by (auto simp: spec(1) inflight_seqs_def)
  have "iq_occupancy iq' q \<le> iq_occupancy iq q" for q
    unfolding iq_occupancy_def spec(1) filter_filter
    using length_filter_conj [of "\<lambda>e. ie_seq e \<le> ?s" "\<lambda>e. ie_phys_iq e = q" iq] by (simp add: conj_commute)
  with pre have occ: "\<forall>q. iq_occupancy iq' q \<le> IQ_CAPACITY"
    unfolding dispatch_pre_def by (meson le_trans)
  have flen: "length (filter P xs) \<le> k" if "length xs \<le> k" for P and xs :: "usize list" and k
    using that length_filter_le [of P xs] by linarith
  have "frontend_ok (sq_frontend p')"
    using pre flen [where k = DISPATCH_WIDTH] unfolding v dispatch_pre_def frontend_ok_def
    by (simp add: flush_stages_def Let_def)
  moreover have "tags_inv iq' (sq_iq_tags p')"
    unfolding spec(1,3) using pre by (intro tags_inv_filter) (simp add: dispatch_pre_def)
  moreover have "pick_inv (sq_p1 p') (sq_i1 p') iq'"
    using pre fl unfolding v dispatch_pre_def pick_inv_def by (auto simp: flush_stages_def Let_def)
  moreover have "length (sq_w2 p') \<le> ISSUE_WIDTH"
    unfolding spec(5) using pre by (intro flen) (simp add: dispatch_pre_def)
  ultimately have "dispatch_pre p' iq'" using occ unfolding dispatch_pre_def by blast
  moreover have "length (sq_p1 p') \<le> ISSUE_WIDTH \<and> length (sq_i1 p') \<le> ISSUE_WIDTH \<and> length (sq_i2 p') \<le> ISSUE_WIDTH"
    using inv unfolding pipe_inv_def v by (simp add: flush_stages_def Let_def flen)
  moreover have "rob_ok rob'" "\<forall>x \<in> set rob'. x < m"
    using inv m by (auto simp: pipe_inv_def spec(2) rob_ok_filter)
  moreover have "\<forall>x. count (resident p' iq') x \<le> 1" "\<forall>x \<in># resident p' iq'. x < m"
    using inv m unfolding pipe_inv_def res by auto
  ultimately show ?thesis by (simp add: pipe_inv_def)
qed

lemma fetch_pipe_inv:
  assumes "fetch_packet p n uops = (p', n')" and inv: "pipe_inv n p iq rob" and "n \<le> length uops"
  shows "pipe_inv n' p' iq rob"
proof -
  have ok: "frontend_ok (sq_frontend p)" using inv by (simp add: pipe_inv_def dispatch_pre_def)
  note fp = fetch_packet_spec [OF assms(1,3) ok]
  note v = stage_view_fields [OF fp(6), simplified]
  have "0 < length (sq_frontend p)" using ok by (simp add: frontend_ok_def)
  from concat_update_mset [OF this, of "sq_frontend p ! 0 @ [n ..< n']"]
  have "mset (concat (sq_frontend p')) = mset (concat (sq_frontend p)) + mset [n ..< n']"
    unfolding fp(4) by (simp add: union_commute union_assoc)
  then have res: "resident p' iq = resident p iq + mset [n ..< n']"
    by (simp add: resident_def backend_seqs_def v ac_simps)
  have "count (resident p' iq) x \<le> 1" for x
  proof (cases "x < n")
    case True
    then have "count (mset [n ..< n']) x = 0" by (simp add: count_mset_0_iff)
    moreover have "count (resident p iq) x \<le> 1" using inv by (simp add: pipe_inv_def)
    ultimately show ?thesis unfolding res count_union by linarith
  next
    case False
    with inv have "x \<notin># resident p iq" unfolding pipe_inv_def by blast
    then have "count (resident p iq) x = 0" by (simp add: not_in_iff)
    moreover have "count (mset [n ..< n']) x \<le> 1"
      using distinct_count_atmost_1 [of "[n ..< n']"] by (metis distinct_upt le_refl zero_le)
    ultimately show ?thesis by (simp add: res del: mset_upt)
  qed
  moreover have "\<forall>x \<in># resident p' iq. x < n'" using inv fp(1) by (auto simp: res pipe_inv_def)
  moreover have "\<forall>x \<in> set rob. x < n'" using inv fp(1) by (auto simp: pipe_inv_def)
  moreover have "dispatch_pre p' iq" using inv fp(5) by (simp add: pipe_inv_def dispatch_pre_def v)
  ultimately show ?thesis using inv by (simp add: pipe_inv_def v)
qed

text \<open>Flush and fetch together: when a redirect falls due, everything younger than its source
  leaves the pipeline in the same cycle in which fetch restarts beyond the source.\<close>

lemma flush_fetch_inv:
  assumes flush: "apply_pending_flush cycle p iq rob uops = (p1, iq1, rob1)"
    and fetch: "fill_fetch cycle p1 n uops = (p2, n')"
    and inv: "pipe_inv n p iq rob" "n \<le> length uops" "redirect_inv cycle p uops"
  shows "pipe_inv n' p2 iq1 rob1 \<and> n' \<le> length uops \<and> sq_frontend_redirect p2 = None \<and>
         sq_pending_flush p2 = None"
proof (cases "sq_pending_flush p")
  case None
  with inv(3) have nr: "sq_frontend_redirect p = None"
    by (simp add: redirect_inv_def split: option.splits)
  from None have "\<nexists>f. flush_applies cycle p f" by (simp add: flush_applies_def)
  from apply_pending_flush_idle [OF this] flush have same: "p1 = p" "iq1 = iq" "rob1 = rob" by simp_all
  have fetch': "fetch_packet p n uops = (p2, n')" using fetch nr by (simp add: fill_fetch_def same)
  have ok: "frontend_ok (sq_frontend p)" using inv(1) by (simp add: pipe_inv_def dispatch_pre_def)
  note fp = fetch_packet_spec [OF fetch' inv(2) ok]
  show ?thesis using fetch_pipe_inv [OF fetch' inv(1,2)] fp(2) stage_view_fields(2,3) [OF fp(6)] None nr
    by (simp add: same)
next
  case (Some f)
  with inv(3) obtain r where r: "sq_frontend_redirect p = Some r" "pf_flush_seq f < fr_restart_seq r"
    "fr_restart_seq r \<le> length uops" "fr_resume_cycle r \<le> cycle" "pf_apply_cycle f \<le> cycle"
    by (auto simp: redirect_inv_def split: option.splits)
  have applies: "flush_applies cycle p f" using Some r(5) by (simp add: flush_applies_def)
  note spec = apply_pending_flush_spec [OF applies flush]
  note v = dispatch_view_fields(1-3) [OF spec(4)]
  have i1: "pipe_inv (fr_restart_seq r) p1 iq1 rob1" by (rule flush_pipe_inv [OF applies flush inv(1) r(2)])
  let ?p = "p1\<lparr>sq_frontend_redirect := None\<rparr>"
  have i2: "pipe_inv (fr_restart_seq r) ?p iq1 rob1"
    using i1 by (subst pipe_inv_view [of _ p1]) (simp_all add: pipe_view_def)
  have "sq_frontend_redirect p1 = Some r" using r(1) by (simp add: v flush_stages_def Let_def)
  with fetch r(4) have fetch': "fetch_packet ?p (fr_restart_seq r) uops = (p2, n')"
    by (simp add: fill_fetch_def)
  have ok: "frontend_ok (sq_frontend ?p)" using i2 by (simp add: pipe_inv_def dispatch_pre_def)
  note fp = fetch_packet_spec [OF fetch' r(3) ok]
  show ?thesis using fetch_pipe_inv [OF fetch' i2 r(3)] fp(2) stage_view_fields(2,3) [OF fp(6)]
    by (simp add: v flush_stages_def Let_def)
qed

text \<open>Moving the stages: execute and the memory unit.\<close>

lemma advance_execute_w2: "length (sq_w2 (fst (advance_execute cycle p uops options))) \<le> ISSUE_WIDTH"
proof -
  obtain w2 w1 where w: "lsu_advance_simple [] (sq_w1 p) ISSUE_WIDTH = (w2, w1)" by fastforce
  let ?p1 = "p\<lparr>sq_w2 := w2, sq_w1 := w1\<rparr>"
  obtain stay p2 u2 where e4: "e4_loop cycle options (sq_e4 ?p1) [] ?p1 uops = (stay, p2, u2)"
    by (cases "e4_loop cycle options (sq_e4 ?p1) [] ?p1 uops") auto
  have "sq_w2 p2 = w2"
    using arg_cong [OF e4_loop_frame [OF e4], of sq_w2] by (simp add: lsu_update_def)
  moreover have "length w2 \<le> ISSUE_WIDTH"
    using lsu_mover.move_capacity [of "[]" ISSUE_WIDTH "sq_w1 p"] by (simp add: w [simplified])
  ultimately show ?thesis unfolding advance_execute_def w Let_def prod.case e4 by (simp add: case_prod_beta)
qed

lemma execute_half:
  assumes "advance_execute cycle p uops options = (p1, u1)" and "advance_liq cycle (advance_l1d cycle p1) u1 rob = (p3, u2)"
  shows "backend_seqs p3 + mset (sq_w2 p) = backend_seqs p" and "front_view p3 = front_view p"
    and "length (sq_w2 p3) \<le> ISSUE_WIDTH" and "map uop_static u2 = map uop_static uops"
proof -
  have p1: "p1 = fst (advance_execute cycle p uops options)" and p3: "p3 = fst (advance_liq cycle (advance_l1d cycle p1) u1 rob)"
    using assms by simp_all
  show "backend_seqs p3 + mset (sq_w2 p) = backend_seqs p"
    using advance_execute_conserves [OF assms(1)] by (simp add: p3 advance_liq_conserves advance_l1d_conserves)
  show "front_view p3 = front_view p"
    by (simp add: p3 front_view_advance_liq front_view_advance_l1d p1 front_view_advance_execute)
  have "sq_w2 p3 = sq_w2 p1"
    unfolding p3 by (cases rule: advance_liq_cases [of cycle "advance_l1d cycle p1" u1 rob])
      (simp_all add: Let_def advance_l1d_def l1d_loop_frame)
  then show "length (sq_w2 p3) \<le> ISSUE_WIDTH" using advance_execute_w2 [of cycle p uops options] by (simp add: p1)
  show "map uop_static u2 = map uop_static uops"
    using static_advance_liq [of cycle "advance_l1d cycle p1" u1 rob] static_advance_execute [of cycle p uops options]
    by (simp add: assms)
qed

text \<open>Moving the stages: issue.\<close>

lemma advance_i1_to_i2_frame:
  assumes "advance_i1_to_i2 p iq = (p', iq')"
  shows "backend_seqs p' = backend_seqs p" "sq_frontend p' = sq_frontend p" "sq_w2 p' = sq_w2 p" "sq_p1 p' = sq_p1 p"
    "sq_frontend_redirect p' = sq_frontend_redirect p" "sq_pending_flush p' = sq_pending_flush p"
  using assms unfolding advance_i1_to_i2_def Let_def case_prod_beta by (auto simp: backend_seqs_def)

lemma set_inflight_cong:
  "tags_inv (set_inflight b s iq) tags = tags_inv iq tags" "iq_occupancy (set_inflight b s iq) q = iq_occupancy iq q"
proof -
  show "tags_inv (set_inflight b s iq) tags = tags_inv iq tags"
    by (rule tags_inv_pairs) (simp add: set_inflight_def)
  show "iq_occupancy (set_inflight b s iq) q = iq_occupancy iq q"
    by (induction iq) (simp_all add: iq_occupancy_def set_inflight_def)
qed

definition issue_ok :: "StageQueues \<Rightarrow> IqEntry list \<Rightarrow> bool" where
  "issue_ok p iq =
     (tags_inv iq (sq_iq_tags p) \<and> pick_inv (sq_p1 p) (sq_i1 p) iq \<and> (\<forall>q. iq_occupancy iq q \<le> IQ_CAPACITY) \<and>
      length (sq_p1 p) \<le> ISSUE_WIDTH \<and> length (sq_i1 p) \<le> ISSUE_WIDTH \<and> length (sq_i2 p) \<le> ISSUE_WIDTH)"

lemma issue_ok_distinct: "issue_ok p iq \<Longrightarrow> distinct (iq_seqs iq)"
  by (simp add: issue_ok_def tags_inv_def iq_seqs_def)

lemma i1_to_i2_issue_ok:
  assumes s: "advance_i1_to_i2 p iq = (p', iq')" and ok: "issue_ok p iq"
  shows "issue_ok p' iq'" and "mset (iq_seqs iq') + mset (sq_i2 p') = mset (iq_seqs iq) + mset (sq_i2 p)"
proof -
  have pick: "pick_inv (sq_p1 p) (sq_i1 p) iq" using ok by (simp add: issue_ok_def)
  obtain m where m: "iq' = filter (\<lambda>e. ie_seq e \<notin> set m) iq" "sq_iq_tags p' = fold bt_remove m (sq_iq_tags p)"
    "mset (iq_seqs iq') + mset (sq_i2 p') = mset (iq_seqs iq) + mset (sq_i2 p)"
    "pick_inv (sq_p1 p') (sq_i1 p') iq'" "length (sq_i2 p') \<le> max ISSUE_WIDTH (length (sq_i2 p))"
    "length (sq_i1 p') \<le> length (sq_i1 p)"
    by (rule advance_i1_to_i2_spec [OF s pick issue_ok_distinct [OF ok]]) blast
  have "tags_inv iq' (sq_iq_tags p')"
    unfolding m(1,2) fold_bt_remove using ok by (intro tags_inv_filter) (simp add: issue_ok_def)
  moreover have "iq_occupancy iq' q \<le> iq_occupancy iq q" for q
    unfolding iq_occupancy_def m(1) filter_filter
    using length_filter_conj [of "\<lambda>e. ie_seq e \<notin> set m" "\<lambda>e. ie_phys_iq e = q" iq] by (simp add: conj_commute)
  then have "\<forall>q. iq_occupancy iq' q \<le> IQ_CAPACITY" using ok unfolding issue_ok_def by (meson le_trans)
  ultimately show "issue_ok p' iq'"
    using ok m(4-6) advance_i1_to_i2_frame(4) [OF s] by (simp add: issue_ok_def)
  show "mset (iq_seqs iq') + mset (sq_i2 p') = mset (iq_seqs iq) + mset (sq_i2 p)" by (rule m(3))
qed

lemma arbitrate_issue_ok:
  assumes s: "arbitrate_i1 cycle (sq_p1 p) iq uops rob = (adm, iq')" and t: "advance_p1_to_i1 (sq_i1 p) adm [] = (i1, p1q)"
    and ok: "issue_ok p iq"
  shows "issue_ok (p\<lparr>sq_i1 := i1, sq_p1 := p1q\<rparr>) iq'" and "iq_seqs iq' = iq_seqs iq"
proof -
  have pick: "pick_inv (sq_p1 p) (sq_i1 p) iq" using ok by (simp add: issue_ok_def)
  obtain d where d: "mset adm + mset d = mset (sq_p1 p)" "iq' = set_inflight False (set d) iq"
    "pick_inv adm (sq_i1 p) iq'"
    by (rule arbitrate_i1_spec [OF s pick issue_ok_distinct [OF ok]])
  note a = advance_p1_to_i1_spec [OF t]
  have "mset (p1q @ i1) = mset (adm @ sq_i1 p)"
    using arg_cong [OF a(1), of mset] by (simp add: add.commute)
  from mset_eq_imp_distinct_iff [OF this] mset_eq_setD [OF this] d(3)
  have "pick_inv p1q i1 iq'" unfolding pick_inv_def by blast
  moreover have "length adm \<le> length (sq_p1 p)" using arg_cong [OF d(1), of size] by simp
  ultimately show "issue_ok (p\<lparr>sq_i1 := i1, sq_p1 := p1q\<rparr>) iq'"
    using ok a(2,3) by (simp add: issue_ok_def d(2) set_inflight_cong)
  show "iq_seqs iq' = iq_seqs iq" by (simp add: d(2))
qed

lemma pick_issue_ok:
  assumes s: "pick_from_iq cycle ptr iq uops (sq_p1 p) rob = (iq', p1q)" and ok: "issue_ok p iq"
  shows "issue_ok (p\<lparr>sq_p1 := p1q\<rparr>) iq'" and "iq_seqs iq' = iq_seqs iq"
proof -
  have pick: "pick_inv (sq_p1 p) (sq_i1 p) iq" using ok by (simp add: issue_ok_def)
  obtain c where c: "iq' = set_inflight True (set c) iq" "pick_inv p1q (sq_i1 p) iq'"
    "length p1q \<le> max ISSUE_WIDTH (length (sq_p1 p))"
    by (rule pick_from_iq_spec [OF s issue_ok_distinct [OF ok] pick]) blast
  with ok show "issue_ok (p\<lparr>sq_p1 := p1q\<rparr>) iq'" by (simp add: issue_ok_def set_inflight_cong)
  show "iq_seqs iq' = iq_seqs iq" by (simp add: c(1))
qed

lemma advance_i2_loop_stay:
  "advance_i2_loop cycle uops i2 stay st = (stay', st') \<Longrightarrow> length stay' \<le> length i2 + length stay"
proof (induction cycle uops i2 stay st rule: advance_i2_loop.induct)
  case (2 cycle uops seq i2 stay st)
  then show ?case by (auto split: if_splits)
qed simp

lemma advance_i2_issue_ok: "issue_ok p iq \<Longrightarrow> issue_ok (advance_i2 cycle p uops) iq"
proof -
  assume ok: "issue_ok p iq"
  have "length (sq_i2 (advance_i2 cycle p uops)) \<le> length (sq_i2 p)"
    using advance_i2_loop_stay [OF surjective_pairing, of cycle uops "sq_i2 p" "[]"]
    by (simp add: advance_i2_def Let_def case_prod_beta)
  with ok show ?thesis by (simp add: issue_ok_def)
qed

text \<open>The issue half of a cycle, from I1 to the picks.\<close>

lemma issue_half:
  assumes s4: "advance_i1_to_i2 p3 iq = (p4, iq1)"
    and s5: "arbitrate_i1 cycle (sq_p1 p4) iq1 uops rob = (adm, iq2)"
    and s6: "advance_p1_to_i1 (sq_i1 p4) adm [] = (i1, p1q)"
    and p6: "p6 = advance_i2 cycle (p4\<lparr>sq_i1 := i1, sq_p1 := p1q\<rparr>) uops"
    and s8: "pick_from_iq cycle (sq_lsid_issue_ptr p6) iq2 uops (sq_p1 p6) rob = (iq3, p1q')"
    and ok: "issue_ok p3 iq"
  shows "issue_ok (p6\<lparr>sq_p1 := p1q'\<rparr>) iq3"
    and "mset (iq_seqs iq3) + mset (sq_i2 p6) + backend_seqs p6 =
         mset (iq_seqs iq) + mset (sq_i2 p3) + backend_seqs p3"
    and "sq_frontend p6 = sq_frontend p3" "sq_w2 p6 = sq_w2 p3"
    and "sq_frontend_redirect p6 = sq_frontend_redirect p3" "sq_pending_flush p6 = sq_pending_flush p3"
proof -
  let ?p5 = "p4\<lparr>sq_i1 := i1, sq_p1 := p1q\<rparr>"
  note fr = advance_i1_to_i2_frame [OF s4]
  note i4 = i1_to_i2_issue_ok [OF s4 ok]
  note i5 = arbitrate_issue_ok [OF s5 s6 i4(1)]
  have ok6: "issue_ok p6 iq2" unfolding p6 using i5(1) by (rule advance_i2_issue_ok)
  note i8 = pick_issue_ok [OF s8 ok6]
  show "issue_ok (p6\<lparr>sq_p1 := p1q'\<rparr>) iq3" by (rule i8(1))
  have c: "mset (sq_i2 p6) + backend_seqs p6 = mset (sq_i2 p4) + backend_seqs p4"
    using advance_i2_conserves [of cycle ?p5 uops] by (simp add: p6 backend_seqs_def)
  have d: "mset (iq_seqs iq1) + mset (sq_i2 p4) = mset (iq_seqs iq) + mset (sq_i2 p3)" by (rule i4(2))
  show "mset (iq_seqs iq3) + mset (sq_i2 p6) + backend_seqs p6 =
         mset (iq_seqs iq) + mset (sq_i2 p3) + backend_seqs p3"
    unfolding i8(2) i5(2) add.assoc c unfolding add.assoc [symmetric] d fr(1) ..
  show "sq_frontend p6 = sq_frontend p3" "sq_w2 p6 = sq_w2 p3"
    "sq_frontend_redirect p6 = sq_frontend_redirect p3" "sq_pending_flush p6 = sq_pending_flush p3"
    by (simp_all add: p6 fr)
qed

lemma mset_concat_rev: "mset (concat (rev xss)) = mset (concat xss)"
  by (induction xss) simp_all

text \<open>Dispatch and the frontend stages close the cycle.\<close>

lemma dispatch_half:
  assumes s9: "dispatch_to_iq_and_bypass cycle p7 iq3 u2 = (p8, iq4, u3)" and s10: "advance_frontend p8 rob = (p9, rob1)"
    and pre: "dispatch_pre p7 iq3" and cnt: "\<And>x. count (resident p7 iq3) x \<le> 1" and rob: "rob_ok rob"
  shows "dispatch_pre p9 iq4" and "resident p9 iq4 = resident p7 iq3"
    and "rob_ok rob1" and "\<exists>ys. rob1 = rob @ ys \<and> set ys \<subseteq> set_mset (resident p7 iq3)"
    and "sq_p1 p9 = sq_p1 p7" "sq_i1 p9 = sq_i1 p7" "sq_i2 p9 = sq_i2 p7"
    and "sq_frontend_redirect p9 = sq_frontend_redirect p7" "sq_pending_flush p9 = sq_pending_flush p7"
proof -
  have "count (mset (concat (sq_frontend p7)) + mset (iq_seqs iq3) + mset (sq_w2 p7)) x \<le> 1" for x
    using cnt [of x] unfolding resident_def backend_seqs_def count_union by linarith
  with pre have d: "dispatch_pre p8 iq4"
    "mset (concat (sq_frontend p8)) + mset (iq_seqs iq4) + mset (sq_w2 p8) =
         mset (concat (sq_frontend p7)) + mset (iq_seqs iq3) + mset (sq_w2 p7)"
    "dispatch_view p8 = dispatch_view (p7\<lparr>sq_frontend := sq_frontend p8\<rparr>)"
    by (rule dispatch_to_iq_and_bypass_spec [OF s9])+
  note v = dispatch_view_fields [OF d(3), simplified]
  have "frontend_ok (sq_frontend p8)" using d(1) by (simp add: dispatch_pre_def)
  note fe = advance_frontend_spec [OF s10 this rob]
  have p9: "backend_seqs p9 = backend_seqs p8" "sq_i2 p9 = sq_i2 p8" "sq_p1 p9 = sq_p1 p8" "sq_i1 p9 = sq_i1 p8"
    "sq_w2 p9 = sq_w2 p8" "sq_iq_tags p9 = sq_iq_tags p8" "sq_frontend_redirect p9 = sq_frontend_redirect p8"
    "sq_pending_flush p9 = sq_pending_flush p8"
    by (subst fe(5), simp add: backend_seqs_def)+
  have "mset (concat (sq_frontend p9)) = mset (concat (sq_frontend p8))"
    using arg_cong [OF fe(1), of mset] by (simp only: mset_concat_rev)
  then have "resident p9 iq4 = resident p8 iq4" by (simp add: resident_def p9)
  also have "\<dots> = resident p7 iq3"
  proof (rule multiset_eqI)
    fix x show "count (resident p8 iq4) x = count (resident p7 iq3) x"
      using arg_cong [OF d(2), of "\<lambda>M. count M x"]
      unfolding resident_def backend_seqs_def v count_union by linarith
  qed
  finally show res: "resident p9 iq4 = resident p7 iq3" .
  show "dispatch_pre p9 iq4" using d(1) fe(2) by (simp add: dispatch_pre_def p9)
  have "set (concat (sq_frontend p8)) \<subseteq> set_mset (resident p8 iq4)"
    by (simp only: resident_def set_mset_union set_mset_mset) blast
  moreover have "resident p8 iq4 = resident p7 iq3" using res \<open>resident p9 iq4 = resident p8 iq4\<close> by simp
  ultimately show "\<exists>ys. rob1 = rob @ ys \<and> set ys \<subseteq> set_mset (resident p7 iq3)" using fe(4) by auto
  show "rob_ok rob1" by (rule fe(3))
  show "sq_p1 p9 = sq_p1 p7" "sq_i1 p9 = sq_i1 p7" "sq_i2 p9 = sq_i2 p7"
    "sq_frontend_redirect p9 = sq_frontend_redirect p7" "sq_pending_flush p9 = sq_pending_flush p7"
    by (simp_all add: p9 v)
qed

text \<open>A whole advance: what was resident stays resident, except the uops that completed.\<close>

lemma cycle_advance_parts:
  assumes "es' = cycle_advance cycle env es"
  obtains p1 u1 p3 u2 p4 iq1 adm iq2 i1 p1q p6 iq3 p1q' p8 iq4 u3 p9 rob1 where
    "advance_execute cycle (es_pipe es) (es_uops es) (re_options env) = (p1, u1)"
    "advance_liq cycle (advance_l1d cycle p1) u1 (es_rob es) = (p3, u2)"
    "advance_i1_to_i2 p3 (es_iq es) = (p4, iq1)"
    "arbitrate_i1 cycle (sq_p1 p4) iq1 u2 (es_rob es) = (adm, iq2)"
    "advance_p1_to_i1 (sq_i1 p4) adm [] = (i1, p1q)"
    "p6 = advance_i2 cycle (p4\<lparr>sq_i1 := i1, sq_p1 := p1q\<rparr>) u2"
    "pick_from_iq cycle (sq_lsid_issue_ptr p6) iq2 u2 (sq_p1 p6) (es_rob es) = (iq3, p1q')"
    "dispatch_to_iq_and_bypass cycle (p6\<lparr>sq_p1 := p1q'\<rparr>) iq3 u2 = (p8, iq4, u3)"
    "advance_frontend p8 (es_rob es) = (p9, rob1)"
    "es' = es\<lparr>es_pipe := p9, es_iq := iq4, es_rob := rob1, es_uops := u3\<rparr>"
proof -
  obtain p1 u1 where s1: "advance_execute cycle (es_pipe es) (es_uops es) (re_options env) = (p1, u1)" by fastforce
  obtain p3 u2 where s3: "advance_liq cycle (advance_l1d cycle p1) u1 (es_rob es) = (p3, u2)" by fastforce
  obtain p4 iq1 where s4: "advance_i1_to_i2 p3 (es_iq es) = (p4, iq1)" by fastforce
  obtain adm iq2 where s5: "arbitrate_i1 cycle (sq_p1 p4) iq1 u2 (es_rob es) = (adm, iq2)" by fastforce
  obtain i1 p1q where s6: "advance_p1_to_i1 (sq_i1 p4) adm [] = (i1, p1q)" by fastforce
  define p6 where "p6 = advance_i2 cycle (p4\<lparr>sq_i1 := i1, sq_p1 := p1q\<rparr>) u2"
  obtain iq3 p1q' where s8: "pick_from_iq cycle (sq_lsid_issue_ptr p6) iq2 u2 (sq_p1 p6) (es_rob es) = (iq3, p1q')"
    by fastforce
  obtain p8 iq4 u3 where s9: "dispatch_to_iq_and_bypass cycle (p6\<lparr>sq_p1 := p1q'\<rparr>) iq3 u2 = (p8, iq4, u3)"
    by (cases "dispatch_to_iq_and_bypass cycle (p6\<lparr>sq_p1 := p1q'\<rparr>) iq3 u2") auto
  obtain p9 rob1 where s10: "advance_frontend p8 (es_rob es) = (p9, rob1)" by fastforce
  have "es' = es\<lparr>es_pipe := p9, es_iq := iq4, es_rob := rob1, es_uops := u3\<rparr>"
    unfolding assms cycle_advance_def Let_def prod.case s1 s3 s4 s5 s6 p6_def [symmetric] s8 s9 s10 ..
  with s1 s3 s4 s5 s6 p6_def s8 s9 s10 show thesis by (rule that)
qed

lemma advance_pipe_inv:
  assumes inv: "pipe_inv n (es_pipe es) (es_iq es) (es_rob es)" and adv: "es' = cycle_advance cycle env es"
  shows "pipe_inv n (es_pipe es') (es_iq es') (es_rob es')"
    and "sq_frontend_redirect (es_pipe es') = sq_frontend_redirect (es_pipe es)"
    and "sq_pending_flush (es_pipe es') = sq_pending_flush (es_pipe es)"
    and "map uop_static (es_uops es') = map uop_static (es_uops es)"
    and "resident (es_pipe es') (es_iq es') + mset (sq_w2 (es_pipe es)) = resident (es_pipe es) (es_iq es)"
proof -
  obtain p1 u1 p3 u2 p4 iq1 adm iq2 i1 p1q p6 iq3 p1q' p8 iq4 u3 p9 rob1 where
    s1: "advance_execute cycle (es_pipe es) (es_uops es) (re_options env) = (p1, u1)"
    and s3: "advance_liq cycle (advance_l1d cycle p1) u1 (es_rob es) = (p3, u2)"
    and s4: "advance_i1_to_i2 p3 (es_iq es) = (p4, iq1)"
    and s5: "arbitrate_i1 cycle (sq_p1 p4) iq1 u2 (es_rob es) = (adm, iq2)"
    and s6: "advance_p1_to_i1 (sq_i1 p4) adm [] = (i1, p1q)"
    and p6: "p6 = advance_i2 cycle (p4\<lparr>sq_i1 := i1, sq_p1 := p1q\<rparr>) u2"
    and s8: "pick_from_iq cycle (sq_lsid_issue_ptr p6) iq2 u2 (sq_p1 p6) (es_rob es) = (iq3, p1q')"
    and s9: "dispatch_to_iq_and_bypass cycle (p6\<lparr>sq_p1 := p1q'\<rparr>) iq3 u2 = (p8, iq4, u3)"
    and s10: "advance_frontend p8 (es_rob es) = (p9, rob1)"
    and es': "es' = es\<lparr>es_pipe := p9, es_iq := iq4, es_rob := rob1, es_uops := u3\<rparr>"
    by (rule cycle_advance_parts [OF adv])
  let ?p = "es_pipe es" and ?iq = "es_iq es" and ?p7 = "p6\<lparr>sq_p1 := p1q'\<rparr>"
  note ex = execute_half [OF s1 s3]
  note f = front_view_fields [OF ex(2)]
  have "issue_ok p3 ?iq" using inv by (simp add: issue_ok_def pipe_inv_def dispatch_pre_def f)
  note ih = issue_half [OF s4 s5 s6 p6 s8 this]
  have total: "mset (concat (sq_frontend ?p7)) + mset (iq_seqs iq3) + mset (sq_i2 ?p7) + backend_seqs ?p7 + mset (sq_w2 ?p)
      = resident ?p ?iq"
    using ih(2) ex(1) by (simp add: resident_def f ih(3) backend_seqs_def add.assoc)
  have r7: "resident ?p7 iq3 + mset (sq_w2 ?p) = resident ?p ?iq" using total by (simp add: resident_def)
  have cnt: "count (resident ?p7 iq3) x \<le> 1" for x
    using arg_cong [OF r7, of "\<lambda>M. count M x"] inv unfolding pipe_inv_def count_union by (metis add_leD1)
  have pre: "dispatch_pre ?p7 iq3"
    using ih(1) inv ex(3) by (simp add: issue_ok_def dispatch_pre_def pipe_inv_def ih(3,4) f)
  have rob: "rob_ok (es_rob es)" using inv by (simp add: pipe_inv_def)
  note dh = dispatch_half [OF s9 s10 pre cnt rob]
  show res: "resident (es_pipe es') (es_iq es') + mset (sq_w2 ?p) = resident ?p ?iq" using r7 dh(2) by (simp add: es')
  show "map uop_static (es_uops es') = map uop_static (es_uops es)"
    using static_dispatch [of cycle ?p7 iq3 u2] ex(4) by (simp add: es' s9)
  show "sq_frontend_redirect (es_pipe es') = sq_frontend_redirect ?p" "sq_pending_flush (es_pipe es') = sq_pending_flush ?p"
    by (simp_all add: es' dh(8,9) ih(5,6) f)
  have sub: "set_mset (resident ?p7 iq3) \<subseteq> set_mset (resident ?p ?iq)" unfolding r7 [symmetric] by simp
  then have "\<forall>x \<in># resident ?p7 iq3. x < n" using inv unfolding pipe_inv_def by blast
  moreover have "\<forall>x \<in> set rob1. x < n"
  proof -
    obtain ys where ys: "rob1 = es_rob es @ ys" "set ys \<subseteq> set_mset (resident ?p ?iq)" using dh(4) sub by blast
    have "\<forall>x \<in># resident ?p ?iq. x < n" "\<forall>x \<in> set (es_rob es). x < n" using inv by (simp_all add: pipe_inv_def)
    then show ?thesis unfolding ys(1) using ys(2) by auto
  qed
  ultimately show "pipe_inv n (es_pipe es') (es_iq es') (es_rob es')"
    using dh ih(1) cnt by (simp add: es' pipe_inv_def issue_ok_def)
qed

section \<open>Whole runs\<close>

text \<open>The states a run passes through, one per cycle; a run stops at the first cycle that
  reports a reason, so every state of a run is one of these.\<close>

inductive engine_at :: "run_env \<Rightarrow> CycleUop list \<Rightarrow> cyc \<Rightarrow> engine_state \<Rightarrow> bool" for env uops where
  engine_start: "engine_at env uops 0 (init_engine_state uops)"
| engine_tick: "engine_at env uops c es \<Longrightarrow> cycle_step c env es = (es', r) \<Longrightarrow> engine_at env uops (Suc c) es'"

definition commits_ok :: "CycleUop list \<Rightarrow> CommitRecord list \<Rightarrow> usize list \<Rightarrow> bool" where
  "commits_ok uops committed retired =
     list_all2 (\<lambda>c s. s < length uops \<and> (\<exists>cycle t. c = retire_commit cycle t (uo_commit (uops ! s)))) committed retired"

definition engine_inv :: "CycleUop list \<Rightarrow> cyc \<Rightarrow> engine_state \<Rightarrow> bool" where
  "engine_inv uops cycle es =
     (pipe_inv (es_next_fetch_seq es) (es_pipe es) (es_iq es) (es_rob es) \<and>
      es_next_fetch_seq es \<le> length uops \<and> redirect_inv cycle (es_pipe es) uops \<and>
      map uop_static (es_uops es) = map uop_static uops \<and>
      commits_ok uops (es_committed es) (es_retired_seqs es) \<and>
      length (es_committed es) \<le> COMMIT_WIDTH * cycle)"

lemma redirect_inv_length: "length us = length vs \<Longrightarrow> redirect_inv cycle p us = redirect_inv cycle p vs"
  by (simp add: redirect_inv_def split: option.split)

lemma redirect_inv_None:
  "sq_frontend_redirect p = None \<Longrightarrow> sq_pending_flush p = None \<Longrightarrow> redirect_inv cycle p uops"
  by (simp add: redirect_inv_def)

lemma init_engine_inv: "engine_inv uops 0 (init_engine_state uops)"
proof -
  have "dispatch_pre default_stage_queues []"
    by (simp add: dispatch_pre_def default_stage_queues_def frontend_ok_def tags_inv_Nil pick_inv_def
        inflight_seqs_def iq_occupancy_def set_replicate_conv_if)
  moreover have "resident default_stage_queues [] = {#}"
    by (simp add: resident_def backend_seqs_def default_stage_queues_def iq_seqs_def concat_replicate_trivial)
  ultimately show ?thesis
    by (simp add: engine_inv_def init_engine_state_def pipe_inv_def rob_ok_def redirect_inv_def commits_ok_def)
       (simp add: default_stage_queues_def)
qed

lemma publish_pipe_view:
  "pipe_view (publish_call_header_fault_state cycle (publish_dynamic_boundary_target_fault_state cycle
      (publish_bru_correction_state cycle p uops) uops) uops) = pipe_view p"
  "sq_frontend_redirect (publish_call_header_fault_state cycle (publish_dynamic_boundary_target_fault_state cycle
      (publish_bru_correction_state cycle p uops) uops) uops) = sq_frontend_redirect p"
  "sq_pending_flush (publish_call_header_fault_state cycle (publish_dynamic_boundary_target_fault_state cycle
      (publish_bru_correction_state cycle p uops) uops) uops) = sq_pending_flush p"
proof -
  let ?b = "publish_bru_correction_state cycle p uops"
  let ?d = "publish_dynamic_boundary_target_fault_state cycle ?b uops"
  let ?c = "publish_call_header_fault_state cycle ?d uops"
  have "stage_view (?b\<lparr>sq_pending_trap := None, sq_pending_bru_correction := None\<rparr>) =
        stage_view (p\<lparr>sq_pending_trap := None, sq_pending_bru_correction := None\<rparr>)"
    "stage_view (?d\<lparr>sq_pending_trap := None\<rparr>) = stage_view (?b\<lparr>sq_pending_trap := None\<rparr>)"
    "stage_view (?c\<lparr>sq_pending_trap := None\<rparr>) = stage_view (?d\<lparr>sq_pending_trap := None\<rparr>)"
    by (rule publish_frames)+
  then show "pipe_view ?c = pipe_view p" "sq_frontend_redirect ?c = sq_frontend_redirect p"
    "sq_pending_flush ?c = sq_pending_flush p" by (simp_all add: stage_view_def pipe_view_def)
qed

lemma prepare_inv:
  assumes inv: "engine_inv uops cycle es" and es': "es' = cycle_prepare cycle env es"
  shows "pipe_inv (es_next_fetch_seq es') (es_pipe es') (es_iq es') (es_rob es')"
    and "es_next_fetch_seq es' \<le> length uops" and "map uop_static (es_uops es') = map uop_static uops"
    and "sq_frontend_redirect (es_pipe es') = None" "sq_pending_flush (es_pipe es') = None"
    and "es_committed es' = es_committed es" "es_retired_seqs es' = es_retired_seqs es"
proof -
  have len: "length (es_uops es) = length uops"
    using inv by (metis engine_inv_def length_map)
  obtain p1 iq1 rob1 where f: "apply_pending_flush cycle (es_pipe es) (es_iq es) (es_rob es) (es_uops es) = (p1, iq1, rob1)"
    by (cases "apply_pending_flush cycle (es_pipe es) (es_iq es) (es_rob es) (es_uops es)") auto
  obtain p2 n where g: "fill_fetch cycle p1 (es_next_fetch_seq es) (es_uops es) = (p2, n)" by fastforce
  have "redirect_inv cycle (es_pipe es) (es_uops es)"
    using inv redirect_inv_length [OF len] by (simp add: engine_inv_def)
  with inv len have a: "pipe_inv n p2 iq1 rob1" "n \<le> length uops" "sq_frontend_redirect p2 = None"
    "sq_pending_flush p2 = None"
    using flush_fetch_inv [OF f g] by (simp_all add: engine_inv_def)
  define u1 where "u1 = tag_stage_cycles cycle p2 (es_uops es)"
  define p5 where "p5 = publish_call_header_fault_state cycle (publish_dynamic_boundary_target_fault_state cycle
      (publish_bru_correction_state cycle p2 u1) u1) u1"
  define iq2 where "iq2 = update_iq_entries_for_cycle cycle iq1 (sq_ready_table_t p5) (sq_ready_table_u p5)
                  (sq_iq_owner_table p5) (sq_iq_tags p5) (sq_qtag_wait_crossbar p5) u1"
  have out: "es_pipe es' = advance_scb cycle p5 u1" "es_iq es' = iq2" "es_rob es' = rob1" "es_uops es' = u1"
    "es_next_fetch_seq es' = n" "es_committed es' = es_committed es" "es_retired_seqs es' = es_retired_seqs es"
    unfolding es' cycle_prepare_def Let_def prod.case f g u1_def p5_def iq2_def by simp_all
  have "pipe_view (advance_scb cycle p5 u1) = pipe_view p5"
    by (simp add: pipe_view_def advance_scb_def case_prod_beta scb_loop_load_hits [OF surjective_pairing])
  then have "pipe_inv n (advance_scb cycle p5 u1) iq2 rob1 = pipe_inv n p2 iq2 rob1"
    by (intro pipe_inv_view) (simp add: p5_def publish_pipe_view)
  also have "\<dots> = pipe_inv n p2 iq1 rob1"
    unfolding iq2_def by (rule pipe_inv_keys [OF update_iq_entries_keys])
  finally show "pipe_inv (es_next_fetch_seq es') (es_pipe es') (es_iq es') (es_rob es')" using a(1) by (simp add: out)
  show "es_next_fetch_seq es' \<le> length uops" "es_committed es' = es_committed es" "es_retired_seqs es' = es_retired_seqs es"
    using a(2) by (simp_all add: out)
  show "map uop_static (es_uops es') = map uop_static uops"
    using inv by (simp add: out u1_def static_tag_stage_cycles engine_inv_def)
  show "sq_frontend_redirect (es_pipe es') = None" "sq_pending_flush (es_pipe es') = None"
    using a(3,4) by (simp_all add: out p5_def publish_pipe_view)
qed

lemma retire_inv:
  assumes "cycle_retire cycle env es = (es', t)"
    and "pipe_inv n (es_pipe es) (es_iq es) (es_rob es)" and "n \<le> length uops"
    and "map uop_static (es_uops es) = map uop_static uops" and "commits_ok uops (es_committed es) (es_retired_seqs es)"
  shows "pipe_inv n (es_pipe es') (es_iq es') (es_rob es')" and "commits_ok uops (es_committed es') (es_retired_seqs es')"
    and "length (es_committed es') \<le> length (es_committed es) + COMMIT_WIDTH"
    and "sq_frontend_redirect (es_pipe es') = sq_frontend_redirect (es_pipe es)"
    and "sq_pending_flush (es_pipe es') = sq_pending_flush (es_pipe es)"
    and "es_uops es' = es_uops es" "es_next_fetch_seq es' = es_next_fetch_seq es"
    and "\<exists>k. es_rob es' = drop k (es_rob es) \<and> es_retired_seqs es' = es_retired_seqs es @ take k (es_rob es) \<and>
           (\<forall>s \<in> set (take k (es_rob es)). uo_done_cycle (es_uops es ! s) \<noteq> None)"
proof -
  let ?st = "\<lparr>rs_rob = es_rob es, rs_committed = es_committed es, rs_retired_seqs = es_retired_seqs es,
        rs_pipe = es_pipe es, rs_events = es_events es, rs_trap = None\<rparr>"
  define rs where "rs = retire_loop COMMIT_WIDTH cycle (re_lane env) (es_uops es) ?st"
  have out: "es' = es\<lparr>es_pipe := rs_pipe rs, es_rob := rs_rob rs, es_committed := rs_committed rs,
             es_retired_seqs := rs_retired_seqs rs, es_events := rs_events rs\<rparr>"
    using assms(1) unfolding cycle_retire_def retire_ready_def Let_def rs_def by simp
  obtain k cs where k: "k \<le> COMMIT_WIDTH" "k \<le> length (es_rob es)" "rs_rob rs = drop k (es_rob es)"
    "rs_retired_seqs rs = es_retired_seqs es @ take k (es_rob es)" "rs_committed rs = es_committed es @ cs"
    "list_all2 (\<lambda>c s. \<exists>t. c = retire_commit cycle t (uo_commit (es_uops es ! s))) cs (take k (es_rob es))"
    "\<forall>s \<in> set (take k (es_rob es)). uo_done_cycle (es_uops es ! s) \<noteq> None"
    using retire_loop_spec [of COMMIT_WIDTH ?st cycle "re_lane env" "es_uops es"] unfolding rs_def [symmetric] by auto
  have view: "stage_view ((rs_pipe rs)\<lparr>sq_pending_trap := None, sq_ready_table_t := {}, sq_ready_table_u := {},
        sq_stq := [], sq_scb := []\<rparr>) =
      stage_view ((es_pipe es)\<lparr>sq_pending_trap := None, sq_ready_table_t := {}, sq_ready_table_u := {}, sq_stq := [], sq_scb := []\<rparr>)"
    unfolding rs_def by (simp add: retire_loop_pipe)
  then have pv: "pipe_view (rs_pipe rs) = pipe_view (es_pipe es)" by (simp add: stage_view_def pipe_view_def)
  have rob: "\<forall>x \<in> set (es_rob es). x < n" "rob_ok (es_rob es)" using assms(2) by (simp_all add: pipe_inv_def)
  have "rob_ok (drop k (es_rob es))" "\<forall>x \<in> set (drop k (es_rob es)). x < n"
    using rob by (auto simp: rob_ok_def dest: in_set_dropD)
  then have "pipe_inv n (es_pipe es) (es_iq es) (drop k (es_rob es))"
    using assms(2) unfolding pipe_inv_def by blast
  then show "pipe_inv n (es_pipe es') (es_iq es') (es_rob es')"
    using pipe_inv_view [OF pv, of n "es_iq es" "drop k (es_rob es)"] by (simp add: out k(3))
  show "length (es_committed es') \<le> length (es_committed es) + COMMIT_WIDTH"
    using k(1,5,6) by (auto simp: out dest: list_all2_lengthD)
  show "sq_frontend_redirect (es_pipe es') = sq_frontend_redirect (es_pipe es)"
    "sq_pending_flush (es_pipe es') = sq_pending_flush (es_pipe es)"
    using view by (simp_all add: out stage_view_def)
  show "es_uops es' = es_uops es" "es_next_fetch_seq es' = es_next_fetch_seq es" by (simp_all add: out)
  show "\<exists>k. es_rob es' = drop k (es_rob es) \<and> es_retired_seqs es' = es_retired_seqs es @ take k (es_rob es) \<and>
           (\<forall>s \<in> set (take k (es_rob es)). uo_done_cycle (es_uops es ! s) \<noteq> None)"
    using k(3,4,7) by (auto simp: out)
  have "uo_commit (es_uops es ! s) = uo_commit (uops ! s)" if "s < length uops" for s
    using map_static_nth [OF assms(4) that] by (rule uop_static_sel)
  then have "s < length uops \<and> (\<exists>cycle t. c = retire_commit cycle t (uo_commit (uops ! s)))"
    if "\<exists>t. c = retire_commit cycle t (uo_commit (es_uops es ! s))" "s \<in> set (take k (es_rob es))" for c s
    using that rob(1) assms(3) by (metis in_set_takeD order_less_le_trans)
  with k(6) have "list_all2 (\<lambda>c s. s < length uops \<and> (\<exists>cycle t. c = retire_commit cycle t (uo_commit (uops ! s)))) cs (take k (es_rob es))"
    by (rule list.rel_mono_strong)
  then show "commits_ok uops (es_committed es') (es_retired_seqs es')"
    using assms(5) by (simp add: out k(4,5) commits_ok_def list_all2_appendI)
qed

lemma schedule_inv:
  assumes "p' = schedule_frontend_redirect_recovery cycle p us" and "sq_frontend_redirect p = None"
    and "sq_pending_flush p = None" and "length us \<le> u64_max"
  shows "redirect_inv (Suc cycle) p' us" and "pipe_view p' = pipe_view p"
proof -
  have "redirect_inv (Suc cycle) p' us \<and> pipe_view p' = pipe_view p"
    by (rule schedule_cases [OF assms(2,3,4), of cycle])
       (use assms in \<open>simp_all add: redirect_inv_def pipe_view_def\<close>)
  then show "redirect_inv (Suc cycle) p' us" "pipe_view p' = pipe_view p" by auto
qed

lemma cycle_advance_frame:
  "es_committed (cycle_advance cycle env es) = es_committed es"
  "es_retired_seqs (cycle_advance cycle env es) = es_retired_seqs es"
  "es_next_fetch_seq (cycle_advance cycle env es) = es_next_fetch_seq es"
  by (simp_all add: cycle_advance_def Let_def split: prod.split)

lemma cycle_step_parts:
  assumes "cycle_step cycle env es = (es', r)"
  obtains es1 t where "cycle_retire cycle env (cycle_prepare cycle env es) = (es1, t)"
    "(case t of Some c \<Rightarrow> es' = es1 | None \<Rightarrow>
        (let es2 = es1\<lparr>es_pipe := schedule_frontend_redirect_recovery cycle (es_pipe es1) (es_uops es1)\<rparr>
         in es' = es2 \<and> r = Some (re_func_exit_reason env) \<or> es' = cycle_advance cycle env es2))"
  using assms by (cases "cycle_retire cycle env (cycle_prepare cycle env es)")
    (auto simp: cycle_step_def Let_def split: option.splits if_splits)

lemma step_inv:
  assumes inv: "engine_inv uops cycle es" and len: "length uops \<le> u64_max" and step: "cycle_step cycle env es = (es', r)"
  shows "engine_inv uops (Suc cycle) es'"
proof -
  obtain es1 t where ret: "cycle_retire cycle env (cycle_prepare cycle env es) = (es1, t)"
    and out: "(case t of Some c \<Rightarrow> es' = es1 | None \<Rightarrow>
        (let es2 = es1\<lparr>es_pipe := schedule_frontend_redirect_recovery cycle (es_pipe es1) (es_uops es1)\<rparr>
         in es' = es2 \<and> r = Some (re_func_exit_reason env) \<or> es' = cycle_advance cycle env es2))"
    by (rule cycle_step_parts [OF step])
  note pr = prepare_inv [OF inv refl, of env]
  have "commits_ok uops (es_committed (cycle_prepare cycle env es)) (es_retired_seqs (cycle_prepare cycle env es))"
    using inv by (simp add: pr(6,7) engine_inv_def)
  note rt = retire_inv [OF ret pr(1,2,3) this]
  define es2 where "es2 = es1\<lparr>es_pipe := schedule_frontend_redirect_recovery cycle (es_pipe es1) (es_uops es1)\<rparr>"
  have us: "map uop_static (es_uops es1) = map uop_static uops" using pr(3) by (simp add: rt(6))
  then have lu: "length (es_uops es1) = length uops" by (metis length_map)
  have none: "sq_frontend_redirect (es_pipe es1) = None" "sq_pending_flush (es_pipe es1) = None"
    by (simp_all add: rt(4,5) pr(4,5))
  have count: "length (es_committed es1) \<le> COMMIT_WIDTH * Suc cycle"
    using rt(3) inv by (simp add: pr(6) engine_inv_def)
  have sched: "redirect_inv (Suc cycle) (es_pipe es2) uops" "pipe_view (es_pipe es2) = pipe_view (es_pipe es1)"
    using schedule_inv [OF refl none, of "es_uops es1" cycle] redirect_inv_length [OF lu] len lu
    by (simp_all add: es2_def)
  have e1: "engine_inv uops (Suc cycle) es1"
    using rt(1,2) pr(2) us count redirect_inv_None [OF none] by (simp add: engine_inv_def rt(7))
  have p2: "pipe_inv (es_next_fetch_seq es2) (es_pipe es2) (es_iq es2) (es_rob es2)"
    using e1 pipe_inv_view [OF sched(2)] by (simp add: engine_inv_def es2_def)
  have f2: "es_committed es2 = es_committed es1" "es_retired_seqs es2 = es_retired_seqs es1"
    "es_next_fetch_seq es2 = es_next_fetch_seq es1" "es_uops es2 = es_uops es1" by (simp_all add: es2_def)
  have e2: "engine_inv uops (Suc cycle) es2" using e1 p2 sched(1) unfolding engine_inv_def f2 by blast
  note adv = advance_pipe_inv [OF p2 refl, of cycle env]
  have "redirect_inv (Suc cycle) (es_pipe (cycle_advance cycle env es2)) uops"
    using sched(1) by (simp add: redirect_inv_def adv(2,3))
  then have e3: "engine_inv uops (Suc cycle) (cycle_advance cycle env es2)"
    using e2 adv(1,4) by (simp add: engine_inv_def cycle_advance_frame)
  show ?thesis using out e1 e2 e3 by (auto simp: es2_def Let_def split: option.splits)
qed

lemma engine_at_inv:
  assumes "engine_at env uops c es" and "length uops \<le> u64_max" shows "engine_inv uops c es"
  using assms by induction (auto intro: init_engine_inv step_inv)

lemma run_loop_engine_at:
  assumes "engine_at env uops c es" and "run_loop fuel c env es = (es', r)"
  shows "\<exists>c' \<le> c + fuel. engine_at env uops c' es' \<and> (r = None \<longrightarrow> c' = c + fuel)"
  using assms
proof (induction fuel arbitrary: c es)
  case (Suc fuel)
  obtain es1 r1 where s: "cycle_step c env es = (es1, r1)" by fastforce
  have at: "engine_at env uops (Suc c) es1" by (rule engine_tick [OF Suc.prems(1) s])
  show ?case
  proof (cases r1)
    case None
    then have "run_loop fuel (Suc c) env es1 = (es', r)" using Suc.prems(2) s by simp
    from Suc.IH [OF at this] show ?thesis by fastforce
  next
    case (Some x)
    then show ?thesis using Suc.prems(2) s at by (auto intro!: exI [of _ "Suc c"])
  qed
qed (auto)

section \<open>Commit timing\<close>

lemma prepare_committed: "es_committed (cycle_prepare cycle env es) = es_committed es"
  by (simp add: cycle_prepare_def Let_def case_prod_beta)

lemma step_commits:
  assumes "cycle_step cycle env es = (es', r)"
  obtains cs where "es_committed es' = es_committed es @ cs" "length cs \<le> COMMIT_WIDTH" "\<forall>c \<in> set cs. cr_cycle c = cycle"
proof -
  let ?es0 = "cycle_prepare cycle env es"
  obtain es1 t where ret: "cycle_retire cycle env ?es0 = (es1, t)"
    and out: "(case t of Some c \<Rightarrow> es' = es1 | None \<Rightarrow>
        (let es2 = es1\<lparr>es_pipe := schedule_frontend_redirect_recovery cycle (es_pipe es1) (es_uops es1)\<rparr>
         in es' = es2 \<and> r = Some (re_func_exit_reason env) \<or> es' = cycle_advance cycle env es2))"
    by (rule cycle_step_parts [OF assms])
  let ?st = "\<lparr>rs_rob = es_rob ?es0, rs_committed = es_committed ?es0, rs_retired_seqs = es_retired_seqs ?es0,
        rs_pipe = es_pipe ?es0, rs_events = es_events ?es0, rs_trap = None\<rparr>"
  obtain k cs where k: "k \<le> COMMIT_WIDTH" "es_committed es1 = es_committed ?es0 @ cs"
    "list_all2 (\<lambda>c s. \<exists>t. c = retire_commit cycle t (uo_commit (es_uops ?es0 ! s))) cs (take k (es_rob ?es0))"
    using retire_loop_spec [of COMMIT_WIDTH ?st cycle "re_lane env" "es_uops ?es0"] ret
    unfolding cycle_retire_def retire_ready_def Let_def by auto
  have "cr_cycle c = cycle" if "c \<in> set cs" for c
    using that k(3) by (auto simp: list_all2_conv_all_nth in_set_conv_nth retire_commit_def)
  moreover have "length cs \<le> COMMIT_WIDTH" using list_all2_lengthD [OF k(3)] k(1) by simp
  moreover have "es_committed es' = es_committed es1"
    using out by (auto simp: Let_def cycle_advance_frame split: option.splits)
  ultimately show thesis using that k(2) by (simp add: prepare_committed)
qed

definition timing_inv :: "cyc \<Rightarrow> CommitRecord list \<Rightarrow> bool" where
  "timing_inv cycle cs =
     (sorted (map cr_cycle cs) \<and> (\<forall>c \<in> set cs. cr_cycle c < cycle) \<and>
      (\<forall>t. length (filter (\<lambda>c. cr_cycle c = t) cs) \<le> COMMIT_WIDTH))"

lemma timing_step:
  assumes inv: "timing_inv cycle cs" and "length ds \<le> COMMIT_WIDTH" and "\<forall>c \<in> set ds. cr_cycle c = cycle"
  shows "timing_inv (Suc cycle) (cs @ ds)"
proof -
  have ds: "map cr_cycle ds = replicate (length ds) cycle" using assms(3) by (simp add: map_replicate_const [symmetric] cong: map_cong)
  have "sorted (map cr_cycle (cs @ ds))"
    using inv unfolding map_append ds by (auto simp: sorted_append timing_inv_def less_imp_le)
  moreover have "length (filter (\<lambda>c. cr_cycle c = t) (cs @ ds)) \<le> COMMIT_WIDTH" for t
  proof (cases "t = cycle")
    case True
    then have "filter (\<lambda>c. cr_cycle c = t) cs = []" using inv by (auto simp: timing_inv_def filter_empty_conv)
    then show ?thesis using le_trans [OF length_filter_le assms(2)] by simp
  next
    case False
    then have "filter (\<lambda>c. cr_cycle c = t) ds = []" using assms(3) by (auto simp: filter_empty_conv)
    then show ?thesis using inv by (simp add: timing_inv_def)
  qed
  ultimately show ?thesis using inv assms(3) by (auto simp: timing_inv_def less_Suc_eq)
qed

lemma run_timing:
  assumes "run_loop k c env es = (es', r)" and "timing_inv c (es_committed es)"
  shows "timing_inv (c + k) (es_committed es')"
  using assms
proof (induction k arbitrary: c es)
  case (Suc k)
  obtain es1 r1 where s: "cycle_step c env es = (es1, r1)" by fastforce
  obtain cs where "es_committed es1 = es_committed es @ cs" "length cs \<le> COMMIT_WIDTH" "\<forall>c' \<in> set cs. cr_cycle c' = c"
    by (rule step_commits [OF s])
  with Suc.prems(2) have t: "timing_inv (Suc c) (es_committed es1)" by (simp add: timing_step)
  then have mono: "timing_inv (c + Suc k) (es_committed es1)" by (auto simp: timing_inv_def)
  show ?case
  proof (cases r1)
    case None
    then have "run_loop k (Suc c) env es1 = (es', r)" using Suc.prems(1) s by simp
    from Suc.IH [OF this t] show ?thesis by simp
  qed (use Suc.prems(1) s mono in simp)
qed simp

text \<open>C14: no uop is lost or duplicated. A cycle of the backend and frontend moves uops between the stages
  and queues; together with the uops that leave write-back, what was in the machine is what is in it
  afterwards, each uop once, and the well-formedness of all the queues is kept.\<close>

theorem cycle_advance_conserves:
  assumes "pipe_inv n (es_pipe es) (es_iq es) (es_rob es)" and "es' = cycle_advance cycle env es"
  shows "resident (es_pipe es') (es_iq es') + mset (sq_w2 (es_pipe es)) = resident (es_pipe es) (es_iq es) \<and>
         pipe_inv n (es_pipe es') (es_iq es') (es_rob es') \<and>
         (\<forall>x. count (resident (es_pipe es') (es_iq es')) x \<le> 1)"
proof -
  note inv = advance_pipe_inv [OF assms]
  from inv(1) have "\<forall>x. count (resident (es_pipe es') (es_iq es')) x \<le> 1" by (simp add: pipe_inv_def)
  with inv(1,5) show ?thesis by blast
qed

lemma cycle_advance_conserves_witness:
  "\<forall>env. resident (es_pipe (cycle_advance 0 env (init_engine_state []))) (es_iq (cycle_advance 0 env (init_engine_state []))) = {#}"
proof
  fix env
  have "pipe_inv 0 (es_pipe (init_engine_state [])) (es_iq (init_engine_state [])) (es_rob (init_engine_state []))"
    using init_engine_inv [of "[]"] by (simp add: engine_inv_def init_engine_state_def)
  from cycle_advance_conserves [OF this refl, of 0 env] show
    "resident (es_pipe (cycle_advance 0 env (init_engine_state []))) (es_iq (cycle_advance 0 env (init_engine_state []))) = {#}"
    by (simp add: resident_def init_engine_state_def default_stage_queues_def backend_seqs_def iq_seqs_def)
qed

end
