(* ===== verification/Backend_Widths.thy ===== *)
theory Backend_Widths
  imports Pipeline_Inv
begin

text \<open>The widths of the execution stages: an invariant of the cycle engine that bounds E1 to E4, W1 and the L1D port.
  E1 can hold more than the issue width, because a load that replays after a miss enters it without that check.\<close>

section \<open>The invariant\<close>

text \<open>What the execution stages hold, and the fields that say so.\<close>

definition exec_view where
  "exec_view p = (sq_e1 p, sq_e2 p, sq_e3 p, sq_e4 p, sq_w1 p, sq_liq p, sq_l1d p)"

definition is_load_in :: "CycleUop list \<Rightarrow> usize \<Rightarrow> bool" where
  "is_load_in uops = (\<lambda>s. uo_is_load (uops ! s))"

definition e1_ok :: "(usize \<Rightarrow> bool) \<Rightarrow> usize list \<Rightarrow> bool" where
  "e1_ok load e1 = (length (filter load e1) \<le> LSU_WIDTH \<and> length (filter (\<lambda>s. \<not> load s) e1) \<le> ISSUE_WIDTH)"

definition backend_ok :: "(usize \<Rightarrow> bool) \<Rightarrow> StageQueues \<Rightarrow> bool" where
  "backend_ok load p =
     (e1_ok load (sq_e1 p) \<and> length (sq_e2 p) \<le> LSU_WIDTH \<and> length (sq_e3 p) \<le> LSU_WIDTH \<and> length (sq_e4 p) \<le> LSU_WIDTH \<and>
      length (sq_w1 p) \<le> ISSUE_WIDTH \<and> length (sq_l1d p) \<le> L1D_WIDTH \<and> list_all (load \<circ> lq_seq) (sq_liq p))"

lemma backend_ok_cong: "exec_view q = exec_view p \<Longrightarrow> backend_ok load q = backend_ok load p"
  by (simp add: backend_ok_def exec_view_def)

text \<open>Which uops are loads is fixed when the trace is turned into uops.\<close>

lemma static_loads: "map uop_static us = map uop_static vs \<Longrightarrow> is_load_in us = is_load_in vs"
proof
  fix s
  assume "map uop_static us = map uop_static vs"
  then show "is_load_in us s = is_load_in vs s"
  proof (induction us arbitrary: vs s)
    case (Cons u us)
    then obtain v ws where "vs = v # ws" "uop_static u = uop_static v" "map uop_static us = map uop_static ws" by auto
    then show ?case using Cons.IH [of ws "s - 1"] by (cases s) (auto simp: is_load_in_def dest: uop_static_sel(5))
  qed simp
qed

section \<open>Execute and the memory unit\<close>

lemma e1_loop_widths:
  assumes "e1_loop uops e1 stay e2 w1 = (stay', e2', w1')" "length e2 \<le> LSU_WIDTH" "length w1 \<le> ISSUE_WIDTH"
  shows "length e2' \<le> LSU_WIDTH \<and> length w1' \<le> ISSUE_WIDTH \<and>
    length (filter load stay') \<le> length (filter load stay) + length (filter load e1)"
  using assms
proof (induction uops e1 stay e2 w1 rule: e1_loop.induct)
  case (2 uops seq prev_e1 stay_e1 e2 w1)
  then show ?case by (cases "uo_is_load (uops ! seq)"; cases "length e2 < LSU_WIDTH"; cases "length w1 < ISSUE_WIDTH") (auto split: if_splits)
qed simp

lemma e4_loop_widths:
  assumes "e4_loop cycle options e4 stay p uops = (stay', p', uops')" "length (sq_l1d p) \<le> L1D_WIDTH"
    "list_all (is_load_in uops \<circ> lq_seq) (sq_liq p)"
  shows "length stay' \<le> length stay + length e4 \<and> length (sq_l1d p') \<le> L1D_WIDTH \<and>
    list_all (is_load_in uops \<circ> lq_seq) (sq_liq p')"
  using assms
proof (induction cycle options e4 stay p uops rule: e4_loop.induct)
  case (2 cycle options seq prev_e4 stay_e4 p uops)
  note prems = "2.prems"
  have same: "is_load_in (uops[seq := u]) = is_load_in uops" if "uop_static u = uop_static (uops ! seq)" for u
    by (rule static_loads) (rule map_static_update [OF that])
  have s: "uop_static (inject_miss r u) = uop_static u" "uop_static (u\<lparr>uo_miss_pending_until := None\<rparr>) = uop_static u" for r u
    by (simp_all add: inject_miss_def uop_static_def)
  show ?case
  proof (cases "should_inject_load_miss seq options uops")
    case True
    then have "is_load_in uops seq" by (auto simp: should_inject_load_miss_def is_load_in_def Let_def split: option.splits if_splits)
    then show ?thesis using "2.IH"(1) [OF True refl] prems True by (simp add: Let_def same s)
  next
    case miss: False
    show ?thesis
    proof (cases "lsid_cache_ready seq (sq_lsid_cache_ptr p) uops \<and> can_accept_l1d (sq_l1d p)")
      case True
      then show ?thesis using "2.IH"(2) [OF miss True] prems miss by (simp add: same s can_accept_l1d_def)
    next
      case False
      then show ?thesis using "2.IH"(3) [OF miss False] prems miss by auto
    qed
  qed
qed simp

lemma advance_execute_backend_ok:
  assumes "advance_execute cycle p uops options = (p', uops')" and ok: "backend_ok (is_load_in uops) p"
  shows "backend_ok (is_load_in uops) p'"
proof -
  obtain w2 w1 where w: "lsu_advance_simple [] (sq_w1 p) ISSUE_WIDTH = (w2, w1)" by fastforce
  let ?p1 = "p\<lparr>sq_w2 := w2, sq_w1 := w1\<rparr>"
  obtain stay p2 u2 where e4: "e4_loop cycle options (sq_e4 ?p1) [] ?p1 uops = (stay, p2, u2)"
    by (cases "e4_loop cycle options (sq_e4 ?p1) [] ?p1 uops") auto
  obtain e4' e3 where e3: "lsu_advance_simple stay (sq_e3 p2) LSU_WIDTH = (e4', e3)" by fastforce
  obtain e3' e2 where e2: "lsu_advance_simple e3 (sq_e2 p2) LSU_WIDTH = (e3', e2)" by fastforce
  obtain stay1 e2' w1' where e1: "e1_loop u2 (sq_e1 p2) [] e2 (sq_w1 p2) = (stay1, e2', w1')"
    by (cases "e1_loop u2 (sq_e1 p2) [] e2 (sq_w1 p2)") auto
  have p': "p' = p2\<lparr>sq_e4 := e4', sq_e3 := e3', sq_e2 := e2', sq_w1 := w1', sq_e1 := stay1\<rparr>"
    using assms unfolding advance_execute_def w Let_def prod.case e4 e3 e2 e1 by simp
  obtain liq mdb lhq l1d where
    p2: "p2 = ?p1\<lparr>sq_liq := liq, sq_mdb := mdb, sq_lhq := lhq, sq_l1d := l1d\<rparr>"
    using e4_loop_frame [OF e4] unfolding lsu_update_def by (rule that)
  note b = ok [unfolded backend_ok_def]
  have a: "length stay \<le> LSU_WIDTH \<and> length l1d \<le> L1D_WIDTH \<and> list_all (is_load_in uops \<circ> lq_seq) liq"
    using e4_loop_widths [OF e4] b by (simp add: p2)
  have w1': "length w1 \<le> ISSUE_WIDTH" using w b by (auto simp: lsu_advance_simple_closed)
  have c: "length e4' \<le> LSU_WIDTH" "length e3 \<le> LSU_WIDTH" "length e3' \<le> LSU_WIDTH" "length e2 \<le> LSU_WIDTH"
    using e3 e2 a b by (auto simp: lsu_advance_simple_closed p2)
  have d: "length e2' \<le> LSU_WIDTH \<and> length w1' \<le> ISSUE_WIDTH \<and> length (filter load stay1) \<le> length (filter load (sq_e1 p))" for load
    using e1_loop_widths [OF e1 c(4), of load] w1' by (simp add: p2)
  show ?thesis using a c d [of "is_load_in uops"] d [of "\<lambda>s. \<not> is_load_in uops s"] b
    unfolding backend_ok_def e1_ok_def by (simp add: p' p2)
qed

lemma l1d_loop_widths:
  "length (sq_w1 p) \<le> ISSUE_WIDTH \<Longrightarrow> length (sq_w1 (l1d_loop cycle l1d p)) \<le> ISSUE_WIDTH \<and>
     length (sq_l1d (l1d_loop cycle l1d p)) \<le> length (sq_l1d p) + length l1d"
proof (induction cycle l1d p rule: l1d_loop.induct)
  case (2 cycle entry remaining p)
  then show ?case by (cases "cycle < l1_ready_cycle entry"; cases "l1_kind entry"; cases "length (sq_w1 p) < ISSUE_WIDTH") auto
qed simp

lemma advance_l1d_backend_ok: "backend_ok load p \<Longrightarrow> backend_ok load (advance_l1d cycle p)"
  using l1d_loop_widths [of "p\<lparr>sq_l1d := []\<rparr>" cycle "sq_l1d p"]
  by (simp add: backend_ok_def advance_l1d_def l1d_loop_frame)

lemma advance_liq_backend_ok:
  assumes "advance_liq cycle p uops rob = (p', uops')" and ok: "backend_ok (is_load_in uops) p"
  shows "backend_ok (is_load_in uops) p'"
proof (cases rule: advance_liq_cases [of cycle p uops rob])
  case idle
  then show ?thesis using assms by simp
next
  case (replay i)
  then have p': "p' = p\<lparr>sq_lhq := lhq_insert (sq_lhq p) (lq_seq (sq_liq p ! i)), sq_mdb := remove_mdb_entry (sq_mdb p) (lq_seq (sq_liq p ! i)),
            sq_e1 := sq_e1 p @ [lq_seq (sq_liq p ! i)], sq_liq := remove_at i (sq_liq p)\<rparr>"
    using assms(1) by (simp add: Let_def)
  have "is_load_in uops (lq_seq (sq_liq p ! i))" using ok replay(1) by (auto simp: backend_ok_def list_all_length)
  moreover have "length (filter (is_load_in uops) (sq_e1 p)) < LSU_WIDTH"
    using replay(2) by (simp add: load_slot_available_def is_load_in_def)
  moreover have "list_all (is_load_in uops \<circ> lq_seq) (remove_at i (sq_liq p))"
    using ok by (auto simp: backend_ok_def remove_at_def list_all_iff dest: in_set_takeD in_set_dropD)
  ultimately show ?thesis using ok unfolding backend_ok_def e1_ok_def p' by (simp add: Suc_le_eq)
qed

section \<open>Issue and dispatch\<close>

lemma advance_i2_loop_e1_ok:
  "advance_i2_loop cycle uops i2 stay st = (stay', st') \<Longrightarrow> e1_ok (is_load_in uops) (is_e1 st) \<Longrightarrow> e1_ok (is_load_in uops) (is_e1 st')"
proof (induction cycle uops i2 stay st rule: advance_i2_loop.induct)
  case (2 cycle uops seq i2 stay st)
  have "e1_ok (is_load_in uops) (is_e1 st @ [seq])" if "e1_can_accept seq (is_e1 st) uops"
    using that "2.prems"(2) le_less_trans [OF length_filter_le [of "\<lambda>s. \<not> is_load_in uops s" "is_e1 st"], of ISSUE_WIDTH]
    by (auto simp: e1_can_accept_def e1_ok_def load_slot_available_def is_load_in_def)
  then show ?case using 2 by (auto split: if_splits)
qed simp

lemma advance_i2_backend_ok: "backend_ok (is_load_in uops) p \<Longrightarrow> backend_ok (is_load_in uops) (advance_i2 cycle p uops)"
proof -
  assume ok: "backend_ok (is_load_in uops) p"
  let ?st = "\<lparr>is_e1 = sq_e1 p, is_lhq = sq_lhq p, is_stq = sq_stq p,
             is_issue_ptr = sq_lsid_issue_ptr p, is_complete_ptr = sq_lsid_complete_ptr p\<rparr>"
  obtain stay st where loop: "advance_i2_loop cycle uops (sq_i2 p) [] ?st = (stay, st)" by fastforce
  with advance_i2_loop_e1_ok [OF loop] ok show ?thesis by (simp add: backend_ok_def advance_i2_def loop Let_def)
qed

lemma dispatch_exec_view: "exec_view (fst (dispatch_to_iq_and_bypass cycle p iq uops)) = exec_view p"
proof -
  have one: "exec_view (ds_pipe (dispatch_one cycle seq st)) = exec_view (ds_pipe st)" for seq st
    by (simp add: dispatch_one_def dispatch_bypass_def dispatch_enqueue_def Let_def exec_view_def split: option.split)
  have "exec_view (ds_pipe (fold (dispatch_one cycle) xs st)) = exec_view (ds_pipe st)" for xs st
    by (induction xs arbitrary: st) (simp_all add: one)
  note f = this [unfolded exec_view_def]
  show ?thesis by (simp add: dispatch_to_iq_and_bypass_def Let_def exec_view_def f)
qed

lemma frame_exec_view:
  "exec_view (fst (advance_i1_to_i2 p iq)) = exec_view p" "exec_view (fst (advance_frontend p rob)) = exec_view p"
  "exec_view (fst (fetch_packet p n uops)) = exec_view p"
  by (simp_all add: advance_i1_to_i2_def advance_frontend_def fetch_packet_def exec_view_def Let_def case_prod_beta split: list.split)

lemma fill_fetch_exec_view:
  assumes "fill_fetch cycle p n uops = (p', n')"
  shows "exec_view p' = exec_view p"
proof -
  have f: "exec_view p' = exec_view q" if "fetch_packet q m uops = (p', n')" for q m
    using frame_exec_view(3) [of q m uops] that by simp
  from assms show ?thesis
  proof (cases rule: fill_fetch_cases)
    case (restart r)
    from f [OF restart(3)] show ?thesis by (simp add: exec_view_def)
  qed (simp_all add: f)
qed

lemma schedule_exec_view: "exec_view (schedule_frontend_redirect_recovery cycle p uops) = exec_view p"
proof (cases "resolved_frontend_redirect cycle p uops")
  case (Some rd)
  have "exec_view (if c then q\<lparr>sq_pending_bru_correction := x\<rparr> else if d then q\<lparr>sq_pending_bru_correction := y\<rparr> else q) = exec_view q" for c d x y q
    by (simp add: exec_view_def)
  then show ?thesis unfolding schedule_frontend_redirect_recovery_def Some Let_def by (simp add: exec_view_def)
qed (simp add: schedule_frontend_redirect_recovery_def)

section \<open>A cycle\<close>

lemma flush_backend_ok:
  assumes "apply_pending_flush cycle p iq rob uops = (p', iq', rob')" and ok: "backend_ok load p"
  shows "backend_ok load p'"
proof (cases "\<exists>f. flush_applies cycle p f")
  case False
  then show ?thesis using assms by (simp add: apply_pending_flush_idle)
next
  case True
  then obtain f where "flush_applies cycle p f" by blast
  note v = dispatch_view_fields [OF apply_pending_flush_spec(4) [OF this assms(1)]]
  have le: "length (filter P xs) \<le> n" if "length xs \<le> n" for P :: "'a \<Rightarrow> bool" and xs n
    using that length_filter_le [of P xs] by linarith
  have swap: "length (filter P (filter Q xs)) \<le> n" if "length (filter P xs) \<le> n" for P Q :: "usize \<Rightarrow> bool" and xs n
    using le [OF that, of Q] by (simp add: filter_filter conj_commute)
  show ?thesis using ok unfolding backend_ok_def e1_ok_def
    by (simp add: v flush_stages_def Let_def le swap list_all_iff del: filter_filter width_defs)
qed

lemma publish_exec_view:
  "exec_view (publish_call_header_fault_state cycle (publish_dynamic_boundary_target_fault_state cycle
      (publish_bru_correction_state cycle p uops) uops) uops) = exec_view p"
proof -
  let ?b = "publish_bru_correction_state cycle p uops"
  let ?d = "publish_dynamic_boundary_target_fault_state cycle ?b uops"
  let ?c = "publish_call_header_fault_state cycle ?d uops"
  have "stage_view (?b\<lparr>sq_pending_trap := None, sq_pending_bru_correction := None\<rparr>) =
        stage_view (p\<lparr>sq_pending_trap := None, sq_pending_bru_correction := None\<rparr>)"
    "stage_view (?d\<lparr>sq_pending_trap := None\<rparr>) = stage_view (?b\<lparr>sq_pending_trap := None\<rparr>)"
    "stage_view (?c\<lparr>sq_pending_trap := None\<rparr>) = stage_view (?d\<lparr>sq_pending_trap := None\<rparr>)"
    by (rule publish_frames)+
  then show ?thesis by (simp add: stage_view_def exec_view_def)
qed

lemma scb_loop_l1d: "scb_loop cycle uops ptr scb l1d = (scb', l1d') \<Longrightarrow> length l1d \<le> L1D_WIDTH \<Longrightarrow> length l1d' \<le> L1D_WIDTH"
  by (drule scb_loop_drains) auto

lemma advance_scb_backend_ok: "backend_ok load p \<Longrightarrow> backend_ok load (advance_scb cycle p uops)"
  using scb_loop_l1d [OF surjective_pairing, of "sq_l1d p" cycle uops "sq_lsid_cache_ptr p" "sq_scb p"]
  by (simp add: backend_ok_def advance_scb_def case_prod_beta)

lemma prepare_backend_ok:
  assumes "backend_ok load (es_pipe es)"
  shows "backend_ok load (es_pipe (cycle_prepare cycle env es))"
proof -
  obtain p1 iq1 rob1 where f: "apply_pending_flush cycle (es_pipe es) (es_iq es) (es_rob es) (es_uops es) = (p1, iq1, rob1)"
    by (cases "apply_pending_flush cycle (es_pipe es) (es_iq es) (es_rob es) (es_uops es)") auto
  obtain p2 n where g: "fill_fetch cycle p1 (es_next_fetch_seq es) (es_uops es) = (p2, n)" by fastforce
  have "backend_ok load p2" using flush_backend_ok [OF f assms] backend_ok_cong [OF fill_fetch_exec_view [OF g]] by simp
  then show ?thesis unfolding cycle_prepare_def Let_def prod.case f g
    by (simp add: advance_scb_backend_ok backend_ok_cong [OF publish_exec_view])
qed

lemma retire_exec_view: "cycle_retire cycle env es = (es', t) \<Longrightarrow> exec_view (es_pipe es') = exec_view (es_pipe es)"
  using retire_loop_pipe [where budget = COMMIT_WIDTH and cycle = cycle and lane = "re_lane env" and uops = "es_uops es" and
      st = "\<lparr>rs_rob = es_rob es, rs_committed = es_committed es, rs_retired_seqs = es_retired_seqs es,
        rs_pipe = es_pipe es, rs_events = es_events es, rs_trap = None\<rparr>"]
  by (auto simp: cycle_retire_def retire_ready_def Let_def stage_view_def exec_view_def)

lemma advance_backend_ok:
  assumes ok: "backend_ok (is_load_in (es_uops es)) (es_pipe es)" and adv: "es' = cycle_advance cycle env es"
  shows "backend_ok (is_load_in (es_uops es)) (es_pipe es')"
proof -
  obtain p1 u1 p3 u2 p4 iq1 adm iq2 i1 p1q p6 iq3 p1q' p8 iq4 u3 p9 rob1 where
    s1: "advance_execute cycle (es_pipe es) (es_uops es) (re_options env) = (p1, u1)"
    and s3: "advance_liq cycle (advance_l1d cycle p1) u1 (es_rob es) = (p3, u2)"
    and s4: "advance_i1_to_i2 p3 (es_iq es) = (p4, iq1)"
    and p6: "p6 = advance_i2 cycle (p4\<lparr>sq_i1 := i1, sq_p1 := p1q\<rparr>) u2"
    and s9: "dispatch_to_iq_and_bypass cycle (p6\<lparr>sq_p1 := p1q'\<rparr>) iq3 u2 = (p8, iq4, u3)"
    and s10: "advance_frontend p8 (es_rob es) = (p9, rob1)"
    and es': "es' = es\<lparr>es_pipe := p9, es_iq := iq4, es_rob := rob1, es_uops := u3\<rparr>"
    by (rule cycle_advance_parts [OF adv])
  let ?load = "is_load_in (es_uops es)"
  have u1: "is_load_in u1 = ?load" using static_advance_execute [of cycle "es_pipe es" "es_uops es" "re_options env"] s1
    by (intro static_loads) simp
  have u2: "is_load_in u2 = ?load" using static_loads [OF execute_half(4) [OF s1 s3]] .
  have "backend_ok ?load (advance_l1d cycle p1)" by (intro advance_l1d_backend_ok advance_execute_backend_ok [OF s1 ok])
  then have "backend_ok ?load p3" using advance_liq_backend_ok [OF s3] by (simp add: u1)
  then have "backend_ok ?load (p4\<lparr>sq_i1 := i1, sq_p1 := p1q\<rparr>)"
    using frame_exec_view(1) [of p3 "es_iq es"] s4 by (subst backend_ok_cong [of _ p3]) (simp_all add: exec_view_def)
  then have "backend_ok ?load p6" using advance_i2_backend_ok [of u2] by (simp add: u2 p6)
  moreover have "exec_view p9 = exec_view p6"
  proof -
    have "exec_view p9 = exec_view p8" using frame_exec_view(2) [of p8 "es_rob es"] unfolding s10 by simp
    also have "\<dots> = exec_view (p6\<lparr>sq_p1 := p1q'\<rparr>)" using dispatch_exec_view [of cycle "p6\<lparr>sq_p1 := p1q'\<rparr>" iq3 u2] unfolding s9 by simp
    finally show ?thesis by (simp add: exec_view_def)
  qed
  ultimately show ?thesis using backend_ok_cong [of p9 p6] by (simp add: es')
qed

lemma prepare_static: "map uop_static (es_uops (cycle_prepare cycle env es)) = map uop_static (es_uops es)"
  by (simp add: cycle_prepare_def Let_def case_prod_beta static_tag_stage_cycles)

lemma step_backend_ok:
  assumes step: "cycle_step cycle env es = (es', r)" and ok: "backend_ok (is_load_in (es_uops es)) (es_pipe es)"
  shows "backend_ok (is_load_in (es_uops es)) (es_pipe es')"
proof -
  obtain es1 t where ret: "cycle_retire cycle env (cycle_prepare cycle env es) = (es1, t)"
    and out: "(case t of Some c \<Rightarrow> es' = es1 | None \<Rightarrow>
        (let es2 = es1\<lparr>es_pipe := schedule_frontend_redirect_recovery cycle (es_pipe es1) (es_uops es1)\<rparr>
         in es' = es2 \<and> r = Some (re_func_exit_reason env) \<or> es' = cycle_advance cycle env es2))"
    by (rule cycle_step_parts [OF step])
  let ?load = "is_load_in (es_uops es)"
  define es2 where "es2 = es1\<lparr>es_pipe := schedule_frontend_redirect_recovery cycle (es_pipe es1) (es_uops es1)\<rparr>"
  have e1: "backend_ok ?load (es_pipe es1)"
    using prepare_backend_ok [OF ok, of cycle env] backend_ok_cong [OF retire_exec_view [OF ret]] by simp
  have e2: "backend_ok ?load (es_pipe es2)"
    using e1 backend_ok_cong [OF schedule_exec_view] by (simp add: es2_def)
  have "es_uops es1 = es_uops (cycle_prepare cycle env es)" using ret by (auto simp: cycle_retire_def Let_def)
  then have "is_load_in (es_uops es2) = ?load" using static_loads [OF prepare_static, of cycle env es] by (simp add: es2_def)
  then have e3: "backend_ok ?load (es_pipe (cycle_advance cycle env es2))" using advance_backend_ok [OF _ refl, of es2] e2 by simp
  show ?thesis using out e1 e2 e3 by (auto simp: es2_def Let_def split: option.splits)
qed

lemma engine_at_backend_ok:
  assumes "engine_at env uops c es" and "length uops \<le> u64_max"
  shows "backend_ok (is_load_in uops) (es_pipe es)"
  using assms
proof induction
  case engine_start
  then show ?case by (simp add: backend_ok_def e1_ok_def init_engine_state_def default_stage_queues_def)
next
  case (engine_tick c es es' r)
  have "map uop_static (es_uops es) = map uop_static uops"
    using engine_at_inv [OF engine_tick(1,4)] by (simp add: engine_inv_def)
  then show ?case using step_backend_ok [OF engine_tick(2)] engine_tick(3) [OF engine_tick(4)] static_loads by metis
qed

text \<open>E1 can hold one uop more than the issue width: the loads that replay after a miss do not count the others.\<close>

lemma e1_width: "e1_ok load e1 \<Longrightarrow> length e1 \<le> ISSUE_WIDTH + LSU_WIDTH"
  using sum_length_filter_compl [of load e1] by (simp add: e1_ok_def)

end
