(* ===== verification/Program_Order.thy ===== *)
theory Program_Order
  imports Backend_Widths
begin

text \<open>
  Program order. As long as no redirect has been scheduled, the uops before the reorder buffer, read
  from the oldest stage back to fetch, are a contiguous range of the trace, and the retired uops
  followed by the reorder buffer are the trace from its start (\<open>order_fe\<close>); a uop is only marked
  complete by a pass through W2 (\<open>done_sub\<close>), so no uop retires while it is still in the frontend.
  Together (\<open>order_inv\<close>) they make every such run retire the trace in program order.
\<close>

section \<open>Program order while no redirect is scheduled\<close>

text \<open>The first seven frontend stages (F0 to D2) lie before the reorder buffer; a uop enters the
  buffer when its packet leaves the seventh. The last stage before it can hold uops that are
  already in the buffer, because a packet that finds no room is pushed and stays.\<close>

definition order_fe :: "usize list \<Rightarrow> usize \<Rightarrow> usize list list \<Rightarrow> usize list \<Rightarrow> bool" where
  "order_fe retired n fe rob =
     (length fe = 11 \<and> retired @ rob = [0 ..< length retired + length rob] \<and>
      (\<exists>a \<le> n. concat (rev (take 7 fe)) = [a ..< n] \<and> a \<le> length retired + length rob \<and>
         length retired + length rob \<le> a + length (fe ! 6)) \<and>
      (\<forall>x \<in> set (concat fe). x \<notin> set retired))"

lemma take7_split: "length fe = 11 \<Longrightarrow> concat (rev (take 7 fe)) = fe ! 6 @ concat (rev (take 6 fe))"
  using take_Suc_conv_app_nth [of 6 fe] by simp

lemma upt_prefix: "xs @ ys = [a ..< n] \<Longrightarrow> a \<le> n \<Longrightarrow> xs = [a ..< a + length xs] \<and> ys = [a + length xs ..< n]"
proof -
  assume a: "xs @ ys = [a ..< n]" and "a \<le> n"
  have "length xs + length ys = n - a" using arg_cong [OF a, of length] by simp
  then have n: "n = a + length xs + length ys" using \<open>a \<le> n\<close> by simp
  have "[a ..< n] = [a ..< a + length xs] @ [a + length xs ..< n]"
    unfolding n by (rule upt_add_eq_append) simp
  with a show ?thesis by (metis append_eq_append_conv length_upt diff_add_inverse)
qed

lemma rob_push_upt:
  assumes "l \<le> a" "a \<le> r" "r \<le> m"
  shows "rob_push [a ..< m] [l ..< r] = [l ..< m]"
proof -
  have stay: "rob_push xs rob = rob" if "set xs \<subseteq> set rob" for xs rob
    using that by (induction xs) (simp_all add: rob_push_def)
  have app: "rob_push (xs @ ys) rob = rob_push ys (rob_push xs rob)" for xs ys rob by (simp add: rob_push_def)
  have grow: "rob_push [r ..< r + d] [l ..< r] = [l ..< r + d]" for d
    using assms by (induction d) (simp_all add: rob_push_def)
  have "[a ..< m] = [a ..< r] @ [r ..< m]" using assms(2,3) upt_add_eq_append [of a r "m - r"] by simp
  moreover have "rob_push [a ..< r] [l ..< r] = [l ..< r]" using assms(1) by (intro stay) auto
  ultimately show ?thesis using grow [of "m - r"] assms(3) by (simp add: app)
qed

lemma rob_push_order:
  assumes o: "order_fe retired n fe rob" and ab: "fe ! 6 = m @ b" and "length fe' = 11"
    and "take 7 fe' = take 6 fe @ [b]" and "set (concat fe') = set (concat fe)"
  shows "order_fe retired n fe' (rob_push (fe ! 6) rob)"
proof -
  let ?l = "length retired" and ?r = "length retired + length rob"
  from o obtain a where a: "a \<le> n" "concat (rev (take 7 fe)) = [a ..< n]" "a \<le> ?r" "?r \<le> a + length (fe ! 6)"
    and len: "length fe = 11" and rr: "retired @ rob = [0 ..< ?r]" and new: "\<forall>x \<in> set (concat fe). x \<notin> set retired"
    by (auto simp: order_fe_def)
  from upt_prefix [OF rr] have ret: "retired = [0 ..< ?l]" and rob: "rob = [?l ..< ?r]" by simp_all
  have six: "fe ! 6 @ concat (rev (take 6 fe)) = [a ..< n]" using a(2) take7_split [OF len] by simp
  from upt_prefix [OF this a(1)] have f6: "fe ! 6 = [a ..< a + length (fe ! 6)]"
    and rest: "concat (rev (take 6 fe)) = [a + length (fe ! 6) ..< n]" by auto
  have push: "rob_push (fe ! 6) rob = [?l ..< a + length (fe ! 6)]"
  proof (cases "fe ! 6")
    case Nil
    then have "a = ?r" using a(3,4) by simp
    then show ?thesis using Nil rob by (simp add: rob_push_def)
  next
    case (Cons x xs)
    then have "a \<in> set (fe ! 6)" using f6 by (metis append.right_neutral atLeastLessThan_iff le_refl length_greater_0_conv less_add_same_cancel1 list.discI set_upt)
    then have "a \<in> set (concat fe)" using len by auto
    then have "a \<notin> set retired" using new by blast
    then have "?l \<le> a" by (subst (asm) ret) simp
    then show ?thesis using rob_push_upt [OF _ a(3,4)] f6 rob by metis
  qed
  have le: "?l \<le> a + length (fe ! 6)" using a(4) by simp
  have "retired @ [?l ..< a + length (fe ! 6)] = [0 ..< a + length (fe ! 6)]"
    using ret upt_add_eq_append [of 0 ?l "a + length (fe ! 6) - ?l"] le by simp
  moreover have "b @ concat (rev (take 6 fe)) = [a + length m ..< n]"
    using upt_prefix [of m "b @ concat (rev (take 6 fe))" a n] six ab a(1) by simp
  moreover have "fe' ! 6 = b" using assms(3,4) nth_take [of 6 7 fe'] len by (simp add: nth_append)
  moreover have "a + length (fe ! 6) \<le> n" using arg_cong [OF six, of length] a(1) by simp
  ultimately show ?thesis using assms(3,4,5) new le ab unfolding order_fe_def push
    by (auto intro!: exI [of _ "a + length m"])
qed

lemma order_fe_mono:
  assumes "order_fe retired n fe rob" and "length fe' = 11" and "concat (rev (take 7 fe')) = concat (rev (take 7 fe))"
    and "length (fe ! 6) \<le> length (fe' ! 6)" and "set (concat fe') \<subseteq> set (concat fe)"
  shows "order_fe retired n fe' rob"
proof -
  from assms(1) obtain a where "a \<le> n" "concat (rev (take 7 fe)) = [a ..< n]" "a \<le> length retired + length rob"
    "length retired + length rob \<le> a + length (fe ! 6)" and rest: "retired @ rob = [0 ..< length retired + length rob]"
    "\<forall>x \<in> set (concat fe). x \<notin> set retired" unfolding order_fe_def by blast
  then have "\<exists>a \<le> n. concat (rev (take 7 fe')) = [a ..< n] \<and> a \<le> length retired + length rob \<and>
         length retired + length rob \<le> a + length (fe' ! 6)"
    using assms(3,4) by (intro exI [of _ a]) simp
  with rest assms(2,5) show ?thesis unfolding order_fe_def by blast
qed

lemma advance_stage_order:
  assumes s: "advance_stage (Suc i) (fe, rob) = (fe', rob')" and i: "i < 10"
    and ok: "frontend_ok fe" "rob_ok rob" and o: "order_fe retired n fe rob"
  shows "order_fe retired n fe' rob'"
proof (cases "Suc i = 7 \<and> ROB_CAPACITY < length rob + length (filter (\<lambda>seq. seq \<notin> set rob) (fe ! i))")
  case True
  with s have "fe' = fe" "rob' = rob" by (auto simp: advance_stage_def)
  with o show ?thesis by simp
next
  case False
  obtain a b where ab: "frontend_advance_simple (fe ! Suc i) (fe ! i) DISPATCH_WIDTH = (a, b)" by fastforce
  with False s have out: "fe' = fe[Suc i := a, i := b]"
    "rob' = (if Suc i = 7 then rob_push (fe ! i) rob else rob)"
    unfolding advance_stage_def prod.case Let_def diff_Suc_1 by (simp_all only: False if_False ab prod.case) simp_all
  have len: "length fe = 11" "length fe' = 11" using o by (simp_all add: order_fe_def out)
  obtain k where k: "a = fe ! Suc i @ take k (fe ! i)" "b = drop k (fe ! i)"
    using ab by (simp add: frontend_advance_simple_closed) blast
  have same: "set (concat fe') = set (concat fe)"
    using advance_stage_spec [OF s i ok] by (intro set_concat_rev) simp
  consider (post) "7 \<le> i" | (rob) "i = 6" | (pre) "i \<le> 5" by linarith
  then show ?thesis
  proof cases
    case post
    then have "take 7 fe' = take 7 fe" "fe' ! 6 = fe ! 6" "rob' = rob" by (simp_all add: out)
    with same len show ?thesis by (simp only: order_fe_mono [OF o])
  next
    case rob
    have "take 7 fe' = take 6 fe @ [b]"
      using take_Suc_conv_app_nth [of 6 fe'] len by (simp add: out rob)
    then show ?thesis using rob_push_order [OF o _ len(2) _ same, of "take k (fe ! 6)" b] by (simp add: k rob out(2))
  next
    case pre
    then have "take 7 fe' = (take 7 fe)[Suc i := a, i := b]" by (simp add: out take_update_swap)
    then have "concat (rev (take 7 fe')) = concat (rev (take 7 fe))"
      using concat_rev_move [of i "take 7 fe" a b] pre len by (simp add: k)
    moreover have "length (fe ! 6) \<le> length (fe' ! 6)" using pre len by (cases "i = 5") (simp_all add: out k)
    moreover have "rob' = rob" using pre by (simp add: out)
    ultimately show ?thesis using same len by (simp only: order_fe_mono [OF o])
  qed
qed

lemma fold_advance_stage_order:
  assumes "fold advance_stage is (fe, rob) = (fe', rob')" and "\<forall>i \<in> set is. 1 \<le> i \<and> i \<le> 10"
    and "frontend_ok fe" "rob_ok rob" "order_fe retired n fe rob"
  shows "order_fe retired n fe' rob'"
  using assms
proof (induction "is" arbitrary: fe rob)
  case (Cons i "is")
  obtain fe1 rob1 where s: "advance_stage i (fe, rob) = (fe1, rob1)" by fastforce
  obtain k where k: "i = Suc k" "k < 10" using Cons.prems(2) by (cases i) auto
  note one = advance_stage_spec [OF s [unfolded k(1)] k(2) Cons.prems(3,4)]
  note ord = advance_stage_order [OF s [unfolded k(1)] k(2) Cons.prems(3-5)]
  have "fold advance_stage is (fe1, rob1) = (fe', rob')" using Cons.prems(1) s by simp
  from Cons.IH [OF this] Cons.prems(2) one ord show ?case by simp
qed simp

lemma advance_frontend_order:
  assumes "advance_frontend p rob = (p', rob')" and "frontend_ok (sq_frontend p)" "rob_ok rob"
    and "order_fe retired n (sq_frontend p) rob"
  shows "order_fe retired n (sq_frontend p') rob'"
proof -
  let ?is = "rev [1 ..< length FRONTEND_STAGE_NAMES]"
  obtain fe r where f: "fold advance_stage ?is (sq_frontend p, rob) = (fe, r)" by fastforce
  have out: "p' = p\<lparr>sq_frontend := fe\<rparr>" "rob' = r" using assms(1) unfolding advance_frontend_def f by auto
  have ix: "\<forall>i \<in> set ?is. 1 \<le> i \<and> i \<le> 10" by (auto simp: FRONTEND_STAGE_NAMES_def)
  show ?thesis using fold_advance_stage_order [OF f ix assms(2-4)] by (simp add: out)
qed

lemma dispatch_fold_stay_set:
  "set (ds_stay (fold (dispatch_one cycle) xs st)) \<subseteq> set (ds_stay st) \<union> set xs"
proof (induction xs arbitrary: st)
  case (Cons x xs)
  have "set (ds_stay (dispatch_one cycle x st)) \<subseteq> insert x (set (ds_stay st))"
    by (cases rule: dispatch_one_cases [of cycle x st]) auto
  with Cons.IH [of "dispatch_one cycle x st"] show ?case by auto
qed simp

lemma dispatch_fold_frontend [simp]:
  "sq_frontend (ds_pipe (fold (dispatch_one cycle) xs st)) = sq_frontend (ds_pipe st)"
proof (induction xs arbitrary: st)
  case (Cons x xs)
  have "sq_frontend (ds_pipe (dispatch_one cycle x st)) = sq_frontend (ds_pipe st)"
    by (cases rule: dispatch_one_cases [of cycle x st]) (simp_all add: stage_view_def)
  with Cons.IH show ?case by simp
qed simp

lemma dispatch_order:
  assumes "dispatch_to_iq_and_bypass cycle p iq uops = (p', iq', uops')" and "order_fe retired n (sq_frontend p) rob"
  shows "order_fe retired n (sq_frontend p') rob" and "set (concat (sq_frontend p')) \<subseteq> set (concat (sq_frontend p))"
    and "frontend_ok (sq_frontend p) \<Longrightarrow> frontend_ok (sq_frontend p')"
proof -
  let ?fe = "sq_frontend p"
  let ?st = "\<lparr>ds_pipe = p\<lparr>sq_frontend := ?fe[10 := []]\<rparr>, ds_iq = iq, ds_uops = uops, ds_stay = [],
                  ds_ports = replicate PHYS_IQ_COUNT 0\<rparr>"
  define st where "st = fold (dispatch_one cycle) (?fe ! 10) ?st"
  have len: "length ?fe = 11" using assms(2) by (simp add: order_fe_def)
  have "sq_frontend (ds_pipe st) = ?fe[10 := []]" unfolding st_def by (simp add: dispatch_fold_frontend)
  then have fe': "sq_frontend p' = ?fe[10 := ds_stay st]"
    using assms(1) unfolding dispatch_to_iq_and_bypass_def Let_def st_def [symmetric] by auto
  have "set (ds_stay st) \<subseteq> set (?fe ! 10)" unfolding st_def using dispatch_fold_stay_set [of cycle "?fe ! 10" ?st] by simp
  moreover have "?fe ! 10 \<in> set ?fe" using len by simp
  then have "set (?fe ! 10) \<subseteq> set (concat ?fe)" unfolding set_concat by blast
  moreover have "set (concat (sq_frontend p')) \<subseteq> set (concat ?fe) \<union> set (ds_stay st)"
    unfolding fe' using set_update_subset_insert [of ?fe 10 "ds_stay st"] by auto
  ultimately show sub: "set (concat (sq_frontend p')) \<subseteq> set (concat ?fe)" by blast
  show "order_fe retired n (sq_frontend p') rob" by (rule order_fe_mono [OF assms(2) _ _ _ sub]) (simp_all add: fe' len)
  have "length (ds_stay st) \<le> length (?fe ! 10)" unfolding st_def using dispatch_fold_stay [of cycle "?fe ! 10" ?st] by simp
  moreover have "?fe ! 10 \<in> set ?fe" using len by simp
  ultimately show "frontend_ok (sq_frontend p')" if "frontend_ok ?fe"
    using that set_update_subset_insert [of ?fe 10 "ds_stay st"] unfolding frontend_ok_def fe'
    by (metis insertE le_trans length_list_update subsetD)
qed

text \<open>Completion tags: only a pass through W2 sets one.\<close>

definition done_sub :: "CycleUop list \<Rightarrow> CycleUop list \<Rightarrow> usize set \<Rightarrow> bool" where
  "done_sub us' us W = (length us' = length us \<and>
     (\<forall>x < length us. uo_done_cycle (us' ! x) \<noteq> None \<longrightarrow> uo_done_cycle (us ! x) \<noteq> None \<or> x \<in> W))"

lemma done_sub_refl [simp]: "done_sub us us W" by (simp add: done_sub_def)

lemma done_sub_trans: "done_sub us2 us1 V \<Longrightarrow> done_sub us1 us W \<Longrightarrow> done_sub us2 us (V \<union> W)"
  by (auto simp: done_sub_def)

lemma done_sub_empty: "done_sub us2 us1 {} \<Longrightarrow> done_sub us1 us {} \<Longrightarrow> done_sub us2 us {}"
  using done_sub_trans by fastforce

lemma done_sub_update:
  "uo_done_cycle u = None \<or> uo_done_cycle u = uo_done_cycle (us ! i) \<Longrightarrow> done_sub (us[i := u]) us {}"
  by (cases "i < length us") (auto simp: done_sub_def nth_list_update)

lemma done_tag_queue:
  assumes "\<And>u. uo_done_cycle (f u) = uo_done_cycle u" shows "done_sub (tag_queue f q us) us {}"
proof (induction q arbitrary: us)
  case (Cons x q)
  have "tag_queue f (x # q) us = tag_queue f q (us[x := f (us ! x)])" by (simp add: tag_queue_def)
  then show ?case using done_sub_empty [OF Cons.IH] done_sub_update assms by metis
qed (simp add: tag_queue_def)

lemma done_tag_w2: "done_sub (tag_queue f q us) us (set q)"
proof (induction q arbitrary: us)
  case (Cons x q)
  have "done_sub (us[x := f (us ! x)]) us {x}"
    unfolding done_sub_def by (metis insertI1 length_list_update nth_list_update_neq)
  from done_sub_trans [OF Cons.IH this] show ?case by (simp add: tag_queue_def Un_commute)
qed (simp add: tag_queue_def)

lemma done_tag_stage_cycles: "done_sub (tag_stage_cycles cycle p us) us (set (sq_w2 p))"
proof -
  note q = done_tag_queue [of "tag_w1 cycle"] done_tag_queue [of "tag_e4 cycle"] done_tag_queue [of "tag_e1 cycle"]
  have "done_sub (tag_queue (tag_w1 cycle) (sq_w1 p) (tag_queue (tag_e4 cycle) (sq_e4 p)
           (tag_queue (tag_e1 cycle) (sq_e1 p) us))) us {}"
    by (intro done_sub_empty [OF q(1)] done_sub_empty [OF q(2)] q(3)) (simp_all add: tag_w1_def tag_e4_def tag_e1_def)
  from done_sub_trans [OF done_tag_w2 this] show ?thesis by (simp add: tag_stage_cycles_def)
qed

lemma done_step: "uo_done_cycle u = None \<or> uo_done_cycle u = uo_done_cycle (us ! i) \<Longrightarrow>
    done_sub us' (us[i := u]) {} \<Longrightarrow> done_sub us' us {}"
  by (rule done_sub_empty [OF _ done_sub_update])

lemma done_e4_loop: "e4_loop cycle options e4 stay p us = (s, p', us') \<Longrightarrow> done_sub us' us {}"
  by (induction cycle options e4 stay p us rule: e4_loop.induct)
     (auto simp: Let_def inject_miss_def split: if_splits elim!: done_step [rotated])

lemma done_advance_execute: "done_sub (snd (advance_execute cycle p us options)) us {}"
proof -
  have "done_sub (snd (snd (e4_loop cycle options e4 stay q us))) us {}" for e4 stay q
    by (rule done_e4_loop) (simp add: prod_eq_iff)
  then show ?thesis by (simp add: advance_execute_def Let_def case_prod_beta)
qed

lemma done_advance_liq: "done_sub (snd (advance_liq cycle p us rob)) us {}"
  by (cases rule: advance_liq_cases [of cycle p us rob]) (auto simp: Let_def intro: done_sub_update)

lemma done_annotate: "done_sub (annotate_qtag_sources seq tags rt ru us) us {}"
proof -
  have "done_sub (fold (\<lambda>i us. us[seq := (us ! seq)\<lparr>uo_src_qtags := g i us\<rparr>]) is us) us {}" for g "is" us
  proof (induction "is" arbitrary: us)
    case (Cons i "is")
    show ?case using Cons.IH [of "us[seq := (us ! seq)\<lparr>uo_src_qtags := g i us\<rparr>]"] by (simp add: done_step [rotated])
  qed simp
  then show ?thesis unfolding annotate_qtag_sources_def .
qed

lemma done_dispatch_one: "done_sub (ds_uops (dispatch_one cycle seq st)) (ds_uops st) {}"
proof -
  have "done_sub (annotate_qtag_sources seq tags rt ru (us[seq := (us ! seq)\<lparr>uo_phys_iq := c, uo_dst_qtag := b\<rparr>])) us {}"
    for tags rt ru us b c by (rule done_sub_empty [OF done_annotate done_sub_update]) simp
  then show ?thesis
    by (simp add: dispatch_one_def dispatch_bypass_def dispatch_enqueue_def Let_def done_sub_update split: option.split)
qed

lemma done_dispatch: "done_sub (snd (snd (dispatch_to_iq_and_bypass cycle p iq us))) us {}"
proof -
  have "done_sub (ds_uops (fold (dispatch_one cycle) xs st)) (ds_uops st) {}" for xs st
    by (induction xs arbitrary: st) (auto intro: done_sub_empty done_dispatch_one)
  from this [of "sq_frontend p ! 10" "\<lparr>ds_pipe = p\<lparr>sq_frontend := (sq_frontend p)[10 := []]\<rparr>, ds_iq = iq, ds_uops = us,
                  ds_stay = [], ds_ports = replicate PHYS_IQ_COUNT 0\<rparr>"]
  show ?thesis by (simp add: dispatch_to_iq_and_bypass_def Let_def)
qed

definition order_inv :: "engine_state \<Rightarrow> bool" where
  "order_inv es =
     (order_fe (es_retired_seqs es) (es_next_fetch_seq es) (sq_frontend (es_pipe es)) (es_rob es) \<and>
      (\<forall>x < length (es_uops es). uo_done_cycle (es_uops es ! x) \<noteq> None \<longrightarrow>
         x < es_next_fetch_seq es \<and> x \<notin> set (concat (sq_frontend (es_pipe es)))))"

lemma init_order_inv: "\<forall>u \<in> set uops. uo_done_cycle u = None \<Longrightarrow> order_inv (init_engine_state uops)"
  by (auto simp: order_inv_def order_fe_def init_engine_state_def default_stage_queues_def)

lemma fetch_order:
  assumes o: "order_fe retired n fe rob" and "n \<le> n'" and "fe' = fe[0 := fe ! 0 @ [n ..< n']]"
    and "set retired \<subseteq> {..<n}"
  shows "order_fe retired n' fe' rob" and "set (concat fe') = set (concat fe) \<union> {n ..< n'}"
proof -
  from o obtain a where a: "a \<le> n" "concat (rev (take 7 fe)) = [a ..< n]" "a \<le> length retired + length rob"
    "length retired + length rob \<le> a + length (fe ! 6)"
    and rest: "length fe = 11" "retired @ rob = [0 ..< length retired + length rob]" "\<forall>x \<in> set (concat fe). x \<notin> set retired"
    unfolding order_fe_def by blast
  obtain f0 fs where fe: "fe = f0 # fs" using rest(1) by (cases fe) auto
  have "take 7 fe' = (f0 @ [n ..< n']) # take 6 fs" "take 7 fe = f0 # take 6 fs" "fe' ! 6 = fe ! 6"
    using assms(3) by (simp_all add: fe)
  then have "concat (rev (take 7 fe')) = [a ..< n']"
    using a(1,2) assms(2) upt_add_eq_append [of a n "n' - n"] by simp
  moreover show new: "set (concat fe') = set (concat fe) \<union> {n ..< n'}" using assms(3) by (auto simp: fe)
  moreover have "length fe' = 11" using rest(1) assms(3) by simp
  ultimately show "order_fe retired n' fe' rob"
    using a rest(2,3) assms(2,4) \<open>fe' ! 6 = fe ! 6\<close> unfolding order_fe_def new
    by (intro conjI exI [of _ a]) auto
qed

lemma order_fe_bound:
  assumes "order_fe retired n fe rob"
  shows "length retired + length rob \<le> n" and "set retired \<subseteq> {..<n}" and "retired = [0 ..< length retired]"
proof -
  from assms obtain a where a: "a \<le> n" "concat (rev (take 7 fe)) = [a ..< n]"
    "length retired + length rob \<le> a + length (fe ! 6)"
    and rest: "length fe = 11" "retired @ rob = [0 ..< length retired + length rob]"
    unfolding order_fe_def by blast
  have "length (fe ! 6) \<le> n - a" using arg_cong [OF a(2), of length] take7_split [OF rest(1)] by simp
  with a(1,3) show le: "length retired + length rob \<le> n" by linarith
  from upt_prefix [OF rest(2)] show ret: "retired = [0 ..< length retired]" by simp
  have "set retired = {0 ..< length retired}" by (subst ret) simp
  with le show "set retired \<subseteq> {..<n}" by auto
qed

lemma prepare_order:
  assumes inv: "engine_inv uops cycle es" and o: "order_inv es" and quiet: "sq_pending_flush (es_pipe es) = None"
    and es': "es' = cycle_prepare cycle env es"
  shows "order_inv es'"
proof -
  have nr: "sq_frontend_redirect (es_pipe es) = None"
    using inv quiet by (simp add: engine_inv_def redirect_inv_def split: option.splits)
  have len: "length (es_uops es) = length uops" using inv by (metis engine_inv_def length_map)
  have "\<nexists>f. flush_applies cycle (es_pipe es) f" using quiet by (simp add: flush_applies_def)
  note f = apply_pending_flush_idle [OF this, of "es_iq es" "es_rob es" "es_uops es"]
  obtain p2 n where g: "fetch_packet (es_pipe es) (es_next_fetch_seq es) (es_uops es) = (p2, n)" by fastforce
  have g': "fill_fetch cycle (es_pipe es) (es_next_fetch_seq es) (es_uops es) = (p2, n)"
    using g nr by (simp add: fill_fetch_def)
  define u1 where "u1 = tag_stage_cycles cycle p2 (es_uops es)"
  define p5 where "p5 = publish_call_header_fault_state cycle (publish_dynamic_boundary_target_fault_state cycle
      (publish_bru_correction_state cycle p2 u1) u1) u1"
  have out: "es_pipe es' = advance_scb cycle p5 u1" "es_rob es' = es_rob es" "es_uops es' = u1"
    "es_next_fetch_seq es' = n" "es_retired_seqs es' = es_retired_seqs es"
    unfolding es' cycle_prepare_def Let_def prod.case f g' u1_def p5_def by simp_all
  have "sq_frontend (advance_scb cycle p5 u1) = sq_frontend p5" by (simp add: advance_scb_def case_prod_beta)
  moreover have "sq_frontend p5 = sq_frontend p2" using publish_pipe_view(1) [of cycle p2 u1] by (simp add: p5_def pipe_view_def)
  ultimately have fe: "sq_frontend (es_pipe es') = sq_frontend p2" by (simp add: out)
  have pi: "pipe_inv (es_next_fetch_seq es) (es_pipe es) (es_iq es) (es_rob es)" and n: "es_next_fetch_seq es \<le> length (es_uops es)"
    using inv len by (simp_all add: engine_inv_def)
  have ok: "frontend_ok (sq_frontend (es_pipe es))" using pi by (simp add: pipe_inv_def dispatch_pre_def)
  note fp = fetch_packet_spec [OF g n ok]
  have of: "order_fe (es_retired_seqs es) (es_next_fetch_seq es) (sq_frontend (es_pipe es)) (es_rob es)"
    using o by (simp add: order_inv_def)
  have ret: "set (es_retired_seqs es) \<subseteq> {..<es_next_fetch_seq es}" using order_fe_bound(2) [OF of] .
  note fo = fetch_order [OF of fp(1,4) ret]
  have w2: "sq_w2 p2 = sq_w2 (es_pipe es)" using stage_view_fields [OF fp(6)] by simp
  have "x < es_next_fetch_seq es \<and> x \<notin> set (concat (sq_frontend (es_pipe es)))" if "x \<in> set (sq_w2 (es_pipe es))" for x
  proof -
    have "x \<in># resident (es_pipe es) (es_iq es)" using that by (simp add: resident_def backend_seqs_def)
    then have lt: "x < es_next_fetch_seq es" using pi by (simp add: pipe_inv_def)
    have "count (resident (es_pipe es) (es_iq es)) x \<le> 1" using pi by (simp add: pipe_inv_def)
    then have "count (mset (concat (sq_frontend (es_pipe es)))) x + count (mset (sq_w2 (es_pipe es))) x \<le> 1"
      unfolding resident_def backend_seqs_def count_union by linarith
    moreover have "0 < count (mset (sq_w2 (es_pipe es))) x" using that by (simp add: count_greater_zero_iff)
    ultimately have "count (mset (concat (sq_frontend (es_pipe es)))) x = 0" by linarith
    then have "x \<notin> set (concat (sq_frontend (es_pipe es)))" by (simp only: count_mset_0_iff not_False_eq_True)
    with lt show ?thesis by blast
  qed
  with done_tag_stage_cycles [of cycle p2 "es_uops es"] o
  have "\<forall>x < length u1. uo_done_cycle (u1 ! x) \<noteq> None \<longrightarrow>
      x < es_next_fetch_seq es \<and> x \<notin> set (concat (sq_frontend (es_pipe es)))"
    unfolding done_sub_def order_inv_def u1_def w2 by metis
  with fp(1) fo show ?thesis unfolding order_inv_def fe out(2-5) by fastforce
qed

lemma retire_order:
  assumes o: "order_inv es" and k: "es_rob es' = drop k (es_rob es)" "es_retired_seqs es' = es_retired_seqs es @ take k (es_rob es)"
    and dn: "\<forall>s \<in> set (take k (es_rob es)). uo_done_cycle (es_uops es ! s) \<noteq> None"
    and same: "es_uops es' = es_uops es" "es_next_fetch_seq es' = es_next_fetch_seq es"
      "sq_frontend (es_pipe es') = sq_frontend (es_pipe es)"
    and n: "es_next_fetch_seq es \<le> length (es_uops es)"
  shows "order_inv es'"
proof -
  let ?fe = "sq_frontend (es_pipe es)"
  have of: "order_fe (es_retired_seqs es) (es_next_fetch_seq es) ?fe (es_rob es)" using o by (simp add: order_inv_def)
  note b = order_fe_bound [OF of]
  have "x \<notin> set (concat ?fe)" if "x \<in> set (take k (es_rob es))" for x
  proof -
    have "x \<in> set (es_retired_seqs es @ es_rob es)" using that by (auto dest: in_set_takeD)
    also have "es_retired_seqs es @ es_rob es = [0 ..< length (es_retired_seqs es) + length (es_rob es)]"
      using of unfolding order_fe_def by blast
    finally have "x < length (es_uops es)" using b(1) n by simp
    with that dn o show ?thesis unfolding order_inv_def by blast
  qed
  moreover have "(es_retired_seqs es @ take k (es_rob es)) @ drop k (es_rob es) = es_retired_seqs es @ es_rob es"
    "length (es_retired_seqs es @ take k (es_rob es)) + length (drop k (es_rob es)) =
       length (es_retired_seqs es) + length (es_rob es)" by simp_all
  ultimately have "order_fe (es_retired_seqs es') (es_next_fetch_seq es) ?fe (es_rob es')"
    using of unfolding order_fe_def k by (simp only: set_append) blast
  with o show ?thesis by (simp add: order_inv_def same)
qed

lemma advance_order:
  assumes inv: "pipe_inv n (es_pipe es) (es_iq es) (es_rob es)" and adv: "es' = cycle_advance cycle env es"
    and o: "order_inv es"
  shows "order_inv es'"
proof -
  obtain p1 u1 p3 u2 p4 iq1 adm iq2 i1 p1q p6 iq3 p1q' p8 iq4 u3 p9 rob1 where
    s1: "advance_execute cycle (es_pipe es) (es_uops es) (re_options env) = (p1, u1)"
    and s3: "advance_liq cycle (advance_l1d cycle p1) u1 (es_rob es) = (p3, u2)"
    and s4: "advance_i1_to_i2 p3 (es_iq es) = (p4, iq1)"
    and s5: "arbitrate_i1 cycle (sq_p1 p4) iq1 u2 (es_rob es) = (adm, iq2)"
    and s6: "advance_p1_to_i1 (sq_i1 p4) adm [] = (i1, p1q)"
    and p6: "p6 = advance_i2 cycle (p4\<lparr>sq_i1 := i1, sq_p1 := p1q\<rparr>) u2"
    and s8: "pick_from_iq cycle (sq_lsid_issue_ptr p6) iq2 u2 (sq_p1 p6) (es_rob es) = (iq3, p1q')"
    and s9: "dispatch_to_iq_and_bypass cycle (p6\<lparr>sq_p1 := p1q'\<rparr>) iq3 u2 = (p8, iq4, u3)"
    and s10: "advance_frontend p8 (es_rob es) = (p9, rob1)"
    and es': "es' = es\<lparr>es_pipe := p9, es_iq := iq4, es_rob := rob1, es_uops := u3\<rparr>"
    by (rule cycle_advance_parts [OF adv])
  let ?p = "es_pipe es" and ?p7 = "p6\<lparr>sq_p1 := p1q'\<rparr>"
  have rob: "rob_ok (es_rob es)" using inv by (simp add: pipe_inv_def)
  note f = front_view_fields [OF execute_half(2) [OF s1 s3]]
  have "issue_ok p3 (es_iq es)" using inv by (simp add: issue_ok_def pipe_inv_def dispatch_pre_def f)
  from issue_half(3) [OF s4 s5 s6 p6 s8 this] have fe: "sq_frontend ?p7 = sq_frontend ?p" by (simp add: f)
  have "order_fe (es_retired_seqs es) (es_next_fetch_seq es) (sq_frontend ?p7) (es_rob es)"
    using o by (simp add: order_inv_def fe)
  note d = dispatch_order [OF s9 this]
  have ok: "frontend_ok (sq_frontend p8)"
    using inv by (intro d(3)) (simp only: pipe_inv_def dispatch_pre_def fe)
  note a = advance_frontend_order [OF s10 ok rob d(1)]
  have same: "set (concat (sq_frontend p9)) = set (concat (sq_frontend p8))"
    by (rule set_concat_rev [OF advance_frontend_spec(1) [OF s10 ok rob]])
  have "done_sub u3 (es_uops es) {}"
    using done_dispatch [of cycle ?p7 iq3 u2] done_advance_liq [of cycle "advance_l1d cycle p1" u1 "es_rob es"]
      done_advance_execute [of cycle ?p "es_uops es" "re_options env"] by (simp add: s1 s3 s9) (metis done_sub_empty)
  with o have "\<forall>x < length u3. uo_done_cycle (u3 ! x) \<noteq> None \<longrightarrow> x < es_next_fetch_seq es \<and> x \<notin> set (concat (sq_frontend ?p))"
    unfolding done_sub_def order_inv_def by (metis empty_iff)
  with a same d(2) fe show ?thesis unfolding order_inv_def es' by auto
qed

lemma retire_frontend:
  assumes "cycle_retire cycle env es = (es', t)" shows "sq_frontend (es_pipe es') = sq_frontend (es_pipe es)"
proof -
  let ?st = "\<lparr>rs_rob = es_rob es, rs_committed = es_committed es, rs_retired_seqs = es_retired_seqs es,
        rs_pipe = es_pipe es, rs_events = es_events es, rs_trap = None\<rparr>"
  let ?rs = "retire_loop COMMIT_WIDTH cycle (re_lane env) (es_uops es) ?st"
  let ?z = "\<lambda>p. p\<lparr>sq_pending_trap := None, sq_ready_table_t := {}, sq_ready_table_u := {}, sq_stq := [], sq_scb := []\<rparr>"
  have "es_pipe es' = rs_pipe ?rs" using assms unfolding cycle_retire_def retire_ready_def Let_def by auto
  moreover have "stage_view (?z (rs_pipe ?rs)) = stage_view (?z (rs_pipe ?st))" by (rule retire_loop_pipe)
  ultimately show ?thesis by (simp add: stage_view_def)
qed

lemma step_order:
  assumes inv: "engine_inv uops cycle es" and len: "length uops \<le> u64_max" and step: "cycle_step cycle env es = (es', r)"
    and o: "order_inv es" and quiet: "sq_pending_flush (es_pipe es) = None"
  shows "order_inv es'"
proof -
  obtain es1 t where ret: "cycle_retire cycle env (cycle_prepare cycle env es) = (es1, t)"
    and out: "(case t of Some c \<Rightarrow> es' = es1 | None \<Rightarrow>
        (let es2 = es1\<lparr>es_pipe := schedule_frontend_redirect_recovery cycle (es_pipe es1) (es_uops es1)\<rparr>
         in es' = es2 \<and> r = Some (re_func_exit_reason env) \<or> es' = cycle_advance cycle env es2))"
    by (rule cycle_step_parts [OF step])
  let ?es0 = "cycle_prepare cycle env es"
  note pr = prepare_inv [OF inv refl, of env]
  have "commits_ok uops (es_committed ?es0) (es_retired_seqs ?es0)"
    using inv by (simp add: pr(6,7) engine_inv_def)
  note rt = retire_inv [OF ret pr(1,2,3) this]
  define es2 where "es2 = es1\<lparr>es_pipe := schedule_frontend_redirect_recovery cycle (es_pipe es1) (es_uops es1)\<rparr>"
  have us: "length (es_uops ?es0) = length uops" using pr(3) by (metis length_map)
  obtain k where k: "es_rob es1 = drop k (es_rob ?es0)" "es_retired_seqs es1 = es_retired_seqs ?es0 @ take k (es_rob ?es0)"
    "\<forall>s \<in> set (take k (es_rob ?es0)). uo_done_cycle (es_uops ?es0 ! s) \<noteq> None" using rt(8) by blast
  have o1: "order_inv es1"
    using retire_order [OF prepare_order [OF inv o quiet refl] k rt(6,7) retire_frontend [OF ret]] pr(2) us by simp
  have none: "sq_frontend_redirect (es_pipe es1) = None" "sq_pending_flush (es_pipe es1) = None"
    by (simp_all add: rt(4,5) pr(4,5))
  have view: "pipe_view (es_pipe es2) = pipe_view (es_pipe es1)"
    using schedule_inv [OF refl none, of "es_uops es1" cycle] len us by (simp add: es2_def rt(6))
  then have o2: "order_inv es2" using o1 by (simp add: order_inv_def es2_def pipe_view_def)
  have "pipe_inv (es_next_fetch_seq es1) (es_pipe es2) (es_iq es2) (es_rob es2)"
    using rt(1) pipe_inv_view [OF view] by (simp add: es2_def rt(7))
  from advance_order [OF this refl o2] have "order_inv (cycle_advance cycle env es2)" .
  then show ?thesis using out o1 o2 by (auto simp: es2_def Let_def split: option.splits)
qed

text \<open>A run of one cycle more is the shorter run and one step, unless the shorter run has ended.\<close>

lemma run_loop_Suc:
  "run_loop (Suc k) c env es =
     (case run_loop k c env es of
        (es', Some r) \<Rightarrow> (es', Some r)
      | (es', None) \<Rightarrow> cycle_step (c + k) env es')"
proof (induction k arbitrary: c es)
  case 0
  show ?case by (simp split: prod.split option.split)
next
  case (Suc k)
  obtain es1 r1 where s: "cycle_step c env es = (es1, r1)" by fastforce
  show ?case
  proof (cases r1)
    case None
    then show ?thesis using Suc.IH [of "Suc c" es1] s
      by (subst run_loop.simps) (simp del: run_loop.simps(2) add: run_loop.simps(2) [of k c])
  next
    case (Some x)
    then show ?thesis using s by simp
  qed
qed

lemma run_inv:
  assumes "length uops \<le> u64_max" and "run_loop k 0 env (init_engine_state uops) = (es, r)"
  shows "\<exists>c \<le> k. engine_inv uops c es \<and> (r = None \<longrightarrow> c = k)"
  using run_loop_engine_at [OF engine_start assms(2)] engine_at_inv [OF _ assms(1)] by auto

lemma run_order:
  assumes "length uops \<le> u64_max" and "\<forall>u \<in> set uops. uo_done_cycle u = None"
    and "\<forall>i < k. sq_pending_flush (es_pipe (fst (run_loop i 0 env (init_engine_state uops)))) = None"
  shows "order_inv (fst (run_loop k 0 env (init_engine_state uops)))"
  using assms(3)
proof (induction k)
  case 0
  show ?case using init_order_inv [OF assms(2)] by simp
next
  case (Suc k)
  obtain es r where run: "run_loop k 0 env (init_engine_state uops) = (es, r)" by fastforce
  have o: "order_inv es" using Suc run by simp
  have quiet: "sq_pending_flush (es_pipe es) = None" using Suc.prems run by (metis fst_conv lessI)
  show ?case
  proof (cases r)
    case None
    obtain c where "engine_inv uops c es" "r = None \<longrightarrow> c = k" using run_inv [OF assms(1) run] by blast
    with None have inv: "engine_inv uops k es" by simp
    obtain es' r' where s: "cycle_step k env es = (es', r')" by fastforce
    have "order_inv es'" by (rule step_order [OF inv assms(1) s o quiet])
    then show ?thesis by (simp only: run_loop_Suc run None s prod.case option.case add_0 fst_conv)
  next
    case (Some x)
    then show ?thesis using o by (simp only: run_loop_Suc run prod.case option.case fst_conv)
  qed
qed

lemma run_commits_prefix:
  assumes "length uops \<le> u64_max" and "order_inv (fst (run_loop k 0 env (init_engine_state uops)))"
    and "run_loop k 0 env (init_engine_state uops) = (es, r)"
  shows "es_retired_seqs es = [0 ..< length (es_committed es)]" and "length (es_committed es) \<le> length uops"
    and "\<And>i. i < length (es_committed es) \<Longrightarrow> \<exists>cycle t. es_committed es ! i = retire_commit cycle t (uo_commit (uops ! i))"
proof -
  from run_inv [OF assms(1,3)] obtain c where inv: "engine_inv uops c es" by blast
  then have ok: "commits_ok uops (es_committed es) (es_retired_seqs es)" by (simp add: engine_inv_def)
  then have len: "length (es_retired_seqs es) = length (es_committed es)"
    unfolding commits_ok_def by (rule list_all2_lengthD [THEN sym])
  have "order_fe (es_retired_seqs es) (es_next_fetch_seq es) (sq_frontend (es_pipe es)) (es_rob es)"
    using assms(2,3) by (simp add: order_inv_def)
  note b = order_fe_bound [OF this]
  show ret: "es_retired_seqs es = [0 ..< length (es_committed es)]" using b(3) len by simp
  show "length (es_committed es) \<le> length uops" using b(1) len inv by (simp add: engine_inv_def)
  fix i assume i: "i < length (es_committed es)"
  with list_all2_nthD [OF ok [unfolded commits_ok_def]] ret
  show "\<exists>cycle t. es_committed es ! i = retire_commit cycle t (uo_commit (uops ! i))" by fastforce
qed

text \<open>A trace without boundary owners never schedules a redirect.\<close>

definition straight_line :: "CycleUop list \<Rightarrow> bool" where
  "straight_line uops = list_all (\<lambda>u. \<not> is_boundary_redirect_owner (uo_decoded u)) uops"

lemma straight_line_static:
  assumes "map uop_static us = map uop_static vs" and "straight_line vs" shows "straight_line us"
proof -
  have len: "length us = length vs" using assms(1) by (rule map_eq_imp_length_eq)
  have "uo_decoded (us ! i) = uo_decoded (vs ! i)" if "i < length vs" for i
    by (rule uop_static_sel(1) [OF map_static_nth [OF assms(1) that]])
  then show ?thesis using assms(2) by (simp add: straight_line_def list_all_length len)
qed

lemma straight_line_schedule:
  assumes "straight_line us" shows "schedule_frontend_redirect_recovery cycle p us = p"
proof -
  have "boundary_resolve_cycle (us ! i) = None" if "i < length us" for i
    using assms that by (simp add: straight_line_def list_all_length boundary_resolve_cycle_def)
  then have "resolved_boundary_seq cycle us = None" by (auto simp: resolved_boundary_seq_def find_None_iff)
  then show ?thesis by (simp add: schedule_frontend_redirect_recovery_def resolved_frontend_redirect_def)
qed

lemma straight_line_step:
  assumes inv: "engine_inv uops cycle es" and len: "length uops \<le> u64_max" and sl: "straight_line uops"
    and step: "cycle_step cycle env es = (es', r)"
  shows "sq_pending_flush (es_pipe es') = None"
proof -
  obtain es1 t where ret: "cycle_retire cycle env (cycle_prepare cycle env es) = (es1, t)"
    and out: "(case t of Some c \<Rightarrow> es' = es1 | None \<Rightarrow>
        (let es2 = es1\<lparr>es_pipe := schedule_frontend_redirect_recovery cycle (es_pipe es1) (es_uops es1)\<rparr>
         in es' = es2 \<and> r = Some (re_func_exit_reason env) \<or> es' = cycle_advance cycle env es2))"
    by (rule cycle_step_parts [OF step])
  note pr = prepare_inv [OF inv refl, of env]
  have "commits_ok uops (es_committed (cycle_prepare cycle env es)) (es_retired_seqs (cycle_prepare cycle env es))"
    using inv by (simp add: pr(6,7) engine_inv_def)
  note rt = retire_inv [OF ret pr(1,2,3) this]
  have none: "sq_pending_flush (es_pipe es1) = None" by (simp add: rt(5) pr(5))
  have "straight_line (es_uops es1)" using straight_line_static [OF pr(3) sl] by (simp add: rt(6))
  from straight_line_schedule [OF this]
  have "es1\<lparr>es_pipe := schedule_frontend_redirect_recovery cycle (es_pipe es1) (es_uops es1)\<rparr> = es1" by simp
  with out have "es' = es1 \<or> es' = cycle_advance cycle env es1" by (auto simp: Let_def split: option.splits)
  then show ?thesis using advance_pipe_inv(3) [OF rt(1) refl, of cycle env] none by auto
qed

lemma straight_line_run:
  assumes "length uops \<le> u64_max" and "straight_line uops"
  shows "sq_pending_flush (es_pipe (fst (run_loop k 0 env (init_engine_state uops)))) = None"
proof (induction k)
  case 0
  show ?case by (simp add: init_engine_state_def default_stage_queues_def)
next
  case (Suc k)
  obtain es r where run: "run_loop k 0 env (init_engine_state uops) = (es, r)" by fastforce
  show ?case
  proof (cases r)
    case None
    obtain c where "engine_inv uops c es" "r = None \<longrightarrow> c = k" using run_inv [OF assms(1) run] by blast
    with None have inv: "engine_inv uops k es" by simp
    obtain es' r' where s: "cycle_step k env es = (es', r')" by fastforce
    show ?thesis using straight_line_step [OF inv assms s]
      by (simp only: run_loop_Suc run None s prod.case option.case add_0 fst_conv)
  next
    case (Some x)
    then show ?thesis using Suc run by (simp only: run_loop_Suc prod.case option.case fst_conv)
  qed
qed

end
