(* ===== verification/Cosim.thy ===== *)
theory Cosim
  imports Isa
begin

text \<open>
  Lockstep comparison of commit streams (\<^verbatim>\<open>crates/cosim/src/compare/mod.rs\<close>): the first
  commit whose compared fields differ, in the source's field order, or a length mismatch.
  Reading a stream from a file is in \<open>Linxtrace\<close>.
\<close>

record CosimMismatch =
  cm_index :: usize
  cm_field :: string
  cm_expected :: string
  cm_actual :: string

record CosimReport =
  cp_matched_commits :: usize
  cp_mismatch :: "CosimMismatch option"

definition mismatch :: "usize \<Rightarrow> string \<Rightarrow> nat \<Rightarrow> nat \<Rightarrow> CosimReport" where
  "mismatch index field expected actual =
     \<lparr>cp_matched_commits = index,
      cp_mismatch = Some \<lparr>cm_index = index, cm_field = field,
        cm_expected = show_nat expected, cm_actual = show_nat actual\<rparr>\<rparr>"

definition compare_commit :: "usize \<Rightarrow> CommitRecord \<Rightarrow> CommitRecord \<Rightarrow> CosimReport option" where
  "compare_commit idx lhs rhs =
     (if cr_pc lhs \<noteq> cr_pc rhs
      then Some (mismatch idx ''pc'' (unat (cr_pc lhs)) (unat (cr_pc rhs)))
      else if cr_insn lhs \<noteq> cr_insn rhs
      then Some (mismatch idx ''insn'' (unat (cr_insn lhs)) (unat (cr_insn rhs)))
      else if cr_len lhs \<noteq> cr_len rhs
      then Some (mismatch idx ''len'' (unat (cr_len lhs)) (unat (cr_len rhs)))
      else if cr_wb_valid lhs \<noteq> cr_wb_valid rhs
      then Some (mismatch idx ''wb_valid'' (unat (cr_wb_valid lhs)) (unat (cr_wb_valid rhs)))
      else if cr_mem_valid lhs \<noteq> cr_mem_valid rhs
      then Some (mismatch idx ''mem_valid'' (unat (cr_mem_valid lhs)) (unat (cr_mem_valid rhs)))
      else if cr_trap_valid lhs \<noteq> cr_trap_valid rhs
      then Some (mismatch idx ''trap_valid'' (unat (cr_trap_valid lhs)) (unat (cr_trap_valid rhs)))
      else if cr_next_pc lhs \<noteq> cr_next_pc rhs
      then Some (mismatch idx ''next_pc'' (unat (cr_next_pc lhs)) (unat (cr_next_pc rhs)))
      else None)"

definition compare_commit_streams :: "CommitRecord list \<Rightarrow> CommitRecord list \<Rightarrow> CosimReport" where
  "compare_commit_streams expected actual =
     (let count = min (length expected) (length actual) in
      case find_map (\<lambda>idx. compare_commit idx (expected ! idx) (actual ! idx)) [0 ..< count] of
        Some report \<Rightarrow> report
      | None \<Rightarrow>
          if length expected \<noteq> length actual
          then \<lparr>cp_matched_commits = count,
                cp_mismatch = Some \<lparr>cm_index = count, cm_field = ''commit_count'',
                  cm_expected = show_nat (length expected), cm_actual = show_nat (length actual)\<rparr>\<rparr>
          else \<lparr>cp_matched_commits = count, cp_mismatch = None\<rparr>)"

definition require_cosim_match :: "CosimReport \<Rightarrow> string + unit" where
  "require_cosim_match report =
     (case cp_mismatch report of
        Some m \<Rightarrow> Inl (''cosim mismatch at commit '' @ show_nat (cm_index m) @ '' field '' @ cm_field m @
                       '': expected='' @ cm_expected m @ '' actual='' @ cm_actual m)
      | None \<Rightarrow> Inr ())"

section \<open>What a verdict means\<close>

text \<open>Agreement on the seven compared fields.\<close>

definition commits_agree :: "CommitRecord \<Rightarrow> CommitRecord \<Rightarrow> bool" where
  "commits_agree a b =
     (cr_pc a = cr_pc b \<and> cr_insn a = cr_insn b \<and> cr_len a = cr_len b \<and> cr_wb_valid a = cr_wb_valid b \<and>
      cr_mem_valid a = cr_mem_valid b \<and> cr_trap_valid a = cr_trap_valid b \<and> cr_next_pc a = cr_next_pc b)"

lemma compare_commit_None [simp]: "compare_commit i a b = None \<longleftrightarrow> commits_agree a b"
  by (simp add: compare_commit_def commits_agree_def)

lemma compare_commit_Some:
  assumes "compare_commit i a b = Some r"
  obtains m where "\<not> commits_agree a b" "cp_matched_commits r = i" "cp_mismatch r = Some m" "cm_index m = i"
  using assms by (auto simp: compare_commit_def commits_agree_def mismatch_def split: if_splits)

lemma compare_streams_cases:
  fixes e a defines "n \<equiv> min (length e) (length a)"
  obtains (differ) i m where "i < n" "\<forall>j < i. commits_agree (e ! j) (a ! j)" "\<not> commits_agree (e ! i) (a ! i)"
      "cp_matched_commits (compare_commit_streams e a) = i" "cp_mismatch (compare_commit_streams e a) = Some m" "cm_index m = i"
  | (count) m where "\<forall>j < n. commits_agree (e ! j) (a ! j)" "length e \<noteq> length a"
      "cp_matched_commits (compare_commit_streams e a) = n" "cp_mismatch (compare_commit_streams e a) = Some m" "cm_index m = n"
  | (same) "\<forall>j < n. commits_agree (e ! j) (a ! j)" "length e = length a"
      "cp_matched_commits (compare_commit_streams e a) = n" "cp_mismatch (compare_commit_streams e a) = None"
proof (cases "find_map (\<lambda>i. compare_commit i (e ! i) (a ! i)) [0 ..< n]")
  case None
  then have agree: "\<forall>j < n. commits_agree (e ! j) (a ! j)" by (simp add: find_map_None)
  show thesis
  proof (cases "length e = length a")
    case True
    with None show thesis by (intro same agree) (simp_all add: compare_commit_streams_def n_def)
  next
    case False
    with None have m: "cp_mismatch (compare_commit_streams e a) =
        Some \<lparr>cm_index = n, cm_field = ''commit_count'', cm_expected = show_nat (length e), cm_actual = show_nat (length a)\<rparr>"
      "cp_matched_commits (compare_commit_streams e a) = n"
      by (simp_all add: compare_commit_streams_def n_def Let_def)
    show thesis by (rule count [OF agree False m(2,1)]) simp
  qed
next
  case (Some r)
  from find_map_Some_first [OF this] obtain i where i: "i < n" "compare_commit i (e ! i) (a ! i) = Some r"
    "\<forall>j < i. commits_agree (e ! j) (a ! j)" by fastforce
  from compare_commit_Some [OF i(2)] obtain m where "\<not> commits_agree (e ! i) (a ! i)" "cp_matched_commits r = i"
    "cp_mismatch r = Some m" "cm_index m = i" by metis
  moreover have "compare_commit_streams e a = r" using Some by (simp add: compare_commit_streams_def n_def)
  ultimately show thesis using differ i(1,3) by metis
qed

text \<open>C37: a lockstep comparison passes exactly when the two streams have the same length and every
  pair of commits agrees on the seven compared fields.\<close>

theorem cosim_match_iff:
  "require_cosim_match (compare_commit_streams e a) = Inr () \<longleftrightarrow> list_all2 commits_agree e a"
  by (cases rule: compare_streams_cases [of e a])
     (auto simp: require_cosim_match_def list_all2_conv_all_nth)

text \<open>The mismatch reported is the first one. Its index is the number of commits reported as
  matched, all earlier pairs agree, and the pair at the index disagrees unless the index is where
  the shorter stream ends.\<close>

theorem cosim_mismatch_first:
  assumes "cp_mismatch (compare_commit_streams e a) = Some m"
  shows "cm_index m = cp_matched_commits (compare_commit_streams e a) \<and> cm_index m \<le> min (length e) (length a) \<and>
         (\<forall>j < cm_index m. commits_agree (e ! j) (a ! j)) \<and>
         (if cm_index m < min (length e) (length a) then \<not> commits_agree (e ! cm_index m) (a ! cm_index m)
          else length e \<noteq> length a)"
  using assms by (cases rule: compare_streams_cases [of e a]) simp_all

lemma cosim_mismatch_first_witness:
  "\<exists>m. cp_mismatch (compare_commit_streams (map (\<lambda>pc. unsupported 0 pc 0 0 default_block_meta) [0, 4, 8])
                                       (map (\<lambda>pc. unsupported 7 pc 0 0 default_block_meta) [0, 6, 8])) = Some m \<and>
       cm_index m = 1"
proof -
  let ?e = "map (\<lambda>pc. unsupported 0 pc 0 0 default_block_meta) [0, 4, 8]"
  let ?a = "map (\<lambda>pc. unsupported 7 pc 0 0 default_block_meta) [0, 6, 8]"
  have d: "commits_agree (?e ! 0) (?a ! 0)" "\<not> commits_agree (?e ! 1) (?a ! 1)"
    by (simp_all add: commits_agree_def unsupported_def)
  obtain m where m: "cp_mismatch (compare_commit_streams ?e ?a) = Some m"
    by (cases rule: compare_streams_cases [of ?e ?a]) (use d in auto)
  have len: "min (length ?e) (length ?a) = 3" by simp
  have f: "\<forall>j < cm_index m. commits_agree (?e ! j) (?a ! j)"
    "cm_index m < 3 \<Longrightarrow> \<not> commits_agree (?e ! cm_index m) (?a ! cm_index m)" "cm_index m < 3 \<or> length ?e \<noteq> length ?a"
    using cosim_mismatch_first [OF m] unfolding len by (meson, meson, meson)
  have "\<not> 1 < cm_index m" using f(1) d(2) by blast
  moreover have "cm_index m \<noteq> 0" using f(2) d(1) by (metis zero_less_numeral)
  ultimately have "cm_index m = 1" by linarith
  with m show ?thesis by blast
qed

end
