(* ===== verification/Guest_Memory.thy ===== *)
theory Guest_Memory
  imports Isa
begin

text \<open>
  The guest's memory (\<^verbatim>\<open>GuestMemory\<close> of \<^verbatim>\<open>crates/runtime/src/lib.rs\<close>): a vector of regions,
  each with a base address, a size, permission flags and its bytes. An access is served by the
  first region that contains it whole. Region ends are computed with wrap-around 64-bit addition, as in
  a release build; slicing a region outside its bytes panics, which is the value \<^term>\<open>None\<close> of
  the operations that slice.
\<close>

unbundle bit_operations_syntax

section \<open>Machine words as bytes\<close>

definition checked_add :: "u64 \<Rightarrow> u64 \<Rightarrow> u64 option" where
  "checked_add a b = (if a + b < a then None else Some (a + b))"

definition checked_sub :: "u64 \<Rightarrow> u64 \<Rightarrow> u64 option" where
  "checked_sub a b = (if b \<le> a then Some (a - b) else None)"

definition to_le_bytes :: "'a::len word \<Rightarrow> u8 list" where
  "to_le_bytes w = map (\<lambda>i. ucast (drop_bit (8 * i) w)) [0 ..< LENGTH('a) div 8]"

definition from_le_bytes :: "u8 list \<Rightarrow> 'a::len word" where
  "from_le_bytes bs = foldr (\<lambda>b acc. ucast b OR push_bit 8 acc) bs 0"

definition utf8_cont :: "u8 \<Rightarrow> bool" where
  "utf8_cont b = (0x80 \<le> b \<and> b \<le> 0xBF)"

fun utf8_valid :: "u8 list \<Rightarrow> bool" where
  "utf8_valid [] = True"
| "utf8_valid (b # bs) =
     (if b < 0x80 then utf8_valid bs
      else if 0xC2 \<le> b \<and> b \<le> 0xDF
      then (case bs of c # r \<Rightarrow> utf8_cont c \<and> utf8_valid r | _ \<Rightarrow> False)
      else if 0xE0 \<le> b \<and> b \<le> 0xEF
      then (case bs of c # d # r \<Rightarrow>
              (if b = 0xE0 then 0xA0 \<le> c \<and> c \<le> 0xBF
               else if b = 0xED then 0x80 \<le> c \<and> c \<le> 0x9F else utf8_cont c) \<and>
              utf8_cont d \<and> utf8_valid r
            | _ \<Rightarrow> False)
      else if 0xF0 \<le> b \<and> b \<le> 0xF4
      then (case bs of c # d # e # r \<Rightarrow>
              (if b = 0xF0 then 0x90 \<le> c \<and> c \<le> 0xBF
               else if b = 0xF4 then 0x80 \<le> c \<and> c \<le> 0x8F else utf8_cont c) \<and>
              utf8_cont d \<and> utf8_cont e \<and> utf8_valid r
            | _ \<Rightarrow> False)
      else False)"

definition from_utf8 :: "u8 list \<Rightarrow> string option" where
  "from_utf8 bs = (if utf8_valid bs then Some (map (\<lambda>b. char_of (unat b)) bs) else None)"

definition as_bytes :: "string \<Rightarrow> u8 list" where
  "as_bytes s = map (\<lambda>c. word_of_nat (of_char c)) s"

section \<open>Regions\<close>

definition MEM_EXEC :: u32 where
  "MEM_EXEC = 0b001"

definition MEM_WRITE :: u32 where
  "MEM_WRITE = 0b010"

definition MEM_READ :: u32 where
  "MEM_READ = 0b100"

definition PAGE_SIZE :: u64 where
  "PAGE_SIZE = 4096"

record MemoryRegion =
  mr_base :: u64
  mr_size :: u64
  mr_flags :: u32
  mr_data :: "u8 list"

record GuestMemory =
  gm_regions :: "MemoryRegion list"

definition region_end :: "MemoryRegion \<Rightarrow> u64" where
  "region_end region = mr_base region + mr_size region"

definition region_holds :: "u64 \<Rightarrow> u64 \<Rightarrow> MemoryRegion \<Rightarrow> bool" where
  "region_holds addr end region = (mr_base region \<le> addr \<and> end \<le> region_end region)"

definition has_flags :: "u32 \<Rightarrow> MemoryRegion \<Rightarrow> bool" where
  "has_flags required region = (mr_flags region AND required = required)"

definition region_containing :: "GuestMemory \<Rightarrow> u64 \<Rightarrow> usize \<Rightarrow> MemoryRegion option" where
  "region_containing m addr len =
     (case checked_add addr (word_of_nat len) of None \<Rightarrow> None
      | Some end \<Rightarrow> find (region_holds addr end) (gm_regions m))"

definition region_containing_with_flags ::
  "GuestMemory \<Rightarrow> u64 \<Rightarrow> usize \<Rightarrow> u32 \<Rightarrow> MemoryRegion option" where
  "region_containing_with_flags m addr len required =
     opt_filter (has_flags required) (region_containing m addr len)"

text \<open>A mutable borrow of a region is its position in the vector.\<close>

definition region_containing_mut :: "GuestMemory \<Rightarrow> u64 \<Rightarrow> usize \<Rightarrow> usize option" where
  "region_containing_mut m addr len =
     (case checked_add addr (word_of_nat len) of None \<Rightarrow> None
      | Some end \<Rightarrow> position (region_holds addr end) (gm_regions m))"

definition region_containing_mut_with_flags :: "GuestMemory \<Rightarrow> u64 \<Rightarrow> usize \<Rightarrow> u32 \<Rightarrow> usize option" where
  "region_containing_mut_with_flags m addr len required =
     opt_filter (\<lambda>i. has_flags required (gm_regions m ! i)) (region_containing_mut m addr len)"

section \<open>Reading\<close>

definition slice_get :: "'a list \<Rightarrow> nat \<Rightarrow> nat \<Rightarrow> 'a list option" where
  "slice_get xs off len = (if off + len \<le> length xs then Some (take len (drop off xs)) else None)"

definition region_read :: "MemoryRegion \<Rightarrow> u64 \<Rightarrow> usize \<Rightarrow> u8 list option" where
  "region_read region addr len = slice_get (mr_data region) (unat (addr - mr_base region)) len"

definition read_bytes :: "GuestMemory \<Rightarrow> u64 \<Rightarrow> usize \<Rightarrow> u8 list option" where
  "read_bytes m pc len =
     Option.bind (region_containing m pc len) (\<lambda>region. region_read region pc len)"

definition read_bytes_checked :: "GuestMemory \<Rightarrow> u64 \<Rightarrow> usize \<Rightarrow> u8 list option" where
  "read_bytes_checked m pc len =
     Option.bind (region_containing_with_flags m pc len MEM_READ) (\<lambda>region. region_read region pc len)"

definition first_byte :: "u8 list \<Rightarrow> u8 option" where
  "first_byte bytes = (case bytes of [] \<Rightarrow> None | b # _ \<Rightarrow> Some b)"

definition read_u8 :: "GuestMemory \<Rightarrow> u64 \<Rightarrow> u8 option" where
  "read_u8 m addr = Option.bind (read_bytes m addr 1) first_byte"

definition read_u8_checked :: "GuestMemory \<Rightarrow> u64 \<Rightarrow> u8 option" where
  "read_u8_checked m addr = Option.bind (read_bytes_checked m addr 1) first_byte"

definition read_u16 :: "GuestMemory \<Rightarrow> u64 \<Rightarrow> u16 option" where
  "read_u16 m addr = map_option from_le_bytes (read_bytes m addr 2)"

definition read_u16_checked :: "GuestMemory \<Rightarrow> u64 \<Rightarrow> u16 option" where
  "read_u16_checked m addr = map_option from_le_bytes (read_bytes_checked m addr 2)"

definition read_u32 :: "GuestMemory \<Rightarrow> u64 \<Rightarrow> u32 option" where
  "read_u32 m pc = map_option from_le_bytes (read_bytes m pc 4)"

definition read_u32_checked :: "GuestMemory \<Rightarrow> u64 \<Rightarrow> u32 option" where
  "read_u32_checked m addr = map_option from_le_bytes (read_bytes_checked m addr 4)"

definition read_u64 :: "GuestMemory \<Rightarrow> u64 \<Rightarrow> u64 option" where
  "read_u64 m addr = map_option from_le_bytes (read_bytes m addr 8)"

definition read_u64_checked :: "GuestMemory \<Rightarrow> u64 \<Rightarrow> u64 option" where
  "read_u64_checked m addr = map_option from_le_bytes (read_bytes_checked m addr 8)"

definition bundle_bytes :: "MemoryRegion \<Rightarrow> u64 \<Rightarrow> u64 option" where
  "bundle_bytes region pc =
     (let offset = unat (pc - mr_base region);
          available = min (length (mr_data region) - offset) 8
      in if available = 0 then None
         else map_option (\<lambda>bytes. from_le_bytes (bytes @ replicate (8 - available) 0))
                (slice_get (mr_data region) offset available))"

definition read_u64_bundle :: "GuestMemory \<Rightarrow> u64 \<Rightarrow> u64 option" where
  "read_u64_bundle m pc =
     find_map (\<lambda>region.
        if pc < mr_base region \<or> region_end region \<le> pc then None else bundle_bytes region pc) (gm_regions m)"

definition fetch_u64_bundle :: "GuestMemory \<Rightarrow> u64 \<Rightarrow> u64 option" where
  "fetch_u64_bundle m pc =
     find_map (\<lambda>region.
        if mr_flags region AND MEM_EXEC = 0 \<or> pc < mr_base region \<or> region_end region \<le> pc then None
        else bundle_bytes region pc) (gm_regions m)"

text \<open>The bytes up to the first NUL among the next \<open>n\<close> bytes.\<close>

fun c_string_loop :: "(u64 \<Rightarrow> u8 option) \<Rightarrow> u64 \<Rightarrow> usize \<Rightarrow> nat \<Rightarrow> u8 list \<Rightarrow> string option" where
  "c_string_loop read addr idx 0 bytes = None"
| "c_string_loop read addr idx (Suc n) bytes =
     (case checked_add addr (word_of_nat idx) of None \<Rightarrow> None
      | Some a \<Rightarrow>
          (case read a of None \<Rightarrow> None
           | Some byte \<Rightarrow>
               if byte = 0 then from_utf8 bytes
               else c_string_loop read addr (idx + 1) n (bytes @ [byte])))"

definition read_c_string :: "GuestMemory \<Rightarrow> u64 \<Rightarrow> usize \<Rightarrow> string option" where
  "read_c_string m addr max_len = c_string_loop (read_u8 m) addr 0 max_len []"

definition read_c_string_checked :: "GuestMemory \<Rightarrow> u64 \<Rightarrow> usize \<Rightarrow> string option" where
  "read_c_string_checked m addr max_len = c_string_loop (read_u8_checked m) addr 0 max_len []"

section \<open>Writing\<close>

definition write_region :: "GuestMemory \<Rightarrow> usize \<Rightarrow> u64 \<Rightarrow> u8 list \<Rightarrow> GuestMemory option" where
  "write_region m i addr bytes =
     (let region = gm_regions m ! i;
          offset = unat (addr - mr_base region);
          data = mr_data region
      in if offset + length bytes \<le> length data
         then Some (m\<lparr>gm_regions := (gm_regions m)[i :=
                region\<lparr>mr_data := take offset data @ bytes @ drop (offset + length bytes) data\<rparr>]\<rparr>)
         else None)"

definition write_bytes :: "GuestMemory \<Rightarrow> u64 \<Rightarrow> u8 list \<Rightarrow> GuestMemory option" where
  "write_bytes m addr bytes =
     Option.bind (region_containing_mut m addr (length bytes)) (\<lambda>i. write_region m i addr bytes)"

definition write_bytes_checked :: "GuestMemory \<Rightarrow> u64 \<Rightarrow> u8 list \<Rightarrow> GuestMemory option" where
  "write_bytes_checked m addr bytes =
     Option.bind (region_containing_mut_with_flags m addr (length bytes) MEM_WRITE)
       (\<lambda>i. write_region m i addr bytes)"

definition write_u16 :: "GuestMemory \<Rightarrow> u64 \<Rightarrow> u16 \<Rightarrow> GuestMemory option" where
  "write_u16 m addr value = write_bytes m addr (to_le_bytes value)"

definition write_u16_checked :: "GuestMemory \<Rightarrow> u64 \<Rightarrow> u16 \<Rightarrow> GuestMemory option" where
  "write_u16_checked m addr value = write_bytes_checked m addr (to_le_bytes value)"

definition write_u32 :: "GuestMemory \<Rightarrow> u64 \<Rightarrow> u32 \<Rightarrow> GuestMemory option" where
  "write_u32 m addr value = write_bytes m addr (to_le_bytes value)"

definition write_u32_checked :: "GuestMemory \<Rightarrow> u64 \<Rightarrow> u32 \<Rightarrow> GuestMemory option" where
  "write_u32_checked m addr value = write_bytes_checked m addr (to_le_bytes value)"

definition write_u64 :: "GuestMemory \<Rightarrow> u64 \<Rightarrow> u64 \<Rightarrow> GuestMemory option" where
  "write_u64 m addr value = write_bytes m addr (to_le_bytes value)"

definition write_u64_checked :: "GuestMemory \<Rightarrow> u64 \<Rightarrow> u64 \<Rightarrow> GuestMemory option" where
  "write_u64_checked m addr value = write_bytes_checked m addr (to_le_bytes value)"

section \<open>Mapping\<close>

definition highest_mapped_address :: "GuestMemory \<Rightarrow> u64" where
  "highest_mapped_address m = unwrap_or (max_by_key (\<lambda>e. e) (map region_end (gm_regions m))) 0"

fun mapped_walk :: "MemoryRegion list \<Rightarrow> u64 \<Rightarrow> u64 \<Rightarrow> bool" where
  "mapped_walk [] cursor end = False"
| "mapped_walk (region # regions) cursor end =
     (if cursor < mr_base region then False
      else if region_end region \<le> cursor then mapped_walk regions cursor end
      else let cursor' = min (region_end region) end in
           if end \<le> cursor' then True else mapped_walk regions cursor' end)"

definition is_range_mapped :: "GuestMemory \<Rightarrow> u64 \<Rightarrow> u64 \<Rightarrow> bool" where
  "is_range_mapped m addr sz =
     (case checked_add addr sz of None \<Rightarrow> False
      | Some end \<Rightarrow>
          if sz = 0 then False else mapped_walk (sort_key mr_base (gm_regions m)) addr end)"

definition region_slice :: "MemoryRegion \<Rightarrow> u64 \<Rightarrow> u64 \<Rightarrow> u32 \<Rightarrow> MemoryRegion option" where
  "region_slice region base end flags =
     (let start_off = unat (base - mr_base region);
          end_off = unat (end - mr_base region)
      in if start_off \<le> end_off \<and> end_off \<le> length (mr_data region)
         then Some \<lparr>mr_base = base, mr_size = end - base, mr_flags = flags,
                    mr_data = take (end_off - start_off) (drop start_off (mr_data region))\<rparr>
         else None)"

definition remap_region :: "u64 \<Rightarrow> u64 \<Rightarrow> u32 option \<Rightarrow> MemoryRegion \<Rightarrow> MemoryRegion list option" where
  "remap_region addr end replacement_flags region =
     (let overlap_start = max (mr_base region) addr;
          overlap_end = min (region_end region) end
      in if overlap_end \<le> overlap_start then Some [region]
         else
           let before = (if mr_base region < overlap_start
                         then [region_slice region (mr_base region) overlap_start (mr_flags region)] else []);
               middle = (case replacement_flags of None \<Rightarrow> []
                         | Some flags \<Rightarrow> [region_slice region overlap_start overlap_end flags]);
               after = (if overlap_end < region_end region
                        then [region_slice region overlap_end (region_end region) (mr_flags region)] else [])
           in those (before @ middle @ after))"

definition remap_range :: "GuestMemory \<Rightarrow> u64 \<Rightarrow> u64 \<Rightarrow> u32 option \<Rightarrow> GuestMemory option" where
  "remap_range m addr sz replacement_flags =
     map_option (\<lambda>pieces. m\<lparr>gm_regions := sort_key mr_base (concat pieces)\<rparr>)
       (those (map (remap_region addr (word_sat_add addr sz) replacement_flags) (gm_regions m)))"

definition protect_range :: "GuestMemory \<Rightarrow> u64 \<Rightarrow> u64 \<Rightarrow> u32 \<Rightarrow> (bool \<times> GuestMemory) option" where
  "protect_range m addr sz flags =
     (if is_range_mapped m addr sz
      then map_option (Pair True) (remap_range m addr sz (Some flags))
      else Some (False, m))"

definition unmap_range :: "GuestMemory \<Rightarrow> u64 \<Rightarrow> u64 \<Rightarrow> GuestMemory option" where
  "unmap_range m addr sz = remap_range m addr sz None"

section \<open>Byte encodings\<close>

lemma bit_from_le_bytes:
  "bit (from_le_bytes bs :: 'a::len word) n \<longleftrightarrow>
     n < LENGTH('a) \<and> n div 8 < length bs \<and> bit (bs ! (n div 8)) (n mod 8)"
proof (induction bs arbitrary: n)
  case Nil
  then show ?case by (simp add: from_le_bytes_def)
next
  case (Cons b bs)
  have fold: "from_le_bytes (b # bs) = (ucast b OR push_bit 8 (from_le_bytes bs) :: 'a word)"
    by (simp add: from_le_bytes_def)
  show ?case
  proof (cases "n < 8")
    case True
    then show ?thesis by (auto simp: fold bit_or_iff bit_push_bit_iff bit_ucast_iff)
  next
    case False
    then have n: "n div 8 = Suc ((n - 8) div 8)" "n mod 8 = (n - 8) mod 8"
      by (simp_all add: le_div_geq mod_if)
    have "\<not> bit (ucast b :: 'a word) n" using False by (auto simp: bit_ucast_iff dest: bit_imp_le_length)
    then show ?thesis using False by (auto simp: fold bit_or_iff bit_push_bit_iff Cons.IH n)
  qed
qed

lemma le_bytes_round_trip:
  assumes "8 dvd LENGTH('a::len)"
  shows "from_le_bytes (to_le_bytes (w :: 'a word)) = w"
proof (rule bit_word_eqI)
  fix n assume n: "n < LENGTH('a)"
  then have "n div 8 < LENGTH('a) div 8" using assms by (simp add: less_mult_imp_div_less dvd_div_mult_self)
  then show "bit (from_le_bytes (to_le_bytes w) :: 'a word) n = bit w n"
    using n by (simp add: bit_from_le_bytes to_le_bytes_def bit_ucast_iff bit_drop_bit_eq)
qed

lemma to_le_bytes_length [simp]: "length (to_le_bytes (w :: 'a::len word)) = LENGTH('a) div 8"
  by (simp add: to_le_bytes_def)

section \<open>Finding the region of an access\<close>

lemma find_position: "find P xs = map_option ((!) xs) (position P xs)"
  by (induction xs) (auto simp: option.map_comp comp_def)

lemma region_containing_position:
  "region_containing m a n = map_option ((!) (gm_regions m)) (region_containing_mut m a n)"
  by (simp add: region_containing_def region_containing_mut_def find_position split: option.split)

lemma region_containing_mut_Some:
  assumes "region_containing_mut m a n = Some i"
  shows "i < length (gm_regions m)" "mr_base (gm_regions m ! i) \<le> a"
    "a + word_of_nat n \<le> region_end (gm_regions m ! i)" "a \<le> a + word_of_nat n"
  using assms
  by (auto simp: region_containing_mut_def checked_add_def region_holds_def not_less dest!: position_Some
      split: option.splits if_splits)

text \<open>The region an access finds depends only on where the regions lie.\<close>

definition region_shape :: "MemoryRegion \<Rightarrow> u64 \<times> u64 \<times> u32 \<times> usize" where
  "region_shape r = (mr_base r, mr_size r, mr_flags r, length (mr_data r))"

definition mem_shape :: "GuestMemory \<Rightarrow> (u64 \<times> u64 \<times> u32 \<times> usize) list" where
  "mem_shape m = map region_shape (gm_regions m)"

lemma position_map: "position P (map f xs) = position (P \<circ> f) xs"
  by (induction xs) auto

lemma position_shape:
  "position (region_holds a e) (gm_regions m) = position (\<lambda>(b, s, _). b \<le> a \<and> e \<le> b + s) (mem_shape m)"
  unfolding mem_shape_def position_map
  by (rule arg_cong [where f = "\<lambda>P. position P _"]) (auto simp: region_holds_def region_end_def region_shape_def)

lemma region_containing_mut_shape:
  "mem_shape m' = mem_shape m \<Longrightarrow> region_containing_mut m' a n = region_containing_mut m a n"
  by (simp add: region_containing_mut_def position_shape split: option.split)

lemma mem_shape_nth:
  "mem_shape m' = mem_shape m \<Longrightarrow> i < length (gm_regions m) \<Longrightarrow>
   region_shape (gm_regions m' ! i) = region_shape (gm_regions m ! i) \<and> length (gm_regions m') = length (gm_regions m)"
  unfolding mem_shape_def by (metis length_map nth_map)

lemma write_region_shape:
  assumes "write_region m i a bs = Some m'" and "i < length (gm_regions m)"
  shows "mem_shape m' = mem_shape m"
  using assms
  by (auto simp: write_region_def Let_def mem_shape_def map_update region_shape_def split: if_splits
      intro!: list_update_same_conv [THEN iffD2])

section \<open>Reading what was written\<close>

lemma slice_get_splice:
  assumes "off + length bs \<le> length d"
  shows "slice_get (take off d @ bs @ drop (off + length bs) d) off (length bs) = Some bs"
    and "off' + n \<le> off \<or> off + length bs \<le> off' \<Longrightarrow>
      slice_get (take off d @ bs @ drop (off + length bs) d) off' n = slice_get d off' n"
proof -
  show "slice_get (take off d @ bs @ drop (off + length bs) d) off (length bs) = Some bs"
    using assms by (simp add: slice_get_def)
  assume dis: "off' + n \<le> off \<or> off + length bs \<le> off'"
  show "slice_get (take off d @ bs @ drop (off + length bs) d) off' n = slice_get d off' n"
  proof (cases "off' + n \<le> length d")
    case True
    have "take n (drop off' (take off d @ bs @ drop (off + length bs) d)) = take n (drop off' d)"
      using dis
    proof
      assume "off' + n \<le> off"
      then show ?thesis using assms by (simp add: take_drop min_absorb1)
    next
      assume "off + length bs \<le> off'"
      then show ?thesis using assms by (simp add: min_absorb2)
    qed
    then show ?thesis using assms by (simp add: slice_get_def)
  qed (use assms in \<open>simp add: slice_get_def\<close>)
qed

text \<open>The offset of an access inside the region that serves it.\<close>

lemma access_offset:
  assumes "region_containing_mut m a n = Some i" and "n < 2 ^ 64"
  shows "unat (a - mr_base (gm_regions m ! i)) = unat a - unat (mr_base (gm_regions m ! i))"
    and "mr_base (gm_regions m ! i) \<le> a" and "unat a + n < 2 ^ 64"
proof -
  note c = region_containing_mut_Some [OF assms(1)]
  show "unat (a - mr_base (gm_regions m ! i)) = unat a - unat (mr_base (gm_regions m ! i))"
    using c(2) by (simp add: unat_sub)
  show "mr_base (gm_regions m ! i) \<le> a" by (rule c(2))
  have "unat (word_of_nat n :: u64) = n" using assms(2) by (simp add: unsigned_of_nat take_bit_nat_eq_self)
  with no_olen_add_nat [of a "word_of_nat n"] c(4) show "unat a + n < 2 ^ 64" by simp
qed

text \<open>Two accesses do not overlap.\<close>

definition apart :: "u64 \<Rightarrow> usize \<Rightarrow> u64 \<Rightarrow> usize \<Rightarrow> bool" where
  "apart a n b k = (unat a + n \<le> unat b \<or> unat b + k \<le> unat a)"

lemma write_region_reads:
  assumes "write_region m i a bs = Some m'" and "region_containing_mut m a (length bs) = Some i"
  shows "region_read (gm_regions m' ! i) a (length bs) = Some bs"
    and "region_read (gm_regions m ! i) a (length bs) \<noteq> None"
    and "region_containing_mut m b k = Some j \<Longrightarrow> apart a (length bs) b k \<Longrightarrow> length bs < 2 ^ 64 \<Longrightarrow> k < 2 ^ 64 \<Longrightarrow>
      region_read (gm_regions m' ! j) b k = region_read (gm_regions m ! j) b k"
proof -
  note i = region_containing_mut_Some [OF assms(2)]
  let ?r = "gm_regions m ! i"
  let ?off = "unat (a - mr_base ?r)"
  have fits: "?off + length bs \<le> length (mr_data ?r)"
    and m': "m' = m\<lparr>gm_regions := (gm_regions m)[i := ?r\<lparr>mr_data := take ?off (mr_data ?r) @ bs @ drop (?off + length bs) (mr_data ?r)\<rparr>]\<rparr>"
    using assms(1) by (auto simp: write_region_def Let_def split: if_splits)
  note splice = slice_get_splice [OF fits]
  show "region_read (gm_regions m' ! i) a (length bs) = Some bs" using i(1) splice(1) by (simp add: m' region_read_def)
  show "region_read ?r a (length bs) \<noteq> None" using fits by (simp add: region_read_def slice_get_def)
  assume j: "region_containing_mut m b k = Some j" and ap: "apart a (length bs) b k" and len: "length bs < 2 ^ 64" "k < 2 ^ 64"
  show "region_read (gm_regions m' ! j) b k = region_read (gm_regions m ! j) b k"
  proof (cases "j = i")
    case True
    note oa = access_offset [OF assms(2) len(1)] and ob = access_offset [OF j len(2), unfolded True]
    have "unat (mr_base ?r) \<le> unat a" "unat (mr_base ?r) \<le> unat b" using oa(2) ob(2) by (simp_all add: word_le_nat_alt)
    then have "unat (b - mr_base ?r) + k \<le> ?off \<or> ?off + length bs \<le> unat (b - mr_base ?r)"
      using ap unfolding apart_def oa(1) ob(1) by linarith
    from splice(2) [OF this] show ?thesis using i(1) by (simp add: m' True region_read_def)
  next
    case False
    then show ?thesis by (simp add: m')
  qed
qed

section \<open>The interface of a byte store\<close>

text \<open>What the clients of the memory rely on: a write is read back, it leaves every other range alone, and it
  does not change which accesses are served.\<close>

locale byte_store =
  fixes load :: "'m \<Rightarrow> u64 \<Rightarrow> usize \<Rightarrow> u8 list option"
    and store :: "'m \<Rightarrow> u64 \<Rightarrow> u8 list \<Rightarrow> 'm option"
  assumes read_written: "store m a bs = Some m' \<Longrightarrow> load m' a (length bs) = map_option (\<lambda>_. bs) (load m a (length bs))"
    and read_apart: "store m a bs = Some m' \<Longrightarrow> apart a (length bs) b k \<Longrightarrow> length bs < 2 ^ 64 \<Longrightarrow> k < 2 ^ 64 \<Longrightarrow>
      load m' b k = load m b k"
    and write_serves: "store m a bs = Some m' \<Longrightarrow> (load m' b k = None) = (load m b k = None)"
    and write_again: "store m a bs = Some m' \<Longrightarrow> (store m' b cs = None) = (store m b cs = None)"
begin

text \<open>A sequence of writes.\<close>

primrec write_all :: "(u64 \<times> u8 list) list \<Rightarrow> 'm \<Rightarrow> 'm option" where
  "write_all [] m = Some m"
| "write_all (w # ws) m = Option.bind (store m (fst w) (snd w)) (write_all ws)"

definition short :: "(u64 \<times> u8 list) list \<Rightarrow> bool" where
  "short ws = list_all (\<lambda>w. length (snd w) < 2 ^ 64) ws"

definition all_apart :: "(u64 \<times> u8 list) list \<Rightarrow> bool" where
  "all_apart ws = sorted_wrt (\<lambda>v w. apart (fst v) (length (snd v)) (fst w) (length (snd w))) ws"

lemma write_all_serves: "write_all ws m = Some m' \<Longrightarrow> (load m' b k = None) = (load m b k = None)"
  by (induction ws arbitrary: m) (auto simp: bind_eq_Some_conv dest: write_serves)

lemma write_all_apart:
  assumes "write_all ws m = Some m'" and "list_all (\<lambda>w. apart (fst w) (length (snd w)) b k) ws" and "short ws" and "k < 2 ^ 64"
  shows "load m' b k = load m b k"
  using assms
  by (induction ws arbitrary: m) (auto simp: bind_eq_Some_conv short_def dest!: read_apart)

lemma write_all_read_back:
  assumes "write_all ws m = Some m'" and "all_apart ws" and "short ws" and "w \<in> set ws"
    and "load m (fst w) (length (snd w)) \<noteq> None"
  shows "load m' (fst w) (length (snd w)) = Some (snd w)"
  using assms
proof (induction ws arbitrary: m)
  case (Cons v ws)
  from Cons.prems(1) obtain m1 where m1: "store m (fst v) (snd v) = Some m1" "write_all ws m1 = Some m'"
    by (auto simp: bind_eq_Some_conv)
  show ?case
  proof (cases "w \<in> set ws")
    case True
    have "load m1 (fst w) (length (snd w)) \<noteq> None" using write_serves [OF m1(1)] Cons.prems(5) by simp
    with Cons.IH [OF m1(2) _ _ True] Cons.prems(2,3) show ?thesis by (simp add: all_apart_def short_def)
  next
    case False
    with Cons.prems(4) have w: "w = v" by simp
    have "apart (fst x) (length (snd x)) (fst v) (length (snd v))" if "x \<in> set ws" for x
      using Cons.prems(2) that by (auto simp: all_apart_def apart_def)
    then have "load m' (fst v) (length (snd v)) = load m1 (fst v) (length (snd v))"
      using Cons.prems(3) by (intro write_all_apart [OF m1(2)]) (auto simp: list_all_iff short_def)
    then show ?thesis using read_written [OF m1(1)] Cons.prems(5) unfolding w by auto
  qed
qed simp

end

lemma write_bytes_cases:
  assumes "write_bytes m a bs = Some m'"
  obtains i where "region_containing_mut m a (length bs) = Some i" "write_region m i a bs = Some m'"
    "mem_shape m' = mem_shape m"
  using assms write_region_shape region_containing_mut_Some(1) by (auto simp: write_bytes_def bind_eq_Some_conv)

lemma write_bytes_checked_plain:
  "write_bytes_checked m a bs =
     (case region_containing_mut m a (length bs) of None \<Rightarrow> None
      | Some i \<Rightarrow> if has_flags MEM_WRITE (gm_regions m ! i) then write_bytes m a bs else None)"
  by (simp add: write_bytes_checked_def region_containing_mut_with_flags_def write_bytes_def opt_filter_def split: option.split)

lemma read_bytes_position:
  "read_bytes m a n = Option.bind (region_containing_mut m a n) (\<lambda>i. region_read (gm_regions m ! i) a n)"
  by (simp add: read_bytes_def region_containing_position split: Option.bind_split option.split)

lemma read_bytes_checked_plain:
  "read_bytes_checked m a n =
     (case region_containing_mut m a n of None \<Rightarrow> None
      | Some i \<Rightarrow> if has_flags MEM_READ (gm_regions m ! i) then read_bytes m a n else None)"
  by (simp add: read_bytes_checked_def region_containing_with_flags_def region_containing_position read_bytes_def opt_filter_def
      split: option.split)

lemma mem_shape_flags:
  assumes "mem_shape m' = mem_shape m" and "i < length (gm_regions m)"
  shows "has_flags f (gm_regions m' ! i) = has_flags f (gm_regions m ! i)"
    and "(region_read (gm_regions m' ! i) a n = None) = (region_read (gm_regions m ! i) a n = None)"
    and "(write_region m' i a bs = None) = (write_region m i a bs = None)"
  using mem_shape_nth [OF assms]
  by (auto simp: has_flags_def region_shape_def region_read_def slice_get_def write_region_def Let_def)

lemma read_bytes_serves:
  assumes "mem_shape m' = mem_shape m"
  shows "(read_bytes m' a n = None) = (read_bytes m a n = None)"
    and "(write_bytes m' a bs = None) = (write_bytes m a bs = None)"
    and "(read_bytes_checked m' a n = None) = (read_bytes_checked m a n = None)"
    and "(write_bytes_checked m' a bs = None) = (write_bytes_checked m a bs = None)"
proof -
  note s = region_containing_mut_shape [OF assms]
  show r: "(read_bytes m' a n = None) = (read_bytes m a n = None)"
    using mem_shape_flags(2) [OF assms region_containing_mut_Some(1)]
    by (cases "region_containing_mut m a n") (simp_all add: read_bytes_position s)
  show w: "(write_bytes m' a bs = None) = (write_bytes m a bs = None)"
    using mem_shape_flags(3) [OF assms region_containing_mut_Some(1)]
    by (cases "region_containing_mut m a (length bs)") (simp_all add: write_bytes_def s)
  show "(read_bytes_checked m' a n = None) = (read_bytes_checked m a n = None)"
    using mem_shape_flags(1) [OF assms region_containing_mut_Some(1)] r
    by (cases "region_containing_mut m a n") (simp_all add: read_bytes_checked_plain s)
  show "(write_bytes_checked m' a bs = None) = (write_bytes_checked m a bs = None)"
    using mem_shape_flags(1) [OF assms region_containing_mut_Some(1)] w
    by (cases "region_containing_mut m a (length bs)") (simp_all add: write_bytes_checked_plain s)
qed

lemma write_bytes_read:
  assumes "write_bytes m a bs = Some m'"
  shows "read_bytes m' a (length bs) = Some bs"
    and "read_bytes m a (length bs) \<noteq> None"
    and "apart a (length bs) b k \<Longrightarrow> length bs < 2 ^ 64 \<Longrightarrow> k < 2 ^ 64 \<Longrightarrow> read_bytes m' b k = read_bytes m b k"
proof -
  obtain i where i: "region_containing_mut m a (length bs) = Some i" "write_region m i a bs = Some m'"
    "mem_shape m' = mem_shape m" by (rule write_bytes_cases [OF assms])
  note w = write_region_reads [OF i(2,1)] and s = region_containing_mut_shape [OF i(3)]
  show "read_bytes m' a (length bs) = Some bs" using w(1) i(1) by (simp add: read_bytes_position s)
  show "read_bytes m a (length bs) \<noteq> None" using w(2) i(1) by (simp add: read_bytes_position)
  assume "apart a (length bs) b k" "length bs < 2 ^ 64" "k < 2 ^ 64"
  then show "read_bytes m' b k = read_bytes m b k"
    using w(3) by (cases "region_containing_mut m b k") (simp_all add: read_bytes_position s)
qed

lemma write_bytes_checked_imp: "write_bytes_checked m a bs = Some m' \<Longrightarrow> write_bytes m a bs = Some m'"
  by (auto simp: write_bytes_checked_plain split: option.splits if_splits)

lemma write_bytes_shape: "write_bytes m a bs = Some m' \<Longrightarrow> mem_shape m' = mem_shape m"
  by (erule write_bytes_cases)

interpretation raw: byte_store read_bytes write_bytes
proof
  fix m a bs m' b k cs
  assume w: "write_bytes m a bs = Some m'"
  note r = write_bytes_read [OF w] and s = read_bytes_serves [OF write_bytes_shape [OF w]]
  show "read_bytes m' a (length bs) = map_option (\<lambda>_. bs) (read_bytes m a (length bs))" using r(1,2) by auto
  show "apart a (length bs) b k \<Longrightarrow> length bs < 2 ^ 64 \<Longrightarrow> k < 2 ^ 64 \<Longrightarrow> read_bytes m' b k = read_bytes m b k" by (rule r(3))
  show "(read_bytes m' b k = None) = (read_bytes m b k = None)" by (rule s(1))
  show "(write_bytes m' b cs = None) = (write_bytes m b cs = None)" by (rule s(2))
qed

interpretation checked: byte_store read_bytes_checked write_bytes_checked
proof
  fix m a bs m' b k cs
  assume wc: "write_bytes_checked m a bs = Some m'"
  note w = write_bytes_checked_imp [OF wc]
  note shape = write_bytes_shape [OF w]
  note s = read_bytes_serves [OF shape] and p = region_containing_mut_shape [OF shape]
  have flags: "region_containing_mut m c n = Some i \<Longrightarrow>
      has_flags MEM_READ (gm_regions m' ! i) = has_flags MEM_READ (gm_regions m ! i)" for c n i
    by (intro mem_shape_flags(1) shape region_containing_mut_Some(1))
  show "read_bytes_checked m' a (length bs) = map_option (\<lambda>_. bs) (read_bytes_checked m a (length bs))"
    using write_bytes_read(1,2) [OF w] flags
    by (cases "region_containing_mut m a (length bs)") (auto simp: read_bytes_checked_plain p)
  show "apart a (length bs) b k \<Longrightarrow> length bs < 2 ^ 64 \<Longrightarrow> k < 2 ^ 64 \<Longrightarrow> read_bytes_checked m' b k = read_bytes_checked m b k"
    using write_bytes_read(3) [OF w] flags
    by (cases "region_containing_mut m b k") (auto simp: read_bytes_checked_plain p)
  show "(read_bytes_checked m' b k = None) = (read_bytes_checked m b k = None)" by (rule s(3))
  show "(write_bytes_checked m' b cs = None) = (write_bytes_checked m b cs = None)" by (rule s(4))
qed

section \<open>The memory as a map from addresses to bytes\<close>

text \<open>A region that does not wrap and has all its bytes; regions that do not overlap.\<close>

definition region_ok :: "MemoryRegion \<Rightarrow> bool" where
  "region_ok r = (unat (mr_base r) + unat (mr_size r) < 2 ^ 64 \<and> length (mr_data r) = unat (mr_size r))"

definition region_span :: "MemoryRegion \<Rightarrow> nat set" where
  "region_span r = {unat (mr_base r) ..< unat (mr_base r) + unat (mr_size r)}"

definition memory_wf :: "GuestMemory \<Rightarrow> bool" where
  "memory_wf m = (list_all region_ok (gm_regions m) \<and>
     sorted_wrt (\<lambda>r s. region_span r \<inter> region_span s = {}) (gm_regions m))"

text \<open>The flags and the byte at an address.\<close>

definition region_byte :: "MemoryRegion \<Rightarrow> u64 \<Rightarrow> u32 \<times> u8" where
  "region_byte r a = (mr_flags r, mr_data r ! (unat a - unat (mr_base r)))"

definition byte_at :: "GuestMemory \<Rightarrow> u64 \<Rightarrow> (u32 \<times> u8) option" where
  "byte_at m a = map_option (\<lambda>r. region_byte r a) (find (\<lambda>r. unat a \<in> region_span r) (gm_regions m))"

lemma region_end_ok: "region_ok r \<Longrightarrow> unat (region_end r) = unat (mr_base r) + unat (mr_size r)"
  by (simp add: region_ok_def region_end_def unat_word_ariths)

lemma byte_at_None: "byte_at m a = None \<longleftrightarrow> (\<forall>r \<in> set (gm_regions m). unat a \<notin> region_span r)"
  by (auto simp: byte_at_def find_None_iff)

lemma disjoint_find:
  assumes "sorted_wrt (\<lambda>r s. region_span r \<inter> region_span s = {}) rs" and "r \<in> set rs" and "x \<in> region_span r"
  shows "find (\<lambda>r. x \<in> region_span r) rs = Some r"
  using assms by (induction rs) auto

lemma byte_at_region:
  assumes "memory_wf m" and "r \<in> set (gm_regions m)" and "unat a \<in> region_span r"
  shows "byte_at m a = Some (region_byte r a)"
  using assms disjoint_find [of "gm_regions m" r "unat a"] by (simp add: byte_at_def memory_wf_def)

lemma disjoint_iff_covered_once:
  "sorted_wrt (\<lambda>r s. region_span r \<inter> region_span s = {}) rs \<longleftrightarrow>
     (\<forall>x. length (filter (\<lambda>r. x \<in> region_span r) rs) \<le> 1)"
proof (induction rs)
  case (Cons r rs)
  have "(\<forall>s \<in> set rs. region_span r \<inter> region_span s = {}) \<longleftrightarrow>
      (\<forall>x \<in> region_span r. length (filter (\<lambda>r. x \<in> region_span r) rs) = 0)"
    by (auto simp: filter_empty_conv)
  with Cons show ?case by (auto simp: le_Suc_eq)
qed simp

lemma length_filter_mset: "mset xs = mset ys \<Longrightarrow> length (filter P xs) = length (filter P ys)"
  by (metis mset_filter size_mset)

section \<open>Mapped ranges\<close>

lemma mapped_walk_iff:
  assumes "sorted (map mr_base rs)" and "list_all region_ok rs" and "cursor < e"
  shows "mapped_walk rs cursor e \<longleftrightarrow> (\<forall>x. unat cursor \<le> x \<and> x < unat e \<longrightarrow> (\<exists>r \<in> set rs. x \<in> region_span r))"
  using assms
proof (induction rs cursor e rule: mapped_walk.induct)
  case (1 cursor e)
  then show ?case by (auto simp: word_less_nat_alt)
next
  case (2 r rs cursor e)
  have ok: "region_ok r" "list_all region_ok rs" "sorted (map mr_base rs)" using "2.prems" by simp_all
  note re = region_end_ok [OF ok(1)]
  have span: "x \<in> region_span r \<longleftrightarrow> unat (mr_base r) \<le> x \<and> x < unat (region_end r)" for x
    by (simp add: region_span_def re)
  have ce: "unat cursor < unat e" using "2.prems"(3) by (simp add: word_less_nat_alt)
  consider "cursor < mr_base r" | "\<not> cursor < mr_base r" "region_end r \<le> cursor"
    | "\<not> cursor < mr_base r" "\<not> region_end r \<le> cursor" "e \<le> region_end r"
    | "\<not> cursor < mr_base r" "\<not> region_end r \<le> cursor" "region_end r < e" by fastforce
  then show ?case
  proof cases
    case 1
    have "unat cursor \<notin> region_span s" if "s \<in> set (r # rs)" for s
      using "2.prems"(1) that 1 by (auto simp: region_span_def word_less_nat_alt word_le_nat_alt)
    then have "\<not> (\<forall>x. unat cursor \<le> x \<and> x < unat e \<longrightarrow> (\<exists>s \<in> set (r # rs). x \<in> region_span s))"
      using ce by blast
    then show ?thesis using 1 by simp
  next
    case 2
    then have "x \<notin> region_span r" if "unat cursor \<le> x" for x using that by (simp add: span word_le_nat_alt)
    then show ?thesis using "2.IH"(1) [OF 2 ok(3,2) "2.prems"(3)] 2 by auto
  next
    case 3
    then have "x \<in> region_span r" if "unat cursor \<le> x" "x < unat e" for x
      using that by (simp add: span word_le_nat_alt word_less_nat_alt)
    then show ?thesis using 3 by (auto simp: Let_def min_def)
  next
    case 4
    let ?c = "region_end r"
    have c: "min ?c e = ?c" "\<not> e \<le> ?c" "?c < e" using 4 by (simp_all add: min_absorb1 less_imp_le)
    have r: "unat (mr_base r) \<le> unat cursor" "unat cursor < unat ?c"
      using 4 by (simp_all add: word_less_nat_alt word_le_nat_alt)
    have "mapped_walk (r # rs) cursor e = mapped_walk rs ?c e" using 4 c by (simp add: Let_def)
    also have "\<dots> \<longleftrightarrow> (\<forall>x. unat ?c \<le> x \<and> x < unat e \<longrightarrow> (\<exists>r \<in> set rs. x \<in> region_span r))"
      using "2.IH"(2) [OF 4(1,2) refl] c ok by simp
    also have "\<dots> \<longleftrightarrow> (\<forall>x. unat cursor \<le> x \<and> x < unat e \<longrightarrow> (\<exists>r \<in> set (r # rs). x \<in> region_span r))"
    proof (intro iffI allI impI)
      fix x assume h: "\<forall>x. unat ?c \<le> x \<and> x < unat e \<longrightarrow> (\<exists>r \<in> set rs. x \<in> region_span r)" and x: "unat cursor \<le> x \<and> x < unat e"
      show "\<exists>r \<in> set (r # rs). x \<in> region_span r"
        using h x r by (cases "x < unat ?c") (auto simp: span)
    next
      fix x assume h: "\<forall>x. unat cursor \<le> x \<and> x < unat e \<longrightarrow> (\<exists>r \<in> set (r # rs). x \<in> region_span r)" and x: "unat ?c \<le> x \<and> x < unat e"
      have "x \<notin> region_span r" using x by (simp add: span)
      moreover have "\<exists>r \<in> set (r # rs). x \<in> region_span r" using h x r by auto
      ultimately show "\<exists>r \<in> set rs. x \<in> region_span r" by auto
    qed
    finally show ?thesis .
  qed
qed

lemma checked_add_Some: "checked_add a b = Some c \<longleftrightarrow> unat a + unat b < 2 ^ 64 \<and> c = a + b"
  using no_olen_add_nat [of a b] by (auto simp: checked_add_def not_less)

lemma checked_add_None: "checked_add a b = None \<longleftrightarrow> 2 ^ 64 \<le> unat a + unat b"
  using no_olen_add_nat [of a b] by (auto simp: checked_add_def not_less)

lemma unat_add_fits: "unat a + unat b < 2 ^ 64 \<Longrightarrow> unat (a + b :: u64) = unat a + unat b"
  by (simp add: unat_word_ariths)

lemma is_range_mapped_spans:
  assumes "list_all region_ok (gm_regions m)"
  shows "is_range_mapped m a sz \<longleftrightarrow> sz \<noteq> 0 \<and> unat a + unat sz < 2 ^ 64 \<and>
     (\<forall>x. unat a \<le> x \<and> x < unat a + unat sz \<longrightarrow> (\<exists>r \<in> set (gm_regions m). x \<in> region_span r))"
proof (cases "checked_add a sz")
  case None
  then have "\<not> unat a + unat sz < 2 ^ 64" unfolding checked_add_None by simp
  with None show ?thesis unfolding is_range_mapped_def None option.case by blast
next
  case (Some e)
  then have e: "unat a + unat sz < 2 ^ 64" "e = a + sz" by (simp_all add: checked_add_Some)
  show ?thesis
  proof (cases "sz = 0")
    case False
    then have lt: "a < e" using unat_add_fits [OF e(1)] e(2) by (simp add: word_less_nat_alt unat_gt_0)
    have "list_all region_ok (sort_key mr_base (gm_regions m))" using assms by (simp add: list_all_iff)
    from mapped_walk_iff [OF _ this lt] show ?thesis
      using False e Some unat_add_fits [OF e(1)] by (simp add: is_range_mapped_def)
  qed (simp add: is_range_mapped_def split: option.split)
qed

lemma is_range_mapped_bytes:
  assumes "list_all region_ok (gm_regions m)"
  shows "is_range_mapped m a sz \<longleftrightarrow> sz \<noteq> 0 \<and> unat a + unat sz < 2 ^ 64 \<and>
     (\<forall>x. unat a \<le> unat x \<and> unat x < unat a + unat sz \<longrightarrow> byte_at m x \<noteq> None)"
proof -
  have "(\<forall>x. unat a \<le> x \<and> x < unat a + unat sz \<longrightarrow> (\<exists>r \<in> set (gm_regions m). x \<in> region_span r)) \<longleftrightarrow>
        (\<forall>x. unat a \<le> unat x \<and> unat x < unat a + unat sz \<longrightarrow> (\<exists>r \<in> set (gm_regions m). unat (x :: u64) \<in> region_span r))"
    if fit: "unat a + unat sz < 2 ^ 64"
  proof (intro iffI allI impI)
    fix x assume h: "\<forall>x. unat a \<le> unat x \<and> unat x < unat a + unat sz \<longrightarrow> (\<exists>r \<in> set (gm_regions m). unat (x :: u64) \<in> region_span r)"
      and x: "unat a \<le> x \<and> x < unat a + unat sz"
    have "unat (word_of_nat x :: u64) = x" using x fit by (simp add: unsigned_of_nat take_bit_nat_eq_self)
    with h x show "\<exists>r \<in> set (gm_regions m). x \<in> region_span r" by metis
  qed blast
  then show ?thesis unfolding is_range_mapped_spans [OF assms] byte_at_None by blast
qed

section \<open>Changing the protection of a rng\<close>

text \<open>A piece cut from a region has the region's bytes.\<close>

definition piece_of :: "MemoryRegion \<Rightarrow> MemoryRegion \<Rightarrow> bool" where
  "piece_of r q = (region_ok q \<and> region_span q \<subseteq> region_span r \<and>
     (\<forall>x. unat x \<in> region_span q \<longrightarrow> snd (region_byte q x) = snd (region_byte r x)))"

lemma region_slice_piece:
  assumes "region_ok r" and "mr_base r \<le> b" and "b \<le> e" and "e \<le> region_end r"
  obtains q where "region_slice r b e f = Some q" "piece_of r q" "region_span q = {unat b ..< unat e}" "mr_flags q = f"
proof -
  have n: "unat (b - mr_base r) = unat b - unat (mr_base r)" "unat (e - mr_base r) = unat e - unat (mr_base r)"
    "unat (e - b) = unat e - unat b" using assms(2,3) by (simp_all add: unat_sub)
  have le: "unat (mr_base r) \<le> unat b" "unat b \<le> unat e" "unat e \<le> unat (mr_base r) + unat (mr_size r)"
    using assms region_end_ok [OF assms(1)] by (simp_all add: word_le_nat_alt)
  have dat: "length (mr_data r) = unat (mr_size r)" "unat (mr_base r) + unat (mr_size r) < 2 ^ 64"
    using assms(1) by (simp_all add: region_ok_def)
  let ?q = "\<lparr>mr_base = b, mr_size = e - b, mr_flags = f,
      mr_data = take (unat (e - mr_base r) - unat (b - mr_base r)) (drop (unat (b - mr_base r)) (mr_data r))\<rparr>"
  have "unat (b - mr_base r) \<le> unat (e - mr_base r) \<and> unat (e - mr_base r) \<le> length (mr_data r)"
    using le dat unfolding n by linarith
  then have "region_slice r b e f = Some ?q" unfolding region_slice_def Let_def by simp
  moreover have span: "region_span ?q = {unat b ..< unat e}" using le by (simp add: region_span_def n)
  moreover have "piece_of r ?q"
    unfolding piece_of_def span using le dat
    by (auto simp: region_ok_def n region_span_def region_byte_def nth_append)
  ultimately show thesis by (intro that [of ?q]) simp_all
qed

text \<open>What a remap leaves of one region.\<close>

definition remap_byte :: "nat set \<Rightarrow> u32 option \<Rightarrow> nat \<Rightarrow> u32 \<times> u8 \<Rightarrow> (u32 \<times> u8) option" where
  "remap_byte rng f x e =
     (if x \<in> rng then (case f of None \<Rightarrow> None | Some fl \<Rightarrow> Some (fl, snd e)) else Some e)"

definition remapped :: "nat set \<Rightarrow> u32 option \<Rightarrow> MemoryRegion \<Rightarrow> MemoryRegion list \<Rightarrow> bool" where
  "remapped rng f r qs =
     (list_all (piece_of r) qs \<and> sorted_wrt (\<lambda>r s. region_span r \<inter> region_span s = {}) qs \<and>
      (\<forall>q \<in> set qs. \<forall>x. unat x \<in> region_span q \<longrightarrow> remap_byte rng f (unat x) (region_byte r x) = Some (region_byte q x)) \<and>
      (\<forall>x. unat x \<in> region_span r \<longrightarrow> (\<exists>q \<in> set qs. unat x \<in> region_span q) = (remap_byte rng f (unat x) (region_byte r x) \<noteq> None)))"

lemma piece_byte: "piece_of r q \<Longrightarrow> unat x \<in> region_span q \<Longrightarrow> region_byte q x = (mr_flags q, snd (region_byte r x))"
  by (simp add: piece_of_def region_byte_def)

lemma remap_region_remapped:
  assumes "region_ok r"
  shows "\<exists>qs. remap_region a e f r = Some qs \<and> remapped {unat a ..< unat e} f r qs"
proof -
  define s t where "s = max (mr_base r) a" and "t = min (region_end r) e"
  have re: "unat (region_end r) = unat (mr_base r) + unat (mr_size r)" by (rule region_end_ok [OF assms])
  have base: "mr_base r \<le> region_end r" using re by (simp add: word_le_nat_alt)
  have span: "region_span r = {unat (mr_base r) ..< unat (region_end r)}" by (simp add: region_span_def re)
  show ?thesis
  proof (cases "t \<le> s")
    case True
    then have "{unat a ..< unat e} \<inter> region_span r = {}"
      by (auto simp: s_def t_def span word_le_nat_alt max_def min_def split: if_splits)
    then have "remapped {unat a ..< unat e} f r [r]"
      using assms by (auto simp: remapped_def piece_of_def remap_byte_def)
    then show ?thesis using True by (simp add: remap_region_def Let_def s_def t_def)
  next
    case False
    then have st: "mr_base r \<le> s" "s \<le> t" "t \<le> region_end r" "mr_base r \<le> t" "s \<le> region_end r"
    proof -
      show 1: "mr_base r \<le> s" "t \<le> region_end r" by (simp_all add: s_def t_def)
      show 2: "s \<le> t" using False by simp
      show "mr_base r \<le> t" "s \<le> region_end r" using order_trans [OF 1(1) 2] order_trans [OF 2 1(2)] .
    qed
    have in_range: "unat (mr_base r) \<le> x \<Longrightarrow> x < unat (region_end r) \<Longrightarrow> x \<in> {unat a ..< unat e} \<longleftrightarrow> unat s \<le> x \<and> x < unat t" for x
      by (auto simp: s_def t_def max_def min_def word_le_nat_alt)
    have nat: "unat (mr_base r) \<le> unat s" "unat s \<le> unat t" "unat t \<le> unat (region_end r)" using st by (simp_all add: word_le_nat_alt)
    obtain q1 where q1: "region_slice r (mr_base r) s (mr_flags r) = Some q1" "piece_of r q1"
      "region_span q1 = {unat (mr_base r) ..< unat s}" "mr_flags q1 = mr_flags r"
      by (rule region_slice_piece [OF assms order_refl st(1) st(5)])
    obtain q3 where q3: "region_slice r t (region_end r) (mr_flags r) = Some q3" "piece_of r q3"
      "region_span q3 = {unat t ..< unat (region_end r)}" "mr_flags q3 = mr_flags r"
      by (rule region_slice_piece [OF assms st(4,3) order_refl])
    let ?pre = "if mr_base r < s then [q1] else []" and ?post = "if t < region_end r then [q3] else []"
    have edge: "\<not> mr_base r < s \<Longrightarrow> unat s \<le> unat (mr_base r)" "\<not> t < region_end r \<Longrightarrow> unat (region_end r) \<le> unat t"
      by (simp_all add: word_less_nat_alt)
    have byte: "region_byte r x = (mr_flags r, snd (region_byte r x))" for x by (simp add: region_byte_def)
    show ?thesis
    proof (cases f)
      case None
      have "remap_region a e f r = Some (?pre @ ?post)"
        using False q1(1) q3(1) by (simp add: remap_region_def Let_def None flip: s_def t_def)
      moreover have "remapped {unat a ..< unat e} f r (?pre @ ?post)"
        unfolding remapped_def None
        using q1 q3 nat edge in_range piece_byte [OF q1(2)] piece_byte [OF q3(2)] byte
        by (auto simp: remap_byte_def span)
      ultimately show ?thesis by blast
    next
      case (Some fl)
      obtain q2 where q2: "region_slice r s t fl = Some q2" "piece_of r q2"
        "region_span q2 = {unat s ..< unat t}" "mr_flags q2 = fl"
        by (rule region_slice_piece [OF assms st(1,2,3)])
      have "remap_region a e f r = Some (?pre @ [q2] @ ?post)"
        using False q1(1) q2(1) q3(1) by (simp add: remap_region_def Let_def Some flip: s_def t_def)
      moreover have "remapped {unat a ..< unat e} f r (?pre @ [q2] @ ?post)"
        unfolding remapped_def Some
        using q1 q2 q3 nat edge in_range piece_byte [OF q1(2)] piece_byte [OF q2(2)] piece_byte [OF q3(2)] byte
        by (auto simp: remap_byte_def span)
      ultimately show ?thesis by blast
    qed
  qed
qed

lemma those_map_Some: "(\<And>x. x \<in> set xs \<Longrightarrow> f x = Some (g x)) \<Longrightarrow> those (map f xs) = Some (map g xs)"
  by (induction xs) simp_all

lemma covered_once_pieces:
  assumes "\<And>r. r \<in> set rs \<Longrightarrow> remapped rng f r (qs r)"
  shows "length (filter (\<lambda>q. x \<in> region_span q) (concat (map qs rs))) \<le> length (filter (\<lambda>r. x \<in> region_span r) rs)"
  using assms
proof (induction rs)
  case (Cons r rs)
  have p: "list_all (piece_of r) (qs r)" "\<forall>x. length (filter (\<lambda>q. x \<in> region_span q) (qs r)) \<le> 1"
    using Cons.prems [of r] by (simp_all add: remapped_def disjoint_iff_covered_once)
  have "length (filter (\<lambda>q. x \<in> region_span q) (qs r)) \<le> (if x \<in> region_span r then 1 else 0)"
    using p by (auto simp: filter_empty_conv list_all_iff piece_of_def)
  moreover have "length (filter (\<lambda>q. x \<in> region_span q) (concat (map qs rs))) \<le> length (filter (\<lambda>r. x \<in> region_span r) rs)"
    using Cons by simp
  ultimately show ?case by (auto split: if_splits)
qed simp

lemma remap_range_view:
  fixes a sz :: u64
  assumes wf: "memory_wf m"
  defines "rng \<equiv> {unat a ..< unat (word_sat_add a sz)}"
  obtains m' where "remap_range m a sz f = Some m'" "memory_wf m'"
    "\<And>x. byte_at m' x = Option.bind (byte_at m x) (remap_byte rng f (unat x))"
proof -
  let ?rs = "gm_regions m" and ?e = "word_sat_add a sz"
  define qs where "qs r = the (remap_region a ?e f r)" for r
  have ok: "region_ok r" if "r \<in> set ?rs" for r using wf that by (auto simp: memory_wf_def list_all_iff)
  have rm: "remap_region a ?e f r = Some (qs r)" "remapped rng f r (qs r)" if "r \<in> set ?rs" for r
    using remap_region_remapped [OF ok [OF that], of a ?e f] by (auto simp: qs_def rng_def)
  define m' where "m' = m\<lparr>gm_regions := sort_key mr_base (concat (map qs ?rs))\<rparr>"
  have set': "set (gm_regions m') = (\<Union>r \<in> set ?rs. set (qs r))" by (simp add: m'_def)
  have "remap_range m a sz f = Some m'"
    using those_map_Some [of ?rs "remap_region a ?e f" qs, OF rm(1)] by (simp add: remap_range_def m'_def)
  moreover have wf': "memory_wf m'"
    unfolding memory_wf_def disjoint_iff_covered_once
  proof (intro conjI allI)
    show "list_all region_ok (gm_regions m')"
      using rm(2) by (auto simp: list_all_iff set' remapped_def piece_of_def)
    fix x
    have "length (filter (\<lambda>r. x \<in> region_span r) (gm_regions m')) = length (filter (\<lambda>r. x \<in> region_span r) (concat (map qs ?rs)))"
      by (rule length_filter_mset) (simp add: m'_def)
    also have "\<dots> \<le> length (filter (\<lambda>r. x \<in> region_span r) ?rs)" by (rule covered_once_pieces [OF rm(2)])
    also have "\<dots> \<le> 1" using wf by (simp add: memory_wf_def disjoint_iff_covered_once)
    finally show "length (filter (\<lambda>r. x \<in> region_span r) (gm_regions m')) \<le> 1" .
  qed
  moreover have "byte_at m' x = Option.bind (byte_at m x) (remap_byte rng f (unat x))" for x
  proof (cases "byte_at m x")
    case None
    then have "unat x \<notin> region_span q" if "q \<in> set (gm_regions m')" for q
      using that rm(2) unfolding byte_at_None set' by (force simp: remapped_def list_all_iff piece_of_def)
    then have "byte_at m' x = None" unfolding byte_at_None by blast
    then show ?thesis by (simp add: None)
  next
    case (Some b)
    then obtain r where r: "r \<in> set ?rs" "unat x \<in> region_span r" using byte_at_None [of m x] by auto
    have b: "b = region_byte r x" using byte_at_region [OF wf r] Some by simp
    note re = rm(2) [OF r(1), unfolded remapped_def]
    show ?thesis
    proof (cases "\<exists>q \<in> set (qs r). unat x \<in> region_span q")
      case True
      then obtain q where q: "q \<in> set (qs r)" "unat x \<in> region_span q" by blast
      have "byte_at m' x = Some (region_byte q x)" using q r(1) by (intro byte_at_region [OF wf']) (auto simp: set')
      moreover have "remap_byte rng f (unat x) (region_byte r x) = Some (region_byte q x)" using re q by blast
      ultimately show ?thesis by (simp add: Some b)
    next
      case False
      then have none: "remap_byte rng f (unat x) (region_byte r x) = None" using re r(2) by blast
      have "unat x \<notin> region_span q" if "q \<in> set (gm_regions m')" for q
      proof
        assume x: "unat x \<in> region_span q"
        from that obtain r' where r': "r' \<in> set ?rs" "q \<in> set (qs r')" by (auto simp: set')
        have "unat x \<in> region_span r'" using rm(2) [OF r'(1)] r'(2) x by (auto simp: remapped_def list_all_iff piece_of_def)
        then have "r' = r"
          using disjoint_find [of ?rs r "unat x"] disjoint_find [of ?rs r' "unat x"] wf r r'(1) by (simp add: memory_wf_def)
        with r' x False show False by blast
      qed
      then have "byte_at m' x = None" unfolding byte_at_None by blast
      then show ?thesis using none by (simp add: Some b)
    qed
  qed
  ultimately show thesis by (rule that)
qed

lemma byte_at_below_max:
  assumes "memory_wf m" and "byte_at m x \<noteq> None"
  shows "unat x < 2 ^ 64 - 1"
proof -
  obtain r where "r \<in> set (gm_regions m)" "unat x \<in> region_span r" using assms(2) unfolding byte_at_None by blast
  with assms(1) show ?thesis by (auto simp: memory_wf_def list_all_iff region_ok_def region_span_def)
qed

lemma unat_word_sat_add: "unat (word_sat_add a b :: u64) = min (unat a + unat b) (2 ^ 64 - 1)"
proof (cases "unat a + unat b < 2 ^ 64")
  case True
  then show ?thesis by (simp add: word_sat_add_exact unat_add_fits)
next
  case False
  then have "a + b < a" using no_olen_add_nat [of a b] by (simp add: not_le [symmetric])
  then show ?thesis using False by (simp add: word_sat_add_def unsigned_minus_1_eq_mask mask_eq_exp_minus_1)
qed

lemma remap_range_bytes:
  assumes "memory_wf m"
  obtains m' where "remap_range m a sz f = Some m'" "memory_wf m'"
    "\<And>x. byte_at m' x = Option.bind (byte_at m x) (remap_byte {unat a ..< unat a + unat sz} f (unat x))"
proof -
  obtain m' where m': "remap_range m a sz f = Some m'" "memory_wf m'"
    "\<And>x. byte_at m' x = Option.bind (byte_at m x) (remap_byte {unat a ..< unat (word_sat_add a sz)} f (unat x))"
    by (rule remap_range_view [OF assms, of a sz f]) (rule that)
  have "Option.bind (byte_at m x) (remap_byte {unat a ..< unat (word_sat_add a sz)} f (unat x)) =
      Option.bind (byte_at m x) (remap_byte {unat a ..< unat a + unat sz} f (unat x))" for x
    using byte_at_below_max [OF assms, of x]
    by (cases "byte_at m x") (simp_all add: remap_byte_def unat_word_sat_add)
  with m' show thesis by (intro that) simp_all
qed

section \<open>What the operations do to the bytes\<close>

lemma find_update: "i < length xs \<Longrightarrow> \<not> P (xs ! i) \<Longrightarrow> \<not> P y \<Longrightarrow> find P (xs[i := y]) = find P xs"
  by (induction xs arbitrary: i) (auto split: nat.splits)

lemma write_bytes_view:
  assumes wf: "memory_wf m" and w: "write_bytes m a bs = Some m'" and len: "length bs < 2 ^ 64"
  shows "memory_wf m'"
    and "byte_at m' x = (if unat a \<le> unat x \<and> unat x < unat a + length bs
           then map_option (\<lambda>b. (fst b, bs ! (unat x - unat a))) (byte_at m x) else byte_at m x)"
    and "unat a \<le> unat x \<Longrightarrow> unat x < unat a + length bs \<Longrightarrow> byte_at m x \<noteq> None"
proof -
  obtain i where i: "region_containing_mut m a (length bs) = Some i" "write_region m i a bs = Some m'"
    by (rule write_bytes_cases [OF w])
  note c = region_containing_mut_Some [OF i(1)] and off = access_offset [OF i(1) len]
  let ?r = "gm_regions m ! i"
  have rin: "?r \<in> set (gm_regions m)" using c(1) by simp
  have ok: "region_ok ?r" using wf rin by (auto simp: memory_wf_def list_all_iff)
  have base: "unat (mr_base ?r) \<le> unat a" using off(2) by (simp add: word_le_nat_alt)
  have "unat (a + word_of_nat (length bs)) = unat a + length bs"
    using off(3) len by (simp add: unat_add_fits unsigned_of_nat take_bit_nat_eq_self)
  then have fits: "unat a + length bs \<le> unat (mr_base ?r) + unat (mr_size ?r)"
    using c(3) region_end_ok [OF ok] by (simp add: word_le_nat_alt)
  let ?off = "unat a - unat (mr_base ?r)"
  define r' where "r' = ?r\<lparr>mr_data := take ?off (mr_data ?r) @ bs @ drop (?off + length bs) (mr_data ?r)\<rparr>"
  have m': "gm_regions m' = (gm_regions m)[i := r']"
    using i(2) by (auto simp: write_region_def Let_def off(1) r'_def split: if_splits)
  have len': "length (mr_data r') = length (mr_data ?r)"
    using fits base ok by (simp add: r'_def region_ok_def)
  have same: "region_span r' = region_span ?r" "region_ok r' = region_ok ?r"
    using len' by (simp_all add: region_span_def region_ok_def r'_def)
  have spans: "map region_span (gm_regions m') = map region_span (gm_regions m)"
    by (simp add: m' map_update same list_update_same_conv c(1))
  have "sorted_wrt (\<lambda>S T. S \<inter> T = {}) (map region_span (gm_regions m'))"
    unfolding spans using wf by (simp add: memory_wf_def sorted_wrt_map)
  moreover have "list_all region_ok (gm_regions m')"
    using wf same ok set_update_subset_insert [of "gm_regions m" i r'] by (auto simp: memory_wf_def list_all_iff m')
  ultimately show wf': "memory_wf m'" by (simp add: memory_wf_def sorted_wrt_map)
  have inr: "unat x \<in> region_span ?r" if "unat a \<le> unat x" "unat x < unat a + length bs" for x :: u64
    using that base fits by (simp add: region_span_def)
  show "byte_at m x \<noteq> None" if "unat a \<le> unat x" "unat x < unat a + length bs"
    using byte_at_region [OF wf rin inr [OF that]] by simp
  show "byte_at m' x = (if unat a \<le> unat x \<and> unat x < unat a + length bs
           then map_option (\<lambda>b. (fst b, bs ! (unat x - unat a))) (byte_at m x) else byte_at m x)"
  proof (cases "unat x \<in> region_span ?r")
    case True
    have "r' \<in> set (gm_regions m')" using c(1) by (simp add: m' set_update_memI)
    then have "byte_at m' x = Some (region_byte r' x)" using True same by (intro byte_at_region [OF wf']) simp_all
    moreover have "byte_at m x = Some (region_byte ?r x)" by (rule byte_at_region [OF wf rin True])
    moreover have "region_byte r' x = (mr_flags ?r, if unat a \<le> unat x \<and> unat x < unat a + length bs
        then bs ! (unat x - unat a) else mr_data ?r ! (unat x - unat (mr_base ?r)))"
      using True base fits ok
      by (auto simp: region_byte_def r'_def nth_append region_span_def region_ok_def min_def)
    ultimately show ?thesis by (simp add: region_byte_def)
  next
    case False
    have "find (\<lambda>r. unat x \<in> region_span r) (gm_regions m') = find (\<lambda>r. unat x \<in> region_span r) (gm_regions m)"
      unfolding m' using False same(1) c(1) by (intro find_update) simp_all
    then show ?thesis using False inr by (auto simp: byte_at_def)
  qed
qed

lemma region_containing_bytes:
  assumes wf: "memory_wf m" and n: "0 < n" "n < 2 ^ 64"
  shows "region_containing_mut m a n = Some i \<longleftrightarrow>
     i < length (gm_regions m) \<and> {unat a ..< unat a + n} \<subseteq> region_span (gm_regions m ! i)"
proof -
  have ok: "region_ok r" if "r \<in> set (gm_regions m)" for r using wf that by (auto simp: memory_wf_def list_all_iff)
  have nn: "unat (word_of_nat n :: u64) = n" using n by (simp add: unsigned_of_nat take_bit_nat_eq_self)
  have holds: "region_holds a (a + word_of_nat n) r \<longleftrightarrow> {unat a ..< unat a + n} \<subseteq> region_span r"
    if "r \<in> set (gm_regions m)" and fit: "unat a + n < 2 ^ 64" for r
  proof -
    have "unat (a + word_of_nat n) = unat a + n" using fit by (simp add: unat_add_fits nn)
    then show ?thesis using n region_end_ok [OF ok [OF that(1)]]
      by (auto simp: region_holds_def region_span_def word_le_nat_alt ivl_subset)
  qed
  have fit: "unat a + n < 2 ^ 64" if "{unat a ..< unat a + n} \<subseteq> region_span r" "r \<in> set (gm_regions m)" for r
    using that n ok [OF that(2)] by (auto simp: region_span_def region_ok_def ivl_subset)
  show ?thesis
  proof
    assume c: "region_containing_mut m a n = Some i"
    note s = region_containing_mut_Some [OF c] and f = access_offset(3) [OF c n(2)]
    show "i < length (gm_regions m) \<and> {unat a ..< unat a + n} \<subseteq> region_span (gm_regions m ! i)"
      using s(1-3) holds [OF nth_mem [OF s(1)] f] by (simp add: region_holds_def)
  next
    assume i: "i < length (gm_regions m) \<and> {unat a ..< unat a + n} \<subseteq> region_span (gm_regions m ! i)"
    then have f: "unat a + n < 2 ^ 64" by (intro fit [of "gm_regions m ! i"]) simp_all
    have "position (region_holds a (a + word_of_nat n)) (gm_regions m) = Some i"
    proof (rule position_nth)
      show "i < length (gm_regions m)" using i by simp
      show "region_holds a (a + word_of_nat n) (gm_regions m ! i)" using i holds [OF _ f] by simp
      have a: "unat a \<in> {unat a ..< unat a + n}" using n by simp
      show "\<forall>j < i. \<not> region_holds a (a + word_of_nat n) (gm_regions m ! j)"
      proof (intro allI impI notI)
        fix j assume j: "j < i" and h: "region_holds a (a + word_of_nat n) (gm_regions m ! j)"
        have "region_span (gm_regions m ! j) \<inter> region_span (gm_regions m ! i) = {}"
          using wf i j by (simp add: memory_wf_def sorted_wrt_iff_nth_less)
        moreover have "{unat a ..< unat a + n} \<subseteq> region_span (gm_regions m ! j)" using holds [OF _ f, of "gm_regions m ! j"] h i j by simp
        ultimately show False using i a by blast
      qed
    qed
    moreover have "checked_add a (word_of_nat n) = Some (a + word_of_nat n)" using f by (simp add: checked_add_Some nn)
    ultimately show "region_containing_mut m a n = Some i" by (simp add: region_containing_mut_def)
  qed
qed

lemma access_succeeds:
  assumes wf: "memory_wf m" and n: "0 < n" "n < 2 ^ 64" and c: "region_containing_mut m a n = Some i"
  shows "region_read (gm_regions m ! i) a n \<noteq> None" and "length bs = n \<Longrightarrow> write_region m i a bs \<noteq> None"
proof -
  have i: "i < length (gm_regions m)" "{unat a ..< unat a + n} \<subseteq> region_span (gm_regions m ! i)"
    using c unfolding region_containing_bytes [OF wf n] by simp_all
  have "region_ok (gm_regions m ! i)" using wf i(1) by (simp add: memory_wf_def list_all_length)
  then have "unat (a - mr_base (gm_regions m ! i)) + n \<le> length (mr_data (gm_regions m ! i))"
    using i(2) n access_offset(1) [OF c n(2)] by (auto simp: region_span_def region_ok_def ivl_subset)
  then show "region_read (gm_regions m ! i) a n \<noteq> None" "length bs = n \<Longrightarrow> write_region m i a bs \<noteq> None"
    by (simp_all add: region_read_def slice_get_def write_region_def Let_def)
qed

text \<open>Stores are read back. After a permitted write the same range reads back exactly the bytes written,
  every range apart from it reads as before, and exactly the accesses that were served before are served.\<close>

theorem write_read_round_trip:
  assumes "write_bytes_checked m a bs = Some m'" and "length bs < 2 ^ 64"
  shows "read_bytes m' a (length bs) = Some bs \<and>
     (read_bytes_checked m a (length bs) \<noteq> None \<longrightarrow> read_bytes_checked m' a (length bs) = Some bs) \<and>
     (\<forall>b k. apart a (length bs) b k \<and> k < 2 ^ 64 \<longrightarrow>
        read_bytes m' b k = read_bytes m b k \<and> read_bytes_checked m' b k = read_bytes_checked m b k) \<and>
     (\<forall>b cs. (write_bytes_checked m' b cs = None) = (write_bytes_checked m b cs = None))"
proof -
  note w = write_bytes_checked_imp [OF assms(1)]
  show ?thesis
    using write_bytes_read(1) [OF w] checked.read_written [OF assms(1)] raw.read_apart [OF w _ assms(2)]
      checked.read_apart [OF assms(1) _ assms(2)] checked.write_again [OF assms(1)] by auto
qed

text \<open>Typed stores are read back: little-endian encoding and decoding of 16-, 32- and 64-bit values cancel.\<close>

theorem typed_store_load:
  "(case write_u16_checked m a v of None \<Rightarrow> True | Some m' \<Rightarrow> read_u16 m' a = Some v) \<and>
   (case write_u32_checked m a w of None \<Rightarrow> True | Some m' \<Rightarrow> read_u32 m' a = Some w) \<and>
   (case write_u64_checked m a x of None \<Rightarrow> True | Some m' \<Rightarrow> read_u64 m' a = Some x)"
  using write_bytes_read(1) [OF write_bytes_checked_imp, of m a]
  by (auto simp: write_u16_checked_def write_u32_checked_def write_u64_checked_def read_u16_def read_u32_def read_u64_def
      le_bytes_round_trip split: option.split dest!: write_bytes_read(1) [OF write_bytes_checked_imp])

text \<open>C15: a write changes exactly its bytes. On a well-formed memory, seen as a map from addresses to permission
  and byte, a write replaces the bytes of its range, all of which were mapped, and keeps their permissions
  and every other byte; the memory stays well formed.\<close>

theorem write_updates_exactly:
  assumes "memory_wf m" and "write_bytes_checked m a bs = Some m'" and "length bs < 2 ^ 64"
  shows "memory_wf m' \<and>
     (\<forall>x. byte_at m' x = (if unat a \<le> unat x \<and> unat x < unat a + length bs
           then map_option (\<lambda>b. (fst b, bs ! (unat x - unat a))) (byte_at m x) else byte_at m x)) \<and>
     (\<forall>x. unat a \<le> unat x \<and> unat x < unat a + length bs \<longrightarrow> byte_at m x \<noteq> None)"
  using write_bytes_view [OF assms(1) write_bytes_checked_imp [OF assms(2)] assms(3)] by blast

text \<open>C16: when an access faults. On a well-formed memory a non-empty checked read or write succeeds exactly when
  one region with the permission covers the whole range; a range that crosses into another region,
  leaves the mapped memory, wraps around the address space or lacks the permission faults.\<close>

theorem access_fault_iff:
  assumes "memory_wf m" and "bs \<noteq> []" and "length bs < 2 ^ 64"
  shows "(write_bytes_checked m a bs \<noteq> None \<longleftrightarrow>
       (\<exists>r \<in> set (gm_regions m). has_flags MEM_WRITE r \<and> {unat a ..< unat a + length bs} \<subseteq> region_span r)) \<and>
     (read_bytes_checked m a (length bs) \<noteq> None \<longleftrightarrow>
       (\<exists>r \<in> set (gm_regions m). has_flags MEM_READ r \<and> {unat a ..< unat a + length bs} \<subseteq> region_span r))"
proof -
  have n: "0 < length bs" "length bs < 2 ^ 64" using assms(2,3) by simp_all
  note c = region_containing_bytes [OF assms(1) n] and s = access_succeeds [OF assms(1) n]
  have some: "(\<exists>r \<in> set (gm_regions m). has_flags f r \<and> {unat a ..< unat a + length bs} \<subseteq> region_span r) \<longleftrightarrow>
      (\<exists>i. region_containing_mut m a (length bs) = Some i \<and> has_flags f (gm_regions m ! i))" for f
    unfolding c by (metis in_set_conv_nth)
  show ?thesis unfolding some write_bytes_checked_plain read_bytes_checked_plain write_bytes_def read_bytes_position
    using s by (auto split: option.split)
qed

text \<open>C25: changing protection. \<open>mprotect\<close> succeeds exactly when the range is non-empty, does not wrap and is mapped
  throughout; then it gives every byte of the range the new permissions, keeps all bytes and all other
  permissions, and never panics. Otherwise nothing changes.\<close>

theorem protect_range_exact:
  assumes "memory_wf m"
  shows "\<exists>ok m'. protect_range m a sz f = Some (ok, m') \<and> memory_wf m' \<and>
     (ok \<longleftrightarrow> sz \<noteq> 0 \<and> unat a + unat sz < 2 ^ 64 \<and>
        (\<forall>x. unat a \<le> unat x \<and> unat x < unat a + unat sz \<longrightarrow> byte_at m x \<noteq> None)) \<and>
     (\<forall>x. byte_at m' x = (if ok \<and> unat a \<le> unat x \<and> unat x < unat a + unat sz
        then map_option (\<lambda>b. (f, snd b)) (byte_at m x) else byte_at m x))"
proof (cases "is_range_mapped m a sz")
  case True
  obtain m' where m': "remap_range m a sz (Some f) = Some m'" "memory_wf m'"
    "\<And>x. byte_at m' x = Option.bind (byte_at m x) (remap_byte {unat a ..< unat a + unat sz} (Some f) (unat x))"
    by (rule remap_range_bytes [OF assms, of a sz "Some f"]) (rule that)
  have "byte_at m' x = (if unat a \<le> unat x \<and> unat x < unat a + unat sz
        then map_option (\<lambda>b. (f, snd b)) (byte_at m x) else byte_at m x)" for x
    unfolding m'(3) by (cases "byte_at m x") (simp_all add: remap_byte_def)
  then show ?thesis using True m' is_range_mapped_bytes [of m a sz] assms
    by (auto simp: protect_range_def memory_wf_def)
next
  case False
  then show ?thesis using is_range_mapped_bytes [of m a sz] assms by (auto simp: protect_range_def memory_wf_def)
qed

text \<open>Unmapping removes exactly the bytes of the range, splitting the regions it cuts, and never panics.\<close>

theorem unmap_range_exact:
  assumes "memory_wf m"
  shows "\<exists>m'. unmap_range m a sz = Some m' \<and> memory_wf m' \<and>
     (\<forall>x. byte_at m' x = (if unat a \<le> unat x \<and> unat x < unat a + unat sz then None else byte_at m x))"
proof -
  obtain m' where m': "remap_range m a sz None = Some m'" "memory_wf m'"
    "\<And>x. byte_at m' x = Option.bind (byte_at m x) (remap_byte {unat a ..< unat a + unat sz} None (unat x))"
    by (rule remap_range_bytes [OF assms, of a sz None]) (rule that)
  have "byte_at m' x = (if unat a \<le> unat x \<and> unat x < unat a + unat sz then None else byte_at m x)" for x
    unfolding m'(3) by (cases "byte_at m x") (simp_all add: remap_byte_def)
  then show ?thesis using m' by (auto simp: unmap_range_def)
qed

text \<open>A readable and writable page next to an executable one.\<close>

definition sample_memory :: GuestMemory where
  "sample_memory = \<lparr>gm_regions =
     [\<lparr>mr_base = 0x1000, mr_size = 16, mr_flags = 0b110, mr_data = replicate 16 0\<rparr>,
      \<lparr>mr_base = 0x1010, mr_size = 8, mr_flags = 0b101, mr_data = replicate 8 7\<rparr>]\<rparr>"

lemma sample_memory_wf: "memory_wf sample_memory"
  by (simp add: sample_memory_def memory_wf_def region_ok_def region_span_def)

lemma sample_write: "write_bytes_checked sample_memory 0x1004 [1, 2] \<noteq> None"
  by code_simp

lemma write_read_round_trip_witness:
  "read_bytes (the (write_bytes_checked sample_memory 0x1004 [1, 2])) 0x1004 2 = Some [1, 2]"
proof -
  obtain m' where m': "write_bytes_checked sample_memory 0x1004 [1, 2] = Some m'" using sample_write by auto
  have "length [1 :: u8, 2] < 2 ^ 64" by simp
  from write_read_round_trip [OF m' this, THEN conjunct1] show ?thesis unfolding m' by (simp add: numeral_2_eq_2)
qed

lemma write_updates_exactly_witness:
  "memory_wf (the (write_bytes_checked sample_memory 0x1004 [1, 2]))"
  using sample_write write_updates_exactly [OF sample_memory_wf, where a = "0x1004" and bs = "[1, 2]"] by auto

lemma access_fault_iff_witness:
  "write_bytes_checked sample_memory 0x100F [1, 2] = None \<and> write_bytes_checked sample_memory 0x1010 [1] = None"
  using access_fault_iff [OF sample_memory_wf, where bs = "[1, 2]" and a = "0x100F"] access_fault_iff [OF sample_memory_wf, where bs = "[1]" and a = "0x1010"]
  by (simp add: sample_memory_def region_span_def has_flags_def MEM_WRITE_def)

lemma protect_range_exact_witness:
  "\<exists>m'. protect_range sample_memory 0x1008 8 0b100 = Some (True, m') \<and> memory_wf m'"
proof -
  have "is_range_mapped sample_memory 0x1008 8" by code_simp
  with protect_range_exact [OF sample_memory_wf, where a = "0x1008" and sz = 8 and f = "0b100"] show ?thesis
    by (auto simp: protect_range_def)
qed

lemma unmap_range_exact_witness: "\<exists>m'. unmap_range sample_memory 0x1008 8 = Some m' \<and> byte_at m' 0x1008 = None"
  using unmap_range_exact [OF sample_memory_wf, where a = "0x1008" and sz = 8] by auto

end
