(* ===== verification/Guest_Runtime.thy ===== *)
theory Guest_Runtime
  imports Guest_Memory
begin

text \<open>
  From an ELF file to a booted guest: \<^verbatim>\<open>crates/elf/src/lib.rs\<close> and the rest of
  \<^verbatim>\<open>crates/runtime/src/lib.rs\<close> (configuration, bootstrap, the initial user stack, the host
  call shim). The \<open>goblin\<close> parser, the file system and the C library are parameters: the parser is a
  function from the bytes of the file to its header fields, and the host calls are the functions of a
  record. A Rust string is the list of the bytes of its UTF-8 encoding.
\<close>

unbundle bit_operations_syntax

section \<open>Constants\<close>

text \<open>The Linux system call numbers and auxiliary vector keys the runtime and the executor know.\<close>

abbreviation SYS_GETCWD :: u64 where
  "SYS_GETCWD \<equiv> 17"

abbreviation SYS_EVENTFD2 :: u64 where
  "SYS_EVENTFD2 \<equiv> 19"

abbreviation SYS_EPOLL_CREATE1 :: u64 where
  "SYS_EPOLL_CREATE1 \<equiv> 20"

abbreviation SYS_EPOLL_CTL :: u64 where
  "SYS_EPOLL_CTL \<equiv> 21"

abbreviation SYS_EPOLL_PWAIT :: u64 where
  "SYS_EPOLL_PWAIT \<equiv> 22"

abbreviation SYS_DUP3 :: u64 where
  "SYS_DUP3 \<equiv> 24"

abbreviation SYS_FCNTL :: u64 where
  "SYS_FCNTL \<equiv> 25"

abbreviation SYS_IOCTL :: u64 where
  "SYS_IOCTL \<equiv> 29"

abbreviation SYS_READ :: u64 where
  "SYS_READ \<equiv> 63"

abbreviation SYS_WRITE :: u64 where
  "SYS_WRITE \<equiv> 64"

abbreviation SYS_OPENAT :: u64 where
  "SYS_OPENAT \<equiv> 56"

abbreviation SYS_CLOSE :: u64 where
  "SYS_CLOSE \<equiv> 57"

abbreviation SYS_PIPE2 :: u64 where
  "SYS_PIPE2 \<equiv> 59"

abbreviation SYS_LSEEK :: u64 where
  "SYS_LSEEK \<equiv> 62"

abbreviation SYS_PSELECT6 :: u64 where
  "SYS_PSELECT6 \<equiv> 72"

abbreviation SYS_PPOLL :: u64 where
  "SYS_PPOLL \<equiv> 73"

abbreviation SYS_READLINKAT :: u64 where
  "SYS_READLINKAT \<equiv> 78"

abbreviation SYS_NEWFSTATAT :: u64 where
  "SYS_NEWFSTATAT \<equiv> 79"

abbreviation SYS_FSTAT :: u64 where
  "SYS_FSTAT \<equiv> 80"

abbreviation SYS_FUTEX :: u64 where
  "SYS_FUTEX \<equiv> 98"

abbreviation SYS_SET_TID_ADDRESS :: u64 where
  "SYS_SET_TID_ADDRESS \<equiv> 96"

abbreviation SYS_SET_ROBUST_LIST :: u64 where
  "SYS_SET_ROBUST_LIST \<equiv> 99"

abbreviation SYS_SETGID :: u64 where
  "SYS_SETGID \<equiv> 144"

abbreviation SYS_SETUID :: u64 where
  "SYS_SETUID \<equiv> 146"

abbreviation SYS_SETRESUID :: u64 where
  "SYS_SETRESUID \<equiv> 147"

abbreviation SYS_GETRESUID :: u64 where
  "SYS_GETRESUID \<equiv> 148"

abbreviation SYS_SETRESGID :: u64 where
  "SYS_SETRESGID \<equiv> 149"

abbreviation SYS_GETRESGID :: u64 where
  "SYS_GETRESGID \<equiv> 150"

abbreviation SYS_UNAME :: u64 where
  "SYS_UNAME \<equiv> 160"

abbreviation SYS_GETPPID :: u64 where
  "SYS_GETPPID \<equiv> 173"

abbreviation SYS_BRK :: u64 where
  "SYS_BRK \<equiv> 214"

abbreviation SYS_MMAP :: u64 where
  "SYS_MMAP \<equiv> 222"

abbreviation SYS_MUNMAP :: u64 where
  "SYS_MUNMAP \<equiv> 215"

abbreviation SYS_MPROTECT :: u64 where
  "SYS_MPROTECT \<equiv> 226"

abbreviation SYS_WAIT4 :: u64 where
  "SYS_WAIT4 \<equiv> 260"

abbreviation SYS_MADVISE :: u64 where
  "SYS_MADVISE \<equiv> 233"

abbreviation SYS_PRLIMIT64 :: u64 where
  "SYS_PRLIMIT64 \<equiv> 261"

abbreviation SYS_MEMBARRIER :: u64 where
  "SYS_MEMBARRIER \<equiv> 283"

abbreviation SYS_RSEQ :: u64 where
  "SYS_RSEQ \<equiv> 293"

abbreviation SYS_SIGALTSTACK :: u64 where
  "SYS_SIGALTSTACK \<equiv> 132"

abbreviation SYS_RT_SIGACTION :: u64 where
  "SYS_RT_SIGACTION \<equiv> 134"

abbreviation SYS_RT_SIGPROCMASK :: u64 where
  "SYS_RT_SIGPROCMASK \<equiv> 135"

abbreviation SYS_CLOCK_GETTIME :: u64 where
  "SYS_CLOCK_GETTIME \<equiv> 113"

abbreviation SYS_GETPID :: u64 where
  "SYS_GETPID \<equiv> 172"

abbreviation SYS_PRCTL :: u64 where
  "SYS_PRCTL \<equiv> 167"

abbreviation SYS_GETUID :: u64 where
  "SYS_GETUID \<equiv> 174"

abbreviation SYS_GETEUID :: u64 where
  "SYS_GETEUID \<equiv> 175"

abbreviation SYS_GETGID :: u64 where
  "SYS_GETGID \<equiv> 176"

abbreviation SYS_GETEGID :: u64 where
  "SYS_GETEGID \<equiv> 177"

abbreviation SYS_GETTID :: u64 where
  "SYS_GETTID \<equiv> 178"

abbreviation SYS_SYSINFO :: u64 where
  "SYS_SYSINFO \<equiv> 179"

abbreviation SYS_GETRANDOM :: u64 where
  "SYS_GETRANDOM \<equiv> 278"

abbreviation SYS_EXIT :: u64 where
  "SYS_EXIT \<equiv> 93"

abbreviation SYS_EXIT_GROUP :: u64 where
  "SYS_EXIT_GROUP \<equiv> 94"

abbreviation AT_NULL :: u64 where
  "AT_NULL \<equiv> 0"

abbreviation AT_PAGESZ :: u64 where
  "AT_PAGESZ \<equiv> 6"

abbreviation AT_ENTRY :: u64 where
  "AT_ENTRY \<equiv> 9"

abbreviation AT_PLATFORM :: u64 where
  "AT_PLATFORM \<equiv> 15"

abbreviation AT_HWCAP :: u64 where
  "AT_HWCAP \<equiv> 16"

abbreviation AT_CLKTCK :: u64 where
  "AT_CLKTCK \<equiv> 17"

abbreviation AT_UID :: u64 where
  "AT_UID \<equiv> 11"

abbreviation AT_EUID :: u64 where
  "AT_EUID \<equiv> 12"

abbreviation AT_GID :: u64 where
  "AT_GID \<equiv> 13"

abbreviation AT_EGID :: u64 where
  "AT_EGID \<equiv> 14"

abbreviation AT_RANDOM :: u64 where
  "AT_RANDOM \<equiv> 25"

abbreviation AT_HWCAP2 :: u64 where
  "AT_HWCAP2 \<equiv> 26"

abbreviation AT_HWCAP3 :: u64 where
  "AT_HWCAP3 \<equiv> 29"

abbreviation AT_HWCAP4 :: u64 where
  "AT_HWCAP4 \<equiv> 30"

abbreviation AT_EXECFN :: u64 where
  "AT_EXECFN \<equiv> 31"

abbreviation AT_SYSINFO_EHDR :: u64 where
  "AT_SYSINFO_EHDR \<equiv> 33"

abbreviation AT_MINSIGSTKSZ :: u64 where
  "AT_MINSIGSTKSZ \<equiv> 51"

section \<open>The ELF loader\<close>

record SegmentImage =
  sg_vaddr :: u64
  sg_mem_size :: u64
  sg_file_size :: u64
  sg_flags :: u32
  sg_data :: "u8 list"

record LoadedElf =
  le_path :: string
  le_entry :: u64
  le_little_endian :: bool
  le_bits :: u8
  le_machine :: u16
  le_segments :: "SegmentImage list"

record ProgramHeader =
  ph_p_type :: u32
  ph_p_offset :: u64
  ph_p_filesz :: u64
  ph_p_vaddr :: u64
  ph_p_memsz :: u64
  ph_p_flags :: u32

record GoblinElf =
  ge_is_64 :: bool
  ge_little_endian :: bool
  ge_program_headers :: "ProgramHeader list"
  ge_entry :: u64
  ge_machine :: u16

datatype elf_error = ElfReadFailed | ElfParseFailed | ElfNot64 | ElfNotLittleEndian | ElfInterpreter
  | ElfSegmentOutside | ElfNoSegments

definition PT_LOAD :: u32 where
  "PT_LOAD = 1"

definition PT_INTERP :: u32 where
  "PT_INTERP = 3"

fun split_on :: "char \<Rightarrow> string \<Rightarrow> string list" where
  "split_on c [] = [[]]"
| "split_on c (x # xs) =
     (if x = c then [] # split_on c xs
      else case split_on c xs of [] \<Rightarrow> [[x]] | w # ws \<Rightarrow> (x # w) # ws)"

text \<open>The last normal component of a path; a path that ends in \<open>..\<close> or names the root has none.\<close>

definition path_file_name :: "string \<Rightarrow> string option" where
  "path_file_name p =
     (let components = filter (\<lambda>c. c \<noteq> [] \<and> c \<noteq> ''.'') (split_on (CHR ''/'') p)
      in if components = [] \<or> last components = ''..'' then None else Some (last components))"

definition image_name :: "LoadedElf \<Rightarrow> string" where
  "image_name img = unwrap_or (path_file_name (le_path img)) ''a.out''"

definition load_segment :: "u8 list \<Rightarrow> ProgramHeader \<Rightarrow> SegmentImage option" where
  "load_segment bytes ph =
     (let start = unat (ph_p_offset ph);
          end = unat (ph_p_offset ph + ph_p_filesz ph)
      in if start \<le> end \<and> end \<le> length bytes
         then Some \<lparr>sg_vaddr = ph_p_vaddr ph, sg_mem_size = ph_p_memsz ph, sg_file_size = ph_p_filesz ph,
                    sg_flags = ph_p_flags ph, sg_data = take (end - start) (drop start bytes)\<rparr>
         else None)"

definition load_static_elf ::
  "(u8 list \<Rightarrow> GoblinElf option) \<Rightarrow> string \<Rightarrow> u8 list option \<Rightarrow> elf_error + LoadedElf" where
  "load_static_elf parse path file =
     (case file of None \<Rightarrow> Inl ElfReadFailed
      | Some bytes \<Rightarrow>
     (case parse bytes of None \<Rightarrow> Inl ElfParseFailed
      | Some elf \<Rightarrow>
          if \<not> ge_is_64 elf then Inl ElfNot64
          else if \<not> ge_little_endian elf then Inl ElfNotLittleEndian
          else if list_ex (\<lambda>ph. ph_p_type ph = PT_INTERP) (ge_program_headers elf) then Inl ElfInterpreter
          else
            (case those (map (load_segment bytes)
                     (filter (\<lambda>ph. ph_p_type ph = PT_LOAD) (ge_program_headers elf))) of
               None \<Rightarrow> Inl ElfSegmentOutside
             | Some segments \<Rightarrow>
                 if segments = [] then Inl ElfNoSegments
                 else Inr \<lparr>le_path = path, le_entry = ge_entry elf, le_little_endian = ge_little_endian elf,
                           le_bits = 64, le_machine = ge_machine elf, le_segments = segments\<rparr>)))"

section \<open>Configuration and state\<close>

definition DEFAULT_MEM_BYTES :: u64 where
  "DEFAULT_MEM_BYTES = 128 * 1024 * 1024"

definition DEFAULT_STACK_SIZE :: u64 where
  "DEFAULT_STACK_SIZE = 8 * 1024 * 1024"

record RuntimeConfig =
  rc_mem_bytes :: u64
  rc_stack_size :: u64
  rc_args :: "string list"
  rc_env :: "(string \<times> string) list"
  rc_workdir :: "string option"

definition default_runtime_config :: RuntimeConfig where
  "default_runtime_config =
     \<lparr>rc_mem_bytes = DEFAULT_MEM_BYTES, rc_stack_size = DEFAULT_STACK_SIZE, rc_args = [], rc_env = [],
      rc_workdir = None\<rparr>"

record ArchitecturalState =
  as_pc :: u64
  as_regs :: "u64 list"
  as_next_bid :: u64

definition ArchitecturalState_new :: "u64 \<Rightarrow> ArchitecturalState" where
  "ArchitecturalState_new pc = \<lparr>as_pc = pc, as_regs = replicate 32 0, as_next_bid = 1\<rparr>"

record BootInfo =
  bi_entry_pc :: u64
  bi_stack_top :: u64
  bi_stack_pointer :: u64
  bi_argc :: u64

record GuestRuntime =
  gr_image :: LoadedElf
  gr_config :: RuntimeConfig
  gr_state :: ArchitecturalState
  gr_block :: BlockMeta
  gr_memory :: GuestMemory
  gr_boot :: BootInfo
  gr_fd_table :: "(u64, int) btree_map"

datatype boot_error = BootMemBelowStack | BootStackUnderflow | BootBytesUnderflow | BootBytesWrite
  | BootFrameUnderflow | BootFrameBelowBase | BootWordsWrite

section \<open>The initial user stack\<close>

definition align_down :: "u64 \<Rightarrow> u64 \<Rightarrow> u64" where
  "align_down value align = value AND NOT (align - 1)"

definition build_boot_args :: "LoadedElf \<Rightarrow> RuntimeConfig \<Rightarrow> string list" where
  "build_boot_args img config = le_path img # rc_args config"

definition build_boot_env :: "RuntimeConfig \<Rightarrow> string list" where
  "build_boot_env config = map (\<lambda>(k, v). k @ ''='' @ v) (rc_env config)"

definition push_bytes :: "GuestMemory \<Rightarrow> u64 \<Rightarrow> u8 list \<Rightarrow> boot_error + (GuestMemory \<times> u64)" where
  "push_bytes memory sp bytes =
     (case checked_sub sp (word_of_nat (length bytes)) of None \<Rightarrow> Inl BootBytesUnderflow
      | Some next_sp \<Rightarrow>
          (case write_bytes memory next_sp bytes of None \<Rightarrow> Inl BootBytesWrite
           | Some memory' \<Rightarrow> Inr (memory', next_sp)))"

definition push_c_string :: "GuestMemory \<Rightarrow> u64 \<Rightarrow> string \<Rightarrow> boot_error + (GuestMemory \<times> u64)" where
  "push_c_string memory sp text = push_bytes memory sp (as_bytes text @ [0])"

text \<open>The loop over the strings, last first; the pointers come out in the order of the strings.\<close>

fun push_c_strings :: "GuestMemory \<Rightarrow> u64 \<Rightarrow> string list \<Rightarrow> u64 list \<Rightarrow> boot_error + (GuestMemory \<times> u64 \<times> u64 list)" where
  "push_c_strings memory sp [] ptrs = Inr (memory, sp, ptrs)"
| "push_c_strings memory sp (item # items) ptrs =
     (case push_c_string memory sp item of Inl e \<Rightarrow> Inl e
      | Inr (memory', sp') \<Rightarrow> push_c_strings memory' sp' items (sp' # ptrs))"

definition GUEST_MINSIGSTKSZ :: u64 where
  "GUEST_MINSIGSTKSZ = 2048"

definition boot_auxv :: "u64 \<Rightarrow> u64 \<Rightarrow> u64 \<Rightarrow> u64 \<Rightarrow> (u64 \<times> u64) list" where
  "boot_auxv entry platform_addr random_addr execfn_addr =
     [(AT_PAGESZ, PAGE_SIZE), (AT_ENTRY, entry), (AT_UID, 0), (AT_EUID, 0), (AT_GID, 0), (AT_EGID, 0), (AT_PLATFORM, platform_addr), (AT_HWCAP, 0),
      (AT_CLKTCK, 100), (AT_RANDOM, random_addr), (AT_HWCAP2, 0), (AT_HWCAP3, 0), (AT_HWCAP4, 0), (AT_EXECFN, execfn_addr), (AT_SYSINFO_EHDR, 0),
      (AT_MINSIGSTKSZ, GUEST_MINSIGSTKSZ), (AT_NULL, 0)]"

definition boot_words :: "nat \<Rightarrow> u64 list \<Rightarrow> u64 list \<Rightarrow> (u64 \<times> u64) list \<Rightarrow> u64 list" where
  "boot_words argc argv_ptrs env_ptrs auxv =
     [word_of_nat argc] @ argv_ptrs @ [0] @ env_ptrs @ [0] @
     concat (map (\<lambda>(key, value). [key, value]) auxv)"

fun write_words :: "GuestMemory \<Rightarrow> u64 \<Rightarrow> usize \<Rightarrow> u64 list \<Rightarrow> GuestMemory option" where
  "write_words memory sp idx [] = Some memory"
| "write_words memory sp idx (word # words) =
     (case write_u64 memory (sp + word_of_nat idx * 8) word of None \<Rightarrow> None
      | Some memory' \<Rightarrow> write_words memory' sp (idx + 1) words)"

definition push_frame :: "GuestMemory \<Rightarrow> u64 \<Rightarrow> u64 \<Rightarrow> u64 list \<Rightarrow> boot_error + (GuestMemory \<times> u64)" where
  "push_frame memory stack_base sp words =
     (case checked_sub sp (word_of_nat (length words * 8)) of None \<Rightarrow> Inl BootFrameUnderflow
      | Some low \<Rightarrow>
          let sp' = align_down low 16 in
          if sp' < stack_base then Inl BootFrameBelowBase
          else (case write_words memory sp' 0 words of None \<Rightarrow> Inl BootWordsWrite
                | Some memory' \<Rightarrow> Inr (memory', sp')))"

definition initialize_user_stack ::
  "GuestMemory \<Rightarrow> u64 \<Rightarrow> u64 \<Rightarrow> string list \<Rightarrow> string list \<Rightarrow> u64 \<Rightarrow> boot_error + (GuestMemory \<times> u64)" where
  "initialize_user_stack memory stack_base stack_top argv envp entry =
     (case push_c_string memory stack_top (case argv of [] \<Rightarrow> [] | a # _ \<Rightarrow> a) of Inl e \<Rightarrow> Inl e
      | Inr (m1, execfn_addr) \<Rightarrow>
     (case push_c_string m1 execfn_addr ''linx64'' of Inl e \<Rightarrow> Inl e
      | Inr (m2, platform_addr) \<Rightarrow>
     (case push_bytes m2 platform_addr (replicate 16 0xA5) of Inl e \<Rightarrow> Inl e
      | Inr (m3, random_addr) \<Rightarrow>
     (case push_c_strings m3 random_addr (rev envp) [] of Inl e \<Rightarrow> Inl e
      | Inr (m4, sp4, env_ptrs) \<Rightarrow>
     (case push_c_strings m4 sp4 (rev argv) [] of Inl e \<Rightarrow> Inl e
      | Inr (m5, sp5, argv_ptrs) \<Rightarrow>
          push_frame m5 stack_base sp5
            (boot_words (length argv) argv_ptrs env_ptrs (boot_auxv entry platform_addr random_addr execfn_addr)))))))"

section \<open>Bootstrap\<close>

definition vec_resize :: "'a list \<Rightarrow> nat \<Rightarrow> 'a \<Rightarrow> 'a list" where
  "vec_resize xs n x = take n xs @ replicate (n - length xs) x"

definition segment_region :: "SegmentImage \<Rightarrow> MemoryRegion" where
  "segment_region segment =
     \<lparr>mr_base = sg_vaddr segment, mr_size = sg_mem_size segment, mr_flags = sg_flags segment,
      mr_data = vec_resize (sg_data segment) (unat (sg_mem_size segment)) 0\<rparr>"

definition GUEST_STACK_TOP :: u64 where
  "GUEST_STACK_TOP = 0x00007FFFF000"

definition bootstrap :: "LoadedElf \<Rightarrow> RuntimeConfig \<Rightarrow> boot_error + GuestRuntime" where
  "bootstrap img config =
     (if rc_mem_bytes config < rc_stack_size config then Inl BootMemBelowStack
      else
        (case checked_sub GUEST_STACK_TOP (rc_stack_size config) of None \<Rightarrow> Inl BootStackUnderflow
         | Some stack_base \<Rightarrow>
             let regions = map segment_region (le_segments img) @
                   [\<lparr>mr_base = stack_base, mr_size = rc_stack_size config, mr_flags = 0b110,
                     mr_data = replicate (unat (rc_stack_size config)) 0\<rparr>];
                 argv = build_boot_args img config;
                 envp = build_boot_env config
             in (case initialize_user_stack \<lparr>gm_regions = regions\<rparr> stack_base GUEST_STACK_TOP argv envp (le_entry img) of
                   Inl e \<Rightarrow> Inl e
                 | Inr (memory, stack_pointer) \<Rightarrow>
                     let state = ArchitecturalState_new (le_entry img) in
                     Inr \<lparr>gr_image = img, gr_config = config,
                          gr_state = state\<lparr>as_regs := (as_regs state)[1 := stack_pointer]\<rparr>,
                          gr_block = default_block_meta, gr_memory = memory,
                          gr_boot = \<lparr>bi_entry_pc = as_pc state, bi_stack_top = GUEST_STACK_TOP,
                                     bi_stack_pointer = stack_pointer, bi_argc = word_of_nat (length argv)\<rparr>,
                          gr_fd_table = [(0, 0), (1, 1), (2, 2)]\<rparr>)))"

definition fetch_first_word :: "GuestRuntime \<Rightarrow> u32 option" where
  "fetch_first_word gr = read_u32 (gr_memory gr) (as_pc (gr_state gr))"

definition fetch_bundle :: "GuestRuntime \<Rightarrow> u64 \<Rightarrow> u64 option" where
  "fetch_bundle gr pc = fetch_u64_bundle (gr_memory gr) pc"

definition guest_prot_to_region_flags :: "u32 \<Rightarrow> u32" where
  "guest_prot_to_region_flags prot =
     (if prot AND 1 \<noteq> 0 then MEM_READ else 0) OR (if prot AND 2 \<noteq> 0 then MEM_WRITE else 0) OR
     (if prot AND 4 \<noteq> 0 then MEM_EXEC else 0)"

section \<open>The host call shim\<close>

record host_clock =
  hc_getpid :: int
  hc_getppid :: int
  hc_clock_gettime :: "int \<Rightarrow> (int \<times> int) option"

datatype SyscallEffect = Return u64 | Exit int

datatype shim_error = NeedsMarshalling u64 | NeedsRuntime u64 | NeedsIdentity u64 | ClockFailed
  | UnsupportedSyscall u64

definition unsafe_pid :: "int \<Rightarrow> u64" where
  "unsafe_pid value = word_of_int (max value 0)"

definition CLOCK_REALTIME :: int where
  "CLOCK_REALTIME = 0"

text \<open>\<open>i32::try_from\<close> of an unsigned argument.\<close>

definition try_i32 :: "u64 \<Rightarrow> int option" where
  "try_i32 w = (if uint w < 2 ^ 31 then Some (uint w) else None)"

definition shim_clock :: "host_clock \<Rightarrow> u64 \<Rightarrow> shim_error + SyscallEffect" where
  "shim_clock host arg =
     (case hc_clock_gettime host (unwrap_or (try_i32 arg) CLOCK_REALTIME) of None \<Rightarrow> Inl ClockFailed
      | Some (tv_sec, tv_nsec) \<Rightarrow>
          Inr (Return (word_of_nat (sat_mul (unat (word_of_int tv_sec :: u64)) 1000000000) + word_of_int tv_nsec)))"

definition shim_dispatch :: "host_clock \<Rightarrow> u64 \<Rightarrow> u64 list \<Rightarrow> shim_error + SyscallEffect" where
  "shim_dispatch host number args =
     (if number = SYS_GETCWD then Inl (NeedsMarshalling number)
      else if number \<in> {SYS_PRCTL, SYS_MEMBARRIER, SYS_RSEQ} then Inl (NeedsRuntime number)
      else if number = SYS_GETPID then Inr (Return (unsafe_pid (hc_getpid host)))
      else if number = SYS_GETPPID then Inr (Return (unsafe_pid (hc_getppid host)))
      else if number \<in> {SYS_GETUID, SYS_GETEUID, SYS_GETGID, SYS_GETEGID} then Inr (Return 0)
      else if number \<in> {SYS_SETUID, SYS_SETGID, SYS_SETRESUID, SYS_GETRESUID, SYS_SETRESGID,
           SYS_GETRESGID} then Inl (NeedsIdentity number)
      else if number = SYS_GETTID then Inr (Return (unsafe_pid (hc_getpid host)))
      else if number = SYS_SET_TID_ADDRESS then Inr (Return (unsafe_pid (hc_getpid host)))
      else if number \<in> {SYS_SET_ROBUST_LIST, SYS_SIGALTSTACK, SYS_UNAME, SYS_FUTEX, SYS_PRLIMIT64,
           SYS_SYSINFO, SYS_WAIT4} then Inl (NeedsMarshalling number)
      else if number = SYS_CLOCK_GETTIME then shim_clock host (args ! 0)
      else if number \<in> {SYS_EXIT, SYS_EXIT_GROUP} then Inr (Exit (sint (ucast (args ! 0) :: u32)))
      else if number \<in> {SYS_EVENTFD2, SYS_EPOLL_CREATE1, SYS_EPOLL_CTL, SYS_EPOLL_PWAIT, SYS_DUP3,
           SYS_FCNTL, SYS_IOCTL, SYS_READ, SYS_WRITE, SYS_OPENAT, SYS_CLOSE, SYS_PIPE2, SYS_LSEEK,
           SYS_PSELECT6, SYS_PPOLL, SYS_READLINKAT, SYS_NEWFSTATAT, SYS_FSTAT, SYS_BRK, SYS_MMAP,
           SYS_MUNMAP, SYS_MPROTECT, SYS_MADVISE, SYS_RT_SIGACTION, SYS_RT_SIGPROCMASK, SYS_GETRANDOM}
      then Inl (NeedsMarshalling number)
      else Inl (UnsupportedSyscall number))"

definition describe_allowlist :: "string list" where
  "describe_allowlist =
     [''read'', ''write'', ''eventfd2'', ''epoll_create1'', ''epoll_ctl'', ''epoll_pwait'', ''openat'',
      ''close'', ''lseek'', ''getcwd'', ''dup3'', ''fcntl'', ''ioctl'', ''readlinkat'', ''newfstatat'',
      ''fstat'', ''pipe2'', ''pselect6'', ''ppoll'', ''futex'', ''sigaltstack'', ''set_tid_address'',
      ''set_robust_list'', ''setuid'', ''setgid'', ''setresuid'', ''getresuid'', ''setresgid'',
      ''getresgid'', ''uname'', ''getppid'', ''wait4'', ''brk'', ''mmap'', ''munmap'', ''mprotect'',
      ''madvise'', ''prlimit64'', ''prctl'', ''rt_sigaction'', ''rt_sigprocmask'', ''clock_gettime'',
      ''getpid'', ''getuid'', ''geteuid'', ''getgid'', ''getegid'', ''gettid'', ''sysinfo'', ''getrandom'',
      ''membarrier'', ''rseq'', ''exit'', ''exit_group'']"

text \<open>A C string cannot contain a NUL byte.\<close>

definition cstring_new :: "string \<Rightarrow> string option" where
  "cstring_new s = (if CHR 0x00 \<in> set s then None else Some s)"

definition validate_env_strings :: "RuntimeConfig \<Rightarrow> string list option" where
  "validate_env_strings config = those (map (\<lambda>(k, v). cstring_new (k @ ''='' @ v)) (rc_env config))"

section \<open>The initial stack as a sequence of writes\<close>

lemma unat_of_nat_fits: "n < 2 ^ 64 \<Longrightarrow> unat (word_of_nat n :: u64) = n"
  by (simp add: unsigned_of_nat take_bit_nat_eq_self)

lemma u64_bound: "unat (v :: u64) < 2 ^ 64"
  by (rule order_less_le_trans [OF unsigned_less]) simp

abbreviation c_bytes :: "string \<Rightarrow> u8 list" where
  "c_bytes s \<equiv> as_bytes s @ [0]"

text \<open>Writes that do not overlap and lie between two addresses.\<close>

definition stacked :: "(u64 \<times> u8 list) list \<Rightarrow> nat \<Rightarrow> nat \<Rightarrow> bool" where
  "stacked ws lo hi = (raw.all_apart ws \<and> raw.short ws \<and>
     list_all (\<lambda>w. lo \<le> unat (fst w) \<and> unat (fst w) + length (snd w) \<le> hi) ws)"

lemma write_all_append: "raw.write_all (vs @ ws) m = Option.bind (raw.write_all vs m) (raw.write_all ws)"
  by (induction vs arbitrary: m) (auto split: Option.bind_split)

lemma stacked_append:
  assumes "stacked vs mid hi" and "stacked ws lo mid" and "lo \<le> mid" and "mid \<le> hi"
  shows "stacked (vs @ ws) lo hi"
  using assms unfolding stacked_def raw.all_apart_def raw.short_def list_all_iff sorted_wrt_append
  by (fastforce simp: apart_def)

lemma stacked_single: "length bs < 2 ^ 64 \<Longrightarrow> lo \<le> unat a \<Longrightarrow> unat a + length bs \<le> hi \<Longrightarrow> stacked [(a, bs)] lo hi"
  by (simp add: stacked_def raw.all_apart_def raw.short_def)

lemma stacked_Nil: "stacked [] lo hi"
  by (simp add: stacked_def raw.all_apart_def raw.short_def)

lemma stacked_reads:
  assumes "raw.write_all ws m = Some m'" and "stacked ws lo hi" and "w \<in> set ws"
  shows "read_bytes m' (fst w) (length (snd w)) = Some (snd w)"
proof (rule raw.write_all_read_back [OF assms(1)])
  show "raw.all_apart ws" "raw.short ws" "w \<in> set ws" using assms(2,3) by (simp_all add: stacked_def)
  show "read_bytes m (fst w) (length (snd w)) \<noteq> None"
    using assms(1,3)
  proof (induction ws arbitrary: m)
    case (Cons v ws)
    from Cons.prems(1) obtain m1 where m1: "write_bytes m (fst v) (snd v) = Some m1" "raw.write_all ws m1 = Some m'"
      by (auto simp: bind_eq_Some_conv)
    show ?case using Cons.IH [OF m1(2)] Cons.prems(2) write_bytes_read(2) [OF m1(1)] raw.write_serves [OF m1(1)] by auto
  qed simp
qed

lemma push_bytes_spec:
  assumes "push_bytes m sp bs = Inr (m', sp')" and "length bs < 2 ^ 64"
  shows "raw.write_all [(sp', bs)] m = Some m'" "unat sp' + length bs = unat sp" "stacked [(sp', bs)] (unat sp') (unat sp)"
proof -
  have n: "unat (word_of_nat (length bs) :: u64) = length bs" using assms(2) by (simp add: unsigned_of_nat take_bit_nat_eq_self)
  have w: "write_bytes m sp' bs = Some m'" "sp' = sp - word_of_nat (length bs)" "word_of_nat (length bs) \<le> sp"
    using assms(1) by (auto simp: push_bytes_def checked_sub_def split: option.splits if_splits)
  show "raw.write_all [(sp', bs)] m = Some m'" using w(1) by simp
  show sum: "unat sp' + length bs = unat sp" using w(2,3) n by (simp add: unat_sub word_le_nat_alt)
  show "stacked [(sp', bs)] (unat sp') (unat sp)" using sum assms(2) by (intro stacked_single) simp_all
qed

lemma push_c_strings_spec:
  assumes "push_c_strings m sp items ptrs = Inr (m', sp', ptrs')" and "list_all (\<lambda>s. length s + 1 < 2 ^ 64) items"
  shows "\<exists>ps. ptrs' = rev ps @ ptrs \<and> length ps = length items \<and>
     raw.write_all (zip ps (map c_bytes items)) m = Some m' \<and>
     stacked (zip ps (map c_bytes items)) (unat sp') (unat sp) \<and> unat sp' \<le> unat sp"
  using assms
proof (induction items arbitrary: m sp ptrs)
  case Nil
  then show ?case by (simp add: stacked_Nil)
next
  case (Cons s items)
  from Cons.prems(1) obtain m1 sp1 where one: "push_bytes m sp (c_bytes s) = Inr (m1, sp1)"
    and rest: "push_c_strings m1 sp1 items (sp1 # ptrs) = Inr (m', sp', ptrs')"
    by (auto simp: push_c_string_def split: sum.splits)
  have len: "length (c_bytes s) < 2 ^ 64" using Cons.prems(2) by (simp add: as_bytes_def)
  note b = push_bytes_spec [OF one len]
  from Cons.IH [OF rest] Cons.prems(2) obtain ps where ps: "ptrs' = rev ps @ sp1 # ptrs" "length ps = length items"
    "raw.write_all (zip ps (map c_bytes items)) m1 = Some m'" "stacked (zip ps (map c_bytes items)) (unat sp') (unat sp1)"
    "unat sp' \<le> unat sp1" by auto
  have "raw.write_all ([(sp1, c_bytes s)] @ zip ps (map c_bytes items)) m = Some m'"
    unfolding write_all_append b(1) using ps(3) by simp
  moreover have "stacked ([(sp1, c_bytes s)] @ zip ps (map c_bytes items)) (unat sp') (unat sp)"
    using b(2) by (intro stacked_append [OF b(3) ps(4) ps(5)]) simp
  ultimately show ?case using ps b(2) by (intro exI [of _ "sp1 # ps"]) simp
qed

fun word_writes :: "u64 \<Rightarrow> usize \<Rightarrow> u64 list \<Rightarrow> (u64 \<times> u8 list) list" where
  "word_writes sp idx [] = []"
| "word_writes sp idx (w # ws) = (sp + word_of_nat idx * 8, to_le_bytes w) # word_writes sp (idx + 1) ws"

lemma write_words_all: "write_words m sp idx ws = Some m' \<Longrightarrow> raw.write_all (word_writes sp idx ws) m = Some m'"
  by (induction ws arbitrary: m idx) (auto simp: write_u64_def split: option.splits)

lemma word_address:
  fixes sp :: u64
  assumes "unat sp + 8 * (i + 1) < 2 ^ 64"
  shows "unat (sp + word_of_nat i * 8) = unat sp + 8 * i"
proof -
  have "unat (word_of_nat i * 8 :: u64) = 8 * i"
    using assms by (simp add: unat_word_ariths unsigned_of_nat take_bit_nat_eq_self)
  then show ?thesis using assms unat_add_fits [of sp "word_of_nat i * 8"] by simp
qed

lemma word_writes_stacked:
  fixes sp :: u64
  assumes "unat sp + 8 * (idx + length ws) < 2 ^ 64"
  shows "stacked (word_writes sp idx ws) (unat sp + 8 * idx) (unat sp + 8 * (idx + length ws))"
  using assms
proof (induction ws arbitrary: idx)
  case Nil
  then show ?case by (simp add: stacked_Nil)
next
  case (Cons w ws)
  have a: "unat (sp + word_of_nat idx * 8) = unat sp + 8 * idx" using Cons.prems by (intro word_address) simp
  have "stacked [(sp + word_of_nat idx * 8, to_le_bytes w)] (unat sp + 8 * idx) (unat sp + 8 * Suc idx)"
    by (intro stacked_single) (simp_all add: a)
  moreover have "stacked (word_writes sp (idx + 1) ws) (unat sp + 8 * Suc idx) (unat sp + 8 * (idx + length (w # ws)))"
    using Cons.IH [of "idx + 1"] Cons.prems by simp
  ultimately show ?case
    unfolding stacked_def raw.all_apart_def raw.short_def by (fastforce simp: list_all_iff apart_def)
qed

lemma word_writes_mem: "i < length ws \<Longrightarrow> (sp + word_of_nat (idx + i) * 8, to_le_bytes (ws ! i)) \<in> set (word_writes sp idx ws)"
proof (induction ws arbitrary: idx i)
  case (Cons w ws)
  show ?case
  proof (cases i)
    case (Suc j)
    then show ?thesis using Cons.IH [of j "idx + 1"] Cons.prems by simp
  qed simp
qed simp

section \<open>What the guest finds on its stack\<close>

lemma unat_and_not_mask: "n < 64 \<Longrightarrow> unat (v AND NOT (mask n) :: u64) = unat v div 2 ^ n * 2 ^ n"
proof -
  have "v AND NOT (mask n) = push_bit n (drop_bit n v)"
    by (rule bit_word_eqI) (auto simp: bit_and_iff bit_not_iff bit_push_bit_iff bit_drop_bit_eq bit_mask_iff)
  moreover have "unat v div 2 ^ n * 2 ^ n < 2 ^ 64"
    by (rule le_less_trans [OF div_times_less_eq_dividend]) (rule u64_bound)
  moreover assume "n < 64"
  then have "unat (2 ^ n :: u64) = 2 ^ n" using unat_of_nat_fits [OF power_strict_increasing, of n] by simp
  moreover have "unat v div 2 ^ n < 2 ^ 64" using u64_bound [of v] by (rule le_less_trans [OF div_le_dividend])
  ultimately show ?thesis by (simp add: push_bit_eq_mult drop_bit_eq_div unat_word_ariths unat_div_distrib)
qed

lemma align_down_16: "unat (align_down v 16) = unat v div 16 * 16"
proof -
  have "(15 :: u64) = mask 4" by (simp add: mask_eq_exp_minus_1)
  then show ?thesis using unat_and_not_mask [of 4 v] by (simp add: align_down_def)
qed

lemma read_u64_of_bytes: "read_bytes m a 8 = Some (to_le_bytes v) \<Longrightarrow> read_u64 m a = Some v"
  by (simp add: read_u64_def le_bytes_round_trip)

lemma push_frame_spec:
  assumes "push_frame m lo sp words = Inr (m', sp')" and "length words * 8 < 2 ^ 64"
  shows "raw.write_all (word_writes sp' 0 words) m = Some m'" "unat sp' + 8 * length words \<le> unat sp"
    "stacked (word_writes sp' 0 words) (unat sp') (unat sp)" "unat sp' mod 16 = 0" "lo \<le> sp'"
    "i < length words \<Longrightarrow> unat sp' + 8 * (i + 1) < 2 ^ 64"
proof -
  let ?n = "word_of_nat (length words * 8) :: u64"
  have n: "unat ?n = length words * 8" by (rule unat_of_nat_fits [OF assms(2)])
  have p: "?n \<le> sp" "sp' = align_down (sp - ?n) 16" "\<not> sp' < lo" "write_words m sp' 0 words = Some m'"
    using assms(1) by (auto simp: push_frame_def checked_sub_def Let_def split: option.splits if_splits)
  have u: "unat (sp - ?n) = unat sp - length words * 8" "length words * 8 \<le> unat sp"
    using p(1) n by (simp_all only: unat_sub word_le_nat_alt)
  have a: "unat sp' = (unat sp - length words * 8) div 16 * 16" unfolding p(2) align_down_16 u(1) ..
  show "raw.write_all (word_writes sp' 0 words) m = Some m'" by (rule write_words_all [OF p(4)])
  show low: "unat sp' + 8 * length words \<le> unat sp"
    using u(2) div_times_less_eq_dividend [of "unat sp - length words * 8" 16] unfolding a by linarith
  have fit: "unat sp' + 8 * (0 + length words) < 2 ^ 64" using low u64_bound [of sp] by simp
  show "stacked (word_writes sp' 0 words) (unat sp') (unat sp)"
    using word_writes_stacked [OF fit] low by (auto simp: stacked_def list_all_iff)
  show "unat sp' mod 16 = 0" by (simp add: a)
  show "lo \<le> sp'" using p(3) by simp
  show "unat sp' + 8 * (i + 1) < 2 ^ 64" if "i < length words" using that fit by simp
qed

lemma initialize_cases:
  assumes "initialize_user_stack m lo hi argv envp entry = Inr (m', sp)"
  obtains m1 execfn m2 platform m3 random m4 sp4 env_ptrs m5 sp5 argv_ptrs where
    "push_bytes m hi (c_bytes (case argv of [] \<Rightarrow> [] | a # _ \<Rightarrow> a)) = Inr (m1, execfn)"
    "push_bytes m1 execfn (c_bytes ''linx64'') = Inr (m2, platform)"
    "push_bytes m2 platform (replicate 16 0xA5) = Inr (m3, random)"
    "push_c_strings m3 random (rev envp) [] = Inr (m4, sp4, env_ptrs)"
    "push_c_strings m4 sp4 (rev argv) [] = Inr (m5, sp5, argv_ptrs)"
    "push_frame m5 lo sp5 (boot_words (length argv) argv_ptrs env_ptrs (boot_auxv entry platform random execfn)) = Inr (m', sp)"
  using assms unfolding initialize_user_stack_def push_c_string_def
  by (auto split: sum.splits prod.splits intro: that)

lemma zip_rev_set: "length ps = length xs \<Longrightarrow> i < length xs \<Longrightarrow> (rev ps ! i, f (xs ! i)) \<in> set (zip ps (map f (rev xs)))"
proof -
  assume l: "length ps = length xs" and i: "i < length xs"
  have "set (zip ps (map f (rev xs))) = set (zip (rev ps) (map f xs))"
    using l zip_rev [of "rev ps" "map f xs"] by (simp add: rev_map)
  moreover have "(rev ps ! i, f (xs ! i)) \<in> set (zip (rev ps) (map f xs))" using l i by (auto simp: in_set_zip)
  ultimately show ?thesis by simp
qed

text \<open>The words the stack frame is made of, and the strings they point to.\<close>

lemma boot_words_nth:
  assumes "length aps = n"
  shows "boot_words n aps eps aux ! 0 = word_of_nat n"
    and "i < n \<Longrightarrow> boot_words n aps eps aux ! Suc i = aps ! i"
    and "boot_words n aps eps aux ! Suc n = 0"
    and "j < length eps \<Longrightarrow> boot_words n aps eps aux ! (n + 2 + j) = eps ! j"
    and "boot_words n aps eps aux ! (n + 2 + length eps) = 0"
    and "length (boot_words n aps eps aux) = n + length eps + 3 + 2 * length aux"
proof -
  have "length (concat (map (\<lambda>(key, value). [key, value]) aux)) = 2 * length aux" by (induction aux) auto
  then show "length (boot_words n aps eps aux) = n + length eps + 3 + 2 * length aux"
    using assms by (simp add: boot_words_def)
qed (use assms in \<open>simp_all add: boot_words_def nth_append nth_Cons'\<close>)

lemma boot_writes:
  assumes init: "initialize_user_stack m lo hi argv envp entry = Inr (m', sp)"
    and len: "list_all (\<lambda>s. length s + 1 < 2 ^ 64) (argv @ envp)" "length argv + length envp < 2 ^ 60"
  obtains aps eps aux ws where "length aps = length argv" "length eps = length envp"
    "raw.write_all ws m = Some m'" "stacked ws (unat sp) (unat hi)" "unat sp mod 16 = 0" "lo \<le> sp" "sp \<le> hi"
    "\<And>i. i < length argv \<Longrightarrow> (aps ! i, c_bytes (argv ! i)) \<in> set ws"
    "\<And>i. i < length envp \<Longrightarrow> (eps ! i, c_bytes (envp ! i)) \<in> set ws"
    "\<And>k. k < length (boot_words (length argv) aps eps aux) \<Longrightarrow>
        (sp + word_of_nat k * 8, to_le_bytes (boot_words (length argv) aps eps aux ! k)) \<in> set ws"
proof -
  obtain m1 x m2 pl m3 rnd m4 sp4 eps m5 sp5 aps where p:
    "push_bytes m hi (c_bytes (case argv of [] \<Rightarrow> [] | a # _ \<Rightarrow> a)) = Inr (m1, x)"
    "push_bytes m1 x (c_bytes ''linx64'') = Inr (m2, pl)" "push_bytes m2 pl (replicate 16 0xA5) = Inr (m3, rnd)"
    "push_c_strings m3 rnd (rev envp) [] = Inr (m4, sp4, eps)" "push_c_strings m4 sp4 (rev argv) [] = Inr (m5, sp5, aps)"
    "push_frame m5 lo sp5 (boot_words (length argv) aps eps (boot_auxv entry pl rnd x)) = Inr (m', sp)"
    by (rule initialize_cases [OF init])
  let ?aux = "boot_auxv entry pl rnd x"
  let ?name = "c_bytes (case argv of [] \<Rightarrow> [] | a # _ \<Rightarrow> a)"
  have l1: "length ?name < 2 ^ 64" using len(1) by (auto simp: as_bytes_def split: list.split)
  note b1 = push_bytes_spec [OF p(1) l1]
  have b2: "raw.write_all [(pl, c_bytes ''linx64'')] m1 = Some m2" "unat pl + 7 = unat x"
    "stacked [(pl, c_bytes ''linx64'')] (unat pl) (unat x)"
    using push_bytes_spec [OF p(2)] by (simp_all add: as_bytes_def)
  have b3: "raw.write_all [(rnd, replicate 16 0xA5)] m2 = Some m3" "unat rnd + 16 = unat pl"
    "stacked [(rnd, replicate 16 0xA5)] (unat rnd) (unat pl)"
    using push_bytes_spec [OF p(3)] by simp_all
  obtain qe where e: "eps = rev qe" "length qe = length envp"
    "raw.write_all (zip qe (map c_bytes (rev envp))) m3 = Some m4"
    "stacked (zip qe (map c_bytes (rev envp))) (unat sp4) (unat rnd)" "unat sp4 \<le> unat rnd"
    using push_c_strings_spec [OF p(4)] len(1) by auto
  obtain qa where a: "aps = rev qa" "length qa = length argv"
    "raw.write_all (zip qa (map c_bytes (rev argv))) m4 = Some m5"
    "stacked (zip qa (map c_bytes (rev argv))) (unat sp5) (unat sp4)" "unat sp5 \<le> unat sp4"
    using push_c_strings_spec [OF p(5)] len(1) by auto
  let ?words = "boot_words (length argv) aps eps ?aux"
  have lw: "length ?words = length argv + length envp + 37"
    using boot_words_nth(6) [of aps "length argv" eps ?aux] a(1,2) e(1,2) by (simp add: boot_auxv_def)
  note f = push_frame_spec [OF p(6)]
  have fit: "length ?words * 8 < 2 ^ 64" using len(2) unfolding lw by simp
  have xt: "unat x \<le> unat hi" using b1(2) by (metis le_add1)
  define ws where "ws = [(x, ?name)] @ [(pl, c_bytes ''linx64'')] @ [(rnd, replicate 16 0xA5)] @
    zip qe (map c_bytes (rev envp)) @ zip qa (map c_bytes (rev argv)) @ word_writes sp 0 ?words"
  have spd: "unat sp \<le> unat sp5" using f(2) [OF fit] by simp
  have "raw.write_all ws m = Some m'"
    unfolding ws_def write_all_append b1(1) b2(1) b3(1) e(3) a(3) f(1) [OF fit] by (simp only: Option.bind.simps b1(1) b2(1) b3(1) e(3) a(3) f(1) [OF fit])
  moreover have "stacked ws (unat sp) (unat hi)"
  proof -
    have o: "unat sp \<le> unat sp4" "unat sp \<le> unat rnd" "unat sp \<le> unat pl" "unat sp \<le> unat x"
      "unat rnd \<le> unat pl" "unat pl \<le> unat x" "unat x \<le> unat hi"
      using xt b2(2) b3(2) e(5) a(5) spd by linarith+
    note s5 = stacked_append [OF a(4) f(3) [OF fit] spd a(5)]
    note s4 = stacked_append [OF e(4) s5 o(1) e(5)]
    note s3 = stacked_append [OF b3(3) s4 o(2) o(5)]
    note s2 = stacked_append [OF b2(3) s3 o(3) o(6)]
    show ?thesis unfolding ws_def by (rule stacked_append [OF b1(3) s2 o(4) o(7)])
  qed
  moreover have "sp \<le> hi" unfolding word_le_nat_alt using xt b2(2) b3(2) e(5) a(5) spd by linarith
  ultimately show thesis
    using a(1,2) e(1,2) f(4,5) [OF fit] zip_rev_set [OF a(2), where f = c_bytes] zip_rev_set [OF e(2), where f = c_bytes]
      word_writes_mem [of _ ?words sp 0]
    by (intro that [of aps eps ws ?aux]) (auto simp: ws_def)
qed

section \<open>Reading C strings\<close>

lemma read_bytes_view:
  assumes wf: "memory_wf m" and r: "read_bytes m a n = Some bs" and n: "0 < n" "n < 2 ^ 64" and i: "i < n"
  shows "read_u8 m (a + word_of_nat i) = Some (bs ! i)" "unat a + n < 2 ^ 64"
proof -
  obtain k where k: "region_containing_mut m a n = Some k" "region_read (gm_regions m ! k) a n = Some bs"
    using r by (auto simp: read_bytes_position bind_eq_Some_conv)
  have span: "k < length (gm_regions m)" "{unat a ..< unat a + n} \<subseteq> region_span (gm_regions m ! k)"
    using k(1) unfolding region_containing_bytes [OF wf n] by simp_all
  show fit: "unat a + n < 2 ^ 64" by (rule access_offset(3) [OF k(1) n(2)])
  let ?x = "a + word_of_nat i" and ?r = "gm_regions m ! k"
  have x: "unat ?x = unat a + i" using fit i by (simp add: unat_add_fits unat_of_nat_fits)
  have kx: "region_containing_mut m ?x 1 = Some k"
    using region_containing_bytes [OF wf, of 1 ?x k] span i by (auto simp: x)
  note oa = access_offset [OF k(1) n(2)] and ox = access_offset(1) [OF kx]
  have off: "unat (?x - mr_base ?r) = unat (a - mr_base ?r) + i"
    using oa(1,2) ox x by (simp add: word_le_nat_alt)
  have d: "bs = take n (drop (unat (a - mr_base ?r)) (mr_data ?r))" "unat (a - mr_base ?r) + n \<le> length (mr_data ?r)"
    using k(2) by (auto simp: region_read_def slice_get_def split: if_splits)
  have "read_bytes m ?x 1 = Some [bs ! i]"
    using kx d i off by (simp add: read_bytes_position region_read_def slice_get_def take_Suc_conv_app_nth hd_drop_conv_nth take_Suc drop_eq_Nil)
  then show "read_u8 m ?x = Some (bs ! i)" by (simp add: read_u8_def first_byte_def)
qed

lemma c_string_loop_reads:
  assumes "\<And>i. i < length bs \<Longrightarrow> rd (a + word_of_nat (idx + i)) = Some (bs ! i)"
    and "rd (a + word_of_nat (idx + length bs)) = Some 0" and "0 \<notin> set bs"
    and "unat a + idx + length bs < 2 ^ 64" and "length bs < n"
  shows "c_string_loop rd a idx n acc = from_utf8 (acc @ bs)"
  using assms
proof (induction bs arbitrary: idx n acc)
  case Nil
  have c: "checked_add a (word_of_nat idx) = Some (a + word_of_nat idx)"
    using Nil.prems(4) by (simp add: checked_add_Some unat_of_nat_fits)
  obtain n' where "n = Suc n'" using Nil.prems(5) by (cases n) auto
  with c Nil.prems(2) show ?case by simp
next
  case (Cons b bs)
  have c: "checked_add a (word_of_nat idx) = Some (a + word_of_nat idx)"
    using Cons.prems(4) by (simp add: checked_add_Some unat_of_nat_fits)
  obtain n' where n': "n = Suc n'" "length bs < n'" using Cons.prems(5) by (cases n) auto
  have b: "rd (a + word_of_nat idx) = Some b" "b \<noteq> 0" using Cons.prems(1) [of 0] Cons.prems(3) by auto
  have "c_string_loop rd a (idx + 1) n' (acc @ [b]) = from_utf8 ((acc @ [b]) @ bs)"
  proof (rule Cons.IH)
    show "rd (a + word_of_nat (idx + 1 + i)) = Some (bs ! i)" if "i < length bs" for i
      using Cons.prems(1) [of "Suc i"] that by simp
    show "rd (a + word_of_nat (idx + 1 + length bs)) = Some 0" using Cons.prems(2) by simp
    show "0 \<notin> set bs" "unat a + (idx + 1) + length bs < 2 ^ 64" "length bs < n'" using Cons.prems(3,4) n' by simp_all
  qed
  then show ?case using c b n'(1) by simp
qed

lemma from_utf8_as_bytes: "utf8_valid (as_bytes s) \<Longrightarrow> from_utf8 (as_bytes s) = Some s"
proof -
  have "char_of (unat (word_of_nat (of_char c) :: u8)) = c" for c
  proof -
    have "of_char c < (256 :: nat)" by simp
    then have "unat (word_of_nat (of_char c) :: u8) = of_char c" by (simp add: unsigned_of_nat take_bit_nat_eq_self)
    then show ?thesis by simp
  qed
  then show "utf8_valid (as_bytes s) \<Longrightarrow> from_utf8 (as_bytes s) = Some s"
    by (simp add: from_utf8_def as_bytes_def comp_def)
qed

lemma read_c_string_written:
  assumes wf: "memory_wf m" and r: "read_bytes m a (length (c_bytes s)) = Some (c_bytes s)"
    and s: "utf8_valid (as_bytes s)" "0 \<notin> set (as_bytes s)" "length s < max_len" "max_len < 2 ^ 64"
  shows "read_c_string m a max_len = Some s"
proof -
  let ?n = "length (c_bytes s)"
  have l: "length (as_bytes s) = length s" by (simp add: as_bytes_def)
  have n: "0 < ?n" "?n < 2 ^ 64" using s(3,4) l by simp_all
  note v = read_bytes_view [OF wf r n]
  have "c_string_loop (read_u8 m) a 0 max_len [] = from_utf8 ([] @ as_bytes s)"
  proof (rule c_string_loop_reads)
    show "read_u8 m (a + word_of_nat (0 + i)) = Some (as_bytes s ! i)" if "i < length (as_bytes s)" for i
      using v(1) [of i] that by (simp add: nth_append)
    show "read_u8 m (a + word_of_nat (0 + length (as_bytes s))) = Some 0"
      using v(1) [of "length (as_bytes s)"] by simp
    show "unat a + 0 + length (as_bytes s) < 2 ^ 64" using v(2) [of 0] by simp
  qed (use s l in simp_all)
  then show ?thesis using from_utf8_as_bytes [OF s(1)] by (simp add: read_c_string_def)
qed

lemma write_all_wf: "raw.write_all ws m = Some m' \<Longrightarrow> memory_wf m \<Longrightarrow> raw.short ws \<Longrightarrow> memory_wf m'"
  by (induction ws arbitrary: m) (auto simp: bind_eq_Some_conv raw.short_def dest: write_bytes_view(1))

text \<open>A string a C program can read: valid UTF-8 without NUL, shorter than a page.\<close>

definition c_readable :: "string \<Rightarrow> bool" where
  "c_readable s = (length s < 4096 \<and> utf8_valid (as_bytes s) \<and> 0 \<notin> set (as_bytes s))"

text \<open>C18: the booted guest finds its arguments. When the stack can be initialised, the stack pointer is 16-byte
  aligned and inside the stack; the word it points to is the number of arguments; the following words point to
  the argument strings in order, then comes a null pointer, then the environment strings in order, then a null
  pointer. No later string or word overwrites an earlier one.\<close>

theorem boot_stack_layout:
  assumes "initialize_user_stack m lo hi argv envp entry = Inr (m', sp)" and "memory_wf m"
    and "list_all c_readable (argv @ envp)" and "length argv + length envp < 2 ^ 60"
  shows "unat sp mod 16 = 0 \<and> lo \<le> sp \<and> sp \<le> hi \<and> memory_wf m' \<and>
    read_u64 m' sp = Some (word_of_nat (length argv)) \<and>
    (\<forall>i < length argv. \<exists>p. read_u64 m' (sp + word_of_nat (Suc i) * 8) = Some p \<and> read_c_string m' p 4096 = Some (argv ! i)) \<and>
    read_u64 m' (sp + word_of_nat (Suc (length argv)) * 8) = Some 0 \<and>
    (\<forall>j < length envp. \<exists>p. read_u64 m' (sp + word_of_nat (length argv + 2 + j) * 8) = Some p \<and>
       read_c_string m' p 4096 = Some (envp ! j)) \<and>
    read_u64 m' (sp + word_of_nat (length argv + 2 + length envp) * 8) = Some 0"
proof -
  have len: "list_all (\<lambda>s. length s + 1 < 2 ^ 64) (argv @ envp)"
    by (rule list.pred_mono_strong [OF assms(3)]) (simp add: c_readable_def)
  obtain aps eps aux ws where w: "length aps = length argv" "length eps = length envp"
    "raw.write_all ws m = Some m'" "stacked ws (unat sp) (unat hi)" "unat sp mod 16 = 0" "lo \<le> sp" "sp \<le> hi"
    "\<And>i. i < length argv \<Longrightarrow> (aps ! i, c_bytes (argv ! i)) \<in> set ws"
    "\<And>i. i < length envp \<Longrightarrow> (eps ! i, c_bytes (envp ! i)) \<in> set ws"
    "\<And>k. k < length (boot_words (length argv) aps eps aux) \<Longrightarrow>
        (sp + word_of_nat k * 8, to_le_bytes (boot_words (length argv) aps eps aux ! k)) \<in> set ws"
    by (rule boot_writes [OF assms(1) len assms(4)]) (rule that)
  let ?w = "boot_words (length argv) aps eps aux"
  note nth = boot_words_nth [OF w(1), where eps = eps and aux = aux]
  note rd = stacked_reads [OF w(3,4)]
  have wf': "memory_wf m'" using w(3,4) assms(2) by (auto simp: stacked_def intro: write_all_wf)
  have word: "read_u64 m' (sp + word_of_nat k * 8) = Some (?w ! k)" if "k < length ?w" for k
    using rd [OF w(10) [OF that]] by (intro read_u64_of_bytes) simp
  have str: "read_c_string m' p 4096 = Some s" if "(p, c_bytes s) \<in> set ws" "c_readable s" for p s
    using rd [OF that(1)] that(2) by (intro read_c_string_written [OF wf']) (simp_all add: c_readable_def)
  have arg: "\<exists>p. read_u64 m' (sp + word_of_nat (Suc i) * 8) = Some p \<and> read_c_string m' p 4096 = Some (argv ! i)"
    if "i < length argv" for i
  proof -
    have "c_readable (argv ! i)" using assms(3) that by (simp add: list_all_iff)
    then have "read_c_string m' (aps ! i) 4096 = Some (argv ! i)" by (rule str [OF w(8) [OF that]])
    moreover have "read_u64 m' (sp + word_of_nat (Suc i) * 8) = Some (aps ! i)"
      using word [of "Suc i"] nth(2) [OF that] nth(6) that by simp
    ultimately show ?thesis by blast
  qed
  have env: "\<exists>p. read_u64 m' (sp + word_of_nat (length argv + 2 + j) * 8) = Some p \<and> read_c_string m' p 4096 = Some (envp ! j)"
    if "j < length envp" for j
  proof -
    have "c_readable (envp ! j)" using assms(3) that by (simp add: list_all_iff)
    then have "read_c_string m' (eps ! j) 4096 = Some (envp ! j)" by (rule str [OF w(9) [OF that]])
    moreover have "read_u64 m' (sp + word_of_nat (length argv + 2 + j) * 8) = Some (eps ! j)"
      using word [of "length argv + 2 + j"] nth(4) [of j] nth(6) that w(2) by simp
    ultimately show ?thesis by blast
  qed
  show ?thesis
    using w(5,6,7) wf' word [of 0] nth(1) word [of "Suc (length argv)"] nth(3) word [of "length argv + 2 + length envp"]
      nth(5) nth(6) w(2) arg env by simp
qed

section \<open>Booting succeeds when the stack is large enough\<close>

definition can_write :: "GuestMemory \<Rightarrow> nat \<Rightarrow> nat \<Rightarrow> bool" where
  "can_write m lo hi = (\<forall>a bs. bs \<noteq> [] \<and> lo \<le> unat a \<and> unat a + length bs \<le> hi \<longrightarrow> write_bytes m a bs \<noteq> None)"

lemma can_write_region:
  assumes wf: "memory_wf m" and r: "r \<in> set (gm_regions m)" "{lo ..< hi} \<subseteq> region_span r" and hi: "hi < 2 ^ 64"
  shows "can_write m lo hi"
  unfolding can_write_def
proof (intro allI impI)
  fix a :: u64 and bs :: "u8 list"
  assume b: "bs \<noteq> [] \<and> lo \<le> unat a \<and> unat a + length bs \<le> hi"
  have n: "0 < length bs" "length bs < 2 ^ 64" using b hi by simp_all
  obtain i where i: "i < length (gm_regions m)" "gm_regions m ! i = r" using r(1) by (auto simp: in_set_conv_nth)
  have "{unat a ..< unat a + length bs} \<subseteq> {lo ..< hi}" using b by simp
  then have "{unat a ..< unat a + length bs} \<subseteq> region_span r" using r(2) by (rule subset_trans)
  then have c: "region_containing_mut m a (length bs) = Some i" using i region_containing_bytes [OF wf n] by simp
  from access_succeeds(2) [OF wf n c refl] c show "write_bytes m a bs \<noteq> None" by (simp add: write_bytes_def)
qed

lemma can_write_kept: "can_write m lo hi \<Longrightarrow> write_bytes m a bs = Some m' \<Longrightarrow> can_write m' lo hi"
  by (simp add: can_write_def raw.write_again)

lemma push_bytes_succeeds:
  assumes "can_write m lo hi" and "bs \<noteq> []" and "lo + length bs \<le> unat sp" and "unat sp \<le> hi"
  obtains m' sp' where "push_bytes m sp bs = Inr (m', sp')" "can_write m' lo hi" "unat sp' = unat sp - length bs"
proof -
  have n: "unat (word_of_nat (length bs) :: u64) = length bs"
    using assms(3) u64_bound [of sp] by (intro unat_of_nat_fits) simp
  let ?sp = "sp - word_of_nat (length bs)"
  have le: "word_of_nat (length bs) \<le> sp" using assms(3) n by (simp add: word_le_nat_alt)
  have sp: "unat ?sp = unat sp - length bs" using le n by (simp add: unat_sub)
  have "write_bytes m ?sp bs \<noteq> None" using assms sp unfolding can_write_def by simp
  then obtain m' where m': "write_bytes m ?sp bs = Some m'" by auto
  then show thesis using can_write_kept [OF assms(1) m'] le sp
    by (intro that [of m' ?sp]) (simp_all add: push_bytes_def checked_sub_def)
qed

definition c_size :: "string list \<Rightarrow> nat" where
  "c_size items = sum_list (map (\<lambda>s. length s + 1) items)"

lemma push_c_strings_succeeds:
  assumes "can_write m lo hi" and "lo + c_size items \<le> unat sp" and "unat sp \<le> hi"
  shows "\<exists>m' sp' ptrs'. push_c_strings m sp items ptrs = Inr (m', sp', ptrs') \<and> can_write m' lo hi \<and>
    unat sp' = unat sp - c_size items \<and> length ptrs' = length ptrs + length items"
  using assms
proof (induction items arbitrary: m sp ptrs)
  case Nil
  then show ?case by (simp add: c_size_def)
next
  case (Cons s items)
  have size: "c_size (s # items) = length s + 1 + c_size items" by (simp add: c_size_def)
  have l: "length (c_bytes s) = length s + 1" by (simp add: as_bytes_def)
  obtain m1 sp1 where p: "push_bytes m sp (c_bytes s) = Inr (m1, sp1)" "can_write m1 lo hi" "unat sp1 = unat sp - length (c_bytes s)"
    using push_bytes_succeeds [OF Cons.prems(1), of "c_bytes s" sp] Cons.prems(2,3) size l by auto
  have "lo + c_size items \<le> unat sp1" "unat sp1 \<le> hi" using Cons.prems(2,3) p(3) size l by simp_all
  from Cons.IH [OF p(2) this, of "sp1 # ptrs"] p size l show ?case by (auto simp: push_c_string_def)
qed

lemma write_words_succeeds:
  assumes "can_write m lo hi" and "lo \<le> unat sp" and "unat sp + 8 * (idx + length ws) \<le> hi" and "hi < 2 ^ 64"
  shows "\<exists>m'. write_words m sp idx ws = Some m'"
  using assms
proof (induction ws arbitrary: m idx)
  case (Cons w ws)
  have a: "unat (sp + word_of_nat idx * 8) = unat sp + 8 * idx" using Cons.prems by (intro word_address) simp
  have ne: "to_le_bytes w \<noteq> []" by (simp add: to_le_bytes_def)
  have "write_bytes m (sp + word_of_nat idx * 8) (to_le_bytes w) \<noteq> None"
    using Cons.prems(1-3) a ne unfolding can_write_def by simp
  then obtain m1 where m1: "write_bytes m (sp + word_of_nat idx * 8) (to_le_bytes w) = Some m1" by auto
  from Cons.IH [OF can_write_kept [OF Cons.prems(1) m1], of "idx + 1"] Cons.prems(2-4) m1 show ?case by (simp add: write_u64_def)
qed simp

text \<open>An upper bound of the bytes the initial stack takes, alignment included.\<close>

definition stack_need :: "string list \<Rightarrow> string list \<Rightarrow> nat" where
  "stack_need argv envp = length (case argv of [] \<Rightarrow> [] | a # _ \<Rightarrow> a) + 24 + c_size envp + c_size argv +
     8 * (length argv + length envp + 37) + 15"

lemma c_size_rev: "c_size (rev items) = c_size items"
  by (simp add: c_size_def rev_map [symmetric] sum_list_rev)

lemma push_frame_succeeds:
  assumes "can_write m lo hi" and "lo + 8 * length ws + 15 \<le> unat sp" and "unat sp \<le> hi" and "hi < 2 ^ 64"
    and "unat base \<le> lo"
  shows "\<exists>m' sp'. push_frame m base sp ws = Inr (m', sp')"
proof -
  let ?n = "word_of_nat (length ws * 8) :: u64"
  have n: "unat ?n = length ws * 8" using assms(2) u64_bound [of sp] by (intro unat_of_nat_fits) simp
  have le: "?n \<le> sp" unfolding word_le_nat_alt n using assms(2) by simp
  have u: "unat (sp - ?n) = unat sp - length ws * 8" using le n by (simp only: unat_sub)
  let ?sp = "align_down (sp - ?n) 16"
  have a: "unat ?sp = (unat sp - length ws * 8) div 16 * 16" by (simp only: align_down_16 u)
  have lo: "lo \<le> unat ?sp" "unat ?sp + 8 * length ws \<le> unat sp"
    using assms(2) div_mult_mod_eq [of "unat sp - length ws * 8" 16] mod_less_divisor [of 16 "unat sp - length ws * 8"]
    unfolding a by linarith+
  have "\<not> ?sp < base" using lo(1) assms(5) by (simp add: word_less_nat_alt)
  moreover obtain m' where "write_words m ?sp 0 ws = Some m'"
    using write_words_succeeds [OF assms(1) lo(1), of 0 ws] lo(2) assms(3,4) by auto
  ultimately show ?thesis using le by (simp add: push_frame_def checked_sub_def Let_def)
qed

lemma initialize_succeeds:
  assumes "memory_wf m" and "r \<in> set (gm_regions m)" and "{unat lo ..< unat hi} \<subseteq> region_span r"
    and "unat lo + stack_need argv envp \<le> unat hi"
  shows "\<exists>m' sp. initialize_user_stack m lo hi argv envp entry = Inr (m', sp)"
proof -
  let ?name = "case argv of [] \<Rightarrow> [] | a # _ \<Rightarrow> a"
  note need = assms(4) [unfolded stack_need_def]
  have cw: "can_write m (unat lo) (unat hi)" by (rule can_write_region [OF assms(1-3) u64_bound])
  have l: "length (c_bytes ?name) = length ?name + 1" "length (c_bytes ''linx64'') = 7" by (simp_all add: as_bytes_def)
  obtain m1 x where p1: "push_bytes m hi (c_bytes ?name) = Inr (m1, x)" "can_write m1 (unat lo) (unat hi)"
    "unat x = unat hi - length (c_bytes ?name)"
    by (rule push_bytes_succeeds [OF cw, of "c_bytes ?name" hi]) (use need l in auto)
  have x: "unat x = unat hi - (length ?name + 1)" unfolding p1(3) l ..
  obtain m2 pl where p2: "push_bytes m1 x (c_bytes ''linx64'') = Inr (m2, pl)" "can_write m2 (unat lo) (unat hi)"
    "unat pl = unat x - length (c_bytes ''linx64'')"
    by (rule push_bytes_succeeds [OF p1(2), of "c_bytes ''linx64''" x]) (use need l x in auto)
  have pl: "unat pl = unat hi - (length ?name + 8)" unfolding p2(3) l x by simp
  obtain m3 rnd where p3: "push_bytes m2 pl (replicate 16 0xA5) = Inr (m3, rnd)" "can_write m3 (unat lo) (unat hi)"
    "unat rnd = unat pl - length (replicate 16 (0xA5 :: u8))"
    by (rule push_bytes_succeeds [OF p2(2), of "replicate 16 0xA5" pl]) (use need pl in auto)
  have rnd: "unat rnd = unat hi - (length ?name + 24)" unfolding p3(3) pl by simp
  have r4: "unat lo + c_size (rev envp) \<le> unat rnd" "unat rnd \<le> unat hi"
    using need unfolding rnd c_size_rev by linarith+
  obtain m4 sp4 eps where p4: "push_c_strings m3 rnd (rev envp) [] = Inr (m4, sp4, eps)" "can_write m4 (unat lo) (unat hi)"
    "unat sp4 = unat rnd - c_size envp" "length eps = length envp"
    using push_c_strings_succeeds [OF p3(2) r4, of "[]"] by (auto simp: c_size_rev)
  have r5: "unat lo + c_size (rev argv) \<le> unat sp4" "unat sp4 \<le> unat hi"
    using need unfolding p4(3) rnd c_size_rev by linarith+
  obtain m5 sp5 aps where p5: "push_c_strings m4 sp4 (rev argv) [] = Inr (m5, sp5, aps)" "can_write m5 (unat lo) (unat hi)"
    "unat sp5 = unat sp4 - c_size argv" "length aps = length argv"
    using push_c_strings_succeeds [OF p4(2) r5, of "[]"] by (auto simp: c_size_rev)
  let ?ws = "boot_words (length argv) aps eps (boot_auxv entry pl rnd x)"
  have lw: "length ?ws = length argv + length envp + 37"
    using boot_words_nth(6) [OF p5(4), where eps = eps] p4(4) by (simp add: boot_auxv_def)
  have "unat lo + 8 * length ?ws + 15 \<le> unat sp5" "unat sp5 \<le> unat hi"
    using need rnd p4(3) p5(3) unfolding lw by linarith+
  from push_frame_succeeds [OF p5(2) this u64_bound order_refl] show ?thesis
    using p1(1) p2(1) p3(1) p4(1) p5(1) by (auto simp: initialize_user_stack_def push_c_string_def)
qed

text \<open>Booting succeeds. When one region of the memory covers the stack and the stack has room for the
  strings, the auxiliary data and the frame of pointers, initialising it does not fail.\<close>

theorem boot_stack_succeeds:
  assumes "memory_wf m" and "r \<in> set (gm_regions m)" and "{unat lo ..< unat hi} \<subseteq> region_span r"
    and "unat lo + stack_need argv envp \<le> unat hi"
  shows "\<exists>m' sp. initialize_user_stack m lo hi argv envp entry = Inr (m', sp)"
  by (rule initialize_succeeds [OF assms])

definition sample_stack :: GuestMemory where
  "sample_stack = \<lparr>gm_regions = [\<lparr>mr_base = 0x7000, mr_size = 0x200, mr_flags = 0b110, mr_data = replicate 0x200 0\<rparr>]\<rparr>"

lemma sample_stack_wf: "memory_wf sample_stack"
  by (simp add: sample_stack_def memory_wf_def region_ok_def)

lemma boot_stack_succeeds_witness:
  "\<exists>m' sp. initialize_user_stack sample_stack 0x7000 0x7200 [''prog'', ''x''] [''A=1''] 0x1000 = Inr (m', sp)"
  by (rule boot_stack_succeeds [OF sample_stack_wf, of "hd (gm_regions sample_stack)"])
    (simp_all add: sample_stack_def region_span_def stack_need_def c_size_def)

lemma boot_stack_layout_witness:
  "\<exists>m' sp p. initialize_user_stack sample_stack 0x7000 0x7200 [''prog'', ''x''] [''A=1''] 0x1000 = Inr (m', sp) \<and>
     read_u64 m' sp = Some 2 \<and> read_u64 m' (sp + 16) = Some p \<and> read_c_string m' p 4096 = Some ''x''"
proof -
  have "\<exists>m' sp. initialize_user_stack sample_stack 0x7000 0x7200 [''prog'', ''x''] [''A=1''] 0x1000 = Inr (m', sp)"
    by (rule initialize_succeeds [OF sample_stack_wf, of "hd (gm_regions sample_stack)"])
      (simp_all add: sample_stack_def region_span_def stack_need_def c_size_def)
  then obtain m' sp where i: "initialize_user_stack sample_stack 0x7000 0x7200 [''prog'', ''x''] [''A=1''] 0x1000 = Inr (m', sp)"
    by blast
  have c: "list_all c_readable ([''prog'', ''x''] @ [''A=1''])" by code_simp
  note b = boot_stack_layout [OF i sample_stack_wf c]
  have "read_u64 m' sp = Some 2" using b by simp
  moreover have "\<exists>p. read_u64 m' (sp + word_of_nat (Suc 1) * 8) = Some p \<and> read_c_string m' p 4096 = Some ([''prog'', ''x''] ! 1)"
    using b by (auto simp del: of_nat_Suc)
  ultimately show ?thesis using i by auto
qed

section \<open>The booted memory\<close>

text \<open>The regions \<open>bootstrap\<close> lays out: the segments of the image, then the stack.\<close>

definition stack_region :: "RuntimeConfig \<Rightarrow> MemoryRegion" where
  "stack_region config =
     \<lparr>mr_base = GUEST_STACK_TOP - rc_stack_size config, mr_size = rc_stack_size config, mr_flags = 0b110,
      mr_data = replicate (unat (rc_stack_size config)) 0\<rparr>"

definition boot_memory :: "LoadedElf \<Rightarrow> RuntimeConfig \<Rightarrow> GuestMemory" where
  "boot_memory img config = \<lparr>gm_regions = map segment_region (le_segments img) @ [stack_region config]\<rparr>"

lemma stack_region_span:
  "rc_stack_size config \<le> GUEST_STACK_TOP \<Longrightarrow>
   region_span (stack_region config) = {unat (GUEST_STACK_TOP - rc_stack_size config) ..< unat GUEST_STACK_TOP}"
  by (simp add: region_span_def stack_region_def unat_sub word_le_nat_alt)

lemma bootstrap_eq:
  assumes "rc_stack_size config \<le> rc_mem_bytes config" "rc_stack_size config \<le> GUEST_STACK_TOP"
    "initialize_user_stack (boot_memory img config) (GUEST_STACK_TOP - rc_stack_size config) GUEST_STACK_TOP
       (build_boot_args img config) (build_boot_env config) (le_entry img) = Inr (m, sp)"
  shows "bootstrap img config =
    Inr \<lparr>gr_image = img, gr_config = config,
         gr_state = (ArchitecturalState_new (le_entry img))\<lparr>as_regs := (replicate 32 0)[1 := sp]\<rparr>,
         gr_block = default_block_meta, gr_memory = m,
         gr_boot = \<lparr>bi_entry_pc = le_entry img, bi_stack_top = GUEST_STACK_TOP, bi_stack_pointer = sp,
                    bi_argc = word_of_nat (length (build_boot_args img config))\<rparr>,
         gr_fd_table = [(0, 0), (1, 1), (2, 2)]\<rparr>"
  using assms unfolding boot_memory_def stack_region_def
  by (simp add: bootstrap_def checked_sub_def not_less Let_def ArchitecturalState_new_def)

lemma write_all_view:
  assumes "memory_wf m" "raw.write_all ws m = Some m'" "stacked ws lo hi"
  shows "memory_wf m' \<and> mem_shape m' = mem_shape m \<and> (\<forall>x. unat x \<notin> {lo ..< hi} \<longrightarrow> byte_at m' x = byte_at m x)"
  using assms
proof (induction ws arbitrary: m)
  case (Cons w ws)
  obtain m1 where m1: "write_bytes m (fst w) (snd w) = Some m1" "raw.write_all ws m1 = Some m'"
    using Cons.prems(2) by (cases w) (auto split: Option.bind_splits)
  have l: "length (snd w) < 2 ^ 64" "lo \<le> unat (fst w)" "unat (fst w) + length (snd w) \<le> hi" "stacked ws lo hi"
    using Cons.prems(3) by (auto simp: stacked_def raw.all_apart_def raw.short_def)
  note v = write_bytes_view [OF Cons.prems(1) m1(1) l(1)]
  have "byte_at m1 x = byte_at m x" if "unat x \<notin> {lo ..< hi}" for x
    using v l(2,3) that by auto
  moreover have "memory_wf m1" using v by blast
  ultimately show ?case using Cons.IH [OF _ m1(2) l(4)] write_bytes_shape [OF m1(1)] by simp
qed simp

lemma c_size_member: "s \<in> set items \<Longrightarrow> length s + 1 \<le> c_size items"
  unfolding c_size_def by (rule member_le_sum_list) auto

lemma find_append: "find P (xs @ ys) = (case find P xs of None \<Rightarrow> find P ys | Some x \<Rightarrow> Some x)"
  by (induction xs) auto

lemma boot_memory_byte:
  assumes "unat x \<notin> region_span (stack_region config)"
  shows "byte_at (boot_memory img config) x = byte_at \<lparr>gm_regions = map segment_region (le_segments img)\<rparr> x"
  using assms by (simp add: byte_at_def boot_memory_def find_append split: option.split)

lemma bootstrap_succeeds:
  assumes "rc_stack_size config \<le> rc_mem_bytes config" and "rc_stack_size config \<le> GUEST_STACK_TOP"
    and "memory_wf (boot_memory img config)"
    and "stack_need (build_boot_args img config) (build_boot_env config) \<le> unat (rc_stack_size config)"
  shows "\<exists>rt. bootstrap img config = Inr rt \<and> memory_wf (gr_memory rt) \<and>
    mem_shape (gr_memory rt) = mem_shape (boot_memory img config) \<and>
    (\<forall>x. x < GUEST_STACK_TOP - rc_stack_size config \<or> GUEST_STACK_TOP \<le> x \<longrightarrow>
       byte_at (gr_memory rt) x = byte_at \<lparr>gm_regions = map segment_region (le_segments img)\<rparr> x) \<and>
    as_pc (gr_state rt) = le_entry img \<and> as_regs (gr_state rt) ! 1 = bi_stack_pointer (gr_boot rt) \<and>
    unat (bi_stack_pointer (gr_boot rt)) mod 16 = 0 \<and>
    GUEST_STACK_TOP - rc_stack_size config \<le> bi_stack_pointer (gr_boot rt) \<and> bi_stack_pointer (gr_boot rt) \<le> GUEST_STACK_TOP"
proof -
  let ?lo = "GUEST_STACK_TOP - rc_stack_size config" and ?argv = "build_boot_args img config" and ?envp = "build_boot_env config"
  have span: "region_span (stack_region config) = {unat ?lo ..< unat GUEST_STACK_TOP}" by (rule stack_region_span [OF assms(2)])
  have lo: "unat ?lo + unat (rc_stack_size config) = unat GUEST_STACK_TOP" using assms(2) by (simp add: unat_sub word_le_nat_alt)
  have mem: "stack_region config \<in> set (gm_regions (boot_memory img config))" by (simp add: boot_memory_def)
  obtain m sp where init: "initialize_user_stack (boot_memory img config) ?lo GUEST_STACK_TOP ?argv ?envp (le_entry img) = Inr (m, sp)"
    using initialize_succeeds [OF assms(3) mem, of ?lo GUEST_STACK_TOP ?argv ?envp "le_entry img"] assms(4) span lo by auto
  have small: "stack_need ?argv ?envp < 2 ^ 60" using assms(4,2) by (simp add: word_le_nat_alt GUEST_STACK_TOP_def)
  have "list_all (\<lambda>s. length s + 1 < 2 ^ 64) (?argv @ ?envp)"
    using small c_size_member [of _ ?argv] c_size_member [of _ ?envp] by (fastforce simp: list_all_iff stack_need_def)
  moreover have "length ?argv + length ?envp < 2 ^ 60" using small by (simp add: stack_need_def)
  ultimately obtain ws where ws: "raw.write_all ws (boot_memory img config) = Some m" "stacked ws (unat sp) (unat GUEST_STACK_TOP)"
    "unat sp mod 16 = 0" "?lo \<le> sp" "sp \<le> GUEST_STACK_TOP"
    by (rule boot_writes [OF init]) (rule that)
  note v = write_all_view [OF assms(3) ws(1,2)]
  have "byte_at m x = byte_at \<lparr>gm_regions = map segment_region (le_segments img)\<rparr> x" if "x < ?lo \<or> GUEST_STACK_TOP \<le> x" for x
  proof -
    have "unat x \<notin> {unat ?lo ..< unat GUEST_STACK_TOP}" "unat x \<notin> {unat sp ..< unat GUEST_STACK_TOP}"
      using that ws(4) by (auto simp: word_less_nat_alt word_le_nat_alt)
    then show ?thesis using v boot_memory_byte [of x config img] by (simp add: span)
  qed
  then show ?thesis using bootstrap_eq [OF assms(1,2) init] v ws(3-5) by (simp add: ArchitecturalState_new_def)
qed

text \<open>Booting loads the program. For an image whose segments overlap neither each other nor the stack, and a stack
  with room for the arguments, \<open>bootstrap\<close> succeeds: every byte outside the stack is the byte of the image's segment
  there, with its permissions, the program counter is the entry point, and register 1 holds the
  16-byte-aligned stack pointer inside the stack.\<close>

theorem bootstrap_loads_image:
  assumes "rc_stack_size config \<le> rc_mem_bytes config" and "rc_stack_size config \<le> GUEST_STACK_TOP"
    and "memory_wf (boot_memory img config)"
    and "stack_need (build_boot_args img config) (build_boot_env config) \<le> unat (rc_stack_size config)"
  shows "\<exists>rt. bootstrap img config = Inr rt \<and> memory_wf (gr_memory rt) \<and>
    mem_shape (gr_memory rt) = mem_shape (boot_memory img config) \<and>
    (\<forall>x. x < GUEST_STACK_TOP - rc_stack_size config \<or> GUEST_STACK_TOP \<le> x \<longrightarrow>
       byte_at (gr_memory rt) x = byte_at \<lparr>gm_regions = map segment_region (le_segments img)\<rparr> x) \<and>
    as_pc (gr_state rt) = le_entry img \<and> as_regs (gr_state rt) ! 1 = bi_stack_pointer (gr_boot rt) \<and>
    unat (bi_stack_pointer (gr_boot rt)) mod 16 = 0 \<and>
    GUEST_STACK_TOP - rc_stack_size config \<le> bi_stack_pointer (gr_boot rt) \<and> bi_stack_pointer (gr_boot rt) \<le> GUEST_STACK_TOP"
  by (rule bootstrap_succeeds [OF assms])

text \<open>An image of one executable segment.\<close>

definition sample_image :: LoadedElf where
  "sample_image = \<lparr>le_path = ''/bin/prog'', le_entry = 0x1000, le_little_endian = True, le_bits = 64, le_machine = 0,
     le_segments = [\<lparr>sg_vaddr = 0x1000, sg_mem_size = 8, sg_file_size = 8, sg_flags = 0b101, sg_data = replicate 8 7\<rparr>]\<rparr>"

lemma sample_boot:
  "rc_stack_size default_runtime_config \<le> rc_mem_bytes default_runtime_config" "rc_stack_size default_runtime_config \<le> GUEST_STACK_TOP"
  "memory_wf (boot_memory sample_image default_runtime_config)"
  "stack_need (build_boot_args sample_image default_runtime_config) (build_boot_env default_runtime_config)
     \<le> unat (rc_stack_size default_runtime_config)"
proof -
  show top: "rc_stack_size default_runtime_config \<le> GUEST_STACK_TOP"
    by (simp add: default_runtime_config_def DEFAULT_STACK_SIZE_def GUEST_STACK_TOP_def)
  show "rc_stack_size default_runtime_config \<le> rc_mem_bytes default_runtime_config"
    by (simp add: default_runtime_config_def DEFAULT_STACK_SIZE_def DEFAULT_MEM_BYTES_def)
  show "stack_need (build_boot_args sample_image default_runtime_config) (build_boot_env default_runtime_config)
     \<le> unat (rc_stack_size default_runtime_config)"
    by (simp add: default_runtime_config_def DEFAULT_STACK_SIZE_def stack_need_def c_size_def build_boot_args_def build_boot_env_def sample_image_def)
  have "region_ok (stack_region default_runtime_config)"
    by (simp add: region_ok_def stack_region_def default_runtime_config_def DEFAULT_STACK_SIZE_def GUEST_STACK_TOP_def)
  moreover have "region_span (segment_region (hd (le_segments sample_image))) = {0x1000 ..< 0x1008}"
    by (simp add: region_span_def segment_region_def sample_image_def)
  moreover have "region_span (stack_region default_runtime_config) = {0x7F7FF000 ..< 0x7FFFF000}"
    unfolding stack_region_span [OF top] by (simp add: default_runtime_config_def DEFAULT_STACK_SIZE_def GUEST_STACK_TOP_def)
  moreover have "region_ok (segment_region (hd (le_segments sample_image)))"
    by (simp add: region_ok_def segment_region_def sample_image_def vec_resize_def)
  ultimately show "memory_wf (boot_memory sample_image default_runtime_config)"
    by (simp add: memory_wf_def boot_memory_def sample_image_def)
qed

lemma bootstrap_loads_image_witness:
  "\<exists>rt. bootstrap sample_image default_runtime_config = Inr rt \<and> byte_at (gr_memory rt) 0x1003 = Some (0b101, 7) \<and> as_pc (gr_state rt) = 0x1000"
proof -
  have "byte_at \<lparr>gm_regions = map segment_region (le_segments sample_image)\<rparr> 0x1003 = Some (0b101, 7)"
    by (simp add: byte_at_def sample_image_def segment_region_def region_span_def region_byte_def vec_resize_def)
  moreover have "(0x1003 :: u64) < GUEST_STACK_TOP - rc_stack_size default_runtime_config"
    by (simp add: default_runtime_config_def DEFAULT_STACK_SIZE_def GUEST_STACK_TOP_def)
  moreover have "le_entry sample_image = 0x1000" by (simp add: sample_image_def)
  ultimately show ?thesis using bootstrap_loads_image [OF sample_boot] by metis
qed

end
