(* ===== verification/Func_State.thy ===== *)
theory Func_State
  imports Guest_Runtime "HOL-Library.Signed_Division"
begin

text \<open>
  The state of the functional engine (\<open>ExecState\<close> of \<^verbatim>\<open>crates/funcmodel/src/exec/mod.rs\<close>) with its
  register, file descriptor, heap and limit operations, the arithmetic helpers, guest loads and stores, and the
  recording of operands and results in the commit record. The C library is a record of functions over a
  host state; a call that can fail returns a negative result and leaves its error number in the host state.
  Hash maps are ordered association lists, since no code iterates over them in hash order.
\<close>

unbundle bit_operations_syntax

section \<open>Registers, errors and the host\<close>

definition REG_ZERO :: usize where "REG_ZERO = 0"

definition REG_SP :: usize where "REG_SP = 1"

definition REG_A0 :: usize where "REG_A0 = 2"

definition REG_A1 :: usize where "REG_A1 = 3"

definition REG_A2 :: usize where "REG_A2 = 4"

definition REG_A3 :: usize where "REG_A3 = 5"

definition REG_A4 :: usize where "REG_A4 = 6"

definition REG_A5 :: usize where "REG_A5 = 7"

definition REG_A7 :: usize where "REG_A7 = 9"

definition REG_RA :: usize where "REG_RA = 10"

definition FREG_T1 :: usize where "FREG_T1 = 24"

definition FREG_T4 :: usize where "FREG_T4 = 27"

definition FREG_U1 :: usize where "FREG_U1 = 28"

definition FREG_U3 :: usize where "FREG_U3 = 30"

definition FREG_U4 :: usize where "FREG_U4 = 31"

definition REG_IMPLICIT_T_DST :: usize where "REG_IMPLICIT_T_DST = FREG_U4"

definition REG_IMPLICIT_U_DST :: usize where "REG_IMPLICIT_U_DST = FREG_U3"

lemmas reg_defs = REG_ZERO_def REG_SP_def REG_A0_def REG_A1_def REG_A2_def REG_A3_def REG_A4_def REG_A5_def
  REG_A7_def REG_RA_def FREG_T1_def FREG_T4_def FREG_U1_def FREG_U3_def FREG_U4_def REG_IMPLICIT_T_DST_def
  REG_IMPLICIT_U_DST_def

definition TRAP_SW_BREAKPOINT :: u64 where
  "TRAP_SW_BREAKPOINT = 50"

abbreviation GUEST_EPERM :: int where "GUEST_EPERM \<equiv> 1"

abbreviation GUEST_ENOENT :: int where "GUEST_ENOENT \<equiv> 2"

abbreviation GUEST_ESRCH :: int where "GUEST_ESRCH \<equiv> 3"

abbreviation GUEST_EBADF :: int where "GUEST_EBADF \<equiv> 9"

abbreviation GUEST_ECHILD :: int where "GUEST_ECHILD \<equiv> 10"

abbreviation GUEST_EAGAIN :: int where "GUEST_EAGAIN \<equiv> 11"

abbreviation GUEST_ENOMEM :: int where "GUEST_ENOMEM \<equiv> 12"

abbreviation GUEST_EFAULT :: int where "GUEST_EFAULT \<equiv> 14"

abbreviation GUEST_EEXIST :: int where "GUEST_EEXIST \<equiv> 17"

abbreviation GUEST_EINVAL :: int where "GUEST_EINVAL \<equiv> 22"

abbreviation GUEST_ENOTTY :: int where "GUEST_ENOTTY \<equiv> 25"

abbreviation GUEST_ERANGE :: int where "GUEST_ERANGE \<equiv> 34"

abbreviation GUEST_ENOSYS :: int where "GUEST_ENOSYS \<equiv> 38"

abbreviation GUEST_ETIMEDOUT :: int where "GUEST_ETIMEDOUT \<equiv> 110"

definition GUEST_FD_CLOEXEC :: int where "GUEST_FD_CLOEXEC = 1"

definition GUEST_SS_DISABLE :: u32 where "GUEST_SS_DISABLE = 2"

definition RLIMIT_DATA :: u32 where "RLIMIT_DATA = 2"

definition RLIMIT_STACK :: u32 where "RLIMIT_STACK = 3"

definition RLIMIT_NOFILE :: u32 where "RLIMIT_NOFILE = 7"

definition RLIMIT_AS :: u32 where "RLIMIT_AS = 9"

text \<open>The fields of the host's \<open>stat\<close> structure that the executor reads.\<close>

record HostStat =
  st_dev :: int
  st_ino :: int
  st_mode :: int
  st_nlink :: int
  st_uid :: int
  st_gid :: int
  st_rdev :: int
  st_size :: int
  st_blksize :: int
  st_blocks :: int
  st_atime :: int
  st_atime_nsec :: int
  st_mtime :: int
  st_mtime_nsec :: int
  st_ctime :: int
  st_ctime_nsec :: int

text \<open>The C library: each call takes the host state and returns its result and the new host state. Reads
  return the bytes placed in the buffer, at most the number asked for; \<open>h_poll\<close> returns the result and the
  \<open>revents\<close> of the descriptors, in their order.\<close>

record 'h Host =
  h_errno :: "'h \<Rightarrow> int"
  h_getpid :: "'h \<Rightarrow> int"
  h_getppid :: "'h \<Rightarrow> int"
  h_current_dir :: "'h \<Rightarrow> string option"
  h_clock_gettime :: "int \<Rightarrow> 'h \<Rightarrow> (int \<times> int) option \<times> 'h"
  h_dup :: "int \<Rightarrow> 'h \<Rightarrow> int \<times> 'h"
  h_close :: "int \<Rightarrow> 'h \<Rightarrow> 'h"
  h_write :: "int \<Rightarrow> u8 list \<Rightarrow> 'h \<Rightarrow> int \<times> 'h"
  h_read :: "int \<Rightarrow> usize \<Rightarrow> 'h \<Rightarrow> u8 list option \<times> 'h"
  h_open :: "string \<Rightarrow> int \<Rightarrow> u32 \<Rightarrow> 'h \<Rightarrow> int \<times> 'h"
  h_openat :: "int \<Rightarrow> string \<Rightarrow> int \<Rightarrow> u32 \<Rightarrow> 'h \<Rightarrow> int \<times> 'h"
  h_lseek :: "int \<Rightarrow> int \<Rightarrow> int \<Rightarrow> 'h \<Rightarrow> int \<times> 'h"
  h_fstat :: "int \<Rightarrow> 'h \<Rightarrow> HostStat option \<times> 'h"
  h_fstatat :: "int \<Rightarrow> string \<Rightarrow> int \<Rightarrow> 'h \<Rightarrow> HostStat option \<times> 'h"
  h_readlink :: "string \<Rightarrow> usize \<Rightarrow> 'h \<Rightarrow> u8 list option \<times> 'h"
  h_readlinkat :: "int \<Rightarrow> string \<Rightarrow> usize \<Rightarrow> 'h \<Rightarrow> u8 list option \<times> 'h"
  h_pipe :: "'h \<Rightarrow> (int \<times> int) option \<times> 'h"
  h_fcntl_getfl :: "int \<Rightarrow> 'h \<Rightarrow> int \<times> 'h"
  h_fcntl_setfl :: "int \<Rightarrow> int \<Rightarrow> 'h \<Rightarrow> int \<times> 'h"
  h_poll :: "(int \<times> u16) list \<Rightarrow> int \<Rightarrow> 'h \<Rightarrow> (int \<times> u16 list) \<times> 'h"

section \<open>State\<close>

datatype ExitSignal = GuestExit int | Breakpoint | Fault

datatype BlockKind = BkFall | BkDirect | BkCond | BkCall | BkInd | BkICall | BkRet

record BlockContext =
  bx_kind :: BlockKind
  bx_target :: "u64 option"
  bx_return_target :: "u64 option"

record EventFdState =
  efd_write_fd :: int
  efd_counter :: u64
  efd_semaphore :: bool

record GuestEpollRegistration =
  epr_guest_fd :: u64
  epr_events :: u32
  epr_data :: u64

record EpollState =
  eps_wake_write_fd :: int
  eps_registrations :: "(u64, GuestEpollRegistration) btree_map"

datatype SpecialFdKind = SfEventFd EventFdState | SfEpoll EpollState

record GuestRlimit =
  rl_cur :: u64
  rl_max :: u64

record ExecState =
  xs_pc :: u64
  xs_regs :: "u64 list"
  xs_memory :: GuestMemory
  xs_ssr :: "(u16, u64) btree_map"
  xs_fd_table :: "(u64, int) btree_map"
  xs_fd_status_flags :: "(u64, int) btree_map"
  xs_fd_fd_flags :: "(u64, int) btree_map"
  xs_special_fds :: "(u64, SpecialFdKind) btree_map"
  xs_block :: "BlockContext option"
  xs_cond :: bool
  xs_carg :: bool
  xs_target :: u64
  xs_brk_base :: u64
  xs_brk_current :: u64
  xs_mmap_cursor :: u64
  xs_clear_child_tid :: u64
  xs_robust_list_head :: u64
  xs_robust_list_len :: u64
  xs_current_pid :: u64
  xs_current_ppid :: u64
  xs_current_pgrp :: u32
  xs_uid :: u32
  xs_euid :: u32
  xs_suid :: u32
  xs_gid :: u32
  xs_egid :: u32
  xs_sgid :: u32
  xs_random_state :: u64
  xs_thread_name :: "u8 list"
  xs_membarrier_private_expedited :: bool
  xs_rseq_addr :: u64
  xs_rseq_len :: u32
  xs_rseq_sig :: u32
  xs_alt_stack_sp :: u64
  xs_alt_stack_size :: u64
  xs_alt_stack_flags :: u32
  xs_rlimits :: "(u32, GuestRlimit) btree_map"

record StepOutcome =
  so_next_pc :: u64
  so_exit :: "ExitSignal option"
  so_retire_cause :: string

section \<open>Alignment and conversions\<close>

definition align_up :: "u64 \<Rightarrow> u64 \<Rightarrow> u64" where
  "align_up value align = (value + align - 1) AND NOT (align - 1)"

definition as_i32 :: "u64 \<Rightarrow> int" where
  "as_i32 w = sint (ucast w :: u32)"

definition trace_size :: "usize \<Rightarrow> u8" where
  "trace_size sz = word_of_nat (min sz 255)"

section \<open>Construction\<close>

definition exec_state_from_runtime :: "'h Host \<Rightarrow> 'h \<Rightarrow> GuestRuntime \<Rightarrow> ExecState" where
  "exec_state_from_runtime host h rt =
     (let current_pid = unsafe_pid (h_getpid host h);
          mem_bytes = rc_mem_bytes (gr_config rt);
          stack_size = rc_stack_size (gr_config rt);
          heap_base = align_up (highest_mapped_address (gr_memory rt)) PAGE_SIZE
      in \<lparr>xs_pc = as_pc (gr_state rt), xs_regs = as_regs (gr_state rt), xs_memory = gr_memory rt,
          xs_ssr = [(0x0000, 0), (0x0001, 0), (0x0C00, 0)],
          xs_fd_table = gr_fd_table rt,
          xs_fd_status_flags = [(0, 0), (1, 0), (2, 0)], xs_fd_fd_flags = [(0, 0), (1, 0), (2, 0)],
          xs_special_fds = [], xs_block = None, xs_cond = False, xs_carg = False, xs_target = 0,
          xs_brk_base = heap_base, xs_brk_current = heap_base, xs_mmap_cursor = word_sat_add heap_base PAGE_SIZE,
          xs_clear_child_tid = 0, xs_robust_list_head = 0, xs_robust_list_len = 0,
          xs_current_pid = current_pid, xs_current_ppid = unsafe_pid (h_getppid host h),
          xs_current_pgrp = ucast (min current_pid 0xFFFFFFFF),
          xs_uid = 0, xs_euid = 0, xs_suid = 0, xs_gid = 0, xs_egid = 0, xs_sgid = 0,
          xs_random_state = 0x4c696e78434f5245 XOR as_pc (gr_state rt) XOR mem_bytes XOR stack_size,
          xs_thread_name = as_bytes ''lx-f'' @ replicate 12 0,
          xs_membarrier_private_expedited = False, xs_rseq_addr = 0, xs_rseq_len = 0, xs_rseq_sig = 0,
          xs_alt_stack_sp = 0, xs_alt_stack_size = 0, xs_alt_stack_flags = GUEST_SS_DISABLE,
          xs_rlimits = [(RLIMIT_DATA, \<lparr>rl_cur = mem_bytes, rl_max = mem_bytes\<rparr>),
                        (RLIMIT_STACK, \<lparr>rl_cur = stack_size, rl_max = stack_size\<rparr>),
                        (RLIMIT_NOFILE, \<lparr>rl_cur = 1024, rl_max = 4096\<rparr>),
                        (RLIMIT_AS, \<lparr>rl_cur = mem_bytes, rl_max = mem_bytes\<rparr>)]\<rparr>)"

section \<open>Registers and blocks\<close>

definition read_reg :: "ExecState \<Rightarrow> usize \<Rightarrow> u64" where
  "read_reg s reg = (if reg < length (xs_regs s) then xs_regs s ! reg else 0)"

text \<open>Writing a register outside the file panics.\<close>

definition write_reg :: "ExecState \<Rightarrow> usize \<Rightarrow> u64 \<Rightarrow> ExecState option" where
  "write_reg s reg value =
     (if reg = REG_ZERO then Some (s\<lparr>xs_regs := (xs_regs s)[REG_ZERO := 0]\<rparr>)
      else if reg < length (xs_regs s)
      then Some (s\<lparr>xs_regs := ((xs_regs s)[reg := value])[REG_ZERO := 0]\<rparr>)
      else None)"

text \<open>The shift of a queue: each register takes the value of the one before it, last first.\<close>

fun shift_regs :: "usize list \<Rightarrow> u64 list \<Rightarrow> u64 list" where
  "shift_regs [] regs = regs"
| "shift_regs (reg # rest) regs = shift_regs rest (regs[reg := regs ! (reg - 1)])"

definition push_t :: "ExecState \<Rightarrow> u64 \<Rightarrow> ExecState" where
  "push_t s value =
     s\<lparr>xs_regs := (shift_regs (rev [FREG_T1 + 1 ..< FREG_T4 + 1]) (xs_regs s))[FREG_T1 := value]\<rparr>"

definition push_u :: "ExecState \<Rightarrow> u64 \<Rightarrow> ExecState" where
  "push_u s value =
     s\<lparr>xs_regs := (shift_regs (rev [FREG_U1 + 1 ..< FREG_U4 + 1]) (xs_regs s))[FREG_U1 := value]\<rparr>"

definition set_block :: "ExecState \<Rightarrow> BlockKind \<Rightarrow> u64 option \<Rightarrow> ExecState" where
  "set_block s kind target =
     s\<lparr>xs_block := Some \<lparr>bx_kind = kind, bx_target = target, bx_return_target = None\<rparr>,
       xs_cond := False, xs_carg := False, xs_target := 0\<rparr>"

section \<open>Heap, mappings and limits\<close>

definition grow_region :: "u64 \<Rightarrow> MemoryRegion \<Rightarrow> MemoryRegion" where
  "grow_region desired_size region =
     (if desired_size = 0 then region\<lparr>mr_size := 0, mr_data := []\<rparr>
      else region\<lparr>mr_size := desired_size, mr_data := vec_resize (mr_data region) (unat desired_size) 0\<rparr>)"

definition grow_brk :: "ExecState \<Rightarrow> u64 \<Rightarrow> ExecState" where
  "grow_brk s target =
     (let target' = align_up (max target (xs_brk_base s)) PAGE_SIZE;
          desired_size = target' - xs_brk_base s;
          regions = gm_regions (xs_memory s);
          regions' =
            (case position (\<lambda>region. mr_base region = xs_brk_base s) regions of
               Some i \<Rightarrow> regions[i := grow_region desired_size (regions ! i)]
             | None \<Rightarrow>
                 if desired_size \<noteq> 0
                 then regions @ [\<lparr>mr_base = xs_brk_base s, mr_size = desired_size,
                                  mr_flags = MEM_READ OR MEM_WRITE,
                                  mr_data = replicate (unat desired_size) 0\<rparr>]
                 else regions)
      in s\<lparr>xs_memory := (xs_memory s)\<lparr>gm_regions := filter (\<lambda>region. mr_size region \<noteq> 0) regions'\<rparr>,
           xs_brk_current := target'\<rparr>)"

definition alloc_mmap :: "ExecState \<Rightarrow> u64 \<Rightarrow> u64 \<Rightarrow> u32 \<Rightarrow> ExecState \<times> u64" where
  "alloc_mmap s requested sz prot =
     (let next = align_up (xs_mmap_cursor s) PAGE_SIZE;
          base = (if requested \<noteq> 0 then align_down requested PAGE_SIZE else next);
          cursor = (if requested \<noteq> 0 then xs_mmap_cursor s else next + align_up sz PAGE_SIZE);
          sz' = align_up (max sz PAGE_SIZE) PAGE_SIZE
      in (s\<lparr>xs_mmap_cursor := cursor,
            xs_memory := (xs_memory s)\<lparr>gm_regions := gm_regions (xs_memory s) @
              [\<lparr>mr_base = base, mr_size = sz', mr_flags = guest_prot_to_region_flags prot,
                mr_data = replicate (unat sz') 0\<rparr>]\<rparr>\<rparr>, base))"

definition rlimit_for :: "ExecState \<Rightarrow> u32 \<Rightarrow> GuestRlimit option" where
  "rlimit_for s resource = bt_get (xs_rlimits s) resource"

definition set_rlimit :: "ExecState \<Rightarrow> u32 \<Rightarrow> GuestRlimit \<Rightarrow> int + ExecState" where
  "set_rlimit s resource limit =
     (case bt_get (xs_rlimits s) resource of None \<Rightarrow> Inl GUEST_EINVAL
      | Some current \<Rightarrow>
          if rl_max limit < rl_cur limit \<or> rl_max current < rl_max limit then Inl GUEST_EINVAL
          else Inr (s\<lparr>xs_rlimits := bt_insert resource limit (xs_rlimits s)\<rparr>))"

section \<open>File descriptors\<close>

text \<open>The first free number from \<open>fd\<close> on. Among one more number than the table has entries one is free,
  so the fuel \<open>length table + 1\<close> is enough.\<close>

fun alloc_fd_loop :: "nat \<Rightarrow> (u64, int) btree_map \<Rightarrow> u64 \<Rightarrow> u64" where
  "alloc_fd_loop 0 table fd = fd"
| "alloc_fd_loop (Suc n) table fd = (if bt_get table fd \<noteq> None then alloc_fd_loop n table (fd + 1) else fd)"

definition alloc_guest_fd_from :: "ExecState \<Rightarrow> u64 \<Rightarrow> u64" where
  "alloc_guest_fd_from s min_fd = alloc_fd_loop (length (xs_fd_table s) + 1) (xs_fd_table s) (max min_fd 3)"

definition alloc_guest_fd :: "ExecState \<Rightarrow> u64" where
  "alloc_guest_fd s = alloc_guest_fd_from s 3"

definition host_fd :: "ExecState \<Rightarrow> u64 \<Rightarrow> int + int" where
  "host_fd s guest_fd = (case bt_get (xs_fd_table s) guest_fd of None \<Rightarrow> Inl GUEST_EBADF | Some fd \<Rightarrow> Inr fd)"

definition unregister_special :: "u64 \<Rightarrow> SpecialFdKind \<Rightarrow> SpecialFdKind" where
  "unregister_special guest_fd special =
     (case special of
        SfEpoll epoll \<Rightarrow> SfEpoll (epoll\<lparr>eps_registrations := bt_remove guest_fd (eps_registrations epoll)\<rparr>)
      | SfEventFd eventfd \<Rightarrow> SfEventFd eventfd)"

definition unregister_from_epolls :: "ExecState \<Rightarrow> u64 \<Rightarrow> ExecState" where
  "unregister_from_epolls s guest_fd =
     s\<lparr>xs_special_fds := map (\<lambda>(k, special). (k, unregister_special guest_fd special)) (xs_special_fds s)\<rparr>"

definition close_opt :: "'h Host \<Rightarrow> int option \<Rightarrow> 'h \<Rightarrow> 'h" where
  "close_opt host fd h = (case fd of None \<Rightarrow> h | Some f \<Rightarrow> h_close host f h)"

definition release_guest_fd :: "'h Host \<Rightarrow> u64 \<Rightarrow> ExecState \<Rightarrow> 'h \<Rightarrow> ExecState \<times> 'h" where
  "release_guest_fd host guest_fd s0 h =
     (let s = unregister_from_epolls s0 guest_fd;
          fd = bt_get (xs_fd_table s) guest_fd;
          s' = s\<lparr>xs_fd_table := bt_remove guest_fd (xs_fd_table s),
                 xs_fd_status_flags := bt_remove guest_fd (xs_fd_status_flags s),
                 xs_fd_fd_flags := bt_remove guest_fd (xs_fd_fd_flags s),
                 xs_special_fds := bt_remove guest_fd (xs_special_fds s)\<rparr>
      in (s', case bt_get (xs_special_fds s) guest_fd of
                Some (SfEventFd eventfd) \<Rightarrow> h_close host (efd_write_fd eventfd) (close_opt host fd h)
              | Some (SfEpoll epoll) \<Rightarrow> h_close host (eps_wake_write_fd epoll) (close_opt host fd h)
              | None \<Rightarrow> close_opt host fd h))"

definition insert_guest_fd :: "'h Host \<Rightarrow> u64 \<Rightarrow> int \<Rightarrow> int \<Rightarrow> int \<Rightarrow> ExecState \<Rightarrow> 'h \<Rightarrow> ExecState \<times> 'h" where
  "insert_guest_fd host guest_fd fd status_flags fd_flags s h =
     (let (s', h') = release_guest_fd host guest_fd s h
      in (s'\<lparr>xs_fd_table := bt_insert guest_fd fd (xs_fd_table s'),
             xs_fd_status_flags := bt_insert guest_fd status_flags (xs_fd_status_flags s'),
             xs_fd_fd_flags := bt_insert guest_fd (fd_flags AND GUEST_FD_CLOEXEC) (xs_fd_fd_flags s')\<rparr>, h'))"

definition close_guest_fd :: "'h Host \<Rightarrow> u64 \<Rightarrow> ExecState \<Rightarrow> 'h \<Rightarrow> (int + u64) \<times> ExecState \<times> 'h" where
  "close_guest_fd host guest_fd s h =
     (if bt_get (xs_fd_table s) guest_fd = None then (Inl GUEST_EBADF, s, h)
      else (Inr 0, release_guest_fd host guest_fd s h))"

text \<open>The host's error numbers are mapped one by one; the Linux numbers are the guest's.\<close>

definition host_errno_to_guest :: "int \<Rightarrow> int" where
  "host_errno_to_guest host_errno =
     (if host_errno = 1 then GUEST_EPERM
      else if host_errno = 2 then GUEST_ENOENT
      else if host_errno = 11 then GUEST_EAGAIN
      else if host_errno = 9 then GUEST_EBADF
      else if host_errno = 14 then GUEST_EFAULT
      else if host_errno = 22 then GUEST_EINVAL
      else if host_errno = 25 then GUEST_ENOTTY
      else if host_errno = 12 then GUEST_ENOMEM
      else if host_errno = 34 then GUEST_ERANGE
      else if host_errno = 38 then GUEST_ENOSYS
      else if host_errno = 110 then GUEST_ETIMEDOUT
      else host_errno)"

definition last_errno :: "'h Host \<Rightarrow> 'h \<Rightarrow> int" where
  "last_errno host h = host_errno_to_guest (h_errno host h)"

definition duplicate_guest_fd ::
  "'h Host \<Rightarrow> u64 \<Rightarrow> u64 \<Rightarrow> bool \<Rightarrow> ExecState \<Rightarrow> 'h \<Rightarrow> (int + u64) \<times> ExecState \<times> 'h" where
  "duplicate_guest_fd host guest_fd min_fd cloexec s h =
     (if bt_get (xs_special_fds s) guest_fd \<noteq> None then (Inl GUEST_EINVAL, s, h)
      else case host_fd s guest_fd of Inl e \<Rightarrow> (Inl e, s, h)
      | Inr fd \<Rightarrow>
          let (duplicated, h1) = h_dup host fd h in
          if duplicated < 0 then (Inl (last_errno host h1), s, h1)
          else
            let new_guest_fd = alloc_guest_fd_from s min_fd;
                status_flags = unwrap_or (bt_get (xs_fd_status_flags s) guest_fd) 0;
                fd_flags = (if cloexec then GUEST_FD_CLOEXEC else 0)
            in (Inr new_guest_fd, insert_guest_fd host new_guest_fd duplicated status_flags fd_flags s h1))"

definition duplicate_guest_fd_to ::
  "'h Host \<Rightarrow> u64 \<Rightarrow> u64 \<Rightarrow> bool \<Rightarrow> ExecState \<Rightarrow> 'h \<Rightarrow> (int + u64) \<times> ExecState \<times> 'h" where
  "duplicate_guest_fd_to host guest_fd target_guest_fd cloexec s h =
     (if guest_fd = target_guest_fd then (Inl GUEST_EINVAL, s, h)
      else if bt_get (xs_special_fds s) guest_fd \<noteq> None then (Inl GUEST_EINVAL, s, h)
      else case host_fd s guest_fd of Inl e \<Rightarrow> (Inl e, s, h)
      | Inr fd \<Rightarrow>
          let (duplicated, h1) = h_dup host fd h in
          if duplicated < 0 then (Inl (last_errno host h1), s, h1)
          else
            let status_flags = unwrap_or (bt_get (xs_fd_status_flags s) guest_fd) 0;
                fd_flags = (if cloexec then GUEST_FD_CLOEXEC else 0)
            in (Inr target_guest_fd, insert_guest_fd host target_guest_fd duplicated status_flags fd_flags s h1))"

section \<open>Arithmetic\<close>

text \<open>The bit pattern of the sign-extended low \<open>width\<close> bits.\<close>

definition func_sign_extend :: "u64 \<Rightarrow> nat \<Rightarrow> u64" where
  "func_sign_extend value width =
     (if width = 0 then 0
      else let shift = 64 - width in signed_drop_bit shift (push_bit shift value))"

definition sign_extend32 :: "u64 \<Rightarrow> u64" where
  "sign_extend32 value = scast (ucast value :: u32)"

definition unsigned_div :: "u64 \<Rightarrow> u64 \<Rightarrow> u64" where
  "unsigned_div lhs rhs = (if rhs = 0 then - 1 else lhs div rhs)"

definition unsigned_rem :: "u64 \<Rightarrow> u64 \<Rightarrow> u64" where
  "unsigned_rem lhs rhs = (if rhs = 0 then lhs else lhs mod rhs)"

definition signed_div :: "u64 \<Rightarrow> u64 \<Rightarrow> u64" where
  "signed_div lhs rhs =
     (if rhs = 0 then - 1
      else if sint lhs = - (2 ^ 63) \<and> sint rhs = - 1 then lhs
      else word_of_int (sint lhs sdiv sint rhs))"

definition signed_rem :: "u64 \<Rightarrow> u64 \<Rightarrow> u64" where
  "signed_rem lhs rhs =
     (if rhs = 0 then lhs
      else if sint lhs = - (2 ^ 63) \<and> sint rhs = - 1 then 0
      else word_of_int (sint lhs smod sint rhs))"

definition wrapping_shl :: "u64 \<Rightarrow> u32 \<Rightarrow> u64" where
  "wrapping_shl value shamt = push_bit (unat (shamt AND 0x3f)) value"

definition apply_src_r_addsub :: "u64 \<Rightarrow> u8 \<Rightarrow> u32 \<Rightarrow> u64" where
  "apply_src_r_addsub value src_type shamt =
     (let out = (if src_type AND 3 = 0 then sign_extend32 value
                 else if src_type AND 3 = 1 then ucast (ucast value :: u32)
                 else if src_type AND 3 = 2 then - value
                 else value)
      in if shamt \<noteq> 0 then wrapping_shl out shamt else out)"

definition apply_src_r_logic :: "u64 \<Rightarrow> u8 \<Rightarrow> u32 \<Rightarrow> u64" where
  "apply_src_r_logic value src_type shamt =
     (let out = (if src_type AND 3 = 0 then sign_extend32 value
                 else if src_type AND 3 = 1 then ucast (ucast value :: u32)
                 else if src_type AND 3 = 2 then NOT value
                 else value)
      in if shamt \<noteq> 0 then wrapping_shl out shamt else out)"

section \<open>Loads and stores\<close>

record LoadResult =
  lr_value :: u64
  lr_raw :: u64
  lr_size :: u8

record PairAccess =
  pa_load_mnemonic :: string
  pa_store_mnemonic :: string
  pa_elem_size :: u8
  pa_unscaled :: bool

definition load_result :: "u64 \<Rightarrow> u64 \<Rightarrow> u8 \<Rightarrow> LoadResult" where
  "load_result value raw sz = \<lparr>lr_value = value, lr_raw = raw, lr_size = sz\<rparr>"

definition load_value :: "GuestMemory \<Rightarrow> string \<Rightarrow> u64 \<Rightarrow> LoadResult option" where
  "load_value memory mnemonic addr =
     (if mnemonic \<in> {''LB'', ''LBI''}
      then map_option (\<lambda>raw. load_result (func_sign_extend (ucast raw) 8) (ucast raw) 1) (read_u8_checked memory addr)
      else if mnemonic \<in> {''LBU'', ''LBUI''}
      then map_option (\<lambda>raw. load_result (ucast raw) (ucast raw) 1) (read_u8_checked memory addr)
      else if mnemonic \<in> {''LH'', ''LHI''}
      then map_option (\<lambda>raw. load_result (func_sign_extend (ucast raw) 16) (ucast raw) 2) (read_u16_checked memory addr)
      else if mnemonic \<in> {''LHU'', ''LHUI''}
      then map_option (\<lambda>raw. load_result (ucast raw) (ucast raw) 2) (read_u16_checked memory addr)
      else if mnemonic \<in> {''LW'', ''LWI''}
      then map_option (\<lambda>raw. load_result (func_sign_extend (ucast raw) 32) (ucast raw) 4) (read_u32_checked memory addr)
      else if mnemonic \<in> {''LWU'', ''LWUI''}
      then map_option (\<lambda>raw. load_result (ucast raw) (ucast raw) 4) (read_u32_checked memory addr)
      else if mnemonic \<in> {''LD'', ''LDI''}
      then map_option (\<lambda>raw. load_result raw raw 8) (read_u64_checked memory addr)
      else None)"

definition store_value :: "GuestMemory \<Rightarrow> string \<Rightarrow> u64 \<Rightarrow> u64 \<Rightarrow> GuestMemory option" where
  "store_value memory mnemonic addr value =
     (if mnemonic \<in> {''SB'', ''SBI''} then write_bytes_checked memory addr [ucast value]
      else if mnemonic \<in> {''SH'', ''SHI''} then write_u16_checked memory addr (ucast value)
      else if mnemonic \<in> {''SW'', ''SWI''} then write_u32_checked memory addr (ucast value)
      else write_u64_checked memory addr value)"

fun ends_with :: "string \<Rightarrow> string \<Rightarrow> bool" where
  "ends_with s suffix = (length suffix \<le> length s \<and> drop (length s - length suffix) s = suffix)"

definition pair_mnemonics :: "string \<Rightarrow> (string \<times> string \<times> u8) option" where
  "pair_mnemonics mnemonic =
     (if mnemonic \<in> {''HL.LBIP'', ''HL.SBIP''} then Some (''LB'', ''SB'', 1)
      else if mnemonic = ''HL.LBUIP'' then Some (''LBU'', ''SB'', 1)
      else if mnemonic \<in> {''HL.LHIP'', ''HL.LHIP.U'', ''HL.SHIP'', ''HL.SHIP.U''} then Some (''LH'', ''SH'', 2)
      else if mnemonic \<in> {''HL.LHUIP'', ''HL.LHUIP.U''} then Some (''LHU'', ''SH'', 2)
      else if mnemonic \<in> {''HL.LWIP'', ''HL.LWIP.U'', ''HL.SWIP'', ''HL.SWIP.U''} then Some (''LW'', ''SW'', 4)
      else if mnemonic \<in> {''HL.LWUIP'', ''HL.LWUIP.U''} then Some (''LWU'', ''SW'', 4)
      else if mnemonic \<in> {''HL.LDIP'', ''HL.LDIP.U'', ''HL.SDIP'', ''HL.SDIP.U''} then Some (''LD'', ''SD'', 8)
      else None)"

definition pair_access :: "string \<Rightarrow> PairAccess option" where
  "pair_access mnemonic =
     map_option (\<lambda>(load_mnemonic, store_mnemonic, elem_size).
        \<lparr>pa_load_mnemonic = load_mnemonic, pa_store_mnemonic = store_mnemonic, pa_elem_size = elem_size,
         pa_unscaled = ends_with mnemonic ''.U''\<rparr>) (pair_mnemonics mnemonic)"

definition size_for_store :: "string \<Rightarrow> u8" where
  "size_for_store mnemonic =
     (if mnemonic \<in> {''SB'', ''SBI''} then 1 else if mnemonic \<in> {''SH'', ''SHI''} then 2
      else if mnemonic \<in> {''SW'', ''SWI''} then 4 else 8)"

definition size_shift_for_store :: "string \<Rightarrow> u8" where
  "size_shift_for_store mnemonic =
     (if mnemonic = ''SB'' then 0 else if mnemonic = ''SH'' then 1 else if mnemonic = ''SW'' then 2 else 3)"

section \<open>Instruction fields and the commit record\<close>

definition field_u :: "DecodedInstruction \<Rightarrow> string list \<Rightarrow> u64 option" where
  "field_u decoded names = find_map (\<lambda>name. map_option df_value_u64 (decoded_field decoded name)) names"

definition need_u :: "DecodedInstruction \<Rightarrow> string list \<Rightarrow> u64 option" where
  "need_u decoded names = field_u decoded names"

definition reg_field :: "DecodedInstruction \<Rightarrow> string list \<Rightarrow> usize option" where
  "reg_field decoded names = map_option unat (field_u decoded names)"

definition field_i :: "DecodedInstruction \<Rightarrow> string list \<Rightarrow> int option" where
  "field_i decoded names =
     find_map (\<lambda>name. map_option (\<lambda>f. unwrap_or (df_value_i64 f) (sint (df_value_u64 f)))
       (decoded_field decoded name)) names"

definition record_src0 :: "CommitRecord \<Rightarrow> usize \<Rightarrow> u64 \<Rightarrow> CommitRecord" where
  "record_src0 commit reg value =
     commit\<lparr>cr_src0_valid := 1, cr_src0_reg := word_of_nat reg, cr_src0_data := value\<rparr>"

definition record_src1 :: "CommitRecord \<Rightarrow> usize \<Rightarrow> u64 \<Rightarrow> CommitRecord" where
  "record_src1 commit reg value =
     commit\<lparr>cr_src1_valid := 1, cr_src1_reg := word_of_nat reg, cr_src1_data := value\<rparr>"

definition record_load :: "CommitRecord \<Rightarrow> u64 \<Rightarrow> u64 \<Rightarrow> u8 \<Rightarrow> CommitRecord" where
  "record_load commit addr data sz =
     commit\<lparr>cr_mem_valid := 1, cr_mem_is_store := 0, cr_mem_addr := addr, cr_mem_rdata := data, cr_mem_size := sz\<rparr>"

definition record_store :: "CommitRecord \<Rightarrow> u64 \<Rightarrow> u64 \<Rightarrow> u8 \<Rightarrow> CommitRecord" where
  "record_store commit addr data sz =
     commit\<lparr>cr_mem_valid := 1, cr_mem_is_store := 1, cr_mem_addr := addr, cr_mem_wdata := data, cr_mem_size := sz\<rparr>"

definition record_dst :: "CommitRecord \<Rightarrow> usize \<Rightarrow> u64 \<Rightarrow> CommitRecord" where
  "record_dst commit reg value =
     commit\<lparr>cr_dst_valid := 1, cr_dst_reg := word_of_nat reg, cr_dst_data := value,
            cr_wb_valid := 1, cr_wb_rd := word_of_nat reg, cr_wb_data := value\<rparr>"

definition writeback :: "ExecState \<Rightarrow> CommitRecord \<Rightarrow> usize \<Rightarrow> u64 \<Rightarrow> (ExecState \<times> CommitRecord) option" where
  "writeback s commit reg value =
     (if reg = REG_IMPLICIT_T_DST then Some (push_t s value, record_dst commit FREG_T1 value)
      else if reg = REG_IMPLICIT_U_DST then Some (push_u s value, record_dst commit FREG_U1 value)
      else map_option (\<lambda>s'. (s', record_dst commit reg value)) (write_reg s reg value))"

definition empty_commit :: "cyc \<Rightarrow> u64 \<Rightarrow> DecodedInstruction \<Rightarrow> GuestRuntime \<Rightarrow> CommitRecord" where
  "empty_commit cycle pc decoded rt =
     (unsupported cycle pc (di_instruction_bits decoded) TRAP_ILLEGAL_INST (gr_block rt))
     \<lparr>cr_len := word_of_nat (length_bytes decoded), cr_trap_valid := 0, cr_trap_cause := 0, cr_traparg0 := 0,
      cr_next_pc := pc + word_of_nat (length_bytes decoded)\<rparr>"

section \<open>Division\<close>

lemma sint_u64_bounds: "- (2 ^ 63) \<le> sint (a :: u64)" "sint (a :: u64) < 2 ^ 63"
  using sint_ge [of a] sint_lt [of a] by simp_all

lemma sint_of_int_u64:
  assumes "- (2 ^ 63) \<le> i" "i < 2 ^ 63"
  shows "sint (word_of_int i :: u64) = i"
  using assms by (simp add: sint_sbintrunc' signed_take_bit_int_eq_self)

lemma smod_bounds:
  assumes "b \<noteq> (0::int)"
  shows "\<bar>a smod b\<bar> < \<bar>b\<bar>" "a smod b = 0 \<or> sgn (a smod b) = sgn a"
proof -
  have m: "a smod b = sgn a * (\<bar>a\<bar> mod \<bar>b\<bar>)" by (simp add: signed_modulo_int_def)
  have r: "0 \<le> \<bar>a\<bar> mod \<bar>b\<bar>" "\<bar>a\<bar> mod \<bar>b\<bar> < \<bar>b\<bar>" using assms by simp_all
  show "\<bar>a smod b\<bar> < \<bar>b\<bar>" unfolding m using r by (cases "a = 0") (auto simp: abs_mult abs_sgn_eq assms)
  show "a smod b = 0 \<or> sgn (a smod b) = sgn a" unfolding m using r by (auto simp: sgn_mult sgn_if)
qed

lemma sdiv_identity: "a sdiv b * b + a smod b = (a::int)"
  by (rule sdiv_mult_smod_eq)

lemma signed_plain:
  assumes "b \<noteq> 0" "\<not> (sint a = - (2 ^ 63) \<and> sint b = - 1)"
  shows "signed_div a b = word_of_int (sint a sdiv sint b)" "signed_rem a b = word_of_int (sint a smod sint b)"
  unfolding signed_div_def signed_rem_def using assms by meson+

lemma signed_division_identity: "signed_div a b * b + signed_rem a b = a"
proof (cases "b = 0 \<or> sint a = - (2 ^ 63) \<and> sint b = - 1")
  case True
  then show ?thesis
  proof
    assume "sint a = - (2 ^ 63) \<and> sint b = - 1"
    moreover have "word_of_int (sint a) = a" "word_of_int (sint b) = b" by simp_all
    ultimately have a: "a = word_of_int (- (2 ^ 63))" and b: "b = word_of_int (- 1)" by auto
    show ?thesis unfolding a b by (simp add: signed_div_def signed_rem_def)
  qed (simp add: signed_div_def signed_rem_def)
next
  case False
  then have "signed_div a b * b + signed_rem a b = word_of_int (sint a sdiv sint b) * word_of_int (sint b) + word_of_int (sint a smod sint b)"
    using signed_plain [of b a] by simp
  also have "\<dots> = word_of_int (sint a sdiv sint b * sint b + sint a smod sint b)" by simp
  also have "\<dots> = a" unfolding sdiv_identity by simp
  finally show ?thesis .
qed

lemma signed_rem_value:
  assumes "b \<noteq> 0"
  shows "sint (signed_rem a b) = sint a smod sint b"
proof (cases "sint a = - (2 ^ 63) \<and> sint b = - 1")
  case True
  then show ?thesis using assms by (simp add: signed_rem_def signed_modulo_int_def)
next
  case False
  have "sint b \<noteq> 0" using assms by (simp add: signed_eq_0_iff)
  then have "\<bar>sint a smod sint b\<bar> < \<bar>sint b\<bar>" by (rule smod_bounds)
  then have "sint (word_of_int (sint a smod sint b) :: u64) = sint a smod sint b"
    using sint_u64_bounds [of b] by (intro sint_of_int_u64) linarith+
  then show ?thesis using signed_plain [OF assms False] by simp
qed

lemma sdiv_abs_le: "\<bar>a sdiv b\<bar> \<le> \<bar>a :: int\<bar>"
proof -
  have "\<bar>a\<bar> div \<bar>b\<bar> \<le> \<bar>a\<bar>" using zdiv_mono2 [of "\<bar>a\<bar>" 1 "\<bar>b\<bar>"] by (cases "b = 0") auto
  moreover have "0 \<le> \<bar>a\<bar> div \<bar>b\<bar>" by (cases "b = 0") (simp_all add: pos_imp_zdiv_nonneg_iff)
  ultimately show ?thesis by (simp add: signed_divide_int_def abs_mult abs_sgn_eq)
qed

lemma signed_div_value:
  assumes "b \<noteq> 0" "\<not> (sint a = - (2 ^ 63) \<and> sint b = - 1)"
  shows "sint (signed_div a b) = sint a sdiv sint b"
proof -
  note ab = sint_u64_bounds [of a] sint_u64_bounds [of b]
  have le: "\<bar>sint a sdiv sint b\<bar> \<le> \<bar>sint a\<bar>" by (rule sdiv_abs_le)
  have "sint a sdiv sint b \<noteq> 2 ^ 63"
  proof
    assume q: "sint a sdiv sint b = 2 ^ 63"
    with le ab have a: "sint a = - (2 ^ 63)" by linarith
    have "2 ^ 63 * sint b + sint a smod sint b = sint a" using sdiv_identity [of "sint a" "sint b"] q by simp
    moreover have "\<bar>sint a smod sint b\<bar> < \<bar>sint b\<bar>" using assms(1) by (intro smod_bounds) (simp add: signed_eq_0_iff)
    ultimately have "\<not> 0 \<le> sint b" "\<not> sint b \<le> - 2" using a by auto
    then have "sint b = - 1" by linarith
    with a assms(2) show False by simp
  qed
  with le ab have "- (2 ^ 63) \<le> sint a sdiv sint b" "sint a sdiv sint b < 2 ^ 63" by linarith+
  then show ?thesis using signed_plain [OF assms] by (simp add: sint_of_int_u64)
qed

text \<open>C23: division never traps and obeys the division law. Quotient times divisor plus remainder is the
  dividend, for signed and unsigned division and for every divisor. A zero divisor gives the all-ones quotient
  and leaves the dividend as remainder; otherwise the unsigned remainder is below the divisor, the signed one is
  smaller in size than the divisor and has the dividend's sign, and the signed quotient is the truncated one,
  the overflowing case alone wrapping to the dividend.\<close>

theorem division_laws:
  "signed_div a b * b + signed_rem a b = a \<and> unsigned_div a b * b + unsigned_rem a b = a \<and>
   (if b = 0 then signed_div a b = - 1 \<and> unsigned_div a b = - 1
    else unsigned_rem a b < b \<and> \<bar>sint (signed_rem a b)\<bar> < \<bar>sint b\<bar> \<and>
      sgn (sint (signed_rem a b)) \<in> {0, sgn (sint a)} \<and>
      sint (signed_div a b) = (if sint a = - (2 ^ 63) \<and> sint b = - 1 then sint a else sint a sdiv sint b))"
proof (cases "b = 0")
  case False
  have sb: "sint b \<noteq> 0" using False by (simp add: signed_eq_0_iff)
  note s = smod_bounds [OF sb, of "sint a"]
  have "unsigned_rem a b < b" using False by (simp add: unsigned_rem_def word_mod_less_divisor word_gt_0)
  moreover have "sint a = - (2 ^ 63) \<and> sint b = - 1 \<Longrightarrow> signed_div a b = a" using False by (simp add: signed_div_def)
  moreover have "unsigned_div a b * b + unsigned_rem a b = a"
    using False by (simp add: unsigned_div_def unsigned_rem_def word_mod_div_equality)
  ultimately show ?thesis
    using False s signed_rem_value [OF False] signed_div_value [OF False] signed_division_identity by auto
qed (simp add: signed_div_def unsigned_div_def signed_rem_def unsigned_rem_def)

end
