(* ===== verification/Func_Syscalls.thy ===== *)
theory Func_Syscalls
  imports Func_State
begin

text \<open>
  The system calls the functional engine emulates (\<open>dispatch_syscall\<close> and the \<open>dispatch_*\<close> functions of
  \<^verbatim>\<open>crates/funcmodel/src/exec/mod.rs\<close>). A call takes and returns the executor state, the commit record and the
  host state, and yields a value or a guest error number. Numbers of the host's interface (\<open>POLLIN\<close>,
  \<open>O_NONBLOCK\<close>) are Linux's.
\<close>

unbundle bit_operations_syntax

section \<open>Constants\<close>

abbreviation GUEST_AT_FDCWD :: int where "GUEST_AT_FDCWD \<equiv> - 100"

abbreviation GUEST_AT_EMPTY_PATH :: int where "GUEST_AT_EMPTY_PATH \<equiv> 0x1000"

abbreviation GUEST_AT_SYMLINK_NOFOLLOW :: int where "GUEST_AT_SYMLINK_NOFOLLOW \<equiv> 0x100"

abbreviation GUEST_EFD_SEMAPHORE :: int where "GUEST_EFD_SEMAPHORE \<equiv> 1"

abbreviation GUEST_O_WRONLY :: int where "GUEST_O_WRONLY \<equiv> 1"

abbreviation GUEST_O_RDONLY :: int where "GUEST_O_RDONLY \<equiv> 0"

abbreviation GUEST_O_NONBLOCK :: int where "GUEST_O_NONBLOCK \<equiv> 2048"

abbreviation GUEST_O_CLOEXEC :: int where "GUEST_O_CLOEXEC \<equiv> 524288"

abbreviation MAX_C_STRING :: usize where "MAX_C_STRING \<equiv> 4096"

abbreviation GUEST_EPOLLIN :: u32 where "GUEST_EPOLLIN \<equiv> 0x001"

abbreviation GUEST_EPOLLPRI :: u32 where "GUEST_EPOLLPRI \<equiv> 0x002"

abbreviation GUEST_EPOLLOUT :: u32 where "GUEST_EPOLLOUT \<equiv> 0x004"

abbreviation GUEST_EPOLLERR :: u32 where "GUEST_EPOLLERR \<equiv> 0x008"

abbreviation GUEST_EPOLLHUP :: u32 where "GUEST_EPOLLHUP \<equiv> 0x010"

abbreviation GUEST_EPOLLNVAL :: u32 where "GUEST_EPOLLNVAL \<equiv> 0x020"

abbreviation GUEST_EPOLLRDNORM :: u32 where "GUEST_EPOLLRDNORM \<equiv> 0x040"

abbreviation GUEST_EPOLLRDBAND :: u32 where "GUEST_EPOLLRDBAND \<equiv> 0x080"

abbreviation GUEST_EPOLLWRNORM :: u32 where "GUEST_EPOLLWRNORM \<equiv> 0x100"

abbreviation GUEST_EPOLLWRBAND :: u32 where "GUEST_EPOLLWRBAND \<equiv> 0x200"

abbreviation GUEST_EPOLLRDHUP :: u32 where "GUEST_EPOLLRDHUP \<equiv> 0x2000"

abbreviation GUEST_EPOLLET :: u32 where "GUEST_EPOLLET \<equiv> 0x80000000"

abbreviation GUEST_EPOLLONESHOT :: u32 where "GUEST_EPOLLONESHOT \<equiv> 0x40000000"

abbreviation POLLIN :: u16 where "POLLIN \<equiv> 0x001"

abbreviation POLLPRI :: u16 where "POLLPRI \<equiv> 0x002"

abbreviation POLLOUT :: u16 where "POLLOUT \<equiv> 0x004"

abbreviation POLLERR :: u16 where "POLLERR \<equiv> 0x008"

abbreviation POLLHUP :: u16 where "POLLHUP \<equiv> 0x010"

abbreviation POLLNVAL :: u16 where "POLLNVAL \<equiv> 0x020"

abbreviation POLLRDHUP :: u16 where "POLLRDHUP \<equiv> 0x2000"

abbreviation GUEST_FD_SET_SIZE :: usize where "GUEST_FD_SET_SIZE \<equiv> 128"

abbreviation GUEST_SIGSET_MAX_BYTES :: usize where "GUEST_SIGSET_MAX_BYTES \<equiv> 128"

abbreviation GUEST_SIGSET_BYTES :: usize where "GUEST_SIGSET_BYTES \<equiv> 16"

abbreviation GUEST_SS_ONSTACK :: u32 where "GUEST_SS_ONSTACK \<equiv> 1"

abbreviation GUEST_RSEQ_SIG :: u32 where "GUEST_RSEQ_SIG \<equiv> 0x53053053"

abbreviation GUEST_UTS_FIELD_BYTES :: usize where "GUEST_UTS_FIELD_BYTES \<equiv> 65"

abbreviation GUEST_RUSAGE_SIZE :: usize where "GUEST_RUSAGE_SIZE \<equiv> 272"

section \<open>The world of a call\<close>

record 'h World =
  w_exec :: ExecState
  w_commit :: CommitRecord
  w_host :: 'h

type_synonym 'h sys = "(int + u64) \<times> 'h World"

definition set_memory :: "GuestMemory \<Rightarrow> 'h World \<Rightarrow> 'h World" where
  "set_memory m w = w\<lparr>w_exec := (w_exec w)\<lparr>xs_memory := m\<rparr>\<rparr>"

abbreviation w_memory :: "'h World \<Rightarrow> GuestMemory" where
  "w_memory w \<equiv> xs_memory (w_exec w)"

definition note_store :: "u64 \<Rightarrow> u64 \<Rightarrow> u8 \<Rightarrow> 'h World \<Rightarrow> 'h World" where
  "note_store addr data sz w = w\<lparr>w_commit := record_store (w_commit w) addr data sz\<rparr>"

definition note_load :: "u64 \<Rightarrow> u64 \<Rightarrow> u8 \<Rightarrow> 'h World \<Rightarrow> 'h World" where
  "note_load addr data sz w = w\<lparr>w_commit := record_load (w_commit w) addr data sz\<rparr>"

text \<open>An operation on the executor and host state run in a world.\<close>

definition in_world :: "(ExecState \<Rightarrow> 'h \<Rightarrow> (int + u64) \<times> ExecState \<times> 'h) \<Rightarrow> 'h World \<Rightarrow> 'h sys" where
  "in_world f w = (let (r, s, h) = f (w_exec w) (w_host w) in (r, w\<lparr>w_exec := s, w_host := h\<rparr>))"

text \<open>Consecutive checked writes joined by \<open>||\<close>: the first failure stops, earlier writes stay.\<close>

fun write_seq :: "(GuestMemory \<Rightarrow> GuestMemory option) list \<Rightarrow> GuestMemory \<Rightarrow> bool \<times> GuestMemory" where
  "write_seq [] m = (True, m)"
| "write_seq (f # fs) m = (case f m of None \<Rightarrow> (False, m) | Some m' \<Rightarrow> write_seq fs m')"

text \<open>Collecting fallible results; the first error wins.\<close>

fun collect_results :: "('a \<Rightarrow> int + 'b) \<Rightarrow> 'a list \<Rightarrow> int + 'b list" where
  "collect_results f [] = Inr []"
| "collect_results f (x # xs) =
     (case f x of Inl e \<Rightarrow> Inl e
      | Inr y \<Rightarrow> (case collect_results f xs of Inl e \<Rightarrow> Inl e | Inr ys \<Rightarrow> Inr (y # ys)))"

definition ok_or :: "'a option \<Rightarrow> int \<Rightarrow> int + 'a" where
  "ok_or x e = (case x of None \<Rightarrow> Inl e | Some y \<Rightarrow> Inr y)"

definition put_field :: "u8 list \<Rightarrow> usize \<Rightarrow> u8 list \<Rightarrow> u8 list" where
  "put_field bytes offset new = take offset bytes @ new @ drop (offset + length new) bytes"

definition write_u16_field :: "usize \<Rightarrow> u16 \<Rightarrow> u8 list \<Rightarrow> u8 list" where
  "write_u16_field offset value bytes = put_field bytes offset (to_le_bytes value)"

definition write_u32_field :: "usize \<Rightarrow> u32 \<Rightarrow> u8 list \<Rightarrow> u8 list" where
  "write_u32_field offset value bytes = put_field bytes offset (to_le_bytes value)"

definition write_i32_field :: "usize \<Rightarrow> int \<Rightarrow> u8 list \<Rightarrow> u8 list" where
  "write_i32_field offset value bytes = put_field bytes offset (to_le_bytes (word_of_int value :: u32))"

definition write_u64_field :: "usize \<Rightarrow> u64 \<Rightarrow> u8 list \<Rightarrow> u8 list" where
  "write_u64_field offset value bytes = put_field bytes offset (to_le_bytes value)"

definition write_i64_field :: "usize \<Rightarrow> int \<Rightarrow> u8 list \<Rightarrow> u8 list" where
  "write_i64_field offset value bytes = put_field bytes offset (to_le_bytes (word_of_int value :: u64))"

section \<open>Structures the guest reads\<close>

record GuestLinuxStat =
  gs_dev :: u64
  gs_ino :: u64
  gs_mode :: u32
  gs_nlink :: u32
  gs_uid :: u32
  gs_gid :: u32
  gs_rdev :: u64
  gs_size :: int
  gs_blksize :: int
  gs_blocks :: int
  gs_atime_sec :: int
  gs_atime_nsec :: u64
  gs_mtime_sec :: int
  gs_mtime_nsec :: u64
  gs_ctime_sec :: int
  gs_ctime_nsec :: u64

definition guest_linux_stat_from_host :: "HostStat \<Rightarrow> GuestLinuxStat" where
  "guest_linux_stat_from_host st =
     \<lparr>gs_dev = word_of_int (st_dev st), gs_ino = word_of_int (st_ino st), gs_mode = word_of_int (st_mode st),
      gs_nlink = word_of_int (st_nlink st), gs_uid = word_of_int (st_uid st), gs_gid = word_of_int (st_gid st),
      gs_rdev = word_of_int (st_rdev st), gs_size = st_size st, gs_blksize = st_blksize st,
      gs_blocks = st_blocks st, gs_atime_sec = st_atime st, gs_atime_nsec = word_of_int (st_atime_nsec st),
      gs_mtime_sec = st_mtime st, gs_mtime_nsec = word_of_int (st_mtime_nsec st),
      gs_ctime_sec = st_ctime st, gs_ctime_nsec = word_of_int (st_ctime_nsec st)\<rparr>"

definition linux_stat_bytes :: "GuestLinuxStat \<Rightarrow> u8 list" where
  "linux_stat_bytes st =
     (write_u64_field 112 (gs_ctime_nsec st) \<circ> write_i64_field 104 (gs_ctime_sec st) \<circ>
      write_u64_field 96 (gs_mtime_nsec st) \<circ> write_i64_field 88 (gs_mtime_sec st) \<circ>
      write_u64_field 80 (gs_atime_nsec st) \<circ> write_i64_field 72 (gs_atime_sec st) \<circ>
      write_i64_field 64 (gs_blocks st) \<circ> write_i32_field 56 (gs_blksize st) \<circ>
      write_i64_field 48 (gs_size st) \<circ> write_u64_field 32 (gs_rdev st) \<circ>
      write_u32_field 28 (gs_gid st) \<circ> write_u32_field 24 (gs_uid st) \<circ>
      write_u32_field 20 (gs_nlink st) \<circ> write_u32_field 16 (gs_mode st) \<circ>
      write_u64_field 8 (gs_ino st) \<circ> write_u64_field 0 (gs_dev st)) (replicate 128 0)"

definition write_guest_linux_stat :: "GuestMemory \<Rightarrow> u64 \<Rightarrow> GuestLinuxStat \<Rightarrow> GuestMemory option" where
  "write_guest_linux_stat memory addr st = write_bytes_checked memory addr (linux_stat_bytes st)"

definition write_guest_uts_field :: "usize \<Rightarrow> string \<Rightarrow> u8 list \<Rightarrow> u8 list option" where
  "write_guest_uts_field index text buf =
     (if length buf < (index + 1) * GUEST_UTS_FIELD_BYTES then None
      else if GUEST_UTS_FIELD_BYTES \<le> length text then None
      else Some (put_field buf (index * GUEST_UTS_FIELD_BYTES) (as_bytes text)))"

definition utsname_bytes :: "u8 list option" where
  "utsname_bytes =
     Option.bind (write_guest_uts_field 0 ''Linux'' (replicate 390 0)) (\<lambda>b.
     Option.bind (write_guest_uts_field 1 ''linxcoremodel'' b) (\<lambda>b.
     Option.bind (write_guest_uts_field 2 ''6.8.0-linx'' b) (\<lambda>b.
     Option.bind (write_guest_uts_field 3 ''LinxCoreModel'' b) (\<lambda>b.
     Option.bind (write_guest_uts_field 4 ''linx64'' b) (\<lambda>b.
     write_guest_uts_field 5 ''localdomain'' b)))))"

definition write_guest_utsname :: "GuestMemory \<Rightarrow> u64 \<Rightarrow> GuestMemory option" where
  "write_guest_utsname memory addr = Option.bind utsname_bytes (write_bytes_checked memory addr)"

definition write_guest_sysinfo :: "GuestMemory \<Rightarrow> u64 \<Rightarrow> GuestRuntime \<Rightarrow> GuestMemory option" where
  "write_guest_sysinfo memory addr rt =
     (let totalram = rc_mem_bytes (gr_config rt);
          mapped = sum_list (map mr_size (gm_regions (gr_memory rt)));
          bufferram = totalram div 16;
          freeram = totalram - min mapped totalram;
          bytes = (write_u32_field 104 1 \<circ> write_u64_field 96 0 \<circ> write_u64_field 88 0 \<circ>
                   write_u16_field 82 0 \<circ> write_u16_field 80 1 \<circ> write_u64_field 72 0 \<circ>
                   write_u64_field 64 0 \<circ> write_u64_field 56 bufferram \<circ> write_u64_field 48 0 \<circ>
                   write_u64_field 40 freeram \<circ> write_u64_field 32 totalram \<circ> write_u64_field 24 0 \<circ>
                   write_u64_field 16 0 \<circ> write_u64_field 8 0 \<circ> write_u64_field 0 1) (replicate 368 0)
      in write_bytes_checked memory addr bytes)"

definition read_guest_epoll_event :: "GuestMemory \<Rightarrow> u64 \<Rightarrow> int + (u32 \<times> u64)" where
  "read_guest_epoll_event memory addr =
     (case read_u32_checked memory addr of None \<Rightarrow> Inl GUEST_EFAULT
      | Some events \<Rightarrow>
          (case read_u64_checked memory (addr + 8) of None \<Rightarrow> Inl GUEST_EFAULT
           | Some data \<Rightarrow> Inr (events, data)))"

definition write_guest_epoll_event :: "u64 \<Rightarrow> u32 \<Rightarrow> u64 \<Rightarrow> GuestMemory \<Rightarrow> bool \<times> GuestMemory" where
  "write_guest_epoll_event addr events data memory =
     write_seq [\<lambda>m. write_u32_checked m addr events, \<lambda>m. write_u32_checked m (addr + 4) 0,
                \<lambda>m. write_u64_checked m (addr + 8) data] memory"

definition read_guest_sigaltstack :: "GuestMemory \<Rightarrow> u64 \<Rightarrow> int + (u64 \<times> u32 \<times> u64)" where
  "read_guest_sigaltstack memory addr =
     (case read_u64_checked memory addr of None \<Rightarrow> Inl GUEST_EFAULT
      | Some sp \<Rightarrow>
     (case read_u32_checked memory (addr + 8) of None \<Rightarrow> Inl GUEST_EFAULT
      | Some flags \<Rightarrow>
     (case read_u64_checked memory (addr + 16) of None \<Rightarrow> Inl GUEST_EFAULT
      | Some sz \<Rightarrow> Inr (sp, flags, sz))))"

definition write_guest_sigaltstack :: "u64 \<Rightarrow> u64 \<Rightarrow> u32 \<Rightarrow> u64 \<Rightarrow> GuestMemory \<Rightarrow> bool \<times> GuestMemory" where
  "write_guest_sigaltstack addr sp flags sz memory =
     write_seq [\<lambda>m. write_u64_checked m addr sp, \<lambda>m. write_u32_checked m (addr + 8) flags,
                \<lambda>m. write_u32_checked m (addr + 12) 0, \<lambda>m. write_u64_checked m (addr + 16) sz] memory"

fun prctl_name_loop :: "GuestMemory \<Rightarrow> u64 \<Rightarrow> usize \<Rightarrow> nat \<Rightarrow> u8 list \<Rightarrow> int + u8 list" where
  "prctl_name_loop memory addr idx 0 bytes = Inr bytes"
| "prctl_name_loop memory addr idx (Suc n) bytes =
     (case read_u8_checked memory (addr + word_of_nat idx) of None \<Rightarrow> Inl GUEST_EFAULT
      | Some value \<Rightarrow>
          let bytes' = bytes[idx := value] in
          if value = 0 then Inr bytes' else prctl_name_loop memory addr (idx + 1) n bytes')"

definition read_guest_prctl_name :: "GuestMemory \<Rightarrow> u64 \<Rightarrow> int + u8 list" where
  "read_guest_prctl_name memory addr =
     (case prctl_name_loop memory addr 0 16 (replicate 16 0) of Inl e \<Rightarrow> Inl e
      | Inr bytes \<Rightarrow> Inr (bytes[15 := 0]))"

definition initialize_guest_rseq :: "u64 \<Rightarrow> u32 \<Rightarrow> u32 \<Rightarrow> GuestMemory \<Rightarrow> bool \<times> GuestMemory" where
  "initialize_guest_rseq addr len cpu_id memory =
     write_seq [\<lambda>m. write_bytes_checked m addr (replicate (unat len) 0), \<lambda>m. write_u32_checked m addr cpu_id,
                \<lambda>m. write_u32_checked m (addr + 4) cpu_id, \<lambda>m. write_u64_checked m (addr + 8) 0,
                \<lambda>m. write_u32_checked m (addr + 16) 0] memory"

fun dispatch_getres_ids :: "(u64 \<times> u32) list \<Rightarrow> GuestMemory \<Rightarrow> bool \<times> GuestMemory" where
  "dispatch_getres_ids [] memory = (True, memory)"
| "dispatch_getres_ids ((addr, ident) # rest) memory =
     (if addr = 0 then dispatch_getres_ids rest memory
      else case write_u32_checked memory addr ident of None \<Rightarrow> (False, memory)
           | Some memory' \<Rightarrow> dispatch_getres_ids rest memory')"

definition try_u32 :: "u64 \<Rightarrow> u32 option" where
  "try_u32 w = (if w \<le> 0xFFFFFFFF then Some (ucast w) else None)"

definition validate_single_id :: "u64 \<Rightarrow> u32 list \<Rightarrow> int + u32" where
  "validate_single_id raw current =
     (case try_u32 raw of None \<Rightarrow> Inl GUEST_EINVAL
      | Some value \<Rightarrow> if value = 0 \<or> value \<in> set current then Inr value else Inl GUEST_EPERM)"

fun setres_loop :: "u32 list \<Rightarrow> u64 list \<Rightarrow> usize \<Rightarrow> u32 list \<Rightarrow> int + u32 list" where
  "setres_loop current [] idx next = Inr next"
| "setres_loop current (raw # rest) idx next =
     (if raw = - 1 then setres_loop current rest (idx + 1) next
      else case try_u32 raw of None \<Rightarrow> Inl GUEST_EINVAL
           | Some value \<Rightarrow>
               if value \<noteq> 0 \<and> value \<notin> set current then Inl GUEST_EPERM
               else setres_loop current rest (idx + 1) (next[idx := value]))"

definition apply_setres_ids :: "u32 list \<Rightarrow> u64 list \<Rightarrow> int + u32 list" where
  "apply_setres_ids current requested = setres_loop current requested 0 current"

definition read_guest_rlimit :: "GuestMemory \<Rightarrow> u64 \<Rightarrow> int + GuestRlimit" where
  "read_guest_rlimit memory addr =
     (case read_u64_checked memory addr of None \<Rightarrow> Inl GUEST_EFAULT
      | Some cur \<Rightarrow>
          (case read_u64_checked memory (addr + 8) of None \<Rightarrow> Inl GUEST_EFAULT
           | Some mx \<Rightarrow> Inr \<lparr>rl_cur = cur, rl_max = mx\<rparr>))"

definition write_guest_rlimit :: "u64 \<Rightarrow> GuestRlimit \<Rightarrow> GuestMemory \<Rightarrow> bool \<times> GuestMemory" where
  "write_guest_rlimit addr limit memory =
     write_seq [\<lambda>m. write_u64_checked m addr (rl_cur limit), \<lambda>m. write_u64_checked m (addr + 8) (rl_max limit)] memory"

section \<open>Paths and host files\<close>

definition path_is_absolute :: "string \<Rightarrow> bool" where
  "path_is_absolute p = starts_with p ''/''"

text \<open>\<open>PathBuf::join\<close> with a relative path.\<close>

definition path_join :: "string \<Rightarrow> string \<Rightarrow> string" where
  "path_join dir p = (if dir = [] \<or> last dir = CHR ''/'' then dir @ p else dir @ ''/'' @ p)"

definition resolve_open_path :: "GuestRuntime \<Rightarrow> int \<Rightarrow> string \<Rightarrow> string" where
  "resolve_open_path rt dirfd path =
     (if path_is_absolute path then path
      else if dirfd = GUEST_AT_FDCWD
      then (case rc_workdir (gr_config rt) of Some workdir \<Rightarrow> path_join workdir path | None \<Rightarrow> path)
      else path)"

definition host_fstat :: "'h Host \<Rightarrow> int \<Rightarrow> 'h \<Rightarrow> (int + GuestLinuxStat) \<times> 'h" where
  "host_fstat host fd h =
     (let (st, h') = h_fstat host fd h in
      (case st of None \<Rightarrow> Inl (last_errno host h') | Some st \<Rightarrow> Inr (guest_linux_stat_from_host st), h'))"

text \<open>The host's \<open>AT_FDCWD\<close> is \<open>-100\<close> and its \<open>AT_SYMLINK_NOFOLLOW\<close> is \<open>0x100\<close>.\<close>

definition host_fstatat ::
  "'h Host \<Rightarrow> GuestRuntime \<Rightarrow> ExecState \<Rightarrow> int \<Rightarrow> string \<Rightarrow> int \<Rightarrow> 'h \<Rightarrow> (int + GuestLinuxStat) \<times> 'h" where
  "host_fstatat host rt s dirfd path flags h =
     (let resolved = resolve_open_path rt dirfd path in
      case cstring_new resolved of None \<Rightarrow> (Inl GUEST_EINVAL, h)
      | Some c_path \<Rightarrow>
          let host_flags = (if flags AND GUEST_AT_SYMLINK_NOFOLLOW \<noteq> 0 then 0x100 else 0);
              dir = (if dirfd = GUEST_AT_FDCWD \<or> resolved \<noteq> path then Inr (- 100)
                     else host_fd s (word_of_int dirfd))
          in (case dir of Inl e \<Rightarrow> (Inl e, h)
              | Inr fd \<Rightarrow>
                  let (st, h') = h_fstatat host fd c_path host_flags h in
                  (case st of None \<Rightarrow> Inl (last_errno host h') | Some st \<Rightarrow> Inr (guest_linux_stat_from_host st), h')))"

section \<open>Calls that only look at the state\<close>

definition dispatch_futex :: "ExecState \<Rightarrow> u64 list \<Rightarrow> int + u64" where
  "dispatch_futex s args =
     (let cmd = as_i32 (args ! 1) AND NOT (128 OR 256) in
      if cmd = 0
      then (case read_u32_checked (xs_memory s) (args ! 0) of None \<Rightarrow> Inl GUEST_EFAULT
            | Some current \<Rightarrow>
                if current \<noteq> ucast (args ! 2) then Inl GUEST_EAGAIN
                else if args ! 3 \<noteq> 0 then Inl GUEST_ETIMEDOUT else Inl GUEST_EAGAIN)
      else if cmd = 1 then Inr 0 else Inl GUEST_ENOSYS)"

definition dispatch_wait4 :: "ExecState \<Rightarrow> u64 list \<Rightarrow> int + u64" where
  "dispatch_wait4 s args =
     (if args ! 1 \<noteq> 0 \<and> read_u32_checked (xs_memory s) (args ! 1) = None then Inl GUEST_EFAULT
      else if args ! 3 \<noteq> 0 \<and> read_bytes_checked (xs_memory s) (args ! 3) GUEST_RUSAGE_SIZE = None
      then Inl GUEST_EFAULT
      else Inl GUEST_ECHILD)"

definition dispatch_madvise :: "ExecState \<Rightarrow> u64 list \<Rightarrow> int + u64" where
  "dispatch_madvise s args =
     (if args ! 1 = 0 then Inr 0
      else if \<not> is_range_mapped (xs_memory s) (args ! 0) (args ! 1) then Inl GUEST_ENOMEM
      else if args ! 2 \<in> {0, 1, 2, 3, 4, 8, 9, 10, 11, 12, 13, 14, 15, 16, 17, 18, 19, 20, 21, 100, 101} then Inr 0
      else Inl GUEST_EINVAL)"

definition parse_guest_timeout_ms :: "GuestMemory \<Rightarrow> u64 \<Rightarrow> int + int" where
  "parse_guest_timeout_ms memory timeout_ptr =
     (if timeout_ptr = 0 then Inr (- 1)
      else case read_u64_checked memory timeout_ptr of None \<Rightarrow> Inl GUEST_EFAULT
      | Some sec \<Rightarrow>
     (case read_u64_checked memory (timeout_ptr + 8) of None \<Rightarrow> Inl GUEST_EFAULT
      | Some nsec \<Rightarrow>
          if 2 ^ 63 \<le> uint sec \<or> 2 ^ 63 \<le> uint nsec then Inl GUEST_EINVAL
          else if 1000000000 \<le> uint nsec then Inl GUEST_EINVAL
          else
            let millis = min (min (uint sec * 1000) (2 ^ 63 - 1) + (uint nsec + 999999) div 1000000) (2 ^ 63 - 1)
            in Inr (min millis (2 ^ 31 - 1))))"

definition validate_guest_sigmask :: "GuestMemory \<Rightarrow> u64 \<Rightarrow> usize \<Rightarrow> int + unit" where
  "validate_guest_sigmask memory sigmask_ptr sigset_size =
     (if sigmask_ptr = 0 then Inr ()
      else if sigset_size = 0 \<or> GUEST_SIGSET_MAX_BYTES < sigset_size then Inl GUEST_EINVAL
      else if read_bytes_checked memory sigmask_ptr sigset_size = None then Inl GUEST_EFAULT
      else Inr ())"

definition fd_set_bit :: "u8 list \<Rightarrow> usize \<Rightarrow> bool" where
  "fd_set_bit bytes fd =
     (let bits = from_le_bytes (take 8 (drop (fd div 64 * 8) bytes)) :: u64
      in drop_bit (fd mod 64) bits AND 1 \<noteq> 0)"

definition read_guest_fd_set :: "GuestMemory \<Rightarrow> u64 \<Rightarrow> usize \<Rightarrow> int + bool list" where
  "read_guest_fd_set memory addr nfds =
     (case read_bytes_checked memory addr GUEST_FD_SET_SIZE of None \<Rightarrow> Inl GUEST_EFAULT
      | Some bytes \<Rightarrow> Inr (map (fd_set_bit bytes) [0 ..< nfds]))"

definition fd_set_insert :: "usize \<Rightarrow> u8 list \<Rightarrow> u8 list" where
  "fd_set_insert fd bytes =
     (let value = (from_le_bytes (take 8 (drop (fd div 64 * 8) bytes)) :: u64) OR push_bit (fd mod 64) 1
      in put_field bytes (fd div 64 * 8) (to_le_bytes value))"

definition fd_set_bytes :: "bool list \<Rightarrow> u8 list" where
  "fd_set_bytes ready =
     fold (\<lambda>fd bytes. if ready ! fd then fd_set_insert fd bytes else bytes) [0 ..< length ready]
       (replicate GUEST_FD_SET_SIZE 0)"

definition write_guest_fd_set :: "u64 \<Rightarrow> bool list \<Rightarrow> GuestMemory \<Rightarrow> GuestMemory option" where
  "write_guest_fd_set addr ready memory = write_bytes_checked memory addr (fd_set_bytes ready)"

section \<open>Pipes, event descriptors and epoll\<close>

definition set_nonblocking :: "'h Host \<Rightarrow> int \<Rightarrow> 'h \<Rightarrow> (int + unit) \<times> 'h" where
  "set_nonblocking host fd h =
     (let (flags, h1) = h_fcntl_getfl host fd h in
      if flags < 0 then (Inl (last_errno host h1), h1)
      else let (rc, h2) = h_fcntl_setfl host fd (flags OR GUEST_O_NONBLOCK) h1 in
           if rc < 0 then (Inl (last_errno host h2), h2) else (Inr (), h2))"

definition create_pollable_pipe :: "'h Host \<Rightarrow> 'h \<Rightarrow> (int + (int \<times> int)) \<times> 'h" where
  "create_pollable_pipe host h =
     (case h_pipe host h of
        (None, h1) \<Rightarrow> (Inl (last_errno host h1), h1)
      | (Some (rfd, wfd), h1) \<Rightarrow>
          let (r, h2) = set_nonblocking host rfd h1;
              (r', h3) = (case r of Inl e \<Rightarrow> (Inl e, h2) | Inr _ \<Rightarrow> set_nonblocking host wfd h2)
          in (case r' of
                Inl e \<Rightarrow> (Inl e, h_close host wfd (h_close host rfd h3))
              | Inr _ \<Rightarrow> (Inr (rfd, wfd), h3)))"

definition guest_epoll_to_poll_events :: "u32 \<Rightarrow> u16" where
  "guest_epoll_to_poll_events events =
     (if events AND (GUEST_EPOLLIN OR GUEST_EPOLLRDNORM) \<noteq> 0 then POLLIN else 0) OR
     (if events AND (GUEST_EPOLLPRI OR GUEST_EPOLLRDBAND) \<noteq> 0 then POLLPRI else 0) OR
     (if events AND (GUEST_EPOLLOUT OR GUEST_EPOLLWRNORM OR GUEST_EPOLLWRBAND) \<noteq> 0 then POLLOUT else 0)"

definition poll_revents_to_guest_epoll :: "u16 \<Rightarrow> u32" where
  "poll_revents_to_guest_epoll revents =
     (if revents AND POLLIN \<noteq> 0 then GUEST_EPOLLIN OR GUEST_EPOLLRDNORM else 0) OR
     (if revents AND POLLPRI \<noteq> 0 then GUEST_EPOLLPRI OR GUEST_EPOLLRDBAND else 0) OR
     (if revents AND POLLOUT \<noteq> 0 then GUEST_EPOLLOUT OR GUEST_EPOLLWRNORM else 0) OR
     (if revents AND POLLERR \<noteq> 0 then GUEST_EPOLLERR else 0) OR
     (if revents AND POLLHUP \<noteq> 0 then GUEST_EPOLLHUP OR GUEST_EPOLLRDHUP else 0) OR
     (if revents AND POLLNVAL \<noteq> 0 then GUEST_EPOLLNVAL else 0) OR
     (if revents AND POLLRDHUP \<noteq> 0 then GUEST_EPOLLRDHUP else 0)"

definition cloexec_fd_flags :: "int \<Rightarrow> int" where
  "cloexec_fd_flags flags = (if flags AND GUEST_O_CLOEXEC \<noteq> 0 then GUEST_FD_CLOEXEC else 0)"

definition install_special_fd ::
  "'h Host \<Rightarrow> int \<Rightarrow> int \<Rightarrow> SpecialFdKind \<Rightarrow> ExecState \<Rightarrow> 'h \<Rightarrow> (int + u64) \<times> ExecState \<times> 'h" where
  "install_special_fd host read_fd flags special s h =
     (let guest_fd = alloc_guest_fd s;
          (s', h') = insert_guest_fd host guest_fd read_fd (flags AND NOT GUEST_O_CLOEXEC) (cloexec_fd_flags flags) s h
      in (Inr guest_fd, s'\<lparr>xs_special_fds := bt_insert guest_fd special (xs_special_fds s')\<rparr>, h'))"

definition dispatch_eventfd2 :: "'h Host \<Rightarrow> u64 list \<Rightarrow> ExecState \<Rightarrow> 'h \<Rightarrow> (int + u64) \<times> ExecState \<times> 'h" where
  "dispatch_eventfd2 host args s h =
     (let init = args ! 0; flags = as_i32 (args ! 1) in
      if flags AND NOT (GUEST_EFD_SEMAPHORE OR GUEST_O_NONBLOCK OR GUEST_O_CLOEXEC) \<noteq> 0 then (Inl GUEST_EINVAL, s, h)
      else case create_pollable_pipe host h of
        (Inl e, h1) \<Rightarrow> (Inl e, s, h1)
      | (Inr (read_fd, write_fd), h1) \<Rightarrow>
          let (rc, h2) = (if init \<noteq> 0 then h_write host write_fd [1] h1 else (0, h1)) in
          if rc < 0
          then let h3 = h_close host write_fd (h_close host read_fd h2) in (Inl (last_errno host h3), s, h3)
          else install_special_fd host read_fd flags
                 (SfEventFd \<lparr>efd_write_fd = write_fd, efd_counter = init,
                             efd_semaphore = (flags AND GUEST_EFD_SEMAPHORE \<noteq> 0)\<rparr>) s h2)"

definition dispatch_epoll_create1 :: "'h Host \<Rightarrow> u64 list \<Rightarrow> ExecState \<Rightarrow> 'h \<Rightarrow> (int + u64) \<times> ExecState \<times> 'h" where
  "dispatch_epoll_create1 host args s h =
     (let flags = as_i32 (args ! 0) in
      if flags AND NOT (GUEST_O_CLOEXEC OR GUEST_O_NONBLOCK) \<noteq> 0 then (Inl GUEST_EINVAL, s, h)
      else case create_pollable_pipe host h of
        (Inl e, h1) \<Rightarrow> (Inl e, s, h1)
      | (Inr (read_fd, write_fd), h1) \<Rightarrow>
          install_special_fd host read_fd flags
            (SfEpoll \<lparr>eps_wake_write_fd = write_fd, eps_registrations = []\<rparr>) s h1)"

definition dispatch_eventfd_write ::
  "'h Host \<Rightarrow> GuestMemory \<Rightarrow> EventFdState \<Rightarrow> u64 list \<Rightarrow> 'h \<Rightarrow> (int + u64) \<times> EventFdState \<times> 'h" where
  "dispatch_eventfd_write host memory eventfd args h =
     (if args ! 2 \<noteq> 8 then (Inl GUEST_EINVAL, eventfd, h)
      else case read_u64_checked memory (args ! 1) of None \<Rightarrow> (Inl GUEST_EFAULT, eventfd, h)
      | Some value \<Rightarrow>
          if value = - 1 then (Inl GUEST_EINVAL, eventfd, h)
          else if - 1 - 1 - value < efd_counter eventfd then (Inl GUEST_EAGAIN, eventfd, h)
          else
            let was_zero = (efd_counter eventfd = 0);
                eventfd' = eventfd\<lparr>efd_counter := word_sat_add (efd_counter eventfd) value\<rparr>
            in if was_zero \<and> efd_counter eventfd' \<noteq> 0
               then let (rc, h1) = h_write host (efd_write_fd eventfd') [1] h in
                    if rc < 0 \<and> last_errno host h1 \<noteq> GUEST_EAGAIN then (Inl (last_errno host h1), eventfd', h1)
                    else (Inr 8, eventfd', h1)
               else (Inr 8, eventfd', h))"

definition dispatch_eventfd_read ::
  "'h Host \<Rightarrow> int \<Rightarrow> EventFdState \<Rightarrow> u64 list \<Rightarrow> 'h World \<Rightarrow> (int + u64) \<times> EventFdState \<times> 'h World" where
  "dispatch_eventfd_read host read_fd eventfd args w =
     (if args ! 2 \<noteq> 8 then (Inl GUEST_EINVAL, eventfd, w)
      else if efd_counter eventfd = 0 then (Inl GUEST_EAGAIN, eventfd, w)
      else
        let value = (if efd_semaphore eventfd then 1 else efd_counter eventfd);
            eventfd' = eventfd\<lparr>efd_counter := efd_counter eventfd - value\<rparr>;
            w1 = (if efd_counter eventfd' = 0 then w\<lparr>w_host := snd (h_read host read_fd 1 (w_host w))\<rparr> else w)
        in (case write_u64_checked (w_memory w1) (args ! 1) value of
              None \<Rightarrow> (Inl GUEST_EFAULT, eventfd', w1)
            | Some m \<Rightarrow> (Inr 8, eventfd', note_store (args ! 1) value 8 (set_memory m w1))))"

definition epoll_registration :: "ExecState \<Rightarrow> int \<Rightarrow> u64 \<Rightarrow> u64 \<Rightarrow> int + GuestEpollRegistration option" where
  "epoll_registration s op target_fd event_ptr =
     (if op = 1 \<or> op = 3
      then if event_ptr = 0 then Inl GUEST_EFAULT
           else case read_guest_epoll_event (xs_memory s) event_ptr of Inl e \<Rightarrow> Inl e
                | Inr (events, data) \<Rightarrow> Inr (Some \<lparr>epr_guest_fd = target_fd, epr_events = events, epr_data = data\<rparr>)
      else if op = 2 then Inr None
      else Inl GUEST_EINVAL)"

definition epoll_apply :: "int \<Rightarrow> u64 \<Rightarrow> GuestEpollRegistration option \<Rightarrow> EpollState \<Rightarrow> int + EpollState" where
  "epoll_apply op target_fd registration epoll =
     (let regs = eps_registrations epoll; present = (bt_get regs target_fd \<noteq> None) in
      case registration of
        Some r \<Rightarrow>
          if op = 1
          then if present then Inl GUEST_EEXIST else Inr (epoll\<lparr>eps_registrations := bt_insert target_fd r regs\<rparr>)
          else if \<not> present then Inl GUEST_ENOENT
          else Inr (epoll\<lparr>eps_registrations := bt_insert target_fd r regs\<rparr>)
      | None \<Rightarrow>
          if present then Inr (epoll\<lparr>eps_registrations := bt_remove target_fd regs\<rparr>) else Inl GUEST_ENOENT)"

definition dispatch_epoll_ctl :: "u64 list \<Rightarrow> ExecState \<Rightarrow> (int + u64) \<times> ExecState" where
  "dispatch_epoll_ctl args s =
     (let epfd = args ! 0; op = as_i32 (args ! 1); target_fd = args ! 2; event_ptr = args ! 3 in
      if target_fd = epfd then (Inl GUEST_EINVAL, s)
      else if (case bt_get (xs_special_fds s) target_fd of Some (SfEpoll _) \<Rightarrow> True | _ \<Rightarrow> False)
      then (Inl GUEST_EINVAL, s)
      else case host_fd s target_fd of Inl e \<Rightarrow> (Inl e, s)
      | Inr _ \<Rightarrow>
     (case epoll_registration s op target_fd event_ptr of Inl e \<Rightarrow> (Inl e, s)
      | Inr registration \<Rightarrow>
     (case bt_get (xs_special_fds s) epfd of
        Some (SfEpoll epoll) \<Rightarrow>
          (case epoll_apply op target_fd registration epoll of Inl e \<Rightarrow> (Inl e, s)
           | Inr epoll' \<Rightarrow> (Inr 0, s\<lparr>xs_special_fds := bt_insert epfd (SfEpoll epoll') (xs_special_fds s)\<rparr>))
      | _ \<Rightarrow> (Inl GUEST_EBADF, s))))"

text \<open>Delivering the ready events: writes up to \<open>maxevents\<close> of them, counts all, and collects the one-shot ones.\<close>

fun epoll_deliver ::
  "u64 \<Rightarrow> usize \<Rightarrow> (GuestEpollRegistration \<times> u16) list \<Rightarrow> usize \<Rightarrow> u64 list \<Rightarrow> GuestMemory \<Rightarrow>
   (int + (usize \<times> u64 list)) \<times> GuestMemory" where
  "epoll_deliver events_ptr maxevents [] ready_count oneshot memory = (Inr (ready_count, oneshot), memory)"
| "epoll_deliver events_ptr maxevents ((registration, revents) # rest) ready_count oneshot memory =
     (let guest_revents = poll_revents_to_guest_epoll revents OR
            (epr_events registration AND (GUEST_EPOLLET OR GUEST_EPOLLONESHOT)) in
      if guest_revents = 0 then epoll_deliver events_ptr maxevents rest ready_count oneshot memory
      else
        let (ok, memory') =
              (if ready_count < maxevents
               then write_guest_epoll_event (events_ptr + word_of_nat ready_count * 16) guest_revents
                      (epr_data registration) memory
               else (True, memory));
            oneshot' = (if epr_events registration AND GUEST_EPOLLONESHOT \<noteq> 0
                        then oneshot @ [epr_guest_fd registration] else oneshot)
        in if ok then epoll_deliver events_ptr maxevents rest (ready_count + 1) oneshot' memory'
           else (Inl GUEST_EFAULT, memory'))"

section \<open>Waiting for events\<close>

definition epoll_pollfds :: "ExecState \<Rightarrow> GuestEpollRegistration list \<Rightarrow> int + (int \<times> u16) list" where
  "epoll_pollfds s =
     collect_results (\<lambda>registration.
       case host_fd s (epr_guest_fd registration) of Inl e \<Rightarrow> Inl e
       | Inr fd \<Rightarrow> Inr (fd, guest_epoll_to_poll_events (epr_events registration)))"

definition epoll_finish ::
  "u64 \<Rightarrow> u64 \<Rightarrow> usize \<Rightarrow> GuestEpollRegistration list \<Rightarrow> u16 list \<Rightarrow> EpollState \<Rightarrow> 'h World \<Rightarrow> 'h sys" where
  "epoll_finish epfd events_ptr maxevents registrations revents epoll w =
     (case epoll_deliver events_ptr maxevents (zip registrations revents) 0 [] (w_memory w) of
        (Inl e, m) \<Rightarrow> (Inl e, set_memory m w)
      | (Inr (ready_count, oneshot), m) \<Rightarrow>
          let epoll' = epoll\<lparr>eps_registrations := fold bt_remove oneshot (eps_registrations epoll)\<rparr>;
              w1 = set_memory m w;
              w2 = w1\<lparr>w_exec := (w_exec w1)\<lparr>xs_special_fds :=
                        bt_insert epfd (SfEpoll epoll') (xs_special_fds (w_exec w1))\<rparr>\<rparr>;
              produced = min ready_count maxevents
          in (Inr (word_of_nat produced),
              if produced \<noteq> 0 then note_store events_ptr (word_of_nat produced) (trace_size (produced * 16)) w2 else w2))"

definition dispatch_epoll_pwait :: "'h Host \<Rightarrow> u64 list \<Rightarrow> 'h World \<Rightarrow> 'h sys" where
  "dispatch_epoll_pwait host args w =
     (let epfd = args ! 0; events_ptr = args ! 1; maxevents = unat (args ! 2); timeout_ms = sint (args ! 3);
          s = w_exec w in
      if timeout_ms < - (2 ^ 31) \<or> 2 ^ 31 \<le> timeout_ms then (Inl GUEST_EINVAL, w)
      else if maxevents = 0 then (Inl GUEST_EINVAL, w)
      else case validate_guest_sigmask (xs_memory s) (args ! 4) (unat (args ! 5)) of Inl e \<Rightarrow> (Inl e, w)
      | Inr _ \<Rightarrow>
     (case bt_get (xs_special_fds s) epfd of
        Some (SfEpoll epoll) \<Rightarrow>
          let registrations = map snd (eps_registrations epoll) in
          (case epoll_pollfds s registrations of Inl e \<Rightarrow> (Inl e, w)
           | Inr pollfds \<Rightarrow>
               let ((rc, revents), h) = h_poll host pollfds timeout_ms (w_host w); w' = w\<lparr>w_host := h\<rparr> in
               if rc < 0 then (Inl (last_errno host h), w')
               else epoll_finish epfd events_ptr maxevents registrations revents epoll w')
      | _ \<Rightarrow> (Inl GUEST_EBADF, w)))"

definition select_request :: "GuestMemory \<Rightarrow> u64 \<Rightarrow> usize \<Rightarrow> int + bool list option" where
  "select_request memory addr nfds =
     (if addr = 0 then Inr None
      else case read_guest_fd_set memory addr nfds of Inl e \<Rightarrow> Inl e | Inr fds \<Rightarrow> Inr (Some fds))"

definition wants :: "bool list option \<Rightarrow> usize \<Rightarrow> bool" where
  "wants request fd = (case request of None \<Rightarrow> False | Some fds \<Rightarrow> fds ! fd)"

definition select_pollfds ::
  "ExecState \<Rightarrow> usize \<Rightarrow> bool list option \<Rightarrow> bool list option \<Rightarrow> bool list option \<Rightarrow> int + (usize \<times> int \<times> u16) list" where
  "select_pollfds s nfds read_req write_req except_req =
     collect_results (\<lambda>fd.
       case host_fd s (word_of_nat fd) of Inl e \<Rightarrow> Inl e
       | Inr host \<Rightarrow> Inr (fd, host, (if wants read_req fd then POLLIN else 0) OR
           (if wants write_req fd then POLLOUT else 0) OR (if wants except_req fd then POLLPRI else 0)))
       (filter (\<lambda>fd. wants read_req fd \<or> wants write_req fd \<or> wants except_req fd) [0 ..< nfds])"

text \<open>The three result sets and the number of descriptors that set anything.\<close>

definition select_mark :: "u16 \<Rightarrow> (usize \<times> u16) list \<Rightarrow> usize \<Rightarrow> bool list" where
  "select_mark bits polled nfds =
     fold (\<lambda>(fd, revents) ready. if revents AND bits \<noteq> 0 then ready[fd := True] else ready) polled (replicate nfds False)"

definition select_count :: "(usize \<times> u16) list \<Rightarrow> usize" where
  "select_count polled =
     length (filter (\<lambda>(fd, revents). revents AND (POLLIN OR POLLHUP OR POLLERR) \<noteq> 0 \<or> revents AND POLLOUT \<noteq> 0 \<or>
       revents AND (POLLPRI OR POLLERR) \<noteq> 0) polled)"

definition select_store :: "bool list option \<Rightarrow> u64 \<Rightarrow> bool list \<Rightarrow> GuestMemory \<Rightarrow> GuestMemory option" where
  "select_store request addr ready m = (if request = None then Some m else write_guest_fd_set addr ready m)"

definition pselect_sigmask :: "GuestMemory \<Rightarrow> u64 \<Rightarrow> int + unit" where
  "pselect_sigmask memory addr =
     (if addr = 0 then Inr ()
      else case read_u64_checked memory addr of None \<Rightarrow> Inl GUEST_EFAULT
      | Some sigmask_ptr \<Rightarrow>
     (case read_u64_checked memory (addr + 8) of None \<Rightarrow> Inl GUEST_EFAULT
      | Some sigset_size \<Rightarrow> validate_guest_sigmask memory sigmask_ptr (unat sigset_size)))"

definition select_finish ::
  "u64 list \<Rightarrow> usize \<Rightarrow> bool list option \<Rightarrow> bool list option \<Rightarrow> bool list option \<Rightarrow> (usize \<times> u16) list \<Rightarrow>
   'h World \<Rightarrow> 'h sys" where
  "select_finish args nfds read_req write_req except_req polled w =
     (let ready_count = word_of_nat (select_count polled);
          (ok, m) = write_seq
            [select_store read_req (args ! 1) (select_mark (POLLIN OR POLLHUP OR POLLERR) polled nfds),
             select_store write_req (args ! 2) (select_mark POLLOUT polled nfds),
             select_store except_req (args ! 3) (select_mark (POLLPRI OR POLLERR) polled nfds)] (w_memory w);
          w1 = set_memory m w;
          traced_bytes = (if args ! 1 \<noteq> 0 then GUEST_FD_SET_SIZE else 0) + (if args ! 2 \<noteq> 0 then GUEST_FD_SET_SIZE else 0) +
            (if args ! 3 \<noteq> 0 then GUEST_FD_SET_SIZE else 0);
          trace_addr = (if args ! 1 \<noteq> 0 then args ! 1 else if args ! 2 \<noteq> 0 then args ! 2 else args ! 3)
      in if \<not> ok then (Inl GUEST_EFAULT, w1)
         else (Inr ready_count,
               if traced_bytes \<noteq> 0 then note_store trace_addr ready_count (trace_size traced_bytes) w1 else w1))"

definition dispatch_pselect6 :: "'h Host \<Rightarrow> u64 list \<Rightarrow> 'h World \<Rightarrow> 'h sys" where
  "dispatch_pselect6 host args w =
     (let nfds = unat (args ! 0); s = w_exec w; m = xs_memory s in
      if GUEST_FD_SET_SIZE * 8 < nfds then (Inl GUEST_EINVAL, w)
      else case parse_guest_timeout_ms m (args ! 4) of Inl e \<Rightarrow> (Inl e, w)
      | Inr timeout_ms \<Rightarrow>
     (case pselect_sigmask m (args ! 5) of Inl e \<Rightarrow> (Inl e, w)
      | Inr _ \<Rightarrow>
     (case select_request m (args ! 1) nfds of Inl e \<Rightarrow> (Inl e, w)
      | Inr read_req \<Rightarrow>
     (case select_request m (args ! 2) nfds of Inl e \<Rightarrow> (Inl e, w)
      | Inr write_req \<Rightarrow>
     (case select_request m (args ! 3) nfds of Inl e \<Rightarrow> (Inl e, w)
      | Inr except_req \<Rightarrow>
     (case select_pollfds s nfds read_req write_req except_req of Inl e \<Rightarrow> (Inl e, w)
      | Inr pollfds \<Rightarrow>
          let ((rc, revents), h) = h_poll host (map snd pollfds) timeout_ms (w_host w); w' = w\<lparr>w_host := h\<rparr> in
          if rc < 0 then (Inl (last_errno host h), w')
          else select_finish args nfds read_req write_req except_req (zip (map fst pollfds) revents) w'))))))"

text \<open>One polled entry: the host descriptor (\<open>-1\<close> when there is none), the events and the forced result.\<close>

definition ppoll_entry :: "ExecState \<Rightarrow> u64 \<Rightarrow> usize \<Rightarrow> int + (int \<times> u16 \<times> u16)" where
  "ppoll_entry s fds_addr idx =
     (let base = fds_addr + word_of_nat idx * 8 in
      case read_u32_checked (xs_memory s) base of None \<Rightarrow> Inl GUEST_EFAULT
      | Some guest_fd_raw \<Rightarrow>
     (case read_u16_checked (xs_memory s) (base + 4) of None \<Rightarrow> Inl GUEST_EFAULT
      | Some events \<Rightarrow>
          if sint guest_fd_raw < 0 then Inr (- 1, events, 0)
          else case host_fd s (word_of_int (sint guest_fd_raw)) of
                 Inr mapped \<Rightarrow> Inr (mapped, events, 0)
               | Inl _ \<Rightarrow> Inr (- 1, events, POLLNVAL)))"

definition ppoll_revents :: "u16 \<Rightarrow> u16 \<Rightarrow> u16" where
  "ppoll_revents forced polled = (if forced \<noteq> 0 then forced else polled)"

definition dispatch_ppoll :: "'h Host \<Rightarrow> u64 list \<Rightarrow> 'h World \<Rightarrow> 'h sys" where
  "dispatch_ppoll host args w =
     (let fds_addr = args ! 0; nfds = unat (args ! 1); s = w_exec w; m = xs_memory s in
      case validate_guest_sigmask m (args ! 3) (unat (args ! 4)) of Inl e \<Rightarrow> (Inl e, w)
      | Inr _ \<Rightarrow>
     (case parse_guest_timeout_ms m (args ! 2) of Inl e \<Rightarrow> (Inl e, w)
      | Inr timeout_ms \<Rightarrow>
     (case collect_results (ppoll_entry s fds_addr) [0 ..< nfds] of Inl e \<Rightarrow> (Inl e, w)
      | Inr entries \<Rightarrow>
          let forced_ready = length (filter (\<lambda>(_, _, forced). forced \<noteq> 0) entries);
              ((rc, polled), h) = h_poll host (map (\<lambda>(fd, events, _). (fd, events)) entries) timeout_ms (w_host w);
              w1 = w\<lparr>w_host := h\<rparr> in
          if rc < 0 then (Inl (last_errno host h), w1)
          else
            let answers = zip entries polled;
                extra = length (filter (\<lambda>((fd, _, forced), p). forced = 0 \<and> fd < 0 \<and> ppoll_revents forced p \<noteq> 0) answers);
                ready = word_of_nat forced_ready + word_of_int rc + word_of_nat extra;
                (ok, m') = write_seq (map (\<lambda>(idx, (_, _, forced), p). \<lambda>m.
                    write_u16_checked m (fds_addr + word_of_nat idx * 8 + 6) (ppoll_revents forced p))
                  (enumerate 0 answers)) m;
                w2 = set_memory m' w1
            in if \<not> ok then (Inl GUEST_EFAULT, w2)
               else (Inr ready, note_store fds_addr ready (trace_size (nfds * 8)) w2))))"

section \<open>Process state\<close>

definition dispatch_prctl :: "u64 list \<Rightarrow> 'h World \<Rightarrow> 'h sys" where
  "dispatch_prctl args w =
     (let s = w_exec w in
      if args ! 0 = 15
      then (case read_guest_prctl_name (xs_memory s) (args ! 1) of Inl e \<Rightarrow> (Inl e, w)
            | Inr name \<Rightarrow> (Inr 0, w\<lparr>w_exec := s\<lparr>xs_thread_name := name\<rparr>\<rparr>))
      else if args ! 0 = 16
      then (case write_bytes_checked (xs_memory s) (args ! 1) (xs_thread_name s) of None \<Rightarrow> (Inl GUEST_EFAULT, w)
            | Some m \<Rightarrow> (Inr 0, note_store (args ! 1) 0 16 (set_memory m w)))
      else (Inl GUEST_ENOSYS, w))"

definition xorshift :: "u64 \<Rightarrow> u64" where
  "xorshift x0 =
     (let x1 = x0 XOR push_bit 13 x0; x2 = x1 XOR drop_bit 7 x1 in x2 XOR push_bit 17 x2)"

fun random_bytes :: "nat \<Rightarrow> u64 \<Rightarrow> u8 list \<times> u64" where
  "random_bytes 0 x = ([], x)"
| "random_bytes (Suc n) x =
     (let x' = xorshift x; (bytes, x'') = random_bytes n x' in (ucast x' # bytes, x''))"

definition dispatch_getrandom :: "u64 list \<Rightarrow> 'h World \<Rightarrow> 'h sys" where
  "dispatch_getrandom args w =
     (let buf = args ! 0; len = unat (args ! 1) in
      if args ! 2 AND NOT 3 \<noteq> 0 then (Inl GUEST_EINVAL, w)
      else
        let (bytes, x) = random_bytes len (xs_random_state (w_exec w));
            w1 = w\<lparr>w_exec := (w_exec w)\<lparr>xs_random_state := x\<rparr>\<rparr>
        in (case write_bytes_checked (w_memory w1) buf bytes of None \<Rightarrow> (Inl GUEST_EFAULT, w1)
            | Some m \<Rightarrow> (Inr (word_of_nat len), note_store buf 0 (trace_size len) (set_memory m w1))))"

definition dispatch_membarrier :: "u64 list \<Rightarrow> ExecState \<Rightarrow> (int + u64) \<times> ExecState" where
  "dispatch_membarrier args s =
     (if args ! 1 \<noteq> 0 then (Inl GUEST_EINVAL, s)
      else if args ! 0 = 0 then (Inr (8 OR 16), s)
      else if args ! 0 = 16 then (Inr 0, s\<lparr>xs_membarrier_private_expedited := True\<rparr>)
      else if args ! 0 = 8 then (if xs_membarrier_private_expedited s then Inr 0 else Inl GUEST_EPERM, s)
      else (Inl GUEST_ENOSYS, s))"

definition set_alt_stack :: "u64 \<Rightarrow> ExecState \<Rightarrow> (int + u64) \<times> ExecState" where
  "set_alt_stack new_addr s =
     (if new_addr = 0 then (Inr 0, s)
      else case read_guest_sigaltstack (xs_memory s) new_addr of Inl e \<Rightarrow> (Inl e, s)
      | Inr (sp, flags, sz) \<Rightarrow>
          if flags AND GUEST_SS_ONSTACK \<noteq> 0 \<or> flags AND NOT (GUEST_SS_DISABLE OR GUEST_SS_ONSTACK) \<noteq> 0
          then (Inl GUEST_EINVAL, s)
          else if flags AND GUEST_SS_DISABLE \<noteq> 0
          then (Inr 0, s\<lparr>xs_alt_stack_sp := 0, xs_alt_stack_size := 0, xs_alt_stack_flags := GUEST_SS_DISABLE\<rparr>)
          else if sp = 0 then (Inl GUEST_EINVAL, s)
          else if sz < 2048 then (Inl GUEST_ENOMEM, s)
          else (Inr 0, s\<lparr>xs_alt_stack_sp := sp, xs_alt_stack_size := sz, xs_alt_stack_flags := 0\<rparr>))"

definition dispatch_sigaltstack :: "u64 list \<Rightarrow> 'h World \<Rightarrow> 'h sys" where
  "dispatch_sigaltstack args w =
     (let s = w_exec w; old_addr = args ! 1;
          (ok, m) = (if old_addr \<noteq> 0
                     then write_guest_sigaltstack old_addr (xs_alt_stack_sp s) (xs_alt_stack_flags s)
                            (xs_alt_stack_size s) (xs_memory s)
                     else (True, xs_memory s));
          w1 = set_memory m w;
          w2 = (if old_addr \<noteq> 0 then note_store old_addr (xs_alt_stack_sp s) 24 w1 else w1);
          (r, s') = set_alt_stack (args ! 0) (w_exec w2)
      in if \<not> ok then (Inl GUEST_EFAULT, w1) else (r, w2\<lparr>w_exec := s'\<rparr>))"

definition dispatch_rseq :: "u64 list \<Rightarrow> 'h World \<Rightarrow> 'h sys" where
  "dispatch_rseq args w =
     (let addr = args ! 0; flags = args ! 2; s = w_exec w in
      case try_u32 (args ! 1) of None \<Rightarrow> (Inl GUEST_EINVAL, w)
      | Some len \<Rightarrow>
     (case try_u32 (args ! 3) of None \<Rightarrow> (Inl GUEST_EINVAL, w)
      | Some sig \<Rightarrow>
          if flags = 1
          then if xs_rseq_addr s = 0 \<or> xs_rseq_addr s \<noteq> addr then (Inl GUEST_EINVAL, w)
               else (Inr 0, w\<lparr>w_exec := s\<lparr>xs_rseq_addr := 0, xs_rseq_len := 0, xs_rseq_sig := 0\<rparr>\<rparr>)
          else if flags \<noteq> 0 then (Inl GUEST_EINVAL, w)
          else if len < 32 then (Inl GUEST_EINVAL, w)
          else if sig \<noteq> GUEST_RSEQ_SIG then (Inl GUEST_EINVAL, w)
          else if addr = 0 then (Inl GUEST_EFAULT, w)
          else
            let (ok, m) = initialize_guest_rseq addr len 0 (xs_memory s); w1 = set_memory m w in
            if \<not> ok then (Inl GUEST_EFAULT, w1)
            else (Inr 0, note_store addr 0 (trace_size (unat len))
                    (w1\<lparr>w_exec := (w_exec w1)\<lparr>xs_rseq_addr := addr, xs_rseq_len := len, xs_rseq_sig := sig\<rparr>\<rparr>))))"

definition dispatch_prlimit64 :: "u64 list \<Rightarrow> ExecState \<Rightarrow> (int + u64) \<times> ExecState" where
  "dispatch_prlimit64 args s =
     (let pid = args ! 0; resource = ucast (args ! 1) in
      if pid \<noteq> 0 \<and> pid \<noteq> xs_current_pid s then (Inl GUEST_ESRCH, s)
      else case rlimit_for s resource of None \<Rightarrow> (Inl GUEST_EINVAL, s)
      | Some current \<Rightarrow>
          let (ok, m) = (if args ! 3 \<noteq> 0 then write_guest_rlimit (args ! 3) current (xs_memory s)
                         else (True, xs_memory s));
              s1 = s\<lparr>xs_memory := m\<rparr>
          in if \<not> ok then (Inl GUEST_EFAULT, s1)
             else if args ! 2 \<noteq> 0
             then (case read_guest_rlimit (xs_memory s1) (args ! 2) of Inl e \<Rightarrow> (Inl e, s1)
                   | Inr new_limit \<Rightarrow>
                       (case set_rlimit s1 resource new_limit of Inl e \<Rightarrow> (Inl e, s1) | Inr s2 \<Rightarrow> (Inr 0, s2)))
             else (Inr 0, s1))"

section \<open>Descriptors and files\<close>

definition dispatch_fcntl :: "'h Host \<Rightarrow> u64 list \<Rightarrow> ExecState \<Rightarrow> 'h \<Rightarrow> (int + u64) \<times> ExecState \<times> 'h" where
  "dispatch_fcntl host args s h =
     (let guest_fd = args ! 0; cmd = as_i32 (args ! 1); value = as_i32 (args ! 2) in
      case host_fd s guest_fd of Inl e \<Rightarrow> (Inl e, s, h)
      | Inr _ \<Rightarrow>
          if cmd = 0 then duplicate_guest_fd host guest_fd (word_of_int (max value 0)) False s h
          else if cmd = 1030 then duplicate_guest_fd host guest_fd (word_of_int (max value 0)) True s h
          else if cmd = 1 then (Inr (word_of_int (unwrap_or (bt_get (xs_fd_fd_flags s) guest_fd) 0)), s, h)
          else if cmd = 2
          then (Inr 0, s\<lparr>xs_fd_fd_flags := bt_insert guest_fd (value AND GUEST_FD_CLOEXEC) (xs_fd_fd_flags s)\<rparr>, h)
          else if cmd = 3 then (Inr (word_of_int (unwrap_or (bt_get (xs_fd_status_flags s) guest_fd) 0)), s, h)
          else if cmd = 4
          then let entry = unwrap_or (bt_get (xs_fd_status_flags s) guest_fd) 0 in
               (Inr 0, s\<lparr>xs_fd_status_flags :=
                  bt_insert guest_fd ((entry AND 3) OR (value AND NOT 3)) (xs_fd_status_flags s)\<rparr>, h)
          else (Inl GUEST_ENOSYS, s, h))"

definition dispatch_ioctl :: "u64 list \<Rightarrow> 'h World \<Rightarrow> 'h sys" where
  "dispatch_ioctl args w =
     (let guest_fd = args ! 0; addr = args ! 2; s = w_exec w in
      case host_fd s guest_fd of Inl e \<Rightarrow> (Inl e, w)
      | Inr _ \<Rightarrow>
          if 2 < guest_fd then (Inl GUEST_ENOTTY, w)
          else if args ! 1 = 0x5413
          then let (ok, m) = write_seq [\<lambda>m. write_u16_checked m addr 24, \<lambda>m. write_u16_checked m (addr + 2) 80,
                     \<lambda>m. write_u16_checked m (addr + 4) 0, \<lambda>m. write_u16_checked m (addr + 6) 0] (xs_memory s);
                   w1 = set_memory m w
               in if \<not> ok then (Inl GUEST_EFAULT, w1) else (Inr 0, note_store addr 0 8 w1)
          else if args ! 1 = 0x540F
          then (case write_u32_checked (xs_memory s) addr (xs_current_pgrp s) of None \<Rightarrow> (Inl GUEST_EFAULT, w)
                | Some m \<Rightarrow> (Inr 0, note_store addr (ucast (xs_current_pgrp s)) 4 (set_memory m w)))
          else if args ! 1 = 0x5410
          then (case read_u32_checked (xs_memory s) addr of None \<Rightarrow> (Inl GUEST_EFAULT, w)
                | Some pgrp \<Rightarrow> (Inr 0, w\<lparr>w_exec := s\<lparr>xs_current_pgrp := pgrp\<rparr>\<rparr>))
          else (Inl GUEST_ENOTTY, w))"

definition dispatch_dup3 :: "'h Host \<Rightarrow> u64 list \<Rightarrow> ExecState \<Rightarrow> 'h \<Rightarrow> (int + u64) \<times> ExecState \<times> 'h" where
  "dispatch_dup3 host args s h =
     (let flags = as_i32 (args ! 2) in
      if flags AND NOT GUEST_O_CLOEXEC \<noteq> 0 then (Inl GUEST_EINVAL, s, h)
      else duplicate_guest_fd_to host (args ! 0) (args ! 1) (flags AND GUEST_O_CLOEXEC \<noteq> 0) s h)"

definition install_pipe :: "'h Host \<Rightarrow> int \<Rightarrow> u64 \<Rightarrow> u64 \<Rightarrow> int \<times> int \<Rightarrow> 'h World \<Rightarrow> 'h World" where
  "install_pipe host flags read_guest_fd write_guest_fd host_pipe w =
     (let fd_flags = cloexec_fd_flags flags;
          status_flags = flags AND NOT GUEST_O_CLOEXEC;
          read_status = status_flags AND NOT GUEST_O_WRONLY;
          write_status = (status_flags AND NOT GUEST_O_RDONLY) OR GUEST_O_WRONLY;
          (s1, h1) = insert_guest_fd host read_guest_fd (fst host_pipe) read_status fd_flags (w_exec w) (w_host w);
          (s2, h2) = insert_guest_fd host write_guest_fd (snd host_pipe) write_status fd_flags s1 h1
      in w\<lparr>w_exec := s2, w_host := h2\<rparr>)"

definition dispatch_pipe2 :: "'h Host \<Rightarrow> u64 list \<Rightarrow> 'h World \<Rightarrow> 'h sys" where
  "dispatch_pipe2 host args w =
     (let guest_pipefd = args ! 0; flags = as_i32 (args ! 1) in
      if flags AND NOT (GUEST_O_CLOEXEC OR GUEST_O_NONBLOCK) \<noteq> 0 then (Inl GUEST_EINVAL, w)
      else case h_pipe host (w_host w) of
        (None, h) \<Rightarrow> (Inl (last_errno host h), w\<lparr>w_host := h\<rparr>)
      | (Some host_pipe, h) \<Rightarrow>
          let w1 = w\<lparr>w_host := h\<rparr>;
              read_guest_fd = alloc_guest_fd (w_exec w1);
              write_guest_fd = alloc_guest_fd_from (w_exec w1) (read_guest_fd + 1);
              (ok, m) = write_seq [\<lambda>m. write_u32_checked m guest_pipefd (ucast read_guest_fd),
                \<lambda>m. write_u32_checked m (guest_pipefd + 4) (ucast write_guest_fd)] (w_memory w1);
              w2 = set_memory m w1
          in if \<not> ok
             then (Inl GUEST_EFAULT, w2\<lparr>w_host := h_close host (snd host_pipe) (h_close host (fst host_pipe) (w_host w2))\<rparr>)
             else (Inr 0, note_store guest_pipefd read_guest_fd 8
                     (install_pipe host flags read_guest_fd write_guest_fd host_pipe w2)))"

text \<open>A \<open>stat\<close> result copied to the guest.\<close>

definition store_stat :: "u64 \<Rightarrow> (int + GuestLinuxStat) \<times> 'h \<Rightarrow> 'h World \<Rightarrow> 'h sys" where
  "store_stat stat_ptr res w =
     (case res of
        (Inl e, h) \<Rightarrow> (Inl e, w\<lparr>w_host := h\<rparr>)
      | (Inr st, h) \<Rightarrow>
          let w1 = w\<lparr>w_host := h\<rparr> in
          (case write_guest_linux_stat (w_memory w1) stat_ptr st of None \<Rightarrow> (Inl GUEST_EFAULT, w1)
           | Some m \<Rightarrow> (Inr 0, note_store stat_ptr (word_of_int (gs_size st)) 128 (set_memory m w1))))"

definition dispatch_newfstatat :: "'h Host \<Rightarrow> GuestRuntime \<Rightarrow> u64 list \<Rightarrow> 'h World \<Rightarrow> 'h sys" where
  "dispatch_newfstatat host rt args w =
     (let dirfd = as_i32 (args ! 0); flags = as_i32 (args ! 3); s = w_exec w in
      if flags AND NOT (GUEST_AT_EMPTY_PATH OR GUEST_AT_SYMLINK_NOFOLLOW) \<noteq> 0 then (Inl GUEST_EINVAL, w)
      else case (if args ! 1 = 0 then Some [] else read_c_string_checked (xs_memory s) (args ! 1) MAX_C_STRING) of
        None \<Rightarrow> (Inl GUEST_EFAULT, w)
      | Some path \<Rightarrow>
          if path = [] \<and> flags AND GUEST_AT_EMPTY_PATH \<noteq> 0
          then (case host_fd s (args ! 0) of Inl e \<Rightarrow> (Inl e, w)
                | Inr fd \<Rightarrow> store_stat (args ! 2) (host_fstat host fd (w_host w)) w)
          else store_stat (args ! 2) (host_fstatat host rt s dirfd path flags (w_host w)) w)"

definition store_link :: "'h Host \<Rightarrow> u64 \<Rightarrow> u8 list option \<times> 'h \<Rightarrow> 'h World \<Rightarrow> 'h sys" where
  "store_link host buf res w =
     (let (bytes, h) = res; w1 = w\<lparr>w_host := h\<rparr> in
      case bytes of None \<Rightarrow> (Inl (last_errno host h), w1)
      | Some bytes \<Rightarrow>
          (case write_bytes_checked (w_memory w1) buf bytes of None \<Rightarrow> (Inl GUEST_EFAULT, w1)
           | Some m \<Rightarrow> (Inr (word_of_nat (length bytes)),
                        note_store buf 0 (trace_size (length bytes)) (set_memory m w1))))"

definition dispatch_readlinkat :: "'h Host \<Rightarrow> GuestRuntime \<Rightarrow> u64 list \<Rightarrow> 'h World \<Rightarrow> 'h sys" where
  "dispatch_readlinkat host rt args w =
     (let dirfd = as_i32 (args ! 0); s = w_exec w; sz = unat (args ! 3) in
      case read_c_string_checked (xs_memory s) (args ! 1) MAX_C_STRING of None \<Rightarrow> (Inl GUEST_EFAULT, w)
      | Some path \<Rightarrow>
          let resolved = resolve_open_path rt dirfd path in
          (case cstring_new resolved of None \<Rightarrow> (Inl GUEST_EINVAL, w)
           | Some c_path \<Rightarrow>
               if dirfd = GUEST_AT_FDCWD \<or> resolved \<noteq> path
               then store_link host (args ! 2) (h_readlink host c_path sz (w_host w)) w
               else case host_fd s (args ! 0) of Inl e \<Rightarrow> (Inl e, w)
                    | Inr host_dirfd \<Rightarrow> store_link host (args ! 2) (h_readlinkat host host_dirfd c_path sz (w_host w)) w))"

definition dispatch_getcwd :: "'h Host \<Rightarrow> GuestRuntime \<Rightarrow> u64 list \<Rightarrow> 'h World \<Rightarrow> 'h sys" where
  "dispatch_getcwd host rt args w =
     (let buf = args ! 0; sz = unat (args ! 1) in
      if sz = 0 then (Inl GUEST_EINVAL, w)
      else case (case rc_workdir (gr_config rt) of Some d \<Rightarrow> Some d | None \<Rightarrow> h_current_dir host (w_host w)) of
        None \<Rightarrow> (Inl GUEST_ENOENT, w)
      | Some cwd \<Rightarrow>
          if sz < length cwd + 1 then (Inl GUEST_ERANGE, w)
          else case write_bytes_checked (w_memory w) buf (as_bytes cwd @ [0]) of None \<Rightarrow> (Inl GUEST_EFAULT, w)
               | Some m \<Rightarrow> (Inr buf, set_memory m w))"

definition sys_write :: "'h Host \<Rightarrow> u64 list \<Rightarrow> 'h World \<Rightarrow> 'h sys" where
  "sys_write host args w =
     (let s = w_exec w in
      case bt_get (xs_special_fds s) (args ! 0) of
        Some (SfEventFd eventfd) \<Rightarrow>
          let (r, eventfd', h) = dispatch_eventfd_write host (xs_memory s) eventfd args (w_host w) in
          (r, w\<lparr>w_host := h,
                w_exec := s\<lparr>xs_special_fds := bt_insert (args ! 0) (SfEventFd eventfd') (xs_special_fds s)\<rparr>\<rparr>)
      | Some (SfEpoll _) \<Rightarrow> (Inl GUEST_EINVAL, w)
      | None \<Rightarrow>
          (case host_fd s (args ! 0) of Inl e \<Rightarrow> (Inl e, w)
           | Inr fd \<Rightarrow>
               (case read_bytes_checked (xs_memory s) (args ! 1) (unat (args ! 2)) of None \<Rightarrow> (Inl GUEST_EFAULT, w)
                | Some bytes \<Rightarrow>
                    let (rc, h) = h_write host fd bytes (w_host w) in
                    (if rc < 0 then Inl (last_errno host h) else Inr (word_of_int rc), w\<lparr>w_host := h\<rparr>))))"

definition sys_read :: "'h Host \<Rightarrow> u64 list \<Rightarrow> 'h World \<Rightarrow> 'h sys" where
  "sys_read host args w =
     (let s = w_exec w in
      case bt_get (xs_special_fds s) (args ! 0) of
        Some (SfEventFd eventfd) \<Rightarrow>
          (case host_fd s (args ! 0) of Inl e \<Rightarrow> (Inl e, w)
           | Inr read_fd \<Rightarrow>
               let (r, eventfd', w') = dispatch_eventfd_read host read_fd eventfd args w; s' = w_exec w' in
               (r, w'\<lparr>w_exec := s'\<lparr>xs_special_fds := bt_insert (args ! 0) (SfEventFd eventfd') (xs_special_fds s')\<rparr>\<rparr>))
      | Some (SfEpoll _) \<Rightarrow> (Inl GUEST_EINVAL, w)
      | None \<Rightarrow>
          (case host_fd s (args ! 0) of Inl e \<Rightarrow> (Inl e, w)
           | Inr fd \<Rightarrow>
               let (bytes, h) = h_read host fd (unat (args ! 2)) (w_host w); w1 = w\<lparr>w_host := h\<rparr> in
               (case bytes of None \<Rightarrow> (Inl (last_errno host h), w1)
                | Some bytes \<Rightarrow>
                    (case write_bytes_checked (w_memory w1) (args ! 1) bytes of None \<Rightarrow> (Inl GUEST_EFAULT, w1)
                     | Some m \<Rightarrow> (Inr (word_of_nat (length bytes)),
                                  note_load (args ! 1) 0 (trace_size (length bytes)) (set_memory m w1))))))"

text \<open>The last step of \<open>openat\<close>: the new descriptor, or the host's error.\<close>

definition install_opened :: "'h Host \<Rightarrow> int \<Rightarrow> int \<times> 'h \<Rightarrow> 'h World \<Rightarrow> 'h sys" where
  "install_opened host flags opened w =
     (let (fd, h) = opened in
      if fd < 0 then (Inl (last_errno host h), w\<lparr>w_host := h\<rparr>)
      else let guest_fd = alloc_guest_fd (w_exec w);
               (s', h') = insert_guest_fd host guest_fd fd (flags AND NOT GUEST_O_CLOEXEC) 0 (w_exec w) h
           in (Inr guest_fd, w\<lparr>w_exec := s', w_host := h'\<rparr>))"

text \<open>No result: the path has a zero byte and the engine stops with an error.\<close>

definition sys_openat :: "'h Host \<Rightarrow> GuestRuntime \<Rightarrow> u64 list \<Rightarrow> 'h World \<Rightarrow> 'h sys option" where
  "sys_openat host rt args w =
     (let dirfd = as_i32 (args ! 0); flags = as_i32 (args ! 2); mode = ucast (args ! 3); s = w_exec w in
      case read_c_string_checked (xs_memory s) (args ! 1) MAX_C_STRING of None \<Rightarrow> Some (Inl GUEST_EFAULT, w)
      | Some path \<Rightarrow>
          let resolved = resolve_open_path rt dirfd path in
          (case cstring_new resolved of None \<Rightarrow> None
           | Some c_path \<Rightarrow>
               if dirfd = GUEST_AT_FDCWD \<or> resolved \<noteq> path
               then Some (install_opened host flags (h_open host c_path flags mode (w_host w)) w)
               else case host_fd s (args ! 0) of Inl e \<Rightarrow> Some (Inl e, w)
                    | Inr host_dirfd \<Rightarrow>
                        Some (install_opened host flags (h_openat host host_dirfd c_path flags mode (w_host w)) w)))"

definition sys_lseek :: "'h Host \<Rightarrow> u64 list \<Rightarrow> 'h World \<Rightarrow> 'h sys" where
  "sys_lseek host args w =
     (case host_fd (w_exec w) (args ! 0) of Inl e \<Rightarrow> (Inl e, w)
      | Inr fd \<Rightarrow>
          let (rc, h) = h_lseek host fd (sint (args ! 1)) (as_i32 (args ! 2)) (w_host w) in
          (if rc < 0 then Inl (last_errno host h) else Inr (word_of_int rc), w\<lparr>w_host := h\<rparr>))"

definition sys_fstat :: "'h Host \<Rightarrow> u64 list \<Rightarrow> 'h World \<Rightarrow> 'h sys" where
  "sys_fstat host args w =
     (case host_fd (w_exec w) (args ! 0) of Inl e \<Rightarrow> (Inl e, w)
      | Inr fd \<Rightarrow> store_stat (args ! 1) (host_fstat host fd (w_host w)) w)"

definition sys_clock_gettime :: "'h Host \<Rightarrow> u64 list \<Rightarrow> 'h World \<Rightarrow> 'h sys" where
  "sys_clock_gettime host args w =
     (let clk_id = (if args ! 0 < 0x80000000 then uint (args ! 0) else 0);
          (ts, h) = h_clock_gettime host clk_id (w_host w); w1 = w\<lparr>w_host := h\<rparr> in
      case ts of None \<Rightarrow> (Inl (last_errno host h), w1)
      | Some (sec, nsec) \<Rightarrow>
          let (ok, m) = write_seq [\<lambda>m. write_u64_checked m (args ! 1) (word_of_int sec),
                \<lambda>m. write_u64_checked m (args ! 1 + 8) (word_of_int nsec)] (w_memory w1);
              w2 = set_memory m w1
          in if \<not> ok then (Inl GUEST_EFAULT, w2) else (Inr 0, note_store (args ! 1) (word_of_int sec) 16 w2))"

text \<open>Calls that fill a guest buffer in one checked write and record it.\<close>

definition store_or_fault :: "u64 \<Rightarrow> u8 \<Rightarrow> GuestMemory option \<Rightarrow> 'h World \<Rightarrow> 'h sys" where
  "store_or_fault addr sz written w =
     (case written of None \<Rightarrow> (Inl GUEST_EFAULT, w) | Some m \<Rightarrow> (Inr 0, note_store addr 0 sz (set_memory m w)))"

definition sys_rt_sigaction :: "u64 list \<Rightarrow> 'h World \<Rightarrow> 'h sys" where
  "sys_rt_sigaction args w =
     (if args ! 2 \<noteq> 0
      then store_or_fault (args ! 2) (trace_size 32) (write_bytes_checked (w_memory w) (args ! 2) (replicate 32 0)) w
      else (Inr 0, w))"

definition sys_rt_sigprocmask :: "u64 list \<Rightarrow> 'h World \<Rightarrow> 'h sys" where
  "sys_rt_sigprocmask args w =
     (let sz = unat (args ! 3) in
      if sz = 0 \<or> GUEST_SIGSET_BYTES < sz then (Inl GUEST_EINVAL, w)
      else if args ! 2 \<noteq> 0
      then store_or_fault (args ! 2) (trace_size sz) (write_bytes_checked (w_memory w) (args ! 2) (replicate sz 0)) w
      else (Inr 0, w))"

section \<open>Identities and memory\<close>

definition sys_getres :: "u64 list \<Rightarrow> u32 \<Rightarrow> u32 \<Rightarrow> u32 \<Rightarrow> 'h World \<Rightarrow> 'h sys" where
  "sys_getres args a b c w =
     (let (ok, m) = dispatch_getres_ids [(args ! 0, a), (args ! 1, b), (args ! 2, c)] (w_memory w); w1 = set_memory m w
      in if ok then (Inr 0, note_store (args ! 0) (ucast a) 12 w1) else (Inl GUEST_EFAULT, w1))"

definition sys_setuid :: "u64 list \<Rightarrow> ExecState \<Rightarrow> (int + u64) \<times> ExecState" where
  "sys_setuid args s =
     (case validate_single_id (args ! 0) [xs_uid s, xs_euid s, xs_suid s] of Inl e \<Rightarrow> (Inl e, s)
      | Inr u \<Rightarrow> (Inr 0, s\<lparr>xs_uid := u, xs_euid := u, xs_suid := u\<rparr>))"

definition sys_setgid :: "u64 list \<Rightarrow> ExecState \<Rightarrow> (int + u64) \<times> ExecState" where
  "sys_setgid args s =
     (case validate_single_id (args ! 0) [xs_gid s, xs_egid s, xs_sgid s] of Inl e \<Rightarrow> (Inl e, s)
      | Inr g \<Rightarrow> (Inr 0, s\<lparr>xs_gid := g, xs_egid := g, xs_sgid := g\<rparr>))"

definition sys_setresuid :: "u64 list \<Rightarrow> ExecState \<Rightarrow> (int + u64) \<times> ExecState" where
  "sys_setresuid args s =
     (case apply_setres_ids [xs_uid s, xs_euid s, xs_suid s] [args ! 0, args ! 1, args ! 2] of Inl e \<Rightarrow> (Inl e, s)
      | Inr ids \<Rightarrow> (Inr 0, s\<lparr>xs_uid := ids ! 0, xs_euid := ids ! 1, xs_suid := ids ! 2\<rparr>))"

definition sys_setresgid :: "u64 list \<Rightarrow> ExecState \<Rightarrow> (int + u64) \<times> ExecState" where
  "sys_setresgid args s =
     (case apply_setres_ids [xs_gid s, xs_egid s, xs_sgid s] [args ! 0, args ! 1, args ! 2] of Inl e \<Rightarrow> (Inl e, s)
      | Inr ids \<Rightarrow> (Inr 0, s\<lparr>xs_gid := ids ! 0, xs_egid := ids ! 1, xs_sgid := ids ! 2\<rparr>))"

definition sys_brk :: "u64 list \<Rightarrow> ExecState \<Rightarrow> (int + u64) \<times> ExecState" where
  "sys_brk args s = (let s' = (if args ! 0 \<noteq> 0 then grow_brk s (args ! 0) else s) in (Inr (xs_brk_current s'), s'))"

definition sys_mmap :: "u64 list \<Rightarrow> ExecState \<Rightarrow> (int + u64) \<times> ExecState" where
  "sys_mmap args s =
     (if args ! 1 = 0 then (Inl GUEST_EINVAL, s)
      else let (s', addr) = alloc_mmap s (args ! 0) (args ! 1) (ucast (args ! 2)) in (Inr addr, s'))"

text \<open>No result: slicing a region out of its data panics.\<close>

definition sys_munmap :: "u64 list \<Rightarrow> ExecState \<Rightarrow> ((int + u64) \<times> ExecState) option" where
  "sys_munmap args s =
     (let addr = args ! 0; sz = align_up (args ! 1) PAGE_SIZE in
      if sz = 0 \<or> addr AND (PAGE_SIZE - 1) \<noteq> 0 then Some (Inl GUEST_EINVAL, s)
      else map_option (\<lambda>m. (Inr 0, s\<lparr>xs_memory := m\<rparr>)) (unmap_range (xs_memory s) addr sz))"

definition sys_mprotect :: "u64 list \<Rightarrow> ExecState \<Rightarrow> ((int + u64) \<times> ExecState) option" where
  "sys_mprotect args s =
     (let addr = args ! 0; sz = align_up (args ! 1) PAGE_SIZE in
      if sz = 0 \<or> addr AND (PAGE_SIZE - 1) \<noteq> 0 then Some (Inl GUEST_EINVAL, s)
      else map_option (\<lambda>(ok, m). (if ok then Inr 0 else Inl GUEST_ENOMEM, s\<lparr>xs_memory := m\<rparr>))
             (protect_range (xs_memory s) addr sz (guest_prot_to_region_flags (ucast (args ! 2)))))"

section \<open>Dispatch\<close>

text \<open>How a fallible operation on the world \<open>'w\<close> ends: a value, an error that stops the engine, a panic, or
  never.\<close>

datatype ('w, 'a) step_result = StepOk 'w 'a | StepErr 'w | StepPanic | StepHang

definition finalize_syscall :: "'h sys \<Rightarrow> ('h World, ExitSignal option) step_result" where
  "finalize_syscall res =
     (let (r, w) = res;
          a0 = (case r of Inr value \<Rightarrow> value | Inl errno \<Rightarrow> word_of_int (- errno))
      in case writeback (w_exec w) (w_commit w) REG_A0 a0 of None \<Rightarrow> StepPanic
         | Some (s, c) \<Rightarrow> StepOk (w\<lparr>w_exec := s, w_commit := c\<rparr>) None)"

definition exec_sys :: "(int + u64) \<times> ExecState \<Rightarrow> 'h World \<Rightarrow> 'h sys" where
  "exec_sys res w = (fst res, w\<lparr>w_exec := snd res\<rparr>)"

text \<open>The calls that always yield a value or a guest error.\<close>

definition plain_syscall :: "'h Host \<Rightarrow> GuestRuntime \<Rightarrow> u64 \<Rightarrow> u64 list \<Rightarrow> 'h World \<Rightarrow> 'h sys" where
  "plain_syscall host rt number args w =
     (let s = w_exec w in
      if number = SYS_EVENTFD2 then in_world (dispatch_eventfd2 host args) w
      else if number = SYS_EPOLL_CREATE1 then in_world (dispatch_epoll_create1 host args) w
      else if number = SYS_EPOLL_CTL then exec_sys (dispatch_epoll_ctl args s) w
      else if number = SYS_EPOLL_PWAIT then dispatch_epoll_pwait host args w
      else if number = SYS_GETPID then (Inr (xs_current_pid s), w)
      else if number = SYS_GETPPID then (Inr (xs_current_ppid s), w)
      else if number = SYS_WAIT4 then (dispatch_wait4 s args, w)
      else if number = SYS_GETCWD then dispatch_getcwd host rt args w
      else if number = SYS_PSELECT6 then dispatch_pselect6 host args w
      else if number = SYS_PPOLL then dispatch_ppoll host args w
      else if number = SYS_PRCTL then dispatch_prctl args w
      else if number = SYS_GETUID then (Inr (ucast (xs_uid s)), w)
      else if number = SYS_GETEUID then (Inr (ucast (xs_euid s)), w)
      else if number = SYS_GETGID then (Inr (ucast (xs_gid s)), w)
      else if number = SYS_GETEGID then (Inr (ucast (xs_egid s)), w)
      else if number = SYS_GETRESUID then sys_getres args (xs_uid s) (xs_euid s) (xs_suid s) w
      else if number = SYS_GETRESGID then sys_getres args (xs_gid s) (xs_egid s) (xs_sgid s) w
      else if number = SYS_SETUID then exec_sys (sys_setuid args s) w
      else if number = SYS_SETGID then exec_sys (sys_setgid args s) w
      else if number = SYS_SETRESUID then exec_sys (sys_setresuid args s) w
      else if number = SYS_SETRESGID then exec_sys (sys_setresgid args s) w
      else if number = SYS_GETTID then (Inr (xs_current_pid s), w)
      else if number = SYS_GETRANDOM then dispatch_getrandom args w
      else if number = SYS_MEMBARRIER then exec_sys (dispatch_membarrier args s) w
      else if number = SYS_RSEQ then dispatch_rseq args w
      else if number = SYS_SIGALTSTACK then dispatch_sigaltstack args w
      else if number = SYS_SET_TID_ADDRESS then (Inr (xs_current_pid s), w\<lparr>w_exec := s\<lparr>xs_clear_child_tid := args ! 0\<rparr>\<rparr>)
      else if number = SYS_SET_ROBUST_LIST
      then (Inr 0, w\<lparr>w_exec := s\<lparr>xs_robust_list_head := args ! 0, xs_robust_list_len := args ! 1\<rparr>\<rparr>)
      else if number = SYS_FUTEX then (dispatch_futex s args, w)
      else if number = SYS_UNAME
      then store_or_fault (args ! 0) (trace_size 390) (write_guest_utsname (xs_memory s) (args ! 0)) w
      else if number = SYS_SYSINFO
      then store_or_fault (args ! 0) (trace_size 368) (write_guest_sysinfo (xs_memory s) (args ! 0) rt) w
      else if number = SYS_PRLIMIT64 then exec_sys (dispatch_prlimit64 args s) w
      else if number = SYS_CLOCK_GETTIME then sys_clock_gettime host args w
      else if number = SYS_FCNTL then in_world (dispatch_fcntl host args) w
      else if number = SYS_IOCTL then dispatch_ioctl args w
      else if number = SYS_WRITE then sys_write host args w
      else if number = SYS_READ then sys_read host args w
      else if number = SYS_DUP3 then in_world (dispatch_dup3 host args) w
      else if number = SYS_CLOSE then in_world (close_guest_fd host (args ! 0)) w
      else if number = SYS_PIPE2 then dispatch_pipe2 host args w
      else if number = SYS_LSEEK then sys_lseek host args w
      else if number = SYS_FSTAT then sys_fstat host args w
      else if number = SYS_NEWFSTATAT then dispatch_newfstatat host rt args w
      else if number = SYS_READLINKAT then dispatch_readlinkat host rt args w
      else if number = SYS_BRK then exec_sys (sys_brk args s) w
      else if number = SYS_MADVISE then (dispatch_madvise s args, w)
      else if number = SYS_MMAP then exec_sys (sys_mmap args s) w
      else if number = SYS_RT_SIGACTION then sys_rt_sigaction args w
      else if number = SYS_RT_SIGPROCMASK then sys_rt_sigprocmask args w
      else (Inl GUEST_ENOSYS, w))"

definition syscall_args :: "ExecState \<Rightarrow> u64 list" where
  "syscall_args s = map (read_reg s) [REG_A0, REG_A1, REG_A2, REG_A3, REG_A4, REG_A5]"

definition dispatch_syscall ::
  "'h Host \<Rightarrow> GuestRuntime \<Rightarrow> 'h World \<Rightarrow> ('h World, ExitSignal option) step_result" where
  "dispatch_syscall host rt w0 =
     (let s = w_exec w0; number = read_reg s REG_A7; args = syscall_args s;
          w = w0\<lparr>w_commit := record_src1 (record_src0 (w_commit w0) REG_A0 (args ! 0)) REG_A7 number\<rparr> in
      if number = SYS_EXIT \<or> number = SYS_EXIT_GROUP then StepOk w (Some (GuestExit (as_i32 (args ! 0))))
      else if number = SYS_OPENAT
      then (case sys_openat host rt args w of None \<Rightarrow> StepErr w | Some r \<Rightarrow> finalize_syscall r)
      else if number = SYS_MUNMAP
      then (case sys_munmap args s of None \<Rightarrow> StepPanic | Some r \<Rightarrow> finalize_syscall (exec_sys r w))
      else if number = SYS_MPROTECT
      then (case sys_mprotect args s of None \<Rightarrow> StepPanic | Some r \<Rightarrow> finalize_syscall (exec_sys r w))
      else finalize_syscall (plain_syscall host rt number args w))"

end
