(* ===== verification/Func_Exec.thy ===== *)
theory Func_Exec
  imports Func_Syscalls
begin

text \<open>
  The instructions of the functional engine (\<open>execute_step\<close> of \<^verbatim>\<open>crates/funcmodel/src/exec/mod.rs\<close>), one
  definition for each arm of its match, with the block and frame helpers they call. An instruction takes and
  returns the world (executor state, commit record, host state); it ends well, with an error that keeps the
  changes made before it, with a panic, or never. Arithmetic wraps as in a release build.
\<close>

unbundle bit_operations_syntax

section \<open>Steps that may fail\<close>

text \<open>The \<open>?\<close> on a missing field or a faulting access: the step ends with an error and keeps what it did.\<close>

definition require :: "'a option \<Rightarrow> 'w \<Rightarrow> ('a \<Rightarrow> ('w, 'b) step_result) \<Rightarrow> ('w, 'b) step_result" where
  "require x w k = (case x of None \<Rightarrow> StepErr w | Some v \<Rightarrow> k v)"

definition unpanic :: "'a option \<Rightarrow> ('a \<Rightarrow> ('w, 'b) step_result) \<Rightarrow> ('w, 'b) step_result" where
  "unpanic x k = (case x of None \<Rightarrow> StepPanic | Some v \<Rightarrow> k v)"

definition w_read :: "'h World \<Rightarrow> usize \<Rightarrow> u64" where
  "w_read w reg = read_reg (w_exec w) reg"

definition note_src0 :: "usize \<Rightarrow> u64 \<Rightarrow> 'h World \<Rightarrow> 'h World" where
  "note_src0 reg value w = w\<lparr>w_commit := record_src0 (w_commit w) reg value\<rparr>"

definition note_src1 :: "usize \<Rightarrow> u64 \<Rightarrow> 'h World \<Rightarrow> 'h World" where
  "note_src1 reg value w = w\<lparr>w_commit := record_src1 (w_commit w) reg value\<rparr>"

definition w_writeback :: "usize \<Rightarrow> u64 \<Rightarrow> 'h World \<Rightarrow> ('h World, unit) step_result" where
  "w_writeback reg value w =
     unpanic (writeback (w_exec w) (w_commit w) reg value) (\<lambda>(s, c). StepOk (w\<lparr>w_exec := s, w_commit := c\<rparr>) ())"

definition src_r_type :: "DecodedInstruction \<Rightarrow> u8" where
  "src_r_type d = ucast (unwrap_or (field_u d [''SrcRType'']) 3)"

section \<open>Immediates and arithmetic\<close>

definition exec_lui :: "DecodedInstruction \<Rightarrow> 'h World \<Rightarrow> ('h World, unit) step_result" where
  "exec_lui d w =
     require (reg_field d [''RegDst'']) w (\<lambda>rd.
     require (need_u d [''imm20'']) w (\<lambda>imm.
     w_writeback rd (push_bit 12 (func_sign_extend imm 20)) w))"

definition exec_hl_lui :: "DecodedInstruction \<Rightarrow> 'h World \<Rightarrow> ('h World, unit) step_result" where
  "exec_hl_lui d w =
     require (reg_field d [''RegDst'']) w (\<lambda>rd.
     require (need_u d [''imm'', ''uimm'']) w (\<lambda>imm. w_writeback rd imm w))"

definition exec_hl_lis :: "DecodedInstruction \<Rightarrow> 'h World \<Rightarrow> ('h World, unit) step_result" where
  "exec_hl_lis d w =
     require (reg_field d [''RegDst'']) w (\<lambda>rd.
     require (field_i d [''imm'', ''simm'']) w (\<lambda>imm. w_writeback rd (word_of_int imm) w))"

definition exec_addtpc :: "DecodedInstruction \<Rightarrow> 'h World \<Rightarrow> ('h World, unit) step_result" where
  "exec_addtpc d w =
     require (reg_field d [''RegDst'']) w (\<lambda>rd.
     require (need_u d [''imm20'']) w (\<lambda>imm.
     w_writeback rd ((xs_pc (w_exec w) AND NOT 0xfff) + push_bit 12 (func_sign_extend imm 20)) w))"

definition alu_value :: "string \<Rightarrow> u64 \<Rightarrow> u64 \<Rightarrow> u64" where
  "alu_value mnemonic lhs rhs =
     (if mnemonic = ''ADD'' then lhs + rhs
      else if mnemonic = ''SUB'' then lhs - rhs
      else if mnemonic = ''AND'' then lhs AND rhs
      else if mnemonic = ''OR'' then lhs OR rhs
      else lhs XOR rhs)"

definition alu_operand :: "string \<Rightarrow> u64 \<Rightarrow> u8 \<Rightarrow> u32 \<Rightarrow> u64" where
  "alu_operand mnemonic value src_type shamt =
     (if mnemonic \<in> {''AND'', ''OR'', ''XOR''} then apply_src_r_logic value src_type shamt
      else apply_src_r_addsub value src_type shamt)"

definition exec_alu :: "DecodedInstruction \<Rightarrow> 'h World \<Rightarrow> ('h World, unit) step_result" where
  "exec_alu d w =
     require (reg_field d [''RegDst'']) w (\<lambda>rd.
     require (reg_field d [''SrcL'']) w (\<lambda>lhs_reg.
     require (reg_field d [''SrcR'']) w (\<lambda>rhs_reg.
       let shamt = ucast (unwrap_or (field_u d [''shamt'']) 0); lhs = w_read w lhs_reg;
           rhs = alu_operand (di_mnemonic d) (w_read w rhs_reg) (src_r_type d) shamt
       in w_writeback rd (alu_value (di_mnemonic d) lhs rhs)
            (note_src1 rhs_reg (w_read w rhs_reg) (note_src0 lhs_reg lhs w)))))"

text \<open>The word forms have the names of the full ones with a \<open>W\<close> at the end.\<close>

definition exec_alu_w :: "DecodedInstruction \<Rightarrow> 'h World \<Rightarrow> ('h World, unit) step_result" where
  "exec_alu_w d w =
     require (reg_field d [''RegDst'']) w (\<lambda>rd.
     require (reg_field d [''SrcL'']) w (\<lambda>lhs_reg.
     require (reg_field d [''SrcR'']) w (\<lambda>rhs_reg.
       let shamt = ucast (unwrap_or (field_u d [''shamt'']) 0); lhs = w_read w lhs_reg;
           rhs = alu_operand (butlast (di_mnemonic d)) (w_read w rhs_reg) (src_r_type d) shamt
       in w_writeback rd (sign_extend32 (alu_value (butlast (di_mnemonic d)) lhs rhs))
            (note_src1 rhs_reg (w_read w rhs_reg) (note_src0 lhs_reg lhs w)))))"

definition narrow_w :: "string \<Rightarrow> u64 \<Rightarrow> u64" where
  "narrow_w mnemonic value = (if ends_with mnemonic ''W'' then sign_extend32 value else value)"

definition exec_addi :: "DecodedInstruction \<Rightarrow> 'h World \<Rightarrow> ('h World, unit) step_result" where
  "exec_addi d w =
     require (reg_field d [''RegDst'']) w (\<lambda>rd.
     require (reg_field d [''SrcL'']) w (\<lambda>lhs_reg.
       let lhs = w_read w lhs_reg in
     require (need_u d [''uimm12'', ''uimm24'', ''uimm'']) w (\<lambda>imm.
       let value = (if di_mnemonic d \<in> {''ADDI'', ''ADDIW'', ''HL.ADDI'', ''HL.ADDIW''} then lhs + imm else lhs - imm)
       in w_writeback rd (narrow_w (di_mnemonic d) value) (note_src0 lhs_reg lhs w))))"

definition logic_imm_value :: "string \<Rightarrow> u64 \<Rightarrow> u64 \<Rightarrow> u64" where
  "logic_imm_value mnemonic lhs imm =
     (if mnemonic \<in> {''ANDI'', ''ANDIW'', ''HL.ANDI'', ''HL.ANDIW''} then lhs AND imm
      else if mnemonic \<in> {''ORI'', ''ORIW'', ''HL.ORI'', ''HL.ORIW''} then lhs OR imm
      else lhs XOR imm)"

definition exec_logic_imm :: "DecodedInstruction \<Rightarrow> 'h World \<Rightarrow> ('h World, unit) step_result" where
  "exec_logic_imm d w =
     require (reg_field d [''RegDst'']) w (\<lambda>rd.
     require (reg_field d [''SrcL'']) w (\<lambda>lhs_reg.
       let lhs = w_read w lhs_reg in
     require (field_i d [''simm12'', ''simm24'', ''simm'']) w (\<lambda>imm.
       w_writeback rd (narrow_w (di_mnemonic d) (logic_imm_value (di_mnemonic d) lhs (word_of_int imm)))
         (note_src0 lhs_reg lhs w))))"

definition shift_value :: "string \<Rightarrow> u64 \<Rightarrow> nat \<Rightarrow> u64" where
  "shift_value mnemonic lhs shamt =
     (if mnemonic \<in> {''SLL'', ''SLLI''} then push_bit shamt lhs
      else if mnemonic \<in> {''SRL'', ''SRLI''} then drop_bit shamt lhs
      else signed_drop_bit shamt lhs)"

definition shift_value_w :: "string \<Rightarrow> u64 \<Rightarrow> nat \<Rightarrow> u64" where
  "shift_value_w mnemonic lhs shamt =
     (let low = ucast lhs :: u32 in
      if mnemonic \<in> {''SLLW'', ''SLLIW''} then ucast (push_bit shamt low)
      else if mnemonic \<in> {''SRLW'', ''SRLIW''} then ucast (drop_bit shamt low)
      else scast (signed_drop_bit shamt low))"

definition exec_shift :: "DecodedInstruction \<Rightarrow> 'h World \<Rightarrow> ('h World, unit) step_result" where
  "exec_shift d w =
     require (reg_field d [''RegDst'']) w (\<lambda>rd.
     require (reg_field d [''SrcL'']) w (\<lambda>lhs_reg.
     require (reg_field d [''SrcR'']) w (\<lambda>rhs_reg.
       let lhs = w_read w lhs_reg; shamt = unat (w_read w rhs_reg AND 0x3f)
       in w_writeback rd (shift_value (di_mnemonic d) lhs shamt)
            (note_src1 rhs_reg (w_read w rhs_reg) (note_src0 lhs_reg lhs w)))))"

definition exec_shift_w :: "DecodedInstruction \<Rightarrow> 'h World \<Rightarrow> ('h World, unit) step_result" where
  "exec_shift_w d w =
     require (reg_field d [''RegDst'']) w (\<lambda>rd.
     require (reg_field d [''SrcL'']) w (\<lambda>lhs_reg.
     require (reg_field d [''SrcR'']) w (\<lambda>rhs_reg.
       let lhs = w_read w lhs_reg; shamt = unat (w_read w rhs_reg AND 0x1f)
       in w_writeback rd (sign_extend32 (shift_value_w (di_mnemonic d) lhs shamt))
            (note_src1 rhs_reg (w_read w rhs_reg) (note_src0 lhs_reg lhs w)))))"

definition exec_shift_imm :: "DecodedInstruction \<Rightarrow> 'h World \<Rightarrow> ('h World, unit) step_result" where
  "exec_shift_imm d w =
     require (reg_field d [''RegDst'']) w (\<lambda>rd.
     require (reg_field d [''SrcL'']) w (\<lambda>lhs_reg.
       let lhs = w_read w lhs_reg in
     require (need_u d [''shamt'']) w (\<lambda>shamt.
       w_writeback rd (shift_value (di_mnemonic d) lhs (unat (shamt AND 0x3f))) (note_src0 lhs_reg lhs w))))"

definition exec_shift_imm_w :: "DecodedInstruction \<Rightarrow> 'h World \<Rightarrow> ('h World, unit) step_result" where
  "exec_shift_imm_w d w =
     require (reg_field d [''RegDst'']) w (\<lambda>rd.
     require (reg_field d [''SrcL'']) w (\<lambda>lhs_reg.
       let lhs = w_read w lhs_reg in
     require (need_u d [''shamt'']) w (\<lambda>shamt.
       w_writeback rd (sign_extend32 (shift_value_w (di_mnemonic d) lhs (unat (shamt AND 0x1f))))
         (note_src0 lhs_reg lhs w))))"

definition muldiv_value :: "string \<Rightarrow> u64 \<Rightarrow> u64 \<Rightarrow> u64" where
  "muldiv_value mnemonic lhs rhs =
     (if mnemonic = ''MUL'' then lhs * rhs
      else if mnemonic = ''DIV'' then signed_div lhs rhs
      else if mnemonic = ''DIVU'' then unsigned_div lhs rhs
      else if mnemonic = ''REM'' then signed_rem lhs rhs
      else unsigned_rem lhs rhs)"

definition muldiv_value_w :: "string \<Rightarrow> u64 \<Rightarrow> u64 \<Rightarrow> u64" where
  "muldiv_value_w mnemonic lhs rhs =
     (let lhs32 = ucast lhs :: u32; rhs32 = ucast rhs :: u32 in
      if mnemonic = ''MULW'' then ucast (lhs32 * rhs32)
      else if mnemonic = ''DIVW'' then signed_div (scast lhs32) (scast rhs32)
      else if mnemonic = ''DIVUW'' then unsigned_div (ucast lhs32) (ucast rhs32)
      else if mnemonic = ''REMW'' then signed_rem (scast lhs32) (scast rhs32)
      else unsigned_rem (ucast lhs32) (ucast rhs32))"

definition exec_muldiv :: "DecodedInstruction \<Rightarrow> 'h World \<Rightarrow> ('h World, unit) step_result" where
  "exec_muldiv d w =
     require (reg_field d [''RegDst'']) w (\<lambda>rd.
     require (reg_field d [''SrcL'']) w (\<lambda>lhs_reg.
     require (reg_field d [''SrcR'']) w (\<lambda>rhs_reg.
       let lhs = w_read w lhs_reg; rhs = w_read w rhs_reg
       in w_writeback rd (muldiv_value (di_mnemonic d) lhs rhs) (note_src1 rhs_reg rhs (note_src0 lhs_reg lhs w)))))"

definition exec_muldiv_w :: "DecodedInstruction \<Rightarrow> 'h World \<Rightarrow> ('h World, unit) step_result" where
  "exec_muldiv_w d w =
     require (reg_field d [''RegDst'']) w (\<lambda>rd.
     require (reg_field d [''SrcL'']) w (\<lambda>lhs_reg.
     require (reg_field d [''SrcR'']) w (\<lambda>rhs_reg.
       let lhs = w_read w lhs_reg; rhs = w_read w rhs_reg
       in w_writeback rd (sign_extend32 (muldiv_value_w (di_mnemonic d) lhs rhs))
            (note_src1 rhs_reg rhs (note_src0 lhs_reg lhs w)))))"

section \<open>Comparisons\<close>

text \<open>The comparison named by the last part of \<open>CMP.EQ\<close>, \<open>SETC.EQ\<close>, \<open>C.SETC.EQ\<close> and so on.\<close>

definition compare_op :: "string \<Rightarrow> u64 \<Rightarrow> u64 \<Rightarrow> bool" where
  "compare_op op lhs rhs =
     (if op = ''EQ'' then lhs = rhs
      else if op = ''NE'' then lhs \<noteq> rhs
      else if op = ''AND'' then lhs AND rhs \<noteq> 0
      else if op = ''OR'' then lhs OR rhs \<noteq> 0
      else if op = ''LT'' then sint lhs < sint rhs
      else if op = ''LTU'' then lhs < rhs
      else if op = ''GE'' then sint rhs \<le> sint lhs
      else rhs \<le> lhs)"

definition compare_operand :: "string \<Rightarrow> u64 \<Rightarrow> u8 \<Rightarrow> u64" where
  "compare_operand op value src_type =
     (if op = ''AND'' \<or> op = ''OR'' then apply_src_r_logic value src_type 0
      else apply_src_r_addsub value src_type 0)"

definition compare_imm :: "DecodedInstruction \<Rightarrow> string \<Rightarrow> u64 \<Rightarrow> bool option" where
  "compare_imm d op lhs =
     (let simm = field_i d [''simm12'']; uimm = need_u d [''uimm12''] in
      if op = ''EQI'' then map_option (\<lambda>imm. lhs = word_of_int imm) simm
      else if op = ''NEI'' then map_option (\<lambda>imm. lhs \<noteq> word_of_int imm) simm
      else if op = ''ANDI'' then map_option (\<lambda>imm. lhs AND word_of_int imm \<noteq> 0) simm
      else if op = ''ORI'' then map_option (\<lambda>imm. lhs OR word_of_int imm \<noteq> 0) simm
      else if op = ''LTI'' then map_option (\<lambda>imm. sint lhs < imm) simm
      else if op = ''GEI'' then map_option (\<lambda>imm. imm \<le> sint lhs) simm
      else if op = ''LTUI'' then map_option (\<lambda>imm. lhs < imm) uimm
      else map_option (\<lambda>imm. imm \<le> lhs) uimm)"

definition bool_word :: "bool \<Rightarrow> u64" where
  "bool_word b = (if b then 1 else 0)"

definition set_cond :: "bool \<Rightarrow> 'h World \<Rightarrow> 'h World" where
  "set_cond b w = w\<lparr>w_exec := (w_exec w)\<lparr>xs_cond := b, xs_carg := b\<rparr>\<rparr>"

definition exec_cmp :: "DecodedInstruction \<Rightarrow> 'h World \<Rightarrow> ('h World, unit) step_result" where
  "exec_cmp d w =
     require (reg_field d [''RegDst'']) w (\<lambda>rd.
     require (reg_field d [''SrcL'']) w (\<lambda>lhs_reg.
     require (reg_field d [''SrcR'']) w (\<lambda>rhs_reg.
       let lhs = w_read w lhs_reg; rhs_raw = w_read w rhs_reg; op = drop 4 (di_mnemonic d);
           rhs = compare_operand op rhs_raw (src_r_type d)
       in w_writeback rd (bool_word (compare_op op lhs rhs)) (note_src1 rhs_reg rhs_raw (note_src0 lhs_reg lhs w)))))"

definition exec_cmp_imm :: "DecodedInstruction \<Rightarrow> 'h World \<Rightarrow> ('h World, unit) step_result" where
  "exec_cmp_imm d w =
     require (reg_field d [''RegDst'']) w (\<lambda>rd.
     require (reg_field d [''SrcL'']) w (\<lambda>lhs_reg.
       let lhs = w_read w lhs_reg; w1 = note_src0 lhs_reg lhs w in
     require (compare_imm d (drop 4 (di_mnemonic d)) lhs) w1 (\<lambda>b. w_writeback rd (bool_word b) w1)))"

definition exec_setc :: "DecodedInstruction \<Rightarrow> 'h World \<Rightarrow> ('h World, unit) step_result" where
  "exec_setc d w =
     require (reg_field d [''SrcL'']) w (\<lambda>lhs_reg.
     require (reg_field d [''SrcR'']) w (\<lambda>rhs_reg.
       let lhs = w_read w lhs_reg; rhs_raw = w_read w rhs_reg; op = drop 5 (di_mnemonic d);
           rhs = compare_operand op rhs_raw (src_r_type d)
       in StepOk (set_cond (compare_op op lhs rhs) (note_src1 rhs_reg rhs_raw (note_src0 lhs_reg lhs w))) ()))"

definition exec_setc_imm :: "DecodedInstruction \<Rightarrow> 'h World \<Rightarrow> ('h World, unit) step_result" where
  "exec_setc_imm d w =
     require (reg_field d [''SrcL'']) w (\<lambda>lhs_reg.
       let lhs = w_read w lhs_reg; w1 = note_src0 lhs_reg lhs w in
     require (compare_imm d (drop 5 (di_mnemonic d)) lhs) w1 (\<lambda>b. StepOk (set_cond b w1) ()))"

definition exec_c_setc :: "DecodedInstruction \<Rightarrow> 'h World \<Rightarrow> ('h World, unit) step_result" where
  "exec_c_setc d w =
     require (reg_field d [''SrcL'']) w (\<lambda>lhs_reg.
     require (reg_field d [''SrcR'']) w (\<lambda>rhs_reg.
       let lhs = w_read w lhs_reg; rhs = w_read w rhs_reg
       in StepOk (set_cond (compare_op (drop 7 (di_mnemonic d)) lhs rhs)
            (note_src1 rhs_reg rhs (note_src0 lhs_reg lhs w))) ()))"

definition exec_setc_tgt :: "DecodedInstruction \<Rightarrow> 'h World \<Rightarrow> ('h World, unit) step_result" where
  "exec_setc_tgt d w =
     require (reg_field d [''SrcL'']) w (\<lambda>src_reg.
       let value = w_read w src_reg; w1 = set_cond True (note_src0 src_reg value w)
       in StepOk (w1\<lparr>w_exec := (w_exec w1)\<lparr>xs_target := value\<rparr>\<rparr>) ())"

definition exec_csel :: "DecodedInstruction \<Rightarrow> 'h World \<Rightarrow> ('h World, unit) step_result" where
  "exec_csel d w =
     require (reg_field d [''RegDst'']) w (\<lambda>rd.
     require (reg_field d [''SrcP'']) w (\<lambda>pred_reg.
     require (reg_field d [''SrcL'']) w (\<lambda>lhs_reg.
     require (reg_field d [''SrcR'']) w (\<lambda>rhs_reg.
       let lhs = w_read w lhs_reg; rhs = apply_src_r_addsub (w_read w rhs_reg) (src_r_type d) 0
       in w_writeback rd (if w_read w pred_reg \<noteq> 0 then rhs else lhs)
            (note_src1 rhs_reg (w_read w rhs_reg) (note_src0 lhs_reg lhs w))))))"

section \<open>Loads and stores\<close>

definition access_scale :: "string \<Rightarrow> int" where
  "access_scale mnemonic =
     (if mnemonic \<in> {''LHI'', ''LHUI'', ''SHI''} then 2
      else if mnemonic \<in> {''LWI'', ''LWUI'', ''SWI''} then 4
      else if mnemonic \<in> {''LDI'', ''SDI''} then 8
      else 1)"

text \<open>Loading, recording and writing back, and storing and recording.\<close>

definition finish_load :: "string \<Rightarrow> u64 \<Rightarrow> usize \<Rightarrow> 'h World \<Rightarrow> ('h World, unit) step_result" where
  "finish_load mnemonic addr rd w =
     require (load_value (w_memory w) mnemonic addr) w (\<lambda>value.
       w_writeback rd (lr_value value) (note_load addr (lr_raw value) (lr_size value) w))"

definition finish_store :: "string \<Rightarrow> u64 \<Rightarrow> u64 \<Rightarrow> u8 \<Rightarrow> 'h World \<Rightarrow> ('h World, unit) step_result" where
  "finish_store mnemonic addr value sz w =
     require (store_value (w_memory w) mnemonic addr value) w (\<lambda>m.
       StepOk (note_store addr value sz (set_memory m w)) ())"

definition exec_load_imm :: "DecodedInstruction \<Rightarrow> 'h World \<Rightarrow> ('h World, unit) step_result" where
  "exec_load_imm d w =
     require (reg_field d [''RegDst'']) w (\<lambda>rd.
     require (reg_field d [''SrcL'']) w (\<lambda>base_reg.
       let base = w_read w base_reg in
     require (field_i d [''simm12'']) w (\<lambda>simm.
       finish_load (di_mnemonic d) (base + word_of_int (simm * access_scale (di_mnemonic d))) rd
         (note_src0 base_reg base w))))"

definition exec_load :: "DecodedInstruction \<Rightarrow> 'h World \<Rightarrow> ('h World, unit) step_result" where
  "exec_load d w =
     require (reg_field d [''RegDst'']) w (\<lambda>rd.
     require (reg_field d [''SrcL'']) w (\<lambda>base_reg.
     require (reg_field d [''SrcR'']) w (\<lambda>idx_reg.
       let base = w_read w base_reg; idx_raw = w_read w idx_reg; shamt = ucast (unwrap_or (field_u d [''shamt'']) 0);
           idx = apply_src_r_addsub idx_raw (src_r_type d) shamt
       in finish_load (di_mnemonic d) (base + idx) rd (note_src1 idx_reg idx_raw (note_src0 base_reg base w)))))"

definition pair_offset :: "PairAccess \<Rightarrow> int \<Rightarrow> u64" where
  "pair_offset pair simm = word_of_int (if pa_unscaled pair then simm else simm * uint (pa_elem_size pair))"

definition exec_load_pair :: "DecodedInstruction \<Rightarrow> 'h World \<Rightarrow> ('h World, unit) step_result" where
  "exec_load_pair d w =
     require (reg_field d [''RegDst0'']) w (\<lambda>rd0.
     require (reg_field d [''RegDst1'']) w (\<lambda>rd1.
     require (reg_field d [''SrcL'']) w (\<lambda>base_reg.
       let base = w_read w base_reg in
     require (pair_access (di_mnemonic d)) w (\<lambda>pair.
     require (field_i d [''simm17'']) w (\<lambda>simm.
       let addr0 = base + pair_offset pair simm; addr1 = addr0 + ucast (pa_elem_size pair) in
     require (load_value (w_memory w) (pa_load_mnemonic pair) addr0) w (\<lambda>value0.
     require (load_value (w_memory w) (pa_load_mnemonic pair) addr1) w (\<lambda>value1.
       let w1 = note_load addr0 (lr_raw value0) (pa_elem_size pair * 2) (note_src0 base_reg base w) in
     unpanic (write_reg (w_exec w1) rd1 (lr_value value1)) (\<lambda>s.
       w_writeback rd0 (lr_value value0) (w1\<lparr>w_exec := s\<rparr>)))))))))"

definition exec_store_imm :: "DecodedInstruction \<Rightarrow> 'h World \<Rightarrow> ('h World, unit) step_result" where
  "exec_store_imm d w =
     require (reg_field d [''SrcL'']) w (\<lambda>src_reg.
     require (reg_field d [''SrcR'']) w (\<lambda>base_reg.
       let src_value = w_read w src_reg; base = w_read w base_reg in
     require (field_i d [''simm12'']) w (\<lambda>simm.
       finish_store (di_mnemonic d) (base + word_of_int (simm * access_scale (di_mnemonic d))) src_value
         (size_for_store (di_mnemonic d)) (note_src1 base_reg base (note_src0 src_reg src_value w)))))"

definition exec_store :: "DecodedInstruction \<Rightarrow> 'h World \<Rightarrow> ('h World, unit) step_result" where
  "exec_store d w =
     require (reg_field d [''SrcD'', ''SrcP'']) w (\<lambda>src_reg.
     require (reg_field d [''SrcL'']) w (\<lambda>base_reg.
     require (reg_field d [''SrcR'']) w (\<lambda>idx_reg.
       let src_value = w_read w src_reg; base = w_read w base_reg;
           shamt = ucast (unwrap_or (field_u d [''shamt'']) (ucast (size_shift_for_store (di_mnemonic d))));
           idx = apply_src_r_addsub (w_read w idx_reg) (src_r_type d) shamt
       in finish_store (di_mnemonic d) (base + idx) src_value (size_for_store (di_mnemonic d))
            (note_src1 base_reg base (note_src0 src_reg src_value w)))))"

definition exec_store_pair :: "DecodedInstruction \<Rightarrow> 'h World \<Rightarrow> ('h World, unit) step_result" where
  "exec_store_pair d w =
     require (reg_field d [''SrcD'']) w (\<lambda>src0_reg.
     require (reg_field d [''SrcD1'']) w (\<lambda>src1_reg.
     require (reg_field d [''SrcR'']) w (\<lambda>base_reg.
       let src0_value = w_read w src0_reg; src1_value = w_read w src1_reg; base = w_read w base_reg in
     require (pair_access (di_mnemonic d)) w (\<lambda>pair.
     require (field_i d [''simm17'']) w (\<lambda>simm.
       let addr0 = base + pair_offset pair simm; addr1 = addr0 + ucast (pa_elem_size pair);
           w1 = note_src1 src1_reg src1_value (note_src0 src0_reg src0_value w) in
     require (store_value (w_memory w1) (pa_store_mnemonic pair) addr0 src0_value) w1 (\<lambda>m1.
       let w2 = set_memory m1 w1 in
     require (store_value (w_memory w2) (pa_store_mnemonic pair) addr1 src1_value) w2 (\<lambda>m2.
       StepOk (note_store addr0 src0_value (pa_elem_size pair * 2) (set_memory m2 w2)) ())))))))"

section \<open>System registers, moves and the compressed forms\<close>

definition exec_ssrget :: "DecodedInstruction \<Rightarrow> 'h World \<Rightarrow> ('h World, unit) step_result" where
  "exec_ssrget d w =
     require (reg_field d [''RegDst'']) w (\<lambda>rd.
     require (need_u d [''SSR_ID'']) w (\<lambda>ssr.
       w_writeback rd (unwrap_or (bt_get (xs_ssr (w_exec w)) (ucast ssr)) 0) w))"

definition exec_ssrset :: "DecodedInstruction \<Rightarrow> 'h World \<Rightarrow> ('h World, unit) step_result" where
  "exec_ssrset d w =
     require (reg_field d [''SrcL'']) w (\<lambda>src_reg.
     require (need_u d [''SSR_ID'']) w (\<lambda>ssr.
       let value = w_read w src_reg; w1 = note_src0 src_reg value w
       in StepOk (w1\<lparr>w_exec := (w_exec w1)\<lparr>xs_ssr := bt_insert (ucast ssr) value (xs_ssr (w_exec w1))\<rparr>\<rparr>) ()))"

definition exec_c_ssrget :: "DecodedInstruction \<Rightarrow> 'h World \<Rightarrow> ('h World, unit) step_result" where
  "exec_c_ssrget d w =
     require (need_u d [''SrcL'']) w (\<lambda>ssr.
       w_writeback REG_IMPLICIT_T_DST (unwrap_or (bt_get (xs_ssr (w_exec w)) (ucast ssr)) 0) w)"

definition exec_c_movr :: "DecodedInstruction \<Rightarrow> 'h World \<Rightarrow> ('h World, unit) step_result" where
  "exec_c_movr d w =
     require (reg_field d [''RegDst'']) w (\<lambda>rd.
     require (reg_field d [''SrcL'']) w (\<lambda>src_reg.
       w_writeback rd (w_read w src_reg) (note_src0 src_reg (w_read w src_reg) w)))"

definition exec_c_movi :: "DecodedInstruction \<Rightarrow> 'h World \<Rightarrow> ('h World, unit) step_result" where
  "exec_c_movi d w =
     require (reg_field d [''RegDst'']) w (\<lambda>rd.
     require (field_i d [''simm5'']) w (\<lambda>imm. w_writeback rd (word_of_int imm) w))"

definition exec_c_addi :: "DecodedInstruction \<Rightarrow> 'h World \<Rightarrow> ('h World, unit) step_result" where
  "exec_c_addi d w =
     require (reg_field d [''SrcL'']) w (\<lambda>lhs_reg.
     require (field_i d [''simm5'']) w (\<lambda>imm.
       let lhs = w_read w lhs_reg
       in w_writeback REG_IMPLICIT_T_DST (lhs + word_of_int imm) (note_src0 lhs_reg lhs w)))"

definition exec_c_alu :: "DecodedInstruction \<Rightarrow> 'h World \<Rightarrow> ('h World, unit) step_result" where
  "exec_c_alu d w =
     require (reg_field d [''SrcL'']) w (\<lambda>lhs_reg.
     require (reg_field d [''SrcR'']) w (\<lambda>rhs_reg.
       let lhs = w_read w lhs_reg; rhs = w_read w rhs_reg;
           value = (if di_mnemonic d = ''C.ADD'' then lhs + rhs
                    else if di_mnemonic d = ''C.SUB'' then lhs - rhs
                    else if di_mnemonic d = ''C.AND'' then lhs AND rhs
                    else lhs OR rhs)
       in w_writeback REG_IMPLICIT_T_DST value (note_src1 rhs_reg rhs (note_src0 lhs_reg lhs w))))"

definition exec_c_shift :: "DecodedInstruction \<Rightarrow> 'h World \<Rightarrow> ('h World, unit) step_result" where
  "exec_c_shift d w =
     require (need_u d [''uimm5'']) w (\<lambda>uimm.
       let value = w_read w FREG_T1; shamt = unat (uimm AND 0x1f);
           out = (if di_mnemonic d = ''C.SLLI'' then push_bit shamt value else drop_bit shamt value)
       in w_writeback REG_IMPLICIT_T_DST out (note_src0 FREG_T1 value w))"

definition extend_value :: "string \<Rightarrow> u64 \<Rightarrow> u64" where
  "extend_value mnemonic value =
     (if mnemonic = ''C.ZEXT.B'' then ucast (ucast value :: u8)
      else if mnemonic = ''C.ZEXT.H'' then ucast (ucast value :: u16)
      else if mnemonic = ''C.ZEXT.W'' then ucast (ucast value :: u32)
      else if mnemonic = ''C.SEXT.B'' then scast (ucast value :: u8)
      else if mnemonic = ''C.SEXT.H'' then scast (ucast value :: u16)
      else sign_extend32 value)"

definition exec_c_extend :: "DecodedInstruction \<Rightarrow> 'h World \<Rightarrow> ('h World, unit) step_result" where
  "exec_c_extend d w =
     require (reg_field d [''SrcL'']) w (\<lambda>src_reg.
       let value = w_read w src_reg
       in w_writeback REG_IMPLICIT_T_DST (extend_value (di_mnemonic d) value) (note_src0 src_reg value w))"

definition exec_c_load :: "DecodedInstruction \<Rightarrow> 'h World \<Rightarrow> ('h World, unit) step_result" where
  "exec_c_load d w =
     require (reg_field d [''SrcL'']) w (\<lambda>base_reg.
     require (field_i d [''simm5'']) w (\<lambda>simm.
       let base = w_read w base_reg; wide = (di_mnemonic d = ''C.LDI'')
       in finish_load (if wide then ''LD'' else ''LW'') (base + word_of_int (simm * (if wide then 8 else 4)))
            REG_IMPLICIT_T_DST (note_src0 base_reg base w)))"

definition exec_c_store :: "DecodedInstruction \<Rightarrow> 'h World \<Rightarrow> ('h World, unit) step_result" where
  "exec_c_store d w =
     require (reg_field d [''SrcL'']) w (\<lambda>base_reg.
     require (field_i d [''simm5'']) w (\<lambda>simm.
       let base = w_read w base_reg; src_value = w_read w FREG_T1; wide = (di_mnemonic d = ''C.SDI'')
       in finish_store (if wide then ''SD'' else ''SW'') (base + word_of_int (simm * (if wide then 8 else 4))) src_value
            (if wide then 8 else 4) (note_src1 base_reg base (note_src0 FREG_T1 src_value w))))"

section \<open>Blocks and control flow\<close>

definition with_return_target :: "u64 \<Rightarrow> ExecState \<Rightarrow> ExecState" where
  "with_return_target target s =
     s\<lparr>xs_block := map_option (\<lambda>block. block\<lparr>bx_return_target := Some target\<rparr>) (xs_block s)\<rparr>"

definition set_return :: "u64 \<Rightarrow> 'h World \<Rightarrow> ('h World, unit) step_result" where
  "set_return target w =
     unpanic (writeback (w_exec w) (w_commit w) REG_RA target) (\<lambda>(s, c).
       StepOk (w\<lparr>w_exec := with_return_target target s, w_commit := c\<rparr>) ())"

definition exec_setret :: "DecodedInstruction \<Rightarrow> 'h World \<Rightarrow> ('h World, unit) step_result" where
  "exec_setret d w = require (need_u d [''imm20'']) w (\<lambda>imm. set_return (xs_pc (w_exec w) + push_bit 1 imm) w)"

definition exec_c_setret :: "DecodedInstruction \<Rightarrow> 'h World \<Rightarrow> ('h World, unit) step_result" where
  "exec_c_setret d w = require (need_u d [''uimm5'']) w (\<lambda>imm. set_return (xs_pc (w_exec w) + push_bit 1 imm) w)"

definition exec_hl_setret :: "DecodedInstruction \<Rightarrow> 'h World \<Rightarrow> ('h World, unit) step_result" where
  "exec_hl_setret d w =
     require (need_u d [''imm32'']) w (\<lambda>imm. set_return (xs_pc (w_exec w) + push_bit 1 (func_sign_extend imm 32)) w)"

definition doubled :: "int \<Rightarrow> u64" where
  "doubled offset = word_of_int (2 * offset)"

definition jump_to :: "u64 \<Rightarrow> string \<Rightarrow> 'h World \<Rightarrow> ('h World, StepOutcome) step_result" where
  "jump_to target cause w =
     StepOk (w\<lparr>w_commit := (w_commit w)\<lparr>cr_next_pc := target\<rparr>\<rparr>)
       \<lparr>so_next_pc = target, so_exit = None, so_retire_cause = cause\<rparr>"

definition exec_j :: "DecodedInstruction \<Rightarrow> 'h World \<Rightarrow> ('h World, StepOutcome) step_result" where
  "exec_j d w = require (field_i d [''simm22'']) w (\<lambda>simm. jump_to (xs_pc (w_exec w) + doubled simm) ''jump'' w)"

definition exec_jr :: "DecodedInstruction \<Rightarrow> 'h World \<Rightarrow> ('h World, StepOutcome) step_result" where
  "exec_jr d w =
     require (reg_field d [''SrcL'']) w (\<lambda>base_reg.
       let base = w_read w base_reg; w1 = note_src0 base_reg base w in
     require (field_i d [''simm12'']) w1 (\<lambda>simm. jump_to (base + doubled simm) ''jump_reg'' w1))"

text \<open>The kind of a block from its assembly text; the tests are made in the order of the source.\<close>

definition bstart_kind :: "string \<Rightarrow> BlockKind" where
  "bstart_kind asm =
     (if str_contains asm ''CALL'' then BkCall
      else if str_contains asm ''DIRECT'' then BkDirect
      else if str_contains asm ''COND'' then BkCond
      else if str_contains asm ''RET'' then BkRet
      else if str_contains asm ''ICALL'' then BkICall
      else if str_contains asm ''IND'' then BkInd
      else BkFall)"

definition exec_bstart :: "DecodedInstruction \<Rightarrow> 'h World \<Rightarrow> ('h World, unit) step_result" where
  "exec_bstart d w =
     (let pc = xs_pc (w_exec w); kind = bstart_kind (di_asm d) in
      if kind \<in> {BkCall, BkCond, BkDirect}
      then if di_mnemonic d = ''BSTART.STD''
           then require (field_i d [''simm17'']) w (\<lambda>simm.
                  StepOk (w\<lparr>w_exec := set_block (w_exec w) kind (Some (pc + doubled simm))\<rparr>) ())
           else require (field_i d [''simm'']) w (\<lambda>simm.
                  StepOk (w\<lparr>w_exec := set_block (w_exec w) kind (Some (pc + word_of_int simm))\<rparr>) ())
      else StepOk (w\<lparr>w_exec := set_block (w_exec w) kind None\<rparr>) ())"

definition start_call :: "u64 \<Rightarrow> u64 \<Rightarrow> 'h World \<Rightarrow> ('h World, unit) step_result" where
  "start_call target return_target w =
     unpanic (write_reg (set_block (w_exec w) BkCall (Some target)) REG_RA return_target) (\<lambda>s.
       StepOk (w\<lparr>w_exec := with_return_target return_target s,
                 w_commit := record_dst (w_commit w) REG_RA return_target\<rparr>) ())"

definition exec_bstart_call :: "DecodedInstruction \<Rightarrow> u64 \<Rightarrow> 'h World \<Rightarrow> ('h World, unit) step_result" where
  "exec_bstart_call d fallthrough w =
     (let pc = xs_pc (w_exec w) in
      if di_mnemonic d = ''BSTART CALL''
      then require (field_i d [''simm12'']) w (\<lambda>simm.
           require (need_u d [''uimm5'']) w (\<lambda>uimm. start_call (pc + doubled simm) (pc + push_bit 1 uimm) w))
      else require (field_i d [''simm25'']) w (\<lambda>simm. start_call (pc + word_of_int simm) fallthrough w))"

definition exec_c_bstart :: "DecodedInstruction \<Rightarrow> 'h World \<Rightarrow> ('h World, unit) step_result" where
  "exec_c_bstart d w =
     require (field_i d [''simm12'']) w (\<lambda>simm.
       StepOk (w\<lparr>w_exec := set_block (w_exec w) (if str_contains (di_asm d) ''COND'' then BkCond else BkDirect)
                 (Some (xs_pc (w_exec w) + doubled simm))\<rparr>) ())"

definition exec_c_bstart_std :: "DecodedInstruction \<Rightarrow> 'h World \<Rightarrow> ('h World, unit) step_result" where
  "exec_c_bstart_std d w =
     require (need_u d [''BrType'']) w (\<lambda>raw.
       let br_type = ucast raw :: u8;
           kind = (if br_type = 5 then BkInd else if br_type = 6 then BkICall else if br_type = 7 then BkRet else BkFall)
       in StepOk (w\<lparr>w_exec := set_block (w_exec w) kind None\<rparr>) ())"

definition end_block :: "ExecState \<Rightarrow> ExecState" where
  "end_block s = s\<lparr>xs_block := None, xs_cond := False, xs_carg := False, xs_target := 0\<rparr>"

definition default_return :: "BlockContext \<Rightarrow> u64 \<Rightarrow> ExecState \<Rightarrow> ExecState option" where
  "default_return block fallthrough s =
     (if bx_return_target block = None then write_reg s REG_RA fallthrough else Some s)"

definition resolve_block_end :: "ExecState \<Rightarrow> u64 \<Rightarrow> (ExecState \<times> u64) option" where
  "resolve_block_end s fallthrough =
     (case xs_block s of
        None \<Rightarrow> Some (end_block s, fallthrough)
      | Some block \<Rightarrow>
          (case bx_kind block of
             BkFall \<Rightarrow> Some (end_block s, fallthrough)
           | BkDirect \<Rightarrow> Some (end_block s, unwrap_or (bx_target block) fallthrough)
           | BkCond \<Rightarrow> Some (end_block s, if xs_cond s then unwrap_or (bx_target block) fallthrough else fallthrough)
           | BkCall \<Rightarrow> map_option (\<lambda>s'. (end_block s', unwrap_or (bx_target block) fallthrough))
                         (default_return block fallthrough s)
           | BkInd \<Rightarrow> Some (end_block s, xs_target s)
           | BkICall \<Rightarrow> map_option (\<lambda>s'. (end_block s', xs_target s)) (default_return block fallthrough s)
           | BkRet \<Rightarrow> Some (end_block s, if xs_target s \<noteq> 0 then xs_target s else read_reg s REG_RA)))"

definition exec_c_bstop :: "u64 \<Rightarrow> 'h World \<Rightarrow> ('h World, StepOutcome) step_result" where
  "exec_c_bstop fallthrough w =
     unpanic (resolve_block_end (w_exec w) fallthrough) (\<lambda>(s, next_pc).
       jump_to next_pc ''block_end'' (w\<lparr>w_exec := s\<rparr>))"

section \<open>Frames\<close>

text \<open>The loop never ends when the last register is not reached; then it has no value.\<close>

definition next_reg :: "usize \<Rightarrow> usize" where
  "next_reg current = (let n = (current + 1) mod 2 ^ 64 in if 23 < n then 2 else n)"

partial_function (option) wrapped_reg_loop :: "usize \<Rightarrow> usize \<Rightarrow> usize list \<Rightarrow> usize list option" where
  "wrapped_reg_loop current last_reg regs =
     (let regs' = regs @ [current] in
      if current = last_reg then Some regs' else wrapped_reg_loop (next_reg current) last_reg regs')"

definition wrapped_reg_sequence :: "usize \<Rightarrow> usize \<Rightarrow> usize list option" where
  "wrapped_reg_sequence first_reg last_reg = wrapped_reg_loop first_reg last_reg []"

text \<open>Saving stops with an error at the first failure; the memory written so far stays.\<close>

fun save_regs :: "u64 \<Rightarrow> u64 \<Rightarrow> (nat \<times> usize) list \<Rightarrow> ExecState \<Rightarrow> bool \<times> ExecState" where
  "save_regs new_sp stack_size [] s = (True, s)"
| "save_regs new_sp stack_size ((idx, reg) # rest) s =
     (if reg = REG_ZERO then save_regs new_sp stack_size rest s
      else if stack_size < word_of_nat (idx + 1) * 8 then (False, s)
      else case write_u64 (xs_memory s) (new_sp + (stack_size - word_of_nat (idx + 1) * 8)) (read_reg s reg) of
             None \<Rightarrow> (False, s)
           | Some m \<Rightarrow> save_regs new_sp stack_size rest (s\<lparr>xs_memory := m\<rparr>))"

definition apply_fentry :: "usize \<Rightarrow> usize \<Rightarrow> u64 \<Rightarrow> 'h World \<Rightarrow> ('h World, unit) step_result" where
  "apply_fentry first_reg last_reg stack_size w =
     (let old_sp = w_read w REG_SP in
      if old_sp < stack_size then StepErr w
      else case wrapped_reg_sequence first_reg last_reg of None \<Rightarrow> StepHang
      | Some regs \<Rightarrow>
          let new_sp = old_sp - stack_size;
              (ok, s) = save_regs new_sp stack_size (enumerate 0 regs) (w_exec w);
              w1 = w\<lparr>w_exec := s\<rparr>
          in if ok then w_writeback REG_SP new_sp w1 else StepErr w1)"

fun restore_regs :: "u64 \<Rightarrow> (nat \<times> usize) list \<Rightarrow> ExecState \<Rightarrow> (bool \<times> ExecState) option" where
  "restore_regs new_sp [] s = Some (True, s)"
| "restore_regs new_sp ((idx, reg) # rest) s =
     (if reg = REG_ZERO then restore_regs new_sp rest s
      else case read_u64 (xs_memory s) (new_sp - word_of_nat (idx + 1) * 8) of
             None \<Rightarrow> Some (False, s)
           | Some value \<Rightarrow> Option.bind (write_reg s reg value) (restore_regs new_sp rest))"

definition apply_fexit :: "usize \<Rightarrow> usize \<Rightarrow> u64 \<Rightarrow> 'h World \<Rightarrow> ('h World, unit) step_result" where
  "apply_fexit first_reg last_reg stack_size w =
     (let new_sp = w_read w REG_SP + stack_size in
      case wrapped_reg_sequence first_reg last_reg of None \<Rightarrow> StepHang
      | Some regs \<Rightarrow>
          unpanic (restore_regs new_sp (enumerate 0 regs) (w_exec w)) (\<lambda>(ok, s).
            let w1 = w\<lparr>w_exec := s\<rparr> in if ok then w_writeback REG_SP new_sp w1 else StepErr w1))"

text \<open>Continuing after a step.\<close>

definition and_then :: "('w, 'a) step_result \<Rightarrow> ('w \<Rightarrow> 'a \<Rightarrow> ('w, 'b) step_result) \<Rightarrow> ('w, 'b) step_result" where
  "and_then r k =
     (case r of StepOk w x \<Rightarrow> k w x | StepErr w \<Rightarrow> StepErr w | StepPanic \<Rightarrow> StepPanic | StepHang \<Rightarrow> StepHang)"

definition apply_fret_stk :: "usize \<Rightarrow> usize \<Rightarrow> u64 \<Rightarrow> 'h World \<Rightarrow> ('h World, u64) step_result" where
  "apply_fret_stk first_reg last_reg stack_size w =
     and_then (apply_fexit first_reg last_reg stack_size w) (\<lambda>w1 _.
       StepOk (w1\<lparr>w_exec := end_block (w_exec w1)\<rparr>) (w_read w1 REG_RA))"

definition apply_fret_ra :: "usize \<Rightarrow> usize \<Rightarrow> u64 \<Rightarrow> 'h World \<Rightarrow> ('h World, u64) step_result" where
  "apply_fret_ra first_reg last_reg stack_size w =
     and_then (apply_fexit first_reg last_reg stack_size w) (\<lambda>w1 _.
       StepOk (w1\<lparr>w_exec := end_block (w_exec w1)\<rparr>) (w_read w REG_RA))"

text \<open>The three fields of a frame instruction, with the names of its first and last register.\<close>

definition with_frame_fields ::
  "DecodedInstruction \<Rightarrow> string \<Rightarrow> string \<Rightarrow> 'h World \<Rightarrow>
   (usize \<Rightarrow> usize \<Rightarrow> u64 \<Rightarrow> 'h World \<Rightarrow> ('h World, 'a) step_result) \<Rightarrow> ('h World, 'a) step_result" where
  "with_frame_fields d first_name last_name w k =
     require (need_u d [first_name]) w (\<lambda>first_reg.
     require (need_u d [last_name]) w (\<lambda>last_reg.
     require (need_u d [''uimm'']) w (\<lambda>stack_size. k (unat first_reg) (unat last_reg) stack_size w)))"

definition exec_fret :: "DecodedInstruction \<Rightarrow> 'h World \<Rightarrow> ('h World, StepOutcome) step_result" where
  "exec_fret d w =
     (if di_mnemonic d = ''FRET.STK''
      then and_then (with_frame_fields d ''DstBegin'' ''DstEnd'' w apply_fret_stk) (\<lambda>w1 target. jump_to target ''fret_stk'' w1)
      else and_then (with_frame_fields d ''DstBegin'' ''DstEnd'' w apply_fret_ra) (\<lambda>w1 target. jump_to target ''fret_ra'' w1))"

section \<open>One step\<close>

definition exec_acrc ::
  "'h Host \<Rightarrow> GuestRuntime \<Rightarrow> DecodedInstruction \<Rightarrow> u64 \<Rightarrow> 'h World \<Rightarrow> ('h World, StepOutcome) step_result" where
  "exec_acrc host rt d fallthrough w =
     require (need_u d [''RST_Type'']) w (\<lambda>rst.
       if rst \<noteq> 1 then StepErr w
       else and_then (dispatch_syscall host rt w) (\<lambda>w1 exit.
         StepOk (w1\<lparr>w_commit := (w_commit w1)\<lparr>cr_next_pc := fallthrough\<rparr>\<rparr>)
           \<lparr>so_next_pc = fallthrough, so_exit = exit, so_retire_cause = ''syscall''\<rparr>))"

definition exec_ebreak :: "DecodedInstruction \<Rightarrow> u64 \<Rightarrow> 'h World \<Rightarrow> ('h World, StepOutcome) step_result" where
  "exec_ebreak d fallthrough w =
     StepOk (w\<lparr>w_commit := (w_commit w)\<lparr>cr_trap_valid := 1, cr_trap_cause := TRAP_SW_BREAKPOINT,
                 cr_traparg0 := di_instruction_bits d, cr_next_pc := fallthrough\<rparr>\<rparr>)
       \<lparr>so_next_pc = fallthrough, so_exit = Some Breakpoint, so_retire_cause = ''breakpoint''\<rparr>"

text \<open>The instructions that go on to the next one; no result for another mnemonic.\<close>

definition exec_plain ::
  "DecodedInstruction \<Rightarrow> u64 \<Rightarrow> 'h World \<Rightarrow> ('h World, unit) step_result option" where
  "exec_plain d fallthrough w =
     (let m = di_mnemonic d in
      if m = ''LUI'' then Some (exec_lui d w)
      else if m \<in> {''HL.LUI'', ''HL.LIU''} then Some (exec_hl_lui d w)
      else if m = ''HL.LIS'' then Some (exec_hl_lis d w)
      else if m = ''ADDTPC'' then Some (exec_addtpc d w)
      else if m \<in> {''ADD'', ''SUB'', ''AND'', ''OR'', ''XOR''} then Some (exec_alu d w)
      else if m \<in> {''ADDW'', ''SUBW'', ''ANDW'', ''ORW'', ''XORW''} then Some (exec_alu_w d w)
      else if m \<in> {''ADDI'', ''SUBI'', ''ADDIW'', ''SUBIW'', ''HL.ADDI'', ''HL.SUBI'', ''HL.ADDIW'', ''HL.SUBIW''}
      then Some (exec_addi d w)
      else if m \<in> {''ANDI'', ''ORI'', ''XORI'', ''ANDIW'', ''ORIW'', ''XORIW'', ''HL.ANDI'', ''HL.ORI'', ''HL.XORI'',
        ''HL.ANDIW'', ''HL.ORIW'', ''HL.XORIW''} then Some (exec_logic_imm d w)
      else if m \<in> {''SLL'', ''SRL'', ''SRA''} then Some (exec_shift d w)
      else if m \<in> {''SLLW'', ''SRLW'', ''SRAW''} then Some (exec_shift_w d w)
      else if m \<in> {''SLLI'', ''SRLI'', ''SRAI''} then Some (exec_shift_imm d w)
      else if m \<in> {''SLLIW'', ''SRLIW'', ''SRAIW''} then Some (exec_shift_imm_w d w)
      else if m \<in> {''MUL'', ''DIV'', ''DIVU'', ''REM'', ''REMU''} then Some (exec_muldiv d w)
      else if m \<in> {''MULW'', ''DIVW'', ''DIVUW'', ''REMW'', ''REMUW''} then Some (exec_muldiv_w d w)
      else if m \<in> {''CMP.EQ'', ''CMP.NE'', ''CMP.AND'', ''CMP.OR'', ''CMP.LT'', ''CMP.LTU'', ''CMP.GE'', ''CMP.GEU''}
      then Some (exec_cmp d w)
      else if m \<in> {''CMP.EQI'', ''CMP.NEI'', ''CMP.ANDI'', ''CMP.ORI'', ''CMP.LTI'', ''CMP.GEI'', ''CMP.LTUI'', ''CMP.GEUI''}
      then Some (exec_cmp_imm d w)
      else if m \<in> {''SETC.EQ'', ''SETC.NE'', ''SETC.AND'', ''SETC.OR'', ''SETC.LT'', ''SETC.LTU'', ''SETC.GE'', ''SETC.GEU''}
      then Some (exec_setc d w)
      else if m \<in> {''SETC.EQI'', ''SETC.NEI'', ''SETC.ANDI'', ''SETC.ORI'', ''SETC.LTI'', ''SETC.GEI'', ''SETC.LTUI'', ''SETC.GEUI''}
      then Some (exec_setc_imm d w)
      else if m \<in> {''C.SETC.EQ'', ''C.SETC.NE'', ''C.SETC.LT'', ''C.SETC.LTU'', ''C.SETC.GE'', ''C.SETC.GEU''}
      then Some (exec_c_setc d w)
      else if m \<in> {''SETC.TGT'', ''C.SETC.TGT''} then Some (exec_setc_tgt d w)
      else if m = ''CSEL'' then Some (exec_csel d w)
      else if m \<in> {''LBI'', ''LBUI'', ''LHI'', ''LHUI'', ''LWI'', ''LWUI'', ''LDI''} then Some (exec_load_imm d w)
      else if m \<in> {''LB'', ''LBU'', ''LH'', ''LHU'', ''LW'', ''LWU'', ''LD''} then Some (exec_load d w)
      else if m \<in> {''HL.LBIP'', ''HL.LBUIP'', ''HL.LHIP'', ''HL.LHIP.U'', ''HL.LHUIP'', ''HL.LHUIP.U'', ''HL.LWIP'',
        ''HL.LWIP.U'', ''HL.LWUIP'', ''HL.LWUIP.U'', ''HL.LDIP'', ''HL.LDIP.U''} then Some (exec_load_pair d w)
      else if m \<in> {''SBI'', ''SHI'', ''SWI'', ''SDI''} then Some (exec_store_imm d w)
      else if m \<in> {''SB'', ''SH'', ''SW'', ''SD''} then Some (exec_store d w)
      else if m \<in> {''HL.SBIP'', ''HL.SHIP'', ''HL.SHIP.U'', ''HL.SWIP'', ''HL.SWIP.U'', ''HL.SDIP'', ''HL.SDIP.U''}
      then Some (exec_store_pair d w)
      else if m = ''SSRGET'' then Some (exec_ssrget d w)
      else if m = ''SSRSET'' then Some (exec_ssrset d w)
      else if m = ''C.SSRGET'' then Some (exec_c_ssrget d w)
      else if m = ''C.MOVR'' then Some (exec_c_movr d w)
      else if m = ''C.MOVI'' then Some (exec_c_movi d w)
      else if m = ''C.ADDI'' then Some (exec_c_addi d w)
      else if m \<in> {''C.ADD'', ''C.SUB'', ''C.AND'', ''C.OR''} then Some (exec_c_alu d w)
      else if m \<in> {''C.SLLI'', ''C.SRLI''} then Some (exec_c_shift d w)
      else if m \<in> {''C.ZEXT.B'', ''C.ZEXT.H'', ''C.ZEXT.W'', ''C.SEXT.B'', ''C.SEXT.H'', ''C.SEXT.W''}
      then Some (exec_c_extend d w)
      else if m \<in> {''C.LWI'', ''C.LDI''} then Some (exec_c_load d w)
      else if m \<in> {''C.SWI'', ''C.SDI''} then Some (exec_c_store d w)
      else if m = ''SETRET'' then Some (exec_setret d w)
      else if m = ''C.SETRET'' then Some (exec_c_setret d w)
      else if m = ''HL.SETRET'' then Some (exec_hl_setret d w)
      else if m \<in> {''BSTART.STD'', ''HL.BSTART.STD'', ''HL.BSTART.FP'', ''HL.BSTART.SYS''} then Some (exec_bstart d w)
      else if m \<in> {''BSTART CALL'', ''HL.BSTART.CALL''} then Some (exec_bstart_call d fallthrough w)
      else if m = ''C.BSTART'' then Some (exec_c_bstart d w)
      else if m = ''C.BSTART.STD'' then Some (exec_c_bstart_std d w)
      else if m = ''FENTRY'' then Some (with_frame_fields d ''SrcBegin'' ''SrcEnd'' w apply_fentry)
      else if m = ''FEXIT'' then Some (with_frame_fields d ''DstBegin'' ''DstEnd'' w apply_fexit)
      else None)"

definition execute_step ::
  "'h Host \<Rightarrow> GuestRuntime \<Rightarrow> DecodedInstruction \<Rightarrow> 'h World \<Rightarrow> ('h World, StepOutcome) step_result" where
  "execute_step host rt d w =
     (let m = di_mnemonic d; fallthrough = xs_pc (w_exec w) + word_of_nat (length_bytes d) in
      case exec_plain d fallthrough w of
        Some r \<Rightarrow> and_then r (\<lambda>w1 _. jump_to fallthrough ''execute'' w1)
      | None \<Rightarrow>
          if m = ''J'' then exec_j d w
          else if m = ''JR'' then exec_jr d w
          else if m = ''C.BSTOP'' then exec_c_bstop fallthrough w
          else if m \<in> {''FRET.STK'', ''FRET.RA''} then exec_fret d w
          else if m = ''ACRC'' then exec_acrc host rt d fallthrough w
          else if m \<in> {''EBREAK'', ''C.EBREAK''} then exec_ebreak d fallthrough w
          else if m = ''C.BSTART.STD RET'' then StepPanic
          else StepErr w)"

section \<open>The registers of a frame\<close>

lemma wrapped_reg_loop_up:
  assumes "c \<le> e" "e \<le> 23"
  shows "wrapped_reg_loop c e acc = Some (acc @ [c ..< e + 1])"
  using assms
proof (induction "e - c" arbitrary: c acc)
  case 0
  then show ?case by (subst wrapped_reg_loop.simps) simp
next
  case (Suc n)
  then have "c \<noteq> e" "next_reg c = c + 1" "[c ..< e + 1] = c # [c + 1 ..< e + 1]"
    by (auto simp: next_reg_def upt_conv_Cons)
  moreover have "wrapped_reg_loop (c + 1) e (acc @ [c]) = Some (acc @ [c] @ [c + 1 ..< e + 1])"
    using Suc by simp
  ultimately show ?case by (subst wrapped_reg_loop.simps) simp
qed

lemma wrapped_reg_loop_wrap:
  assumes "e < c" "c \<le> 23" "2 \<le> e"
  shows "wrapped_reg_loop c e acc = Some (acc @ [c ..< 24] @ [2 ..< e + 1])"
  using assms
proof (induction "23 - c" arbitrary: c acc)
  case 0
  then have "c = 23" by simp
  moreover have "wrapped_reg_loop 2 e (acc @ [23]) = Some ((acc @ [23]) @ [2 ..< e + 1])"
    using 0 by (intro wrapped_reg_loop_up) simp_all
  moreover have "[23 ..< 24] = [23::nat]" by (simp add: upt_rec)
  ultimately show ?case using 0 by (subst wrapped_reg_loop.simps) (simp add: next_reg_def)
next
  case (Suc n)
  then have "next_reg c = c + 1" "[c ..< 24] = c # [c + 1 ..< 24]" by (auto simp: next_reg_def upt_conv_Cons)
  moreover have "wrapped_reg_loop (c + 1) e (acc @ [c]) = Some ((acc @ [c]) @ [c + 1 ..< 24] @ [2 ..< e + 1])"
    using Suc by (intro Suc.hyps) simp_all
  ultimately show ?case using Suc by (subst wrapped_reg_loop.simps) simp
qed

text \<open>What the loop reaches; anything else it searches for ever.\<close>

lemma wrapped_reg_loop_reaches:
  assumes "wrapped_reg_loop c e acc = Some regs"
  shows "c < 2 ^ 64 - 1 \<longrightarrow> e = c \<or> 2 \<le> e \<and> e \<le> 23 \<or> c \<le> e \<and> e \<le> 23"
  using assms
proof (rule wrapped_reg_loop.raw_induct [of "\<lambda>c e acc _. c < 2 ^ 64 - 1 \<longrightarrow> e = c \<or> 2 \<le> e \<and> e \<le> 23 \<or> c \<le> e \<and> e \<le> 23", rotated])
  fix f :: "nat \<Rightarrow> nat \<Rightarrow> nat list \<Rightarrow> nat list option" and c e acc y
  assume ih: "\<And>c e acc y. f c e acc = Some y \<Longrightarrow> c < 2 ^ 64 - 1 \<longrightarrow> e = c \<or> 2 \<le> e \<and> e \<le> 23 \<or> c \<le> e \<and> e \<le> 23"
    and y: "(let regs' = acc @ [c] in if c = e then Some regs' else f (next_reg c) e regs') = Some y"
  show "c < 2 ^ 64 - 1 \<longrightarrow> e = c \<or> 2 \<le> e \<and> e \<le> 23 \<or> c \<le> e \<and> e \<le> 23"
  proof (cases "c = e")
    case False
    with y ih [of "next_reg c" e "acc @ [c]" y] show ?thesis by (auto simp: next_reg_def Let_def split: if_splits)
  qed simp
qed

lemma wrapped_reg_sequence_reached:
  assumes "b < 32" "e = b \<or> 2 \<le> e \<and> e \<le> 23 \<or> b \<le> e \<and> e \<le> 23"
  shows "wrapped_reg_sequence b e = Some (if b \<le> e \<and> e \<le> 23 \<or> e = b then [b ..< e + 1]
     else (if b \<le> 23 then [b ..< 24] else [b]) @ [2 ..< e + 1])"
proof -
  consider "e = b" | "e \<noteq> b" "b \<le> e" "e \<le> 23" | "e < b" "2 \<le> e" "e \<le> 23" "b \<le> 23" | "e < b" "2 \<le> e" "e \<le> 23" "23 < b"
    using assms(2) by linarith
  then show ?thesis
  proof cases
    case 4
    then have "next_reg b = 2" using assms by (simp add: next_reg_def)
    then show ?thesis using 4 wrapped_reg_loop_up [of 2 e "[b]"]
      by (simp add: wrapped_reg_sequence_def wrapped_reg_loop.simps [of b])
  qed (use wrapped_reg_loop_up [of b e "[]"] wrapped_reg_loop_wrap [of e b "[]"] in
    \<open>simp_all add: wrapped_reg_sequence_def wrapped_reg_loop.simps [of b b]\<close>)
qed

text \<open>C24: the registers a frame instruction names. For register fields the sequence runs from the first
  register up to the last, wrapping from 23 to 2; when the last one is not on that way, which is so exactly for
  a last register above 23 other than the first and for a last register 0 or 1 below the first, the loop does
  not end.\<close>

theorem wrapped_reg_sequence_spec:
  assumes "b < 32"
  shows "wrapped_reg_sequence b e =
     (if b \<le> e \<and> e \<le> 23 \<or> e = b then Some [b ..< e + 1]
      else if 2 \<le> e \<and> e \<le> 23 then Some ((if b \<le> 23 then [b ..< 24] else [b]) @ [2 ..< e + 1])
      else None)"
proof (cases "e = b \<or> 2 \<le> e \<and> e \<le> 23 \<or> b \<le> e \<and> e \<le> 23")
  case True
  then show ?thesis using wrapped_reg_sequence_reached [OF assms True] by auto
next
  case False
  then have "wrapped_reg_sequence b e = None"
    using wrapped_reg_loop_reaches [of b e "[]"] assms
    by (cases "wrapped_reg_sequence b e") (auto simp: wrapped_reg_sequence_def)
  then show ?thesis using False by auto
qed

lemma wrapped_reg_sequence_spec_witness:
  "wrapped_reg_sequence 22 3 = Some [22, 23, 2, 3] \<and> wrapped_reg_sequence 5 1 = None"
  using wrapped_reg_sequence_spec [of 22 3] wrapped_reg_sequence_spec [of 5 1] by (simp add: upt_rec)

section \<open>Saving and restoring a frame\<close>

lemma read_reg_memory [simp]: "read_reg (s\<lparr>xs_memory := m\<rparr>) r = read_reg s r"
  by (simp add: read_reg_def)

definition frame_slots :: "u64 \<Rightarrow> (nat \<times> usize) list \<Rightarrow> ExecState \<Rightarrow> (u64 \<times> u8 list) list" where
  "frame_slots old_sp entries s =
     map (\<lambda>(idx, reg). (old_sp - word_of_nat (idx + 1) * 8, to_le_bytes (read_reg s reg)))
       (filter (\<lambda>e. snd e \<noteq> REG_ZERO) entries)"

lemma save_regs_slots:
  assumes "save_regs (old_sp - sz) sz entries s = (True, s')"
  shows "\<exists>m. s' = s\<lparr>xs_memory := m\<rparr> \<and> raw.write_all (frame_slots old_sp entries s) (xs_memory s) = Some m"
    and "list_all (\<lambda>e. snd e \<noteq> REG_ZERO \<longrightarrow> word_of_nat (fst e + 1) * 8 \<le> sz) entries"
  using assms
proof (induction entries arbitrary: s)
  case (Cons e entries)
  obtain idx reg where e: "e = (idx, reg)" by force
  {
    case 1
    show ?case
    proof (cases "reg = REG_ZERO")
      case True
      then show ?thesis using Cons.IH(1) 1 by (simp add: e frame_slots_def)
    next
      case False
      then obtain m where m: "write_u64 (xs_memory s) (old_sp - word_of_nat (idx + 1) * 8) (read_reg s reg) = Some m"
        and s': "save_regs (old_sp - sz) sz entries (s\<lparr>xs_memory := m\<rparr>) = (True, s')"
        using 1 by (auto simp: e algebra_simps split: if_splits option.splits)
      from Cons.IH(1) [OF s'] show ?thesis using False m
        by (auto simp: e frame_slots_def write_u64_def)
    qed
  next
    case 2
    then show ?case using Cons.IH(2) by (auto simp: e not_less split: if_splits option.splits)
  }
qed (simp_all add: frame_slots_def)

lemma slot_address:
  fixes sp :: u64
  assumes "8 * (i + 1) \<le> unat sp"
  shows "unat (sp - word_of_nat (i + 1) * 8) = unat sp - 8 * (i + 1)"
proof -
  have "8 * (i + 1) < 2 ^ 64" using assms u64_bound [of sp] by linarith
  then have k: "unat (word_of_nat (i + 1) * 8 :: u64) = 8 * (i + 1)"
    by (simp add: unat_word_ariths unsigned_of_nat take_bit_nat_eq_self)
  then have "word_of_nat (i + 1) * 8 \<le> sp" using assms by (simp add: word_le_nat_alt)
  then show ?thesis using k by (simp add: unat_sub)
qed

lemma slots_stacked:
  assumes "sorted_wrt (<) (map fst entries)" "list_all (\<lambda>e. 8 * (fst e + 1) \<le> unat sp) (filter (\<lambda>e. snd e \<noteq> REG_ZERO) entries)"
  shows "stacked (frame_slots sp entries s) 0 (unat sp)"
  using assms
proof (induction entries)
  case (Cons e entries)
  obtain idx reg where e: "e = (idx, reg)" by force
  have "apart (sp - word_of_nat (idx + 1) * 8) 8 (sp - word_of_nat (i + 1) * 8) 8"
    if "(i, r) \<in> set entries" "r \<noteq> REG_ZERO" "reg \<noteq> REG_ZERO" for i r
  proof -
    have o: "idx < i" and i: "8 * (i + 1) \<le> unat sp" and j: "8 * (idx + 1) \<le> unat sp"
      using Cons.prems that by (force simp: e list_all_iff)+
    show ?thesis unfolding apart_def slot_address [OF i] slot_address [OF j] using o i by arith
  qed
  moreover have "stacked (frame_slots sp entries s) 0 (unat sp)"
    using Cons.prems by (intro Cons.IH) (auto split: if_splits)
  moreover have "unat (sp - word_of_nat (idx + 1) * 8) + 8 \<le> unat sp" if "reg \<noteq> REG_ZERO"
    using Cons.prems(2) that slot_address [of idx sp] by (simp add: e)
  ultimately show ?case using Cons.prems
    by (auto simp: e frame_slots_def stacked_def raw.all_apart_def raw.short_def list_all_iff slot_address simp del: of_nat_add)
qed (simp add: frame_slots_def stacked_Nil)
lemma restore_regs_slots:
  assumes "\<And>idx reg. (idx, reg) \<in> set entries \<Longrightarrow> reg \<noteq> REG_ZERO \<Longrightarrow>
      read_u64 (xs_memory s) (sp - word_of_nat (idx + 1) * 8) = Some (old reg) \<and> reg < length (xs_regs s)"
  shows "\<exists>s'. restore_regs sp entries s = Some (True, s') \<and> xs_memory s' = xs_memory s \<and>
    length (xs_regs s') = length (xs_regs s) \<and>
    (\<forall>r. r \<noteq> REG_ZERO \<longrightarrow> read_reg s' r = (if r \<in> snd ` set entries then old r else read_reg s r))"
  using assms
proof (induction entries arbitrary: s)
  case (Cons e entries)
  obtain idx reg where e: "e = (idx, reg)" by force
  show ?case
  proof (cases "reg = REG_ZERO")
    case True
    then show ?thesis using Cons.IH [of s] Cons.prems by (auto simp: e)
  next
    case False
    define t where "t = s\<lparr>xs_regs := ((xs_regs s)[reg := old reg])[REG_ZERO := 0]\<rparr>"
    have w: "write_reg s reg (old reg) = Some t" "read_u64 (xs_memory s) (sp - word_of_nat (idx + 1) * 8) = Some (old reg)"
      using False Cons.prems [of idx reg] by (auto simp: e write_reg_def t_def)
    have t: "read_reg t r = (if r = reg then old r else read_reg s r)" if "r \<noteq> REG_ZERO" for r
      using that False Cons.prems [of idx reg] by (auto simp: e t_def read_reg_def nth_list_update)
    have m: "xs_memory t = xs_memory s" "length (xs_regs t) = length (xs_regs s)" by (simp_all add: t_def)
    have step: "restore_regs sp (e # entries) s = restore_regs sp entries t" using False w by (simp add: e)
    obtain s' where "restore_regs sp entries t = Some (True, s')" "xs_memory s' = xs_memory t"
      "length (xs_regs s') = length (xs_regs t)"
      "\<And>r. r \<noteq> REG_ZERO \<Longrightarrow> read_reg s' r = (if r \<in> snd ` set entries then old r else read_reg t r)"
      using Cons.IH [of t] Cons.prems m by auto
    then show ?thesis unfolding step using m t by (auto simp: e)
  qed
qed simp

lemma write_reg_read:
  "write_reg s reg v = Some s' \<Longrightarrow> reg \<noteq> REG_ZERO \<Longrightarrow> r \<noteq> REG_ZERO \<Longrightarrow> read_reg s' r = (if r = reg then v else read_reg s r)"
  by (auto simp: write_reg_def read_reg_def nth_list_update split: if_splits)

lemma w_writeback_sp:
  assumes "length (xs_regs (w_exec w)) = 32"
  shows "\<exists>w'. w_writeback REG_SP v w = StepOk w' () \<and> xs_memory (w_exec w') = xs_memory (w_exec w) \<and>
    length (xs_regs (w_exec w')) = 32 \<and>
    (\<forall>r. r \<noteq> REG_ZERO \<longrightarrow> w_read w' r = (if r = REG_SP then v else w_read w r))"
proof -
  obtain s where s: "write_reg (w_exec w) REG_SP v = Some s" using assms by (auto simp: write_reg_def reg_defs)
  then have "xs_memory s = xs_memory (w_exec w)" "length (xs_regs s) = 32"
    using assms by (auto simp: write_reg_def split: if_splits)
  then show ?thesis using s write_reg_read [OF s]
    by (simp add: w_writeback_def writeback_def unpanic_def w_read_def REG_SP_def REG_ZERO_def REG_IMPLICIT_T_DST_def
        REG_IMPLICIT_U_DST_def FREG_U3_def FREG_U4_def)
qed

lemma apply_fentry_cases:
  assumes "apply_fentry b e sz w = StepOk w1 ()" "length (xs_regs (w_exec w)) = 32"
  obtains regs s where "sz \<le> w_read w REG_SP" "wrapped_reg_sequence b e = Some regs"
    "save_regs (w_read w REG_SP - sz) sz (enumerate 0 regs) (w_exec w) = (True, s)"
    "xs_memory (w_exec w1) = xs_memory s" "w_read w1 REG_SP = w_read w REG_SP - sz"
    "length (xs_regs (w_exec w1)) = 32"
proof -
  from assms(1) obtain regs s where f: "sz \<le> w_read w REG_SP" "wrapped_reg_sequence b e = Some regs"
    "save_regs (w_read w REG_SP - sz) sz (enumerate 0 regs) (w_exec w) = (True, s)"
    "w_writeback REG_SP (w_read w REG_SP - sz) (w\<lparr>w_exec := s\<rparr>) = StepOk w1 ()"
    by (auto simp: apply_fentry_def Let_def not_less split: if_splits option.splits prod.splits)
  have "length (xs_regs s) = 32" using save_regs_slots(1) [OF f(3)] assms(2) by auto
  then have "xs_memory (w_exec w1) = xs_memory s \<and> w_read w1 REG_SP = w_read w REG_SP - sz \<and> length (xs_regs (w_exec w1)) = 32"
    using w_writeback_sp [of "w\<lparr>w_exec := s\<rparr>" "w_read w REG_SP - sz"] f(4) by (auto simp: REG_SP_def REG_ZERO_def)
  with f that show ?thesis by blast
qed

lemma wrapped_reg_sequence_short: "b < 32 \<Longrightarrow> wrapped_reg_sequence b e = Some regs \<Longrightarrow> length regs \<le> 46"
  using wrapped_reg_sequence_reached [of b e] wrapped_reg_loop_reaches [of b e "[]" regs]
  by (auto simp: wrapped_reg_sequence_def split: if_splits)

lemma fentry_slots_read:
  assumes "save_regs (sp - sz) sz (enumerate 0 regs) s = (True, s')" "sz \<le> sp" "length regs \<le> 46"
    "i < length regs" "regs ! i \<noteq> REG_ZERO"
  shows "read_u64 (xs_memory s') (sp - word_of_nat (i + 1) * 8) = Some (read_reg s (regs ! i))"
proof -
  let ?L = "enumerate 0 regs"
  note sv = save_regs_slots [OF assms(1)]
  obtain m where m: "s' = s\<lparr>xs_memory := m\<rparr>" "raw.write_all (frame_slots sp ?L s) (xs_memory s) = Some m" using sv(1) by blast
  have "8 * (k + 1) \<le> unat sp" if k: "(k, r) \<in> set ?L" "r \<noteq> REG_ZERO" for k r
  proof -
    have "k < 46" using k(1) assms(3) by (auto simp: in_set_enumerate_eq)
    then have u: "unat (word_of_nat (k + 1) * 8 :: u64) = 8 * (k + 1)"
      by (simp add: unat_word_ariths unsigned_of_nat take_bit_nat_eq_self)
    have "word_of_nat (k + 1) * 8 \<le> sz" using sv(2) k by (auto simp: list_all_iff)
    then show ?thesis using u assms(2) unfolding word_le_nat_alt by linarith
  qed
  then have "stacked (frame_slots sp ?L s) 0 (unat sp)"
    by (intro slots_stacked) (auto simp: list_all_iff sorted_wrt_upt enumerate_eq_zip)
  moreover have "(sp - word_of_nat (i + 1) * 8, to_le_bytes (read_reg s (regs ! i))) \<in> set (frame_slots sp ?L s)"
    using assms(4,5) unfolding frame_slots_def set_map set_filter
    by (intro image_eqI [of _ _ "(i, regs ! i)"]) (auto simp: in_set_enumerate_eq)
  ultimately have "read_bytes m (sp - word_of_nat (i + 1) * 8) 8 = Some (to_le_bytes (read_reg s (regs ! i)))"
    using stacked_reads [OF m(2), of 0 "unat sp"] by force
  then show ?thesis unfolding m(1) by (intro read_u64_of_bytes) simp
qed

text \<open>C22: a frame is restored. If \<open>FENTRY\<close> succeeds and the body of the function leaves the memory and the stack
  pointer as it found them, then \<open>FEXIT\<close> with the same operands succeeds, gives every register of the frame and
  the stack pointer the value it had before \<open>FENTRY\<close>, and leaves the other registers and the memory to the
  body.\<close>

theorem frame_round_trip:
  assumes "apply_fentry b e sz w = StepOk w1 ()" and "b < 32" and "length (xs_regs (w_exec w)) = 32"
    and "xs_memory (w_exec w2) = xs_memory (w_exec w1)" and "w_read w2 REG_SP = w_read w1 REG_SP"
    and "length (xs_regs (w_exec w2)) = 32"
  shows "\<exists>regs w3. wrapped_reg_sequence b e = Some regs \<and> apply_fexit b e sz w2 = StepOk w3 () \<and>
     xs_memory (w_exec w3) = xs_memory (w_exec w2) \<and> w_read w3 REG_SP = w_read w REG_SP \<and>
     (\<forall>r. r \<noteq> REG_ZERO \<and> r \<noteq> REG_SP \<longrightarrow> w_read w3 r = (if r \<in> set regs then w_read w r else w_read w2 r))"
proof -
  obtain regs s where f: "sz \<le> w_read w REG_SP" "wrapped_reg_sequence b e = Some regs"
    "save_regs (w_read w REG_SP - sz) sz (enumerate 0 regs) (w_exec w) = (True, s)"
    "xs_memory (w_exec w1) = xs_memory s" "w_read w1 REG_SP = w_read w REG_SP - sz"
    by (rule apply_fentry_cases [OF assms(1,3)]) (rule that)
  let ?sp = "w_read w REG_SP"
  have sp: "w_read w2 REG_SP + sz = ?sp" using assms(5) f(5) by simp
  have small: "r < 32" if "r \<in> set regs" for r
    using f(2) wrapped_reg_sequence_reached [OF assms(2), of e] wrapped_reg_loop_reaches [of b e "[]" regs] assms(2) that
    by (auto simp: wrapped_reg_sequence_def split: if_splits)
  have slot: "read_u64 (xs_memory (w_exec w2)) (?sp - word_of_nat (i + 1) * 8) = Some (w_read w reg) \<and> reg < length (xs_regs (w_exec w2))"
    if ir: "(i, reg) \<in> set (enumerate 0 regs)" "reg \<noteq> REG_ZERO" for i reg
  proof -
    have i: "i < length regs" "regs ! i = reg" using ir(1) by (auto simp: in_set_enumerate_eq)
    have "read_u64 (xs_memory s) (?sp - word_of_nat (i + 1) * 8) = Some (w_read w reg)"
      using fentry_slots_read [OF f(3,1) wrapped_reg_sequence_short [OF assms(2) f(2)] i(1)] ir(2) i(2) by (simp add: w_read_def)
    moreover have "reg < 32" using small [of reg] i by (metis nth_mem)
    ultimately show ?thesis using assms(4,6) f(4) by simp
  qed
  obtain s3 where s3: "restore_regs ?sp (enumerate 0 regs) (w_exec w2) = Some (True, s3)" "xs_memory s3 = xs_memory (w_exec w2)"
    "length (xs_regs s3) = 32"
    "\<And>r. r \<noteq> REG_ZERO \<Longrightarrow> read_reg s3 r = (if r \<in> set regs then w_read w r else w_read w2 r)"
    using restore_regs_slots [of "enumerate 0 regs" "w_exec w2" ?sp "w_read w"] slot assms(6)
    by (auto simp: w_read_def simp flip: set_map)
  obtain w3 where w3: "w_writeback REG_SP ?sp (w2\<lparr>w_exec := s3\<rparr>) = StepOk w3 ()" "xs_memory (w_exec w3) = xs_memory s3"
    "\<And>r. r \<noteq> REG_ZERO \<Longrightarrow> w_read w3 r = (if r = REG_SP then ?sp else read_reg s3 r)"
    using w_writeback_sp [of "w2\<lparr>w_exec := s3\<rparr>" ?sp] s3(3) by (auto simp: w_read_def)
  have "apply_fexit b e sz w2 = StepOk w3 ()" using s3(1) w3(1) f(2) sp by (simp add: apply_fexit_def unpanic_def)
  then show ?thesis using f(2) s3 w3 by (auto simp: reg_defs)
qed

text \<open>A host that grants nothing and a small runtime to evaluate on.\<close>

definition sample_host :: "unit Host" where
  "sample_host = \<lparr>h_errno = (\<lambda>h. 38), h_getpid = (\<lambda>h. 1), h_getppid = (\<lambda>h. 0), h_current_dir = (\<lambda>h. None),
     h_clock_gettime = (\<lambda>c h. (None, h)), h_dup = (\<lambda>fd h. (fd, h)), h_close = (\<lambda>fd h. h), h_write = (\<lambda>fd bs h. (int (length bs), h)),
     h_read = (\<lambda>fd n h. (Some [], h)), h_open = (\<lambda>p f m h. (- 1, h)), h_openat = (\<lambda>d p f m h. (- 1, h)),
     h_lseek = (\<lambda>fd off wh h. (- 1, h)), h_fstat = (\<lambda>fd h. (None, h)), h_fstatat = (\<lambda>d p f h. (None, h)),
     h_readlink = (\<lambda>p n h. (None, h)), h_readlinkat = (\<lambda>d p n h. (None, h)), h_pipe = (\<lambda>h. (Some (5, 6), h)),
     h_fcntl_getfl = (\<lambda>fd h. (0, h)), h_fcntl_setfl = (\<lambda>fd f h. (0, h)),
     h_poll = (\<lambda>fds t h. ((0, map (\<lambda>_. 0) fds), h))\<rparr>"

definition sample_runtime :: GuestRuntime where
  "sample_runtime = \<lparr>gr_image = \<lparr>le_path = ''a.out'', le_entry = 0x1010, le_little_endian = True, le_bits = 64, le_machine = 0,
       le_segments = []\<rparr>, gr_config = default_runtime_config,
     gr_state = \<lparr>as_pc = 0x1010, as_regs = (replicate 32 7)[0 := 0, 1 := 0x1010], as_next_bid = 1\<rparr>, gr_block = default_block_meta,
     gr_memory = sample_memory,
     gr_boot = \<lparr>bi_entry_pc = 0x1010, bi_stack_top = 0x1010, bi_stack_pointer = 0x1010, bi_argc = 1\<rparr>,
     gr_fd_table = [(0, 0), (1, 1), (2, 2)]\<rparr>"

definition sample_world :: "unit World" where
  "sample_world = \<lparr>w_exec = exec_state_from_runtime sample_host () sample_runtime,
     w_commit = unsupported 0 0x1010 0 0 default_block_meta, w_host = ()\<rparr>"

lemma sample_world_state [simp]:
  "xs_regs (w_exec sample_world) = (replicate 32 7)[0 := 0, 1 := 0x1010]" "xs_memory (w_exec sample_world) = sample_memory"
  by (simp_all add: sample_world_def exec_state_from_runtime_def sample_runtime_def Let_def)

lemma frame_round_trip_witness:
  "\<exists>w1 w3. apply_fentry 10 10 16 sample_world = StepOk w1 () \<and> apply_fexit 10 10 16 w1 = StepOk w3 () \<and> w_read w3 10 = 7"
proof -
  have regs: "wrapped_reg_sequence 10 10 = Some [10]" by (simp add: wrapped_reg_sequence_def wrapped_reg_loop.simps)
  have r: "w_read sample_world REG_SP = 0x1010" "w_read sample_world 10 = 7"
    by (simp_all add: w_read_def read_reg_def REG_SP_def nth_list_update)
  have "write_u64 sample_memory 0x1008 7 \<noteq> None" by code_simp
  then obtain m where m: "write_u64 sample_memory 0x1008 7 = Some m" by auto
  let ?s = "(w_exec sample_world)\<lparr>xs_memory := m\<rparr>"
  obtain w1 where w1: "w_writeback REG_SP 0x1000 (sample_world\<lparr>w_exec := ?s\<rparr>) = StepOk w1 ()"
    using w_writeback_sp [of "sample_world\<lparr>w_exec := ?s\<rparr>" "0x1000"] by auto
  have f: "apply_fentry 10 10 16 sample_world = StepOk w1 ()"
    using r m w1 regs by (simp add: apply_fentry_def w_read_def REG_ZERO_def)
  have len: "length (xs_regs (w_exec sample_world)) = 32" by simp
  have "length (xs_regs (w_exec w1)) = 32" by (rule apply_fentry_cases [OF f len])
  from frame_round_trip [OF f _ len refl refl this] show ?thesis using f regs r(2) by (auto simp: reg_defs)
qed

end
