(* ===== verification/Func_Run.thy ===== *)
theory Func_Run
  imports Func_Exec
begin

text \<open>
  The run loop of the functional engine (\<open>FuncEngine::run\<close>): fetch, decode, the end of the block that was open,
  the step, its commit and trace events. The loop ends because a pass that retires nothing closes the open
  block. The decoder's table of forms and the host are parameters.
\<close>

unbundle bit_operations_syntax

section \<open>The run\<close>

definition starts_new_block :: "DecodedInstruction \<Rightarrow> bool" where
  "starts_new_block d =
     (di_mnemonic d \<in> {''BSTART.STD'', ''BSTART CALL'', ''C.BSTART'', ''C.BSTART.STD'', ''HL.BSTART.STD'',
        ''HL.BSTART.CALL'', ''HL.BSTART.FP'', ''HL.BSTART.SYS''})"

definition func_stage_event :: "cyc \<Rightarrow> GuestRuntime \<Rightarrow> string \<Rightarrow> string \<Rightarrow> StageTraceEvent" where
  "func_stage_event cycle rt stage cause =
     \<lparr>ev_cycle = cycle, ev_row_id = ''uop'' @ show_nat cycle, ev_stage_id = stage,
      ev_lane_id = bm_lane_id (gr_block rt), ev_stall = False, ev_cause = cause,
      ev_checkpoint_id = None, ev_trap_cause = None, ev_traparg0 = None, ev_target_setup_epoch = None,
      ev_boundary_epoch = None, ev_target_source_owner_row_id = None, ev_target_source_epoch = None,
      ev_target_owner_row_id = None, ev_target_producer_kind = None, ev_branch_kind = None, ev_return_kind = None,
      ev_call_materialization_kind = None, ev_target_source_kind = None\<rparr>"

definition show_int :: "int \<Rightarrow> string" where
  "show_int i = (if i < 0 then ''-'' @ show_nat (nat (- i)) else show_nat (nat i))"

definition exit_text :: "ExitSignal \<Rightarrow> string" where
  "exit_text exit =
     (case exit of GuestExit code \<Rightarrow> ''guest_exit('' @ show_int code @ '')''
      | Breakpoint \<Rightarrow> ''breakpoint'' | Fault \<Rightarrow> ''unsupported_instruction'')"

record FuncRunBundle =
  fb_result :: RunResult
  fb_stage_events :: "StageTraceEvent list"

text \<open>The locals of \<open>run\<close>, and how one pass of its loop ends: another pass, a break with the exit reason,
  an error, a panic, or never.\<close>

record 'h run_state =
  fs_exec :: ExecState
  fs_host :: 'h
  fs_commits :: "CommitRecord list"
  fs_decoded :: "DecodedInstruction list"
  fs_events :: "StageTraceEvent list"
  fs_step :: cyc

datatype 'h pass = PassNext "'h run_state" | PassBreak "'h run_state" string | PassErr | PassPanic | PassHang

definition decode_miss_commit :: "cyc \<Rightarrow> u64 \<Rightarrow> u64 \<Rightarrow> GuestRuntime \<Rightarrow> CommitRecord" where
  "decode_miss_commit step pc bundle rt =
     (unsupported step pc bundle TRAP_ILLEGAL_INST (gr_block rt))\<lparr>cr_len := 8, cr_next_pc := pc\<rparr>"

definition fault_commit :: "u64 \<Rightarrow> DecodedInstruction \<Rightarrow> CommitRecord \<Rightarrow> CommitRecord" where
  "fault_commit pc d c =
     c\<lparr>cr_trap_valid := 1, cr_trap_cause := TRAP_ILLEGAL_INST, cr_traparg0 := di_instruction_bits d, cr_next_pc := pc\<rparr>"

text \<open>After the step: the trace events, the commit and the break.\<close>

definition retire_step ::
  "GuestRuntime \<Rightarrow> DecodedInstruction \<Rightarrow> ExecState \<Rightarrow> 'h \<Rightarrow> CommitRecord \<Rightarrow> StepOutcome \<Rightarrow> 'h run_state \<Rightarrow> 'h pass" where
  "retire_step rt d s h commit outcome r =
     (let step = fs_step r;
          r' = r\<lparr>fs_exec := s\<lparr>xs_pc := so_next_pc outcome\<rparr>, fs_host := h,
                 fs_commits := fs_commits r @ [commit], fs_decoded := fs_decoded r @ [d],
                 fs_events := fs_events r @
                   [func_stage_event (step * 4) rt ''F0'' ''fetch'',
                    func_stage_event (step * 4 + 1) rt ''D1'' (''decode:'' @ di_mnemonic d),
                    func_stage_event (step * 4 + 2) rt ''E1'' (so_retire_cause outcome),
                    func_stage_event (step * 4 + 3) rt ''CMT'' ''retire''],
                 fs_step := step + 1\<rparr>
      in case so_exit outcome of None \<Rightarrow> PassNext r' | Some exit \<Rightarrow> PassBreak r' (exit_text exit))"

definition run_instruction ::
  "'h Host \<Rightarrow> GuestRuntime \<Rightarrow> DecodedInstruction \<Rightarrow> 'h run_state \<Rightarrow> 'h pass" where
  "run_instruction host rt d r =
     (let s = fs_exec r; pc = xs_pc s;
          w = \<lparr>w_exec = s, w_commit = empty_commit (fs_step r) pc d rt, w_host = fs_host r\<rparr>
      in case execute_step host rt d w of
           StepOk w' outcome \<Rightarrow> retire_step rt d (w_exec w') (w_host w') (w_commit w') outcome r
         | StepErr w' \<Rightarrow>
             retire_step rt d (w_exec w') (w_host w') (fault_commit pc d (w_commit w'))
               \<lparr>so_next_pc = pc, so_exit = Some Fault, so_retire_cause = ''unsupported:'' @ di_mnemonic d\<rparr> r
         | StepPanic \<Rightarrow> PassPanic
         | StepHang \<Rightarrow> PassHang)"

definition run_pass :: "DecodeForm list \<Rightarrow> 'h Host \<Rightarrow> GuestRuntime \<Rightarrow> 'h run_state \<Rightarrow> 'h pass" where
  "run_pass forms host rt r0 =
     (let s = (fs_exec r0)\<lparr>xs_ssr := bt_insert 0x0C00 (word_of_nat (fs_step r0)) (xs_ssr (fs_exec r0))\<rparr>;
          r = r0\<lparr>fs_exec := s\<rparr>; pc = xs_pc s in
      case fetch_u64_bundle (xs_memory s) pc of
        None \<Rightarrow> PassErr
      | Some bundle \<Rightarrow>
          (case decode_word forms bundle of
             None \<Rightarrow>
               PassBreak (r\<lparr>fs_commits := fs_commits r @ [decode_miss_commit (fs_step r) pc bundle rt],
                            fs_events := fs_events r @ [func_stage_event (fs_step r) rt ''D1'' ''decode_miss'']\<rparr>)
                 ''decode_fault''
           | Some d \<Rightarrow>
               if xs_block s \<noteq> None \<and> starts_new_block d
               then (case resolve_block_end s pc of None \<Rightarrow> PassPanic
                     | Some (s', next_pc) \<Rightarrow>
                         if next_pc \<noteq> pc then PassNext (r\<lparr>fs_exec := s'\<lparr>xs_pc := next_pc\<rparr>\<rparr>)
                         else run_instruction host rt d (r\<lparr>fs_exec := s'\<rparr>))
               else run_instruction host rt d r))"

text \<open>A pass either retires an instruction or, after ending the block that was open, only moves the program
  counter; then the next pass has no open block and retires. So the loop ends.\<close>

lemma resolve_block_end_clears: "resolve_block_end s pc = Some (s', n) \<Longrightarrow> xs_block s' = None"
  by (auto simp: resolve_block_end_def end_block_def split: option.splits BlockKind.splits)

lemma run_instruction_step: "run_instruction host rt d r = PassNext r' \<Longrightarrow> fs_step r' = fs_step r + 1"
  by (auto simp: run_instruction_def retire_step_def Let_def split: step_result.splits option.splits)

lemma run_pass_progress:
  assumes "run_pass forms host rt r = PassNext r'"
  shows "fs_step r' = fs_step r + 1 \<or>
    fs_step r' = fs_step r \<and> xs_block (fs_exec r) \<noteq> None \<and> xs_block (fs_exec r') = None"
  using assms unfolding run_pass_def Let_def
  by (auto split: option.splits if_splits dest!: run_instruction_step resolve_block_end_clears)

datatype 'h loop_end = LoopDone "'h run_state" string | LoopErr | LoopPanic | LoopHang

definition loop_measure :: "nat \<Rightarrow> 'h run_state \<Rightarrow> nat" where
  "loop_measure max_steps r = 2 * (max_steps - fs_step r) + (if xs_block (fs_exec r) = None then 0 else 1)"

function func_run_loop ::
  "DecodeForm list \<Rightarrow> 'h Host \<Rightarrow> GuestRuntime \<Rightarrow> nat \<Rightarrow> 'h run_state \<Rightarrow> 'h loop_end" where
  "func_run_loop forms host rt max_steps r =
     (if fs_step r < max_steps
      then case run_pass forms host rt r of
             PassNext r' \<Rightarrow> func_run_loop forms host rt max_steps r'
           | PassBreak r' reason \<Rightarrow> LoopDone r' reason
           | PassErr \<Rightarrow> LoopErr | PassPanic \<Rightarrow> LoopPanic | PassHang \<Rightarrow> LoopHang
      else LoopDone r ''step_limit'')"
  by pat_completeness auto
termination
  by (relation "measure (\<lambda>(forms, host, rt, max_steps, r). loop_measure max_steps r)")
    (auto simp: loop_measure_def dest!: run_pass_progress)

declare func_run_loop.simps [simp del]

definition initial_run_state :: "'h Host \<Rightarrow> 'h \<Rightarrow> GuestRuntime \<Rightarrow> 'h run_state" where
  "initial_run_state host h rt =
     \<lparr>fs_exec = exec_state_from_runtime host h rt, fs_host = h, fs_commits = [], fs_decoded = [], fs_events = [],
      fs_step = 0\<rparr>"

definition bundle_of :: "GuestRuntime \<Rightarrow> 'h run_state \<Rightarrow> string \<Rightarrow> FuncRunBundle" where
  "bundle_of rt r reason =
     \<lparr>fb_result =
        \<lparr>rr_image_name = image_name (gr_image rt), rr_entry_pc = as_pc (gr_state rt),
         rr_metrics = \<lparr>rm_engine = Func, rm_cycles = sat_mul (length (fs_commits r)) 4,
                       rm_commits = length (fs_commits r), rm_exit_reason = reason\<rparr>,
         rr_commits = fs_commits r, rr_decoded = fs_decoded r\<rparr>,
      fb_stage_events = fs_events r\<rparr>"

text \<open>The result of a run: a bundle and the host state, an error, a panic, or no end.\<close>

datatype 'h run_end = RunOk FuncRunBundle 'h | RunErr | RunPanic | RunHang

definition func_engine_run :: "DecodeForm list \<Rightarrow> 'h Host \<Rightarrow> 'h \<Rightarrow> GuestRuntime \<Rightarrow> nat \<Rightarrow> 'h run_end" where
  "func_engine_run forms host h rt max_steps =
     (case func_run_loop forms host rt max_steps (initial_run_state host h rt) of
        LoopDone r reason \<Rightarrow> RunOk (bundle_of rt r reason) (fs_host r)
      | LoopErr \<Rightarrow> RunErr | LoopPanic \<Rightarrow> RunPanic | LoopHang \<Rightarrow> RunHang)"

end
