(* ===== verification/Func_Invariants.thy ===== *)
theory Func_Invariants
  imports Func_Run
begin

text \<open>
  What the steps and the runs of the functional engine keep. A system call changes only the registers it is
  meant to, a step leaves 32 registers with the first one zero and a commit that names the address the engine
  goes to, and a run leaves one commit and one decoded instruction per step. The invariants are carried through
  \<open>execute_step\<close> by a small calculus of rules, proved once in the locale \<open>world_invariant\<close>.
\<close>

unbundle bit_operations_syntax

section \<open>What a system call leaves alone\<close>

text \<open>The part of the executor state that only instructions change, and with it the identity of the commit.\<close>

definition arch :: "ExecState \<Rightarrow> u64 \<times> u64 list \<times> (u16, u64) btree_map \<times> BlockContext option \<times> bool \<times> bool \<times> u64" where
  "arch s = (xs_pc s, xs_regs s, xs_ssr s, xs_block s, xs_cond s, xs_carg s, xs_target s)"

definition commit_id :: "CommitRecord \<Rightarrow> cyc \<times> u64 \<times> u64 \<times> u8 \<times> u8" where
  "commit_id c = (cr_cycle c, cr_pc c, cr_insn c, cr_len c, cr_trap_valid c)"

text \<open>The descriptor tables, which only system calls change.\<close>

definition fds :: "ExecState \<Rightarrow> (u64, int) btree_map \<times> (u64, int) btree_map \<times> (u64, int) btree_map \<times> (u64, SpecialFdKind) btree_map" where
  "fds s = (xs_fd_table s, xs_fd_status_flags s, xs_fd_fd_flags s, xs_special_fds s)"

definition keep :: "'h World \<Rightarrow> _ \<times> _" where
  "keep w = (arch (w_exec w), commit_id (w_commit w))"

named_theorems keeps

lemma keep_update [keeps]:
  "keep (set_memory m w) = keep w" "keep (note_store a d z w) = keep w" "keep (note_load a d z w) = keep w"
  "keep (w\<lparr>w_host := h\<rparr>) = keep w" "arch s = arch (w_exec w) \<Longrightarrow> keep (w\<lparr>w_exec := s\<rparr>) = keep w"
  by (simp_all add: keep_def arch_def commit_id_def set_memory_def note_store_def note_load_def record_store_def record_load_def)

lemma arch_update [keeps]:
  "arch (s\<lparr>xs_memory := m\<rparr>) = arch s" "arch (s\<lparr>xs_fd_table := a\<rparr>) = arch s" "arch (s\<lparr>xs_fd_status_flags := b\<rparr>) = arch s"
  "arch (s\<lparr>xs_fd_fd_flags := b\<rparr>) = arch s" "arch (s\<lparr>xs_special_fds := c\<rparr>) = arch s" "arch (s\<lparr>xs_random_state := x\<rparr>) = arch s"
  "arch (s\<lparr>xs_thread_name := y\<rparr>) = arch s" "arch (s\<lparr>xs_current_pgrp := z\<rparr>) = arch s" "arch (s\<lparr>xs_rlimits := r\<rparr>) = arch s"
  by (simp_all add: arch_def)

lemma keep_in_world: "(\<And>s h. arch (fst (snd (f s h))) = arch s) \<Longrightarrow> keep (snd (in_world f w)) = keep w"
  by (auto simp: in_world_def keep_def split: prod.split) (metis fst_conv snd_conv)

lemma keep_exec_sys [keeps]: "keep (snd (exec_sys r w)) = (arch (snd r), commit_id (w_commit w))"
  by (simp add: exec_sys_def keep_def)

lemma arch_fds [keeps]:
  "arch (fst (release_guest_fd host g s h)) = arch s" "arch (fst (insert_guest_fd host g fd a b s h)) = arch s"
  by (simp_all add: insert_guest_fd_def release_guest_fd_def unregister_from_epolls_def arch_def Let_def split: prod.split)

lemma arch_fd_calls:
  "arch (fst (snd (close_guest_fd host g s h))) = arch s"
  "arch (fst (snd (duplicate_guest_fd host g m c s h))) = arch s"
  "arch (fst (snd (duplicate_guest_fd_to host g t c s h))) = arch s"
  "arch (fst (snd (install_special_fd host rfd fl sp s h))) = arch s"
  by (auto simp: close_guest_fd_def duplicate_guest_fd_def duplicate_guest_fd_to_def install_special_fd_def Let_def keeps
      split: sum.split prod.split dest: arg_cong [where f = arch]) (metis arch_fds(2) fst_conv arch_update)+

lemma arch_dispatch:
  "arch (fst (snd (dispatch_eventfd2 host args s h))) = arch s"
  "arch (fst (snd (dispatch_epoll_create1 host args s h))) = arch s"
  "arch (fst (snd (dispatch_fcntl host args s h))) = arch s"
  "arch (fst (snd (dispatch_dup3 host args s h))) = arch s"
  by (auto simp: dispatch_eventfd2_def dispatch_epoll_create1_def dispatch_fcntl_def dispatch_dup3_def Let_def
      arch_fd_calls keeps split: sum.split prod.split)

lemma arch_exec_calls [keeps]:
  "arch (snd (dispatch_epoll_ctl args s)) = arch s" "arch (snd (dispatch_membarrier args s)) = arch s"
  "arch (snd (sys_setuid args s)) = arch s" "arch (snd (sys_setgid args s)) = arch s"
  "arch (snd (sys_setresuid args s)) = arch s" "arch (snd (sys_setresgid args s)) = arch s"
  "arch (snd (sys_brk args s)) = arch s" "arch (snd (sys_mmap args s)) = arch s"
  by (auto simp: dispatch_epoll_ctl_def dispatch_membarrier_def sys_setuid_def sys_setgid_def sys_setresuid_def
      sys_setresgid_def sys_brk_def sys_mmap_def grow_brk_def alloc_mmap_def arch_def Let_def
      split: sum.split option.split SpecialFdKind.split)

lemma arch_prlimit [keeps]: "arch (snd (dispatch_prlimit64 args s)) = arch s"
  by (auto simp: dispatch_prlimit64_def set_rlimit_def Let_def keeps split: sum.split option.split prod.split)

lemma keep_epoll_pwait [keeps]: "keep (snd (dispatch_epoll_pwait host args w)) = keep w"
  by (auto simp: dispatch_epoll_pwait_def epoll_finish_def Let_def keeps
      split: sum.split option.split prod.split SpecialFdKind.split)

lemma keep_waits [keeps]:
  "keep (snd (dispatch_pselect6 host args w)) = keep w" "keep (snd (dispatch_ppoll host args w)) = keep w"
  by (auto simp: dispatch_pselect6_def select_finish_def dispatch_ppoll_def Let_def keeps split: sum.split prod.split)

lemma keep_process [keeps]:
  "keep (snd (dispatch_prctl args w)) = keep w" "keep (snd (dispatch_getrandom args w)) = keep w"
  "keep (snd (dispatch_sigaltstack args w)) = keep w" "keep (snd (dispatch_rseq args w)) = keep w"
  "keep (snd (dispatch_ioctl args w)) = keep w" "keep (snd (sys_getres args a b c w)) = keep w"
  by (auto simp: dispatch_prctl_def dispatch_getrandom_def dispatch_sigaltstack_def set_alt_stack_def dispatch_rseq_def
      dispatch_ioctl_def sys_getres_def Let_def keep_def arch_def commit_id_def set_memory_def note_store_def record_store_def
      split: sum.split option.split prod.split)

lemma keep_store_stat [keeps]: "keep (snd (store_stat p r w)) = keep w" "keep (snd (store_link host b x w)) = keep w"
  "keep (snd (store_or_fault ad sz m w)) = keep w"
  by (auto simp: store_stat_def store_link_def store_or_fault_def Let_def keeps split: sum.split option.split prod.split)

lemma keep_files [keeps]:
  "keep (snd (dispatch_newfstatat host rt args w)) = keep w" "keep (snd (dispatch_readlinkat host rt args w)) = keep w"
  "keep (snd (dispatch_getcwd host rt args w)) = keep w" "keep (snd (sys_lseek host args w)) = keep w"
  "keep (snd (sys_fstat host args w)) = keep w" "keep (snd (sys_clock_gettime host args w)) = keep w"
  "keep (snd (sys_rt_sigaction args w)) = keep w" "keep (snd (sys_rt_sigprocmask args w)) = keep w"
  by (auto simp: dispatch_newfstatat_def dispatch_readlinkat_def dispatch_getcwd_def sys_lseek_def sys_fstat_def
      sys_clock_gettime_def sys_rt_sigaction_def sys_rt_sigprocmask_def Let_def keeps split: sum.split option.split prod.split)

lemma keep_io [keeps]: "keep (snd (sys_write host args w)) = keep w" "keep (snd (sys_read host args w)) = keep w"
  by (auto simp: sys_write_def sys_read_def dispatch_eventfd_read_def Let_def keep_def arch_def commit_id_def set_memory_def
      note_store_def record_store_def note_load_def record_load_def split: sum.split option.split prod.split SpecialFdKind.split)

lemma keep_descriptors [keeps]:
  "keep (snd (dispatch_pipe2 host args w)) = keep w" "keep (snd (install_opened host fl op w)) = keep w"
  by (auto simp: dispatch_pipe2_def install_pipe_def install_opened_def Let_def keeps split: option.split prod.split)
    (metis arch_fds(2) fst_conv keep_update(5) keeps)+

lemma keep_openat: "sys_openat host rt args w = Some r \<Longrightarrow> keep (snd r) = keep w"
  by (auto simp: sys_openat_def Let_def keeps split: sum.splits option.splits if_splits)

lemma keep_worlds [keeps]:
  "keep (snd (in_world (dispatch_eventfd2 host args) w)) = keep w" "keep (snd (in_world (dispatch_epoll_create1 host args) w)) = keep w"
  "keep (snd (in_world (dispatch_fcntl host args) w)) = keep w" "keep (snd (in_world (dispatch_dup3 host args) w)) = keep w"
  "keep (snd (in_world (close_guest_fd host g) w)) = keep w"
  by (intro keep_in_world arch_dispatch arch_fd_calls)+

lemma keep_plain_syscall: "keep (snd (plain_syscall host rt n args w)) = keep w"
proof -
  have "(arch (w_exec w), commit_id (w_commit w)) = keep w" by (simp add: keep_def)
  moreover have "arch ((w_exec w)\<lparr>xs_clear_child_tid := a\<rparr>) = arch (w_exec w)"
    "arch ((w_exec w)\<lparr>xs_robust_list_head := a, xs_robust_list_len := b\<rparr>) = arch (w_exec w)" for a b
    by (simp_all add: arch_def)
  ultimately show ?thesis unfolding plain_syscall_def Let_def by (simp add: keeps)
qed

text \<open>A system call ends by writing its result to A0.\<close>

definition with_a0 :: "u64 \<Rightarrow> u64 \<times> u64 list \<times> 'r \<Rightarrow> u64 \<times> u64 list \<times> 'r" where
  "with_a0 v a = (case a of (pc, regs, rest) \<Rightarrow> (pc, regs[REG_A0 := v, REG_ZERO := 0], rest))"

lemma writeback_a0:
  assumes "writeback s c REG_A0 v = Some (s', c')"
  shows "arch s' = with_a0 v (arch s) \<and> commit_id c' = commit_id c"
  using assms
  by (auto simp: writeback_def write_reg_def record_dst_def arch_def commit_id_def with_a0_def reg_defs split: if_splits)

lemma finalize_syscall_frame:
  assumes "finalize_syscall res = StepOk w' r"
  shows "r = None \<and> commit_id (w_commit w') = commit_id (w_commit (snd res)) \<and>
    arch (w_exec w') = with_a0 (case fst res of Inr v \<Rightarrow> v | Inl e \<Rightarrow> word_of_int (- e)) (arch (w_exec (snd res)))"
  using assms by (auto simp: finalize_syscall_def Let_def split: prod.splits option.splits dest!: writeback_a0)

lemma finalize_keep:
  assumes "finalize_syscall res = StepOk w' r" "keep (snd res) = keep w"
  shows "r = None \<and> commit_id (w_commit w') = commit_id (w_commit w) \<and> (\<exists>v. arch (w_exec w') = with_a0 v (arch (w_exec w)))"
  using finalize_syscall_frame [OF assms(1)] assms(2) by (auto simp: keep_def)

lemma finalize_not_err: "finalize_syscall res \<noteq> StepErr w" "finalize_syscall res \<noteq> StepHang"
  by (auto simp: finalize_syscall_def Let_def split: prod.splits option.splits)

lemma arch_mem_calls:
  "sys_munmap args s = Some r \<Longrightarrow> arch (snd r) = arch s" "sys_mprotect args s = Some r \<Longrightarrow> arch (snd r) = arch s"
  by (auto simp: sys_munmap_def sys_mprotect_def Let_def keeps split: if_splits)

definition ends_run :: "ExecState \<Rightarrow> bool" where
  "ends_run s = (read_reg s REG_A7 = SYS_EXIT \<or> read_reg s REG_A7 = SYS_EXIT_GROUP)"

lemma dispatch_syscall_cases:
  obtains (exit) v where "ends_run (w_exec w)" "keep v = keep w" "w_exec v = w_exec w"
      "dispatch_syscall host rt w = StepOk v (Some (GuestExit (as_i32 (read_reg (w_exec w) REG_A0))))"
    | (error) v where "\<not> ends_run (w_exec w)" "keep v = keep w" "dispatch_syscall host rt w = StepErr v"
    | (panic) "\<not> ends_run (w_exec w)" "dispatch_syscall host rt w = StepPanic"
    | (returns) res where "\<not> ends_run (w_exec w)" "keep (snd res) = keep w" "dispatch_syscall host rt w = finalize_syscall res"
proof -
  let ?n = "read_reg (w_exec w) REG_A7" and ?args = "syscall_args (w_exec w)"
  define v where "v = w\<lparr>w_commit := record_src1 (record_src0 (w_commit w) REG_A0 (?args ! 0)) REG_A7 ?n\<rparr>"
  have kv: "keep v = keep w" "w_exec v = w_exec w"
    by (simp_all add: v_def keep_def arch_def commit_id_def record_src0_def record_src1_def)
  have d: "dispatch_syscall host rt w =
      (if ?n = SYS_EXIT \<or> ?n = SYS_EXIT_GROUP then StepOk v (Some (GuestExit (as_i32 (?args ! 0))))
      else if ?n = SYS_OPENAT then (case sys_openat host rt ?args v of None \<Rightarrow> StepErr v | Some r \<Rightarrow> finalize_syscall r)
      else if ?n = SYS_MUNMAP then (case sys_munmap ?args (w_exec w) of None \<Rightarrow> StepPanic | Some r \<Rightarrow> finalize_syscall (exec_sys r v))
      else if ?n = SYS_MPROTECT then (case sys_mprotect ?args (w_exec w) of None \<Rightarrow> StepPanic | Some r \<Rightarrow> finalize_syscall (exec_sys r v))
      else finalize_syscall (plain_syscall host rt ?n ?args v))"
    unfolding dispatch_syscall_def Let_def v_def by (rule refl)
  have m: "sys_munmap ?args (w_exec w) = Some q \<Longrightarrow> keep (snd (exec_sys q v)) = keep w"
    "sys_mprotect ?args (w_exec w) = Some q \<Longrightarrow> keep (snd (exec_sys q v)) = keep w" for q
    unfolding kv(1) [symmetric] by (simp_all add: exec_sys_def keep_def arch_mem_calls kv(2))
  note e = ends_run_def [of "w_exec w"]
  consider "ends_run (w_exec w)" | "?n = SYS_OPENAT" | "?n = SYS_MUNMAP" | "?n = SYS_MPROTECT"
    | "\<not> ends_run (w_exec w)" "?n \<notin> {SYS_OPENAT, SYS_MUNMAP, SYS_MPROTECT}" by blast
  then show thesis
  proof cases
    case 1
    then show ?thesis using exit kv unfolding d by (simp add: e syscall_args_def)
  next
    case 2
    then show ?thesis using error returns kv keep_openat [of host rt ?args v] unfolding d
      by (cases "sys_openat host rt ?args v") (simp_all add: e)
  next
    case 3
    then show ?thesis using panic returns m(1) unfolding d by (cases "sys_munmap ?args (w_exec w)") (simp_all add: e)
  next
    case 4
    then show ?thesis using panic returns m(2) unfolding d by (cases "sys_mprotect ?args (w_exec w)") (simp_all add: e)
  next
    case 5
    then show ?thesis using returns keep_plain_syscall [of host rt ?n ?args v] kv(1) unfolding d by (simp add: e)
  qed
qed

text \<open>C19: what a system call may touch. A call that returns to the guest changes, of the architectural state, only
  A0 (and writes the zero register with zero): not another register, the program counter, the system registers
  nor the block context; the commit keeps its cycle, address, instruction and trap flag. Only \<open>exit\<close> and \<open>exit_group\<close> end the
  run, with the low 32 bits of A0 as the code, and they change nothing.\<close>

theorem syscall_register_frame:
  assumes "dispatch_syscall host rt w = StepOk w' r"
  shows "commit_id (w_commit w') = commit_id (w_commit w) \<and>
     (if read_reg (w_exec w) REG_A7 = SYS_EXIT \<or> read_reg (w_exec w) REG_A7 = SYS_EXIT_GROUP
      then r = Some (GuestExit (sint (ucast (read_reg (w_exec w) REG_A0) :: u32))) \<and> w_exec w' = w_exec w
      else r = None \<and> (\<exists>v. arch (w_exec w') = with_a0 v (arch (w_exec w))))"
proof (cases rule: dispatch_syscall_cases [of w host rt])
  case (returns res)
  then show ?thesis using assms finalize_keep [of res w' r w] by (simp add: ends_run_def)
qed (use assms in \<open>auto simp: ends_run_def as_i32_def keep_def\<close>)

lemma sample_world_read: "read_reg (w_exec sample_world) r = (if r = 0 then 0 else if r = 1 then 0x1010 else if r < 32 then 7 else 0)"
  by (simp add: read_reg_def nth_list_update)

lemma syscall_register_frame_witness:
  "\<exists>w' v. dispatch_syscall sample_host sample_runtime sample_world = StepOk w' None \<and>
     arch (w_exec w') = with_a0 v (arch (w_exec sample_world))"
proof -
  have n: "read_reg (w_exec sample_world) REG_A7 = 7" by (simp add: sample_world_read REG_A7_def)
  have w: "writeback (w_exec sample_world) c REG_A0 v \<noteq> None" for c v
    by (simp add: writeback_def write_reg_def reg_defs)
  have "\<exists>w'. finalize_syscall (e, sample_world\<lparr>w_commit := c\<rparr>) = StepOk w' None" for e c
    using w [of c "case e of Inl errno \<Rightarrow> word_of_int (- errno) | Inr value \<Rightarrow> value"]
    by (auto simp: finalize_syscall_def Let_def split: option.split)
  then obtain w' where "dispatch_syscall sample_host sample_runtime sample_world = StepOk w' None"
    by (auto simp: dispatch_syscall_def plain_syscall_def n Let_def)
  with syscall_register_frame [OF this] show ?thesis by (simp add: n)
qed

section \<open>Invariants of a step\<close>

text \<open>What an invariant of the world must survive for every instruction to keep it: changes of the commit that
  keep its identity, of the executor state outside registers, program counter and descriptor tables, the ways a
  register is written, and a whole system call.\<close>

locale world_invariant =
  fixes I :: "'h World \<Rightarrow> bool"
  assumes commit: "I w \<Longrightarrow> commit_id c = commit_id (w_commit w) \<Longrightarrow> I (w\<lparr>w_commit := c\<rparr>)"
    and exec: "I w \<Longrightarrow> xs_regs s = xs_regs (w_exec w) \<Longrightarrow> xs_pc s = xs_pc (w_exec w) \<Longrightarrow> fds s = fds (w_exec w) \<Longrightarrow> I (w\<lparr>w_exec := s\<rparr>)"
    and sys: "I w \<Longrightarrow> dispatch_syscall host rt w = StepOk w1 e \<Longrightarrow> I w1" "I w \<Longrightarrow> dispatch_syscall host rt w = StepErr w1 \<Longrightarrow> I w1"
    and reg: "I w \<Longrightarrow> write_reg (w_exec w) r v = Some s \<Longrightarrow> I (w\<lparr>w_exec := s\<rparr>)"
    and push: "I w \<Longrightarrow> I (w\<lparr>w_exec := push_t (w_exec w) v\<rparr>)" "I w \<Longrightarrow> I (w\<lparr>w_exec := push_u (w_exec w) v\<rparr>)"
begin

definition kept :: "('h World, 'a) step_result \<Rightarrow> bool" where
  "kept r = (case r of StepOk w x \<Rightarrow> I w | StepErr w \<Rightarrow> I w | StepPanic \<Rightarrow> True | StepHang \<Rightarrow> True)"

lemma kept_simps [simp]: "kept (StepOk w x) = I w" "kept (StepErr w) = I w" "kept StepPanic" "kept StepHang"
  by (simp_all add: kept_def)

lemma kept_require: "I w \<Longrightarrow> (\<And>v. x = Some v \<Longrightarrow> kept (k v)) \<Longrightarrow> kept (require x w k)"
  by (simp add: require_def split: option.split)

lemma kept_unpanic: "(\<And>v. x = Some v \<Longrightarrow> kept (k v)) \<Longrightarrow> kept (unpanic x k)"
  by (simp add: unpanic_def split: option.split)

lemma kept_and_then: "kept r \<Longrightarrow> (\<And>w x. r = StepOk w x \<Longrightarrow> I w \<Longrightarrow> kept (k w x)) \<Longrightarrow> kept (and_then r k)"
  by (cases r) (simp_all add: and_then_def)

lemma commit_same [intro!]:
  "I w \<Longrightarrow> I (note_src0 r v w)" "I w \<Longrightarrow> I (note_src1 r v w)" "I w \<Longrightarrow> I (note_load a d z w)" "I w \<Longrightarrow> I (note_store a d z w)"
  unfolding note_src0_def note_src1_def note_load_def note_store_def
  by (auto intro!: commit simp: commit_id_def record_src0_def record_src1_def record_load_def record_store_def)

lemma exec_same [intro!]: "I w \<Longrightarrow> I (set_memory m w)" "I w \<Longrightarrow> I (set_cond b w)"
  unfolding set_memory_def set_cond_def by (auto intro!: exec simp: fds_def)

lemma writeback_same: "writeback (w_exec w) (w_commit w) r v = Some (s, c) \<Longrightarrow> I w \<Longrightarrow> I (w\<lparr>w_exec := s, w_commit := c\<rparr>)"
  by (auto simp: writeback_def commit_id_def record_dst_def split: if_splits intro!: commit push reg)

lemma kept_writeback: "I w \<Longrightarrow> kept (w_writeback r v w)"
  unfolding w_writeback_def by (rule kept_unpanic) (auto intro: writeback_same)

lemma kept_load_store: "I w \<Longrightarrow> kept (finish_load m a rd w)" "I w \<Longrightarrow> kept (finish_store m a v z w)"
  unfolding finish_load_def finish_store_def by (auto intro!: kept_require kept_writeback)

lemma kept_set_return: "I w \<Longrightarrow> kept (set_return t w)"
  unfolding set_return_def
proof (rule kept_unpanic)
  fix p
  assume w: "I w" and p: "writeback (w_exec w) (w_commit w) REG_RA t = Some p"
  obtain s c where sc: "p = (s, c)" by force
  have "I ((w\<lparr>w_exec := s, w_commit := c\<rparr>)\<lparr>w_exec := with_return_target t s\<rparr>)"
    using writeback_same [OF p [unfolded sc] w] by (rule exec) (simp_all add: with_return_target_def fds_def)
  then show "kept (case p of (s, c) \<Rightarrow> StepOk (w\<lparr>w_exec := with_return_target t s, w_commit := c\<rparr>) ())"
    by (cases w) (simp add: sc)
qed

lemma kept_jump: "I w \<Longrightarrow> kept (jump_to t c w)"
  unfolding jump_to_def by (auto intro!: commit simp: commit_id_def)

lemmas kept_rules = kept_require kept_unpanic kept_and_then kept_writeback kept_load_store kept_set_return kept_jump

lemma kept_arith:
  assumes "I w"
  shows "kept (exec_lui d w)" "kept (exec_hl_lui d w)" "kept (exec_hl_lis d w)" "kept (exec_addtpc d w)" "kept (exec_alu d w)"
    "kept (exec_alu_w d w)" "kept (exec_addi d w)" "kept (exec_logic_imm d w)" "kept (exec_shift d w)" "kept (exec_shift_w d w)"
    "kept (exec_shift_imm d w)" "kept (exec_shift_imm_w d w)" "kept (exec_muldiv d w)" "kept (exec_muldiv_w d w)"
  unfolding exec_lui_def exec_hl_lui_def exec_hl_lis_def exec_addtpc_def exec_alu_def exec_alu_w_def exec_addi_def
    exec_logic_imm_def exec_shift_def exec_shift_w_def exec_shift_imm_def exec_shift_imm_w_def exec_muldiv_def
    exec_muldiv_w_def Let_def
  using assms by (auto intro!: kept_rules)

lemma kept_compare:
  assumes "I w"
  shows "kept (exec_cmp d w)" "kept (exec_cmp_imm d w)" "kept (exec_setc d w)" "kept (exec_setc_imm d w)" "kept (exec_c_setc d w)"
    "kept (exec_setc_tgt d w)" "kept (exec_csel d w)"
  unfolding exec_cmp_def exec_cmp_imm_def exec_setc_def exec_setc_imm_def exec_c_setc_def exec_setc_tgt_def exec_csel_def Let_def
  using assms by (auto intro!: kept_rules exec simp: fds_def)

lemma kept_memory:
  assumes "I w"
  shows "kept (exec_load_imm d w)" "kept (exec_load d w)" "kept (exec_load_pair d w)" "kept (exec_store_imm d w)"
    "kept (exec_store d w)" "kept (exec_store_pair d w)" "kept (exec_c_load d w)" "kept (exec_c_store d w)"
  unfolding exec_load_imm_def exec_load_def exec_load_pair_def exec_store_imm_def exec_store_def exec_store_pair_def
    exec_c_load_def exec_c_store_def Let_def
  using assms by (auto intro!: kept_rules intro: reg)

lemma kept_moves:
  assumes "I w"
  shows "kept (exec_ssrget d w)" "kept (exec_ssrset d w)" "kept (exec_c_ssrget d w)" "kept (exec_c_movr d w)" "kept (exec_c_movi d w)"
    "kept (exec_c_addi d w)" "kept (exec_c_alu d w)" "kept (exec_c_shift d w)" "kept (exec_c_extend d w)"
  unfolding exec_ssrget_def exec_ssrset_def exec_c_ssrget_def exec_c_movr_def exec_c_movi_def exec_c_addi_def exec_c_alu_def
    exec_c_shift_def exec_c_extend_def Let_def
  using assms by (auto intro!: kept_rules exec simp: fds_def)

lemma kept_bstarts:
  assumes "I w"
  shows "kept (exec_setret d w)" "kept (exec_c_setret d w)" "kept (exec_hl_setret d w)" "kept (exec_bstart d w)"
    "kept (exec_c_bstart d w)" "kept (exec_c_bstart_std d w)"
  unfolding exec_setret_def exec_c_setret_def exec_hl_setret_def exec_bstart_def exec_c_bstart_def exec_c_bstart_std_def Let_def
  using assms by (auto intro!: kept_rules exec simp: set_block_def fds_def)

lemma kept_start_call:
  assumes "I w"
  shows "kept (start_call t r w)"
  unfolding start_call_def
proof (rule kept_unpanic)
  fix s
  assume s: "write_reg (set_block (w_exec w) BkCall (Some t)) REG_RA r = Some s"
  let ?w = "w\<lparr>w_exec := set_block (w_exec w) BkCall (Some t)\<rparr>"
  have "I ?w" using assms by (rule exec) (simp_all add: set_block_def fds_def)
  then have "I (?w\<lparr>w_exec := s\<rparr>)" by (rule reg [of _ REG_RA r]) (simp add: s)
  then have "I (?w\<lparr>w_exec := s\<rparr>\<lparr>w_exec := with_return_target r s\<rparr>)" by (rule exec) (simp_all add: with_return_target_def fds_def)
  then have "I (?w\<lparr>w_exec := s\<rparr>\<lparr>w_exec := with_return_target r s\<rparr>\<lparr>w_commit := record_dst (w_commit w) REG_RA r\<rparr>)"
    by (rule commit) (simp add: commit_id_def record_dst_def)
  then show "kept (StepOk (w\<lparr>w_exec := with_return_target r s, w_commit := record_dst (w_commit w) REG_RA r\<rparr>) ())" by simp
qed

lemma kept_bstart_call: "I w \<Longrightarrow> kept (exec_bstart_call d f w)"
  unfolding exec_bstart_call_def Let_def by (auto intro!: kept_require kept_start_call)

lemma save_regs_same: "save_regs p z es s = (ok, s') \<Longrightarrow> xs_regs s' = xs_regs s \<and> xs_pc s' = xs_pc s \<and> fds s' = fds s"
  by (induction p z es s rule: save_regs.induct) (auto simp: fds_def split: if_splits option.splits)

lemma restore_regs_same: "restore_regs p es (w_exec w) = Some (ok, s') \<Longrightarrow> I w \<Longrightarrow> I (w\<lparr>w_exec := s'\<rparr>)"
proof (induction es arbitrary: w)
  case (Cons e es)
  obtain idx r where e: "e = (idx, r)" by force
  show ?case
  proof (cases "r = REG_ZERO")
    case False
    show ?thesis
    proof (cases "read_u64 (xs_memory (w_exec w)) (p - word_of_nat (idx + 1) * 8)")
      case (Some v)
      with False Cons.prems(1) obtain s where "write_reg (w_exec w) r v = Some s" "restore_regs p es s = Some (ok, s')"
        by (auto simp: e bind_eq_Some_conv)
      then show ?thesis using Cons.IH [of "w\<lparr>w_exec := s\<rparr>"] reg [OF Cons.prems(2)] by simp
    next
      case None
      then show ?thesis using False Cons.prems by (cases w) (auto simp: e)
    qed
  qed (use Cons in \<open>auto simp: e\<close>)
next
  case Nil
  then show ?case by (cases w) auto
qed

lemma kept_frames:
  assumes "I w"
  shows "kept (apply_fentry b e z w)" "kept (apply_fexit b e z w)"
proof -
  show "kept (apply_fentry b e z w)" unfolding apply_fentry_def Let_def
    using assms by (auto split: option.split prod.split intro!: kept_writeback exec dest!: save_regs_same)
  show "kept (apply_fexit b e z w)" unfolding apply_fexit_def Let_def
    using assms by (auto split: option.split prod.split intro!: kept_unpanic kept_writeback dest: restore_regs_same)
qed

lemma kept_frets: "I w \<Longrightarrow> kept (apply_fret_stk b e z w)" "I w \<Longrightarrow> kept (apply_fret_ra b e z w)"
  unfolding apply_fret_stk_def apply_fret_ra_def
  by (auto intro!: kept_and_then kept_frames exec simp: end_block_def fds_def)

lemma kept_frame_fields: "I w \<Longrightarrow> (\<And>b e z. kept (k b e z w)) \<Longrightarrow> kept (with_frame_fields d f l w k)"
  unfolding with_frame_fields_def by (auto intro!: kept_require)

lemma kept_syscall: "I w \<Longrightarrow> kept (dispatch_syscall host rt w)"
  unfolding kept_def by (auto split: step_result.split intro: sys)

lemma kept_if: "(if P then Some a else x) = Some r \<Longrightarrow> kept a \<Longrightarrow> (x = Some r \<Longrightarrow> kept r) \<Longrightarrow> kept r"
  by (simp split: if_splits)

lemma kept_frame_steps: "I w \<Longrightarrow> kept (with_frame_fields d f l w apply_fentry)" "I w \<Longrightarrow> kept (with_frame_fields d f l w apply_fexit)"
  by (auto intro!: kept_frame_fields kept_frames)

lemma kept_plain: "exec_plain d f w = Some r \<Longrightarrow> I w \<Longrightarrow> kept r"
  unfolding exec_plain_def Let_def
  by (elim kept_if) (simp_all add: kept_arith kept_compare kept_memory kept_moves kept_bstarts kept_bstart_call kept_frame_steps)

lemma kept_resolve: "resolve_block_end (w_exec w) f = Some (s, n) \<Longrightarrow> I w \<Longrightarrow> I (w\<lparr>w_exec := s\<rparr>)"
proof -
  assume r: "resolve_block_end (w_exec w) f = Some (s, n)" and w: "I w"
  have "\<exists>t. (t = w_exec w \<or> write_reg (w_exec w) REG_RA f = Some t) \<and> s = end_block t"
    using r by (auto simp: resolve_block_end_def default_return_def split: option.splits BlockKind.splits if_splits)
  then obtain t where t: "t = w_exec w \<or> write_reg (w_exec w) REG_RA f = Some t" "s = end_block t" by blast
  then have "I (w\<lparr>w_exec := t\<rparr>)" using w reg [OF w] by auto
  then have "I (w\<lparr>w_exec := t\<rparr>\<lparr>w_exec := s\<rparr>)" by (rule exec) (simp_all add: t(2) end_block_def fds_def)
  then show ?thesis by simp
qed

lemma kept_step:
  assumes "I w" "di_mnemonic d \<notin> {''EBREAK'', ''C.EBREAK''}"
  shows "kept (execute_step host rt d w)"
  using assms unfolding execute_step_def Let_def exec_j_def exec_jr_def exec_c_bstop_def exec_fret_def exec_acrc_def
  by (auto split: option.split intro!: kept_rules kept_frame_fields kept_frets kept_syscall commit kept_jump
      intro: kept_plain kept_resolve simp: commit_id_def)

end

section \<open>What a step leaves behind\<close>

text \<open>The register file has 32 registers and the first reads as zero.\<close>

definition regs_ok :: "ExecState \<Rightarrow> bool" where
  "regs_ok s = (length (xs_regs s) = 32 \<and> xs_regs s ! REG_ZERO = 0)"

definition step_frame :: "'h World \<Rightarrow> 'h World \<Rightarrow> bool" where
  "step_frame w0 w = ((regs_ok (w_exec w0) \<longrightarrow> regs_ok (w_exec w)) \<and> xs_pc (w_exec w) = xs_pc (w_exec w0) \<and>
     commit_id (w_commit w) = commit_id (w_commit w0))"

lemma shift_regs_ok: "length (shift_regs rs xs) = length xs" "0 \<notin> set rs \<Longrightarrow> shift_regs rs xs ! 0 = xs ! 0"
  by (induction rs xs rule: shift_regs.induct) auto

lemma regs_ok_push: "regs_ok s \<Longrightarrow> regs_ok (push_t s v)" "regs_ok s \<Longrightarrow> regs_ok (push_u s v)"
  by (auto simp: regs_ok_def push_t_def push_u_def shift_regs_ok reg_defs)

lemma regs_ok_write: "write_reg s r v = Some s' \<Longrightarrow> regs_ok s \<Longrightarrow> regs_ok s'"
  by (auto simp: regs_ok_def write_reg_def REG_ZERO_def split: if_splits)

lemma pc_regs_only:
  "xs_pc (push_t s v) = xs_pc s" "xs_pc (push_u s v) = xs_pc s" "write_reg s r v = Some s' \<Longrightarrow> xs_pc s' = xs_pc s"
  by (auto simp: push_t_def push_u_def write_reg_def split: if_splits)

lemma regs_ok_cong: "xs_regs s = xs_regs t \<Longrightarrow> regs_ok s = regs_ok t"
  by (simp add: regs_ok_def)

lemma step_frame_keep: "step_frame w0 w \<Longrightarrow> keep v = keep w \<Longrightarrow> step_frame w0 v"
  using regs_ok_cong [of "w_exec v" "w_exec w"] by (auto simp: step_frame_def keep_def arch_def)

lemma step_frame_a0:
  assumes "step_frame w0 w" "commit_id (w_commit v) = commit_id (w_commit w)" "arch (w_exec v) = with_a0 x (arch (w_exec w))"
  shows "step_frame w0 v"
  using assms by (auto simp: step_frame_def arch_def with_a0_def regs_ok_def reg_defs)

lemma step_frame_syscall:
  assumes "step_frame w0 w"
  shows "dispatch_syscall host rt w = StepOk v r \<Longrightarrow> step_frame w0 v" "dispatch_syscall host rt w = StepErr v \<Longrightarrow> step_frame w0 v"
proof -
  show "step_frame w0 v" if "dispatch_syscall host rt w = StepOk v r"
  proof (cases rule: dispatch_syscall_cases [of w host rt])
    case (returns res)
    then have "finalize_syscall res = StepOk v r" using that by simp
    from finalize_keep [OF this returns(2)] show ?thesis using step_frame_a0 [OF assms] by blast
  qed (use that step_frame_keep [OF assms] in auto)
  show "step_frame w0 v" if "dispatch_syscall host rt w = StepErr v"
    using that finalize_not_err step_frame_keep [OF assms] by (cases rule: dispatch_syscall_cases [of w host rt]) auto
qed

interpretation step: world_invariant "step_frame w0" for w0 :: "'h World"
proof unfold_locales
  fix w w1 :: "'h World" and host rt e
  assume w: "step_frame w0 w"
  show "dispatch_syscall host rt w = StepOk w1 e \<Longrightarrow> step_frame w0 w1" by (rule step_frame_syscall(1) [OF w])
  show "dispatch_syscall host rt w = StepErr w1 \<Longrightarrow> step_frame w0 w1" by (rule step_frame_syscall(2) [OF w])
qed (auto simp: step_frame_def pc_regs_only intro: regs_ok_push regs_ok_write dest: regs_ok_cong)

text \<open>How a step may end: the commit names the address the engine goes to, and only a system call ends the run.\<close>

definition step_end :: "('h World, StepOutcome) step_result \<Rightarrow> bool" where
  "step_end r = (case r of StepOk w out \<Rightarrow> cr_next_pc (w_commit w) = so_next_pc out \<and>
     (so_exit out = None \<or> (\<exists>code. so_exit out = Some (GuestExit code))) | _ \<Rightarrow> True)"

lemma step_end_rules:
  "(\<And>v. x = Some v \<Longrightarrow> step_end (k v)) \<Longrightarrow> step_end (require x w k)"
  "(\<And>v. x = Some v \<Longrightarrow> step_end (k v)) \<Longrightarrow> step_end (unpanic x k)"
  "step_end (jump_to t c w)"
  by (simp_all add: step_end_def require_def unpanic_def jump_to_def split: option.split)

lemma step_end_and_then: "(\<And>w y. r = StepOk w y \<Longrightarrow> step_end (l w y)) \<Longrightarrow> step_end (and_then r l)"
  by (cases r) (simp_all add: and_then_def step_end_def)

lemma syscall_exit_kind: "dispatch_syscall host rt w = StepOk w' r \<Longrightarrow> r = None \<or> (\<exists>code. r = Some (GuestExit code))"
  by (cases rule: dispatch_syscall_cases [of w host rt]) (auto dest: finalize_syscall_frame)

lemma step_end_parts:
  "step_end (exec_j d w)" "step_end (exec_jr d w)" "step_end (exec_c_bstop f w)" "step_end (exec_fret d w)"
  unfolding exec_j_def exec_jr_def exec_c_bstop_def exec_fret_def Let_def by (auto intro!: step_end_rules step_end_and_then split: prod.split)

lemma step_end_acrc: "step_end (exec_acrc host rt d f w)"
  unfolding exec_acrc_def by (auto intro!: step_end_rules step_end_and_then) (auto simp: step_end_def dest: syscall_exit_kind)

lemma step_end_step: "di_mnemonic d \<notin> {''EBREAK'', ''C.EBREAK''} \<Longrightarrow> step_end (execute_step host rt d w)"
  unfolding execute_step_def Let_def
  by (auto split: option.split intro!: step_end_rules step_end_and_then step_end_parts step_end_acrc) (simp_all add: step_end_def)

lemma step_ebreak:
  assumes "di_mnemonic d \<in> {''EBREAK'', ''C.EBREAK''}"
  shows "execute_step host rt d w = exec_ebreak d (xs_pc (w_exec w) + word_of_nat (length_bytes d)) w"
  using assms by (auto simp: execute_step_def exec_plain_def)

lemma step_ok_facts:
  assumes "execute_step host rt d w = StepOk w' out"
  shows "(regs_ok (w_exec w) \<longrightarrow> regs_ok (w_exec w')) \<and> xs_pc (w_exec w') = xs_pc (w_exec w) \<and>
     cr_cycle (w_commit w') = cr_cycle (w_commit w) \<and> cr_pc (w_commit w') = cr_pc (w_commit w) \<and>
     cr_insn (w_commit w') = cr_insn (w_commit w) \<and> cr_len (w_commit w') = cr_len (w_commit w) \<and>
     cr_next_pc (w_commit w') = so_next_pc out \<and>
     (if di_mnemonic d = ''EBREAK'' \<or> di_mnemonic d = ''C.EBREAK''
      then so_exit out = Some Breakpoint \<and> cr_trap_valid (w_commit w') = 1
      else cr_trap_valid (w_commit w') = cr_trap_valid (w_commit w) \<and>
        (so_exit out = None \<or> (\<exists>code. so_exit out = Some (GuestExit code))))"
proof (cases "di_mnemonic d \<in> {''EBREAK'', ''C.EBREAK''}")
  case True
  then show ?thesis using assms unfolding step_ebreak [OF True] by (auto simp: exec_ebreak_def)
next
  case False
  have "step_frame w w" by (simp add: step_frame_def)
  from step.kept_step [OF this False, of host rt] have "step_frame w w'" using assms by simp
  moreover have "step_end (execute_step host rt d w)" by (rule step_end_step [OF False])
  ultimately show ?thesis using False assms by (auto simp: step_frame_def commit_id_def step_end_def)
qed

lemma step_err_facts:
  assumes "execute_step host rt d w = StepErr w'"
  shows "(regs_ok (w_exec w) \<longrightarrow> regs_ok (w_exec w')) \<and> commit_id (w_commit w') = commit_id (w_commit w)"
proof (cases "di_mnemonic d \<in> {''EBREAK'', ''C.EBREAK''}")
  case True
  then show ?thesis using assms unfolding step_ebreak [OF True] by (auto simp: exec_ebreak_def)
next
  case False
  have "step_frame w w" by (simp add: step_frame_def)
  from step.kept_step [OF this False, of host rt] show ?thesis using assms by (simp add: step_frame_def)
qed

text \<open>C9: what one instruction leaves behind. A step keeps 32 registers with the first one zero, whatever it
  writes; it leaves the program counter to the run loop; the commit keeps its cycle, address, encoding and length
  and names exactly the address the engine goes to next. Only a breakpoint instruction marks its commit as a
  trap, and only it or a system call ends the run.\<close>

theorem step_leaves_consistent_commit:
  assumes "execute_step host rt d w = StepOk w' out" and "regs_ok (w_exec w)"
  shows "regs_ok (w_exec w') \<and> xs_pc (w_exec w') = xs_pc (w_exec w) \<and>
     cr_cycle (w_commit w') = cr_cycle (w_commit w) \<and> cr_pc (w_commit w') = cr_pc (w_commit w) \<and>
     cr_insn (w_commit w') = cr_insn (w_commit w) \<and> cr_len (w_commit w') = cr_len (w_commit w) \<and>
     cr_next_pc (w_commit w') = so_next_pc out \<and>
     (if di_mnemonic d = ''EBREAK'' \<or> di_mnemonic d = ''C.EBREAK''
      then so_exit out = Some Breakpoint \<and> cr_trap_valid (w_commit w') = 1
      else cr_trap_valid (w_commit w') = cr_trap_valid (w_commit w) \<and>
        (so_exit out = None \<or> (\<exists>code. so_exit out = Some (GuestExit code))))"
  using step_ok_facts [OF assms(1)] assms(2) by blast

text \<open>A program that is one breakpoint.\<close>

definition ebreak_form :: DecodeForm where
  "ebreak_form = \<lparr>fm_uid = ''c_ebreak'', fm_mnemonic = ''C.EBREAK'', fm_asm = ''c.ebreak'', fm_group = ''sys'', fm_encoding_kind = ''L16'',
     fm_length_bits = 16, fm_mask = 0xFFFF, fm_match_bits = 0x0707, fm_mask_popcount = 16, fm_uop_group = ''SYS'', fm_fields = []\<rparr>"

lemma step_leaves_consistent_commit_witness:
  "\<exists>w' out. execute_step sample_host sample_runtime (render_decoded ebreak_form 0x0707070707070707) sample_world = StepOk w' out \<and>
     regs_ok (w_exec w') \<and> cr_next_pc (w_commit w') = so_next_pc out \<and> cr_trap_valid (w_commit w') = 1"
proof -
  let ?d = "render_decoded ebreak_form 0x0707070707070707"
  have m: "di_mnemonic ?d = ''C.EBREAK''" by (simp add: render_decoded_def ebreak_form_def)
  then obtain w' out where s: "execute_step sample_host sample_runtime ?d sample_world = StepOk w' out"
    by (simp add: step_ebreak exec_ebreak_def)
  have "regs_ok (w_exec sample_world)" by (simp add: regs_ok_def REG_ZERO_def)
  from step_leaves_consistent_commit [OF s this] s m show ?thesis by simp
qed

end
