(* ===== verification/Func_Steps.thy ===== *)
theory Func_Steps
  imports Func_Run
begin

text \<open>The run loop as a machine: a small-step relation with one rule for each way a pass of the loop ends, its agreement
  with the passes of the loop and with the loop, and the two interfaces through which an invariant of the run is proved
  once, for the states the machine reaches and for what the loop returns.\<close>

section \<open>The machine\<close>

datatype 'h machine = Running "'h run_state" | Stopped "'h run_state" string

text \<open>The step counter is visible to the guest as a system register.\<close>

definition tick :: "'h run_state \<Rightarrow> 'h run_state" where
  "tick r = r\<lparr>fs_exec := (fs_exec r)\<lparr>xs_ssr := bt_insert 0x0C00 (word_of_nat (fs_step r)) (xs_ssr (fs_exec r))\<rparr>\<rparr>"

definition run_pc :: "'h run_state \<Rightarrow> u64" where
  "run_pc r = xs_pc (fs_exec r)"

definition fetched :: "'h run_state \<Rightarrow> u64 option" where
  "fetched r = fetch_u64_bundle (xs_memory (fs_exec r)) (run_pc r)"

definition next_insn :: "DecodeForm list \<Rightarrow> 'h run_state \<Rightarrow> DecodedInstruction option" where
  "next_insn forms r = Option.bind (fetched r) (decode_word forms)"

definition closes_block :: "DecodedInstruction \<Rightarrow> 'h run_state \<Rightarrow> bool" where
  "closes_block d r = (xs_block (fs_exec r) \<noteq> None \<and> starts_new_block d)"

text \<open>The state in which \<open>d\<close> executes: a block it closes has fallen through to it.\<close>

definition issued :: "DecodedInstruction \<Rightarrow> 'h run_state \<Rightarrow> 'h run_state option" where
  "issued d r =
     (if closes_block d r
      then (case resolve_block_end (fs_exec r) (run_pc r) of
              Some (s, pc) \<Rightarrow> if pc = run_pc r then Some (r\<lparr>fs_exec := s\<rparr>) else None
            | None \<Rightarrow> None)
      else Some r)"

definition step_world :: "GuestRuntime \<Rightarrow> DecodedInstruction \<Rightarrow> 'h run_state \<Rightarrow> 'h World" where
  "step_world rt d r = \<lparr>w_exec = fs_exec r, w_commit = empty_commit (fs_step r) (run_pc r) d rt, w_host = fs_host r\<rparr>"

definition step_events :: "GuestRuntime \<Rightarrow> DecodedInstruction \<Rightarrow> string \<Rightarrow> cyc \<Rightarrow> StageTraceEvent list" where
  "step_events rt d cause step =
     [func_stage_event (step * 4) rt ''F0'' ''fetch'', func_stage_event (step * 4 + 1) rt ''D1'' (''decode:'' @ di_mnemonic d),
      func_stage_event (step * 4 + 2) rt ''E1'' cause, func_stage_event (step * 4 + 3) rt ''CMT'' ''retire'']"

definition retired :: "GuestRuntime \<Rightarrow> DecodedInstruction \<Rightarrow> 'h World \<Rightarrow> u64 \<Rightarrow> string \<Rightarrow> 'h run_state \<Rightarrow> 'h run_state" where
  "retired rt d w pc cause r =
     r\<lparr>fs_exec := (w_exec w)\<lparr>xs_pc := pc\<rparr>, fs_host := w_host w, fs_commits := fs_commits r @ [w_commit w],
       fs_decoded := fs_decoded r @ [d], fs_events := fs_events r @ step_events rt d cause (fs_step r), fs_step := fs_step r + 1\<rparr>"

definition faulted :: "u64 \<Rightarrow> DecodedInstruction \<Rightarrow> 'h World \<Rightarrow> 'h World" where
  "faulted pc d w = w\<lparr>w_commit := fault_commit pc d (w_commit w)\<rparr>"

definition missed :: "GuestRuntime \<Rightarrow> u64 \<Rightarrow> 'h run_state \<Rightarrow> 'h run_state" where
  "missed rt bundle r =
     r\<lparr>fs_commits := fs_commits r @ [decode_miss_commit (fs_step r) (run_pc r) bundle rt],
       fs_events := fs_events r @ [func_stage_event (fs_step r) rt ''D1'' ''decode_miss'']\<rparr>"

text \<open>The rules of the loop: it is at its limit, the fetched bundle does not decode, the instruction closes a block that
  ends elsewhere, or the instruction executes, exits, or is not supported.\<close>

inductive func_step :: "DecodeForm list \<Rightarrow> 'h Host \<Rightarrow> GuestRuntime \<Rightarrow> nat \<Rightarrow> 'h machine \<Rightarrow> 'h machine \<Rightarrow> bool"
  for forms host rt n where
  limit: "n \<le> fs_step r \<Longrightarrow> func_step forms host rt n (Running r) (Stopped r ''step_limit'')"
| decode_miss: "fs_step r < n \<Longrightarrow> fetched r = Some bundle \<Longrightarrow> decode_word forms bundle = None \<Longrightarrow>
    func_step forms host rt n (Running r) (Stopped (missed rt bundle (tick r)) ''decode_fault'')"
| block_end: "fs_step r < n \<Longrightarrow> next_insn forms r = Some d \<Longrightarrow> closes_block d r \<Longrightarrow>
    resolve_block_end (fs_exec (tick r)) (run_pc r) = Some (s, pc) \<Longrightarrow> pc \<noteq> run_pc r \<Longrightarrow>
    func_step forms host rt n (Running r) (Running ((tick r)\<lparr>fs_exec := s\<lparr>xs_pc := pc\<rparr>\<rparr>))"
| execute: "fs_step r < n \<Longrightarrow> next_insn forms r = Some d \<Longrightarrow> issued d (tick r) = Some r1 \<Longrightarrow>
    execute_step host rt d (step_world rt d r1) = StepOk w out \<Longrightarrow> so_exit out = None \<Longrightarrow>
    func_step forms host rt n (Running r) (Running (retired rt d w (so_next_pc out) (so_retire_cause out) r1))"
| exit: "fs_step r < n \<Longrightarrow> next_insn forms r = Some d \<Longrightarrow> issued d (tick r) = Some r1 \<Longrightarrow>
    execute_step host rt d (step_world rt d r1) = StepOk w out \<Longrightarrow> so_exit out = Some e \<Longrightarrow>
    func_step forms host rt n (Running r) (Stopped (retired rt d w (so_next_pc out) (so_retire_cause out) r1) (exit_text e))"
| fault: "fs_step r < n \<Longrightarrow> next_insn forms r = Some d \<Longrightarrow> issued d (tick r) = Some r1 \<Longrightarrow>
    execute_step host rt d (step_world rt d r1) = StepErr w \<Longrightarrow>
    func_step forms host rt n (Running r)
      (Stopped (retired rt d (faulted (run_pc r) d w) (run_pc r) (''unsupported:'' @ di_mnemonic d) r1) ''unsupported_instruction'')"

inductive_cases stopped_step [elim!]: "func_step forms host rt n (Stopped r reason) c"
inductive_cases running_step: "func_step forms host rt n (Running r) c"

section \<open>The machine and the loop\<close>

lemma tick_sel [simp]:
  "fs_step (tick r) = fs_step r" "fs_host (tick r) = fs_host r" "fs_commits (tick r) = fs_commits r"
  "fs_decoded (tick r) = fs_decoded r" "fs_events (tick r) = fs_events r" "run_pc (tick r) = run_pc r"
  "fetched (tick r) = fetched r" "next_insn forms (tick r) = next_insn forms r" "closes_block d (tick r) = closes_block d r"
  "xs_pc (fs_exec (tick r)) = xs_pc (fs_exec r)" "xs_memory (fs_exec (tick r)) = xs_memory (fs_exec r)"
  "xs_block (fs_exec (tick r)) = xs_block (fs_exec r)"
  by (simp_all add: tick_def run_pc_def fetched_def next_insn_def closes_block_def)

lemma resolve_block_end_pc: "resolve_block_end s f = Some (s', pc) \<Longrightarrow> xs_pc s' = xs_pc s"
  by (auto simp: resolve_block_end_def default_return_def write_reg_def end_block_def
      split: option.splits BlockKind.splits if_splits)

lemma issued_frame:
  assumes "issued d r = Some r1"
  shows "fs_step r1 = fs_step r" "fs_host r1 = fs_host r" "fs_commits r1 = fs_commits r" "fs_decoded r1 = fs_decoded r"
    "fs_events r1 = fs_events r" "run_pc r1 = run_pc r"
  using assms by (auto simp: issued_def run_pc_def split: if_splits option.splits dest!: resolve_block_end_pc)

lemma issued_elsewhere: "closes_block d r \<Longrightarrow> resolve_block_end (fs_exec r) (run_pc r) = Some (s, pc) \<Longrightarrow> pc \<noteq> run_pc r \<Longrightarrow> issued d r = None"
  by (simp add: issued_def)

lemma retire_step_eq:
  "retire_step rt d (w_exec w) (w_host w) (w_commit w) out r =
     (case so_exit out of None \<Rightarrow> PassNext (retired rt d w (so_next_pc out) (so_retire_cause out) r)
      | Some e \<Rightarrow> PassBreak (retired rt d w (so_next_pc out) (so_retire_cause out) r) (exit_text e))"
  by (cases "so_exit out") (simp_all add: retire_step_def retired_def step_events_def Let_def)

text \<open>What a pass of the loop does with a fetched and decoded instruction.\<close>

lemma run_instruction_eq:
  "run_instruction host rt d r =
     (case execute_step host rt d (step_world rt d r) of
        StepOk w out \<Rightarrow> (case so_exit out of None \<Rightarrow> PassNext (retired rt d w (so_next_pc out) (so_retire_cause out) r)
           | Some e \<Rightarrow> PassBreak (retired rt d w (so_next_pc out) (so_retire_cause out) r) (exit_text e))
      | StepErr w \<Rightarrow> PassBreak (retired rt d (faulted (run_pc r) d w) (run_pc r) (''unsupported:'' @ di_mnemonic d) r) ''unsupported_instruction''
      | StepPanic \<Rightarrow> PassPanic | StepHang \<Rightarrow> PassHang)"
proof -
  have f: "retire_step rt d (w_exec w) (w_host w) (fault_commit (run_pc r) d (w_commit w))
     \<lparr>so_next_pc = run_pc r, so_exit = Some Fault, so_retire_cause = ''unsupported:'' @ di_mnemonic d\<rparr> r =
    PassBreak (retired rt d (faulted (run_pc r) d w) (run_pc r) (''unsupported:'' @ di_mnemonic d) r) ''unsupported_instruction''" for w
    using retire_step_eq [of rt d "faulted (run_pc r) d w" _ r] by (simp add: faulted_def exit_text_def)
  show ?thesis unfolding run_instruction_def Let_def run_pc_def [symmetric] step_world_def [symmetric]
    by (simp only: retire_step_eq f cong: step_result.case_cong)
qed

lemma run_pass_eq:
  "run_pass forms host rt r =
     (case fetched r of None \<Rightarrow> PassErr
      | Some bundle \<Rightarrow> (case decode_word forms bundle of
          None \<Rightarrow> PassBreak (missed rt bundle (tick r)) ''decode_fault''
        | Some d \<Rightarrow> (case issued d (tick r) of
            Some r1 \<Rightarrow> run_instruction host rt d r1
          | None \<Rightarrow> (case resolve_block_end (fs_exec (tick r)) (run_pc r) of None \<Rightarrow> PassPanic
              | Some (s, pc) \<Rightarrow> PassNext ((tick r)\<lparr>fs_exec := s\<lparr>xs_pc := pc\<rparr>\<rparr>)))))"
proof -
  have t: "tick r = r\<lparr>fs_exec := (fs_exec r)\<lparr>xs_ssr := bt_insert 0x0C00 (word_of_nat (fs_step r)) (xs_ssr (fs_exec r))\<rparr>\<rparr>"
    by (simp add: tick_def)
  show ?thesis unfolding run_pass_def Let_def t [symmetric]
    by (auto simp: fetched_def missed_def issued_def closes_block_def run_pc_def tick_def split: option.split)
qed

text \<open>A running machine steps exactly as the loop passes; a stopped one stays.\<close>

definition machine_of :: "'h pass \<Rightarrow> 'h machine option" where
  "machine_of p = (case p of PassNext r \<Rightarrow> Some (Running r) | PassBreak r reason \<Rightarrow> Some (Stopped r reason) | _ \<Rightarrow> None)"

lemma next_insn_iff: "next_insn forms r = Some d \<longleftrightarrow> (\<exists>bundle. fetched r = Some bundle \<and> decode_word forms bundle = Some d)"
  by (cases "fetched r") (simp_all add: next_insn_def)

lemma func_step_pass:
  "func_step forms host rt n (Running r) c \<longleftrightarrow>
     (if fs_step r < n then machine_of (run_pass forms host rt r) = Some c else c = Stopped r ''step_limit'')"
proof (cases "fs_step r < n")
  case False
  then show ?thesis by (auto elim: running_step intro: func_step.intros)
next
  case True
  have "func_step forms host rt n (Running r) c" if m: "machine_of (run_pass forms host rt r) = Some c"
  proof (cases "fetched r")
    case None
    then show ?thesis using m by (simp add: run_pass_eq machine_of_def)
  next
    case (Some code)
    note f = this
    show ?thesis
    proof (cases "decode_word forms code")
      case None
      then show ?thesis using m f func_step.decode_miss [OF True f None] by (auto simp: run_pass_eq machine_of_def)
    next
      case (Some d)
      then have i: "next_insn forms r = Some d" using f by (simp add: next_insn_iff)
      show ?thesis
      proof (cases "issued d (tick r)")
        case None
        then show ?thesis using m f Some func_step.block_end [OF True i]
          by (auto simp: run_pass_eq machine_of_def issued_def split: option.splits if_splits)
      next
        case (Some r1)
        note p = func_step.execute [OF True i Some] func_step.exit [OF True i Some] func_step.fault [OF True i Some]
        show ?thesis using m f \<open>decode_word forms code = Some d\<close> Some p issued_frame(6) [OF Some]
          by (auto simp: run_pass_eq run_instruction_eq machine_of_def split: step_result.splits option.splits)
      qed
    qed
  qed
  moreover have "machine_of (run_pass forms host rt r) = Some c" if "func_step forms host rt n (Running r) c"
    using that
  proof cases
    case (block_end d s pc)
    then show ?thesis using issued_elsewhere [of d "tick r" s pc] by (auto simp: run_pass_eq machine_of_def next_insn_iff)
  next
    case (fault d r1 w)
    then show ?thesis using issued_frame(6) [OF fault(4)]
      by (auto simp: run_pass_eq run_instruction_eq machine_of_def next_insn_iff)
  qed (use True in \<open>auto simp: run_pass_eq run_instruction_eq machine_of_def next_insn_iff\<close>)
  ultimately show ?thesis using True by auto
qed

text \<open>The machine is deterministic.\<close>

lemma func_step_deterministic: "func_step forms host rt n c c1 \<Longrightarrow> func_step forms host rt n c c2 \<Longrightarrow> c1 = c2"
  by (cases c) (auto simp: func_step_pass split: if_splits)

abbreviation func_steps :: "DecodeForm list \<Rightarrow> 'h Host \<Rightarrow> GuestRuntime \<Rightarrow> nat \<Rightarrow> 'h machine \<Rightarrow> 'h machine \<Rightarrow> bool" where
  "func_steps forms host rt n \<equiv> (func_step forms host rt n)\<^sup>*\<^sup>*"

lemma func_steps_Stopped: "func_steps forms host rt n (Stopped r reason) c \<Longrightarrow> c = Stopped r reason"
  by (erule converse_rtranclpE) auto

lemma func_steps_limit:
  assumes "\<not> fs_step r < n"
  shows "func_steps forms host rt n (Running r) c \<longleftrightarrow> c = Running r \<or> c = Stopped r ''step_limit''"
proof
  assume "func_steps forms host rt n (Running r) c"
  then show "c = Running r \<or> c = Stopped r ''step_limit''"
    by (cases rule: converse_rtranclpE) (use assms in \<open>auto simp: func_step_pass dest: func_steps_Stopped\<close>)
next
  have "func_steps forms host rt n (Running r) (Stopped r ''step_limit'')" using assms by (intro r_into_rtranclp) (simp add: func_step_pass)
  then show "c = Running r \<or> c = Stopped r ''step_limit'' \<Longrightarrow> func_steps forms host rt n (Running r) c" by auto
qed

lemma func_steps_pass:
  assumes "fs_step r < n"
  shows "func_steps forms host rt n (Running r) c \<longleftrightarrow>
    c = Running r \<or> (\<exists>m. machine_of (run_pass forms host rt r) = Some m \<and> func_steps forms host rt n m c)"
proof
  assume "func_steps forms host rt n (Running r) c"
  then show "c = Running r \<or> (\<exists>m. machine_of (run_pass forms host rt r) = Some m \<and> func_steps forms host rt n m c)"
    by (cases rule: converse_rtranclpE) (use assms in \<open>auto simp: func_step_pass\<close>)
qed (use assms in \<open>auto simp: func_step_pass intro: converse_rtranclp_into_rtranclp\<close>)

section \<open>The loop runs the machine\<close>

text \<open>What the loop returns, seen from the states the machine reaches.\<close>

lemma func_run_loop_machine:
  "(func_run_loop forms host rt n r = LoopDone r' reason \<longleftrightarrow> func_steps forms host rt n (Running r) (Stopped r' reason)) \<and>
   (func_run_loop forms host rt n r = LoopErr \<longleftrightarrow>
      (\<exists>q. func_steps forms host rt n (Running r) (Running q) \<and> fs_step q < n \<and> run_pass forms host rt q = PassErr)) \<and>
   (func_run_loop forms host rt n r = LoopPanic \<longleftrightarrow>
      (\<exists>q. func_steps forms host rt n (Running r) (Running q) \<and> fs_step q < n \<and> run_pass forms host rt q = PassPanic)) \<and>
   (func_run_loop forms host rt n r = LoopHang \<longleftrightarrow>
      (\<exists>q. func_steps forms host rt n (Running r) (Running q) \<and> fs_step q < n \<and> run_pass forms host rt q = PassHang))"
proof (induction forms host rt n r rule: func_run_loop.induct)
  case (1 forms host rt n r)
  note u = func_run_loop.simps [of forms host rt n r]
  show ?case
  proof (cases "fs_step r < n")
    case False
    then show ?thesis using func_steps_limit [OF False, of forms host rt] by (auto simp: u)
  next
    case True
    note s = func_steps_pass [OF True, of forms host rt]
    show ?thesis
    proof (cases "run_pass forms host rt r")
      case (PassNext q)
      then show ?thesis using "1.IH" [OF True PassNext] True by (auto simp: u s machine_of_def)
    next
      case (PassBreak q why)
      then show ?thesis using True by (auto simp: u s machine_of_def dest: func_steps_Stopped)
    qed (use True in \<open>auto simp: u s machine_of_def\<close>)
  qed
qed

section \<open>Invariants of a run\<close>

text \<open>\<open>J\<close> holds while the loop runs, and \<open>K\<close> when it stops with a reason.\<close>

locale run_invariant =
  fixes forms :: "DecodeForm list" and host :: "'h Host" and rt :: GuestRuntime and n :: nat
    and J :: "'h run_state \<Rightarrow> bool" and K :: "'h run_state \<Rightarrow> string \<Rightarrow> bool"
  assumes pass: "J r \<Longrightarrow> fs_step r < n \<Longrightarrow> run_pass forms host rt r = PassNext r' \<Longrightarrow> J r'"
    and stop: "J r \<Longrightarrow> fs_step r < n \<Longrightarrow> run_pass forms host rt r = PassBreak r' reason \<Longrightarrow> K r' reason"
    and limit: "J r \<Longrightarrow> n \<le> fs_step r \<Longrightarrow> K r ''step_limit''"
begin

definition holds :: "'h machine \<Rightarrow> bool" where
  "holds c = (case c of Running r \<Rightarrow> J r | Stopped r reason \<Rightarrow> K r reason)"

lemma holds_step: "func_step forms host rt n c c' \<Longrightarrow> holds c \<Longrightarrow> holds c'"
  by (cases c) (auto simp: func_step_pass holds_def machine_of_def limit split: if_splits pass.splits intro: pass stop)

lemma holds_reached: "func_steps forms host rt n c c' \<Longrightarrow> holds c \<Longrightarrow> holds c'"
  by (induction rule: rtranclp_induct) (auto dest: holds_step)

lemma run: "func_run_loop forms host rt n r = LoopDone r' reason \<Longrightarrow> J r \<Longrightarrow> K r' reason"
  using holds_reached [of "Running r" "Stopped r' reason"] func_run_loop_machine [of forms host rt n r r' reason] by (simp add: holds_def)

lemma running: "func_steps forms host rt n (Running r) (Running r') \<Longrightarrow> J r \<Longrightarrow> J r'"
  using holds_reached [of "Running r" "Running r'"] by (simp add: holds_def)

end

text \<open>A property of the executor state that steps and block ends keep, and that does not look at the program counter, holds
  through the run.\<close>

locale exec_invariant =
  fixes host :: "'h Host" and rt :: GuestRuntime and P :: "ExecState \<Rightarrow> bool"
  assumes pc: "P (s\<lparr>xs_pc := p\<rparr>) = P s"
    and ssr: "P (s\<lparr>xs_ssr := x\<rparr>) = P s"
    and block: "P s \<Longrightarrow> resolve_block_end s f = Some (s', q) \<Longrightarrow> P s'"
    and ok: "P (w_exec w) \<Longrightarrow> execute_step host rt d w = StepOk w' out \<Longrightarrow> P (w_exec w')"
    and err: "P (w_exec w) \<Longrightarrow> execute_step host rt d w = StepErr w' \<Longrightarrow> P (w_exec w')"
begin

lemma tick_kept: "P (fs_exec (tick r)) = P (fs_exec r)"
  by (simp add: tick_def ssr)

lemma issued_kept:
  assumes "issued d r = Some r1" "P (fs_exec r)"
  shows "P (fs_exec r1)"
  using assms block [OF assms(2)] by (auto simp: issued_def split: if_splits option.splits)

lemma executed_kept:
  assumes "P (fs_exec r)" "issued d (tick r) = Some r1"
  shows "execute_step host rt d (step_world rt d r1) = StepOk w out \<Longrightarrow> P (w_exec w)"
    "execute_step host rt d (step_world rt d r1) = StepErr w \<Longrightarrow> P (w_exec w)"
proof -
  have w: "P (w_exec (step_world rt d r1))" using issued_kept [OF assms(2)] assms(1) by (simp add: tick_kept step_world_def)
  show "execute_step host rt d (step_world rt d r1) = StepOk w out \<Longrightarrow> P (w_exec w)" by (rule ok [OF w])
  show "execute_step host rt d (step_world rt d r1) = StepErr w \<Longrightarrow> P (w_exec w)" by (rule err [OF w])
qed

lemma step_kept:
  assumes "func_step forms host rt n (Running r) c" "P (fs_exec r)"
  shows "case c of Running r' \<Rightarrow> P (fs_exec r') | Stopped r' reason \<Rightarrow> P (fs_exec r')"
  using assms(1)
proof cases
  case (block_end d s p)
  then show ?thesis using block [OF _ block_end(5)] assms(2) by (simp add: pc tick_kept)
next
  case (execute d r1 w out)
  then show ?thesis using executed_kept(1) [OF assms(2) execute(4,5)] by (simp add: retired_def pc)
next
  case (exit d r1 w out e)
  then show ?thesis using executed_kept(1) [OF assms(2) exit(4,5)] by (simp add: retired_def pc)
next
  case (fault d r1 w)
  then show ?thesis using executed_kept(2) [OF assms(2) fault(4,5)] by (simp add: retired_def faulted_def pc)
qed (use assms(2) in \<open>simp_all add: missed_def tick_kept\<close>)

end

sublocale exec_invariant \<subseteq> runs: run_invariant forms host rt n "\<lambda>r. P (fs_exec r)" "\<lambda>r reason. P (fs_exec r)" for forms n
proof unfold_locales
  fix r r' :: "'h run_state" and reason
  assume J: "P (fs_exec r)"
  note s = step_kept [OF _ J, of forms n "Running r'"] step_kept [OF _ J, of forms n "Stopped r' reason"]
  show "fs_step r < n \<Longrightarrow> run_pass forms host rt r = PassNext r' \<Longrightarrow> P (fs_exec r')"
    using s(1) by (simp add: func_step_pass machine_of_def)
  show "fs_step r < n \<Longrightarrow> run_pass forms host rt r = PassBreak r' reason \<Longrightarrow> P (fs_exec r')"
    using s(2) by (simp add: func_step_pass machine_of_def)
qed

end
