(* ===== verification/Func_Trace.thy ===== *)
theory Func_Trace
  imports Func_Invariants Func_Steps
begin

text \<open>
  The trace a run of the functional engine leaves: the invariant of its loop on commits, decoded instructions and
  stage events, and what the result of \<open>func_engine_run\<close> promises to the engines and tools that read it.
\<close>

section \<open>The trace of a run\<close>

text \<open>The commits a run has recorded match the instructions it has decoded: the commits are numbered, and each
  carries the encoding and the length of its instruction.\<close>

definition commits_match :: "CommitRecord list \<Rightarrow> DecodedInstruction list \<Rightarrow> bool" where
  "commits_match commits decoded =
     (map cr_cycle commits = [0..<length decoded] \<and>
      map cr_insn commits = map di_instruction_bits decoded \<and>
      map cr_len commits = map (\<lambda>d. word_of_nat (length_bytes d)) decoded)"

text \<open>The cycle, row and stage of an event, and the four events of the instruction of step \<open>i\<close>.\<close>

definition event_mark :: "StageTraceEvent \<Rightarrow> cyc \<times> string \<times> string" where
  "event_mark e = (ev_cycle e, ev_row_id e, ev_stage_id e)"

definition step_marks :: "nat \<Rightarrow> (cyc \<times> string \<times> string) list" where
  "step_marks i =
     [(4 * i, ''uop'' @ show_nat (4 * i), ''F0''), (4 * i + 1, ''uop'' @ show_nat (4 * i + 1), ''D1''),
      (4 * i + 2, ''uop'' @ show_nat (4 * i + 2), ''E1''), (4 * i + 3, ''uop'' @ show_nat (4 * i + 3), ''CMT'')]"

definition run_marks :: "nat \<Rightarrow> string \<Rightarrow> (cyc \<times> string \<times> string) list" where
  "run_marks n reason =
     concat (map step_marks [0..<n]) @ (if reason = ''decode_fault'' then [(n, ''uop'' @ show_nat n, ''D1'')] else [])"

definition trap_reason :: "string \<Rightarrow> bool" where
  "trap_reason reason = (reason \<in> {''decode_fault'', ''breakpoint'', ''unsupported_instruction''})"

definition trace_inv :: "'h run_state \<Rightarrow> bool" where
  "trace_inv r =
     (length (fs_decoded r) = fs_step r \<and> map event_mark (fs_events r) = concat (map step_marks [0..<fs_step r]) \<and>
      commits_match (fs_commits r) (fs_decoded r) \<and> (\<forall>c \<in> set (fs_commits r). cr_trap_valid c = 0))"

text \<open>A finished run: the commits, all matched but the one of a bundle that did not decode, the trap flag on the last
  commit exactly when the reason says that the run trapped.\<close>

definition trace_end :: "CommitRecord list \<Rightarrow> DecodedInstruction list \<Rightarrow> string \<Rightarrow> bool" where
  "trace_end commits decoded reason =
     (if reason = ''decode_fault''
      then \<exists>cs c. commits = cs @ [c] \<and> commits_match cs decoded \<and> (\<forall>x \<in> set cs. cr_trap_valid x = 0) \<and>
             cr_cycle c = length decoded \<and> cr_trap_valid c = 1 \<and> cr_trap_cause c = TRAP_ILLEGAL_INST \<and> cr_next_pc c = cr_pc c
      else commits_match commits decoded \<and> (\<forall>x \<in> set (butlast commits). cr_trap_valid x = 0) \<and>
        (commits \<noteq> [] \<longrightarrow> (cr_trap_valid (last commits) = 1) = trap_reason reason) \<and>
        (trap_reason reason \<longrightarrow> commits \<noteq> []))"

lemma commits_match_snoc:
  "commits_match cs ds \<Longrightarrow> cr_cycle c = length ds \<Longrightarrow> cr_insn c = di_instruction_bits d \<Longrightarrow>
    cr_len c = word_of_nat (length_bytes d) \<Longrightarrow> commits_match (cs @ [c]) (ds @ [d])"
  by (simp add: commits_match_def)

lemma commits_match_length: "commits_match cs ds \<Longrightarrow> length cs = length ds"
  unfolding commits_match_def by (metis length_map)

lemma event_mark_func [simp]: "event_mark (func_stage_event c rt stage cause) = (c, ''uop'' @ show_nat c, stage)"
  by (simp add: event_mark_def func_stage_event_def)

lemmas event_marks = step_marks_def run_marks_def mult.commute

lemma trace_inv_commits: "trace_inv r \<Longrightarrow> length (fs_commits r) = fs_step r"
  by (auto simp: trace_inv_def dest: commits_match_length)

lemma trace_inv_exec [simp]: "trace_inv (r\<lparr>fs_exec := s\<rparr>) = trace_inv r"
  by (simp add: trace_inv_def)

lemma exit_text_reason: "trap_reason (exit_text e) = (e \<in> {Breakpoint, Fault})" "exit_text e \<noteq> ''decode_fault''"
  "exit_text e \<noteq> ''step_limit''"
  by (cases e; simp add: exit_text_def trap_reason_def)+

text \<open>What a pass leaves.\<close>

fun pass_ok :: "nat \<Rightarrow> 'h pass \<Rightarrow> bool" where
  "pass_ok n (PassNext r) = trace_inv r"
| "pass_ok n (PassBreak r reason) =
     (trace_end (fs_commits r) (fs_decoded r) reason \<and> length (fs_commits r) = n + 1 \<and> reason \<noteq> ''step_limit'' \<and>
      map event_mark (fs_events r) = run_marks (length (fs_decoded r)) reason)"
| "pass_ok n _ = True"

lemma retire_step_trace:
  assumes r: "trace_inv r" and c: "cr_cycle c = fs_step r" "cr_insn c = di_instruction_bits d"
      "cr_len c = word_of_nat (length_bytes d)"
    and t: "cr_trap_valid c = (if so_exit out \<in> {Some Breakpoint, Some Fault} then 1 else 0)"
  shows "pass_ok (fs_step r) (retire_step rt d s h c out r)"
proof -
  have m: "commits_match (fs_commits r @ [c]) (fs_decoded r @ [d])"
    using r c by (intro commits_match_snoc) (simp_all add: trace_inv_def)
  have n: "length (fs_commits r) = fs_step r" using r by (rule trace_inv_commits)
  show ?thesis
  proof (cases "so_exit out")
    case None
    then show ?thesis using r m t by (simp add: retire_step_def trace_inv_def Let_def event_marks)
  next
    case (Some e)
    then show ?thesis using r m n t exit_text_reason [of e]
      by (simp add: retire_step_def trace_inv_def trace_end_def Let_def event_marks)
  qed
qed

lemma run_instruction_trace:
  assumes "trace_inv r"
  shows "pass_ok (fs_step r) (run_instruction host rt d r)"
proof -
  define w where "w = \<lparr>w_exec = fs_exec r, w_commit = empty_commit (fs_step r) (xs_pc (fs_exec r)) d rt, w_host = fs_host r\<rparr>"
  note run = run_instruction_def [of host rt d r, unfolded Let_def, folded w_def]
  have w: "cr_cycle (w_commit w) = fs_step r" "cr_insn (w_commit w) = di_instruction_bits d"
    "cr_len (w_commit w) = word_of_nat (length_bytes d)" "cr_trap_valid (w_commit w) = 0"
    by (simp_all add: w_def empty_commit_def unsupported_def)
  show ?thesis
  proof (cases "execute_step host rt d w")
    case (StepOk w' out)
    note f = step_ok_facts [OF StepOk]
    then have "cr_trap_valid (w_commit w') = (if so_exit out \<in> {Some Breakpoint, Some Fault} then 1 else 0)"
      using w(4) by (auto split: if_splits)
    then show ?thesis unfolding run StepOk step_result.case
      using f w(1-3) by (intro retire_step_trace [OF assms]) simp_all
  next
    case (StepErr w')
    then show ?thesis unfolding run StepErr step_result.case
      using step_err_facts [OF StepErr] w(1-3)
      by (intro retire_step_trace [OF assms]) (simp_all add: fault_commit_def commit_id_def)
  qed (simp_all add: run)
qed

lemma run_pass_trace:
  assumes "trace_inv r"
  shows "pass_ok (fs_step r) (run_pass forms host rt r)"
proof -
  have "pass_ok (fs_step r) (run_instruction host rt d (r\<lparr>fs_exec := s\<rparr>))" for d s
    using run_instruction_trace [of "r\<lparr>fs_exec := s\<rparr>" host rt d] assms by simp
  moreover have "length (fs_commits r) = fs_step r" using assms by (rule trace_inv_commits)
  ultimately show ?thesis using assms unfolding run_pass_def Let_def
    by (auto split: option.split
        simp: trace_inv_def trace_end_def decode_miss_commit_def unsupported_def event_marks)
qed

text \<open>The trace invariant through the run.\<close>

interpretation trace: run_invariant forms host rt n "\<lambda>r. trace_inv r \<and> fs_step r \<le> n"
  "\<lambda>r reason. trace_end (fs_commits r) (fs_decoded r) reason \<and> length (fs_commits r) \<le> n \<and>
    map event_mark (fs_events r) = run_marks (length (fs_decoded r)) reason \<and> (reason = ''step_limit'' \<longrightarrow> length (fs_commits r) = n)"
  for forms :: "DecodeForm list" and host :: "'h Host" and rt n
proof unfold_locales
  fix r r' :: "'h run_state" and reason
  assume r: "trace_inv r \<and> fs_step r \<le> n"
  then have ok: "pass_ok (fs_step r) (run_pass forms host rt r)" by (intro run_pass_trace) simp
  show "fs_step r < n \<Longrightarrow> run_pass forms host rt r = PassNext r' \<Longrightarrow> trace_inv r' \<and> fs_step r' \<le> n"
    using ok run_pass_progress [of forms host rt r r'] by auto
  show "fs_step r < n \<Longrightarrow> run_pass forms host rt r = PassBreak r' reason \<Longrightarrow>
    trace_end (fs_commits r') (fs_decoded r') reason \<and> length (fs_commits r') \<le> n \<and>
    map event_mark (fs_events r') = run_marks (length (fs_decoded r')) reason \<and> (reason = ''step_limit'' \<longrightarrow> length (fs_commits r') = n)"
    using ok by auto
  show "n \<le> fs_step r \<Longrightarrow> trace_end (fs_commits r) (fs_decoded r) ''step_limit'' \<and> length (fs_commits r) \<le> n \<and>
    map event_mark (fs_events r) = run_marks (length (fs_decoded r)) ''step_limit'' \<and> (''step_limit'' = ''step_limit'' \<longrightarrow> length (fs_commits r) = n)"
    using r by (auto simp: trace_inv_def trace_end_def trap_reason_def run_marks_def commits_match_length dest: in_set_butlastD)
qed

lemma func_run_traced:
  assumes "func_engine_run forms host h rt max_steps = RunOk b h'"
  shows "length (rr_commits (fb_result b)) \<le> max_steps \<and>
    rm_commits (rr_metrics (fb_result b)) = length (rr_commits (fb_result b)) \<and>
    trace_end (rr_commits (fb_result b)) (rr_decoded (fb_result b)) (rm_exit_reason (rr_metrics (fb_result b))) \<and>
    map event_mark (fb_stage_events b) =
      run_marks (length (rr_decoded (fb_result b))) (rm_exit_reason (rr_metrics (fb_result b))) \<and>
    (rm_exit_reason (rr_metrics (fb_result b)) = ''step_limit'' \<longrightarrow> length (rr_commits (fb_result b)) = max_steps)"
proof -
  obtain r reason where r: "func_run_loop forms host rt max_steps (initial_run_state host h rt) = LoopDone r reason"
    and b: "b = bundle_of rt r reason"
    using assms by (auto simp: func_engine_run_def split: loop_end.splits)
  have "trace_inv (initial_run_state host h rt)"
    by (simp add: trace_inv_def initial_run_state_def commits_match_def)
  then show ?thesis using trace.run [OF r] by (simp add: b bundle_of_def initial_run_state_def)
qed

lemma func_run_metrics:
  assumes "func_engine_run forms host h rt max_steps = RunOk b h'"
  shows "rm_commits (rr_metrics (fb_result b)) \<le> max_steps \<and>
    rm_cycles (rr_metrics (fb_result b)) = sat_mul (rm_commits (rr_metrics (fb_result b))) 4"
  using func_run_traced [OF assms] assms by (auto simp: func_engine_run_def bundle_of_def split: loop_end.splits)

text \<open>C6: the trace of a run. A run that returns within \<open>max_steps\<close> commits; its commits are numbered from 0 and
  carry, one to one, the encodings and lengths of the decoded instructions, each with four stage
  events; only the
  last commit can carry a trap, and it does exactly when the exit reason is a breakpoint, an illegal
  instruction or a bundle that did not decode; in that last case there is one commit more than decoded
  instructions. The step limit is reported only when it was used up.\<close>

theorem func_run_trace:
  assumes "func_engine_run forms host h rt max_steps = RunOk b h'"
  shows "length (rr_commits (fb_result b)) \<le> max_steps \<and>
    rm_commits (rr_metrics (fb_result b)) = length (rr_commits (fb_result b)) \<and>
    trace_end (rr_commits (fb_result b)) (rr_decoded (fb_result b)) (rm_exit_reason (rr_metrics (fb_result b))) \<and>
    map event_mark (fb_stage_events b) =
      run_marks (length (rr_decoded (fb_result b))) (rm_exit_reason (rr_metrics (fb_result b))) \<and>
    (rm_exit_reason (rr_metrics (fb_result b)) = ''step_limit'' \<longrightarrow> length (rr_commits (fb_result b)) = max_steps)"
  by (rule func_run_traced [OF assms])

lemma ebreak_decodes: "decode_word [ebreak_form] 0x0707070707070707 = Some (render_decoded ebreak_form 0x0707070707070707)"
  by code_simp

lemma ebreak_fetched: "fetch_u64_bundle sample_memory 0x1010 = Some 0x0707070707070707"
  by code_simp

lemma ebreak_run:
  "\<exists>b. func_engine_run [ebreak_form] sample_host () sample_runtime 3 = RunOk b () \<and>
     rm_exit_reason (rr_metrics (fb_result b)) = ''breakpoint'' \<and> length (rr_commits (fb_result b)) = 1"
proof -
  have i: "xs_pc (fs_exec (initial_run_state sample_host () sample_runtime)) = 0x1010"
    "xs_memory (fs_exec (initial_run_state sample_host () sample_runtime)) = sample_memory"
    "xs_block (fs_exec (initial_run_state sample_host () sample_runtime)) = None"
    "fs_commits (initial_run_state sample_host () sample_runtime) = []"
    "fs_step (initial_run_state sample_host () sample_runtime) = 0"
    by (simp_all add: initial_run_state_def exec_state_from_runtime_def sample_runtime_def Let_def)
  have m: "di_mnemonic (render_decoded ebreak_form x) = ''C.EBREAK''" for x
    by (simp add: render_decoded_def ebreak_form_def)
  show ?thesis
    by (simp add: func_engine_run_def func_run_loop.simps run_pass_def i ebreak_fetched ebreak_decodes Let_def run_instruction_def
        step_ebreak m exec_ebreak_def retire_step_def bundle_of_def exit_text_def)
qed

lemma func_run_trace_witness:
  "\<exists>b. func_engine_run [ebreak_form] sample_host () sample_runtime 3 = RunOk b () \<and>
     trace_end (rr_commits (fb_result b)) (rr_decoded (fb_result b)) ''breakpoint'' \<and> map event_mark (fb_stage_events b) = step_marks 0"
proof -
  obtain b where b: "func_engine_run [ebreak_form] sample_host () sample_runtime 3 = RunOk b ()"
    "rm_exit_reason (rr_metrics (fb_result b)) = ''breakpoint''" "length (rr_commits (fb_result b)) = 1"
    using ebreak_run by blast
  note t = func_run_trace [OF b(1), unfolded b(2)]
  then have "length (rr_decoded (fb_result b)) = 1"
    using b(3) by (auto simp: trace_end_def dest: commits_match_length)
  with t b(1) show ?thesis by (simp add: run_marks_def)
qed

end
