(* ===== verification/Func_Descriptors.thy ===== *)
theory Func_Descriptors
  imports Func_Trace
begin

text \<open>The guest's descriptor tables: a consistency invariant of the four tables the execution state keeps, its
  preservation by every system call, by every step and by the run loop, and the numbers new descriptors get.\<close>

unbundle bit_operations_syntax

section \<open>Consistent descriptor tables\<close>

text \<open>Every open descriptor has status and descriptor flags, only open descriptors are event or epoll descriptors, and
  an epoll set only watches open descriptors, each filed under its own number.\<close>

definition epoll_ok :: "(u64, int) btree_map \<Rightarrow> SpecialFdKind \<Rightarrow> bool" where
  "epoll_ok table special = (case special of SfEventFd _ \<Rightarrow> True
     | SfEpoll epoll \<Rightarrow> \<forall>t r. bt_get (eps_registrations epoll) t = Some r \<longrightarrow> bt_get table t \<noteq> None \<and> epr_guest_fd r = t)"

definition tables_consistent ::
  "(u64, int) btree_map \<times> (u64, int) btree_map \<times> (u64, int) btree_map \<times> (u64, SpecialFdKind) btree_map \<Rightarrow> bool" where
  "tables_consistent = (\<lambda>(table, status, flags, special).
     (\<forall>g. (bt_get status g = None) = (bt_get table g = None)) \<and> (\<forall>g. (bt_get flags g = None) = (bt_get table g = None)) \<and>
     (\<forall>g sp. bt_get special g = Some sp \<longrightarrow> bt_get table g \<noteq> None \<and> epoll_ok table sp))"

definition fd_ok :: "ExecState \<Rightarrow> bool" where
  "fd_ok s = tables_consistent (fds s)"

lemmas fd_ok_defs = fd_ok_def tables_consistent_def fds_def

named_theorems fd_safe

lemma fd_ok_same: "fds s = fds t \<Longrightarrow> fd_ok s = fd_ok t"
  by (simp add: fd_ok_def)

lemma bt_get_map: "bt_get (map (\<lambda>(k, v). (k, f v)) m) g = map_option f (bt_get m g)"
  by (induction m) (auto simp: bt_get_def)

lemma epoll_ok_mono: "epoll_ok table sp \<Longrightarrow> (\<And>t. bt_get table t \<noteq> None \<Longrightarrow> bt_get table' t \<noteq> None) \<Longrightarrow> epoll_ok table' sp"
  by (auto simp: epoll_ok_def split: SpecialFdKind.splits)

lemma epoll_ok_unregister: "epoll_ok table sp \<Longrightarrow> epoll_ok (bt_remove g table) (unregister_special g sp)"
  by (auto simp: epoll_ok_def unregister_special_def split: SpecialFdKind.splits)

lemma fd_ok_release [fd_safe]: "fd_ok s \<Longrightarrow> fd_ok (fst (release_guest_fd host g s h))"
  unfolding fd_ok_defs release_guest_fd_def unregister_from_epolls_def Let_def
  by (auto simp: bt_get_map epoll_ok_unregister)

lemma release_tables:
  "xs_fd_table (fst (release_guest_fd host g s h)) = bt_remove g (xs_fd_table s)"
  "xs_special_fds (fst (release_guest_fd host g s h)) = bt_remove g (map (\<lambda>(k, sp). (k, unregister_special g sp)) (xs_special_fds s))"
  by (simp_all add: release_guest_fd_def unregister_from_epolls_def Let_def)

lemma fd_ok_insert [fd_safe]:
  assumes "fd_ok s" shows "fd_ok (fst (insert_guest_fd host g fd a b s h))"
proof -
  obtain s' h' where r: "release_guest_fd host g s h = (s', h')" by force
  then have "fd_ok s'" using fd_ok_release [OF assms, of host g h] by simp
  moreover have "epoll_ok (bt_insert g fd t) sp" if "epoll_ok t sp" for t sp
    using that by (rule epoll_ok_mono) auto
  ultimately show ?thesis unfolding insert_guest_fd_def r fd_ok_defs by auto
qed

lemma insert_table: "bt_get (xs_fd_table (fst (insert_guest_fd host g fd a b s h))) x = (if x = g then Some fd else bt_get (xs_fd_table s) x)"
  using release_tables(1) [of host g s h] by (auto simp: insert_guest_fd_def split: prod.split)

lemma fd_ok_special [fd_safe]:
  assumes "fd_ok s" "bt_get (xs_fd_table s) g \<noteq> None" "epoll_ok (xs_fd_table s) sp"
  shows "fd_ok (s\<lparr>xs_special_fds := bt_insert g sp (xs_special_fds s)\<rparr>)"
  using assms by (auto simp: fd_ok_defs)

lemma fd_ok_flags [fd_safe]:
  assumes "fd_ok s" "bt_get (xs_fd_table s) g \<noteq> None"
  shows "fd_ok (s\<lparr>xs_fd_status_flags := bt_insert g v (xs_fd_status_flags s)\<rparr>)" "fd_ok (s\<lparr>xs_fd_fd_flags := bt_insert g v (xs_fd_fd_flags s)\<rparr>)"
  using assms by (auto simp: fd_ok_defs)

lemma host_fd_open: "host_fd s g = Inr fd \<Longrightarrow> bt_get (xs_fd_table s) g \<noteq> None"
  by (auto simp: host_fd_def split: option.splits)

lemma fd_ok_duplicates [fd_safe]:
  assumes "fd_ok s"
  shows "fd_ok (fst (snd (close_guest_fd host g s h)))" "fd_ok (fst (snd (duplicate_guest_fd host g m c s h)))"
    "fd_ok (fst (snd (duplicate_guest_fd_to host g t c s h)))"
  using assms unfolding close_guest_fd_def duplicate_guest_fd_def duplicate_guest_fd_to_def Let_def
  by (auto simp: fd_safe split: sum.split prod.split)

lemma fd_ok_install_special [fd_safe]:
  assumes "fd_ok s" "\<And>table. epoll_ok table sp"
  shows "fd_ok (fst (snd (install_special_fd host rfd fl sp s h)))"
proof -
  obtain s' h' where i: "insert_guest_fd host (alloc_guest_fd s) rfd (fl AND NOT GUEST_O_CLOEXEC) (cloexec_fd_flags fl) s h = (s', h')" by force
  have "fd_ok s'" using fd_ok_insert [OF assms(1)] i by (metis fst_conv)
  moreover have "bt_get (xs_fd_table s') (alloc_guest_fd s) \<noteq> None" using insert_table i by (metis fst_conv option.distinct(1))
  ultimately show ?thesis unfolding install_special_fd_def Let_def i
    using assms(2) by (simp add: fd_ok_special)
qed

lemma fd_ok_fcntl [fd_safe]: "fd_ok s \<Longrightarrow> fd_ok (fst (snd (dispatch_fcntl host args s h)))"
  unfolding dispatch_fcntl_def Let_def by (auto simp: fd_safe split: sum.split dest: host_fd_open)

lemma fd_ok_descriptor_calls [fd_safe]:
  assumes "fd_ok s"
  shows "fd_ok (fst (snd (dispatch_eventfd2 host args s h)))" "fd_ok (fst (snd (dispatch_epoll_create1 host args s h)))"
    "fd_ok (fst (snd (dispatch_dup3 host args s h)))"
  using assms unfolding dispatch_eventfd2_def dispatch_epoll_create1_def dispatch_dup3_def Let_def
  by (auto intro!: fd_safe simp: epoll_ok_def split: sum.split prod.split)

lemma fd_ok_epoll_ctl [fd_safe]:
  assumes "fd_ok s" shows "fd_ok (snd (dispatch_epoll_ctl args s))"
proof -
  have "fd_ok (s\<lparr>xs_special_fds := bt_insert epfd (SfEpoll epoll') (xs_special_fds s)\<rparr>)"
    if sp: "bt_get (xs_special_fds s) epfd = Some (SfEpoll epoll)" and ap: "epoll_apply op t reg epoll = Inr epoll'"
      and t: "host_fd s t = Inr fd" and reg: "epoll_registration s op t ptr = Inr reg" for epfd epoll epoll' op t reg fd ptr
  proof (rule fd_ok_special [OF assms])
    show "bt_get (xs_fd_table s) epfd \<noteq> None" using assms sp by (auto simp: fd_ok_defs)
    have "epoll_ok (xs_fd_table s) (SfEpoll epoll)" using assms sp by (auto simp: fd_ok_defs)
    moreover have "reg = Some r \<Longrightarrow> epr_guest_fd r = t" for r using reg
      by (auto simp: epoll_registration_def split: if_splits sum.splits)
    ultimately show "epoll_ok (xs_fd_table s) (SfEpoll epoll')" using ap host_fd_open [OF t]
      by (auto simp: epoll_apply_def epoll_ok_def Let_def split: option.splits if_splits)
  qed
  then show ?thesis using assms unfolding dispatch_epoll_ctl_def Let_def
    by (auto split: sum.split option.split SpecialFdKind.split)
qed

text \<open>World-level calls.\<close>

lemma fd_ok_world [fd_safe]:
  "fd_ok (w_exec (set_memory m w)) = fd_ok (w_exec w)" "fd_ok (w_exec (note_store a d z w)) = fd_ok (w_exec w)"
  "fd_ok (w_exec (note_load a d z w)) = fd_ok (w_exec w)"
  by (simp_all add: fd_ok_defs set_memory_def note_store_def note_load_def)

lemma fd_ok_plain_updates [fd_safe]:
  "fd_ok (s\<lparr>xs_memory := m\<rparr>) = fd_ok s" "fd_ok (s\<lparr>xs_random_state := x\<rparr>) = fd_ok s"
  "fd_ok (s\<lparr>xs_thread_name := y\<rparr>) = fd_ok s" "fd_ok (s\<lparr>xs_current_pgrp := z\<rparr>) = fd_ok s" "fd_ok (s\<lparr>xs_rlimits := r\<rparr>) = fd_ok s"
  "fd_ok (s\<lparr>xs_clear_child_tid := a\<rparr>) = fd_ok s" "fd_ok (s\<lparr>xs_robust_list_head := a, xs_robust_list_len := b\<rparr>) = fd_ok s"
  by (simp_all add: fd_ok_defs)

lemma fd_ok_in_world: "(\<And>s h. fd_ok s \<Longrightarrow> fd_ok (fst (snd (f s h)))) \<Longrightarrow> fd_ok (w_exec w) \<Longrightarrow> fd_ok (w_exec (snd (in_world f w)))"
  by (auto simp: in_world_def split: prod.split) (metis fst_conv snd_conv)

lemma fd_ok_exec_sys [fd_safe]: "w_exec (snd (exec_sys r w)) = snd r"
  by (simp add: exec_sys_def)

lemma fd_ok_exec_calls [fd_safe]:
  assumes "fd_ok s"
  shows "fd_ok (snd (dispatch_membarrier args s))" "fd_ok (snd (sys_setuid args s))" "fd_ok (snd (sys_setgid args s))"
    "fd_ok (snd (sys_setresuid args s))" "fd_ok (snd (sys_setresgid args s))" "fd_ok (snd (sys_brk args s))" "fd_ok (snd (sys_mmap args s))"
  using assms
  by (auto simp: dispatch_membarrier_def sys_setuid_def sys_setgid_def sys_setresuid_def
      sys_setresgid_def sys_brk_def sys_mmap_def grow_brk_def alloc_mmap_def fd_ok_def fds_def Let_def split: sum.split option.split)

lemma fd_ok_prlimit [fd_safe]: "fd_ok s \<Longrightarrow> fd_ok (snd (dispatch_prlimit64 args s))"
  by (auto simp: dispatch_prlimit64_def set_rlimit_def Let_def fd_ok_plain_updates split: sum.split option.split prod.split)

lemma fold_bt_remove_sub: "bt_get (fold bt_remove ks m) (k :: u64) = Some v \<Longrightarrow> bt_get m k = Some v"
  by (simp add: bt.fold_del split: if_splits)

lemma fd_ok_epoll_pwait [fd_safe]:
  assumes "fd_ok (w_exec (w :: 'h World))" shows "fd_ok (w_exec (snd (dispatch_epoll_pwait host args w)))"
proof -
  have "fd_ok ((w_exec w)\<lparr>xs_memory := m, xs_special_fds := bt_insert g (SfEpoll (ep\<lparr>eps_registrations := fold bt_remove ks (eps_registrations ep)\<rparr>)) (xs_special_fds (w_exec w))\<rparr>)"
    if "bt_get (xs_special_fds (w_exec w)) g = Some (SfEpoll ep)" for g ep ks m
  proof -
    have "bt_get (xs_fd_table (w_exec w)) g \<noteq> None" "epoll_ok (xs_fd_table (w_exec w)) (SfEpoll ep)"
      using assms that by (auto simp: fd_ok_defs)
    moreover from this(2) have "epoll_ok (xs_fd_table (w_exec w)) (SfEpoll (ep\<lparr>eps_registrations := fold bt_remove ks (eps_registrations ep)\<rparr>))"
      by (auto simp: epoll_ok_def dest: fold_bt_remove_sub)
    ultimately show ?thesis using fd_ok_special [OF assms] by (simp add: fd_ok_def fds_def)
  qed
  then have "fd_ok (w_exec (snd (epoll_finish g p n rs vs ep w')))"
    if "bt_get (xs_special_fds (w_exec w)) g = Some (SfEpoll ep)" "w_exec w' = w_exec w" for g p n rs vs ep and w' :: "'h World"
    using assms that unfolding epoll_finish_def Let_def
    by (auto simp: fd_ok_world set_memory_def fd_ok_plain_updates split: sum.split prod.split)
  then show ?thesis using assms unfolding dispatch_epoll_pwait_def Let_def
    by (auto split: sum.split option.split prod.split SpecialFdKind.split)
qed

lemma fd_ok_waits [fd_safe]:
  assumes "fd_ok (w_exec w)"
  shows "fd_ok (w_exec (snd (dispatch_pselect6 host args w)))" "fd_ok (w_exec (snd (dispatch_ppoll host args w)))"
  using assms
  by (auto simp: dispatch_pselect6_def select_finish_def dispatch_ppoll_def Let_def fd_ok_world split: sum.split prod.split)

lemma fd_ok_process [fd_safe]:
  assumes "fd_ok (w_exec w)"
  shows "fd_ok (w_exec (snd (dispatch_prctl args w)))" "fd_ok (w_exec (snd (dispatch_getrandom args w)))"
    "fd_ok (w_exec (snd (dispatch_sigaltstack args w)))" "fd_ok (w_exec (snd (dispatch_rseq args w)))"
    "fd_ok (w_exec (snd (dispatch_ioctl args w)))" "fd_ok (w_exec (snd (sys_getres args a b c w)))"
  using assms
  by (auto simp: dispatch_prctl_def dispatch_getrandom_def dispatch_sigaltstack_def set_alt_stack_def dispatch_rseq_def
      dispatch_ioctl_def sys_getres_def Let_def fd_ok_def fds_def set_memory_def note_store_def
      split: sum.split option.split prod.split)

lemma fd_ok_store_stat [fd_safe]:
  "fd_ok (w_exec (snd (store_stat p r w))) = fd_ok (w_exec w)" "fd_ok (w_exec (snd (store_link host b x w))) = fd_ok (w_exec w)"
  "fd_ok (w_exec (snd (store_or_fault ad sz m w))) = fd_ok (w_exec w)"
  by (auto simp: store_stat_def store_link_def store_or_fault_def Let_def fd_ok_world split: sum.split option.split prod.split)

lemma fd_ok_files [fd_safe]:
  assumes "fd_ok (w_exec w)"
  shows "fd_ok (w_exec (snd (dispatch_newfstatat host rt args w)))" "fd_ok (w_exec (snd (dispatch_readlinkat host rt args w)))"
    "fd_ok (w_exec (snd (dispatch_getcwd host rt args w)))" "fd_ok (w_exec (snd (sys_lseek host args w)))"
    "fd_ok (w_exec (snd (sys_fstat host args w)))" "fd_ok (w_exec (snd (sys_clock_gettime host args w)))"
    "fd_ok (w_exec (snd (sys_rt_sigaction args w)))" "fd_ok (w_exec (snd (sys_rt_sigprocmask args w)))"
  using assms
  by (auto simp: dispatch_newfstatat_def dispatch_readlinkat_def dispatch_getcwd_def sys_lseek_def sys_fstat_def
      sys_clock_gettime_def sys_rt_sigaction_def sys_rt_sigprocmask_def Let_def fd_ok_world fd_ok_store_stat split: sum.split option.split prod.split)

lemma fd_ok_descriptors [fd_safe]:
  assumes "fd_ok (w_exec w)"
  shows "fd_ok (w_exec (snd (dispatch_pipe2 host args w)))" "fd_ok (w_exec (snd (install_opened host fl op w)))"
proof -
  have i: "insert_guest_fd host g fd a b s h = (s', h') \<Longrightarrow> fd_ok s \<Longrightarrow> fd_ok s'" for g fd a b s h s' h'
    using fd_ok_insert by (metis fst_conv)
  show "fd_ok (w_exec (snd (install_opened host fl op w)))" using assms
    by (auto simp: install_opened_def Let_def split: prod.split dest!: i)
  show "fd_ok (w_exec (snd (dispatch_pipe2 host args w)))" using assms
    by (auto simp: dispatch_pipe2_def install_pipe_def Let_def fd_ok_world split: option.split prod.split dest!: i)
qed

lemma fd_ok_openat: "sys_openat host rt args w = Some r \<Longrightarrow> fd_ok (w_exec w) \<Longrightarrow> fd_ok (w_exec (snd r))"
  by (auto simp: sys_openat_def Let_def fd_ok_descriptors split: sum.splits option.splits if_splits)

lemma eventfd_read_exec: "dispatch_eventfd_read host fd e args w = (r, e', w') \<Longrightarrow> fds (w_exec w') = fds (w_exec w)"
  by (auto simp: dispatch_eventfd_read_def Let_def fds_def set_memory_def note_store_def split: if_splits option.splits)

lemma fd_ok_io [fd_safe]:
  assumes "fd_ok (w_exec w)"
  shows "fd_ok (w_exec (snd (sys_write host args w)))" "fd_ok (w_exec (snd (sys_read host args w)))"
proof -
  have e: "fd_ok (s\<lparr>xs_special_fds := bt_insert g (SfEventFd e') (xs_special_fds s)\<rparr>)"
    if "fds s = fds (w_exec w)" "bt_get (xs_special_fds (w_exec w)) g = Some (SfEventFd e)" for s g e e'
  proof (rule fd_ok_special)
    show "fd_ok s" using assms that(1) by (simp add: fd_ok_def)
    have "xs_fd_table s = xs_fd_table (w_exec w)" using that(1) by (simp add: fds_def)
    then show "bt_get (xs_fd_table s) g \<noteq> None" using assms that(2) by (auto simp: fd_ok_defs)
  qed (simp add: epoll_ok_def)
  show "fd_ok (w_exec (snd (sys_write host args w)))" using assms e [OF refl]
    by (auto simp: sys_write_def Let_def split: option.split SpecialFdKind.split sum.split prod.split)
  show "fd_ok (w_exec (snd (sys_read host args w)))" using assms e
    by (auto simp: sys_read_def Let_def fd_ok_world split: option.split SpecialFdKind.split sum.split prod.split dest: eventfd_read_exec)
qed

lemma fd_ok_worlds [fd_safe]:
  assumes "fd_ok (w_exec w)"
  shows "fd_ok (w_exec (snd (in_world (dispatch_eventfd2 host args) w)))" "fd_ok (w_exec (snd (in_world (dispatch_epoll_create1 host args) w)))"
    "fd_ok (w_exec (snd (in_world (dispatch_fcntl host args) w)))" "fd_ok (w_exec (snd (in_world (dispatch_dup3 host args) w)))"
    "fd_ok (w_exec (snd (in_world (close_guest_fd host g) w)))"
  by (intro fd_ok_in_world [OF _ assms] fd_ok_fcntl fd_ok_descriptor_calls fd_ok_duplicates; assumption)+

lemma fd_ok_plain_syscall:
  assumes "fd_ok (w_exec w)" shows "fd_ok (w_exec (snd (plain_syscall host rt n args w)))"
  unfolding plain_syscall_def Let_def using assms by (simp add: fd_safe)+

lemma fd_ok_mem_calls:
  "sys_munmap args s = Some r \<Longrightarrow> fd_ok s \<Longrightarrow> fd_ok (snd r)" "sys_mprotect args s = Some r \<Longrightarrow> fd_ok s \<Longrightarrow> fd_ok (snd r)"
  by (auto simp: sys_munmap_def sys_mprotect_def Let_def fd_ok_plain_updates split: if_splits)

lemma fds_writeback: "writeback s c r v = Some (s', c') \<Longrightarrow> fds s' = fds s"
  by (auto simp: writeback_def write_reg_def push_t_def push_u_def fds_def split: if_splits)

lemma fd_ok_finalize:
  assumes "fd_ok (w_exec (snd res))" shows "finalize_syscall res = StepOk w' r \<Longrightarrow> fd_ok (w_exec w')"
  using assms by (auto simp: finalize_syscall_def fd_ok_def Let_def split: prod.splits option.splits dest!: fds_writeback)

lemma fd_ok_syscall:
  assumes "fd_ok (w_exec w)"
  shows "dispatch_syscall host rt w = StepOk w' r \<Longrightarrow> fd_ok (w_exec w')" "dispatch_syscall host rt w = StepErr w' \<Longrightarrow> fd_ok (w_exec w')"
proof -
  note sys = fd_ok_openat fd_ok_plain_syscall
  show "dispatch_syscall host rt w = StepErr w' \<Longrightarrow> fd_ok (w_exec w')"
    using assms by (auto simp: dispatch_syscall_def Let_def finalize_not_err split: if_splits option.splits)
  show "dispatch_syscall host rt w = StepOk w' r \<Longrightarrow> fd_ok (w_exec w')"
    using assms unfolding dispatch_syscall_def Let_def
    by (auto simp: fd_ok_exec_sys dest: fd_ok_mem_calls split: if_splits option.splits elim!: fd_ok_finalize [rotated] intro: fd_ok_openat fd_ok_plain_syscall)
qed

text \<open>The tables stay consistent through a step: nothing but a system call touches them.\<close>

interpretation tables: world_invariant "\<lambda>w :: 'h World. fd_ok (w_exec w)"
proof unfold_locales
  fix w w1 :: "'h World" and host rt e
  assume w: "fd_ok (w_exec w)"
  show "dispatch_syscall host rt w = StepOk w1 e \<Longrightarrow> fd_ok (w_exec w1)" by (rule fd_ok_syscall(1) [OF w])
  show "dispatch_syscall host rt w = StepErr w1 \<Longrightarrow> fd_ok (w_exec w1)" by (rule fd_ok_syscall(2) [OF w])
qed (auto simp: fd_ok_def fds_def push_t_def push_u_def write_reg_def split: if_splits)

lemma fd_ok_step: "fd_ok (w_exec w) \<Longrightarrow> tables.kept (execute_step host rt d w)"
  by (cases "di_mnemonic d \<in> {''EBREAK'', ''C.EBREAK''}")
    (simp_all add: step_ebreak exec_ebreak_def tables.kept_step)

lemma fds_resolve: "resolve_block_end s f = Some (s', n) \<Longrightarrow> fds s' = fds s"
  by (auto simp: resolve_block_end_def default_return_def write_reg_def end_block_def fds_def
      split: option.splits BlockKind.splits if_splits)

interpretation fd: exec_invariant host rt fd_ok for host :: "'h Host" and rt
proof unfold_locales
  fix w w' :: "'h World" and d out
  assume "fd_ok (w_exec w)"
  then have k: "tables.kept (execute_step host rt d w)" by (rule fd_ok_step)
  show "execute_step host rt d w = StepOk w' out \<Longrightarrow> fd_ok (w_exec w')" "execute_step host rt d w = StepErr w' \<Longrightarrow> fd_ok (w_exec w')"
    using k by auto
qed (auto simp: fd_ok_def fds_def dest: fds_resolve)

text \<open>What the runtime hands over: the three standard descriptors.\<close>

lemma bootstrap_standard_fds: "bootstrap img config = Inr rt \<Longrightarrow> gr_fd_table rt = [(0, 0), (1, 1), (2, 2)]"
  by (auto simp: bootstrap_def Let_def split: if_splits option.splits sum.splits prod.splits)

lemma fd_ok_initial: "gr_fd_table rt = [(0, 0), (1, 1), (2, 2)] \<Longrightarrow> fd_ok (exec_state_from_runtime host h rt)"
  by (simp add: exec_state_from_runtime_def fd_ok_defs Let_def bt_get_def)

section \<open>New descriptor numbers\<close>

lemma alloc_fd_loop_scan:
  "\<exists>k \<le> n. alloc_fd_loop n table fd = fd + word_of_nat k \<and> (\<forall>j < k. bt_get table (fd + word_of_nat j) \<noteq> None) \<and>
     (k < n \<longrightarrow> bt_get table (fd + word_of_nat k) = None)"
proof (induction n arbitrary: fd)
  case (Suc n)
  show ?case
  proof (cases "bt_get table fd")
    case None
    then show ?thesis by (intro exI [of _ 0]) simp
  next
    case (Some v)
    obtain k where k: "k \<le> n" "alloc_fd_loop n table (fd + 1) = fd + 1 + word_of_nat k"
      "\<forall>j < k. bt_get table (fd + 1 + word_of_nat j) \<noteq> None" "k < n \<longrightarrow> bt_get table (fd + 1 + word_of_nat k) = None"
      using Suc.IH by blast
    have "bt_get table (fd + word_of_nat j) \<noteq> None" if "j < Suc k" for j
      using that k(3) Some by (cases j) (auto simp: algebra_simps)
    then show ?thesis using k Some by (intro exI [of _ "Suc k"]) (auto simp: algebra_simps)
  qed
qed simp

lemma used_run_bounded:
  assumes "\<forall>j < k. bt_get table (fd + word_of_nat j :: u64) \<noteq> None" "k \<le> 2 ^ 64"
  shows "k \<le> length table"
proof -
  have "inj_on (\<lambda>j. fd + word_of_nat j :: u64) {..< k}"
    using assms(2) by (auto intro!: inj_onI simp: word_of_nat_eq_iff take_bit_nat_eq_self)
  then have "k = card ((\<lambda>j. fd + word_of_nat j) ` {..< k})" by (simp add: card_image)
  also have "\<dots> \<le> card (set (map fst table))" using assms(1)
    by (intro card_mono) (auto simp: bt_get_def weak_map_of_SomeI map_of_eq_None_iff)
  also have "\<dots> \<le> length table" using card_length [of "map fst table"] by simp
  finally show ?thesis .
qed

text \<open>The number given to a new descriptor is free, and the first free one from the requested minimum on; the scan
  meets it within as many steps as the table has entries, so it always ends.\<close>

theorem alloc_guest_fd_from_first:
  assumes "length (xs_fd_table s) < 2 ^ 64"
  shows "\<exists>k \<le> length (xs_fd_table s). alloc_guest_fd_from s m = max m 3 + word_of_nat k \<and>
    bt_get (xs_fd_table s) (alloc_guest_fd_from s m) = None \<and> (\<forall>j < k. bt_get (xs_fd_table s) (max m 3 + word_of_nat j) \<noteq> None)"
proof -
  obtain k where k: "k \<le> Suc (length (xs_fd_table s))" "alloc_guest_fd_from s m = max m 3 + word_of_nat k"
    "\<forall>j < k. bt_get (xs_fd_table s) (max m 3 + word_of_nat j) \<noteq> None"
    "k < Suc (length (xs_fd_table s)) \<longrightarrow> bt_get (xs_fd_table s) (max m 3 + word_of_nat k) = None"
    using alloc_fd_loop_scan [of "Suc (length (xs_fd_table s))" "xs_fd_table s" "max m 3"]
    unfolding alloc_guest_fd_from_def by auto
  have "k \<le> length (xs_fd_table s)" using used_run_bounded [OF k(3)] k(1) assms by simp
  then show ?thesis using k by (intro exI [of _ k]) auto
qed

text \<open>C20: whatever the guest does with its descriptors - opening, duplicating, closing, pipes, event counters, epoll
  sets, flag changes, and system calls that fail half way - the engine's four tables stay consistent: every open
  descriptor has status flags and descriptor flags and nothing else has, only open descriptors are event counters or
  epoll sets, and an epoll set watches only descriptors that are open, each under its own number. The runtime starts
  the engine with the three standard descriptors.\<close>

theorem run_keeps_descriptor_tables:
  assumes "gr_fd_table rt = [(0, 0), (1, 1), (2, 2)]"
    and "func_run_loop forms host rt max_steps (initial_run_state host h rt) = LoopDone r reason"
  shows "fd_ok (fs_exec r)"
  using assms(2) by (rule fd.runs.run) (simp add: initial_run_state_def fd_ok_initial [OF assms(1)])

lemma run_keeps_descriptor_tables_witness:
  "\<exists>r reason. func_run_loop [ebreak_form] sample_host sample_runtime 3 (initial_run_state sample_host () sample_runtime) = LoopDone r reason \<and>
     fd_ok (fs_exec r)"
proof -
  obtain r reason where "func_run_loop [ebreak_form] sample_host sample_runtime 3 (initial_run_state sample_host () sample_runtime) = LoopDone r reason"
    using ebreak_run by (auto simp: func_engine_run_def split: loop_end.splits)
  then show ?thesis using run_keeps_descriptor_tables [of sample_runtime] by (auto simp: sample_runtime_def)
qed

end
