(* ===== verification/Func_Flow.thy ===== *)
theory Func_Flow
  imports Func_Descriptors
begin

text \<open>Where a run of the functional engine goes: the control flow between its commits, the registers of every state it
  reaches, the agreement of the run loop with the machine of the small-step relation, and what a higher step limit changes.\<close>

section \<open>Control flow\<close>

text \<open>At \<open>r\<close> a block start closes the open block, and the block ends at \<open>pc\<close>.\<close>

definition block_hop :: "DecodeForm list \<Rightarrow> 'h run_state \<Rightarrow> u64 \<Rightarrow> bool" where
  "block_hop forms r pc = (\<exists>d s. next_insn forms r = Some d \<and> closes_block d r \<and> resolve_block_end (fs_exec (tick r)) (run_pc r) = Some (s, pc))"

text \<open>The machine, started in \<open>r0\<close>, goes from the commits \<open>cs\<close> to \<open>pc\<close>: where the last one points, or where the block that
  is open there ends.\<close>

definition flows_to :: "DecodeForm list \<Rightarrow> 'h Host \<Rightarrow> GuestRuntime \<Rightarrow> nat \<Rightarrow> 'h run_state \<Rightarrow> CommitRecord list \<Rightarrow> u64 \<Rightarrow> bool" where
  "flows_to forms host rt n r0 cs pc =
     (if cs = [] then pc = run_pc r0
      else pc = cr_next_pc (last cs) \<or>
        (\<exists>r. func_steps forms host rt n (Running r0) (Running r) \<and> fs_commits r = cs \<and> run_pc r = cr_next_pc (last cs) \<and> block_hop forms r pc))"

definition flow_ok :: "DecodeForm list \<Rightarrow> 'h Host \<Rightarrow> GuestRuntime \<Rightarrow> nat \<Rightarrow> 'h run_state \<Rightarrow> CommitRecord list \<Rightarrow> bool" where
  "flow_ok forms host rt n r0 cs = (\<forall>i < length cs. flows_to forms host rt n r0 (take i cs) (cr_pc (cs ! i)))"

definition flow_inv :: "DecodeForm list \<Rightarrow> 'h Host \<Rightarrow> GuestRuntime \<Rightarrow> nat \<Rightarrow> 'h run_state \<Rightarrow> 'h run_state \<Rightarrow> bool" where
  "flow_inv forms host rt n r0 r =
     (func_steps forms host rt n (Running r0) (Running r) \<and> flow_ok forms host rt n r0 (fs_commits r) \<and>
      flows_to forms host rt n r0 (fs_commits r) (run_pc r) \<and>
      (xs_block (fs_exec r) \<noteq> None \<longrightarrow> fs_commits r \<noteq> [] \<and> run_pc r = cr_next_pc (last (fs_commits r))))"

lemma flow_ok_snoc:
  assumes "flow_ok forms host rt n r0 cs" "flows_to forms host rt n r0 cs (cr_pc c)"
  shows "flow_ok forms host rt n r0 (cs @ [c])"
  using assms by (auto simp: flow_ok_def nth_append less_Suc_eq)

text \<open>A commit names the address it was fetched from and the address the machine goes to.\<close>

lemma executed_commit:
  assumes "execute_step host rt d (step_world rt d r) = StepOk w out"
  shows "cr_pc (w_commit w) = run_pc r" "cr_next_pc (w_commit w) = so_next_pc out"
  using step_ok_facts [OF assms] by (simp_all add: step_world_def empty_commit_def unsupported_def)

lemma faulted_commit:
  assumes "execute_step host rt d (step_world rt d r) = StepErr w"
  shows "cr_pc (w_commit (faulted pc d w)) = run_pc r"
  using step_err_facts [OF assms] by (simp add: faulted_def fault_commit_def commit_id_def step_world_def empty_commit_def unsupported_def)

lemma retired_sel [simp]:
  "fs_commits (retired rt d w pc cause r) = fs_commits r @ [w_commit w]" "run_pc (retired rt d w pc cause r) = pc"
  by (simp_all add: retired_def run_pc_def)

lemma flow_step:
  assumes "func_step forms host rt n (Running r) c" "flow_inv forms host rt n r0 r"
  shows "case c of Running r' \<Rightarrow> flow_inv forms host rt n r0 r' | Stopped r' reason \<Rightarrow> flow_ok forms host rt n r0 (fs_commits r')"
proof -
  have reach: "func_steps forms host rt n (Running r0) c" using assms by (auto simp: flow_inv_def)
  have snoc: "flow_ok forms host rt n r0 (fs_commits r @ [c])" if "cr_pc c = run_pc r" for c
    using assms(2) that by (intro flow_ok_snoc) (simp_all add: flow_inv_def)
  from assms(1) show ?thesis
  proof cases
    case limit
    then show ?thesis using assms(2) by (simp add: flow_inv_def)
  next
    case (decode_miss code)
    then show ?thesis using snoc by (simp add: missed_def decode_miss_commit_def unsupported_def)
  next
    case (block_end d s pc)
    have "fs_commits r \<noteq> [] \<and> run_pc r = cr_next_pc (last (fs_commits r))" "func_steps forms host rt n (Running r0) (Running r)"
      using assms(2) block_end by (auto simp: flow_inv_def closes_block_def)
    moreover have "block_hop forms r pc" using block_end by (auto simp: block_hop_def)
    ultimately have "flows_to forms host rt n r0 (fs_commits r) pc" by (auto simp: flows_to_def)
    moreover have "xs_block s = None" using block_end by (auto dest: resolve_block_end_clears)
    ultimately show ?thesis using assms(2) reach block_end by (simp add: flow_inv_def run_pc_def)
  next
    case (execute d r1 w out)
    note f = issued_frame [OF execute(4)] executed_commit [OF execute(5)]
    then show ?thesis using snoc [of "w_commit w"] reach execute by (simp add: flow_inv_def flows_to_def)
  next
    case (exit d r1 w out e)
    note f = issued_frame [OF exit(4)] executed_commit [OF exit(5)]
    then show ?thesis using snoc [of "w_commit w"] exit by simp
  next
    case (fault d r1 w)
    note f = issued_frame [OF fault(4)] faulted_commit [OF fault(5)]
    then show ?thesis using snoc fault by simp
  qed
qed

interpretation flow: run_invariant forms host rt n "flow_inv forms host rt n r0" "\<lambda>r reason. flow_ok forms host rt n r0 (fs_commits r)"
  for forms :: "DecodeForm list" and host :: "'h Host" and rt n r0
proof unfold_locales
  fix r r' :: "'h run_state" and reason
  assume J: "flow_inv forms host rt n r0 r"
  note s = flow_step [OF _ J, of "Running r'"] flow_step [OF _ J, of "Stopped r' reason"]
  show "fs_step r < n \<Longrightarrow> run_pass forms host rt r = PassNext r' \<Longrightarrow> flow_inv forms host rt n r0 r'"
    using s(1) by (simp add: func_step_pass machine_of_def)
  show "fs_step r < n \<Longrightarrow> run_pass forms host rt r = PassBreak r' reason \<Longrightarrow> flow_ok forms host rt n r0 (fs_commits r')"
    using s(2) by (simp add: func_step_pass machine_of_def)
  show "flow_ok forms host rt n r0 (fs_commits r)" using J by (simp add: flow_inv_def)
qed

lemma flow_initial: "flow_inv forms host rt n (initial_run_state host h rt) (initial_run_state host h rt)"
  by (simp add: flow_inv_def flow_ok_def flows_to_def initial_run_state_def exec_state_from_runtime_def Let_def)

section \<open>Registers\<close>

text \<open>Steps and block ends keep the register file well formed.\<close>

interpretation regs: exec_invariant host rt regs_ok for host :: "'h Host" and rt
proof unfold_locales
  fix s s' f q
  show "regs_ok s \<Longrightarrow> resolve_block_end s f = Some (s', q) \<Longrightarrow> regs_ok s'"
    by (auto simp: resolve_block_end_def default_return_def end_block_def regs_ok_def write_reg_def REG_ZERO_def
        split: option.splits BlockKind.splits if_splits)
next
  fix w w' :: "'h World" and d out
  assume r: "regs_ok (w_exec w)"
  show "execute_step host rt d w = StepOk w' out \<Longrightarrow> regs_ok (w_exec w')" using step_ok_facts [of host rt d w w' out] r by blast
  show "execute_step host rt d w = StepErr w' \<Longrightarrow> regs_ok (w_exec w')" using step_err_facts [of host rt d w w'] r by blast
qed (simp_all add: regs_ok_def)

lemma run_keeps_registers:
  assumes "regs_ok (exec_state_from_runtime host h rt)"
    and "func_run_loop forms host rt max_steps (initial_run_state host h rt) = LoopDone r reason"
  shows "regs_ok (fs_exec r)"
  using assms(2) by (rule regs.runs.run) (simp add: initial_run_state_def assms(1))

section \<open>The loop, the machine and the control flow\<close>

lemma run_pass_error: "run_pass forms host rt r = PassErr \<longleftrightarrow> fetched r = None"
  by (auto simp: run_pass_eq run_instruction_eq split: option.splits step_result.splits prod.splits)

text \<open>The run loop is the machine. The loop returns a state and a reason exactly when the machine, from the same state,
  reaches that state stopped for that reason; and it fails exactly when the machine reaches, within its limit, a state from whose
  program counter nothing can be fetched (no executable region of the guest's memory holds it).\<close>

lemma loop_runs_machine:
  "(func_run_loop forms host rt n r = LoopDone r' reason \<longleftrightarrow> func_steps forms host rt n (Running r) (Stopped r' reason)) \<and>
   (func_run_loop forms host rt n r = LoopErr \<longleftrightarrow>
      (\<exists>q. func_steps forms host rt n (Running r) (Running q) \<and> fs_step q < n \<and> fetched q = None))"
  using func_run_loop_machine [of forms host rt n r r' reason] by (simp add: run_pass_error)

text \<open>C7: the commits of a run follow the control flow. The first is at the entry point; each later one is at the
  address the commit before it names as its next one or, where a block start closes the open block at that address, at the
  address the block ends at. No commit appears at any other address.\<close>

theorem run_follows_control_flow:
  assumes "func_engine_run forms host h rt n = RunOk b h'"
  shows "flow_ok forms host rt n (initial_run_state host h rt) (rr_commits (fb_result b))"
proof -
  obtain r reason where "func_run_loop forms host rt n (initial_run_state host h rt) = LoopDone r reason" "b = bundle_of rt r reason"
    using assms by (auto simp: func_engine_run_def split: loop_end.splits)
  with flow.run [OF this(1) flow_initial] show ?thesis by (simp add: bundle_of_def)
qed

text \<open>A program of block stops.\<close>

definition bstop_form :: DecodeForm where
  "bstop_form = ebreak_form\<lparr>fm_uid := ''c_bstop'', fm_mnemonic := ''C.BSTOP'', fm_asm := ''c.bstop''\<rparr>"

lemma bstop_decodes: "decode_word [bstop_form] 0x0707070707070707 = Some (render_decoded bstop_form 0x0707070707070707)"
  by code_simp

lemma bstop_decodes_again: "decode_word [bstop_form] 0x070707070707 = Some (render_decoded bstop_form 0x070707070707)"
  by code_simp

lemma bstop_fetched: "fetch_u64_bundle sample_memory 0x1012 = Some 0x070707070707"
  by code_simp

lemma step_bstop:
  assumes "di_mnemonic d = ''C.BSTOP''" "xs_block (w_exec w) = None"
  shows "execute_step host rt d w = jump_to (xs_pc (w_exec w) + word_of_nat (length_bytes d)) ''block_end'' (w\<lparr>w_exec := end_block (w_exec w)\<rparr>)"
  using assms by (simp add: execute_step_def exec_plain_def exec_c_bstop_def resolve_block_end_def unpanic_def)

lemma bstop_pass:
  assumes "fetched r = Some code" "decode_word [bstop_form] code = Some (render_decoded bstop_form code)" "xs_block (fs_exec r) = None"
  shows "\<exists>w. run_pass [bstop_form] host rt r =
    PassNext (retired rt (render_decoded bstop_form code) w (run_pc r + 2) ''block_end'' (tick r)) \<and> xs_block (w_exec w) = None \<and>
    xs_memory (w_exec w) = xs_memory (fs_exec r)"
proof -
  let ?d = "render_decoded bstop_form code"
  have d: "di_mnemonic ?d = ''C.BSTOP''" "length_bytes ?d = 2"
    by (simp_all add: render_decoded_def bstop_form_def ebreak_form_def length_bytes_def)
  have "execute_step host rt ?d (step_world rt ?d (tick r)) =
    jump_to (run_pc r + 2) ''block_end'' ((step_world rt ?d (tick r))\<lparr>w_exec := end_block (fs_exec (tick r))\<rparr>)"
    using step_bstop [OF d(1), of "step_world rt ?d (tick r)" host rt] assms(3) by (simp add: step_world_def d(2) run_pc_def)
  moreover have "issued ?d (tick r) = Some (tick r)" using assms(3) by (simp add: issued_def closes_block_def)
  ultimately show ?thesis using assms(1,2)
    by (auto simp: run_pass_eq run_instruction_eq jump_to_def end_block_def)
qed

lemma bstop_run:
  "\<exists>b. func_engine_run [bstop_form] sample_host () sample_runtime 2 = RunOk b () \<and> length (rr_commits (fb_result b)) = 2"
proof -
  let ?r = "initial_run_state sample_host () sample_runtime"
  have i: "fetched ?r = Some 0x0707070707070707" "run_pc ?r = 0x1010" "xs_block (fs_exec ?r) = None" "xs_memory (fs_exec ?r) = sample_memory"
    "fs_step ?r = 0" "fs_commits ?r = []"
    using ebreak_fetched by (simp_all add: fetched_def run_pc_def initial_run_state_def exec_state_from_runtime_def sample_runtime_def Let_def)
  obtain w where w: "run_pass [bstop_form] sample_host sample_runtime ?r =
      PassNext (retired sample_runtime (render_decoded bstop_form 0x0707070707070707) w 0x1012 ''block_end'' (tick ?r))"
    "xs_block (w_exec w) = None" "xs_memory (w_exec w) = sample_memory"
    using bstop_pass [OF i(1) bstop_decodes i(3)] i(2,4) by auto
  let ?q = "retired sample_runtime (render_decoded bstop_form 0x0707070707070707) w 0x1012 ''block_end'' (tick ?r)"
  have q: "fetched ?q = Some 0x070707070707" "xs_block (fs_exec ?q) = None"
    using bstop_fetched w(2,3) by (simp_all add: fetched_def retired_def run_pc_def)
  obtain v where v: "run_pass [bstop_form] sample_host sample_runtime ?q =
      PassNext (retired sample_runtime (render_decoded bstop_form 0x070707070707) v 0x1014 ''block_end'' (tick ?q))"
    using bstop_pass [OF q(1) bstop_decodes_again q(2)] by auto
  show ?thesis using i(5,6)
    by (simp add: func_engine_run_def func_run_loop.simps w(1) v bundle_of_def) (simp add: retired_def)
qed

theorem run_follows_control_flow_witness:
  "\<exists>b. func_engine_run [bstop_form] sample_host () sample_runtime 2 = RunOk b () \<and>
     flows_to [bstop_form] sample_host sample_runtime 2 (initial_run_state sample_host () sample_runtime)
       [rr_commits (fb_result b) ! 0] (cr_pc (rr_commits (fb_result b) ! 1))"
proof -
  obtain b where b: "func_engine_run [bstop_form] sample_host () sample_runtime 2 = RunOk b ()" "length (rr_commits (fb_result b)) = 2"
    using bstop_run by blast
  then have "take 1 (rr_commits (fb_result b)) = [rr_commits (fb_result b) ! 0]" by (cases "rr_commits (fb_result b)") auto
  moreover have "flows_to [bstop_form] sample_host sample_runtime 2 (initial_run_state sample_host () sample_runtime)
     (take 1 (rr_commits (fb_result b))) (cr_pc (rr_commits (fb_result b) ! 1))"
    using run_follows_control_flow [OF b(1)] b(2) by (simp add: flow_ok_def)
  ultimately show ?thesis using b(1) by auto
qed

section \<open>Longer runs\<close>

lemma exit_text_not_limit: "exit_text e \<noteq> ''step_limit''"
  by (cases e) (simp_all add: exit_text_def)

lemma pass_reason: "run_pass forms host rt r = PassBreak q reason \<Longrightarrow> reason \<noteq> ''step_limit''"
  by (auto simp: run_pass_eq run_instruction_eq exit_text_not_limit split: option.splits step_result.splits prod.splits)

text \<open>A run with a higher limit goes on where the one with the lower limit stopped for its limit, and otherwise ends as it does.\<close>

lemma func_run_loop_extend:
  assumes "n \<le> m"
  shows "func_run_loop forms host rt m r =
    (case func_run_loop forms host rt n r of
       LoopDone q reason \<Rightarrow> if reason = ''step_limit'' then func_run_loop forms host rt m q else LoopDone q reason
     | failed \<Rightarrow> failed)"
  using assms
proof (induction forms host rt n r rule: func_run_loop.induct)
  case (1 forms host rt n r)
  note u = func_run_loop.simps [of forms host rt _ r]
  show ?case
  proof (cases "fs_step r < n")
    case False
    then have "func_run_loop forms host rt n r = LoopDone r ''step_limit''" by (simp add: u)
    then show ?thesis by simp
  next
    case True
    then have "fs_step r < m" using "1.prems" by simp
    then show ?thesis using True "1.IH" [OF True _ "1.prems"] pass_reason [of forms host rt r]
      by (cases "run_pass forms host rt r") (simp_all add: u)
  qed
qed

text \<open>The loop only appends to what it has recorded.\<close>

definition grown :: "'h run_state \<Rightarrow> 'h run_state \<Rightarrow> bool" where
  "grown r0 r = (\<exists>cs ds es. fs_commits r = fs_commits r0 @ cs \<and> fs_decoded r = fs_decoded r0 @ ds \<and> fs_events r = fs_events r0 @ es)"

lemma grown_step:
  assumes "func_step forms host rt n (Running r) c" "grown r0 r"
  shows "case c of Running r' \<Rightarrow> grown r0 r' | Stopped r' reason \<Rightarrow> grown r0 r'"
  using assms(1)
proof cases
  case (execute d r1 w out)
  then show ?thesis using assms(2) issued_frame [OF execute(4)] by (auto simp: grown_def retired_def)
next
  case (exit d r1 w out e)
  then show ?thesis using assms(2) issued_frame [OF exit(4)] by (auto simp: grown_def retired_def)
next
  case (fault d r1 w)
  then show ?thesis using assms(2) issued_frame [OF fault(4)] by (auto simp: grown_def retired_def)
qed (use assms(2) in \<open>auto simp: grown_def missed_def\<close>)

interpretation growth: run_invariant forms host rt n "grown r0" "\<lambda>r reason. grown r0 r"
  for forms :: "DecodeForm list" and host :: "'h Host" and rt n r0
proof unfold_locales
  fix r r' :: "'h run_state" and reason
  assume J: "grown r0 r"
  note s = grown_step [OF _ J, of forms host rt n "Running r'"] grown_step [OF _ J, of forms host rt n "Stopped r' reason"]
  show "fs_step r < n \<Longrightarrow> run_pass forms host rt r = PassNext r' \<Longrightarrow> grown r0 r'"
    using s(1) by (simp add: func_step_pass machine_of_def)
  show "fs_step r < n \<Longrightarrow> run_pass forms host rt r = PassBreak r' reason \<Longrightarrow> grown r0 r'"
    using s(2) by (simp add: func_step_pass machine_of_def)
qed

text \<open>C8: a higher step limit only continues a run. A run that ends before its limit, or fails, ends in the same way, with the
  same result and the same host, under every higher limit. A run that used up its limit of \<open>n\<close> steps has \<open>n\<close> commits, and
  the commits, decoded instructions and stage events of a run with a higher limit are those of the shorter run followed by
  more.\<close>

theorem longer_run_extends:
  assumes "n \<le> m"
  shows "case func_engine_run forms host h rt n of
      RunOk b h1 \<Rightarrow>
        if rm_exit_reason (rr_metrics (fb_result b)) = ''step_limit''
        then length (rr_commits (fb_result b)) = n \<and>
          (\<forall>b2 h2. func_engine_run forms host h rt m = RunOk b2 h2 \<longrightarrow>
             (\<exists>cs ds es. rr_commits (fb_result b2) = rr_commits (fb_result b) @ cs \<and> rr_decoded (fb_result b2) = rr_decoded (fb_result b) @ ds \<and>
                fb_stage_events b2 = fb_stage_events b @ es))
        else func_engine_run forms host h rt m = RunOk b h1
    | failed \<Rightarrow> func_engine_run forms host h rt m = failed"
proof -
  let ?r = "initial_run_state host h rt"
  note x = func_run_loop_extend [OF assms, of forms host rt ?r]
  show ?thesis
  proof (cases "func_run_loop forms host rt n ?r")
    case (LoopDone q reason)
    show ?thesis
    proof (cases "reason = ''step_limit''")
      case True
      have "func_engine_run forms host h rt n = RunOk (bundle_of rt q reason) (fs_host q)" by (simp add: func_engine_run_def LoopDone)
      from func_run_traced [OF this] True have len: "length (fs_commits q) = n" by (simp add: bundle_of_def)
      have "\<exists>cs ds es. rr_commits (fb_result b2) = fs_commits q @ cs \<and> rr_decoded (fb_result b2) = fs_decoded q @ ds \<and>
            fb_stage_events b2 = fs_events q @ es" if run2: "func_engine_run forms host h rt m = RunOk b2 h2" for b2 h2
      proof -
        obtain q2 reason2 where q2: "func_run_loop forms host rt m q = LoopDone q2 reason2" "b2 = bundle_of rt q2 reason2"
          using run2 x LoopDone True by (auto simp: func_engine_run_def split: loop_end.splits)
        have "grown q q" by (simp add: grown_def)
        from growth.run [OF q2(1) this] show ?thesis by (simp add: grown_def q2(2) bundle_of_def)
      qed
      then show ?thesis using len True by (simp add: func_engine_run_def [of forms host h rt n] LoopDone) (auto simp: bundle_of_def)
    next
      case False
      then show ?thesis using x by (simp add: func_engine_run_def LoopDone bundle_of_def)
    qed
  qed (use x in \<open>simp_all add: func_engine_run_def\<close>)
qed

theorem longer_run_extends_witness:
  "\<exists>b. func_engine_run [ebreak_form] sample_host () sample_runtime 3 = RunOk b () \<and> length (rr_commits (fb_result b)) = 1 \<and>
     func_engine_run [ebreak_form] sample_host () sample_runtime 5 = RunOk b ()"
proof -
  obtain b where b: "func_engine_run [ebreak_form] sample_host () sample_runtime 3 = RunOk b ()"
    "rm_exit_reason (rr_metrics (fb_result b)) = ''breakpoint''" "length (rr_commits (fb_result b)) = 1" using ebreak_run by blast
  then show ?thesis using longer_run_extends [of 3 5 "[ebreak_form]" sample_host "()" sample_runtime] by simp
qed

end
