(* ===== verification/Func_Eventfd.thy ===== *)
theory Func_Eventfd
  imports Func_Descriptors
begin

text \<open>Event descriptors as counters: the abstract counter a guest sees behind an event descriptor, and the refinement of it
  by the \<open>read\<close> and \<open>write\<close> system calls.\<close>

section \<open>The counter\<close>

text \<open>A counter holds at most \<open>2\<^sup>6\<^sup>4 - 2\<close>. Adding to it is refused when it would pass the bound; taking from it is refused
  when it is zero, and takes one (a semaphore) or everything.\<close>

datatype counter_reply = Done | Refused int

definition counter_add :: "nat \<Rightarrow> nat \<Rightarrow> counter_reply \<times> nat" where
  "counter_add v c =
     (if v = 2 ^ 64 - 1 then (Refused GUEST_EINVAL, c) else if 2 ^ 64 - 2 < c + v then (Refused GUEST_EAGAIN, c) else (Done, c + v))"

definition counter_take :: "bool \<Rightarrow> nat \<Rightarrow> counter_reply \<times> nat \<times> nat" where
  "counter_take semaphore c =
     (if c = 0 then (Refused GUEST_EAGAIN, 0, 0) else if semaphore then (Done, 1, c - 1) else (Done, c, 0))"

text \<open>The counters of a state, under their descriptors, with their mode.\<close>

definition counter_at :: "ExecState \<Rightarrow> u64 \<Rightarrow> (bool \<times> nat) option" where
  "counter_at s fd = (case bt_get (xs_special_fds s) fd of Some (SfEventFd e) \<Rightarrow> Some (efd_semaphore e, unat (efd_counter e)) | _ \<Rightarrow> None)"

lemma counter_at_iff:
  "counter_at s fd = Some (sem, c) \<longleftrightarrow> (\<exists>e. bt_get (xs_special_fds s) fd = Some (SfEventFd e) \<and> efd_semaphore e = sem \<and> unat (efd_counter e) = c)"
  by (auto simp: counter_at_def split: option.splits SpecialFdKind.splits)

lemma counter_at_insert [simp]:
  "counter_at (s\<lparr>xs_special_fds := bt_insert fd (SfEventFd e) m\<rparr>) g =
     (if g = fd then Some (efd_semaphore e, unat (efd_counter e)) else counter_at (s\<lparr>xs_special_fds := m\<rparr>) g)"
  by (simp add: counter_at_def)

lemma counter_at_cong: "xs_special_fds s = xs_special_fds t \<Longrightarrow> counter_at s = counter_at t"
  by (simp add: counter_at_def fun_eq_iff)

section \<open>Refinement\<close>

lemma unat_max_u64: "unat (- 1 :: u64) = 2 ^ 64 - 1"
  by (simp add: unsigned_minus_1_eq_mask mask_eq_exp_minus_1)

lemma max_u64_unat: "(v = (- 1 :: u64)) = (unat v = 2 ^ 64 - 1)"
  by (simp only: word_unat_eq_iff unat_max_u64)

lemma eventfd_add_refines:
  assumes "args ! 2 = 8" "read_u64_checked memory (args ! 1) = Some v" "dispatch_eventfd_write host memory e args h = (r, e', h')"
    "counter_add (unat v) (unat (efd_counter e)) = (reply, c')"
  shows "unat (efd_counter e') = c' \<and> efd_semaphore e' = efd_semaphore e \<and>
    (case reply of Refused errno \<Rightarrow> r = Inl errno \<and> h' = h | Done \<Rightarrow> r = Inr 8 \<or> r = Inl (last_errno host h'))"
proof (cases "v = - 1")
  case True
  then show ?thesis using assms by (auto simp: dispatch_eventfd_write_def counter_add_def max_u64_unat)
next
  case False
  have b: "unat v < 2 ^ 64 - 1" using False u64_bound [of v] unfolding max_u64_unat by simp
  have d: "unat (- 1 - 1 - v) = 2 ^ 64 - 2 - unat v"
  proof -
    have one: "unat (- 1 - 1 :: u64) = 2 ^ 64 - 2" by simp
    then have "v \<le> - 1 - 1" using b unfolding word_le_nat_alt by simp
    then show ?thesis using one by (simp only: unat_sub)
  qed
  show ?thesis
  proof (cases "2 ^ 64 - 2 < unat (efd_counter e) + unat v")
    case True
    then have "- 1 - 1 - v < efd_counter e" using b d by (simp add: word_less_nat_alt)
    then show ?thesis using assms False b True by (auto simp: dispatch_eventfd_write_def counter_add_def)
  next
    case le: False
    then have n: "\<not> - 1 - 1 - v < efd_counter e" using b d by (simp add: word_less_nat_alt)
    have s: "unat (word_sat_add (efd_counter e) v) = unat (efd_counter e) + unat v"
      using le by (simp add: word_sat_add_exact unat_word_ariths)
    show ?thesis using assms False b le n s
      by (auto simp: dispatch_eventfd_write_def counter_add_def Let_def split: if_splits prod.splits)
  qed
qed

lemma eventfd_take_refines:
  assumes "args ! 2 = 8" "dispatch_eventfd_read host fd e args w = (r, e', w')"
    "counter_take (efd_semaphore e) (unat (efd_counter e)) = (reply, v, c')"
  shows "unat (efd_counter e') = c' \<and> efd_semaphore e' = efd_semaphore e \<and> xs_special_fds (w_exec w') = xs_special_fds (w_exec w) \<and>
    (case reply of Refused errno \<Rightarrow> r = Inl errno \<and> w' = w
     | Done \<Rightarrow> (case write_u64_checked (w_memory w) (args ! 1) (word_of_nat v) of
           None \<Rightarrow> r = Inl GUEST_EFAULT \<and> w_exec w' = w_exec w
         | Some m \<Rightarrow> r = Inr 8 \<and> w_memory w' = m))"
proof (cases "efd_counter e = 0")
  case True
  then show ?thesis using assms by (auto simp: dispatch_eventfd_read_def counter_take_def)
next
  case False
  let ?v = "if efd_semaphore e then 1 else efd_counter e"
  have c: "reply = Done" "word_of_nat v = ?v" "unat (efd_counter e - ?v) = c'"
    using assms(3) False by (auto simp: counter_take_def unat_eq_0 unat_minus_one split: if_splits)
  let ?w1 = "if efd_counter e - ?v = 0 then w\<lparr>w_host := snd (h_read host fd 1 (w_host w))\<rparr> else w"
  have m: "w_exec ?w1 = w_exec w" by simp
  show ?thesis
  proof (cases "write_u64_checked (w_memory w) (args ! 1) ?v")
    case None
    then have "(r, e', w') = (Inl GUEST_EFAULT, e\<lparr>efd_counter := efd_counter e - ?v\<rparr>, ?w1)"
      using assms(1,2) False by (auto simp: dispatch_eventfd_read_def Let_def)
    then show ?thesis using c None m by simp
  next
    case (Some mem)
    then have "(r, e', w') = (Inr 8, e\<lparr>efd_counter := efd_counter e - ?v\<rparr>, note_store (args ! 1) ?v 8 (set_memory mem ?w1))"
      using assms(1,2) False by (cases "efd_semaphore e"; cases "efd_counter e = 1") (auto simp: dispatch_eventfd_read_def Let_def)
    then show ?thesis using c Some m by (simp add: note_store_def set_memory_def)
  qed
qed

text \<open>C21: an event descriptor refines the abstract counter. A \<open>write\<close> of eight bytes adds the value at the buffer: the
  counter moves as the abstract one does, a refused addition (the value is the largest integer, or the sum passes the bound)
  changes nothing and returns its error, and an accepted one returns 8, or the host's error when the pipe behind the
  descriptor refuses the wake-up byte. A \<open>read\<close> takes what the abstract counter gives - one from a semaphore, everything
  otherwise, and it is refused at zero - and stores it in the buffer; the count is taken even when the buffer faults. Every
  other descriptor keeps its counter.\<close>

theorem eventfd_refines_counter:
  assumes "counter_at (w_exec w) fd = Some (sem, c)" and "host_fd (w_exec w) fd = Inr hfd" and "args ! 0 = fd" and "args ! 2 = 8"
  shows "(\<forall>v r w'. read_u64_checked (w_memory w) (args ! 1) = Some v \<and> sys_write host args w = (r, w') \<longrightarrow>
      counter_at (w_exec w') = (counter_at (w_exec w))(fd \<mapsto> (sem, snd (counter_add (unat v) c))) \<and>
      (case fst (counter_add (unat v) c) of Refused errno \<Rightarrow> r = Inl errno | Done \<Rightarrow> r = Inr 8 \<or> r = Inl (last_errno host (w_host w')))) \<and>
    (\<forall>r w'. sys_read host args w = (r, w') \<longrightarrow>
      (case counter_take sem c of (reply, v, c') \<Rightarrow>
         counter_at (w_exec w') = (counter_at (w_exec w))(fd \<mapsto> (sem, c')) \<and>
         (case reply of Refused errno \<Rightarrow> r = Inl errno
          | Done \<Rightarrow> (case write_u64_checked (w_memory w) (args ! 1) (word_of_nat v) of
                None \<Rightarrow> r = Inl GUEST_EFAULT | Some m \<Rightarrow> r = Inr 8 \<and> w_memory w' = m))))"
proof -
  obtain e where e: "bt_get (xs_special_fds (w_exec w)) fd = Some (SfEventFd e)" "efd_semaphore e = sem" "unat (efd_counter e) = c"
    using assms(1) by (auto simp: counter_at_iff)
  have "counter_at (w_exec w') = (counter_at (w_exec w))(fd \<mapsto> (sem, snd (counter_add (unat v) c))) \<and>
      (case fst (counter_add (unat v) c) of Refused errno \<Rightarrow> r = Inl errno | Done \<Rightarrow> r = Inr 8 \<or> r = Inl (last_errno host (w_host w')))"
    if v: "read_u64_checked (w_memory w) (args ! 1) = Some v" and sys: "sys_write host args w = (r, w')" for v r w'
  proof -
    obtain q e' h where d: "dispatch_eventfd_write host (w_memory w) e args (w_host w) = (q, e', h)" by (metis prod.exhaust)
    obtain reply c' where a: "counter_add (unat v) c = (reply, c')" by (metis prod.exhaust)
    have w': "r = q" "w' = w\<lparr>w_host := h, w_exec := (w_exec w)\<lparr>xs_special_fds := bt_insert fd (SfEventFd e') (xs_special_fds (w_exec w))\<rparr>\<rparr>"
      using sys d assms(3) e(1) by (auto simp: sys_write_def Let_def)
    show ?thesis using eventfd_add_refines [OF assms(4) v d] a w' e(2,3)
      by (auto simp: fun_eq_iff split: counter_reply.splits)
  qed
  moreover have "case counter_take sem c of (reply, v, c') \<Rightarrow>
         counter_at (w_exec w') = (counter_at (w_exec w))(fd \<mapsto> (sem, c')) \<and>
         (case reply of Refused errno \<Rightarrow> r = Inl errno
          | Done \<Rightarrow> (case write_u64_checked (w_memory w) (args ! 1) (word_of_nat v) of
                None \<Rightarrow> r = Inl GUEST_EFAULT | Some m \<Rightarrow> r = Inr 8 \<and> w_memory w' = m))"
    if sys: "sys_read host args w = (r, w')" for r w'
  proof -
    obtain q e' u where d: "dispatch_eventfd_read host hfd e args w = (q, e', u)" by (metis prod.exhaust)
    obtain reply v c' where t: "counter_take sem c = (reply, v, c')" by (metis prod.exhaust)
    have w': "r = q" "w' = u\<lparr>w_exec := (w_exec u)\<lparr>xs_special_fds := bt_insert fd (SfEventFd e') (xs_special_fds (w_exec u))\<rparr>\<rparr>"
      using sys d assms(2,3) e(1) by (auto simp: sys_read_def Let_def)
    have f: "unat (efd_counter e') = c' \<and> efd_semaphore e' = sem \<and> xs_special_fds (w_exec u) = xs_special_fds (w_exec w) \<and>
      (case reply of Refused errno \<Rightarrow> q = Inl errno \<and> u = w
       | Done \<Rightarrow> (case write_u64_checked (w_memory w) (args ! 1) (word_of_nat v) of
           None \<Rightarrow> q = Inl GUEST_EFAULT \<and> w_exec u = w_exec w | Some m \<Rightarrow> q = Inr 8 \<and> w_memory u = m))"
      using eventfd_take_refines [OF assms(4) d] t e(2,3) by simp
    then have "counter_at (w_exec w') = (counter_at (w_exec w))(fd \<mapsto> (sem, c'))"
      using w' by (auto simp: fun_eq_iff counter_at_def)
    then show ?thesis using f t w' by (auto split: counter_reply.splits option.splits)
  qed
  ultimately show ?thesis by blast
qed

text \<open>A state whose descriptor 5 is an event counter at 7, and whose registers lie on readable memory.\<close>

definition sample_eventfd :: "unit World" where
  "sample_eventfd = sample_world\<lparr>w_exec := (w_exec sample_world)\<lparr>xs_fd_table := [(5, 9)],
     xs_special_fds := [(5, SfEventFd \<lparr>efd_write_fd = 10, efd_counter = 7, efd_semaphore = False\<rparr>)]\<rparr>\<rparr>"

lemma sample_counter: "counter_at (w_exec sample_eventfd) 5 = Some (False, 7)" "host_fd (w_exec sample_eventfd) 5 = Inr 9"
  by (simp_all add: sample_eventfd_def counter_at_def host_fd_def bt_get_def)

lemma sample_value: "read_u64_checked (w_memory sample_eventfd) 0x1010 = Some 0x0707070707070707"
proof -
  have "read_u64_checked sample_memory 0x1010 = Some 0x0707070707070707" by code_simp
  then show ?thesis by (simp add: sample_eventfd_def)
qed

theorem eventfd_refines_counter_witness:
  "counter_at (w_exec (snd (sys_read sample_host [5, 0x1010, 8] sample_eventfd))) 5 = Some (False, 0) \<and>
   counter_at (w_exec (snd (sys_write sample_host [5, 0x1010, 8] sample_eventfd))) 5 = Some (False, 0x070707070707070E)"
proof -
  note r = eventfd_refines_counter [OF sample_counter, of "[5, 0x1010, 8]" sample_host]
  have "counter_at (w_exec (snd (sys_read sample_host [5, 0x1010, 8] sample_eventfd))) 5 = Some (False, 0)"
    using r by (cases "sys_read sample_host [5, 0x1010, 8] sample_eventfd") (simp add: counter_take_def)
  moreover have "counter_at (w_exec (snd (sys_write sample_host [5, 0x1010, 8] sample_eventfd))) 5 = Some (False, 0x070707070707070E)"
    using r sample_value by (cases "sys_write sample_host [5, 0x1010, 8] sample_eventfd") (simp add: counter_add_def)
  ultimately show ?thesis by blast
qed

end
