(* ===== verification/Text_Io.thy ===== *)
theory Text_Io
  imports Prelude
begin

text \<open>
  What the tools use of the standard library to read and write text: lines, trimming and joining, hexadecimal
  parsing, \<open>collect\<close> over fallible calls, and a file system that maps paths to contents. Strings are ASCII. A
  fallible call returns \<open>Inl\<close> with its message.
\<close>

section \<open>Strings\<close>

definition is_whitespace :: "char \<Rightarrow> bool" where
  "is_whitespace c = (let n = (of_char c :: nat) in 9 \<le> n \<and> n \<le> 13 \<or> n = 32)"

definition str_trim :: "string \<Rightarrow> string" where
  "str_trim s = rev (dropWhile is_whitespace (rev (dropWhile is_whitespace s)))"

definition NEWLINE :: char where "NEWLINE = CHR 0x0A"

definition RETURN :: char where "RETURN = CHR 0x0D"

definition strip_return :: "string \<Rightarrow> string" where
  "strip_return s = (if s \<noteq> [] \<and> last s = RETURN then butlast s else s)"

text \<open>\<open>str::lines\<close>: a line ends at a newline, with or without a carriage return before it; text after the last
  newline is a line when there is any.\<close>

fun lines_from :: "string \<Rightarrow> string \<Rightarrow> string list" where
  "lines_from acc [] = (if acc = [] then [] else [rev acc])"
| "lines_from acc (c # s) =
     (if c = NEWLINE then strip_return (rev acc) # lines_from [] s else lines_from (c # acc) s)"

definition str_lines :: "string \<Rightarrow> string list" where
  "str_lines s = lines_from [] s"

fun str_join :: "string \<Rightarrow> string list \<Rightarrow> string" where
  "str_join sep [] = []"
| "str_join sep [x] = x"
| "str_join sep (x # y # xs) = x @ sep @ str_join sep (y # xs)"

text \<open>\<open>trim_start_matches\<close>: the prefix is removed as often as it occurs.\<close>

function trim_start_matches :: "string \<Rightarrow> string \<Rightarrow> string" where
  "trim_start_matches p s =
     (if p \<noteq> [] \<and> starts_with s p then trim_start_matches p (drop (length p) s) else s)"
  by pat_completeness auto
termination
  by (relation "measure (\<lambda>(p, s). length s)") (auto, case_tac s, auto, case_tac p, auto)

declare trim_start_matches.simps [simp del]

definition hex_value :: "char \<Rightarrow> nat option" where
  "hex_value c = (let n = (of_char c :: nat) in
     if 48 \<le> n \<and> n \<le> 57 then Some (n - 48)
     else if 97 \<le> n \<and> n \<le> 102 then Some (n - 87)
     else if 65 \<le> n \<and> n \<le> 70 then Some (n - 55)
     else None)"

fun hex_number :: "nat \<Rightarrow> string \<Rightarrow> nat option" where
  "hex_number acc [] = Some acc"
| "hex_number acc (c # s) = (case hex_value c of None \<Rightarrow> None | Some d \<Rightarrow> hex_number (16 * acc + d) s)"

text \<open>\<open>u64::from_str_radix\<close> with radix 16: an optional plus sign, at least one digit, no overflow.\<close>

definition u64_from_hex :: "string \<Rightarrow> u64 option" where
  "u64_from_hex s =
     (let digits = (if s \<noteq> [] \<and> hd s = CHR ''+'' then tl s else s) in
      if digits = [] then None
      else case hex_number 0 digits of None \<Rightarrow> None
           | Some n \<Rightarrow> if n \<le> u64_max then Some (word_of_nat n) else None)"

section \<open>Fallible calls over a list\<close>

fun try_map :: "('a \<Rightarrow> 'e + 'b) \<Rightarrow> 'a list \<Rightarrow> 'e + 'b list" where
  "try_map f [] = Inr []"
| "try_map f (x # xs) =
     (case f x of Inl e \<Rightarrow> Inl e
      | Inr y \<Rightarrow> (case try_map f xs of Inl e \<Rightarrow> Inl e | Inr ys \<Rightarrow> Inr (y # ys)))"

section \<open>Files\<close>

record Files =
  vf_contents :: "string \<Rightarrow> string option"
  vf_writable :: "string \<Rightarrow> bool"

definition read_to_string :: "string \<Rightarrow> Files \<Rightarrow> string + string" where
  "read_to_string path fs =
     (case vf_contents fs path of None \<Rightarrow> Inl (''failed to read '' @ path) | Some text \<Rightarrow> Inr text)"

definition write_file :: "string \<Rightarrow> string \<Rightarrow> string \<Rightarrow> Files \<Rightarrow> string + Files" where
  "write_file context path text fs =
     (if vf_writable fs path then Inr (fs\<lparr>vf_contents := (vf_contents fs)(path \<mapsto> text)\<rparr>)
      else Inl (context @ path))"

section \<open>Lemmas\<close>

lemma try_map_Inr: "try_map f xs = Inr ys \<longleftrightarrow> list_all2 (\<lambda>x y. f x = Inr y) xs ys"
proof (induction xs arbitrary: ys)
  case (Cons x xs)
  show ?case
  proof (cases "f x")
    case (Inr y)
    then show ?thesis using Cons.IH by (cases "try_map f xs") (auto simp: list_all2_Cons1)
  qed (simp add: list_all2_Cons1)
qed auto

lemma try_map_all: "\<forall>x \<in> set xs. f x = Inr (g x) \<Longrightarrow> try_map f xs = Inr (map g xs)"
  by (induction xs) auto

lemma lines_from_prefix:
  "NEWLINE \<notin> set l \<Longrightarrow> lines_from acc (l @ NEWLINE # s) = strip_return (rev acc @ l) # lines_from [] s"
  by (induction l arbitrary: acc) auto

text \<open>Lines written with a newline after each are read back.\<close>

definition line_ok :: "string \<Rightarrow> bool" where
  "line_ok l = (NEWLINE \<notin> set l \<and> RETURN \<notin> set l)"

lemma strip_return_ok: "line_ok l \<Longrightarrow> strip_return l = l"
  unfolding line_ok_def strip_return_def by (metis last_in_set)

lemma str_lines_concat:
  assumes "\<forall>l \<in> set ls. line_ok l"
  shows "str_lines (concat (map (\<lambda>l. l @ [NEWLINE]) ls)) = ls"
  using assms unfolding str_lines_def
proof (induction ls)
  case (Cons l ls)
  have "NEWLINE \<notin> set l" "strip_return l = l" using Cons.prems strip_return_ok by (auto simp: line_ok_def)
  with Cons show ?case by (simp add: lines_from_prefix)
qed simp

lemma join_newline: "ls \<noteq> [] \<Longrightarrow> str_join [NEWLINE] ls @ [NEWLINE] = concat (map (\<lambda>l. l @ [NEWLINE]) ls)"
  by (induction "[NEWLINE]" ls rule: str_join.induct) auto

lemma str_trim_id:
  assumes "s \<noteq> []" "\<not> is_whitespace (hd s)" "\<not> is_whitespace (last s)"
  shows "str_trim s = s"
proof -
  have "dropWhile is_whitespace s = s" using assms by (cases s) auto
  moreover have "dropWhile is_whitespace (rev s) = rev s"
    using assms by (cases s rule: rev_cases) auto
  ultimately show ?thesis by (simp add: str_trim_def)
qed

text \<open>Printed hexadecimal numbers are read back.\<close>

lemma hex_number_append: "hex_number a (s @ t) = (case hex_number a s of None \<Rightarrow> None | Some b \<Rightarrow> hex_number b t)"
  by (induction s arbitrary: a) (auto split: option.split)

lemma hex_value_digit: "n < 16 \<Longrightarrow> hex_value (hex_digit n) = Some n"
  by (auto simp: hex_value_def hex_digit_def Let_def)

lemma hex_number_show: "hex_number 0 (show_hex n) = Some n"
proof (induction n rule: show_hex.induct)
  case (1 n)
  show ?case
  proof (cases "n < 16")
    case True
    then show ?thesis by (simp add: show_hex.simps [of n] hex_value_digit)
  next
    case False
    then show ?thesis using "1.IH" by (simp add: show_hex.simps [of n] hex_number_append hex_value_digit)
  qed
qed

lemma show_hex_no_whitespace: "list_all (\<lambda>c. \<not> is_whitespace c) (show_hex n)"
proof (induction n rule: show_hex.induct)
  case (1 n)
  have "n < 16 \<Longrightarrow> \<not> is_whitespace (hex_digit n)" for n by (auto simp: is_whitespace_def hex_digit_def)
  with 1 show ?case by (subst show_hex.simps) auto
qed

lemma show_hex_nonempty [simp]: "show_hex n \<noteq> []"
  by (subst show_hex.simps) simp

lemma show_nat_digits: "list_all is_ascii_digit (show_nat n)"
proof (induction n rule: show_nat.induct)
  case (1 n)
  then show ?case by (subst show_nat.simps) (auto simp: is_ascii_digit_def [of "char_of _"])
qed

lemma show_nat_value: "foldl (\<lambda>a c. 10 * a + (of_char c - 48)) (0::nat) (show_nat n) = n"
proof (induction n rule: show_nat.induct)
  case (1 n)
  then show ?case by (cases "n < 10") (subst show_nat.simps, simp)+
qed

lemma show_nat_inj [simp]: "show_nat a = show_nat b \<longleftrightarrow> a = b"
  by (metis show_nat_value)

end
