(* ===== verification/Isa_Tables.thy ===== *)
theory Isa_Tables
  imports Isa Text_Io "HOL-Library.List_Lexorder" "HOL-Library.Char_ord"
begin

text \<open>
  How the decoder's tables are built (\<open>build_decode_tables\<close>, \<open>build_form\<close>, \<open>part_offsets\<close>, \<open>parse_hex_u64\<close> of
  \<^verbatim>\<open>crates/isa/src/lib.rs\<close>). The ISA description is a JSON file that \<open>serde_json\<close> parses; the parsed
  description is the input of the model. Bit positions and widths are \<open>u8\<close>, as natural numbers with the
  saturation or wrap-around of the code written out. No result is a panic.
\<close>

unbundle bit_operations_syntax

section \<open>The parsed description\<close>

record RawFieldPiece =
  rp_insn_lsb :: nat
  rp_insn_msb :: nat
  rp_value_lsb :: "nat option"
  rp_value_msb :: "nat option"
  rp_width :: nat

record RawField =
  rwf_name :: string
  rwf_pieces :: "RawFieldPiece list"
  rwf_signed :: "bool option"

record RawEncodingPart =
  ep_fields :: "RawField list"
  ep_mask :: string
  ep_match_bits :: string
  ep_width_bits :: nat

record RawEncoding =
  en_parts :: "RawEncodingPart list"

record RawInstruction =
  ri_asm :: string
  ri_encoding :: RawEncoding
  ri_encoding_kind :: string
  ri_group :: string
  ri_id :: string
  ri_length_bits :: nat
  ri_mnemonic :: string
  ri_uop_group :: string

record RawIsaBundle =
  ib_instructions :: "RawInstruction list"

section \<open>One form\<close>

definition parse_hex_u64 :: "string \<Rightarrow> u64 option" where
  "parse_hex_u64 text = u64_from_hex (trim_start_matches ''0x'' (str_trim text))"

definition part_offsets :: "RawEncodingPart list \<Rightarrow> nat list" where
  "part_offsets parts =
     fst (foldl (\<lambda>(offsets, running) (idx, part). (offsets[idx := running], min (running + ep_width_bits part) 255))
       (replicate (length parts) 0, 0) (rev (enumerate 0 parts)))"

text \<open>A shift by a \<open>u8\<close>, whose amount wraps at the width.\<close>

definition shl_u64 :: "u64 \<Rightarrow> nat \<Rightarrow> u64" where
  "shl_u64 x offset = push_bit (offset mod 64) x"

definition decode_piece :: "nat \<Rightarrow> RawFieldPiece \<Rightarrow> DecodePiece" where
  "decode_piece offset piece =
     \<lparr>dp_insn_lsb = (offset + rp_insn_lsb piece) mod 256, dp_width = rp_width piece,
      dp_value_lsb = unwrap_or (rp_value_lsb piece) 0\<rparr>"

definition candidate_width :: "RawFieldPiece \<Rightarrow> nat" where
  "candidate_width piece =
     (case rp_value_msb piece of Some msb \<Rightarrow> (msb + 1) mod 256
      | None \<Rightarrow> min (unwrap_or (rp_value_lsb piece) 0 + rp_width piece) 255)"

definition add_piece :: "nat \<Rightarrow> DecodeFieldSpec \<Rightarrow> RawFieldPiece \<Rightarrow> DecodeFieldSpec" where
  "add_piece offset entry piece =
     entry\<lparr>fs_width_bits := max (fs_width_bits entry) (candidate_width piece),
           fs_pieces := fs_pieces entry @ [decode_piece offset piece]\<rparr>"

definition add_field ::
  "nat \<Rightarrow> (string, DecodeFieldSpec) btree_map \<Rightarrow> RawField \<Rightarrow> (string, DecodeFieldSpec) btree_map" where
  "add_field offset fields_by_name field =
     (let signed = unwrap_or (rwf_signed field) False;
          entry = unwrap_or (bt_get fields_by_name (rwf_name field))
                    \<lparr>fs_name = rwf_name field, fs_width_bits = 0, fs_signed = signed, fs_pieces = []\<rparr>;
          entry' = entry\<lparr>fs_signed := fs_signed entry \<or> signed\<rparr>
      in bt_insert (rwf_name field) (foldl (add_piece offset) entry' (rwf_pieces field)) fields_by_name)"

fun add_parts ::
  "(nat \<times> RawEncodingPart) list \<Rightarrow> u64 \<Rightarrow> u64 \<Rightarrow> (string, DecodeFieldSpec) btree_map \<Rightarrow>
   (u64 \<times> u64 \<times> (string, DecodeFieldSpec) btree_map) option" where
  "add_parts [] mask_bits match_bits fields_by_name = Some (mask_bits, match_bits, fields_by_name)"
| "add_parts ((offset, part) # parts) mask_bits match_bits fields_by_name =
     (case parse_hex_u64 (ep_mask part) of None \<Rightarrow> None
      | Some m \<Rightarrow>
          (case parse_hex_u64 (ep_match_bits part) of None \<Rightarrow> None
           | Some b \<Rightarrow>
               add_parts parts (mask_bits OR shl_u64 m offset) (match_bits OR shl_u64 b offset)
                 (foldl (add_field offset) fields_by_name (ep_fields part))))"

definition count_ones :: "u64 \<Rightarrow> nat" where
  "count_ones x = length (filter (bit x) [0..<64])"

definition build_form :: "RawInstruction \<Rightarrow> DecodeForm option" where
  "build_form instruction =
     (let parts = en_parts (ri_encoding instruction) in
      case add_parts (zip (part_offsets parts) parts) 0 0 [] of None \<Rightarrow> None
      | Some (mask_bits, match_bits, fields_by_name) \<Rightarrow>
          Some \<lparr>fm_uid = ri_id instruction, fm_mnemonic = ri_mnemonic instruction, fm_asm = ri_asm instruction,
                fm_group = ri_group instruction, fm_encoding_kind = ri_encoding_kind instruction,
                fm_length_bits = ri_length_bits instruction, fm_mask = mask_bits, fm_match_bits = match_bits,
                fm_mask_popcount = count_ones mask_bits, fm_uop_group = ri_uop_group instruction,
                fm_fields = map snd fields_by_name\<rparr>)"

section \<open>The tables\<close>

record DecodeTables =
  dt_forms16 :: "DecodeForm list"
  dt_forms32 :: "DecodeForm list"
  dt_forms48 :: "DecodeForm list"
  dt_forms64 :: "DecodeForm list"
  dt_all_forms :: "DecodeForm list"

definition default_decode_tables :: DecodeTables where
  "default_decode_tables = \<lparr>dt_forms16 = [], dt_forms32 = [], dt_forms48 = [], dt_forms64 = [], dt_all_forms = []\<rparr>"

definition file_form :: "DecodeForm \<Rightarrow> DecodeTables \<Rightarrow> DecodeTables option" where
  "file_form form tables =
     map_option (\<lambda>t. t\<lparr>dt_all_forms := dt_all_forms t @ [form]\<rparr>)
       (if fm_length_bits form = 16 then Some (tables\<lparr>dt_forms16 := dt_forms16 tables @ [form]\<rparr>)
        else if fm_length_bits form = 32 then Some (tables\<lparr>dt_forms32 := dt_forms32 tables @ [form]\<rparr>)
        else if fm_length_bits form = 48 then Some (tables\<lparr>dt_forms48 := dt_forms48 tables @ [form]\<rparr>)
        else if fm_length_bits form = 64 then Some (tables\<lparr>dt_forms64 := dt_forms64 tables @ [form]\<rparr>)
        else None)"

fun build_tables_from :: "RawInstruction list \<Rightarrow> DecodeTables \<Rightarrow> DecodeTables option" where
  "build_tables_from [] tables = Some tables"
| "build_tables_from (instruction # rest) tables =
     (case build_form instruction of None \<Rightarrow> None
      | Some form \<Rightarrow>
          (case file_form form tables of None \<Rightarrow> None | Some tables' \<Rightarrow> build_tables_from rest tables'))"

definition build_decode_tables :: "RawIsaBundle \<Rightarrow> DecodeTables option" where
  "build_decode_tables raw = build_tables_from (ib_instructions raw) default_decode_tables"

definition decode_form_count :: "DecodeTables \<Rightarrow> usize" where
  "decode_form_count tables = length (dt_all_forms tables)"

section \<open>Offsets\<close>

definition parts_width :: "RawEncodingPart list \<Rightarrow> nat" where
  "parts_width parts = sum_list (map ep_width_bits parts)"

fun offsets_from_end :: "RawEncodingPart list \<Rightarrow> nat list" where
  "offsets_from_end [] = []"
| "offsets_from_end (p # ps) = min (parts_width ps) 255 # offsets_from_end ps"

lemma length_offsets_from_end [simp]: "length (offsets_from_end ps) = length ps"
  by (induction ps) auto

lemma part_offsets_fold:
  "foldl (\<lambda>(offsets, running) (idx, part). (offsets[idx := running], min (running + ep_width_bits part) 255))
     (replicate (k + length ps) 0, 0) (rev (enumerate k ps)) =
   (replicate k 0 @ offsets_from_end ps, min (parts_width ps) 255)"
proof (induction ps arbitrary: k)
  case (Cons p ps)
  have "replicate (k + length (p # ps)) (0 :: nat) = replicate (Suc k + length ps) 0" by simp
  then show ?case
    by (simp only: enumerate_simps rev.simps foldl_append Cons.IH [of "Suc k"])
      (simp add: parts_width_def list_update_append replicate_append_same [symmetric])
qed (simp add: parts_width_def)

lemma part_offsets_eq: "part_offsets ps = offsets_from_end ps"
  using part_offsets_fold [of 0 ps] by (simp add: part_offsets_def)

section \<open>What a form matches\<close>

text \<open>The fixed bits of one part, and that the part's mask and value fit its width.\<close>

definition part_ok :: "RawEncodingPart \<Rightarrow> bool" where
  "part_ok p = (\<exists>m b. parse_hex_u64 (ep_mask p) = Some m \<and> parse_hex_u64 (ep_match_bits p) = Some b \<and>
     unat m < 2 ^ ep_width_bits p \<and> unat b < 2 ^ ep_width_bits p)"

definition part_mask :: "RawEncodingPart \<Rightarrow> u64" where
  "part_mask p = the (parse_hex_u64 (ep_mask p))"

definition part_match :: "RawEncodingPart \<Rightarrow> u64" where
  "part_match p = the (parse_hex_u64 (ep_match_bits p))"

fun flat_bits :: "(RawEncodingPart \<Rightarrow> u64) \<Rightarrow> RawEncodingPart list \<Rightarrow> u64" where
  "flat_bits f [] = 0"
| "flat_bits f (p # ps) = push_bit (parts_width ps) (f p) OR flat_bits f ps"

lemma parts_width_simps [simp]: "parts_width [] = 0" "parts_width (p # ps) = ep_width_bits p + parts_width ps"
  by (simp_all add: parts_width_def)

lemma small_bit: "unat (x :: u64) < 2 ^ k \<Longrightarrow> bit x n \<Longrightarrow> n < k"
  by (metis bit_take_bit_iff take_bit_nat_eq_self unsigned_take_bit_eq word_unat_eq_iff)

lemma part_small:
  assumes "part_ok p" shows "bit (part_mask p) n \<Longrightarrow> n < ep_width_bits p" "bit (part_match p) n \<Longrightarrow> n < ep_width_bits p"
  using assms small_bit by (auto simp: part_ok_def part_mask_def part_match_def)

lemma flat_bits_small:
  assumes "\<forall>p \<in> set ps. \<forall>n. bit (f p) n \<longrightarrow> n < ep_width_bits p" "bit (flat_bits f ps) n"
  shows "n < parts_width ps"
  using assms
proof (induction ps)
  case (Cons p ps)
  then show ?case by (fastforce simp: bit_or_iff bit_push_bit_iff)
qed simp

lemma add_parts_flat:
  assumes "\<forall>p \<in> set ps. part_ok p" "parts_width ps \<le> 64" "\<forall>p \<in> set ps. 0 < ep_width_bits p"
  shows "\<exists>fs'. add_parts (zip (offsets_from_end ps) ps) m b fs =
    Some (m OR flat_bits part_mask ps, b OR flat_bits part_match ps, fs')"
  using assms
proof (induction ps arbitrary: m b fs)
  case (Cons p ps)
  have "parts_width ps < 64" using Cons.prems by simp
  then have shl: "shl_u64 x (parts_width ps) = push_bit (parts_width ps) x" for x
    by (simp add: shl_u64_def)
  have "parse_hex_u64 (ep_mask p) = Some (part_mask p)" "parse_hex_u64 (ep_match_bits p) = Some (part_match p)"
    using Cons.prems(1) by (auto simp: part_ok_def part_mask_def part_match_def)
  moreover obtain fs' where "add_parts (zip (offsets_from_end ps) ps) (m OR push_bit (parts_width ps) (part_mask p))
      (b OR push_bit (parts_width ps) (part_match p)) (foldl (add_field (parts_width ps)) fs (ep_fields p)) =
    Some ((m OR push_bit (parts_width ps) (part_mask p)) OR flat_bits part_mask ps,
      (b OR push_bit (parts_width ps) (part_match p)) OR flat_bits part_match ps, fs')"
    using Cons.IH Cons.prems by fastforce
  moreover have "min (parts_width ps) 255 = parts_width ps" using \<open>parts_width ps < 64\<close> by simp
  ultimately show ?case by (simp add: shl or.assoc)
qed simp

lemma flat_match:
  assumes "\<forall>p \<in> set ps. part_ok p" "parts_width ps \<le> 64"
  shows "w AND flat_bits part_mask ps = flat_bits part_match ps \<longleftrightarrow>
    (\<forall>i < length ps. drop_bit (offsets_from_end ps ! i) w AND part_mask (ps ! i) = part_match (ps ! i))"
  using assms
proof (induction ps)
  case (Cons p ps)
  let ?W = "parts_width ps"
  let ?m = "push_bit ?W (part_mask p)" and ?b = "push_bit ?W (part_match p)"
  let ?M = "flat_bits part_mask ps" and ?B = "flat_bits part_match ps"
  have lo: "bit ?M n \<Longrightarrow> n < ?W" "bit ?B n \<Longrightarrow> n < ?W" for n
    using flat_bits_small [of ps part_mask n] flat_bits_small [of ps part_match n] part_small Cons.prems(1) by auto
  have hi: "bit (part_mask p) n \<Longrightarrow> n < ep_width_bits p" "bit (part_match p) n \<Longrightarrow> n < ep_width_bits p" for n
    using part_small Cons.prems(1) by auto
  have W: "ep_width_bits p + ?W \<le> 64" using Cons.prems(2) by simp
  have split: "w AND (?m OR ?M) = ?b OR ?B \<longleftrightarrow> w AND ?m = ?b \<and> w AND ?M = ?B"
  proof
    assume eq: "w AND (?m OR ?M) = ?b OR ?B"
    have "bit (w AND ?m) n = bit ?b n" "bit (w AND ?M) n = bit ?B n" if "n < 64" for n
      using arg_cong [OF eq, of "\<lambda>x. bit x n"] lo [of n] that
      by (auto simp: bit_and_iff bit_or_iff bit_push_bit_iff)
    then show "w AND ?m = ?b \<and> w AND ?M = ?B" by (auto intro!: bit_word_eqI)
  qed (simp add: bit.conj_disj_distrib)
  have shift: "w AND ?m = ?b \<longleftrightarrow> drop_bit ?W w AND part_mask p = part_match p"
  proof
    assume eq: "w AND ?m = ?b"
    have "bit (drop_bit ?W w AND part_mask p) n = bit (part_match p) n" if "n < 64" for n
      using arg_cong [OF eq, of "\<lambda>x. bit x (?W + n)"] hi [of n] W that
      by (auto simp: bit_and_iff bit_push_bit_iff bit_drop_bit_eq add.commute)
    then show "drop_bit ?W w AND part_mask p = part_match p" by (auto intro!: bit_word_eqI)
  next
    assume eq: "drop_bit ?W w AND part_mask p = part_match p"
    have "bit (w AND ?m) n = bit ?b n" if "n < 64" for n
      using arg_cong [OF eq, of "\<lambda>x. bit x (n - ?W)"] that
      by (auto simp: bit_and_iff bit_push_bit_iff bit_drop_bit_eq)
    then show "w AND ?m = ?b" by (auto intro!: bit_word_eqI)
  qed
  have o: "offsets_from_end (p # ps) ! 0 = ?W" using W by simp
  show ?case using Cons.IH Cons.prems split shift o
    by (auto simp: All_less_Suc2)
qed simp

lemma build_form_flat:
  assumes "parts = en_parts (ri_encoding instruction)" "\<And>p. p \<in> set parts \<Longrightarrow> part_ok p \<and> 0 < ep_width_bits p" "parts_width parts \<le> 64"
  shows "\<exists>form. build_form instruction = Some form \<and> fm_mask form = flat_bits part_mask parts \<and>
    fm_match_bits form = flat_bits part_match parts \<and> fm_mask_popcount form = count_ones (fm_mask form)"
proof -
  have ok: "\<forall>p \<in> set parts. part_ok p" "\<forall>p \<in> set parts. 0 < ep_width_bits p" using assms(2) by auto
  obtain fs where "add_parts (zip (part_offsets parts) parts) 0 0 [] = Some (flat_bits part_mask parts, flat_bits part_match parts, fs)"
    using add_parts_flat [OF ok(1) assms(3) ok(2), of 0 0 "[]"] by (auto simp: part_offsets_eq)
  then show ?thesis by (auto simp: build_form_def assms(1) [symmetric] Let_def)
qed

lemma offsets_from_end_nth: "i < length ps \<Longrightarrow> parts_width ps \<le> 64 \<Longrightarrow> offsets_from_end ps ! i = parts_width (drop (i + 1) ps)"
  by (induction ps arbitrary: i) (auto simp: nth_Cons split: nat.split)

text \<open>C35: a form of several parts matches a word exactly when every part matches its own slice of it: the parts lie side
  by side, the last one lowest, and the mask and the value of the form are theirs, shifted there.\<close>

theorem form_matches_parts:
  assumes "parts = en_parts (ri_encoding instruction)" "\<And>p. p \<in> set parts \<Longrightarrow> part_ok p \<and> 0 < ep_width_bits p" "parts_width parts \<le> 64"
  shows "\<exists>form. build_form instruction = Some form \<and> fm_mask_popcount form = count_ones (fm_mask form) \<and>
    (\<forall>w. form_matches form w \<longleftrightarrow>
       (\<forall>i < length parts. drop_bit (parts_width (drop (i + 1) parts)) w AND part_mask (parts ! i) = part_match (parts ! i)))"
proof -
  have "\<forall>p \<in> set parts. part_ok p" using assms(2) by blast
  note flat = flat_match [OF this assms(3)]
  obtain form where "build_form instruction = Some form" "fm_mask form = flat_bits part_mask parts"
    "fm_match_bits form = flat_bits part_match parts" "fm_mask_popcount form = count_ones (fm_mask form)"
    using build_form_flat [OF assms] by blast
  then show ?thesis using flat by (auto simp: form_matches_def offsets_from_end_nth [OF _ assms(3)])
qed

section \<open>The fields of a form\<close>

definition placed_fields :: "(nat \<times> RawEncodingPart) list \<Rightarrow> (nat \<times> RawField) list" where
  "placed_fields parts = concat (map (\<lambda>(offset, part). map (Pair offset) (ep_fields part)) parts)"

text \<open>The field of a name, read off the placed fields of that name.\<close>

definition named :: "string \<Rightarrow> (nat \<times> RawField) list \<Rightarrow> (nat \<times> RawField) list" where
  "named n fs = filter (\<lambda>f. rwf_name (snd f) = n) fs"

definition merged_field :: "string \<Rightarrow> (nat \<times> RawField) list \<Rightarrow> DecodeFieldSpec" where
  "merged_field n fs =
     \<lparr>fs_name = n,
      fs_width_bits = Max (insert 0 (candidate_width ` set (concat (map (rwf_pieces \<circ> snd) (named n fs))))),
      fs_signed = (\<exists>f \<in> set (named n fs). rwf_signed (snd f) = Some True),
      fs_pieces = concat (map (\<lambda>(offset, f). map (decode_piece offset) (rwf_pieces f)) (named n fs))\<rparr>"

lemma fold_add_piece:
  "foldl (add_piece offset) entry ps =
     entry\<lparr>fs_width_bits := Max (insert (fs_width_bits entry) (candidate_width ` set ps)),
           fs_pieces := fs_pieces entry @ map (decode_piece offset) ps\<rparr>"
proof (induction ps arbitrary: entry)
  case (Cons p ps)
  have "Max (insert (max a c) (candidate_width ` set ps)) = max a (Max (insert c (candidate_width ` set ps)))" for a c
    by (cases "ps = []") (simp_all add: max.assoc)
  with Cons show ?case by (simp add: add_piece_def)
qed simp

lemma Max_two: "finite A \<Longrightarrow> finite B \<Longrightarrow> Max (insert (Max (insert (0::nat) A)) B) = Max (insert 0 (A \<union> B))"
  by (cases "B = {}"; cases "A = {}") (simp_all add: Max_Un max.assoc)

lemma add_field_get:
  assumes "bt_get m n = (if named n fs = [] then None else Some (merged_field n fs))" "f = (offset, rf)"
  shows "bt_get (add_field offset m rf) n = (if named n (fs @ [f]) = [] then None else Some (merged_field n (fs @ [f])))"
proof (cases "rwf_name rf = n")
  case True
  have s: "unwrap_or (rwf_signed rf) False = (rwf_signed rf = Some True)" by (cases "rwf_signed rf") auto
  show ?thesis
  proof (cases "named n fs = []")
    case N: True
    then show ?thesis using True assms
      by (simp add: add_field_def Let_def fold_add_piece s) (simp add: merged_field_def named_def)
  next
    case N: False
    then show ?thesis using True assms
      by (simp add: add_field_def Let_def fold_add_piece s)
        (auto simp: merged_field_def named_def Max_two image_Un)
  qed
qed (use assms in \<open>auto simp: add_field_def Let_def merged_field_def named_def\<close>)

lemma fold_fields:
  "bt_wf m \<Longrightarrow> (\<And>n. bt_get m n = (if named n fs = [] then None else Some (merged_field n fs))) \<Longrightarrow>
   bt_wf (foldl (add_field offset) m rfs) \<and>
   (\<forall>n. bt_get (foldl (add_field offset) m rfs) n =
      (if named n (fs @ map (Pair offset) rfs) = [] then None else Some (merged_field n (fs @ map (Pair offset) rfs))))"
proof (induction rfs arbitrary: m fs)
  case (Cons rf rfs)
  have "bt_wf (add_field offset m rf)" using Cons.prems(1) by (simp add: add_field_def Let_def bt_wf_insert)
  from Cons.IH [OF this add_field_get [OF Cons.prems(2) refl]] show ?case by simp
qed simp

lemma add_parts_fields:
  assumes "add_parts ps m b f0 = Some (m', b', f1)" "bt_wf f0"
    "\<And>n. bt_get f0 n = (if named n fs = [] then None else Some (merged_field n fs))"
  shows "bt_wf f1 \<and> (\<forall>n. bt_get f1 n =
    (if named n (fs @ placed_fields ps) = [] then None else Some (merged_field n (fs @ placed_fields ps))))"
  using assms
proof (induction ps m b f0 arbitrary: fs rule: add_parts.induct)
  case (2 offset part ps m b f0)
  note ff = fold_fields [OF "2.prems"(2,3), of offset "ep_fields part"]
  from "2.prems"(1) obtain x y where xy: "parse_hex_u64 (ep_mask part) = Some x" "parse_hex_u64 (ep_match_bits part) = Some y"
    by (auto split: option.splits)
  from "2.IH" [OF xy _ conjunct1 [OF ff], of "fs @ map (Pair offset) (ep_fields part)"] "2.prems"(1) xy ff
  show ?case by (simp add: placed_fields_def)
qed (simp add: placed_fields_def)

text \<open>The fields of a form are the named fields of its parts, one per name and in the order of their names. The
  pieces of a field are those the parts list for that name, in order and moved by the offset of their part; it is
  as wide as the widest of them and signed when any of them is.\<close>

theorem build_form_fields:
  assumes "build_form instruction = Some form"
  defines "placed \<equiv> placed_fields (zip (part_offsets (en_parts (ri_encoding instruction))) (en_parts (ri_encoding instruction)))"
  shows "sorted_wrt (<) (map fs_name (fm_fields form)) \<and>
    set (map fs_name (fm_fields form)) = (\<lambda>f. rwf_name (snd f)) ` set placed \<and>
    (\<forall>field \<in> set (fm_fields form). field = merged_field (fs_name field) placed)"
proof -
  obtain m b fs where "add_parts (zip (part_offsets (en_parts (ri_encoding instruction))) (en_parts (ri_encoding instruction))) 0 0 [] = Some (m, b, fs)"
    and form: "fm_fields form = map snd fs"
    using assms(1) by (auto simp: build_form_def Let_def split: option.splits)
  from add_parts_fields [OF this(1), of "[]"] have wf: "bt_wf fs"
    and get: "\<And>n. bt_get fs n = (if named n placed = [] then None else Some (merged_field n placed))"
    by (auto simp: bt_wf_def named_def placed_def)
  have e: "v = merged_field k placed \<and> fs_name v = k" if "(k, v) \<in> set fs" for k v
    using bt_mem_get [OF wf that] get [of k] by (auto simp: merged_field_def split: if_splits)
  then have names: "map fs_name (fm_fields form) = map fst fs" by (auto simp: form)
  have "k \<in> fst ` set fs \<longleftrightarrow> named k placed \<noteq> []" for k
    using get [of k] map_of_eq_None_iff [of fs k] by (simp add: bt_get_def split: if_splits)
  then have "fst ` set fs = (\<lambda>f. rwf_name (snd f)) ` set placed"
    by (force simp: named_def filter_empty_conv)
  moreover have "\<forall>field \<in> set (fm_fields form). field = merged_field (fs_name field) placed" using e by (auto simp: form)
  ultimately show ?thesis using wf by (simp add: names bt_wf_def)
qed

section \<open>The tables of a description\<close>

lemma build_form_length: "build_form i = Some f \<Longrightarrow> fm_length_bits f = ri_length_bits i"
  by (auto simp: build_form_def Let_def split: option.splits)

definition tables_ok :: "DecodeTables \<Rightarrow> bool" where
  "tables_ok t =
     (dt_forms16 t = filter (\<lambda>f. fm_length_bits f = 16) (dt_all_forms t) \<and>
      dt_forms32 t = filter (\<lambda>f. fm_length_bits f = 32) (dt_all_forms t) \<and>
      dt_forms48 t = filter (\<lambda>f. fm_length_bits f = 48) (dt_all_forms t) \<and>
      dt_forms64 t = filter (\<lambda>f. fm_length_bits f = 64) (dt_all_forms t) \<and>
      list_all (\<lambda>f. fm_length_bits f \<in> {16, 32, 48, 64}) (dt_all_forms t))"

lemma file_form_cases:
  "case file_form f t of None \<Rightarrow> fm_length_bits f \<notin> {16, 32, 48, 64}
   | Some t' \<Rightarrow> dt_all_forms t' = dt_all_forms t @ [f] \<and> (tables_ok t \<longrightarrow> tables_ok t')"
  by (auto simp: file_form_def tables_ok_def)

lemma build_tables_from_spec:
  assumes "tables_ok t"
  shows "case build_tables_from is t of
     None \<Rightarrow> \<exists>i \<in> set is. build_form i = None \<or> ri_length_bits i \<notin> {16, 32, 48, 64}
   | Some t' \<Rightarrow> map Some (dt_all_forms t') = map Some (dt_all_forms t) @ map build_form is \<and> tables_ok t'"
  using assms
proof (induction "is" arbitrary: t)
  case (Cons i "is")
  show ?case
  proof (cases "build_form i")
    case (Some f)
    show ?thesis
    proof (cases "file_form f t")
      case None
      then show ?thesis using file_form_cases [of f t] build_form_length [OF Some] by (simp add: Some)
    next
      case t1: (Some t1)
      then have "dt_all_forms t1 = dt_all_forms t @ [f]" "tables_ok t1" using file_form_cases [of f t] Cons.prems by auto
      with Cons.IH [of t1] show ?thesis by (auto simp: Some t1 split: option.splits)
    qed
  qed auto
qed simp

text \<open>The decoder's tables hold the whole description. Building them either fails, because an instruction has a mask
  that is no hexadecimal number or a length other than 16, 32, 48 and 64, or yields the form of every instruction
  in the order of the description, each filed under its length and nowhere else.\<close>

theorem build_decode_tables_complete:
  "case build_decode_tables raw of
     None \<Rightarrow> \<exists>i \<in> set (ib_instructions raw). build_form i = None \<or> ri_length_bits i \<notin> {16, 32, 48, 64}
   | Some t \<Rightarrow> map Some (dt_all_forms t) = map build_form (ib_instructions raw) \<and> tables_ok t \<and>
       decode_form_count t = length (ib_instructions raw)"
proof -
  have "tables_ok default_decode_tables" by (simp add: tables_ok_def default_decode_tables_def)
  note spec = build_tables_from_spec [OF this, of "ib_instructions raw"]
  have "length (dt_all_forms t) = length (ib_instructions raw)"
    if "map Some (dt_all_forms t) = map build_form (ib_instructions raw)" for t
    using that by (metis length_map)
  with spec show ?thesis
    by (auto simp: build_decode_tables_def decode_form_count_def default_decode_tables_def split: option.splits)
qed

section \<open>Hexadecimal constants\<close>

lemma hex_digit_code: "n < 16 \<Longrightarrow> (of_char (hex_digit n) :: nat) = (if n < 10 then 48 + n else 87 + n)"
  by (simp add: hex_digit_def)

lemma hex_digit_plain:
  assumes "n < 16" shows "\<not> is_whitespace (hex_digit n) \<and> hex_digit n \<noteq> CHR ''x'' \<and> hex_digit n \<noteq> CHR ''+''"
proof -
  have "(of_char (hex_digit n) :: nat) \<noteq> of_char (CHR ''x'')" "(of_char (hex_digit n) :: nat) \<noteq> of_char (CHR ''+'')"
    using assms by (auto simp: hex_digit_code)
  moreover have "\<not> is_whitespace (hex_digit n)" using assms by (auto simp: is_whitespace_def hex_digit_code)
  ultimately show ?thesis by metis
qed

lemma show_hex_plain: "list_all (\<lambda>c. \<not> is_whitespace c \<and> c \<noteq> CHR ''x'' \<and> c \<noteq> CHR ''+'') (show_hex n)"
proof (induction n rule: show_hex.induct)
  case (1 n)
  then show ?case by (subst show_hex.simps) (auto simp: hex_digit_plain)
qed

lemma trim_start_matches_once:
  assumes "list_all (\<lambda>c. c \<noteq> CHR ''x'') s"
  shows "trim_start_matches ''0x'' (''0x'' @ s) = s"
proof -
  have "\<not> starts_with s ''0x''" using assms by (cases s; cases "tl s") auto
  then show ?thesis by (subst trim_start_matches.simps) (simp add: trim_start_matches.simps [of _ s])
qed

lemma parse_hex_show: "parse_hex_u64 (''0x'' @ show_hex (unat m)) = Some m"
proof -
  let ?s = "show_hex (unat m)"
  have word_below: "unat m < 2 ^ LENGTH(64)" by (rule unsigned_less)
  have p: "\<forall>c \<in> set ?s. \<not> is_whitespace c \<and> c \<noteq> CHR ''x'' \<and> c \<noteq> CHR ''+''" using show_hex_plain [of "unat m"] by (simp add: list_all_iff)
  have "\<not> is_whitespace (CHR ''0'')" by code_simp
  then have "str_trim (''0x'' @ ?s) = ''0x'' @ ?s"
    using p by (intro str_trim_id) auto
  moreover have "trim_start_matches ''0x'' (''0x'' @ ?s) = ?s" using p by (intro trim_start_matches_once) (simp add: list_all_iff)
  moreover have "hd ?s \<noteq> CHR ''+''" using p by simp
  moreover have "unat m \<le> u64_max" using word_below by (simp add: u64_max_def)
  ultimately show ?thesis by (simp add: parse_hex_u64_def u64_from_hex_def hex_number_show)
qed

text \<open>A mask printed as a hexadecimal constant is read back, whatever its value.\<close>

theorem parse_hex_round_trip: "parse_hex_u64 (''0x'' @ show_hex (unat m)) = Some m"
  by (rule parse_hex_show)

section \<open>A sample\<close>

text \<open>An instruction of 48 bits: a prefix part of 16 and a main part of 32.\<close>

definition sample_raw :: RawInstruction where
  "sample_raw = \<lparr>ri_asm = ''hl.addi'',
     ri_encoding = \<lparr>en_parts =
       [\<lparr>ep_fields = [\<lparr>rwf_name = ''simm'', rwf_pieces = [\<lparr>rp_insn_lsb = 4, rp_insn_msb = 15, rp_value_lsb = Some 12, rp_value_msb = Some 23, rp_width = 12\<rparr>],
           rwf_signed = Some True\<rparr>], ep_mask = ''0xf'', ep_match_bits = ''0xe'', ep_width_bits = 16\<rparr>,
        \<lparr>ep_fields = [\<lparr>rwf_name = ''simm'', rwf_pieces = [\<lparr>rp_insn_lsb = 20, rp_insn_msb = 31, rp_value_lsb = Some 0, rp_value_msb = Some 11, rp_width = 12\<rparr>],
           rwf_signed = None\<rparr>], ep_mask = ''0x707f'', ep_match_bits = ''0x15'', ep_width_bits = 32\<rparr>]\<rparr>,
     ri_encoding_kind = ''L48'', ri_group = ''alu'', ri_id = ''hl_addi'', ri_length_bits = 48, ri_mnemonic = ''HL.ADDI'', ri_uop_group = ''ALU''\<rparr>"

lemma sample_constants:
  "parse_hex_u64 ''0xf'' = Some 0xf" "parse_hex_u64 ''0xe'' = Some 0xe"
  "parse_hex_u64 ''0x707f'' = Some 0x707f" "parse_hex_u64 ''0x15'' = Some 0x15"
proof -
  have "show_hex 15 = ''f''" "show_hex 14 = ''e''" "show_hex 0x707f = ''707f''" "show_hex 0x15 = ''15''"
    by (simp_all add: show_hex.simps hex_digit_def char_of_def bit_0)
  then show "parse_hex_u64 ''0xf'' = Some 0xf" "parse_hex_u64 ''0xe'' = Some 0xe"
    "parse_hex_u64 ''0x707f'' = Some 0x707f" "parse_hex_u64 ''0x15'' = Some 0x15"
    using parse_hex_show [of "0xf"] parse_hex_show [of "0xe"] parse_hex_show [of "0x707f"] parse_hex_show [of "0x15"] by simp_all
qed

lemma sample_parts:
  "p \<in> set (en_parts (ri_encoding sample_raw)) \<Longrightarrow> part_ok p \<and> 0 < ep_width_bits p" "parts_width (en_parts (ri_encoding sample_raw)) \<le> 64"
  by (auto simp: sample_raw_def part_ok_def sample_constants)

lemma form_matches_parts_witness:
  "\<exists>form. build_form sample_raw = Some form \<and> form_matches form 0xe00000015"
proof -
  let ?ps = "en_parts (ri_encoding sample_raw)"
  obtain form where f: "build_form sample_raw = Some form" "\<And>w. form_matches form w \<longleftrightarrow>
       (\<forall>i < length ?ps. drop_bit (parts_width (drop (i + 1) ?ps)) w AND part_mask (?ps ! i) = part_match (?ps ! i))"
    using form_matches_parts [OF refl sample_parts] by blast
  have "length ?ps = Suc (Suc 0)" by (simp add: sample_raw_def)
  moreover have "drop_bit 32 (0xe00000015 :: u64) AND 0xf = 0xe" "(0xe00000015 :: u64) AND 0x707f = 0x15" by code_simp+
  ultimately have "form_matches form 0xe00000015"
    by (simp add: f(2) All_less_Suc2) (simp add: sample_raw_def part_mask_def part_match_def sample_constants)
  then show ?thesis using f(1) by blast
qed

lemma build_form_fields_witness:
  "\<exists>form. build_form sample_raw = Some form \<and> map fs_name (fm_fields form) = [''simm'']"
proof -
  let ?placed = "placed_fields (zip (part_offsets (en_parts (ri_encoding sample_raw))) (en_parts (ri_encoding sample_raw)))"
  obtain form where f: "build_form sample_raw = Some form"
    using build_form_flat [OF refl sample_parts] by blast
  note p = build_form_fields [OF f]
  have single: "xs = [x]" if "set xs = {x}" "distinct xs" for xs and x :: string
  proof (cases xs)
    case (Cons y ys)
    with that have "y = x" "set ys \<subseteq> {x}" "x \<notin> set ys" by auto
    then show ?thesis using Cons by (cases ys) auto
  qed (use that in simp)
  have "(\<lambda>f. rwf_name (snd f)) ` set ?placed = {''simm''}" by (simp add: sample_raw_def part_offsets_eq placed_fields_def)
  from trans [OF conjunct1 [OF conjunct2 [OF p]] this]
  have "set (map fs_name (fm_fields form)) = {''simm''}" .
  moreover have "distinct (map fs_name (fm_fields form))" using conjunct1 [OF p] by (simp only: strict_sorted_iff)
  note single [OF calculation this]
  then have "map fs_name (fm_fields form) = [''simm'']" .
  with f show ?thesis by (intro exI conjI)
qed

end
