(* ===== verification/Linxtrace.thy ===== *)
theory Linxtrace
  imports Text_Io Cosim
begin

text \<open>
  The trace files (\<^verbatim>\<open>crates/trace/src/linxtrace/mod.rs\<close>, the catalogs of
  \<^verbatim>\<open>crates/isa/src/lib.rs\<close>) and the commit stream the cosimulation reads
  (\<open>load_commit_jsonl\<close> of \<^verbatim>\<open>crates/cosim/src/compare/mod.rs\<close>). The records of a trace are a datatype
  with the source's variants; \<open>serde_json\<close> is a parameter, the function that renders a record as one JSON text
  and the one that parses it.
\<close>

section \<open>Catalogs\<close>

record StageCatalogEntry =
  sc_stage_id :: string
  sc_label :: string
  sc_color :: string
  sc_group :: string

record LaneCatalogEntry =
  lc_lane_id :: string
  lc_label :: string

record RowCatalogEntry =
  rc_row_id :: string
  rc_row_kind :: string
  rc_core_id :: string
  rc_block_uid :: nat
  rc_uop_uid :: nat
  rc_left_label :: string
  rc_detail_defaults :: string

definition LINXTRACE_FORMAT :: string where
  "LINXTRACE_FORMAT = ''linxtrace.v1''"

definition default_stage_order :: "string list" where
  "default_stage_order =
     [''F0'', ''F1'', ''F2'', ''F3'', ''IB'', ''F4'', ''D1'', ''D2'', ''D3'', ''S1'', ''S2'', ''IQ'', ''P1'', ''I1'', ''I2'',
      ''E1'', ''E2'', ''E3'', ''E4'', ''W1'', ''W2'', ''ROB'', ''CMT'', ''FLS'']"

definition stage_group :: "string \<Rightarrow> string" where
  "stage_group stage =
     (if starts_with stage ''F'' \<or> stage = ''IB'' then ''frontend''
      else if starts_with stage ''D'' \<or> starts_with stage ''S'' \<or> stage = ''IQ'' then ''dispatch''
      else if starts_with stage ''E'' \<or> starts_with stage ''W'' \<or> starts_with stage ''P'' \<or> starts_with stage ''I''
      then ''execute''
      else ''retire'')"

definition default_stage_catalog :: "StageCatalogEntry list" where
  "default_stage_catalog =
     map (\<lambda>(idx, stage). \<lparr>sc_stage_id = stage, sc_label = stage,
            sc_color = ''#'' @ pad_left 6 CHR ''0'' (show_hex (0x335577 + idx * 0x050103)),
            sc_group = stage_group stage\<rparr>)
       (enumerate 0 default_stage_order)"

record TraceCaptureOptions =
  tc_commit_window_start :: nat
  tc_commit_window_end :: "nat option"
  tc_stage_filter :: "string list"
  tc_row_filter :: "string list"

definition default_trace_capture_options :: TraceCaptureOptions where
  "default_trace_capture_options =
     \<lparr>tc_commit_window_start = 0, tc_commit_window_end = None, tc_stage_filter = [], tc_row_filter = []\<rparr>"

section \<open>Records\<close>

datatype TraceRecord =
    META (tr_format: string) (tr_contract_id: string) (tr_pipeline_schema_id: string) (tr_stage_order_csv: string)
      (tr_stage_catalog: "StageCatalogEntry list") (tr_lane_catalog: "LaneCatalogEntry list")
      (tr_row_catalog: "RowCatalogEntry list") (tr_render_prefs: "(string \<times> string) list")
  | OpDef (tr_row_id: string) (tr_row_kind: string) (tr_block_uid: nat) (tr_uop_uid: nat)
  | OCC (tr_cycle: cyc) (tr_row_id: string) (tr_stage_id: string) (tr_lane_id: string) (tr_stall: bool)
      (tr_cause: string) (tr_checkpoint_id: "u8 option") (tr_trap_cause: "u64 option") (tr_traparg0: "u64 option")
      (tr_target_setup_epoch: "u16 option") (tr_boundary_epoch: "u16 option")
      (tr_target_source_owner_row_id: "string option") (tr_target_source_epoch: "u16 option")
      (tr_target_owner_row_id: "string option") (tr_target_producer_kind: "string option")
      (tr_branch_kind: "string option") (tr_return_kind: "string option")
      (tr_call_materialization_kind: "string option") (tr_target_source_kind: "string option")
  | RETIRE (tr_cycle: cyc) (tr_row_id: string) (tr_status: string)
  | BlockEvt (tr_cycle: cyc) (tr_row_id: string) (tr_kind: string) (tr_detail: string)

section \<open>Rows and lanes\<close>

text \<open>The names in the order of their first appearance (a vector and the set of what it holds).\<close>

definition first_seen :: "('a \<Rightarrow> string) \<Rightarrow> 'a list \<Rightarrow> string list" where
  "first_seen name xs =
     fst (foldl (\<lambda>(names, seen) x. if name x \<notin> seen then (names @ [name x], insert (name x) seen) else (names, seen))
       ([], {}) xs)"

definition collect_row_ids :: "StageTraceEvent list \<Rightarrow> usize \<Rightarrow> string list" where
  "collect_row_ids stage_events commit_count =
     (let row_ids = first_seen ev_row_id stage_events;
          target_rows = max commit_count 1
      in row_ids @ map (\<lambda>idx. ''uop'' @ show_nat idx) [length row_ids ..< target_rows])"

definition collect_lane_catalog :: "StageTraceEvent list \<Rightarrow> LaneCatalogEntry list" where
  "collect_lane_catalog stage_events =
     (let lane_catalog = map (\<lambda>lane. \<lparr>lc_lane_id = lane, lc_label = lane\<rparr>) (first_seen ev_lane_id stage_events)
      in if lane_catalog = [] then [\<lparr>lc_lane_id = ''scalar0'', lc_label = ''scalar0''\<rparr>] else lane_catalog)"

definition row_label :: "RunResult \<Rightarrow> usize \<Rightarrow> string" where
  "row_label result idx =
     (let pc = (case vec_get (rr_commits result) idx of Some commit \<Rightarrow> cr_pc commit | None \<Rightarrow> rr_entry_pc result)
      in rr_image_name result @ ''@0x'' @ show_hex (unat pc))"

section \<open>The trace of a run\<close>

definition row_catalog :: "RunResult \<Rightarrow> string list \<Rightarrow> RowCatalogEntry list" where
  "row_catalog result row_ids =
     map (\<lambda>(idx, row_id). \<lparr>rc_row_id = row_id, rc_row_kind = ''uop'', rc_core_id = ''core0'', rc_block_uid = 0,
            rc_uop_uid = idx, rc_left_label = row_label result idx,
            rc_detail_defaults = rm_exit_reason (rr_metrics result)\<rparr>)
       (enumerate 0 row_ids)"

definition meta_record :: "RunResult \<Rightarrow> StageTraceEvent list \<Rightarrow> string list \<Rightarrow> TraceRecord" where
  "meta_record result stage_events row_ids =
     META LINXTRACE_FORMAT ''LXMODEL-TRACE-BOOTSTRAP'' ''LC-TRACE1-LXMODEL''
       (str_join '','' (map sc_stage_id default_stage_catalog)) default_stage_catalog
       (collect_lane_catalog stage_events) (row_catalog result row_ids) [(''focus'', ''bootstrap'')]"

definition bootstrap_occ :: "cyc \<Rightarrow> string \<Rightarrow> string \<Rightarrow> TraceRecord" where
  "bootstrap_occ cycle stage cause =
     OCC cycle ''uop0'' stage ''scalar0'' False cause None None None None None None None None None None None None None"

definition event_occ :: "StageTraceEvent \<Rightarrow> TraceRecord" where
  "event_occ event =
     OCC (ev_cycle event) (ev_row_id event) (ev_stage_id event) (ev_lane_id event) (ev_stall event) (ev_cause event)
       (ev_checkpoint_id event) (ev_trap_cause event) (ev_traparg0 event) (ev_target_setup_epoch event)
       (ev_boundary_epoch event) (ev_target_source_owner_row_id event) (ev_target_source_epoch event)
       (ev_target_owner_row_id event) (ev_target_producer_kind event) (ev_branch_kind event) (ev_return_kind event)
       (ev_call_materialization_kind event) (ev_target_source_kind event)"

definition occ_records :: "RunResult \<Rightarrow> StageTraceEvent list \<Rightarrow> TraceRecord list" where
  "occ_records result stage_events =
     (if stage_events = []
      then [bootstrap_occ 0 ''F0'' ''bootstrap_fetch'',
            bootstrap_occ (case rr_commits result of [] \<Rightarrow> 0 | rec # _ \<Rightarrow> cr_cycle rec) ''CMT'' ''trap_commit'']
      else map event_occ stage_events)"

definition retire_records :: "RunResult \<Rightarrow> string list \<Rightarrow> TraceRecord list" where
  "retire_records result row_ids =
     (let reason = rm_exit_reason (rr_metrics result);
          first_row = (case row_ids of [] \<Rightarrow> ''uop0'' | row # _ \<Rightarrow> row);
          last_row = (if row_ids = [] then ''uop0'' else last row_ids)
      in if rr_commits result = []
         then [RETIRE 0 first_row reason, BlockEvt 0 first_row ''fault'' reason]
         else map (\<lambda>(idx, commit).
                RETIRE (cr_cycle commit) (unwrap_or (vec_get row_ids idx) last_row)
                  (if idx + 1 = length (rr_commits result) then reason else ''retired''))
              (enumerate 0 (rr_commits result)) @
              [BlockEvt (cr_cycle (last (rr_commits result))) last_row ''fault'' reason])"

definition linxtrace_records :: "RunResult \<Rightarrow> StageTraceEvent list \<Rightarrow> TraceRecord list" where
  "linxtrace_records result stage_events =
     (let row_ids = collect_row_ids stage_events (length (rr_commits result))
      in meta_record result stage_events row_ids #
         map (\<lambda>(idx, row_id). OpDef row_id ''uop'' 0 idx) (enumerate 0 row_ids) @
         occ_records result stage_events @ retire_records result row_ids)"

definition write_linxtrace ::
  "(TraceRecord \<Rightarrow> string + string) \<Rightarrow> string \<Rightarrow> RunResult \<Rightarrow> StageTraceEvent list \<Rightarrow> Files \<Rightarrow> string + Files" where
  "write_linxtrace to_string path result stage_events fs =
     (case try_map to_string (linxtrace_records result stage_events) of Inl e \<Rightarrow> Inl e
      | Inr lines \<Rightarrow> write_file ''failed to write '' path (str_join [NEWLINE] lines @ [NEWLINE]) fs)"

section \<open>The commit stream\<close>

definition write_commit_jsonl ::
  "(CommitRecord \<Rightarrow> string + string) \<Rightarrow> string \<Rightarrow> RunResult \<Rightarrow> Files \<Rightarrow> string + Files" where
  "write_commit_jsonl to_string path result fs =
     (case try_map to_string (rr_commits result) of Inl e \<Rightarrow> Inl e
      | Inr lines \<Rightarrow>
          write_file ''failed to write commit trace '' path (concat (map (\<lambda>line. line @ [NEWLINE]) lines)) fs)"

text \<open>The messages of the cosimulation protocol.\<close>

datatype M1Message =
    M1Start (m1_boot_pc: u64) (m1_trigger_pc: u64) (m1_terminate_pc: u64) (m1_snapshot_path: string) (m1_seq_base: nat)
  | M1Commit (m1_seq: nat) (m1_commit: CommitRecord)
  | M1End (m1_reason: string)

fun parse_commit_lines ::
  "(string \<Rightarrow> string + CommitRecord) \<Rightarrow> nat \<Rightarrow> string list \<Rightarrow> CommitRecord list \<Rightarrow> string + CommitRecord list" where
  "parse_commit_lines from_str lineno [] out = Inr out"
| "parse_commit_lines from_str lineno (line # lines) out =
     (let trimmed = str_trim line in
      if trimmed = [] then parse_commit_lines from_str (lineno + 1) lines out
      else case from_str trimmed of
             Inl e \<Rightarrow> Inl (''invalid commit JSON at line '' @ show_nat (lineno + 1))
           | Inr rec \<Rightarrow> parse_commit_lines from_str (lineno + 1) lines (out @ [rec]))"

definition load_commit_jsonl ::
  "(string \<Rightarrow> string + CommitRecord) \<Rightarrow> string \<Rightarrow> Files \<Rightarrow> string + CommitRecord list" where
  "load_commit_jsonl from_str path fs =
     (case read_to_string path fs of Inl e \<Rightarrow> Inl e
      | Inr text \<Rightarrow> parse_commit_lines from_str 0 (str_lines text) [])"

section \<open>Rows and lanes of a trace\<close>

lemma first_seen_snoc:
  "first_seen name (xs @ [x]) = (if name x \<in> name ` set xs then first_seen name xs else first_seen name xs @ [name x])"
proof -
  define step where "step = (\<lambda>(names :: string list, seen) x. if name x \<notin> seen then (names @ [name x], insert (name x) seen) else (names, seen))"
  have "snd (foldl step ([], {}) xs) = name ` set xs" for xs
    by (induction xs rule: rev_induct) (auto simp: step_def split: prod.splits)
  then obtain names where "foldl step ([], {}) xs = (names, name ` set xs)" by (metis prod.collapse)
  then show ?thesis by (simp add: first_seen_def step_def [symmetric]) (simp add: step_def)
qed

lemma first_seen_props:
  "set (first_seen name xs) = name ` set xs" "distinct (first_seen name xs)"
proof (induction xs rule: rev_induct)
  case (snoc x xs)
  { case 1 show ?case using snoc by (auto simp: first_seen_snoc) }
  { case 2 show ?case using snoc by (auto simp: first_seen_snoc) }
qed (simp_all add: first_seen_def)

lemma first_seen_distinct_id: "distinct (map name xs) \<Longrightarrow> first_seen name xs = map name xs"
  by (induction xs rule: rev_induct) (auto simp: first_seen_snoc, simp add: first_seen_def)

lemma collect_row_ids_nonempty [simp]: "collect_row_ids events n \<noteq> []"
  by (cases "first_seen ev_row_id events") (auto simp: collect_row_ids_def Let_def)

lemma collect_row_ids_length: "n \<le> length (collect_row_ids events n)"
  by (simp add: collect_row_ids_def Let_def)

lemma event_row_collected: "e \<in> set events \<Longrightarrow> ev_row_id e \<in> set (collect_row_ids events n)"
  using first_seen_props(1) [of ev_row_id events] by (simp add: collect_row_ids_def Let_def)

lemma bootstrap_row_collected: "events = [] \<Longrightarrow> ''uop0'' \<in> set (collect_row_ids events n)"
proof -
  assume "events = []"
  moreover have "''uop0'' = ''uop'' @ show_nat 0" by code_simp
  ultimately show ?thesis by (auto simp: collect_row_ids_def first_seen_def intro!: image_eqI [of _ _ 0])
qed

lemma event_lane_listed: "e \<in> set events \<Longrightarrow> ev_lane_id e \<in> lc_lane_id ` set (collect_lane_catalog events)"
  using first_seen_props(1) [of ev_lane_id events] by (auto simp: collect_lane_catalog_def Let_def image_iff)

lemma row_catalog_ids [simp]: "map rc_row_id (row_catalog result rows) = rows" "length (row_catalog result rows) = length rows"
  by (simp_all add: row_catalog_def comp_def case_prod_beta map_snd_enumerate)

definition refers_to :: "string set \<Rightarrow> string set \<Rightarrow> TraceRecord \<Rightarrow> bool" where
  "refers_to rows lanes r = (case r of META _ _ _ _ _ _ _ _ \<Rightarrow> False | OpDef _ _ _ _ \<Rightarrow> False
     | OCC _ row _ lane _ _ _ _ _ _ _ _ _ _ _ _ _ _ _ \<Rightarrow> row \<in> rows \<and> lane \<in> lanes
     | RETIRE _ row _ \<Rightarrow> row \<in> rows | BlockEvt _ row _ _ \<Rightarrow> row \<in> rows)"

lemma occ_refers:
  "list_all (refers_to (set (collect_row_ids events n)) (lc_lane_id ` set (collect_lane_catalog events))) (occ_records result events)"
proof (cases "events = []")
  case True
  then have "''scalar0'' \<in> lc_lane_id ` set (collect_lane_catalog events)"
    by (simp add: collect_lane_catalog_def first_seen_def)
  then show ?thesis using bootstrap_row_collected [OF True, of n]
    by (simp add: occ_records_def True bootstrap_occ_def refers_to_def)
next
  case False
  then show ?thesis
    by (auto simp: occ_records_def event_occ_def list_all_iff refers_to_def event_row_collected event_lane_listed)
qed

lemma retire_refers:
  assumes "rows \<noteq> []"
  shows "list_all (refers_to (set rows) lanes) (retire_records result rows)"
proof -
  have "unwrap_or (vec_get rows i) (last rows) \<in> set rows" for i
    using assms by (auto simp: vec_get_def)
  then show ?thesis using assms
    by (auto simp: retire_records_def Let_def refers_to_def list_all_iff split: list.splits)
qed

lemma retire_kinds:
  "length (filter is_RETIRE (retire_records result rows)) = max (length (rr_commits result)) 1"
  "length (filter is_BlockEvt (retire_records result rows)) = 1"
  "filter is_OCC (retire_records result rows) = []" "filter is_OpDef (retire_records result rows) = []"
  "filter is_META (retire_records result rows) = []"
proof -
  have "filter is_RETIRE (map (\<lambda>(i, c). RETIRE (f i c) (g i c) (h i c)) xs) = map (\<lambda>(i, c). RETIRE (f i c) (g i c) (h i c)) xs"
    "filter is_BlockEvt (map (\<lambda>(i, c). RETIRE (f i c) (g i c) (h i c)) xs) = []"
    "filter is_OCC (map (\<lambda>(i, c). RETIRE (f i c) (g i c) (h i c)) xs) = []"
    "filter is_OpDef (map (\<lambda>(i, c). RETIRE (f i c) (g i c) (h i c)) xs) = []"
    "filter is_META (map (\<lambda>(i, c). RETIRE (f i c) (g i c) (h i c)) xs) = []"
    for f g h and xs :: "(nat \<times> CommitRecord) list"
    by (induction xs) auto
  note this [simp]
  show "length (filter is_RETIRE (retire_records result rows)) = max (length (rr_commits result)) 1"
    by (cases "rr_commits result") (simp_all add: retire_records_def Let_def)
  show "length (filter is_BlockEvt (retire_records result rows)) = 1"
    "filter is_OCC (retire_records result rows) = []" "filter is_OpDef (retire_records result rows) = []"
    "filter is_META (retire_records result rows) = []"
    by (simp_all add: retire_records_def Let_def)
qed

lemma map_record_kinds:
  "filter is_OpDef (map (\<lambda>(i, row). OpDef row k b i) xs) = map (\<lambda>(i, row). OpDef row k b i) xs"
  "filter is_OpDef (occ_records result events) = []" "filter is_RETIRE (occ_records result events) = []"
  "filter is_BlockEvt (occ_records result events) = []" "filter is_META (occ_records result events) = []"
  "filter is_RETIRE (map (\<lambda>(i, row). OpDef row k b i) xs) = []" "filter is_BlockEvt (map (\<lambda>(i, row). OpDef row k b i) xs) = []"
  "filter is_META (map (\<lambda>(i, row). OpDef row k b i) xs) = []" "filter is_OCC (map (\<lambda>(i, row). OpDef row k b i) xs) = []"
  by (auto simp: occ_records_def bootstrap_occ_def event_occ_def filter_empty_conv filter_id_conv)

text \<open>C39: a trace is closed. Its first record, and only it, is the \<open>META\<close> record; the operation definitions are the
  rows of its catalog, numbered in order; every occurrence, retirement and block event names a defined row, every
  occurrence a lane of the lane catalog; there is one retirement per commit (one for a run without commits)
  and one block event.\<close>

theorem linxtrace_closed:
  "\<exists>meta rest. linxtrace_records result events = meta # rest \<and> is_META meta \<and> filter is_META rest = [] \<and>
     map tr_row_id (filter is_OpDef rest) = map rc_row_id (tr_row_catalog meta) \<and>
     map tr_uop_uid (filter is_OpDef rest) = [0 ..< length (tr_row_catalog meta)] \<and>
     list_all (refers_to (rc_row_id ` set (tr_row_catalog meta)) (lc_lane_id ` set (tr_lane_catalog meta)))
       (filter (\<lambda>r. \<not> is_OpDef r) rest) \<and>
     length (filter is_RETIRE rest) = max (length (rr_commits result)) 1 \<and> length (filter is_BlockEvt rest) = 1"
proof -
  let ?rows = "collect_row_ids events (length (rr_commits result))"
  let ?meta = "meta_record result events ?rows"
  let ?ops = "map (\<lambda>(idx, row_id). OpDef row_id ''uop'' 0 idx) (enumerate 0 ?rows)"
  let ?rest = "?ops @ occ_records result events @ retire_records result ?rows"
  have m: "is_META ?meta" "rc_row_id ` set (tr_row_catalog ?meta) = set ?rows" "map rc_row_id (tr_row_catalog ?meta) = ?rows"
    "length (tr_row_catalog ?meta) = length ?rows" "tr_lane_catalog ?meta = collect_lane_catalog events"
    using row_catalog_ids(1) [of result ?rows] by (simp_all add: meta_record_def flip: set_map)
  have ops: "filter is_OpDef ?rest = ?ops" by (simp add: map_record_kinds retire_kinds)
  have "filter (\<lambda>r. \<not> is_OpDef r) ?ops = []" by (auto simp: filter_empty_conv)
  moreover have "list_all (refers_to (set ?rows) lanes) (occ_records result events @ retire_records result ?rows)"
    if "lanes = lc_lane_id ` set (collect_lane_catalog events)" for lanes
    using occ_refers retire_refers [of ?rows lanes result] that by simp
  ultimately have "list_all (refers_to (set ?rows) (lc_lane_id ` set (collect_lane_catalog events))) (filter (\<lambda>r. \<not> is_OpDef r) ?rest)"
    by (auto simp: list_all_iff)
  moreover have "map tr_row_id ?ops = ?rows" "map tr_uop_uid ?ops = [0 ..< length ?rows]"
    by (simp_all add: comp_def case_prod_beta map_snd_enumerate map_fst_enumerate)
  moreover have "linxtrace_records result events = ?meta # ?rest" by (simp add: linxtrace_records_def Let_def)
  ultimately show ?thesis
    by (intro exI [of _ ?meta] exI [of _ ?rest]) (simp add: m ops map_record_kinds retire_kinds)
qed

section \<open>Files\<close>

text \<open>What the JSON renderer is relied on for: one object per call, on one line, that the parser reads back.\<close>

definition json_object :: "string \<Rightarrow> bool" where
  "json_object s = (line_ok s \<and> s \<noteq> [] \<and> hd s = CHR 0x7B \<and> last s = CHR 0x7D)"

lemma json_object_trim: "json_object s \<Longrightarrow> str_trim s = s"
  by (intro str_trim_id) (auto simp: json_object_def is_whitespace_def)

lemma parse_commit_lines_all:
  assumes "list_all2 (\<lambda>c l. json_object l \<and> from_str l = Inr c) cs ls"
  shows "parse_commit_lines from_str n ls out = Inr (out @ cs)"
  using assms
proof (induction arbitrary: n out rule: list_all2_induct)
  case (Cons c cs l ls)
  then have "str_trim l = l" "l \<noteq> []" using json_object_trim by (auto simp: json_object_def)
  with Cons show ?case by simp
qed simp

lemma write_then_load:
  assumes json: "\<And>c. c \<in> set (rr_commits result) \<Longrightarrow> \<exists>l. to_string c = Inr l \<and> json_object l \<and> from_str l = Inr c"
    and w: "write_commit_jsonl to_string path result fs = Inr fs'"
  shows "load_commit_jsonl from_str path fs' = Inr (rr_commits result)"
proof -
  obtain line where line: "\<forall>c \<in> set (rr_commits result). to_string c = Inr (line c) \<and> json_object (line c) \<and> from_str (line c) = Inr c"
    using json by metis
  let ?ls = "map line (rr_commits result)"
  have "try_map to_string (rr_commits result) = Inr ?ls" using line by (intro try_map_all) blast
  moreover have "str_lines (concat (map (\<lambda>l. l @ [NEWLINE]) ?ls)) = ?ls"
    using line by (intro str_lines_concat) (auto simp: json_object_def)
  moreover have "parse_commit_lines from_str 0 ?ls [] = Inr (rr_commits result)"
    using parse_commit_lines_all [of from_str "rr_commits result" ?ls 0 "[]"] line by (simp add: list_all2_conv_all_nth)
  ultimately show ?thesis using w
    by (auto simp: write_commit_jsonl_def write_file_def load_commit_jsonl_def read_to_string_def split: if_splits)
qed

lemma write_commit_jsonl_ok:
  assumes "\<And>c. c \<in> set (rr_commits result) \<Longrightarrow> \<exists>l. to_string c = Inr l" "vf_writable fs path"
  shows "\<exists>fs'. write_commit_jsonl to_string path result fs = Inr fs' \<and> (\<forall>p. p \<noteq> path \<longrightarrow> vf_contents fs' p = vf_contents fs p)"
proof -
  obtain line where "\<forall>c \<in> set (rr_commits result). to_string c = Inr (line c)" using assms(1) by metis
  then have "try_map to_string (rr_commits result) = Inr (map line (rr_commits result))" by (rule try_map_all)
  then show ?thesis using assms(2) by (simp add: write_commit_jsonl_def write_file_def)
qed

text \<open>C40: the commit stream survives the file. What \<open>write_commit_jsonl\<close> writes, \<open>load_commit_jsonl\<close> reads back: the
  same commits in the same order, provided that the JSON renderer yields one object on one line that the parser
  accepts, and that the file can be written. No other file changes.\<close>

theorem commit_jsonl_round_trip:
  assumes json: "\<And>c. c \<in> set (rr_commits result) \<Longrightarrow> \<exists>l. to_string c = Inr l \<and> json_object l \<and> from_str l = Inr c"
    and "vf_writable fs path"
  shows "\<exists>fs'. write_commit_jsonl to_string path result fs = Inr fs' \<and>
    load_commit_jsonl from_str path fs' = Inr (rr_commits result) \<and>
    (\<forall>p. p \<noteq> path \<longrightarrow> vf_contents fs' p = vf_contents fs p)"
proof -
  obtain fs' where "write_commit_jsonl to_string path result fs = Inr fs'" "\<forall>p. p \<noteq> path \<longrightarrow> vf_contents fs' p = vf_contents fs p"
    using write_commit_jsonl_ok [of result to_string fs path] assms by blast
  with write_then_load [OF json this(1)] show ?thesis by blast
qed

text \<open>The trace file has one line per record, in the order of the records, and is written only when every record
  could be rendered.\<close>

theorem linxtrace_file_lines:
  assumes json: "\<And>r l. to_string r = Inr l \<Longrightarrow> json_object l"
    and w: "write_linxtrace to_string path result events fs = Inr fs'"
  shows "\<exists>text. vf_contents fs' path = Some text \<and>
    map Inr (str_lines text) = map to_string (linxtrace_records result events)"
proof -
  let ?rs = "linxtrace_records result events"
  obtain ls where ls: "try_map to_string ?rs = Inr ls"
    and c: "vf_contents fs' path = Some (str_join [NEWLINE] ls @ [NEWLINE])"
    using w by (auto simp: write_linxtrace_def write_file_def split: sum.splits if_splits)
  have all: "list_all2 (\<lambda>r l. to_string r = Inr l) ?rs ls" using ls by (simp add: try_map_Inr)
  then have "ls \<noteq> []" by (auto simp: linxtrace_records_def Let_def)
  moreover have "\<forall>l \<in> set ls. line_ok l" using all json
    by (fastforce simp: json_object_def list_all2_conv_all_nth in_set_conv_nth)
  ultimately have "str_lines (str_join [NEWLINE] ls @ [NEWLINE]) = ls"
    by (simp add: join_newline str_lines_concat)
  moreover have "map Inr ls = map to_string ?rs"
    using all by (simp add: list_eq_iff_nth_eq list_all2_conv_all_nth)
  ultimately show ?thesis using c by simp
qed

section \<open>Samples\<close>

definition two_commits :: RunResult where
  "two_commits = \<lparr>rr_image_name = ''sample.elf'', rr_entry_pc = 0x1000,
     rr_metrics = \<lparr>rm_engine = Cycle, rm_cycles = 4, rm_commits = 2, rm_exit_reason = ''guest_exit(0)''\<rparr>,
     rr_commits = [unsupported 2 0x1000 0x15 0 default_block_meta, unsupported 3 0x1004 0x302b 0 default_block_meta],
     rr_decoded = []\<rparr>"

definition empty_files :: Files where
  "empty_files = \<lparr>vf_contents = (\<lambda>_. None), vf_writable = (\<lambda>_. True)\<rparr>"

lemma commit_jsonl_round_trip_witness:
  "\<exists>fs'. write_commit_jsonl (\<lambda>c. Inr (''{'' @ show_nat (cr_cycle c) @ ''}'')) ''out'' two_commits empty_files = Inr fs' \<and>
     load_commit_jsonl (\<lambda>l. Inr (rr_commits two_commits ! (if l = ''{2}'' then 0 else 1))) ''out'' fs' = Inr (rr_commits two_commits)"
proof -
  define c0 c1 where cs: "c0 = rr_commits two_commits ! 0" "c1 = rr_commits two_commits ! 1"
  have "cr_cycle c0 = 2" "cr_cycle c1 = 3" by (simp_all add: cs two_commits_def unsupported_def)
  moreover have "show_nat 2 = ''2''" "show_nat 3 = ''3''" by code_simp+
  ultimately have d: "''{'' @ show_nat (cr_cycle c0) @ ''}'' = ''{2}''" "''{'' @ show_nat (cr_cycle c1) @ ''}'' = ''{3}''" by simp_all
  have j: "json_object ''{2}''" "json_object ''{3}''" by (simp_all add: json_object_def line_ok_def NEWLINE_def RETURN_def)
  have "rr_commits two_commits = [c0, c1]" by (simp add: cs two_commits_def)
  have "\<exists>l. (\<lambda>c. Inr (''{'' @ show_nat (cr_cycle c) @ ''}'') :: string + string) c = Inr l \<and> json_object l \<and>
      (\<lambda>l. Inr (rr_commits two_commits ! (if l = ''{2}'' then 0 else 1)) :: string + CommitRecord) l = Inr c"
    if "c \<in> set (rr_commits two_commits)" for c
  proof -
    from that consider "c = c0" | "c = c1" using \<open>rr_commits two_commits = [c0, c1]\<close> by auto
    then show ?thesis
    proof cases
      case 1
      show ?thesis by (rule exI [of _ "''{2}''"]) (simp only: 1 d j cs(1) [symmetric] if_True simp_thms)
    next
      case 2
      have "(''{3}'' = ''{2}'') = False" by simp
      then show ?thesis by (intro exI [of _ "''{3}''"]) (simp only: 2 d j cs(2) [symmetric] if_False simp_thms)
    qed
  qed
  note json = this
  have "vf_writable empty_files ''out''" by (simp add: empty_files_def)
  note rt = commit_jsonl_round_trip [of two_commits, OF json this]
  show ?thesis using rt [OF _] by blast
qed

lemma linxtrace_file_lines_witness:
  "\<exists>fs' text. write_linxtrace (\<lambda>r. Inr ''{}'') ''out'' two_commits [] empty_files = Inr fs' \<and> vf_contents fs' ''out'' = Some text \<and>
     length (str_lines text) = length (linxtrace_records two_commits [])"
proof -
  have t: "try_map (\<lambda>r. Inr ''{}'' :: string + string) rs = Inr (map (\<lambda>r. ''{}'') rs)" for rs :: "TraceRecord list"
    by (rule try_map_all) simp
  obtain fs' where w: "write_linxtrace (\<lambda>r. Inr ''{}'') ''out'' two_commits [] empty_files = Inr fs'"
    by (simp add: write_linxtrace_def t write_file_def empty_files_def)
  have "json_object l" if "(\<lambda>r. Inr ''{}'' :: string + string) r = Inr l" for r :: TraceRecord and l
    using that by (auto simp: json_object_def line_ok_def NEWLINE_def RETURN_def)
  from linxtrace_file_lines [OF this w] show ?thesis using w by (metis length_map)
qed

end
