(* ===== verification/Guest_Image.thy ===== *)
theory Guest_Image
  imports Guest_Runtime
begin

text \<open>The loader and the boot code together: what the bytes of an ELF file become in the memory of the booted guest.\<close>

section \<open>From the file to the guest\<close>

text \<open>The bytes a program header asks for, from the file and zero behind them.\<close>

definition header_byte :: "u8 list \<Rightarrow> ProgramHeader \<Rightarrow> nat \<Rightarrow> u8" where
  "header_byte file ph i = (if i < unat (ph_p_filesz ph) then file ! (unat (ph_p_offset ph) + i) else 0)"

text \<open>A slice that exists does not wrap around, and has the length the header gives.\<close>

lemma load_segment_slice:
  assumes "load_segment file ph = Some seg"
  shows "length (sg_data seg) = unat (ph_p_filesz ph)"
    "j < unat (ph_p_filesz ph) \<Longrightarrow> sg_data seg ! j = file ! (unat (ph_p_offset ph) + j)"
    "sg_vaddr seg = ph_p_vaddr ph" "sg_mem_size seg = ph_p_memsz ph" "sg_flags seg = ph_p_flags ph"
proof -
  let ?a = "unat (ph_p_offset ph)" and ?b = "unat (ph_p_offset ph + ph_p_filesz ph)"
  have le: "?a \<le> ?b" "?b \<le> length file" and seg: "sg_data seg = take (?b - ?a) (drop ?a file)"
    "sg_vaddr seg = ph_p_vaddr ph" "sg_mem_size seg = ph_p_memsz ph" "sg_flags seg = ph_p_flags ph"
    using assms by (auto simp: load_segment_def Let_def split: if_splits)
  have "?b = ?a + unat (ph_p_filesz ph)"
    using le(1) unat_plus_if' [of "ph_p_offset ph" "ph_p_filesz ph"] u64_bound [of "ph_p_filesz ph"] by (auto split: if_splits)
  then show "length (sg_data seg) = unat (ph_p_filesz ph)" "sg_vaddr seg = ph_p_vaddr ph" "sg_mem_size seg = ph_p_memsz ph"
    "sg_flags seg = ph_p_flags ph" "j < unat (ph_p_filesz ph) \<Longrightarrow> sg_data seg ! j = file ! (unat (ph_p_offset ph) + j)"
    using le seg by simp_all
qed

lemma segment_region_byte:
  assumes "load_segment file ph = Some seg" "i < unat (ph_p_memsz ph)"
  shows "mr_data (segment_region seg) ! i = header_byte file ph i"
  using load_segment_slice [OF assms(1)] assms(2)
  by (auto simp: segment_region_def vec_resize_def header_byte_def nth_append)

lemma those_Some: "those xs = Some ys \<Longrightarrow> xs = map Some ys"
  by (induction xs arbitrary: ys) (auto split: option.splits)

lemma load_static_elf_segments:
  assumes "load_static_elf parse path (Some file) = Inr img" "parse file = Some elf"
    "ph \<in> set (ge_program_headers elf)" "ph_p_type ph = PT_LOAD"
  obtains seg where "load_segment file ph = Some seg" "seg \<in> set (le_segments img)" "le_entry img = ge_entry elf"
proof -
  let ?phs = "filter (\<lambda>ph. ph_p_type ph = PT_LOAD) (ge_program_headers elf)"
  obtain segs where s: "those (map (load_segment file) ?phs) = Some segs" "le_segments img = segs" "le_entry img = ge_entry elf"
    using assms(1,2) by (auto simp: load_static_elf_def split: if_splits option.splits)
  have all: "map (load_segment file) ?phs = map Some segs" using s(1) by (rule those_Some)
  have "load_segment file ph \<in> set (map (load_segment file) ?phs)" using assms(3,4) by simp
  then have "load_segment file ph \<in> Some ` set segs" unfolding all by simp
  then show ?thesis using that s by auto
qed

lemma booted_header_bytes:
  assumes elf: "load_static_elf parse path (Some file) = Inr img" "parse file = Some elf"
    and stack: "rc_stack_size config \<le> rc_mem_bytes config" "rc_stack_size config \<le> GUEST_STACK_TOP"
    and fits: "memory_wf (boot_memory img config)"
      "stack_need (build_boot_args img config) (build_boot_env config) \<le> unat (rc_stack_size config)"
  shows "\<exists>rt. bootstrap img config = Inr rt \<and> as_pc (gr_state rt) = ge_entry elf \<and>
    as_regs (gr_state rt) ! 1 = bi_stack_pointer (gr_boot rt) \<and> unat (bi_stack_pointer (gr_boot rt)) mod 16 = 0 \<and>
    (\<forall>ph i. ph \<in> set (ge_program_headers elf) \<and> ph_p_type ph = PT_LOAD \<and> i < unat (ph_p_memsz ph) \<longrightarrow>
       byte_at (gr_memory rt) (ph_p_vaddr ph + word_of_nat i) = Some (ph_p_flags ph, header_byte file ph i))"
proof -
  obtain rt where rt: "bootstrap img config = Inr rt" "as_pc (gr_state rt) = le_entry img"
    "\<And>x. x < GUEST_STACK_TOP - rc_stack_size config \<or> GUEST_STACK_TOP \<le> x \<Longrightarrow>
       byte_at (gr_memory rt) x = byte_at \<lparr>gm_regions = map segment_region (le_segments img)\<rparr> x"
    using bootstrap_succeeds [OF stack fits] by blast
  have "as_regs (gr_state rt) ! 1 = bi_stack_pointer (gr_boot rt)" "unat (bi_stack_pointer (gr_boot rt)) mod 16 = 0"
    using bootstrap_succeeds [OF stack fits] rt(1) by auto
  moreover have "as_pc (gr_state rt) = ge_entry elf" using rt(2) elf by (auto simp: load_static_elf_def split: if_splits option.splits)
  moreover have "byte_at (gr_memory rt) (ph_p_vaddr ph + word_of_nat i) = Some (ph_p_flags ph, header_byte file ph i)"
    if ph: "ph \<in> set (ge_program_headers elf)" "ph_p_type ph = PT_LOAD" and i: "i < unat (ph_p_memsz ph)" for ph i
  proof -
    obtain seg where seg: "load_segment file ph = Some seg" "seg \<in> set (le_segments img)"
      by (rule load_static_elf_segments [OF elf ph])
    note sl = load_segment_slice [OF seg(1)]
    let ?r = "segment_region seg" and ?x = "ph_p_vaddr ph + word_of_nat i"
    have r: "mr_base ?r = ph_p_vaddr ph" "mr_size ?r = ph_p_memsz ph" "mr_flags ?r = ph_p_flags ph" by (simp_all add: segment_region_def sl)
    have wf: "region_ok ?r" "sorted_wrt (\<lambda>r s. region_span r \<inter> region_span s = {}) (map segment_region (le_segments img))"
      "region_span ?r \<inter> region_span (stack_region config) = {}"
      using fits(1) seg(2) by (auto simp: memory_wf_def boot_memory_def list_all_iff sorted_wrt_append)
    have x: "unat ?x = unat (ph_p_vaddr ph) + i" using wf(1) i r
      by (simp add: region_ok_def unat_word_ariths unat_of_nat)
    then have span: "unat ?x \<in> region_span ?r" using i r by (simp add: region_span_def)
    then have "unat ?x \<notin> {unat (GUEST_STACK_TOP - rc_stack_size config) ..< unat GUEST_STACK_TOP}"
      using wf(3) stack_region_span [OF stack(2)] by auto
    then have "byte_at (gr_memory rt) ?x = byte_at \<lparr>gm_regions = map segment_region (le_segments img)\<rparr> ?x"
      by (intro rt(3)) (auto simp: word_less_nat_alt word_le_nat_alt)
    also have "\<dots> = Some (region_byte ?r ?x)"
      using disjoint_find [OF wf(2) _ span] seg(2) by (simp add: byte_at_def)
    also have "region_byte ?r ?x = (ph_p_flags ph, header_byte file ph i)"
      using segment_region_byte [OF seg(1) i] by (simp add: region_byte_def x r)
    finally show ?thesis .
  qed
  ultimately show ?thesis using rt(1) by (intro exI [of _ rt]) simp
qed

text \<open>C17: the program reaches the guest. When the loader accepts a file and the guest can be booted from what it
  loaded - the regions of its segments and the stack are disjoint and the stack holds the arguments and the environment -
  every byte of memory that a loadable program header asks for holds the byte of the file at the header's offset, or zero
  behind the file part, with the permissions of the header; the guest starts at the entry point of the file, with
  register 1 holding a 16-byte-aligned stack pointer.\<close>

theorem elf_bytes_in_guest:
  assumes elf: "load_static_elf parse path (Some file) = Inr img" "parse file = Some elf"
    and stack: "rc_stack_size config \<le> rc_mem_bytes config" "rc_stack_size config \<le> GUEST_STACK_TOP"
    and fits: "memory_wf (boot_memory img config)"
      "stack_need (build_boot_args img config) (build_boot_env config) \<le> unat (rc_stack_size config)"
  shows "\<exists>rt. bootstrap img config = Inr rt \<and> as_pc (gr_state rt) = ge_entry elf \<and>
    as_regs (gr_state rt) ! 1 = bi_stack_pointer (gr_boot rt) \<and> unat (bi_stack_pointer (gr_boot rt)) mod 16 = 0 \<and>
    (\<forall>ph i. ph \<in> set (ge_program_headers elf) \<and> ph_p_type ph = PT_LOAD \<and> i < unat (ph_p_memsz ph) \<longrightarrow>
       byte_at (gr_memory rt) (ph_p_vaddr ph + word_of_nat i) = Some (ph_p_flags ph, header_byte file ph i))"
  by (rule booted_header_bytes [OF assms])

text \<open>A file of one loadable segment.\<close>

definition sample_elf :: GoblinElf where
  "sample_elf = \<lparr>ge_is_64 = True, ge_little_endian = True, 
     ge_program_headers = [\<lparr>ph_p_type = PT_LOAD, ph_p_offset = 0, ph_p_filesz = 8, ph_p_vaddr = 0x1000, ph_p_memsz = 8, ph_p_flags = 0b101\<rparr>],
     ge_entry = 0x1000, ge_machine = 0\<rparr>"

lemma sample_elf_loaded: "load_static_elf (\<lambda>_. Some sample_elf) ''/bin/prog'' (Some (replicate 8 7)) = Inr sample_image"
  by (simp add: load_static_elf_def sample_elf_def load_segment_def PT_LOAD_def PT_INTERP_def sample_image_def)

theorem elf_bytes_in_guest_witness:
  "\<exists>rt. bootstrap sample_image default_runtime_config = Inr rt \<and> as_pc (gr_state rt) = 0x1000 \<and>
     byte_at (gr_memory rt) 0x1003 = Some (0b101, 7)"
proof -
  let ?ph = "hd (ge_program_headers sample_elf)"
  have ph: "?ph \<in> set (ge_program_headers sample_elf)" "ph_p_type ?ph = PT_LOAD" "3 < unat (ph_p_memsz ?ph)" "ge_entry sample_elf = 0x1000"
    "ph_p_vaddr ?ph + word_of_nat 3 = 0x1003" "(ph_p_flags ?ph, header_byte (replicate 8 7) ?ph 3) = (0b101, 7)"
    by (simp_all add: sample_elf_def header_byte_def)
  obtain rt where rt: "bootstrap sample_image default_runtime_config = Inr rt" "as_pc (gr_state rt) = ge_entry sample_elf"
    "\<forall>ph i. ph \<in> set (ge_program_headers sample_elf) \<and> ph_p_type ph = PT_LOAD \<and> i < unat (ph_p_memsz ph) \<longrightarrow>
       byte_at (gr_memory rt) (ph_p_vaddr ph + word_of_nat i) = Some (ph_p_flags ph, header_byte (replicate 8 7) ph i)"
    using elf_bytes_in_guest [OF sample_elf_loaded refl sample_boot] by blast
  have "byte_at (gr_memory rt) (ph_p_vaddr ?ph + word_of_nat 3) = Some (ph_p_flags ?ph, header_byte (replicate 8 7) ?ph 3)"
    using rt(3) ph(1-3) by blast
  then show ?thesis unfolding ph(5,6) using rt(1,2) ph(4) by metis
qed

end
