(* ===== verification/Tools.thy ===== *)
theory Tools
  imports Engine Func_Trace Linxtrace Guest_Image
begin

text \<open>
  The programs that put the parts together: \<^verbatim>\<open>crates/lx-tools\<close> (\<open>prepare_runtime\<close>,
  \<open>execute_with_options\<close> and the bodies of \<open>lx-run\<close>, \<open>lx-trace\<close>, \<open>lx-cosim\<close> and \<open>lx-sweep\<close> after argument parsing) and the sweep of
  \<^verbatim>\<open>crates/dse\<close>. What they use of the world is a record: the decoder's forms, the host of the guest's
  system calls, the ELF parser, the configuration reader, the JSON renderers and the file contents. A tool ends
  with a value and the state of the host, an error, a panic, or never.
\<close>

section \<open>The world of the tools\<close>

record 'h platform =
  pf_forms :: "DecodeForm list"
  pf_host :: "'h Host"
  pf_parse_elf :: "u8 list \<Rightarrow> GoblinElf option"
  pf_read_image :: "string \<Rightarrow> u8 list option"
  pf_load_config :: "string \<Rightarrow> string + RuntimeConfig"
  pf_create_dir_all :: "string \<Rightarrow> bool"
  pf_commit_json :: "CommitRecord \<Rightarrow> string + string"
  pf_record_json :: "TraceRecord \<Rightarrow> string + string"
  pf_parse_commit :: "string \<Rightarrow> string + CommitRecord"

datatype tool_error =
    ElfError elf_error | ConfigError string | BootError boot_error | CreateDirError string | EngineError string | FileError string

datatype ('h, 'a) tool_end = ToolOk 'a 'h | ToolErr tool_error | ToolPanic | ToolHang

section \<open>Running an engine\<close>

record FuncRunOptions =
  fo_max_steps :: nat

definition default_func_options :: FuncRunOptions where
  "default_func_options = \<lparr>fo_max_steps = 100000\<rparr>"

record PreparedRun =
  pr_runtime :: GuestRuntime
  pr_out_dir :: string

datatype PreparedBundle = FuncBundle FuncRunBundle | CycleBundle CycleRunBundle

fun bundle_result :: "PreparedBundle \<Rightarrow> RunResult" where
  "bundle_result (FuncBundle b) = fb_result b"
| "bundle_result (CycleBundle b) = cb_result b"

fun bundle_stage_events :: "PreparedBundle \<Rightarrow> StageTraceEvent list" where
  "bundle_stage_events (FuncBundle b) = fb_stage_events b"
| "bundle_stage_events (CycleBundle b) = cb_stage_events b"

datatype EngineRunOptions = FuncOptions FuncRunOptions | CycleOptions CycleRunOptions

definition default_engine_options :: EngineRunOptions where
  "default_engine_options = FuncOptions default_func_options"

text \<open>The only error of the functional engine is a program counter outside mapped memory (its message without the
  address).\<close>

definition run_func_engine :: "'h platform \<Rightarrow> GuestRuntime \<Rightarrow> FuncRunOptions \<Rightarrow> 'h \<Rightarrow> ('h, FuncRunBundle) tool_end" where
  "run_func_engine pf rt options h =
     (case func_engine_run (pf_forms pf) (pf_host pf) h rt (fo_max_steps options) of
        RunOk b h' \<Rightarrow> ToolOk b h' | RunErr \<Rightarrow> ToolErr (EngineError ''no mapped instruction bundle'')
      | RunPanic \<Rightarrow> ToolPanic | RunHang \<Rightarrow> ToolHang)"

definition guest_view_of :: "GuestRuntime \<Rightarrow> guest_view" where
  "guest_view_of rt =
     \<lparr>gv_image_name = image_name (gr_image rt), gv_pc = as_pc (gr_state rt), gv_block_lane_id = bm_lane_id (gr_block rt)\<rparr>"

text \<open>The cycle engine runs the functional engine first, with a limit of its own, and replays its trace.\<close>

definition run_cycle_engine :: "'h platform \<Rightarrow> GuestRuntime \<Rightarrow> CycleRunOptions \<Rightarrow> 'h \<Rightarrow> ('h, CycleRunBundle) tool_end" where
  "run_cycle_engine pf rt options h =
     (case run_func_engine pf rt \<lparr>fo_max_steps = max (sat_mul (opt_max_cycles options) COMMIT_WIDTH) 1\<rparr> h of
        ToolErr e \<Rightarrow> ToolErr e | ToolPanic \<Rightarrow> ToolPanic | ToolHang \<Rightarrow> ToolHang
      | ToolOk func_bundle h' \<Rightarrow>
          (case cycle_engine_run (guest_view_of rt) options (\<lambda>_. Inr (fb_result func_bundle)) of
             Inl (FuncError e) \<Rightarrow> ToolErr (EngineError e)
           | Inl IndexPanic \<Rightarrow> ToolPanic
           | Inr b \<Rightarrow> ToolOk b h'))"

definition execute_with_options ::
  "'h platform \<Rightarrow> PreparedRun \<Rightarrow> EngineKind \<Rightarrow> EngineRunOptions option \<Rightarrow> 'h \<Rightarrow> ('h, PreparedBundle) tool_end" where
  "execute_with_options pf prepared engine options h =
     (case engine of
        Func \<Rightarrow>
          (let opts = (case options of Some (FuncOptions opts) \<Rightarrow> opts | _ \<Rightarrow> default_func_options) in
           case run_func_engine pf (pr_runtime prepared) opts h of
             ToolOk b h' \<Rightarrow> ToolOk (FuncBundle b) h' | ToolErr e \<Rightarrow> ToolErr e | ToolPanic \<Rightarrow> ToolPanic | ToolHang \<Rightarrow> ToolHang)
      | Cycle \<Rightarrow>
          (let opts = (case options of Some (CycleOptions opts) \<Rightarrow> opts | _ \<Rightarrow> default_run_options) in
           case run_cycle_engine pf (pr_runtime prepared) opts h of
             ToolOk b h' \<Rightarrow> ToolOk (CycleBundle b) h' | ToolErr e \<Rightarrow> ToolErr e | ToolPanic \<Rightarrow> ToolPanic | ToolHang \<Rightarrow> ToolHang))"

definition execute :: "'h platform \<Rightarrow> PreparedRun \<Rightarrow> EngineKind \<Rightarrow> 'h \<Rightarrow> ('h, PreparedBundle) tool_end" where
  "execute pf prepared engine h = execute_with_options pf prepared engine None h"

section \<open>Preparing a run\<close>

definition boot_image :: "'h platform \<Rightarrow> string \<Rightarrow> tool_error + LoadedElf" where
  "boot_image pf elf =
     (case load_static_elf (pf_parse_elf pf) elf (pf_read_image pf elf) of
        Inl e \<Rightarrow> Inl (ElfError e) | Inr img \<Rightarrow> Inr img)"

text \<open>The configuration reader, with the TOML parser as a parameter: \<open>pf_load_config\<close> is this function at the files of
  the run.\<close>

definition RuntimeConfig_load :: "(string \<Rightarrow> RuntimeConfig option) \<Rightarrow> string \<Rightarrow> Files \<Rightarrow> string + RuntimeConfig" where
  "RuntimeConfig_load parse_toml path fs =
     (case vf_contents fs path of None \<Rightarrow> Inl (''failed to read runtime config '' @ path)
      | Some content \<Rightarrow>
          (case parse_toml content of None \<Rightarrow> Inl (''failed to parse runtime config '' @ path) | Some config \<Rightarrow> Inr config))"

definition prepare_runtime :: "'h platform \<Rightarrow> string \<Rightarrow> string \<Rightarrow> string option \<Rightarrow> tool_error + PreparedRun" where
  "prepare_runtime pf elf out_dir config =
     (case boot_image pf elf of Inl e \<Rightarrow> Inl e
      | Inr img \<Rightarrow>
          (case (case config of Some path \<Rightarrow> pf_load_config pf path | None \<Rightarrow> Inr default_runtime_config) of
             Inl e \<Rightarrow> Inl (ConfigError e)
           | Inr runtime_config \<Rightarrow>
               (case bootstrap img runtime_config of Inl e \<Rightarrow> Inl (BootError e)
                | Inr rt \<Rightarrow>
                    if pf_create_dir_all pf out_dir then Inr \<lparr>pr_runtime = rt, pr_out_dir = out_dir\<rparr>
                    else Inl (CreateDirError (''failed to create '' @ out_dir)))))"

section \<open>The programs\<close>

record RunArgs =
  ra_engine :: EngineKind
  ra_elf :: string
  ra_config :: "string option"
  ra_max_steps :: nat
  ra_max_cycles :: nat
  ra_out_dir :: string

definition run_options_of :: "RunArgs \<Rightarrow> EngineRunOptions" where
  "run_options_of args =
     (case ra_engine args of
        Func \<Rightarrow> FuncOptions \<lparr>fo_max_steps = ra_max_steps args\<rparr>
      | Cycle \<Rightarrow> CycleOptions (default_run_options\<lparr>opt_max_cycles := ra_max_cycles args\<rparr>))"

definition lx_run :: "'h platform \<Rightarrow> RunArgs \<Rightarrow> Files \<Rightarrow> 'h \<Rightarrow> ('h, RunResult \<times> Files) tool_end" where
  "lx_run pf args fs h =
     (case prepare_runtime pf (ra_elf args) (ra_out_dir args) (ra_config args) of Inl e \<Rightarrow> ToolErr e
      | Inr prepared \<Rightarrow>
          (case execute_with_options pf prepared (ra_engine args) (Some (run_options_of args)) h of
             ToolErr e \<Rightarrow> ToolErr e | ToolPanic \<Rightarrow> ToolPanic | ToolHang \<Rightarrow> ToolHang
           | ToolOk b h' \<Rightarrow>
               (case write_commit_jsonl (pf_commit_json pf) (path_join (pr_out_dir prepared) ''commit.jsonl'') (bundle_result b) fs of
                  Inl e \<Rightarrow> ToolErr (FileError e)
                | Inr fs1 \<Rightarrow>
                    (case write_linxtrace (pf_record_json pf) (path_join (pr_out_dir prepared) ''trace.linxtrace'')
                            (bundle_result b) (bundle_stage_events b) fs1 of
                       Inl e \<Rightarrow> ToolErr (FileError e)
                     | Inr fs2 \<Rightarrow> ToolOk (bundle_result b, fs2) h'))))"

definition lx_trace ::
  "'h platform \<Rightarrow> EngineKind \<Rightarrow> string \<Rightarrow> string option \<Rightarrow> string \<Rightarrow> Files \<Rightarrow> 'h \<Rightarrow> ('h, string \<times> Files) tool_end" where
  "lx_trace pf engine elf config out_dir fs h =
     (case prepare_runtime pf elf out_dir config of Inl e \<Rightarrow> ToolErr e
      | Inr prepared \<Rightarrow>
          (case execute pf prepared engine h of
             ToolErr e \<Rightarrow> ToolErr e | ToolPanic \<Rightarrow> ToolPanic | ToolHang \<Rightarrow> ToolHang
           | ToolOk b h' \<Rightarrow>
               (let path = path_join (pr_out_dir prepared) ''trace.linxtrace'' in
                case write_linxtrace (pf_record_json pf) path (bundle_result b) (bundle_stage_events b) fs of
                  Inl e \<Rightarrow> ToolErr (FileError e) | Inr fs' \<Rightarrow> ToolOk (path, fs') h')))"

record CosimArgs =
  ca_engine :: EngineKind
  ca_elf :: string
  ca_config :: "string option"
  ca_qemu :: string
  ca_protocol :: string
  ca_out_dir :: string

definition lx_cosim :: "'h platform \<Rightarrow> CosimArgs \<Rightarrow> Files \<Rightarrow> 'h \<Rightarrow> ('h, CosimReport \<times> Files) tool_end" where
  "lx_cosim pf args fs h =
     (if ca_protocol args \<noteq> ''m1''
      then ToolErr (EngineError (''unsupported protocol '' @ ca_protocol args @ ''; expected m1''))
      else
        case prepare_runtime pf (ca_elf args) (ca_out_dir args) (ca_config args) of Inl e \<Rightarrow> ToolErr e
        | Inr prepared \<Rightarrow>
            (case execute pf prepared (ca_engine args) h of
               ToolErr e \<Rightarrow> ToolErr e | ToolPanic \<Rightarrow> ToolPanic | ToolHang \<Rightarrow> ToolHang
             | ToolOk b h' \<Rightarrow>
                 (case write_commit_jsonl (pf_commit_json pf) (path_join (pr_out_dir prepared) ''dut.commit.jsonl'') (bundle_result b) fs of
                    Inl e \<Rightarrow> ToolErr (FileError e)
                  | Inr fs' \<Rightarrow>
                      (case load_commit_jsonl (pf_parse_commit pf) (ca_qemu args) fs' of
                         Inl e \<Rightarrow> ToolErr (FileError e)
                       | Inr qemu_trace \<Rightarrow>
                           (let report = compare_commit_streams qemu_trace (rr_commits (bundle_result b)) in
                            case require_cosim_match report of
                              Inl e \<Rightarrow> ToolErr (EngineError e) | Inr _ \<Rightarrow> ToolOk (report, fs') h')))))"

section \<open>The sweep\<close>

record SweepCase =
  sw_name :: string
  sw_engine :: EngineKind
  sw_elf :: string
  sw_iterations :: usize

record SweepSpec =
  ss_cases :: "SweepCase list"

record SweepCaseReport =
  sr_name :: string
  sr_engine :: EngineKind
  sr_iterations :: usize
  sr_cycles :: "nat list"
  sr_commits :: "nat list"
  sr_exit_reason :: string

record SweepReport =
  sp_cases :: "SweepCaseReport list"

text \<open>The specification is a TOML file; the parser is a parameter.\<close>

definition load_sweep_spec :: "(string \<Rightarrow> SweepSpec option) \<Rightarrow> string \<Rightarrow> Files \<Rightarrow> string + SweepSpec" where
  "load_sweep_spec parse_toml path fs =
     (case read_to_string path fs of Inl e \<Rightarrow> Inl e
      | Inr content \<Rightarrow>
          (case parse_toml content of None \<Rightarrow> Inl (''failed to parse '' @ path) | Some spec \<Rightarrow> Inr spec))"

text \<open>One iteration: load, boot, run with the default options, and read the metrics.\<close>

definition sweep_iteration :: "'h platform \<Rightarrow> SweepCase \<Rightarrow> 'h \<Rightarrow> ('h, RunMetrics) tool_end" where
  "sweep_iteration pf c h =
     (case boot_image pf (sw_elf c) of Inl e \<Rightarrow> ToolErr e
      | Inr img \<Rightarrow>
          (case bootstrap img default_runtime_config of Inl e \<Rightarrow> ToolErr (BootError e)
           | Inr rt \<Rightarrow>
               (case sw_engine c of
                  Func \<Rightarrow>
                    (case run_func_engine pf rt default_func_options h of
                       ToolOk b h' \<Rightarrow> ToolOk (rr_metrics (fb_result b)) h'
                     | ToolErr e \<Rightarrow> ToolErr e | ToolPanic \<Rightarrow> ToolPanic | ToolHang \<Rightarrow> ToolHang)
                | Cycle \<Rightarrow>
                    (case run_cycle_engine pf rt default_run_options h of
                       ToolOk b h' \<Rightarrow> ToolOk (rr_metrics (cb_result b)) h'
                     | ToolErr e \<Rightarrow> ToolErr e | ToolPanic \<Rightarrow> ToolPanic | ToolHang \<Rightarrow> ToolHang))))"

fun sweep_iterations ::
  "'h platform \<Rightarrow> SweepCase \<Rightarrow> nat \<Rightarrow> nat list \<Rightarrow> nat list \<Rightarrow> string \<Rightarrow> 'h \<Rightarrow>
   ('h, nat list \<times> nat list \<times> string) tool_end" where
  "sweep_iterations pf c 0 cycles commits exit_reason h = ToolOk (cycles, commits, exit_reason) h"
| "sweep_iterations pf c (Suc n) cycles commits exit_reason h =
     (case sweep_iteration pf c h of
        ToolOk m h' \<Rightarrow>
          sweep_iterations pf c n (cycles @ [rm_cycles m]) (commits @ [rm_commits m]) (rm_exit_reason m) h'
      | ToolErr e \<Rightarrow> ToolErr e | ToolPanic \<Rightarrow> ToolPanic | ToolHang \<Rightarrow> ToolHang)"

fun sweep_cases ::
  "'h platform \<Rightarrow> SweepCase list \<Rightarrow> SweepCaseReport list \<Rightarrow> 'h \<Rightarrow> ('h, SweepReport) tool_end" where
  "sweep_cases pf [] reports h = ToolOk \<lparr>sp_cases = reports\<rparr> h"
| "sweep_cases pf (c # cs) reports h =
     (case sweep_iterations pf c (sw_iterations c) [] [] [] h of
        ToolOk (cycles, commits, exit_reason) h' \<Rightarrow>
          sweep_cases pf cs
            (reports @ [\<lparr>sr_name = sw_name c, sr_engine = sw_engine c, sr_iterations = sw_iterations c,
                         sr_cycles = cycles, sr_commits = commits, sr_exit_reason = exit_reason\<rparr>]) h'
      | ToolErr e \<Rightarrow> ToolErr e | ToolPanic \<Rightarrow> ToolPanic | ToolHang \<Rightarrow> ToolHang)"

definition run_sweep :: "'h platform \<Rightarrow> SweepSpec \<Rightarrow> 'h \<Rightarrow> ('h, SweepReport) tool_end" where
  "run_sweep pf spec h = sweep_cases pf (ss_cases spec) [] h"

text \<open>The Markdown report. An average is a ratio of two \<open>f64\<close> values shown with one digit; that rendering is a
  parameter, the sum wraps around as a \<open>u64\<close> does. An empty list has the average \<open>0.0\<close>.\<close>

definition average_text :: "(nat \<Rightarrow> nat \<Rightarrow> string) \<Rightarrow> nat list \<Rightarrow> string" where
  "average_text ratio xs = (if xs = [] then ''0.0'' else ratio (sum_list xs mod 2 ^ 64) (length xs))"

fun engine_debug :: "EngineKind \<Rightarrow> string" where
  "engine_debug Func = ''Func''"
| "engine_debug Cycle = ''Cycle''"

definition markdown_row :: "(nat \<Rightarrow> nat \<Rightarrow> string) \<Rightarrow> SweepCaseReport \<Rightarrow> string" where
  "markdown_row ratio c =
     ''| '' @ sr_name c @ '' | '' @ engine_debug (sr_engine c) @ '' | '' @ show_nat (sr_iterations c) @ '' | '' @
     average_text ratio (sr_cycles c) @ '' | '' @ average_text ratio (sr_commits c) @ '' | '' @ sr_exit_reason c @ '' |''"

definition render_markdown :: "(nat \<Rightarrow> nat \<Rightarrow> string) \<Rightarrow> SweepReport \<Rightarrow> string" where
  "render_markdown ratio report =
     ''| Case | Engine | Iterations | Avg cycles | Avg commits | Exit |'' @ [NEWLINE] @ ''|---|---|---:|---:|---:|---|'' @ [NEWLINE] @
     concat (map (\<lambda>c. markdown_row ratio c @ [NEWLINE]) (sp_cases report))"

record SweepArgs =
  sa_suite :: string
  sa_out_dir :: string

definition lx_sweep ::
  "'h platform \<Rightarrow> (string \<Rightarrow> SweepSpec option) \<Rightarrow> (SweepReport \<Rightarrow> string + string) \<Rightarrow> (nat \<Rightarrow> nat \<Rightarrow> string) \<Rightarrow> SweepArgs \<Rightarrow> Files \<Rightarrow> 'h \<Rightarrow>
   ('h, string \<times> Files) tool_end" where
  "lx_sweep pf parse_toml to_json ratio args fs h =
     (if \<not> pf_create_dir_all pf (sa_out_dir args) then ToolErr (CreateDirError (sa_out_dir args))
      else
        case load_sweep_spec parse_toml (sa_suite args) fs of Inl e \<Rightarrow> ToolErr (FileError e)
        | Inr spec \<Rightarrow>
            (case run_sweep pf spec h of
               ToolErr e \<Rightarrow> ToolErr e | ToolPanic \<Rightarrow> ToolPanic | ToolHang \<Rightarrow> ToolHang
             | ToolOk report h' \<Rightarrow>
                 (case to_json report of Inl e \<Rightarrow> ToolErr (FileError e)
                  | Inr json \<Rightarrow>
                      (case write_file [] (path_join (sa_out_dir args) ''report.json'') json fs of
                         Inl e \<Rightarrow> ToolErr (FileError e)
                       | Inr fs1 \<Rightarrow>
                           (case write_file [] (path_join (sa_out_dir args) ''report.md'') (render_markdown ratio report) fs1 of
                              Inl e \<Rightarrow> ToolErr (FileError e) | Inr fs2 \<Rightarrow> ToolOk (json, fs2) h')))))"

section \<open>What the tools promise\<close>

text \<open>The steps of a program that ended well.\<close>

lemma lx_run_steps:
  assumes "lx_run pf args fs h = ToolOk (result, fs2) h'"
  obtains prepared b fs1 where
    "prepare_runtime pf (ra_elf args) (ra_out_dir args) (ra_config args) = Inr prepared"
    "execute_with_options pf prepared (ra_engine args) (Some (run_options_of args)) h = ToolOk b h'"
    "write_commit_jsonl (pf_commit_json pf) (path_join (pr_out_dir prepared) ''commit.jsonl'') (bundle_result b) fs = Inr fs1"
    "write_linxtrace (pf_record_json pf) (path_join (pr_out_dir prepared) ''trace.linxtrace'')
       (bundle_result b) (bundle_stage_events b) fs1 = Inr fs2"
    "result = bundle_result b"
  using assms unfolding lx_run_def by (auto split: sum.splits tool_end.splits)

lemma prepared_out_dir: "prepare_runtime pf elf out_dir config = Inr p \<Longrightarrow> pr_out_dir p = out_dir"
  by (auto simp: prepare_runtime_def split: sum.splits option.splits if_splits)

lemma prepare_other_dir:
  assumes "prepare_runtime pf elf out_dir config = Inr p" "pf_create_dir_all pf dir"
  shows "prepare_runtime pf elf dir config = Inr (p\<lparr>pr_out_dir := dir\<rparr>)"
  using assms by (auto simp: prepare_runtime_def split: sum.splits if_splits)

lemma execute_out_dir: "execute_with_options pf (p\<lparr>pr_out_dir := dir\<rparr>) engine opts h = execute_with_options pf p engine opts h"
  by (cases engine) (simp_all add: execute_with_options_def)

lemma default_options_run:
  assumes "ra_engine args = Func \<Longrightarrow> ra_max_steps args = 100000" "ra_engine args = Cycle \<Longrightarrow> ra_max_cycles args = 256"
  shows "execute_with_options pf p (ra_engine args) (Some (run_options_of args)) h = execute pf p (ra_engine args) h"
  using assms by (cases "ra_engine args")
    (simp_all add: execute_def execute_with_options_def run_options_of_def default_func_options_def default_run_options_def)

lemma path_join_inj: "path_join dir a = path_join dir b \<longleftrightarrow> a = b"
  by (simp add: path_join_def)

lemma write_commit_jsonl_text:
  assumes "write_commit_jsonl to_string path result fs = Inr fs'"
  obtains body where "fs' = fs\<lparr>vf_contents := (vf_contents fs)(path \<mapsto> body)\<rparr>" "vf_writable fs path"
  using assms by (auto simp: write_commit_jsonl_def write_file_def split: sum.splits if_splits)

lemma write_linxtrace_frame:
  "write_linxtrace to_string path result events fs = Inr fs' \<Longrightarrow> p \<noteq> path \<Longrightarrow> vf_contents fs' p = vf_contents fs p"
  "write_linxtrace to_string path result events fs = Inr fs' \<Longrightarrow> vf_writable fs' = vf_writable fs"
  by (auto simp: write_linxtrace_def write_file_def split: sum.splits if_splits)

text \<open>What \<open>lx-run\<close> leaves at the path of its commit stream reads back as the commits of the run.\<close>

lemma run_stream_loads:
  assumes json: "\<And>c. c \<in> set (rr_commits result) \<Longrightarrow>
      \<exists>l. pf_commit_json pf c = Inr l \<and> json_object l \<and> pf_parse_commit pf l = Inr c"
    and run: "lx_run pf args fs h = ToolOk (result, fs1) h'"
  shows "load_commit_jsonl (pf_parse_commit pf) (path_join (ra_out_dir args) ''commit.jsonl'') fs1 = Inr (rr_commits result)"
proof -
  obtain prepared b fs0 where p: "prepare_runtime pf (ra_elf args) (ra_out_dir args) (ra_config args) = Inr prepared"
    and w: "write_commit_jsonl (pf_commit_json pf) (path_join (pr_out_dir prepared) ''commit.jsonl'') (bundle_result b) fs = Inr fs0"
    and t: "write_linxtrace (pf_record_json pf) (path_join (pr_out_dir prepared) ''trace.linxtrace'')
       (bundle_result b) (bundle_stage_events b) fs0 = Inr fs1"
    and r: "result = bundle_result b"
    by (rule lx_run_steps [OF run])
  let ?q = "path_join (ra_out_dir args) ''commit.jsonl''"
  have q: "?q = path_join (pr_out_dir prepared) ''commit.jsonl''" using prepared_out_dir [OF p] by simp
  have "load_commit_jsonl (pf_parse_commit pf) ?q fs0 = Inr (rr_commits result)"
    using write_then_load [OF json [unfolded r] w] by (simp add: q r)
  moreover have "vf_contents fs1 ?q = vf_contents fs0 ?q"
    by (rule write_linxtrace_frame(1) [OF t]) (simp add: q path_join_inj)
  ultimately show ?thesis by (simp add: load_commit_jsonl_def read_to_string_def)
qed

text \<open>The verdict of \<open>lx-cosim\<close> on a reference stream. The limits that matter are those of the engine that runs:
  \<open>lx-cosim\<close> has no options for them and runs with the defaults.\<close>

lemma cosim_verdict:
  assumes json: "\<And>c. c \<in> set (rr_commits result) \<Longrightarrow> \<exists>l. pf_commit_json pf c = Inr l"
    and run: "lx_run pf args fs h = ToolOk (result, fs1) h'"
    and limits: "ra_engine args = Func \<Longrightarrow> ra_max_steps args = 100000" "ra_engine args = Cycle \<Longrightarrow> ra_max_cycles args = 256"
    and cosim: "ca_engine cargs = ra_engine args" "ca_elf cargs = ra_elf args" "ca_config cargs = ra_config args" "ca_protocol cargs = ''m1''"
    and files: "pf_create_dir_all pf (ca_out_dir cargs)" "vf_writable fs (path_join (ca_out_dir cargs) ''dut.commit.jsonl'')"
      "path_join (ca_out_dir cargs) ''dut.commit.jsonl'' \<noteq> ca_qemu cargs"
    and ref: "load_commit_jsonl (pf_parse_commit pf) (ca_qemu cargs) fs1 = Inr cs"
  shows "if list_all2 commits_agree cs (rr_commits result)
    then \<exists>fs2. lx_cosim pf cargs fs1 h = ToolOk (\<lparr>cp_matched_commits = length (rr_commits result), cp_mismatch = None\<rparr>, fs2) h'
    else \<exists>e. lx_cosim pf cargs fs1 h = ToolErr (EngineError e)"
proof -
  obtain prepared b fs0 where p: "prepare_runtime pf (ra_elf args) (ra_out_dir args) (ra_config args) = Inr prepared"
    and e: "execute_with_options pf prepared (ra_engine args) (Some (run_options_of args)) h = ToolOk b h'"
    and w: "write_commit_jsonl (pf_commit_json pf) (path_join (pr_out_dir prepared) ''commit.jsonl'') (bundle_result b) fs = Inr fs0"
    and t: "write_linxtrace (pf_record_json pf) (path_join (pr_out_dir prepared) ''trace.linxtrace'')
       (bundle_result b) (bundle_stage_events b) fs0 = Inr fs1"
    and r: "result = bundle_result b"
    by (rule lx_run_steps [OF run])
  let ?dut = "path_join (ca_out_dir cargs) ''dut.commit.jsonl''" and ?report = "compare_commit_streams cs (rr_commits result)"
  have "vf_writable fs0 = vf_writable fs" by (rule write_commit_jsonl_text [OF w]) simp
  then have wr: "vf_writable fs1 ?dut" using write_linxtrace_frame(2) [OF t] files(2) by simp
  obtain fs2 where d: "write_commit_jsonl (pf_commit_json pf) ?dut result fs1 = Inr fs2" "\<forall>p. p \<noteq> ?dut \<longrightarrow> vf_contents fs2 p = vf_contents fs1 p"
    using write_commit_jsonl_ok [of result "pf_commit_json pf", OF json wr] by blast
  have "load_commit_jsonl (pf_parse_commit pf) (ca_qemu cargs) fs2 = Inr cs"
    using ref d(2) files(3) by (simp add: load_commit_jsonl_def read_to_string_def)
  moreover have "execute pf (prepared\<lparr>pr_out_dir := ca_out_dir cargs\<rparr>) (ca_engine cargs) h = ToolOk b h'"
    using trans [OF default_options_run [OF limits, symmetric] e] by (simp add: execute_def cosim(1) execute_out_dir)
  moreover note prepare_other_dir [OF p files(1)]
  ultimately have out: "lx_cosim pf cargs fs1 h =
      (case require_cosim_match ?report of Inl e \<Rightarrow> ToolErr (EngineError e) | Inr _ \<Rightarrow> ToolOk (?report, fs2) h')"
    using d(1) r by (simp add: lx_cosim_def cosim(2-4) Let_def split: sum.split)
  have "if list_all2 commits_agree cs (rr_commits result)
    then ?report = \<lparr>cp_matched_commits = length (rr_commits result), cp_mismatch = None\<rparr> else \<exists>m. cp_mismatch ?report = Some m"
  proof (cases rule: compare_streams_cases [of cs "rr_commits result"])
    case same
    then show ?thesis by (cases ?report) (simp add: list_all2_conv_all_nth)
  qed (auto simp: list_all2_conv_all_nth)
  then show ?thesis unfolding out by (auto simp: require_cosim_match_def split: if_splits)
qed

lemma commits_agree_refl: "list_all2 commits_agree cs cs"
  by (simp add: list_all2_conv_all_nth commits_agree_def)

text \<open>C38: what a cosimulation accepts. Let \<open>lx-run\<close> have ended well on a program, and let \<open>lx-cosim\<close> be started on the same
  program, engine and configuration, from the state of the host in which \<open>lx-run\<close> was started, with the limit of that engine
  in the \<open>lx-run\<close> being the one \<open>lx-cosim\<close> has built in (100000 steps, 256 cycles; the default of \<open>lx-run\<close> is 64
  cycles). Then \<open>lx-cosim\<close> accepts a reference stream exactly when it has as many commits as the run and each
  agrees with that of the run on the seven compared fields; otherwise it fails. The stream \<open>lx-run\<close> wrote is one it accepts.
  The JSON renderer is relied on for one object per commit on one line that the parser reads back.\<close>

theorem cosim_accepts_agreeing:
  assumes json: "\<And>c. c \<in> set (rr_commits result) \<Longrightarrow>
      \<exists>l. pf_commit_json pf c = Inr l \<and> json_object l \<and> pf_parse_commit pf l = Inr c"
    and run: "lx_run pf args fs h = ToolOk (result, fs1) h'"
    and limits: "ra_engine args = Func \<Longrightarrow> ra_max_steps args = 100000" "ra_engine args = Cycle \<Longrightarrow> ra_max_cycles args = 256"
    and cosim: "ca_engine cargs = ra_engine args" "ca_elf cargs = ra_elf args" "ca_config cargs = ra_config args" "ca_protocol cargs = ''m1''"
    and files: "pf_create_dir_all pf (ca_out_dir cargs)" "vf_writable fs (path_join (ca_out_dir cargs) ''dut.commit.jsonl'')"
      "path_join (ca_out_dir cargs) ''dut.commit.jsonl'' \<noteq> ca_qemu cargs"
    and ref: "load_commit_jsonl (pf_parse_commit pf) (ca_qemu cargs) fs1 = Inr cs"
  shows "(if list_all2 commits_agree cs (rr_commits result)
      then \<exists>fs2. lx_cosim pf cargs fs1 h = ToolOk (\<lparr>cp_matched_commits = length (rr_commits result), cp_mismatch = None\<rparr>, fs2) h'
      else \<exists>e. lx_cosim pf cargs fs1 h = ToolErr (EngineError e)) \<and>
    (ca_qemu cargs = path_join (ra_out_dir args) ''commit.jsonl'' \<longrightarrow> list_all2 commits_agree cs (rr_commits result))"
proof -
  have "\<exists>l. pf_commit_json pf c = Inr l" if "c \<in> set (rr_commits result)" for c using json [OF that] by blast
  note cosim_verdict [OF this run limits cosim files ref]
  moreover have "cs = rr_commits result" if "ca_qemu cargs = path_join (ra_out_dir args) ''commit.jsonl''"
    using run_stream_loads [OF json run] ref that by simp
  ultimately show ?thesis using commits_agree_refl by blast
qed

section \<open>The sweep\<close>

lemma sweep_iterations_counts:
  assumes "sweep_iterations pf c n cy co ex h = ToolOk (cycles, commits, reason) h'"
  shows "length cycles = length cy + n \<and> length commits = length co + n"
  using assms by (induction n arbitrary: cy co ex h) (auto split: tool_end.splits)

lemma func_iteration_metrics:
  assumes "sweep_iteration pf c h = ToolOk m h'" "sw_engine c = Func"
  shows "rm_commits m \<le> 100000 \<and> rm_cycles m = 4 * rm_commits m"
proof -
  obtain rt b where "func_engine_run (pf_forms pf) (pf_host pf) h rt 100000 = RunOk b h'" and m: "m = rr_metrics (fb_result b)"
    using assms by (auto simp: sweep_iteration_def run_func_engine_def default_func_options_def split: sum.splits tool_end.splits run_end.splits)
  from func_run_metrics [OF this(1)] show ?thesis by (simp add: m sat_mul_def u64_max_def)
qed

lemma sweep_iterations_func:
  assumes "sweep_iterations pf c n cy co ex h = ToolOk (cycles, commits, reason) h'" "sw_engine c = Func"
    "cy = map (\<lambda>k. 4 * k) co" "list_all (\<lambda>k. k \<le> 100000) co"
  shows "cycles = map (\<lambda>k. 4 * k) commits \<and> list_all (\<lambda>k. k \<le> 100000) commits"
  using assms
proof (induction n arbitrary: cy co ex h)
  case (Suc n)
  then obtain m h1 where m: "sweep_iteration pf c h = ToolOk m h1"
    "sweep_iterations pf c n (cy @ [rm_cycles m]) (co @ [rm_commits m]) (rm_exit_reason m) h1 = ToolOk (cycles, commits, reason) h'"
    by (auto split: tool_end.splits)
  from func_iteration_metrics [OF m(1) Suc.prems(2)] show ?case
    using Suc.IH [OF m(2) Suc.prems(2)] Suc.prems(3,4) by simp
qed auto

definition case_report_ok :: "SweepCase \<Rightarrow> SweepCaseReport \<Rightarrow> bool" where
  "case_report_ok c r =
     (sr_name r = sw_name c \<and> sr_engine r = sw_engine c \<and> sr_iterations r = sw_iterations c \<and>
      length (sr_cycles r) = sw_iterations c \<and> length (sr_commits r) = sw_iterations c \<and>
      (sw_engine c = Func \<longrightarrow>
         sr_cycles r = map (\<lambda>k. 4 * k) (sr_commits r) \<and> list_all (\<lambda>k. k \<le> 100000) (sr_commits r)))"

lemma sweep_cases_ok:
  assumes "sweep_cases pf cs reports h = ToolOk report h'"
  shows "\<exists>rs. sp_cases report = reports @ rs \<and> list_all2 case_report_ok cs rs"
  using assms
proof (induction cs arbitrary: reports h)
  case (Cons c cs)
  then obtain cycles commits reason h1 where i: "sweep_iterations pf c (sw_iterations c) [] [] [] h = ToolOk (cycles, commits, reason) h1"
    and r: "sweep_cases pf cs (reports @ [\<lparr>sr_name = sw_name c, sr_engine = sw_engine c, sr_iterations = sw_iterations c,
                         sr_cycles = cycles, sr_commits = commits, sr_exit_reason = reason\<rparr>]) h1 = ToolOk report h'"
    by (auto split: tool_end.splits)
  have "case_report_ok c \<lparr>sr_name = sw_name c, sr_engine = sw_engine c, sr_iterations = sw_iterations c,
                         sr_cycles = cycles, sr_commits = commits, sr_exit_reason = reason\<rparr>"
    using sweep_iterations_counts [OF i] sweep_iterations_func [OF i] by (auto simp: case_report_ok_def)
  with Cons.IH [OF r] show ?case by auto
qed auto

text \<open>A sweep that ends well reports every case of the specification, in order, with its name and engine and one
  measurement per iteration; for the functional engine each measurement is within the step limit and counts
  four cycles per commit.\<close>

theorem sweep_reports_every_case:
  assumes "run_sweep pf spec h = ToolOk report h'"
  shows "list_all2 case_report_ok (ss_cases spec) (sp_cases report)"
  using sweep_cases_ok [OF assms [unfolded run_sweep_def]] by auto

lemma line_ok_append: "line_ok (a @ b) = (line_ok a \<and> line_ok b)"
  by (auto simp: line_ok_def)

lemma line_ok_show_nat: "line_ok (show_nat n)"
  using show_nat_digits [of n] by (auto simp: line_ok_def NEWLINE_def RETURN_def list_all_iff is_ascii_digit_def)

text \<open>The Markdown report is a table with one line per case, in the order of the report, when names and exit reasons
  are single lines.\<close>

theorem render_markdown_lines:
  assumes "\<And>a b. line_ok (ratio a b)"
    and "\<And>c. c \<in> set (sp_cases report) \<Longrightarrow> line_ok (sr_name c) \<and> line_ok (sr_exit_reason c)"
  shows "\<exists>head rule. str_lines (render_markdown ratio report) = head # rule # map (markdown_row ratio) (sp_cases report)"
proof -
  let ?head = "''| Case | Engine | Iterations | Avg cycles | Avg commits | Exit |''" and ?rule = "''|---|---|---:|---:|---:|---|''"
  let ?ls = "?head # ?rule # map (markdown_row ratio) (sp_cases report)"
  have "line_ok (average_text ratio xs)" for xs
    using assms(1) by (simp add: average_text_def line_ok_def NEWLINE_def RETURN_def)
  moreover have "line_ok (engine_debug k)" for k by (cases k) (simp_all add: line_ok_def NEWLINE_def RETURN_def)
  moreover have "line_ok '' | ''" "line_ok ''| ''" "line_ok '' |''" "line_ok ?head" "line_ok ?rule"
    by (simp_all add: line_ok_def NEWLINE_def RETURN_def)
  ultimately have "\<forall>l \<in> set ?ls. line_ok l"
    using assms(2) by (auto simp only: markdown_row_def line_ok_append line_ok_show_nat list.set set_map simp_thms)
  from str_lines_concat [OF this] show ?thesis by (simp add: render_markdown_def o_def)
qed

text \<open>What \<open>lx-sweep\<close> leaves when it ends well: the two report files, of the same report, which has one entry per case.\<close>

theorem lx_sweep_writes_report:
  assumes "lx_sweep pf parse_toml to_json ratio args fs h = ToolOk (json, fs') h'"
  shows "\<exists>spec report. load_sweep_spec parse_toml (sa_suite args) fs = Inr spec \<and> run_sweep pf spec h = ToolOk report h' \<and>
    to_json report = Inr json \<and> vf_contents fs' (path_join (sa_out_dir args) ''report.md'') = Some (render_markdown ratio report) \<and>
    vf_contents fs' (path_join (sa_out_dir args) ''report.json'') = Some json"
  using assms path_join_inj [of "sa_out_dir args" "''report.md''" "''report.json''"]
  by (auto simp: lx_sweep_def write_file_def split: if_splits sum.splits tool_end.splits prod.splits)

section \<open>Samples\<close>

text \<open>A platform whose decoder knows no instruction: a run stops at its first bundle.\<close>

definition sample_platform :: "unit platform" where
  "sample_platform = \<lparr>pf_forms = [], pf_host = sample_host, pf_parse_elf = (\<lambda>_. Some sample_elf),
     pf_read_image = (\<lambda>_. Some (replicate 8 7)), pf_load_config = (\<lambda>_. Inl []), pf_create_dir_all = (\<lambda>_. True),
     pf_commit_json = (\<lambda>c. Inr (''{'' @ show_hex (unat (cr_insn c)) @ ''}'')), pf_record_json = (\<lambda>r. Inr ''{}''),
     pf_parse_commit = (\<lambda>l. Inr (decode_miss_commit 0 0x1000 (word_of_nat (the (hex_number 0 (butlast (tl l))))) sample_runtime))\<rparr>"

lemma sample_image_loaded: "boot_image sample_platform ''/bin/prog'' = Inr sample_image"
  by (simp add: boot_image_def load_static_elf_def sample_platform_def sample_elf_def load_segment_def PT_LOAD_def PT_INTERP_def
      sample_image_def)

lemma sample_fetch:
  assumes "mem_shape m = mem_shape (boot_memory sample_image default_runtime_config)"
  shows "\<exists>w. fetch_u64_bundle m 0x1000 = Some w"
proof -
  obtain r rs where m: "gm_regions m = r # rs" and r: "region_shape r = (0x1000, 8, 0b101, 8)"
    using assms by (auto simp: mem_shape_def boot_memory_def sample_image_def segment_region_def region_shape_def vec_resize_def)
  have "\<exists>w. bundle_bytes r 0x1000 = Some w" using r by (simp add: bundle_bytes_def region_shape_def slice_get_def Let_def)
  moreover have "\<not> (mr_flags r AND MEM_EXEC = 0 \<or> 0x1000 < mr_base r \<or> region_end r \<le> 0x1000)"
    using r by (simp add: region_shape_def MEM_EXEC_def region_end_def)
  ultimately show ?thesis by (auto simp: fetch_u64_bundle_def m)
qed

lemma sample_run:
  obtains rt w b where "\<And>dir. prepare_runtime sample_platform ''/bin/prog'' dir None = Inr \<lparr>pr_runtime = rt, pr_out_dir = dir\<rparr>"
    "\<And>n. 0 < n \<Longrightarrow> func_engine_run [] sample_host () rt n = RunOk b ()"
    "rr_commits (fb_result b) = [decode_miss_commit 0 0x1000 w sample_runtime]" "rr_decoded (fb_result b) = []"
proof -
  obtain rt where rt: "bootstrap sample_image default_runtime_config = Inr rt"
    "mem_shape (gr_memory rt) = mem_shape (boot_memory sample_image default_runtime_config)" "as_pc (gr_state rt) = 0x1000"
    using bootstrap_succeeds [OF sample_boot] by (auto simp: sample_image_def)
  obtain w where w: "fetch_u64_bundle (gr_memory rt) 0x1000 = Some w" using sample_fetch [OF rt(2)] by blast
  have blk: "gr_block rt = gr_block sample_runtime"
    using rt(1) by (auto simp: bootstrap_def sample_runtime_def Let_def split: if_splits option.splits sum.splits)
  let ?r = "initial_run_state sample_host () rt"
  let ?s = "(fs_exec ?r)\<lparr>xs_ssr := bt_insert 0x0C00 (word_of_nat (fs_step ?r)) (xs_ssr (fs_exec ?r))\<rparr>"
  let ?r' = "?r\<lparr>fs_exec := ?s, fs_commits := [decode_miss_commit 0 0x1000 w rt], fs_events := [func_stage_event 0 rt ''D1'' ''decode_miss'']\<rparr>"
  have i: "xs_pc (fs_exec ?r) = 0x1000" "xs_memory (fs_exec ?r) = gr_memory rt" "fs_step ?r = 0" "fs_commits ?r = []" "fs_events ?r = []"
    by (simp_all add: initial_run_state_def exec_state_from_runtime_def rt(3) Let_def)
  have none: "decode_word [] x = None" for x by (simp add: decode_word_def best_match_def max_by_key_def)
  have p: "run_pass [] sample_host rt ?r = PassBreak ?r' ''decode_fault''"
    by (simp add: run_pass_def i w none Let_def)
  have run: "func_engine_run [] sample_host () rt n = RunOk (bundle_of rt ?r' ''decode_fault'') ()" if "0 < n" for n
    using that by (simp add: func_engine_run_def func_run_loop.simps i(3) p)
  have "decode_miss_commit 0 0x1000 w rt = decode_miss_commit 0 0x1000 w sample_runtime" by (simp add: decode_miss_commit_def blk)
  then have "rr_commits (fb_result (bundle_of rt ?r' ''decode_fault'')) = [decode_miss_commit 0 0x1000 w sample_runtime]"
    "rr_decoded (fb_result (bundle_of rt ?r' ''decode_fault'')) = []"
    by (simp_all add: bundle_of_def initial_run_state_def)
  moreover have "prepare_runtime sample_platform ''/bin/prog'' dir None = Inr \<lparr>pr_runtime = rt, pr_out_dir = dir\<rparr>" for dir
    by (simp add: prepare_runtime_def sample_image_loaded rt(1)) (simp add: sample_platform_def)
  ultimately show ?thesis using that run by blast
qed

definition sample_args :: RunArgs where
  "sample_args = \<lparr>ra_engine = Func, ra_elf = ''/bin/prog'', ra_config = None, ra_max_steps = 100000, ra_max_cycles = 256, ra_out_dir = ''a''\<rparr>"

definition sample_cosim_args :: CosimArgs where
  "sample_cosim_args = \<lparr>ca_engine = Func, ca_elf = ''/bin/prog'', ca_config = None, ca_qemu = ''a/commit.jsonl'', ca_protocol = ''m1'', ca_out_dir = ''b''\<rparr>"

lemma cosim_accepts_agreeing_witness:
  "\<exists>result fs1 fs2. lx_run sample_platform sample_args empty_files () = ToolOk (result, fs1) () \<and>
     lx_cosim sample_platform sample_cosim_args fs1 () = ToolOk (\<lparr>cp_matched_commits = 1, cp_mismatch = None\<rparr>, fs2) ()"
proof -
  obtain rt w b where rt: "\<And>dir. prepare_runtime sample_platform ''/bin/prog'' dir None = Inr \<lparr>pr_runtime = rt, pr_out_dir = dir\<rparr>"
    "\<And>n. 0 < n \<Longrightarrow> func_engine_run [] sample_host () rt n = RunOk b ()"
    "rr_commits (fb_result b) = [decode_miss_commit 0 0x1000 w sample_runtime]" "rr_decoded (fb_result b) = []"
    by (rule sample_run) (rule that)
  have pf: "pf_forms sample_platform = []" "pf_host sample_platform = sample_host" by (simp_all add: sample_platform_def)
  have insn: "cr_insn (decode_miss_commit 0 0x1000 w sample_runtime) = w" by (simp add: decode_miss_commit_def unsupported_def)
  have t: "try_map (\<lambda>r. Inr ''{}'' :: string + string) rs = Inr (map (\<lambda>r. ''{}'') rs)" for rs :: "TraceRecord list"
    by (rule try_map_all) simp
  have "\<exists>fs1. lx_run sample_platform sample_args empty_files () = ToolOk (fb_result b, fs1) ()"
    by (simp add: lx_run_def sample_args_def rt(1) execute_with_options_def run_options_of_def run_func_engine_def pf rt(2))
      (simp add: sample_platform_def write_commit_jsonl_def rt(3) write_file_def empty_files_def write_linxtrace_def t)
  then obtain fs1 where run: "lx_run sample_platform sample_args empty_files () = ToolOk (fb_result b, fs1) ()" by blast
  have json: "\<exists>l. pf_commit_json sample_platform c = Inr l \<and> json_object l \<and> pf_parse_commit sample_platform l = Inr c"
    if "c \<in> set (rr_commits (fb_result b))" for c
  proof -
    let ?l = "''{'' @ show_hex (unat w) @ ''}''"
    have c: "c = decode_miss_commit 0 0x1000 w sample_runtime" using that rt(3) by simp
    have "NEWLINE \<notin> set (show_hex (unat w))" "RETURN \<notin> set (show_hex (unat w))"
      using show_hex_no_whitespace [of "unat w"] by (auto simp: list_all_iff is_whitespace_def NEWLINE_def RETURN_def)
    then have "json_object ?l" by (simp add: json_object_def line_ok_def NEWLINE_def RETURN_def)
    moreover have "hex_number 0 (butlast (tl ?l)) = Some (unat w)" by (simp add: hex_number_show butlast_append)
    then have "pf_parse_commit sample_platform ?l = Inr c" by (simp add: sample_platform_def c)
    moreover have "pf_commit_json sample_platform c = Inr ?l" by (simp add: sample_platform_def c insn)
    ultimately show ?thesis by blast
  qed
  have ref: "load_commit_jsonl (pf_parse_commit sample_platform) (ca_qemu sample_cosim_args) fs1 = Inr (rr_commits (fb_result b))"
    using run_stream_loads [OF json run] by (simp add: sample_args_def sample_cosim_args_def path_join_def)
  have l: "length (rr_commits (fb_result b)) = 1" by (simp add: rt(3))
  have "(if list_all2 commits_agree (rr_commits (fb_result b)) (rr_commits (fb_result b))
      then \<exists>fs2. lx_cosim sample_platform sample_cosim_args fs1 () =
        ToolOk (\<lparr>cp_matched_commits = length (rr_commits (fb_result b)), cp_mismatch = None\<rparr>, fs2) ()
      else \<exists>e. lx_cosim sample_platform sample_cosim_args fs1 () = ToolErr (EngineError e)) \<and>
    (ca_qemu sample_cosim_args = path_join (ra_out_dir sample_args) ''commit.jsonl'' \<longrightarrow>
       list_all2 commits_agree (rr_commits (fb_result b)) (rr_commits (fb_result b)))"
    by (rule cosim_accepts_agreeing [OF json run _ _ _ _ _ _ _ _ _ ref])
      (simp_all add: sample_args_def sample_cosim_args_def sample_platform_def path_join_def empty_files_def)
  then show ?thesis using run l by (auto simp: sample_args_def sample_cosim_args_def path_join_def)
qed

lemma sweep_reports_every_case_witness:
  "\<exists>report. run_sweep sample_platform \<lparr>ss_cases = [\<lparr>sw_name = ''smoke'', sw_engine = Func, sw_elf = ''/bin/prog'', sw_iterations = 2\<rparr>]\<rparr> () = ToolOk report () \<and>
     length (sp_cases report) = 1 \<and> length (sr_cycles (hd (sp_cases report))) = 2"
proof -
  let ?c = "\<lparr>sw_name = ''smoke'', sw_engine = Func, sw_elf = ''/bin/prog'', sw_iterations = 2\<rparr>"
  obtain rt b where rt: "prepare_runtime sample_platform ''/bin/prog'' [] None = Inr \<lparr>pr_runtime = rt, pr_out_dir = []\<rparr>"
    "\<And>n. 0 < n \<Longrightarrow> func_engine_run [] sample_host () rt n = RunOk b ()"
    by (rule sample_run) (use that in blast)
  have "bootstrap sample_image default_runtime_config = Inr rt"
    using rt(1) by (auto simp: prepare_runtime_def sample_image_loaded split: sum.splits if_splits)
  moreover have "pf_forms sample_platform = []" "pf_host sample_platform = sample_host" by (simp_all add: sample_platform_def)
  ultimately have i: "sweep_iteration sample_platform ?c () = ToolOk (rr_metrics (fb_result b)) ()"
    by (simp add: sweep_iteration_def sample_image_loaded run_func_engine_def default_func_options_def rt(2))
  then obtain report where r: "run_sweep sample_platform \<lparr>ss_cases = [?c]\<rparr> () = ToolOk report ()"
    by (simp add: run_sweep_def numeral_2_eq_2)
  from sweep_reports_every_case [OF this] obtain x where "sp_cases report = [x]" "case_report_ok ?c x"
    by (auto simp: list_all2_Cons1)
  then show ?thesis using r by (auto simp: case_report_ok_def)
qed

section \<open>The trace file of a functional run\<close>

lemma step_marks_rows: "map (\<lambda>m. fst (snd m)) (concat (map step_marks [0..<n])) = map (\<lambda>i. ''uop'' @ show_nat i) [0 ..< 4 * n]"
proof (induction n)
  case (Suc n)
  have "[0 ..< 4 * Suc n] = [0 ..< 4 * n] @ [4 * n, 4 * n + 1, 4 * n + 2, 4 * n + 3]"
  proof -
    have "4 * Suc n = Suc (Suc (Suc (Suc (4 * n))))" by simp
    then show ?thesis by (simp only: upt_Suc) (simp add: eval_nat_numeral)
  qed
  with Suc show ?case by (simp add: step_marks_def del: mult_Suc_right)
qed simp

lemma func_run_rows:
  assumes "func_engine_run forms host h rt max_steps = RunOk b h'" and "rm_exit_reason (rr_metrics (fb_result b)) \<noteq> ''decode_fault''"
  shows "map ev_row_id (fb_stage_events b) = map (\<lambda>i. ''uop'' @ show_nat i) [0 ..< 4 * length (rr_commits (fb_result b))]"
proof -
  note t = func_run_traced [OF assms(1)]
  have "length (rr_commits (fb_result b)) = length (rr_decoded (fb_result b))"
    using t assms(2) by (auto simp: trace_end_def dest: commits_match_length)
  moreover have "map ev_row_id (fb_stage_events b) = map (\<lambda>m. fst (snd m)) (map event_mark (fb_stage_events b))"
    by (simp add: event_mark_def)
  ultimately show ?thesis using t assms(2) by (simp only: step_marks_rows run_marks_def if_False append_Nil2)
qed

lemma retire_records_nth:
  assumes "i < length (rr_commits result)" "i < length rows"
  shows "filter is_RETIRE (retire_records result rows) ! i =
    RETIRE (cr_cycle (rr_commits result ! i)) (rows ! i)
      (if i + 1 = length (rr_commits result) then rm_exit_reason (rr_metrics result) else ''retired'')"
proof -
  have "filter is_RETIRE (map (\<lambda>(i, c). RETIRE (f i c) (g i c) (k i c)) xs) = map (\<lambda>(i, c). RETIRE (f i c) (g i c) (k i c)) xs"
    for f g k and xs :: "(nat \<times> CommitRecord) list"
    by (induction xs) auto
  then show ?thesis using assms
    by (auto simp: retire_records_def Let_def nth_append nth_enumerate_eq vec_get_def)
qed

text \<open>In the trace file of a functional run the rows and the retirements do not meet. The engine gives every stage
  event a row of its own, named after the event's cycle, so the commit event of instruction \<open>i\<close> is in row
  \<open>4 * i + 3\<close>; the writer retires instruction \<open>i\<close> in the \<open>i\<close>-th row, which belongs to another event.\<close>

theorem func_trace_retires_other_row:
  assumes "func_engine_run forms host h rt max_steps = RunOk b h'" and "rm_exit_reason (rr_metrics (fb_result b)) \<noteq> ''decode_fault''"
    and "i < length (rr_commits (fb_result b))"
  shows "tr_row_id (filter is_RETIRE (linxtrace_records (fb_result b) (fb_stage_events b)) ! i) = ''uop'' @ show_nat i \<and>
    event_mark (fb_stage_events b ! (4 * i + 3)) = (4 * i + 3, ''uop'' @ show_nat (4 * i + 3), ''CMT'') \<and>
    ''uop'' @ show_nat i \<noteq> ''uop'' @ show_nat (4 * i + 3)"
proof -
  let ?n = "length (rr_commits (fb_result b))" and ?ev = "fb_stage_events b"
  have rows: "map ev_row_id ?ev = map (\<lambda>i. ''uop'' @ show_nat i) [0 ..< 4 * ?n]" by (rule func_run_rows [OF assms(1,2)])
  then have "first_seen ev_row_id ?ev = map (\<lambda>i. ''uop'' @ show_nat i) [0 ..< 4 * ?n]"
    using first_seen_distinct_id [of ev_row_id ?ev] by (simp add: distinct_map inj_on_def)
  then have c: "collect_row_ids ?ev ?n ! i = ''uop'' @ show_nat i" "i < length (collect_row_ids ?ev ?n)"
    using assms(3) by (simp_all add: collect_row_ids_def nth_append)
  have "filter is_RETIRE (linxtrace_records (fb_result b) ?ev) = filter is_RETIRE (retire_records (fb_result b) (collect_row_ids ?ev ?n))"
    by (simp add: linxtrace_records_def map_record_kinds meta_record_def Let_def)
  moreover note retire_records_nth [OF assms(3) c(2)]
  moreover have "map event_mark ?ev ! (4 * i + 3) = (4 * i + 3, ''uop'' @ show_nat (4 * i + 3), ''CMT'')"
  proof -
    note t = func_run_traced [OF assms(1)]
    have "length (rr_decoded (fb_result b)) = ?n" using t assms(2) by (auto simp: trace_end_def dest: commits_match_length)
    moreover have "concat (map step_marks [0..<n]) ! (4 * i + 3) = (4 * i + 3, ''uop'' @ show_nat (4 * i + 3), ''CMT'')" if "i < n" for n
    proof -
      have l: "length (concat (map step_marks [0..<k])) = 4 * k" for k by (induction k) (simp_all add: step_marks_def)
      have "[0..<n] = [0..<i] @ i # [Suc i..<n]" 
        using that upt_add_eq_append [of 0 i "n - i"] upt_conv_Cons [of i n] by simp
      then show ?thesis using l [of i] by (simp add: nth_append step_marks_def)
    qed
    ultimately show ?thesis using t assms(2,3) by (simp add: run_marks_def)
  qed
  moreover have "4 * i + 3 < length ?ev" using arg_cong [OF rows, of length] assms(3) by simp
  ultimately show ?thesis by (simp add: c(1))
qed

lemma func_trace_retires_other_row_witness:
  "\<exists>b. func_engine_run [ebreak_form] sample_host () sample_runtime 3 = RunOk b () \<and>
     tr_row_id (filter is_RETIRE (linxtrace_records (fb_result b) (fb_stage_events b)) ! 0) = ''uop'' @ show_nat 0 \<and>
     ev_row_id (fb_stage_events b ! 3) = ''uop'' @ show_nat 3"
proof -
  obtain b where b: "func_engine_run [ebreak_form] sample_host () sample_runtime 3 = RunOk b ()"
    "rm_exit_reason (rr_metrics (fb_result b)) = ''breakpoint''" "length (rr_commits (fb_result b)) = 1"
    using ebreak_run by blast
  from func_trace_retires_other_row [OF b(1), of 0] b show ?thesis by (simp add: event_mark_def)
qed

end
