(* ===== verification/Command_Line.thy ===== *)
theory Command_Line
  imports Tools
begin

text \<open>
  The command lines of the tools: the options of \<^verbatim>\<open>crates/lx-tools/src/bin\<close> with their defaults, and the programs
  from their options. Splitting the command line belongs to the clap crate: the model starts from the value given for each
  long option name, where one was given. A missing required option or a value that does not parse ends a program before it
  does anything.
\<close>

type_synonym options = "string \<Rightarrow> string option"

section \<open>Option values\<close>

text \<open>\<open>u64::from_str\<close>: an optional plus sign, at least one digit, no overflow.\<close>

definition u64_from_str :: "string \<Rightarrow> nat option" where
  "u64_from_str s =
     parse_usize (if s \<noteq> [] \<and> hd s = CHR ''+'' then tl s else s)"

definition engine_option :: "options \<Rightarrow> EngineKind option" where
  "engine_option opts =
     (case opts ''engine'' of None \<Rightarrow> None
      | Some value \<Rightarrow> (case engine_kind_from_str value of Inl _ \<Rightarrow> None | Inr engine \<Rightarrow> Some engine))"

definition number_option :: "options \<Rightarrow> string \<Rightarrow> nat \<Rightarrow> nat option" where
  "number_option opts name preset = (case opts name of None \<Rightarrow> Some preset | Some value \<Rightarrow> u64_from_str value)"

definition text_option :: "options \<Rightarrow> string \<Rightarrow> string \<Rightarrow> string" where
  "text_option opts name preset = (case opts name of None \<Rightarrow> preset | Some value \<Rightarrow> value)"

section \<open>The arguments of the programs\<close>

definition run_args :: "options \<Rightarrow> RunArgs option" where
  "run_args opts =
     (case (engine_option opts, opts ''elf'', number_option opts ''max-steps'' 100000, number_option opts ''max-cycles'' 64) of
        (Some engine, Some elf, Some max_steps, Some max_cycles) \<Rightarrow>
          Some \<lparr>ra_engine = engine, ra_elf = elf, ra_config = opts ''config'', ra_max_steps = max_steps, ra_max_cycles = max_cycles,
                ra_out_dir = text_option opts ''out-dir'' ''out/lx-run''\<rparr>
      | _ \<Rightarrow> None)"

definition cosim_args :: "options \<Rightarrow> CosimArgs option" where
  "cosim_args opts =
     (case (engine_option opts, opts ''elf'', opts ''qemu'') of
        (Some engine, Some elf, Some qemu) \<Rightarrow>
          Some \<lparr>ca_engine = engine, ca_elf = elf, ca_config = opts ''config'', ca_qemu = qemu,
                ca_protocol = text_option opts ''protocol'' ''m1'', ca_out_dir = text_option opts ''out-dir'' ''out/lx-cosim''\<rparr>
      | _ \<Rightarrow> None)"

definition sweep_args :: "options \<Rightarrow> SweepArgs option" where
  "sweep_args opts =
     map_option (\<lambda>suite. \<lparr>sa_suite = suite, sa_out_dir = text_option opts ''out-dir'' ''out/lx-sweep''\<rparr>) (opts ''suite'')"

definition lx_run_main :: "'h platform \<Rightarrow> options \<Rightarrow> Files \<Rightarrow> 'h \<Rightarrow> ('h, RunResult \<times> Files) tool_end option" where
  "lx_run_main pf opts fs h = map_option (\<lambda>args. lx_run pf args fs h) (run_args opts)"

definition lx_trace_main :: "'h platform \<Rightarrow> options \<Rightarrow> Files \<Rightarrow> 'h \<Rightarrow> ('h, string \<times> Files) tool_end option" where
  "lx_trace_main pf opts fs h =
     (case (engine_option opts, opts ''elf'') of
        (Some engine, Some elf) \<Rightarrow> Some (lx_trace pf engine elf (opts ''config'') (text_option opts ''out-dir'' ''out/lx-trace'') fs h)
      | _ \<Rightarrow> None)"

definition lx_cosim_main :: "'h platform \<Rightarrow> options \<Rightarrow> Files \<Rightarrow> 'h \<Rightarrow> ('h, CosimReport \<times> Files) tool_end option" where
  "lx_cosim_main pf opts fs h = map_option (\<lambda>args. lx_cosim pf args fs h) (cosim_args opts)"

definition lx_sweep_main ::
  "'h platform \<Rightarrow> (string \<Rightarrow> SweepSpec option) \<Rightarrow> (SweepReport \<Rightarrow> string + string) \<Rightarrow> (nat \<Rightarrow> nat \<Rightarrow> string) \<Rightarrow> options \<Rightarrow> Files \<Rightarrow> 'h \<Rightarrow>
   ('h, string \<times> Files) tool_end option" where
  "lx_sweep_main pf parse_toml to_json ratio opts fs h =
     map_option (\<lambda>args. lx_sweep pf parse_toml to_json ratio args fs h) (sweep_args opts)"

section \<open>Numbers and engines are read back\<close>

lemma u64_from_str_show: "n \<le> u64_max \<Longrightarrow> u64_from_str (show_nat n) = Some n"
proof -
  assume n: "n \<le> u64_max"
  have "show_nat n \<noteq> []" by (subst show_nat.simps) simp
  moreover have "hd (show_nat n) \<noteq> CHR ''+''"
    using show_nat_digits [of n] calculation by (cases "show_nat n") (auto simp: is_ascii_digit_def)
  ultimately show ?thesis using n by (simp add: u64_from_str_def parse_usize_def show_nat_digits show_nat_value usize_max_def u64_max_def)
qed

text \<open>Every argument record of \<open>lx-run\<close> has a command line.\<close>

definition engine_name :: "EngineKind \<Rightarrow> string" where
  "engine_name engine = (case engine of Func \<Rightarrow> ''func'' | Cycle \<Rightarrow> ''cycle'')"

definition run_command :: "RunArgs \<Rightarrow> options" where
  "run_command args =
     [''engine'' \<mapsto> engine_name (ra_engine args), ''elf'' \<mapsto> ra_elf args, ''max-steps'' \<mapsto> show_nat (ra_max_steps args),
      ''max-cycles'' \<mapsto> show_nat (ra_max_cycles args), ''out-dir'' \<mapsto> ra_out_dir args](''config'' := ra_config args)"

theorem run_command_round_trip:
  assumes "ra_max_steps args \<le> u64_max" "ra_max_cycles args \<le> u64_max"
  shows "run_args (run_command args) = Some args"
proof -
  have "engine_option (run_command args) = Some (ra_engine args)"
    by (cases "ra_engine args") (simp_all add: engine_option_def run_command_def engine_name_def engine_kind_from_str_def)
  moreover have "run_command args ''elf'' = Some (ra_elf args)" "run_command args ''config'' = ra_config args"
    "text_option (run_command args) ''out-dir'' d = ra_out_dir args" for d
    by (simp_all add: run_command_def text_option_def)
  moreover have "number_option (run_command args) ''max-steps'' d = Some (ra_max_steps args)"
    "number_option (run_command args) ''max-cycles'' d = Some (ra_max_cycles args)" for d
    using assms by (simp_all add: number_option_def run_command_def u64_from_str_show)
  ultimately show ?thesis by (simp add: run_args_def)
qed

section \<open>The default command lines\<close>

text \<open>With the functional engine and every option at its default, \<open>lx-cosim\<close> accepts the commit stream that \<open>lx-run\<close> left in
  its default directory.\<close>

theorem default_command_lines_agree:
  assumes json: "\<And>c. c \<in> set (rr_commits result) \<Longrightarrow>
      \<exists>l. pf_commit_json pf c = Inr l \<and> json_object l \<and> pf_parse_commit pf l = Inr c"
    and run: "lx_run_main pf [''engine'' \<mapsto> ''func'', ''elf'' \<mapsto> elf] fs h = Some (ToolOk (result, fs1) h')"
    and files: "pf_create_dir_all pf ''out/lx-cosim''" "vf_writable fs ''out/lx-cosim/dut.commit.jsonl''"
  shows "\<exists>fs2. lx_cosim_main pf [''engine'' \<mapsto> ''func'', ''elf'' \<mapsto> elf, ''qemu'' \<mapsto> ''out/lx-run/commit.jsonl''] fs1 h =
    Some (ToolOk (\<lparr>cp_matched_commits = length (rr_commits result), cp_mismatch = None\<rparr>, fs2) h')"
proof -
  let ?run = "\<lparr>ra_engine = Func, ra_elf = elf, ra_config = None, ra_max_steps = 100000, ra_max_cycles = 64, ra_out_dir = ''out/lx-run''\<rparr>"
  let ?cosim = "\<lparr>ca_engine = Func, ca_elf = elf, ca_config = None, ca_qemu = ''out/lx-run/commit.jsonl'', ca_protocol = ''m1'',
    ca_out_dir = ''out/lx-cosim''\<rparr>"
  have "run_args [''engine'' \<mapsto> ''func'', ''elf'' \<mapsto> elf] = Some ?run"
    by (simp add: run_args_def engine_option_def engine_kind_from_str_def number_option_def text_option_def)
  then have r: "lx_run pf ?run fs h = ToolOk (result, fs1) h'" using run by (simp add: lx_run_main_def)
  have c: "cosim_args [''engine'' \<mapsto> ''func'', ''elf'' \<mapsto> elf, ''qemu'' \<mapsto> ''out/lx-run/commit.jsonl''] = Some ?cosim"
    by (simp add: cosim_args_def engine_option_def engine_kind_from_str_def text_option_def)
  have "load_commit_jsonl (pf_parse_commit pf) ''out/lx-run/commit.jsonl'' fs1 = Inr (rr_commits result)"
    using run_stream_loads [OF json r] by (simp add: path_join_def)
  moreover have "\<exists>l. pf_commit_json pf c = Inr l" if "c \<in> set (rr_commits result)" for c using json [OF that] by blast
  ultimately have "if list_all2 commits_agree (rr_commits result) (rr_commits result)
    then \<exists>fs2. lx_cosim pf ?cosim fs1 h = ToolOk (\<lparr>cp_matched_commits = length (rr_commits result), cp_mismatch = None\<rparr>, fs2) h'
    else \<exists>e. lx_cosim pf ?cosim fs1 h = ToolErr (EngineError e)"
    using files by (intro cosim_verdict [OF _ r]) (simp_all add: path_join_def)
  then have "\<exists>fs2. lx_cosim pf ?cosim fs1 h = ToolOk (\<lparr>cp_matched_commits = length (rr_commits result), cp_mismatch = None\<rparr>, fs2) h'"
    by (simp add: commits_agree_refl)
  then show ?thesis by (simp add: lx_cosim_main_def c)
qed

end
