(* ===== verification/Spec2Isabelle.thy ===== *)
theory Spec2Isabelle
  imports Program_Order Cosim Func_Flow Func_Eventfd Isa_Tables Command_Line
begin

text \<open>
  LinxCoreModel is a simulator of the Linx instruction set in Rust. A static ELF program is loaded and booted in a
  guest memory; the functional engine executes it instruction by instruction, emulating Linux system calls, and
  leaves a trace: commit records, decoded instructions, stage events. The cycle engine replays that trace through an
  out-of-order pipeline and leaves commits with cycles and a trace of its own. The tools write both to files and
  compare commit streams with those of another simulator. This development models all of it, and proves what each
  part promises to the next.

  \<^bold>\<open>The cycle engine\<close> (\<^verbatim>\<open>crates/camodel\<close>). \<open>Uop_Model\<close> has the data (\<^verbatim>\<open>core/model.rs\<close>, \<^verbatim>\<open>core/config.rs\<close>): uops, issue-queue
  entries, the stage queues with every table the pipeline keeps, as records with the source's fields. Every theory
  after it models one module, one definition per function, with the pipeline state passed explicitly:
  \<open>Uop_Builder\<close> (\<^verbatim>\<open>decode\<close>: the commit trace turned into uops with dependencies, tags, redirect targets), \<open>Iq_Queues\<close>
  (\<^verbatim>\<open>issue/queues\<close>: entries, tags, owner table, wake-up, ready-table checkpoints), \<open>Iq_Select\<close> (\<^verbatim>\<open>issue/select\<close>: pick,
  arbitration, issue), \<open>Lsu\<close> (\<^verbatim>\<open>backend\<close>: execute stages, load and store queues, L1D, store-commit buffer), \<open>Frontend\<close>
  (\<^verbatim>\<open>frontend\<close>: fetch, stage movement, dispatch with its branch bookkeeping), \<open>Recovery\<close> (\<^verbatim>\<open>control/recovery\<close>: corrections,
  faults, redirects, flush, pruning), \<open>Trace_Emit\<close> (\<^verbatim>\<open>trace\<close>: stage tags and events), \<open>Commit\<close> (\<^verbatim>\<open>control/commit\<close>:
  retirement and traps), \<open>Engine\<close> (\<^verbatim>\<open>core/engine.rs\<close>: \<open>cycle_step\<close> is the loop body in the order of the source,
  \<open>run_loop\<close> the loop, \<open>cycle_engine_run\<close> the whole \<open>CycleEngine::run\<close>).

  \<^bold>\<open>The functional engine\<close> (\<^verbatim>\<open>crates/funcmodel/src/exec/mod.rs\<close>). \<open>Func_State\<close>: the execution state, registers, blocks, descriptor
  tables, division and shifts, copies between guest memory and host. \<open>Func_Syscalls\<close>: every system call, ending in \<open>dispatch_syscall\<close>.
  \<open>Func_Exec\<close>: every instruction, ending in \<open>execute_step\<close>. \<open>Func_Run\<close>: the run loop. A step works on a \<open>World\<close>:
  the execution state, the commit under construction and the state of the host; it ends as \<open>StepOk\<close>, \<open>StepErr\<close> (a Rust
  error, with the state it left), \<open>StepPanic\<close> or \<open>StepHang\<close>. \<open>Func_Steps\<close> gives the run loop as a machine: a
  small-step relation with one rule for each way a pass ends. \<open>Func_Invariants\<close> (steps), \<open>Func_Trace\<close> (the trace), \<open>Func_Descriptors\<close>
  (descriptor tables), \<open>Func_Eventfd\<close> (event counters) and \<open>Func_Flow\<close> (control flow, registers, loop and machine) prove what
  steps and runs keep.

  \<^bold>\<open>The guest\<close>. \<open>Guest_Memory\<close> (\<open>GuestMemory\<close> of \<^verbatim>\<open>crates/runtime/src/lib.rs\<close>: regions, checked accesses, mapping and protection),
  \<open>Guest_Runtime\<close> (\<^verbatim>\<open>crates/elf\<close>, and the bootstrap, boot stack and system call shim of \<^verbatim>\<open>crates/runtime\<close>),
  \<open>Guest_Image\<close> (loader and bootstrap together, from the bytes of the file to the bytes of the guest).

  \<^bold>\<open>The instruction set\<close> (\<^verbatim>\<open>crates/isa/src/lib.rs\<close>). \<open>Isa\<close>: the shared records, decoding a word, extracting fields.
  \<open>Isa_Tables\<close>: building the decode tables from the description of the instruction set.

  \<^bold>\<open>Files and tools\<close>. \<open>Text_Io\<close>: what is used of the standard library on strings and files. \<open>Linxtrace\<close> (\<^verbatim>\<open>crates/trace\<close>, and reading
  a commit stream in \<^verbatim>\<open>crates/cosim\<close>), \<open>Cosim\<close> (comparing streams), \<open>Tools\<close> (\<^verbatim>\<open>crates/lx-tools\<close> and \<^verbatim>\<open>crates/dse\<close>: the engines behind
  one interface, \<^verbatim>\<open>lx-run\<close>, \<^verbatim>\<open>lx-trace\<close>, \<^verbatim>\<open>lx-cosim\<close>, \<^verbatim>\<open>lx-sweep\<close>), \<open>Command_Line\<close> (their options with defaults). \<open>Prelude\<close> has the machine types, the parts of Rust's standard
  library the code calls (\<open>BTreeMap\<close> as a sorted association list with the laws of the locale \<open>ordered_map\<close>, saturating arithmetic,
  iterators) and the lemmas that all theories share.

  \<^bold>\<open>Reading the definitions\<close>. Addresses, registers and data are words of the source's width, so arithmetic on them wraps; the
  sources are read as a release build, in which \<open>+\<close> on a 64-bit integer wraps too. Counters that cannot reach their
  width in a run (cycles, sequence numbers, lengths) are natural numbers, with \<open>sat_mul\<close> and the like where the source
  saturates. A Rust \<open>Result\<close> is a sum with the error left, an \<open>Option\<close> an option; indexing out of range and
  \<open>expect\<close> are panics and have a value of their own. \<open>HashMap\<close> iterations whose order cannot be seen are sorted maps.
  Loops are recursions that end. The fuel of \<open>alloc_fd_loop\<close>, one more than the table's length, is enough
  (\<open>alloc_guest_fd_from_first\<close>); \<open>dep_load_gen_vec\<close> has as much fuel as there are uops and is proved to return the exact result; \<open>func_run_loop\<close> ends because a pass that retires nothing closes the open block, and the next one
  retires; \<open>wrapped_reg_sequence\<close> need not end, and a theorem says exactly when it does.
  Code of other crates and of the operating system is a parameter: the parser of ELF files (goblin), of
  configurations (toml), JSON rendering and parsing (serde_json), of the command line (clap), the libc calls of the host (record \<open>Host\<close>) with an
  arbitrary host state, file access. Hypotheses on them are stated where they are used (a rendered record is one object
  on one line that the parser reads back).

  \<^bold>\<open>What is proved\<close>.
  \<^item> The uop builder computes the reference reading of the trace; the state of any run is well formed: no uop is lost or held
    twice, the reorder buffer, the issue queues and the stages stay within their widths, E1 excepted, which a replayed load can fill by one
    more (\<open>Backend_Widths\<close>; the load and store queues have no bound in the code); retirement, flush, recovery, wake-up, arbitration, dispatch, memory order
    and the store-commit buffer do exactly what their descriptions say.
  \<^item> Whole runs: commits come from the functional trace, in cycle order, in program order up to the first redirect; on a trace
    without block boundaries the cycle engine refines the functional one, and such a run can be cosimulated.
  \<^item> A step of the functional engine keeps the register file and leaves a commit that names the next address; a
    system call touches A0 alone; descriptor tables stay consistent; frame instructions restore what they saved;
    division obeys its law; a run leaves one commit, one decoded instruction and four events per step.
  \<^item> The run loop agrees with the machine of the small-step relation, a higher step limit only continues a run, and the commits of a run follow the
    control flow: each is where the one before it points, or where a closed block ends. Event descriptors refine an abstract
    bounded counter.
  \<^item> Memory accesses change exactly their bytes and fault exactly without a region that covers them; \<open>mprotect\<close> and \<open>munmap\<close> are exact
    on bytes; a bootstrap succeeds and gives the guest its image, arguments and environment; every
    byte a program header asks for is the byte of the ELF file, or zero.
  \<^item> A form of the decode tables matches what the parts of its description match; decoding takes the most specific form.
  \<^item> Trace files are closed, commit streams survive the file, and \<^verbatim>\<open>lx-cosim\<close> accepts exactly the
    streams that agree with the run, the one \<^verbatim>\<open>lx-run\<close> wrote among them, with the default command lines of the functional engine in
    particular.
  \<^item> Two flaws are theorems: on a trace without block boundaries the cycle engine never reports a decode fault unless it is at the very
    first bundle, and the rows of a functional trace file are not those its instructions retire in (\<open>func_trace_retires_other_row\<close>).

  \<^bold>\<open>Interfaces\<close>. Laws that clients rely on are locales, interpreted on the model's definitions: \<open>ordered_map\<close> for maps, \<open>stage_mover\<close>
  and \<open>greedy_loop\<close> for the pipeline's stages and loops, \<open>byte_store\<close> for memory, and \<open>world_invariant\<close>: an invariant that survives the few elementary
  changes of a world survives every instruction. It is interpreted once for the register file and the commit, once for
  the descriptor tables. \<open>run_invariant\<close> carries an invariant of a pass to the states the machine reaches and to the result of the
  loop, for the trace, its growth and the control flow; \<open>exec_invariant\<close>, a sublocale of it, does so for a property of the execution
  state that steps and block ends keep, for the descriptor tables and for the registers.

  \<^bold>\<open>Not modelled\<close>. The splitting of the command line (clap) and terminal output of the tools, the \<open>f64\<close> quotients in the Markdown report of a
  sweep (a parameter), the process-wide cache of the decode tables (it returns what
  \<open>build_decode_tables\<close> computes), error message texts, the test modules. Strings are ASCII where the code accepts
  UTF-8. Allocation failure is not modelled.
\<close>

section \<open>Vocabulary of whole runs\<close>

definition func_limit :: "CycleRunOptions \<Rightarrow> nat" where
  "func_limit options = max (sat_mul (opt_max_cycles options) COMMIT_WIDTH) 1"

definition run_env_of :: "guest_view \<Rightarrow> CycleRunOptions \<Rightarrow> RunResult \<Rightarrow> run_env" where
  "run_env_of gv options fr =
     \<lparr>re_lane = gv_block_lane_id gv, re_options = options, re_target_commit_count = length (rr_commits fr),
      re_func_exit_reason = rm_exit_reason (rr_metrics fr)\<rparr>"

definition sample_env :: run_env where
  "sample_env = \<lparr>re_lane = ''lane0'', re_options = default_run_options, re_target_commit_count = 2,
     re_func_exit_reason = ''guest_exit''\<rparr>"

definition sample_uops :: "CycleUop list" where
  "sample_uops = [spec_uop queue_pair_commits queue_pair_decoded 0, spec_uop queue_pair_commits queue_pair_decoded 1]"

definition sample_guest :: guest_view where
  "sample_guest = \<lparr>gv_image_name = ''sample'', gv_pc = 0, gv_block_lane_id = ''lane0''\<rparr>"

definition sample_result :: RunResult where
  "sample_result = \<lparr>rr_image_name = ''sample'', rr_entry_pc = 0,
     rr_metrics = \<lparr>rm_engine = Func, rm_cycles = 2, rm_commits = 2, rm_exit_reason = ''guest_exit''\<rparr>,
     rr_commits = queue_pair_commits, rr_decoded = queue_pair_decoded\<rparr>"

definition sample_bundle :: CycleRunBundle where
  "sample_bundle =
     finish_run sample_guest (run_env_of sample_guest default_run_options sample_result)
       (run_loop 256 0 (run_env_of sample_guest default_run_options sample_result) (init_engine_state sample_uops))"

section \<open>From the run loop to the result\<close>

lemma cycle_engine_run_cases:
  assumes "cycle_engine_run gv options func_run = Inr b"
  obtains fr uops es r where "func_run (func_limit options) = Inr fr"
    "build_uops (rr_commits fr) (rr_decoded fr) = Some uops"
    "run_loop (if uops = [] then 0 else opt_max_cycles options) 0 (run_env_of gv options fr) (init_engine_state uops) = (es, r)"
    "rr_commits (cb_result b) = es_committed es"
    "rr_decoded (cb_result b) = List.map_filter (\<lambda>seq. map_option uo_decoded (vec_get (es_uops es) seq)) (es_retired_seqs es)"
    "if uops = [] then rm_cycles (rr_metrics (cb_result b)) = 0 \<and> rm_exit_reason (rr_metrics (cb_result b)) = rm_exit_reason (rr_metrics fr)
     else b = finish_run gv (run_env_of gv options fr) (es, r)"
    "rm_commits (rr_metrics (cb_result b)) = length (es_committed es)"
proof -
  note run_def = assms [unfolded cycle_engine_run_def Let_def func_limit_def [symmetric]]
  obtain fr where f: "func_run (func_limit options) = Inr fr"
    using run_def by (cases "func_run (func_limit options)") simp_all
  obtain uops where u: "build_uops (rr_commits fr) (rr_decoded fr) = Some uops"
    using run_def f by (cases "build_uops (rr_commits fr) (rr_decoded fr)") simp_all
  show thesis
  proof (cases "uops = []")
    case True
    then have b: "rr_commits (cb_result b) = []" "rr_decoded (cb_result b) = []" "rm_cycles (rr_metrics (cb_result b)) = 0"
      "rm_commits (rr_metrics (cb_result b)) = 0" "rm_exit_reason (rr_metrics (cb_result b)) = rm_exit_reason (rr_metrics fr)"
      using run_def f u by auto
    show thesis
      by (rule that [OF f u, of "init_engine_state uops" None])
         (simp_all add: b True init_engine_state_def map_filter_simps)
  next
    case False
    obtain es r where run: "run_loop (opt_max_cycles options) 0 (run_env_of gv options fr) (init_engine_state uops) = (es, r)"
      by fastforce
    have b: "b = finish_run gv (run_env_of gv options fr) (es, r)"
      using run_def f u False run by (simp add: run_env_of_def)
    have out: "rr_commits (cb_result b) = es_committed es" "rm_commits (rr_metrics (cb_result b)) = length (es_committed es)"
      "rr_decoded (cb_result b) = List.map_filter (\<lambda>seq. map_option uo_decoded (vec_get (es_uops es) seq)) (es_retired_seqs es)"
      by (simp_all add: b finish_run_def Let_def)
    show thesis by (rule that [OF f u _ out(1,3) _ out(2)]) (use False run b in simp_all)
  qed
qed

lemma run_decoded:
  assumes "engine_inv uops c es"
  shows "List.map_filter (\<lambda>seq. map_option uo_decoded (vec_get (es_uops es) seq)) (es_retired_seqs es) =
         map (\<lambda>seq. uo_decoded (uops ! seq)) (es_retired_seqs es)"
proof -
  have us: "map uop_static (es_uops es) = map uop_static uops" using assms by (simp add: engine_inv_def)
  have len: "length (es_uops es) = length uops" using us by (rule map_eq_imp_length_eq)
  have "\<forall>s \<in> set (es_retired_seqs es). s < length uops"
  proof
    fix s assume "s \<in> set (es_retired_seqs es)"
    then obtain i where "i < length (es_retired_seqs es)" "s = es_retired_seqs es ! i" by (auto simp: in_set_conv_nth)
    moreover have "commits_ok uops (es_committed es) (es_retired_seqs es)" using assms by (simp add: engine_inv_def)
    ultimately show "s < length uops" by (simp add: commits_ok_def list_all2_conv_all_nth)
  qed
  then have "\<forall>s \<in> set (es_retired_seqs es). map_option uo_decoded (vec_get (es_uops es) s) = Some (uo_decoded (uops ! s))"
    using uop_static_sel(1) [OF map_static_nth [OF us]] by (simp add: vec_get_def len)
  then show ?thesis by (rule map_filter_all_Some)
qed

section \<open>Whole runs\<close>

text \<open>C2: whatever the trace, the options and the number of cycles, the state a run ends in is
  well formed: no uop is held twice between fetch and completion, every uop held or waiting to
  retire has been fetched and belongs to the trace, the reorder buffer holds each uop once and at
  most 128 of them, and each issue queue holds at most 32. The frontend stages hold at most the dispatch width, P1, I1, I2, W1
  and W2 at most the issue width, E2, E3 and E4 at most the width of the memory unit, and the L1D port its own. E1 holds at most as many
  loads as the memory unit is wide and at most the issue width of other uops, so it can exceed the issue width by one.\<close>

theorem run_state_well_formed:
  assumes "length uops \<le> u64_max" and "run_loop k 0 env (init_engine_state uops) = (es, r)"
  shows "(\<forall>x. count (resident (es_pipe es) (es_iq es)) x \<le> 1) \<and>
         (\<forall>x. x \<in># resident (es_pipe es) (es_iq es) \<or> x \<in> set (es_rob es) \<longrightarrow> x < es_next_fetch_seq es) \<and>
         es_next_fetch_seq es \<le> length uops \<and>
         distinct (es_rob es) \<and> length (es_rob es) \<le> ROB_CAPACITY \<and>
         (\<forall>q. iq_occupancy (es_iq es) q \<le> IQ_CAPACITY) \<and>
         (\<forall>q \<in> set (sq_frontend (es_pipe es)). length q \<le> DISPATCH_WIDTH) \<and>
         length (sq_p1 (es_pipe es)) \<le> ISSUE_WIDTH \<and> length (sq_i1 (es_pipe es)) \<le> ISSUE_WIDTH \<and>
         length (sq_i2 (es_pipe es)) \<le> ISSUE_WIDTH \<and> length (sq_w2 (es_pipe es)) \<le> ISSUE_WIDTH \<and>
         length (filter (\<lambda>s. uo_is_load (uops ! s)) (sq_e1 (es_pipe es))) \<le> LSU_WIDTH \<and>
         length (filter (\<lambda>s. \<not> uo_is_load (uops ! s)) (sq_e1 (es_pipe es))) \<le> ISSUE_WIDTH \<and>
         length (sq_e1 (es_pipe es)) \<le> ISSUE_WIDTH + LSU_WIDTH \<and>
         length (sq_e2 (es_pipe es)) \<le> LSU_WIDTH \<and> length (sq_e3 (es_pipe es)) \<le> LSU_WIDTH \<and>
         length (sq_e4 (es_pipe es)) \<le> LSU_WIDTH \<and> length (sq_w1 (es_pipe es)) \<le> ISSUE_WIDTH \<and>
         length (sq_l1d (es_pipe es)) \<le> L1D_WIDTH"
proof -
  obtain c where c: "engine_at env uops c es"
    using run_loop_engine_at [OF engine_start assms(2)] by blast
  have inv: "engine_inv uops c es" by (rule engine_at_inv [OF c assms(1)])
  have ok: "backend_ok (is_load_in uops) (es_pipe es)" by (rule engine_at_backend_ok [OF c assms(1)])
  then have "length (sq_e1 (es_pipe es)) \<le> ISSUE_WIDTH + LSU_WIDTH" unfolding backend_ok_def by (blast intro: e1_width)
  with inv ok show ?thesis
    unfolding engine_inv_def pipe_inv_def dispatch_pre_def frontend_ok_def rob_ok_def backend_ok_def e1_ok_def is_load_in_def by blast
qed

text \<open>C13: commit timing of a whole run. Commits come out in non-decreasing cycle order, at most four
  per cycle, every one before the cycle limit, and the commit count reported is the number of commits delivered. The cycle
  count reported is zero when the functional run gave nothing to replay, the cycle limit when the run ends for that
  limit or delivers no commit, and otherwise one more than the cycle of the last commit; it never exceeds the limit.\<close>

theorem engine_run_commit_timing:
  assumes "cycle_engine_run gv options func_run = Inr b"
  shows "sorted (map cr_cycle (rr_commits (cb_result b))) \<and>
         (\<forall>t. length (filter (\<lambda>c. cr_cycle c = t) (rr_commits (cb_result b))) \<le> COMMIT_WIDTH) \<and>
         (\<forall>c \<in> set (rr_commits (cb_result b)). cr_cycle c < opt_max_cycles options) \<and>
         rm_cycles (rr_metrics (cb_result b)) \<le> opt_max_cycles options \<and>
         rm_commits (rr_metrics (cb_result b)) = length (rr_commits (cb_result b)) \<and>
         (\<exists>fr. func_run (func_limit options) = Inr fr \<and>
            rm_cycles (rr_metrics (cb_result b)) =
              (if rr_commits fr = [] \<or> rr_decoded fr = [] then 0
               else if rm_exit_reason (rr_metrics (cb_result b)) = ''cycle_limit'' \<or> rr_commits (cb_result b) = []
               then opt_max_cycles options
               else sat_add (cr_cycle (last (rr_commits (cb_result b)))) 1))"
proof -
  obtain fr uops es r where
    f: "func_run (func_limit options) = Inr fr" and u: "build_uops (rr_commits fr) (rr_decoded fr) = Some uops" and
    run: "run_loop (if uops = [] then 0 else opt_max_cycles options) 0 (run_env_of gv options fr) (init_engine_state uops) = (es, r)"
    and c: "rr_commits (cb_result b) = es_committed es" "rm_commits (rr_metrics (cb_result b)) = length (es_committed es)"
    and m: "if uops = [] then rm_cycles (rr_metrics (cb_result b)) = 0 \<and> rm_exit_reason (rr_metrics (cb_result b)) = rm_exit_reason (rr_metrics fr)
      else b = finish_run gv (run_env_of gv options fr) (es, r)"
    by (rule cycle_engine_run_cases [OF assms])
  have "timing_inv 0 (es_committed (init_engine_state uops))" by (simp add: timing_inv_def init_engine_state_def)
  from run_timing [OF run this] have t: "timing_inv (opt_max_cycles options) (es_committed es)"
    by (cases "uops = []") (auto simp: timing_inv_def)
  then have lt: "\<forall>c \<in> set (es_committed es). cr_cycle c < opt_max_cycles options" by (simp add: timing_inv_def)
  have "rm_cycles (rr_metrics (cb_result b)) \<le> opt_max_cycles options"
  proof (cases "uops = []")
    case False
    have "sat_add (cr_cycle (last (es_committed es))) 1 \<le> opt_max_cycles options" if "es_committed es \<noteq> []"
      using lt last_in_set [OF that] by (auto simp: sat_add_def Suc_le_eq)
    with False m show ?thesis by (simp add: finish_run_def Let_def run_env_of_def)
  qed (use m in simp)
  moreover have "rm_cycles (rr_metrics (cb_result b)) =
      (if rr_commits fr = [] \<or> rr_decoded fr = [] then 0
       else if rm_exit_reason (rr_metrics (cb_result b)) = ''cycle_limit'' \<or> es_committed es = [] then opt_max_cycles options
       else sat_add (cr_cycle (last (es_committed es))) 1)"
  proof -
    have "length uops = min (length (rr_commits fr)) (length (rr_decoded fr))"
      using u by (auto simp: build_uops_reference split: if_splits)
    then have "uops = [] \<longleftrightarrow> rr_commits fr = [] \<or> rr_decoded fr = []" by (metis length_0_conv min_0L min_0R min_def)
    then show ?thesis using m by (cases "uops = []") (simp_all add: finish_run_def Let_def run_env_of_def)
  qed
  ultimately show ?thesis using t lt f unfolding c timing_inv_def by blast
qed

lemma run_commits_from_trace:
  assumes b: "cycle_engine_run gv options func_run = Inr b"
    and f: "func_run (func_limit options) = Inr fr" and le: "length (rr_commits fr) \<le> u64_max"
  shows "length (rr_decoded (cb_result b)) = length (rr_commits (cb_result b)) \<and>
    (\<forall>j < length (rr_commits (cb_result b)). \<exists>i < min (length (rr_commits fr)) (length (rr_decoded fr)). \<exists>cycle t.
       rr_commits (cb_result b) ! j = retire_commit cycle t (rr_commits fr ! i) \<and>
       rr_decoded (cb_result b) ! j = rr_decoded fr ! i)"
proof -
  obtain fr' uops es r where f': "func_run (func_limit options) = Inr fr'"
    and u: "build_uops (rr_commits fr') (rr_decoded fr') = Some uops"
    and run: "run_loop (if uops = [] then 0 else opt_max_cycles options) 0 (run_env_of gv options fr') (init_engine_state uops) = (es, r)"
    and c: "rr_commits (cb_result b) = es_committed es"
    and d: "rr_decoded (cb_result b) = List.map_filter (\<lambda>seq. map_option uo_decoded (vec_get (es_uops es) seq)) (es_retired_seqs es)"
    by (rule cycle_engine_run_cases [OF b])
  have [simp]: "fr' = fr" using f f' by simp
  have ulen: "length uops = min (length (rr_commits fr)) (length (rr_decoded fr))"
    using u by (auto simp: build_uops_reference split: if_splits)
  then have "length uops \<le> u64_max" using le by simp
  from run_inv [OF this run] obtain k where inv: "engine_inv uops k es" by blast
  then have ok: "commits_ok uops (es_committed es) (es_retired_seqs es)" by (simp add: engine_inv_def)
  have d': "rr_decoded (cb_result b) = map (\<lambda>seq. uo_decoded (uops ! seq)) (es_retired_seqs es)"
    unfolding d by (rule run_decoded [OF inv])
  have len: "length (es_retired_seqs es) = length (es_committed es)"
    using ok unfolding commits_ok_def by (rule list_all2_lengthD [THEN sym])
  have "\<exists>i < length uops. \<exists>cycle t. es_committed es ! j = retire_commit cycle t (rr_commits fr ! i) \<and>
              rr_decoded (cb_result b) ! j = rr_decoded fr ! i" if j: "j < length (es_committed es)" for j
  proof -
    let ?s = "es_retired_seqs es ! j"
    have s: "?s < length uops" "\<exists>cycle t. es_committed es ! j = retire_commit cycle t (uo_commit (uops ! ?s))"
      using list_all2_nthD [OF ok [unfolded commits_ok_def] j] by auto
    have "uo_commit (uops ! ?s) = rr_commits fr ! ?s" "uo_decoded (uops ! ?s) = rr_decoded fr ! ?s"
      using build_uops_nth(1) [OF u s(1)] by simp_all
    with s j len show ?thesis by (intro exI [of _ ?s]) (auto simp: d')
  qed
  with len show ?thesis unfolding c by (simp add: d' ulen [symmetric])
qed

text \<open>C5: nothing is invented. Every commit a run delivers is the functional engine's commit of some
  instruction of the trace, with only its cycle replaced and, when a trap retires with it, the trap
  fields set; the decoded instruction delivered with it is that instruction's.\<close>

theorem engine_run_commits_from_trace:
  assumes "cycle_engine_run gv options func_run = Inr b"
    and "\<And>n fr. func_run n = Inr fr \<Longrightarrow> length (rr_commits fr) \<le> u64_max"
  shows "\<exists>fr. func_run (max (sat_mul (opt_max_cycles options) COMMIT_WIDTH) 1) = Inr fr \<and>
           length (rr_decoded (cb_result b)) = length (rr_commits (cb_result b)) \<and>
           (\<forall>j < length (rr_commits (cb_result b)). \<exists>i < length (rr_commits fr). \<exists>cycle t.
              rr_commits (cb_result b) ! j = retire_commit cycle t (rr_commits fr ! i) \<and>
              rr_decoded (cb_result b) ! j = rr_decoded fr ! i)"
proof -
  obtain fr where f: "func_run (func_limit options) = Inr fr" by (rule cycle_engine_run_cases [OF assms(1)])
  from run_commits_from_trace [OF assms(1) f assms(2) [OF f]] f show ?thesis
    by (fastforce simp: func_limit_def)
qed

lemma built_uops:
  assumes "build_uops cs ds = Some uops"
  shows "length uops = min (length cs) (length ds)" and "\<forall>u \<in> set uops. uo_done_cycle u = None"
  using assms by (auto simp: build_uops_reference spec_uop_def make_uop_def Let_def split: if_splits)

lemma straight_line_engine_run:
  assumes f: "func_run (func_limit options) = Inr fr" and u: "build_uops (rr_commits fr) (rr_decoded fr) = Some uops"
    and le: "length (rr_commits fr) \<le> u64_max" and sl: "straight_line uops"
    and b: "cycle_engine_run gv options func_run = Inr b"
  defines "out \<equiv> rr_commits (cb_result b)"
  shows "\<And>i. i < length out \<Longrightarrow> \<exists>cycle t. out ! i = retire_commit cycle t (rr_commits fr ! i)"
    and "rr_decoded (cb_result b) = take (length out) (rr_decoded fr)" and "length out \<le> length (rr_commits fr)"
    and "length out = length (rr_commits fr) \<Longrightarrow> rm_exit_reason (rr_metrics (cb_result b)) = rm_exit_reason (rr_metrics fr)"
proof -
  obtain es r where
    run: "run_loop (if uops = [] then 0 else opt_max_cycles options) 0 (run_env_of gv options fr) (init_engine_state uops) = (es, r)"
    and c: "out = es_committed es"
    and d: "rr_decoded (cb_result b) = List.map_filter (\<lambda>seq. map_option uo_decoded (vec_get (es_uops es) seq)) (es_retired_seqs es)"
    and m: "if uops = [] then rm_cycles (rr_metrics (cb_result b)) = 0 \<and> rm_exit_reason (rr_metrics (cb_result b)) = rm_exit_reason (rr_metrics fr)
      else b = finish_run gv (run_env_of gv options fr) (es, r)"
    using f u by (cases rule: cycle_engine_run_cases [OF b]) (auto simp: out_def)
  note ul = built_uops [OF u]
  have le': "length uops \<le> u64_max" using ul(1) le by simp
  have quiet: "\<forall>i < n. sq_pending_flush (es_pipe (fst (run_loop i 0 env (init_engine_state uops)))) = None" for n env
    using straight_line_run [OF le' sl] by blast
  note p = run_commits_prefix [OF le' run_order [OF le' ul(2) quiet] run]
  have nth: "uops ! i = spec_uop (rr_commits fr) (rr_decoded fr) i" if "i < length out" for i
    using build_uops_nth(1) [OF u, of i] that p(2) c by simp
  show "\<exists>cycle t. out ! i = retire_commit cycle t (rr_commits fr ! i)" if "i < length out" for i
    using p(3) [of i] that by (simp add: c nth [unfolded c])
  show "length out \<le> length (rr_commits fr)" using p(2) ul(1) by (simp add: c)
  obtain k where inv: "engine_inv uops k es" using run_inv [OF le' run] by blast
  have "rr_decoded (cb_result b) = map (\<lambda>i. uo_decoded (uops ! i)) [0 ..< length out]"
    using run_decoded [OF inv] by (simp add: d p(1) c)
  also have "\<dots> = map (\<lambda>i. rr_decoded fr ! i) [0 ..< length out]" by (simp add: nth)
  also have "\<dots> = take (length out) (rr_decoded fr)"
    using p(2) ul(1) by (intro nth_equalityI) (simp_all add: c)
  finally show "rr_decoded (cb_result b) = take (length out) (rr_decoded fr)" .
  show "rm_exit_reason (rr_metrics (cb_result b)) = rm_exit_reason (rr_metrics fr)" if "length out = length (rr_commits fr)"
    using m that by (auto simp: c finish_run_def Let_def run_env_of_def split: if_splits)
qed


text \<open>C12: program order up to the first redirect. If no redirect is scheduled in the first \<open>k\<close> cycles,
  the uops retired are the first ones of the trace, each once, in program order, and their commits
  are the functional engine's in the same order.\<close>

theorem run_in_order_until_redirect:
  assumes "build_uops cs ds = Some uops" and "length cs \<le> u64_max"
    and "\<forall>i < k. sq_pending_flush (es_pipe (fst (run_loop i 0 env (init_engine_state uops)))) = None"
    and "run_loop k 0 env (init_engine_state uops) = (es, r)"
  shows "es_retired_seqs es = [0 ..< length (es_committed es)] \<and>
         length (es_committed es) \<le> length cs \<and>
         (\<forall>i < length (es_committed es). \<exists>cycle t. es_committed es ! i = retire_commit cycle t (cs ! i))"
proof -
  have ulen: "length uops \<le> length cs" and done0: "\<forall>u \<in> set uops. uo_done_cycle u = None"
    using built_uops [OF assms(1)] by simp_all
  have le: "length uops \<le> u64_max" using ulen assms(2) by simp
  note c = run_commits_prefix [OF le run_order [OF le done0 assms(3)] assms(4)]
  have "uo_commit (uops ! i) = cs ! i" if "i < length (es_committed es)" for i
    using build_uops_nth(1) [OF assms(1), of i] that c(2) by simp
  with c ulen show ?thesis by auto
qed

text \<open>C3: a trace without block boundaries is replayed exactly. The commits delivered are a prefix of
  the functional engine's commits (cycle and trap fields apart), the decoded instructions are the
  same prefix, and when every commit has been delivered the exit reason is the functional one.\<close>

theorem straight_line_run_replays_trace:
  assumes "func_run (max (sat_mul (opt_max_cycles options) COMMIT_WIDTH) 1) = Inr fr"
    and "build_uops (rr_commits fr) (rr_decoded fr) = Some uops" and "length (rr_commits fr) \<le> u64_max"
    and "list_all (\<lambda>u. \<not> is_boundary_redirect_owner (uo_decoded u)) uops"
    and "cycle_engine_run gv options func_run = Inr b"
  shows "(\<forall>i < length (rr_commits (cb_result b)).
            \<exists>cycle t. rr_commits (cb_result b) ! i = retire_commit cycle t (rr_commits fr ! i)) \<and>
         rr_decoded (cb_result b) = take (length (rr_commits (cb_result b))) (rr_decoded fr) \<and>
         length (rr_commits (cb_result b)) \<le> length (rr_commits fr) \<and>
         (length (rr_commits (cb_result b)) = length (rr_commits fr) \<longrightarrow>
            rm_exit_reason (rr_metrics (cb_result b)) = rm_exit_reason (rr_metrics fr))"
  using straight_line_engine_run [of func_run options fr uops gv b] assms
  by (simp add: func_limit_def straight_line_def)

text \<open>Cosimulation of such a run against the functional engine can only fail in two ways: a trap
  the cycle engine raises on an instruction the functional engine did not trap on, or a run that
  was cut short, reported as a difference in the number of commits right after the last one.\<close>

theorem straight_line_run_cosim:
  assumes "func_run (max (sat_mul (opt_max_cycles options) COMMIT_WIDTH) 1) = Inr fr"
    and "build_uops (rr_commits fr) (rr_decoded fr) = Some uops" and "length (rr_commits fr) \<le> u64_max"
    and "list_all (\<lambda>u. \<not> is_boundary_redirect_owner (uo_decoded u)) uops"
    and "cycle_engine_run gv options func_run = Inr b"
    and "cp_mismatch (compare_commit_streams (rr_commits fr) (rr_commits (cb_result b))) = Some m"
  shows "cm_field m = ''trap_valid'' \<or>
         cm_field m = ''commit_count'' \<and> cm_index m = length (rr_commits (cb_result b)) \<and>
         length (rr_commits (cb_result b)) < length (rr_commits fr)"
proof -
  let ?e = "rr_commits fr" and ?a = "rr_commits (cb_result b)" and ?f = "\<lambda>i. compare_commit i (rr_commits fr ! i) (rr_commits (cb_result b) ! i)"
  note s = straight_line_engine_run [of func_run options fr uops gv b, unfolded func_limit_def straight_line_def, OF assms(1-5)]
  have n: "min (length ?e) (length ?a) = length ?a" using s(3) by simp
  have field: "\<exists>m. r = \<lparr>cp_matched_commits = i, cp_mismatch = Some m\<rparr> \<and> cm_field m = ''trap_valid''"
    if "i < length ?a" "?f i = Some r" for i r
    using s(1) [OF that(1)] that(2) by (auto simp: compare_commit_def mismatch_def retire_commit_def split: if_splits option.splits)
  show ?thesis
  proof (cases "find_map ?f [0 ..< length ?a]")
    case None
    then show ?thesis using assms(6) s(3) by (auto simp: compare_commit_streams_def n Let_def split: if_splits)
  next
    case (Some r)
    with find_map_Some [OF Some] field assms(6) show ?thesis by (fastforce simp: compare_commit_streams_def n Let_def)
  qed
qed

section \<open>The engines together\<close>

lemma retire_commit_fields:
  "cr_insn (retire_commit cycle t c) = cr_insn c" "cr_len (retire_commit cycle t c) = cr_len c" "cr_pc (retire_commit cycle t c) = cr_pc c"
  by (simp_all add: retire_commit_def Let_def split: option.split)

lemma run_cycle_engine_cases:
  assumes "run_cycle_engine pf rt options h = ToolOk b h'"
  obtains fb where "func_engine_run (pf_forms pf) (pf_host pf) h rt (func_limit options) = RunOk fb h'"
    "cycle_engine_run (guest_view_of rt) options (\<lambda>_. Inr (fb_result fb)) = Inr b"
  using assms
  by (auto simp: run_cycle_engine_def run_func_engine_def func_limit_def split: tool_end.splits run_end.splits sum.splits engine_error.splits)

lemma trace_end_encodings:
  assumes "trace_end cs ds reason" "i < min (length cs) (length ds)"
  shows "cr_insn (cs ! i) = di_instruction_bits (ds ! i) \<and> cr_len (cs ! i) = word_of_nat (length_bytes (ds ! i))"
proof -
  have "\<exists>ms. commits_match ms ds \<and> cs ! i = ms ! i \<and> i < length ds"
  proof (cases "reason = ''decode_fault''")
    case True
    then obtain ms c where ms: "cs = ms @ [c]" "commits_match ms ds" using assms(1) by (auto simp: trace_end_def)
    with commits_match_length [OF ms(2)] assms(2) show ?thesis by (intro exI [of _ ms]) (simp add: nth_append)
  next
    case False
    with assms show ?thesis by (intro exI [of _ cs]) (simp add: trace_end_def)
  qed
  then obtain ms where m: "commits_match ms ds" "cs ! i = ms ! i" "i < length ds" by blast
  then have "i < length ms" using commits_match_length by fastforce
  then have "map cr_insn ms ! i = cr_insn (ms ! i)" "map cr_len ms ! i = cr_len (ms ! i)" by simp_all
  with m show ?thesis by (simp add: commits_match_def)
qed

text \<open>C4: from the guest program to the cycle engine's trace. Whatever program, host and options, a run of the cycle
  engine on the functional engine's trace delivers commits that carry, one for one, the encodings and lengths of
  the decoded instructions delivered with them.\<close>

theorem cycle_run_encodings:
  assumes "run_cycle_engine pf rt options h = ToolOk b h'"
  shows "map cr_insn (rr_commits (cb_result b)) = map di_instruction_bits (rr_decoded (cb_result b)) \<and>
         map cr_len (rr_commits (cb_result b)) = map (\<lambda>d. word_of_nat (length_bytes d)) (rr_decoded (cb_result b))"
proof -
  obtain fb where f: "func_engine_run (pf_forms pf) (pf_host pf) h rt (func_limit options) = RunOk fb h'"
    and c: "cycle_engine_run (guest_view_of rt) options (\<lambda>_. Inr (fb_result fb)) = Inr b"
    by (rule run_cycle_engine_cases [OF assms])
  note t = func_run_traced [OF f]
  have "func_limit options \<le> u64_max" by (simp add: func_limit_def sat_mul_def u64_max_def)
  then have "length (rr_commits (fb_result fb)) \<le> u64_max" using t by linarith
  note r = run_commits_from_trace [OF c refl this]
  have e: "trace_end (rr_commits (fb_result fb)) (rr_decoded (fb_result fb)) (rm_exit_reason (rr_metrics (fb_result fb)))" using t by blast
  have "cr_insn (rr_commits (cb_result b) ! j) = di_instruction_bits (rr_decoded (cb_result b) ! j) \<and>
        cr_len (rr_commits (cb_result b) ! j) = word_of_nat (length_bytes (rr_decoded (cb_result b) ! j))"
    if j: "j < length (rr_commits (cb_result b))" for j
  proof -
    obtain i cycle x where i: "i < min (length (rr_commits (fb_result fb))) (length (rr_decoded (fb_result fb)))" and
      "rr_commits (cb_result b) ! j = retire_commit cycle x (rr_commits (fb_result fb) ! i)"
      "rr_decoded (cb_result b) ! j = rr_decoded (fb_result fb) ! i"
      using r j by blast
    with trace_end_encodings [OF e i] show ?thesis by (simp add: retire_commit_fields)
  qed
  then show ?thesis using r by (simp add: list_eq_iff_nth_eq)
qed

lemma run_loop_reason:
  "run_loop k cycle env es = (es', Some reason) \<Longrightarrow>
     (\<exists>cause. reason = trap_exit_reason cause) \<or> length (es_committed es') = re_target_commit_count env"
proof (induction k arbitrary: cycle es)
  case (Suc k)
  obtain es1 r where s: "cycle_step cycle env es = (es1, r)" by fastforce
  show ?case
  proof (cases r)
    case None
    then show ?thesis using Suc s by simp
  next
    case (Some x)
    then have "es1 = es'" "x = reason" using Suc.prems s by simp_all
    then show ?thesis using s Some by (auto simp: cycle_step_def Let_def split: prod.splits option.splits if_splits)
  qed
qed simp

text \<open>C33: the cycle engine and decode faults. A functional run that stopped at a bundle which does not decode has one
  commit more than decoded instructions; the cycle engine waits for that commit, which no uop stands for. When some
  instruction was decoded before, and none of the trace is a block boundary, it therefore never reports the decode fault: it
  runs to the cycle limit or to a trap, with fewer commits than the functional run. Only when the very first bundle does not
  decode, so that there is nothing to replay, does it return at once, without commits, and report the functional exit reason.\<close>

theorem decode_fault_report:
  assumes f: "func_run (func_limit options) = Inr fr" and u: "build_uops (rr_commits fr) (rr_decoded fr) = Some uops"
    and len: "length (rr_commits fr) = length (rr_decoded fr) + 1" "length (rr_commits fr) \<le> u64_max"
    and sl: "list_all (\<lambda>u. \<not> is_boundary_redirect_owner (uo_decoded u)) uops"
    and b: "cycle_engine_run gv options func_run = Inr b"
  shows "if rr_decoded fr = []
    then rr_commits (cb_result b) = [] \<and> rm_exit_reason (rr_metrics (cb_result b)) = rm_exit_reason (rr_metrics fr)
    else length (rr_commits (cb_result b)) < length (rr_commits fr) \<and>
      (rm_exit_reason (rr_metrics (cb_result b)) = ''cycle_limit'' \<or>
       (\<exists>cause. rm_exit_reason (rr_metrics (cb_result b)) = trap_exit_reason cause)) \<and>
      rm_exit_reason (rr_metrics (cb_result b)) \<noteq> ''decode_fault''"
proof (cases "rr_decoded fr = []")
  case True
  then have "uops = []" using built_uops(1) [OF u] by simp
  then show ?thesis using True b f [unfolded func_limit_def] u by (auto simp: cycle_engine_run_def Let_def)
next
  case some: False
  obtain es r where
    run: "run_loop (if uops = [] then 0 else opt_max_cycles options) 0 (run_env_of gv options fr) (init_engine_state uops) = (es, r)"
    and c: "rr_commits (cb_result b) = es_committed es"
    and m: "if uops = [] then rm_cycles (rr_metrics (cb_result b)) = 0 \<and> rm_exit_reason (rr_metrics (cb_result b)) = rm_exit_reason (rr_metrics fr)
      else b = finish_run gv (run_env_of gv options fr) (es, r)"
    using f u by (cases rule: cycle_engine_run_cases [OF b]) auto
  note ul = built_uops [OF u]
  have le: "length uops \<le> u64_max" and ne: "uops \<noteq> []" using ul(1) len some by auto
  have quiet: "\<forall>i < n. sq_pending_flush (es_pipe (fst (run_loop i 0 env (init_engine_state uops)))) = None" for n env
    using straight_line_run [OF le sl [folded straight_line_def]] by blast
  have short: "length (es_committed es) < length (rr_commits fr)"
    using run_commits_prefix(2) [OF le run_order [OF le ul(2) quiet] run] ul(1) len(1) by simp
  have reason: "rm_exit_reason (rr_metrics (cb_result b)) = unwrap_or r ''cycle_limit''"
    using m ne short by (simp add: finish_run_def Let_def run_env_of_def)
  have "r = None \<or> (\<exists>cause. r = Some (trap_exit_reason cause))"
  proof (cases r)
    case (Some x)
    with run_loop_reason [of "opt_max_cycles options" 0 "run_env_of gv options fr" "init_engine_state uops" es x] run ne short
    show ?thesis by (auto simp: run_env_of_def)
  qed simp
  then show ?thesis using some short reason c by (auto simp: trap_exit_reason_def)
qed

section \<open>Sample runs\<close>

lemma sample_builds: "build_uops queue_pair_commits queue_pair_decoded = Some sample_uops"
  by (simp add: queue_pair_builds sample_uops_def)

lemma sample_small: "length queue_pair_commits \<le> u64_max" "length sample_uops \<le> u64_max" "length sample_uops = 2"
  by (simp_all add: sample_defs sample_uops_def u64_max_def)

lemma sample_straight: "list_all (\<lambda>u. \<not> is_boundary_redirect_owner (uo_decoded u)) sample_uops"
  by (simp add: sample_uops_def sample_defs is_boundary_redirect_owner_def is_bstart_def is_bstop_def
      is_macro_boundary_def bstart_mnemonics_def)

lemma sample_run_def: "cycle_engine_run sample_guest default_run_options (\<lambda>_. Inr sample_result) = Inr sample_bundle"
proof -
  have "sample_uops \<noteq> []" by (simp add: sample_uops_def)
  moreover have "build_uops (rr_commits sample_result) (rr_decoded sample_result) = Some sample_uops"
    by (simp add: sample_result_def sample_builds)
  moreover have "opt_max_cycles default_run_options = 256" by (simp add: default_run_options_def)
  ultimately show ?thesis by (simp add: cycle_engine_run_def sample_bundle_def run_env_of_def Let_def)
qed

lemma run_state_well_formed_witness:
  "distinct (es_rob (fst (run_loop 20 0 sample_env (init_engine_state sample_uops)))) \<and>
   es_next_fetch_seq (fst (run_loop 20 0 sample_env (init_engine_state sample_uops))) \<le> 2"
  using run_state_well_formed [of sample_uops 20 sample_env, OF _ surjective_pairing] sample_small
  by simp

lemma engine_run_commit_timing_witness:
  "cycle_engine_run sample_guest default_run_options (\<lambda>_. Inr sample_result) = Inr sample_bundle \<and>
   sorted (map cr_cycle (rr_commits (cb_result sample_bundle))) \<and> rm_cycles (rr_metrics (cb_result sample_bundle)) \<le> 256"
  using engine_run_commit_timing [OF sample_run_def] sample_run_def by (simp add: default_run_options_def)

lemma engine_run_commits_from_trace_witness:
  "cycle_engine_run sample_guest default_run_options (\<lambda>_. Inr sample_result) = Inr sample_bundle \<and>
   length (rr_decoded (cb_result sample_bundle)) = length (rr_commits (cb_result sample_bundle))"
proof -
  have "length (rr_commits fr) \<le> u64_max" if "(\<lambda>_. Inr sample_result) n = (Inr fr :: string + RunResult)" for n :: nat and fr
    using that sample_small by (auto simp: sample_result_def)
  from engine_run_commits_from_trace [OF sample_run_def this] sample_run_def show ?thesis by blast
qed

lemma run_in_order_until_redirect_witness:
  "es_retired_seqs (fst (run_loop 20 0 sample_env (init_engine_state sample_uops))) =
     [0 ..< length (es_committed (fst (run_loop 20 0 sample_env (init_engine_state sample_uops))))]"
proof -
  have "\<forall>i < 20. sq_pending_flush (es_pipe (fst (run_loop i 0 sample_env (init_engine_state sample_uops)))) = None"
    using straight_line_run sample_small(2) sample_straight unfolding straight_line_def by blast
  from run_in_order_until_redirect [OF sample_builds sample_small(1) this surjective_pairing] show ?thesis by blast
qed

lemma straight_line_run_replays_trace_witness:
  "rr_decoded (cb_result sample_bundle) = take (length (rr_commits (cb_result sample_bundle))) queue_pair_decoded"
  using straight_line_run_replays_trace [of "\<lambda>_. Inr sample_result" default_run_options sample_result sample_uops]
    sample_run_def sample_builds sample_small sample_straight by (simp add: sample_result_def)

text \<open>A run of zero cycles is cut short at once.\<close>

lemma straight_line_run_cosim_witness:
  "\<exists>b m. cycle_engine_run sample_guest (default_run_options\<lparr>opt_max_cycles := 0\<rparr>) (\<lambda>_. Inr sample_result) = Inr b \<and>
     cp_mismatch (compare_commit_streams queue_pair_commits (rr_commits (cb_result b))) = Some m \<and>
     (cm_field m = ''trap_valid'' \<or> cm_field m = ''commit_count'' \<and> cm_index m = length (rr_commits (cb_result b)) \<and>
      length (rr_commits (cb_result b)) < 2)"
proof -
  let ?o = "default_run_options\<lparr>opt_max_cycles := 0\<rparr>"
  have r: "build_uops (rr_commits sample_result) (rr_decoded sample_result) = Some sample_uops"
    "rr_commits sample_result = queue_pair_commits" "length queue_pair_commits = 2"
    by (simp_all add: sample_result_def sample_builds) (simp add: sample_defs)
  have "sample_uops \<noteq> []" by (simp add: sample_uops_def)
  with r obtain b where b: "cycle_engine_run sample_guest ?o (\<lambda>_. Inr sample_result) = Inr b" "rr_commits (cb_result b) = []"
    by (simp add: cycle_engine_run_def Let_def finish_run_def init_engine_state_def)
  obtain m where m: "cp_mismatch (compare_commit_streams (rr_commits sample_result) (rr_commits (cb_result b))) = Some m"
    using r(2,3) b(2) by (simp add: compare_commit_streams_def)
  from straight_line_run_cosim [of "\<lambda>_. Inr sample_result" ?o sample_result sample_uops, OF refl r(1) _ sample_straight b(1) m]
  show ?thesis using b(1) m sample_small(1) r(2,3) by auto
qed

lemma cycle_run_encodings_witness:
  "\<exists>rt b. run_cycle_engine sample_platform rt default_run_options () = ToolOk b () \<and>
     map cr_insn (rr_commits (cb_result b)) = map di_instruction_bits (rr_decoded (cb_result b))"
proof -
  obtain rt w fb where fb: "\<And>n. 0 < n \<Longrightarrow> func_engine_run [] sample_host () rt n = RunOk fb ()"
    "rr_commits (fb_result fb) = [decode_miss_commit 0 0x1000 w sample_runtime]" "rr_decoded (fb_result fb) = []"
    by (rule sample_run) (use that in blast)
  have "build_uops [c] [] = Some []" for c by (simp add: build_uops_reference)
  then obtain b where "run_cycle_engine sample_platform rt default_run_options () = ToolOk b ()"
    by (simp add: run_cycle_engine_def run_func_engine_def fb cycle_engine_run_def sample_platform_def)
  from cycle_run_encodings [OF this] this show ?thesis by blast
qed

lemma cycle_engine_run_ok:
  "build_uops (rr_commits fr) (rr_decoded fr) = Some uops \<Longrightarrow> \<exists>b. cycle_engine_run gv options (\<lambda>_. Inr fr) = Inr b"
  by (simp add: cycle_engine_run_def Let_def)

lemma decode_fault_report_witness:
  "\<exists>b. cycle_engine_run sample_guest default_run_options
      (\<lambda>_. Inr (sample_result\<lparr>rr_decoded := take 1 queue_pair_decoded, rr_metrics := (rr_metrics sample_result)\<lparr>rm_exit_reason := ''decode_fault''\<rparr>\<rparr>)) = Inr b \<and>
     rm_exit_reason (rr_metrics (cb_result b)) \<noteq> ''decode_fault''"
proof -
  let ?fr = "sample_result\<lparr>rr_decoded := take 1 queue_pair_decoded, rr_metrics := (rr_metrics sample_result)\<lparr>rm_exit_reason := ''decode_fault''\<rparr>\<rparr>"
  have len: "length queue_pair_commits = 2" "length (take 1 queue_pair_decoded) = 1" by (simp_all add: sample_defs)
  have d: "rr_commits ?fr = queue_pair_commits" "rr_decoded ?fr = take 1 queue_pair_decoded" by (simp_all add: sample_result_def)
  have "list_all commit_regs_ok (take (length (take 1 queue_pair_decoded)) queue_pair_commits)"
    by (simp add: sample_defs commit_regs_ok_def)
  then obtain uops where u: "build_uops queue_pair_commits (take 1 queue_pair_decoded) = Some uops"
    by (simp only: build_uops_reference if_True)
  have ul: "length uops = 1" using built_uops(1) [OF u] len by simp
  have "uo_decoded (uops ! 0) = queue_pair_decoded ! 0" using build_uops_nth(1) [OF u, of 0] ul by simp
  moreover have "\<not> is_boundary_redirect_owner (queue_pair_decoded ! 0)"
    by (simp add: sample_defs is_boundary_redirect_owner_def is_bstart_def is_bstop_def is_macro_boundary_def bstart_mnemonics_def)
  ultimately have sl: "list_all (\<lambda>u. \<not> is_boundary_redirect_owner (uo_decoded u)) uops"
    using ul by (simp add: list_all_length)
  have u': "build_uops (rr_commits ?fr) (rr_decoded ?fr) = Some uops" unfolding d by (rule u)
  obtain b where b: "cycle_engine_run sample_guest default_run_options (\<lambda>_. Inr ?fr) = Inr b"
    using cycle_engine_run_ok [OF u'] by blast
  have "length (rr_commits ?fr) = length (rr_decoded ?fr) + 1" "length (rr_commits ?fr) \<le> u64_max" "rr_decoded ?fr \<noteq> []"
    using len unfolding d by (auto simp: u64_max_def)
  with decode_fault_report [OF refl u' this(1,2) sl b] b show ?thesis by auto
qed

end
